(* ===== verification/Prelude.thy ===== *)
theory Prelude
  imports Complex_Main "HOL-Library.Word" "HOL-Library.AList" "HOL-Library.Sublist"
begin

text \<open>
  What every component of the development shares: the types that stand for Python
  dictionaries, bounded deques and byte strings, the lemmas about them, Python's rounding,
  and the interface of a machine whose steps keep an invariant.

  A Python dictionary is an association list in insertion order: assignment is
  \<^const>\<open>AList.update\<close> (an existing key keeps its place, a new one goes to the end), deletion is
  \<^const>\<open>AList.delete\<close>, a lookup is \<^const>\<open>map_of\<close>.
\<close>

named_theorems dict_simps
named_theorems codec_simps

type_synonym ('k, 'v) dict = "('k \<times> 'v) list"
type_synonym bytes = "8 word list"

section \<open>Dictionaries\<close>

abbreviation dset :: "'k \<Rightarrow> 'v \<Rightarrow> ('k, 'v) dict \<Rightarrow> ('k, 'v) dict" where
  "dset \<equiv> AList.update"

abbreviation dpop :: "'k \<Rightarrow> ('k, 'v) dict \<Rightarrow> ('k, 'v) dict" where
  "dpop \<equiv> AList.delete"

definition dkeys :: "('k, 'v) dict \<Rightarrow> 'k list" where
  "dkeys d = map fst d"

definition dict_ok :: "('k, 'v) dict \<Rightarrow> bool" where
  "dict_ok d \<longleftrightarrow> distinct (map fst d)"

lemma map_of_dset [dict_simps]: "map_of (dset k v d) k' = (if k' = k then Some v else map_of d k')"
  by (simp add: update_conv')

lemma map_of_dpop [dict_simps]: "map_of (dpop k d) k' = (if k' = k then None else map_of d k')"
  by (simp add: delete_conv')

lemma dict_ok_Nil [simp]: "dict_ok []"
  by (simp add: dict_ok_def)

lemma dict_ok_dset [simp]: "dict_ok d \<Longrightarrow> dict_ok (dset k v d)"
  by (simp add: dict_ok_def distinct_update)

lemma dict_ok_dpop [simp]: "dict_ok d \<Longrightarrow> dict_ok (dpop k d)"
  by (simp add: dict_ok_def distinct_delete)

lemma dict_ok_filter [simp]: "dict_ok d \<Longrightarrow> dict_ok (filter P d)"
  by (auto simp: dict_ok_def distinct_map filter_is_subset inj_on_def)

lemma dict_ok_mem: "dict_ok d \<Longrightarrow> (k, v) \<in> set d \<longleftrightarrow> map_of d k = Some v"
  by (simp add: dict_ok_def)

lemma map_of_filter_dict:
  assumes "dict_ok d"
  shows "map_of (filter P d) k = (case map_of d k of None \<Rightarrow> None
    | Some v \<Rightarrow> if P (k, v) then Some v else None)"
proof (cases "map_of d k")
  case None
  then have "map_of (filter P d) k = None"
    by (auto simp: map_of_eq_None_iff)
  with None show ?thesis by simp
next
  case (Some v)
  show ?thesis
  proof (cases "P (k, v)")
    case True
    with Some assms have "(k, v) \<in> set (filter P d)"
      by (simp add: dict_ok_mem)
    with assms have "map_of (filter P d) k = Some v"
      by (simp add: dict_ok_mem[symmetric])
    with Some True show ?thesis by simp
  next
    case False
    have "map_of (filter P d) k \<noteq> Some w" for w
    proof
      assume "map_of (filter P d) k = Some w"
      then have "(k, w) \<in> set d" and "P (k, w)"
        by (auto dest: map_of_SomeD)
      with assms Some False show False by (simp add: dict_ok_mem)
    qed
    then show ?thesis using Some False by (cases "map_of (filter P d) k") auto
  qed
qed

lemma map_filter_mem: "x \<in> set xs \<Longrightarrow> f x = Some y \<Longrightarrow> y \<in> set (List.map_filter f xs)"
  by (force simp: List.map_filter_def)

lemma map_filter_cases: "y \<in> set (List.map_filter f xs) \<Longrightarrow> \<exists>x \<in> set xs. f x = Some y"
  by (force simp: List.map_filter_def)

text \<open>Mapping and filtering a dictionary by a function that keeps keys.\<close>

lemma dict_ok_map_filter:
  assumes "dict_ok d" and "\<And>x y. f x = Some y \<Longrightarrow> fst y = fst x"
  shows "dict_ok (List.map_filter f d)"
  using assms(1)
proof (induction d)
  case (Cons x d)
  show ?case
  proof (cases "f x")
    case None
    then show ?thesis using Cons by (simp add: dict_ok_def List.map_filter_simps)
  next
    case (Some y)
    have "fst y \<notin> fst ` set (List.map_filter f d)"
    proof
      assume "fst y \<in> fst ` set (List.map_filter f d)"
      then obtain z where "z \<in> set (List.map_filter f d)" "fst z = fst y" by force
      then obtain x' where "x' \<in> set d" "fst x' = fst x"
        using map_filter_cases assms(2) Some by metis
      then have "fst x \<in> fst ` set d" by (metis image_eqI)
      then show False using Cons.prems by (simp add: dict_ok_def)
    qed
    then show ?thesis using Cons Some by (simp add: dict_ok_def List.map_filter_simps)
  qed
qed (simp add: List.map_filter_simps)

section \<open>JSON values and strings\<close>

datatype json =
    JNull
  | JBool bool
  | JInt int
  | JNum real
  | JStr string
  | JList "json list"
  | JObj "(string \<times> json) list"

text \<open>What \<^verbatim>\<open>if value\<close> tests.\<close>

fun truthy :: "json \<Rightarrow> bool" where
  "truthy JNull = False"
| "truthy (JBool b) = b"
| "truthy (JInt i) = (i \<noteq> 0)"
| "truthy (JNum x) = (x \<noteq> 0)"
| "truthy (JStr s) = (s \<noteq> [])"
| "truthy (JList l) = (l \<noteq> [])"
| "truthy (JObj d) = (d \<noteq> [])"

text \<open>A JSON value used as a number: a Boolean is the integer 0 or 1.\<close>

fun as_number :: "json \<Rightarrow> real option" where
  "as_number (JInt i) = Some (of_int i)"
| "as_number (JNum x) = Some x"
| "as_number (JBool b) = Some (if b then 1 else 0)"
| "as_number _ = None"

text \<open>\<^verbatim>\<open>{**extra, **entry}\<close>: the later dictionary wins.\<close>

definition dict_merge :: "('k, 'v) dict \<Rightarrow> ('k, 'v) dict \<Rightarrow> ('k, 'v) dict" where
  "dict_merge extra entry = foldl (\<lambda>d (k, v). dset k v d) extra entry"

lemma map_of_dict_merge [dict_simps]:
  assumes "dict_ok entry"
  shows "map_of (dict_merge extra entry) k =
    (case map_of entry k of None \<Rightarrow> map_of extra k | Some v \<Rightarrow> Some v)"
  using assms
proof (induction entry arbitrary: extra)
  case Nil
  show ?case by (simp add: dict_merge_def)
next
  case (Cons kv entry)
  obtain a b where kv: "kv = (a, b)" by force
  from Cons.prems kv have ok: "dict_ok entry" and a: "map_of entry a = None"
    by (auto simp: dict_ok_def map_of_eq_None_iff)
  have "dict_merge extra (kv # entry) = dict_merge (dset a b extra) entry"
    by (simp add: dict_merge_def kv)
  then show ?case
    using Cons.IH[OF ok, of "dset a b extra"] a
    by (auto simp: kv map_of_dset split: option.splits)
qed

fun py_join :: "string \<Rightarrow> string list \<Rightarrow> string" where
  "py_join sep [] = ''''"
| "py_join sep [x] = x"
| "py_join sep (x # xs) = x @ sep @ py_join sep xs"

section \<open>Bounded deques\<close>

text \<open>\<^verbatim>\<open>deque(maxlen=m).append(x)\<close>: the oldest entries leave on the left.\<close>

definition deque_append :: "nat \<Rightarrow> 'a list \<Rightarrow> 'a \<Rightarrow> 'a list" where
  "deque_append m xs x = drop (length xs + 1 - m) (xs @ [x])"

lemma length_deque_append: "length xs \<le> m \<Longrightarrow> length (deque_append m xs x) \<le> m"
  by (simp add: deque_append_def)

lemma deque_append_suffix: "suffix (deque_append m xs x) (xs @ [x])"
  unfolding deque_append_def by (rule suffix_drop)

lemma last_deque_append: "0 < m \<Longrightarrow> length xs \<le> m \<Longrightarrow> last (deque_append m xs x) = x"
  by (simp add: deque_append_def)

lemma deque_append_not_Nil: "0 < m \<Longrightarrow> length xs \<le> m \<Longrightarrow> deque_append m xs x \<noteq> []"
  by (simp add: deque_append_def)

lemma suffix_snoc_mono: "suffix xs ys \<Longrightarrow> suffix (xs @ [x]) (ys @ [x])"
  by (auto simp: suffix_def)

lemma deque_append_suffix_of: "suffix xs ys \<Longrightarrow> suffix (deque_append m xs x) (ys @ [x])"
  using deque_append_suffix suffix_snoc_mono suffix_order.trans by metis

section \<open>Python's rounding\<close>

text \<open>\<^verbatim>\<open>round(x)\<close> rounds to the nearest integer, a tie to the even one; \<^verbatim>\<open>int(x)\<close> truncates.\<close>

definition py_round :: "real \<Rightarrow> int" where
  "py_round x = (let f = \<lfloor>x\<rfloor>; d = x - of_int f in
     if d < 1/2 then f else if d > 1/2 then f + 1 else if even f then f else f + 1)"

definition py_int :: "real \<Rightarrow> int" where
  "py_int x = (if 0 \<le> x then \<lfloor>x\<rfloor> else \<lceil>x\<rceil>)"

lemma py_round_error: "\<bar>of_int (py_round x) - x\<bar> \<le> 1/2"
  unfolding py_round_def Let_def by (auto simp: abs_real_def) linarith+

lemma py_round_of_int [simp]: "py_round (of_int n) = n"
  by (simp add: py_round_def)

lemma py_round_numeral [simp]: "py_round (numeral n) = numeral n" "py_round 0 = 0" "py_round 1 = 1"
  using py_round_of_int[of "numeral n"] py_round_of_int[of 0] py_round_of_int[of 1] by simp_all

lemma py_round_mono: "x \<le> y \<Longrightarrow> py_round x \<le> py_round y"
proof -
  assume le: "x \<le> y"
  show ?thesis
  proof (cases "\<lfloor>x\<rfloor> = \<lfloor>y\<rfloor>")
    case True
    with le show ?thesis by (simp add: py_round_def Let_def)
  next
    case False
    with le have "\<lfloor>x\<rfloor> + 1 \<le> \<lfloor>y\<rfloor>"
      using floor_mono[OF le] by linarith
    then show ?thesis by (auto simp: py_round_def Let_def)
  qed
qed

text \<open>\<^verbatim>\<open>round(x, d)\<close>, and \<^verbatim>\<open>x % m\<close> on floats, whose sign is that of the divisor.\<close>

definition round_to :: "nat \<Rightarrow> real \<Rightarrow> real" where
  "round_to d x = of_int (py_round (x * 10 ^ d)) / 10 ^ d"

definition py_fmod :: "real \<Rightarrow> real \<Rightarrow> real" where
  "py_fmod x m = x - m * of_int \<lfloor>x / m\<rfloor>"

lemma py_fmod_bounds:
  assumes "0 < m"
  shows "0 \<le> py_fmod x m" and "py_fmod x m < m"
  using floor_divide_lower[OF assms, of x] floor_divide_upper[OF assms, of x]
  by (simp_all add: py_fmod_def algebra_simps)

lemma py_fmod_id: "0 \<le> x \<Longrightarrow> x < m \<Longrightarrow> py_fmod x m = x"
  by (simp add: py_fmod_def floor_eq_iff)

text \<open>\<^verbatim>\<open>str(i)\<close> of an integer.\<close>

fun digits :: "nat \<Rightarrow> string" where
  "digits n = (if n < 10 then [char_of (48 + n)] else digits (n div 10) @ [char_of (48 + n mod 10)])"

declare digits.simps [simp del]

definition py_str :: "int \<Rightarrow> string" where
  "py_str i = (if i < 0 then CHR ''-'' # digits (nat (- i)) else digits (nat i))"

text \<open>
  Case mapping and trimming of ASCII text, and the formats \<^verbatim>\<open>{x:.df}\<close>. A Python string is the
  list of the bytes of its UTF-8 encoding.
\<close>

definition py_upper :: "string \<Rightarrow> string" where
  "py_upper s = map (\<lambda>c. let k = of_char c :: nat in
     if 97 \<le> k \<and> k \<le> 122 then char_of (k - 32) else c) s"

definition py_lower :: "string \<Rightarrow> string" where
  "py_lower s = map (\<lambda>c. let k = of_char c :: nat in
     if 65 \<le> k \<and> k \<le> 90 then char_of (k + 32) else c) s"

fun py_capitalize :: "string \<Rightarrow> string" where
  "py_capitalize [] = []"
| "py_capitalize (c # cs) = py_upper [c] @ py_lower cs"

definition is_space :: "char \<Rightarrow> bool" where
  "is_space c = (let k = of_char c :: nat in (9 \<le> k \<and> k \<le> 13) \<or> (28 \<le> k \<and> k \<le> 32))"

definition py_strip :: "string \<Rightarrow> string" where
  "py_strip s = rev (dropWhile is_space (rev (dropWhile is_space s)))"

text \<open>The part after the last dot, \<^verbatim>\<open>s.rsplit(".", 1)[-1]\<close>.\<close>

definition after_last_dot :: "string \<Rightarrow> string" where
  "after_last_dot s = rev (takeWhile (\<lambda>c. c \<noteq> CHR ''.'') (rev s))"

definition zero_pad :: "nat \<Rightarrow> string \<Rightarrow> string" where
  "zero_pad w s = replicate (w - length s) (CHR ''0'') @ s"

definition fmt_fixed :: "nat \<Rightarrow> real \<Rightarrow> string" where
  "fmt_fixed d x =
     (let n = nat \<bar>py_round (x * 10 ^ d)\<bar> in
      (if x < 0 then ''-'' else []) @ digits (n div 10 ^ d) @
      (if d = 0 then [] else ''.'' @ zero_pad d (digits (n mod 10 ^ d))))"

definition EM_DASH :: string where
  "EM_DASH = [CHR 0xE2, CHR 0x80, CHR 0x94]"

definition NOT_EQUAL :: string where
  "NOT_EQUAL = [CHR 0xE2, CHR 0x89, CHR 0xA0]"

section \<open>Points in space\<close>

type_synonym point3 = "real \<times> real \<times> real"

definition dist3 :: "point3 \<Rightarrow> point3 \<Rightarrow> real" where
  "dist3 a b = (case (a, b) of ((x, y, z), (x', y', z')) \<Rightarrow>
     sqrt ((x - x')\<^sup>2 + (y - y')\<^sup>2 + (z - z')\<^sup>2))"

section \<open>Methods: state and exceptions\<close>

text \<open>
  A method that changes its object and may raise is a function from the state to a result
  (\<^const>\<open>Inl\<close> the exception) and the state it leaves, which an exception does not undo.
  \<open>sx_keeps P m\<close> says that \<open>m\<close> keeps \<open>P\<close> whether it raises or not, \<open>sx_post P m Q\<close> what holds
  when it returns.
\<close>

type_synonym ('s, 'e, 'a) sx = "'s \<Rightarrow> ('e + 'a) \<times> 's"

named_theorems sx_rules

definition sx_return :: "'a \<Rightarrow> ('s, 'e, 'a) sx" where
  "sx_return a s = (Inr a, s)"

definition sx_throw :: "'e \<Rightarrow> ('s, 'e, 'a) sx" where
  "sx_throw e s = (Inl e, s)"

definition sx_bind :: "('s, 'e, 'a) sx \<Rightarrow> ('a \<Rightarrow> ('s, 'e, 'b) sx) \<Rightarrow> ('s, 'e, 'b) sx" where
  "sx_bind m f s = (case m s of (Inl e, s') \<Rightarrow> (Inl e, s') | (Inr a, s') \<Rightarrow> f a s')"

definition sx_then :: "('s, 'e, 'a) sx \<Rightarrow> ('s, 'e, 'b) sx \<Rightarrow> ('s, 'e, 'b) sx" where
  "sx_then m m' = sx_bind m (\<lambda>_. m')"

definition sx_get :: "('s \<Rightarrow> 'a) \<Rightarrow> ('s, 'e, 'a) sx" where
  "sx_get f s = (Inr (f s), s)"

definition sx_modify :: "('s \<Rightarrow> 's) \<Rightarrow> ('s, 'e, unit) sx" where
  "sx_modify g s = (Inr (), g s)"

fun sx_iter :: "('a \<Rightarrow> ('s, 'e, unit) sx) \<Rightarrow> 'a list \<Rightarrow> ('s, 'e, unit) sx" where
  "sx_iter f [] = sx_return ()"
| "sx_iter f (x # xs) = sx_then (f x) (sx_iter f xs)"

lemmas sx_defs = sx_return_def sx_throw_def sx_bind_def sx_then_def sx_get_def sx_modify_def

definition sx_keeps :: "('s \<Rightarrow> bool) \<Rightarrow> ('s, 'e, 'a) sx \<Rightarrow> bool" where
  "sx_keeps P m \<longleftrightarrow> (\<forall>s. P s \<longrightarrow> P (snd (m s)))"

definition sx_post :: "('s \<Rightarrow> bool) \<Rightarrow> ('s, 'e, 'a) sx \<Rightarrow> ('a \<Rightarrow> 's \<Rightarrow> bool) \<Rightarrow> bool" where
  "sx_post P m Q \<longleftrightarrow> (\<forall>s a s'. P s \<longrightarrow> m s = (Inr a, s') \<longrightarrow> Q a s')"

lemma sx_keepsD: "sx_keeps P m \<Longrightarrow> P s \<Longrightarrow> P (snd (m s))"
  by (simp add: sx_keeps_def)

lemma sx_keeps_return [sx_rules]: "sx_keeps P (sx_return a)"
  and sx_keeps_throw [sx_rules]: "sx_keeps P (sx_throw e)"
  and sx_keeps_get [sx_rules]: "sx_keeps P (sx_get f)"
  by (simp_all add: sx_keeps_def sx_defs)

lemma sx_keeps_modify: "(\<And>s. P s \<Longrightarrow> P (g s)) \<Longrightarrow> sx_keeps P (sx_modify g)"
  by (simp add: sx_keeps_def sx_defs)

lemma sx_keeps_bind [sx_rules]:
  "sx_keeps P m \<Longrightarrow> (\<And>a. sx_keeps P (f a)) \<Longrightarrow> sx_keeps P (sx_bind m f)"
  unfolding sx_keeps_def sx_bind_def by (force split: prod.splits sum.splits)

lemma sx_keeps_then [sx_rules]: "sx_keeps P m \<Longrightarrow> sx_keeps P m' \<Longrightarrow> sx_keeps P (sx_then m m')"
  unfolding sx_then_def by (intro sx_keeps_bind)

lemma sx_keeps_if [sx_rules]:
  "(b \<Longrightarrow> sx_keeps P m) \<Longrightarrow> (\<not> b \<Longrightarrow> sx_keeps P m') \<Longrightarrow> sx_keeps P (if b then m else m')"
  by simp

lemma sx_keeps_iter: "(\<And>x. x \<in> set xs \<Longrightarrow> sx_keeps P (f x)) \<Longrightarrow> sx_keeps P (sx_iter f xs)"
  by (induction xs) (auto intro!: sx_keeps_return sx_keeps_then)

lemma sx_bind_Inr:
  "sx_bind m f s = (Inr b, s'') \<longleftrightarrow> (\<exists>a s'. m s = (Inr a, s') \<and> f a s' = (Inr b, s''))"
  unfolding sx_bind_def by (auto split: prod.splits sum.splits)

lemma sx_then_Inr:
  "sx_then m m' s = (Inr b, s'') \<longleftrightarrow> (\<exists>a s'. m s = (Inr a, s') \<and> m' s' = (Inr b, s''))"
  unfolding sx_then_def by (rule sx_bind_Inr)

text \<open>A method that does not raise a given exception.\<close>

definition sx_never :: "'e \<Rightarrow> ('s, 'e, 'a) sx \<Rightarrow> bool" where
  "sx_never e m \<longleftrightarrow> (\<forall>s. fst (m s) \<noteq> Inl e)"

lemma sx_never_return: "sx_never e (sx_return a)"
  and sx_never_throw: "e' \<noteq> e \<Longrightarrow> sx_never e (sx_throw e')"
  and sx_never_get: "sx_never e (sx_get f)"
  and sx_never_modify: "sx_never e (sx_modify g)"
  by (simp_all add: sx_never_def sx_defs)

lemma sx_never_bind: "sx_never e m \<Longrightarrow> (\<And>a. sx_never e (f a)) \<Longrightarrow> sx_never e (sx_bind m f)"
proof (unfold sx_never_def, intro allI)
  fix s assume m: "\<forall>s. fst (m s) \<noteq> Inl e" and f: "\<And>a. \<forall>s. fst (f a s) \<noteq> Inl e"
  obtain r s' where "m s = (r, s')" by force
  then show "fst (sx_bind m f s) \<noteq> Inl e"
    using m[rule_format, of s] f by (cases r) (simp_all add: sx_bind_def)
qed

lemma sx_never_then: "sx_never e m \<Longrightarrow> sx_never e m' \<Longrightarrow> sx_never e (sx_then m m')"
  unfolding sx_then_def by (intro sx_never_bind)

lemmas sx_never_rules = sx_never_return sx_never_throw sx_never_get sx_never_modify sx_never_bind
  sx_never_then

section \<open>Machines whose steps keep an invariant\<close>

text \<open>
  Several components are a state and a set of operations. The interface below is what
  each of them promises of its invariant; what holds after any sequence of operations is
  proved once, from the interface.
\<close>

fun run_ops :: "('op \<Rightarrow> 's \<Rightarrow> 's) \<Rightarrow> 'op list \<Rightarrow> 's \<Rightarrow> 's" where
  "run_ops step [] s = s"
| "run_ops step (x # xs) s = run_ops step xs (step x s)"

lemma run_ops_append [simp]: "run_ops step (xs @ ys) s = run_ops step ys (run_ops step xs s)"
  by (induction xs arbitrary: s) auto

locale invariant_machine =
  fixes step :: "'op \<Rightarrow> 's \<Rightarrow> 's"
    and inv :: "'s \<Rightarrow> bool"
  assumes step_inv: "inv s \<Longrightarrow> inv (step x s)"
begin

lemma run_inv: "inv s \<Longrightarrow> inv (run_ops step xs s)"
  by (induction xs arbitrary: s) (auto intro: step_inv)

end

text \<open>A machine with a quantity that never goes down (a counter, an audit trail's length).\<close>

locale monotone_machine = invariant_machine step inv
  for step :: "'op \<Rightarrow> 's \<Rightarrow> 's" and inv :: "'s \<Rightarrow> bool" +
  fixes level :: "'s \<Rightarrow> 'l :: preorder"
  assumes step_level: "inv s \<Longrightarrow> level s \<le> level (step x s)"
begin

lemma run_level: "inv s \<Longrightarrow> level s \<le> level (run_ops step xs s)"
proof (induction xs arbitrary: s)
  case Nil
  show ?case by simp
next
  case (Cons x xs)
  have "level s \<le> level (step x s)" using Cons.prems by (rule step_level)
  also have "\<dots> \<le> level (run_ops step xs (step x s))"
    using Cons.prems by (intro Cons.IH step_inv)
  finally show ?case by simp
qed

end

text \<open>
  A machine that, as long as only certain operations run, keeps an invariant and is related to where it
  started by a preorder (what has been added to a list, what is still on record).
\<close>

locale guarded_machine =
  fixes step :: "'op \<Rightarrow> 's \<Rightarrow> 's"
    and inv :: "'s \<Rightarrow> bool"
    and ok :: "'op \<Rightarrow> bool"
    and rel :: "'s \<Rightarrow> 's \<Rightarrow> bool"
  assumes step_keeps: "inv s \<Longrightarrow> ok x \<Longrightarrow> inv (step x s)"
    and step_rel: "inv s \<Longrightarrow> ok x \<Longrightarrow> rel s (step x s)"
    and rel_refl: "rel s s"
    and rel_trans: "rel s t \<Longrightarrow> rel t u \<Longrightarrow> rel s u"
begin

lemma run_keeps: "inv s \<Longrightarrow> list_all ok xs \<Longrightarrow> inv (run_ops step xs s) \<and> rel s (run_ops step xs s)"
proof (induction xs arbitrary: s)
  case (Cons x xs)
  have "inv (step x s)" "rel s (step x s)" using Cons.prems by (auto intro: step_keeps step_rel)
  then show ?case using Cons.IH[of "step x s"] Cons.prems rel_trans by auto
qed (simp add: rel_refl)

end

text \<open>
  A table whose entries are only ever granted by an operation and may be dropped by one: the
  operations a client calls, the lookup it makes, and which entries an operation grants in a
  state or certainly drops. An entry that is found was granted by some operation and dropped
  by none since.
\<close>

locale grant_table =
  fixes step :: "'op \<Rightarrow> 's \<Rightarrow> 's"
    and look :: "'s \<Rightarrow> 'k \<Rightarrow> 'v option"
    and granted :: "'op \<Rightarrow> 's \<Rightarrow> 'k \<Rightarrow> 'v \<Rightarrow> bool"
    and dropped :: "'op \<Rightarrow> 'k \<Rightarrow> 'v \<Rightarrow> bool"
  assumes step_look: "look (step x s) k = Some v \<Longrightarrow>
      granted x s k v \<or> (look s k = Some v \<and> \<not> dropped x k v)"
begin

lemma found_was_granted:
  "look (run_ops step xs s) k = Some v \<Longrightarrow> look s k = None \<Longrightarrow>
     \<exists>ys x zs. xs = ys @ x # zs \<and> granted x (run_ops step ys s) k v \<and> (\<forall>z \<in> set zs. \<not> dropped z k v)"
proof (induction xs rule: rev_induct)
  case Nil
  then show ?case by simp
next
  case (snoc x xs)
  from snoc.prems(1) have "look (step x (run_ops step xs s)) k = Some v" by simp
  from step_look[OF this] show ?case
  proof
    assume "granted x (run_ops step xs s) k v"
    then show ?thesis by (intro exI[of _ xs] exI[of _ x] exI[of _ "[]"]) simp
  next
    assume old: "look (run_ops step xs s) k = Some v \<and> \<not> dropped x k v"
    then obtain ys y zs where "xs = ys @ y # zs" "granted y (run_ops step ys s) k v"
        "\<forall>z \<in> set zs. \<not> dropped z k v"
      using snoc.IH snoc.prems(2) by blast
    then show ?thesis using old by (intro exI[of _ ys] exI[of _ y] exI[of _ "zs @ [x]"]) auto
  qed
qed

end

end
