(* ===== verification/Struct_Codec.thy ===== *)
theory Struct_Codec
  imports Prelude
begin

text \<open>
  The part of Python's \<^verbatim>\<open>struct\<close> module the wire formats use: little-endian packing
  (format prefix \<open><\<close>, no alignment) of unsigned and signed integers of a fixed number of
  bytes, raw byte strings and pad bytes. A value out of its field's range is
  \<^verbatim>\<open>struct.error\<close>, here \<^const>\<open>None\<close>. The interface \<open>fixed_codec\<close> is what a fixed width
  encoder and its decoder promise each other; streams of records are decoded from it.
\<close>

section \<open>Little-endian integers\<close>

fun le_enc :: "nat \<Rightarrow> nat \<Rightarrow> bytes" where
  "le_enc 0 x = []"
| "le_enc (Suc n) x = word_of_nat x # le_enc n (x div 256)"

fun le_dec :: "bytes \<Rightarrow> nat" where
  "le_dec [] = 0"
| "le_dec (b # bs) = unat b + 256 * le_dec bs"

lemma length_le_enc [simp, codec_simps]: "length (le_enc n x) = n"
  by (induction n arbitrary: x) auto

lemma unat_byte_of_nat: "unat (word_of_nat x :: 8 word) = x mod 256"
  by (simp add: unat_of_nat)

lemma le_dec_enc [codec_simps]: "le_dec (le_enc n x) = x mod 256 ^ n"
proof (induction n arbitrary: x)
  case 0
  show ?case by simp
next
  case (Suc n)
  show ?case
    by (simp add: Suc unat_byte_of_nat mod_mult2_eq)
qed

lemma le_dec_bound: "le_dec bs < 256 ^ length bs"
proof (induction bs)
  case Nil
  show ?case by simp
next
  case (Cons b bs)
  have "unat b < 256" using unsigned_less[of b, where ?'a = nat] by simp
  moreover have "le_dec bs + 1 \<le> 256 ^ length bs" using Cons by simp
  ultimately show ?case by simp
qed

lemma byte_256: "(256 :: 8 word) = 0"
  by (simp add: word_eq_iff_unsigned)

lemma le_enc_dec [codec_simps]: "le_enc (length bs) (le_dec bs) = bs"
proof (induction bs)
  case Nil
  show ?case by simp
next
  case (Cons b bs)
  have b: "unat b < 256" using unsigned_less[of b, where ?'a = nat] by simp
  then have "word_of_nat (unat b + 256 * le_dec bs) = b"
    by (simp add: byte_256)
  moreover have "(unat b + 256 * le_dec bs) div 256 = le_dec bs" using b by simp
  ultimately show ?case using Cons by simp
qed

section \<open>struct.pack and struct.unpack\<close>

text \<open>
  \<open>FU n\<close>: unsigned, \<open>n\<close> bytes (B, H, I, Q); \<open>FI n\<close>: signed (h); \<open>FS n\<close>: \<open>n\<close> raw
  bytes (4s, 16s; a shorter value is filled with zeros, a longer one cut); \<open>FX\<close>: a pad byte.
\<close>

datatype fmt = FU nat | FI nat | FS nat | FX

datatype fval = VI int | VB bytes

fun fmt_size :: "fmt \<Rightarrow> nat" where
  "fmt_size (FU n) = n"
| "fmt_size (FI n) = n"
| "fmt_size (FS n) = n"
| "fmt_size FX = 1"

definition calcsize :: "fmt list \<Rightarrow> nat" where
  "calcsize fs = sum_list (map fmt_size fs)"

fun struct_pack :: "fmt list \<Rightarrow> fval list \<Rightarrow> bytes option" where
  "struct_pack [] [] = Some []"
| "struct_pack (FX # fs) vs = map_option (Cons 0) (struct_pack fs vs)"
| "struct_pack (FU n # fs) (VI v # vs) =
     (if 0 \<le> v \<and> v < 256 ^ n
      then map_option (append (le_enc n (nat v))) (struct_pack fs vs) else None)"
| "struct_pack (FI n # fs) (VI v # vs) =
     (if - (256 ^ n div 2) \<le> v \<and> v < 256 ^ n div 2
      then map_option (append (le_enc n (nat (v mod 256 ^ n)))) (struct_pack fs vs) else None)"
| "struct_pack (FS n # fs) (VB b # vs) =
     map_option (append (take n b @ replicate (n - length b) 0)) (struct_pack fs vs)"
| "struct_pack _ _ = None"

text \<open>The arguments \<^verbatim>\<open>struct.pack\<close> accepts: one per field, of its kind and within its width.\<close>

fun packable :: "fmt list \<Rightarrow> fval list \<Rightarrow> bool" where
  "packable [] [] = True"
| "packable (FX # fs) vs = packable fs vs"
| "packable (FU n # fs) (VI v # vs) = (0 \<le> v \<and> v < 256 ^ n \<and> packable fs vs)"
| "packable (FI n # fs) (VI v # vs) =
     (- (256 ^ n div 2) \<le> v \<and> v < 256 ^ n div 2 \<and> packable fs vs)"
| "packable (FS n # fs) (VB b # vs) = packable fs vs"
| "packable _ _ = False"

lemma struct_pack_packable: "(\<exists>bs. struct_pack fs vs = Some bs) \<longleftrightarrow> packable fs vs"
  by (induction fs vs rule: struct_pack.induct) auto

definition to_signed :: "nat \<Rightarrow> nat \<Rightarrow> int" where
  "to_signed n x = (if int x < 256 ^ n div 2 then int x else int x - 256 ^ n)"

fun struct_unpack :: "fmt list \<Rightarrow> bytes \<Rightarrow> fval list option" where
  "struct_unpack [] bs = (if bs = [] then Some [] else None)"
| "struct_unpack (FX # fs) bs =
     (case bs of [] \<Rightarrow> None | b # bs' \<Rightarrow> struct_unpack fs bs')"
| "struct_unpack (FU n # fs) bs =
     (if length bs < n then None
      else map_option (Cons (VI (int (le_dec (take n bs))))) (struct_unpack fs (drop n bs)))"
| "struct_unpack (FI n # fs) bs =
     (if length bs < n then None
      else map_option (Cons (VI (to_signed n (le_dec (take n bs))))) (struct_unpack fs (drop n bs)))"
| "struct_unpack (FS n # fs) bs =
     (if length bs < n then None
      else map_option (Cons (VB (take n bs))) (struct_unpack fs (drop n bs)))"

text \<open>The values a format gives back unchanged: raw fields of exactly their width.\<close>

fun exact_fields :: "fmt list \<Rightarrow> fval list \<Rightarrow> bool" where
  "exact_fields [] vs = True"
| "exact_fields (FX # fs) vs = exact_fields fs vs"
| "exact_fields (FS n # fs) (VB b # vs) = (length b = n \<and> exact_fields fs vs)"
| "exact_fields (f # fs) (v # vs) = exact_fields fs vs"
| "exact_fields (f # fs) [] = True"

lemma calcsize_simps [simp, codec_simps]:
  "calcsize [] = 0" "calcsize (f # fs) = fmt_size f + calcsize fs"
  by (simp_all add: calcsize_def)

lemma struct_pack_length: "struct_pack fs vs = Some bs \<Longrightarrow> length bs = calcsize fs"
  by (induction fs vs arbitrary: bs rule: struct_pack.induct)
    (auto split: if_splits)

lemma struct_unpack_length: "struct_unpack fs bs = Some vs \<Longrightarrow> length bs = calcsize fs"
  by (induction fs bs arbitrary: vs rule: struct_unpack.induct)
    (auto split: if_splits list.splits)

lemma struct_unpack_total: "length bs = calcsize fs \<Longrightarrow> \<exists>vs. struct_unpack fs bs = Some vs"
  by (induction fs bs rule: struct_unpack.induct) (auto split: list.splits)

lemma to_signed_mod:
  assumes "0 < n" and "- (256 ^ n div 2) \<le> (v::int)" and "v < 256 ^ n div 2"
  shows "to_signed n (nat (v mod 256 ^ n)) = v"
proof -
  have even: "(2::int) dvd 256 ^ n" using assms(1) by (cases n) auto
  then have half: "(256::int) ^ n div 2 + 256 ^ n div 2 = 256 ^ n" by auto
  show ?thesis
  proof (cases "0 \<le> v")
    case True
    with assms half have "v mod 256 ^ n = v" by simp
    with True assms(3) show ?thesis by (simp add: to_signed_def)
  next
    case False
    have "v mod 256 ^ n = (v + 256 ^ n) mod 256 ^ n" by simp
    also have "\<dots> = v + 256 ^ n"
      using False assms(2) half by (intro mod_pos_pos_trivial) auto
    finally have e: "v mod 256 ^ n = v + 256 ^ n" .
    with False assms(2) half show ?thesis by (simp add: to_signed_def)
  qed
qed

text \<open>Fields of positive width: what \<^verbatim>\<open>h\<close> has; a signed field of width 0 does not exist.\<close>

fun signed_ok :: "fmt \<Rightarrow> bool" where
  "signed_ok (FI n) = (0 < n)"
| "signed_ok f = True"

lemma nat_less_pow: "0 \<le> v \<Longrightarrow> v < 256 ^ n \<Longrightarrow> nat v < 256 ^ n"
  by (metis nat_less_iff of_nat_numeral of_nat_power)

lemma struct_unpack_pack:
  assumes "struct_pack fs vs = Some bs" and "exact_fields fs vs" and "list_all signed_ok fs"
  shows "struct_unpack fs bs = Some vs"
  using assms
proof (induction fs vs arbitrary: bs rule: struct_pack.induct)
  case (3 n fs v vs)
  then show ?case by (auto simp: le_dec_enc nat_less_pow split: if_splits)
next
  case (4 n fs v vs)
  then show ?case by (auto simp: le_dec_enc to_signed_mod split: if_splits)
qed auto

section \<open>Fixed width codecs\<close>

text \<open>
  A stream of records, as \<^verbatim>\<open>struct.iter_unpack\<close> reads it: consecutive chunks of the
  record's size; a rest shorter than a record is an error.
\<close>

function iter_unpack :: "nat \<Rightarrow> (bytes \<Rightarrow> 'a option) \<Rightarrow> bytes \<Rightarrow> 'a list option" where
  "iter_unpack w dec bs =
     (if bs = [] then Some []
      else if w = 0 \<or> length bs < w then None
      else case dec (take w bs) of None \<Rightarrow> None
           | Some x \<Rightarrow> map_option (Cons x) (iter_unpack w dec (drop w bs)))"
  by pat_completeness auto
termination
  by (relation "measure (\<lambda>(w, dec, bs). length bs)") auto

declare iter_unpack.simps [simp del]

fun enc_all :: "('a \<Rightarrow> bytes option) \<Rightarrow> 'a list \<Rightarrow> bytes option" where
  "enc_all enc [] = Some []"
| "enc_all enc (x # xs) =
     (case enc x of None \<Rightarrow> None | Some b \<Rightarrow> map_option (append b) (enc_all enc xs))"

locale fixed_codec =
  fixes enc :: "'a \<Rightarrow> bytes option"
    and dec :: "bytes \<Rightarrow> 'a option"
    and width :: nat
  assumes width_pos: "0 < width"
    and enc_length: "enc x = Some bs \<Longrightarrow> length bs = width"
    and dec_enc: "enc x = Some bs \<Longrightarrow> dec bs = Some x"
begin

lemma enc_inj: "enc x = Some bs \<Longrightarrow> enc y = Some bs \<Longrightarrow> x = y"
  by (metis dec_enc option.inject)

lemma enc_all_length: "enc_all enc xs = Some bs \<Longrightarrow> length bs = length xs * width"
  by (induction xs arbitrary: bs) (auto dest: enc_length split: option.splits)

lemma iter_unpack_enc_all: "enc_all enc xs = Some bs \<Longrightarrow> iter_unpack width dec bs = Some xs"
proof (induction xs arbitrary: bs)
  case Nil
  then show ?case by (simp add: iter_unpack.simps)
next
  case (Cons x xs)
  then obtain b bs' where b: "enc x = Some b" and bs': "enc_all enc xs = Some bs'"
    and bs: "bs = b @ bs'"
    by (auto split: option.splits)
  have len: "length b = width" using b by (rule enc_length)
  then have ne: "b \<noteq> []" using width_pos by auto
  show ?case
    using ne len dec_enc[OF b] Cons.IH[OF bs'] width_pos
    by (subst iter_unpack.simps) (simp add: bs)
qed

lemma enc_all_inj: "enc_all enc xs = Some bs \<Longrightarrow> enc_all enc ys = Some bs \<Longrightarrow> xs = ys"
  by (metis iter_unpack_enc_all option.inject)

end

end
