(* ===== verification/Fleet_Fsm.thy ===== *)
theory Fleet_Fsm
  imports Prelude
begin

text \<open>
  The fleet lifecycle state machine, \<^verbatim>\<open>packages/tara-gcs/tara_gcs/fleet_fsm.py\<close>: the states and
  the transition table, the operator commands and the states each is legal in, the machine
  (\<^verbatim>\<open>FleetStateMachine\<close>) with its check / apply / transition / advance operations, and the audit
  trail every accepted transition and every rejected command leaves with the observers and in
  the audit file. The clock reading, the outcome of the file write and what the context
  provider returns are arguments of an operation.
\<close>

section \<open>States and transitions\<close>

datatype lifecycle =
    S_STAGED | S_PREARM | S_ARMED | S_TAKEOFF | S_FORMATION_HOLD | S_RUNNING
  | S_SHOW_COMPLETE | S_LANDING | S_RTL | S_ESTOP | S_DISARMED

fun state_value :: "lifecycle \<Rightarrow> string" where
  "state_value S_STAGED = ''STAGED''"
| "state_value S_PREARM = ''PREARM''"
| "state_value S_ARMED = ''ARMED''"
| "state_value S_TAKEOFF = ''TAKEOFF''"
| "state_value S_FORMATION_HOLD = ''FORMATION_HOLD''"
| "state_value S_RUNNING = ''RUNNING''"
| "state_value S_SHOW_COMPLETE = ''SHOW_COMPLETE''"
| "state_value S_LANDING = ''LANDING''"
| "state_value S_RTL = ''RTL''"
| "state_value S_ESTOP = ''ESTOP''"
| "state_value S_DISARMED = ''DISARMED''"

fun state_description :: "lifecycle \<Rightarrow> string" where
  "state_description S_STAGED = ''fleet on its pads, not yet launched''"
| "state_description S_PREARM = ''launch requested, waiting for drones to become armable''"
| "state_description S_ARMED = ''drones armed, climb not started''"
| "state_description S_TAKEOFF = ''fleet climbing to formation altitude, takeoff not complete''"
| "state_description S_FORMATION_HOLD = ''fleet hovering in formation, ready to start the show''"
| "state_description S_RUNNING = ''show trajectory playing''"
| "state_description S_SHOW_COMPLETE = ''show finished, fleet hovering at its final positions''"
| "state_description S_LANDING = ''fleet landing''"
| "state_description S_RTL = ''fleet returning to launch''"
| "state_description S_ESTOP = ''emergency stop, motors killed''"
| "state_description S_DISARMED = ''fleet on the ground, disarmed''"

definition state_order :: "lifecycle list" where
  "state_order = [S_STAGED, S_PREARM, S_ARMED, S_TAKEOFF, S_FORMATION_HOLD, S_RUNNING,
     S_SHOW_COMPLETE, S_LANDING, S_RTL, S_ESTOP, S_DISARMED]"

definition EMERGENCY_STATES :: "lifecycle set" where
  "EMERGENCY_STATES = {S_LANDING, S_RTL, S_ESTOP}"

definition AIRBORNE_STATES :: "lifecycle set" where
  "AIRBORNE_STATES = {S_ARMED, S_TAKEOFF, S_FORMATION_HOLD, S_RUNNING, S_SHOW_COMPLETE,
     S_LANDING, S_RTL, S_ESTOP}"

fun TRANSITIONS :: "lifecycle \<Rightarrow> lifecycle set" where
  "TRANSITIONS S_STAGED = {S_PREARM}"
| "TRANSITIONS S_PREARM = {S_ARMED, S_STAGED}"
| "TRANSITIONS S_ARMED = {S_TAKEOFF, S_DISARMED}"
| "TRANSITIONS S_TAKEOFF = {S_FORMATION_HOLD, S_DISARMED}"
| "TRANSITIONS S_FORMATION_HOLD = {S_RUNNING, S_DISARMED}"
| "TRANSITIONS S_RUNNING = {S_SHOW_COMPLETE, S_FORMATION_HOLD, S_DISARMED}"
| "TRANSITIONS S_SHOW_COMPLETE = {S_DISARMED}"
| "TRANSITIONS S_LANDING = {S_DISARMED}"
| "TRANSITIONS S_RTL = {S_DISARMED}"
| "TRANSITIONS S_ESTOP = {S_DISARMED}"
| "TRANSITIONS S_DISARMED = {S_PREARM}"

definition can_transition :: "lifecycle \<Rightarrow> lifecycle \<Rightarrow> bool" where
  "can_transition src dst \<longleftrightarrow> dst \<in> EMERGENCY_STATES \<or> dst \<in> TRANSITIONS src"

section \<open>Commands\<close>

datatype command =
    C_LAUNCH | C_START_TRAJECTORY | C_STOP_TRAJECTORY | C_LAND | C_RTL | C_ESTOP
  | C_UPLOAD_TRAJECTORY | C_UPLOAD_MISSION | C_RESUME_SHOW | C_DISCARD_SHOW
  | C_SINGLE_DRONE_HOVER

fun command_value :: "command \<Rightarrow> string" where
  "command_value C_LAUNCH = ''launch''"
| "command_value C_START_TRAJECTORY = ''start_trajectory''"
| "command_value C_STOP_TRAJECTORY = ''stop_trajectory''"
| "command_value C_LAND = ''land''"
| "command_value C_RTL = ''rtl''"
| "command_value C_ESTOP = ''estop''"
| "command_value C_UPLOAD_TRAJECTORY = ''upload_trajectory''"
| "command_value C_UPLOAD_MISSION = ''upload_mission''"
| "command_value C_RESUME_SHOW = ''resume_show''"
| "command_value C_DISCARD_SHOW = ''discard_show''"
| "command_value C_SINGLE_DRONE_HOVER = ''single_drone_hover''"

record command_rule =
  allowed_from :: "lifecycle set"
  rule_target :: "lifecycle option"
  rule_action :: string

definition all_states :: "lifecycle set" where
  "all_states = set state_order"

definition not_running :: "lifecycle set" where
  "not_running = all_states - {S_RUNNING}"

fun COMMAND_RULES :: "command \<Rightarrow> command_rule" where
  "COMMAND_RULES C_LAUNCH =
     \<lparr>allowed_from = {S_STAGED, S_DISARMED}, rule_target = Some S_PREARM,
      rule_action = ''launch the fleet''\<rparr>"
| "COMMAND_RULES C_START_TRAJECTORY =
     \<lparr>allowed_from = {S_FORMATION_HOLD}, rule_target = Some S_RUNNING,
      rule_action = ''start the show trajectory''\<rparr>"
| "COMMAND_RULES C_STOP_TRAJECTORY =
     \<lparr>allowed_from = {S_RUNNING}, rule_target = Some S_FORMATION_HOLD,
      rule_action = ''stop the show trajectory''\<rparr>"
| "COMMAND_RULES C_LAND =
     \<lparr>allowed_from = all_states, rule_target = Some S_LANDING,
      rule_action = ''land the fleet''\<rparr>"
| "COMMAND_RULES C_RTL =
     \<lparr>allowed_from = all_states, rule_target = Some S_RTL,
      rule_action = ''return the fleet to launch''\<rparr>"
| "COMMAND_RULES C_ESTOP =
     \<lparr>allowed_from = all_states, rule_target = Some S_ESTOP,
      rule_action = ''emergency-stop the fleet''\<rparr>"
| "COMMAND_RULES C_UPLOAD_TRAJECTORY =
     \<lparr>allowed_from = not_running, rule_target = None, rule_action = ''upload a trajectory''\<rparr>"
| "COMMAND_RULES C_UPLOAD_MISSION =
     \<lparr>allowed_from = not_running, rule_target = None, rule_action = ''upload show missions''\<rparr>"
| "COMMAND_RULES C_RESUME_SHOW =
     \<lparr>allowed_from = not_running, rule_target = None, rule_action = ''resume a saved show''\<rparr>"
| "COMMAND_RULES C_DISCARD_SHOW =
     \<lparr>allowed_from = not_running, rule_target = None, rule_action = ''discard a saved show''\<rparr>"
| "COMMAND_RULES C_SINGLE_DRONE_HOVER =
     \<lparr>allowed_from = {S_STAGED, S_DISARMED}, rule_target = None,
      rule_action = ''run the single-drone hover sequence''\<rparr>"

definition command_order :: "command list" where
  "command_order = [C_LAUNCH, C_START_TRAJECTORY, C_STOP_TRAJECTORY, C_LAND, C_RTL, C_ESTOP,
     C_UPLOAD_TRAJECTORY, C_UPLOAD_MISSION, C_RESUME_SHOW, C_DISCARD_SHOW, C_SINGLE_DRONE_HOVER]"

definition sorted_states :: "lifecycle set \<Rightarrow> string list" where
  "sorted_states A = map state_value (filter (\<lambda>s. s \<in> A) state_order)"

section \<open>Errors\<close>

text \<open>
  \<^verbatim>\<open>IllegalTransitionError(command, state)\<close> is the operator's error (HTTP 409);
  \<^verbatim>\<open>ValueError\<close> of \<^verbatim>\<open>transition\<close> is a disagreement of the two tables.
\<close>

datatype fsm_error = IllegalTransition command lifecycle | TransitionValueError lifecycle lifecycle

definition illegal_message :: "command \<Rightarrow> lifecycle \<Rightarrow> string" where
  "illegal_message cmd st = (let rule = COMMAND_RULES cmd in
     ''Cannot '' @ rule_action rule @ '' while the fleet is '' @ state_value st @ '' ('' @
     state_description st @ ''). Allowed from: '' @
     py_join '', '' (sorted_states (allowed_from rule)) @ ''.'')"

definition illegal_detail :: "command \<Rightarrow> lifecycle \<Rightarrow> (string, json) dict" where
  "illegal_detail cmd st =
     [(''error'', JStr ''illegal_transition''),
      (''command'', JStr (command_value cmd)),
      (''state'', JStr (state_value st)),
      (''allowed_from'', JList (map JStr (sorted_states (allowed_from (COMMAND_RULES cmd))))),
      (''message'', JStr (illegal_message cmd st))]"

section \<open>The machine\<close>

datatype audit_entry =
    Accepted nat real lifecycle lifecycle string string
  | Rejected real command lifecycle string string

text \<open>The outside world at one operation: what the context provider does (\<^const>\<open>None\<close>: it
  raises), whether the append to the audit file works, and how a time is printed.\<close>

record audit_env =
  ctx_result :: "(string, json) dict option"
  file_ok :: bool
  utc_iso :: "real \<Rightarrow> string"

record fsm =
  fsm_audit_path :: "string option"
  fsm_has_context :: bool
  fsm_state :: lifecycle
  fsm_since :: real
  fsm_seq :: nat
  fsm_history :: "audit_entry list"
  fsm_history_size :: nat
  fsm_observers :: nat
  fsm_observed :: "(nat \<times> audit_entry) list"
  fsm_audit_file :: "(string, json) dict list"

definition fsm_init :: "string option \<Rightarrow> nat \<Rightarrow> bool \<Rightarrow> real \<Rightarrow> fsm" where
  "fsm_init path hsize ctx now =
     \<lparr>fsm_audit_path = path, fsm_has_context = ctx, fsm_state = S_STAGED, fsm_since = now,
      fsm_seq = 0, fsm_history = [], fsm_history_size = hsize, fsm_observers = 0,
      fsm_observed = [], fsm_audit_file = []\<rparr>"

fun entry_dict :: "(real \<Rightarrow> string) \<Rightarrow> audit_entry \<Rightarrow> (string, json) dict" where
  "entry_dict tf (Accepted n ts src dst opr trg) =
     [(''seq'', JInt (int n)), (''ts'', JNum ts), (''time'', JStr (tf ts)),
      (''accepted'', JBool True), (''from'', JStr (state_value src)),
      (''to'', JStr (state_value dst)), (''operator'', JStr opr), (''trigger'', JStr trg)]"
| "entry_dict tf (Rejected ts cmd st opr trg) =
     [(''ts'', JNum ts), (''time'', JStr (tf ts)), (''accepted'', JBool False),
      (''command'', JStr (command_value cmd)), (''state'', JStr (state_value st)),
      (''operator'', JStr opr), (''trigger'', JStr trg),
      (''reason'', JStr (illegal_message cmd st))]"

definition fsm_audit :: "audit_env \<Rightarrow> audit_entry \<Rightarrow> fsm \<Rightarrow> fsm" where
  "fsm_audit env e m =
     (let m1 = m\<lparr>fsm_observed := fsm_observed m @ map (\<lambda>i. (i, e)) [0..<fsm_observers m]\<rparr> in
      if fsm_audit_path m1 = None \<or> fsm_audit_path m1 = Some '''' then m1
      else let extra = (if fsm_has_context m1
                        then (case ctx_result env of None \<Rightarrow> [] | Some c \<Rightarrow> c) else []);
               line = dict_merge extra (entry_dict (utc_iso env) e) in
           if file_ok env then m1\<lparr>fsm_audit_file := fsm_audit_file m1 @ [line]\<rparr> else m1)"

definition fsm_check ::
  "audit_env \<Rightarrow> real \<Rightarrow> command \<Rightarrow> string \<Rightarrow> string \<Rightarrow> fsm \<Rightarrow> (fsm_error + unit) \<times> fsm" where
  "fsm_check env now cmd opr trg m =
     (if fsm_state m \<in> allowed_from (COMMAND_RULES cmd) then (Inr (), m)
      else (Inl (IllegalTransition cmd (fsm_state m)),
            fsm_audit env (Rejected now cmd (fsm_state m) opr trg) m))"

definition fsm_transition ::
  "audit_env \<Rightarrow> real \<Rightarrow> lifecycle \<Rightarrow> string \<Rightarrow> string \<Rightarrow> fsm \<Rightarrow> (fsm_error + audit_entry) \<times> fsm"
where
  "fsm_transition env now target opr trg m =
     (let src = fsm_state m in
      if \<not> can_transition src target then (Inl (TransitionValueError src target), m)
      else let m1 = m\<lparr>fsm_state := target, fsm_since := now, fsm_seq := fsm_seq m + 1\<rparr>;
               rec = Accepted (fsm_seq m1) now src target opr trg;
               m2 = m1\<lparr>fsm_history := deque_append (fsm_history_size m1) (fsm_history m1) rec\<rparr>
           in (Inr rec, fsm_audit env rec m2))"

definition fsm_apply ::
  "audit_env \<Rightarrow> real \<Rightarrow> command \<Rightarrow> string \<Rightarrow> string \<Rightarrow> fsm
    \<Rightarrow> (fsm_error + audit_entry option) \<times> fsm"
where
  "fsm_apply env now cmd opr trg m =
     (case fsm_check env now cmd opr trg m of
        (Inl e, m1) \<Rightarrow> (Inl e, m1)
      | (Inr _, m1) \<Rightarrow>
          (case rule_target (COMMAND_RULES cmd) of
             None \<Rightarrow> (Inr None, m1)
           | Some target \<Rightarrow>
               (case fsm_transition env now target opr trg m1 of
                  (Inl e, m2) \<Rightarrow> (Inl e, m2)
                | (Inr rec, m2) \<Rightarrow> (Inr (Some rec), m2))))"

definition fsm_advance ::
  "audit_env \<Rightarrow> real \<Rightarrow> lifecycle \<Rightarrow> lifecycle \<Rightarrow> string \<Rightarrow> string \<Rightarrow> fsm
    \<Rightarrow> (fsm_error + bool) \<times> fsm"
where
  "fsm_advance env now expected target trg opr m =
     (if fsm_state m \<noteq> expected then (Inr False, m)
      else case fsm_transition env now target opr trg m of
             (Inl e, m1) \<Rightarrow> (Inl e, m1)
           | (Inr _, m1) \<Rightarrow> (Inr True, m1))"

definition allowed_commands :: "fsm \<Rightarrow> string list" where
  "allowed_commands m =
     map command_value (filter (\<lambda>c. fsm_state m \<in> allowed_from (COMMAND_RULES c)) command_order)"

record fsm_snapshot =
  snap_state :: string
  snap_description :: string
  snap_since :: real
  snap_seq :: nat
  snap_allowed_commands :: "string list"
  snap_last_transition :: "audit_entry option"

definition snapshot :: "fsm \<Rightarrow> fsm_snapshot" where
  "snapshot m =
     \<lparr>snap_state = state_value (fsm_state m),
      snap_description = state_description (fsm_state m),
      snap_since = fsm_since m, snap_seq = fsm_seq m,
      snap_allowed_commands = allowed_commands m,
      snap_last_transition =
        (if fsm_history m = [] then None else Some (last (fsm_history m)))\<rparr>"

section \<open>Operations as steps\<close>

text \<open>Every public operation of the machine, the registration of an observer included.\<close>

datatype fsm_op =
    OpCheck audit_env real command string string
  | OpApply audit_env real command string string
  | OpTransition audit_env real lifecycle string string
  | OpAdvance audit_env real lifecycle lifecycle string string
  | OpObserve

fun fsm_step :: "fsm_op \<Rightarrow> fsm \<Rightarrow> fsm" where
  "fsm_step (OpCheck env now c opr trg) m = snd (fsm_check env now c opr trg m)"
| "fsm_step (OpApply env now c opr trg) m = snd (fsm_apply env now c opr trg m)"
| "fsm_step (OpTransition env now t opr trg) m = snd (fsm_transition env now t opr trg m)"
| "fsm_step (OpAdvance env now e t trg opr) m = snd (fsm_advance env now e t trg opr m)"
| "fsm_step OpObserve m = m\<lparr>fsm_observers := fsm_observers m + 1\<rparr>"

text \<open>What the first observer was called with, in order.\<close>

definition trail :: "fsm \<Rightarrow> audit_entry list" where
  "trail m = map snd (filter (\<lambda>p. fst p = 0) (fsm_observed m))"

fun is_accepted :: "audit_entry \<Rightarrow> bool" where
  "is_accepted (Accepted n ts src dst opr trg) = True"
| "is_accepted (Rejected ts c st opr trg) = False"

fun entry_target :: "audit_entry \<Rightarrow> lifecycle list" where
  "entry_target (Accepted n ts src dst opr trg) = [dst]"
| "entry_target (Rejected ts c st opr trg) = []"

text \<open>
  Reading an audit trail back: an accepted entry must continue the state and the sequence
  number by a legal transition, a rejected one must name the current state and a command
  that is not legal in it.
\<close>

fun replay_entry :: "audit_entry \<Rightarrow> lifecycle \<times> nat \<Rightarrow> (lifecycle \<times> nat) option" where
  "replay_entry (Accepted n ts src dst opr trg) (st, k) =
     (if src = st \<and> n = k + 1 \<and> can_transition src dst then Some (dst, n) else None)"
| "replay_entry (Rejected ts c st' opr trg) (st, k) =
     (if st' = st \<and> st \<notin> allowed_from (COMMAND_RULES c) then Some (st, k) else None)"

fun replay :: "audit_entry list \<Rightarrow> lifecycle \<times> nat \<Rightarrow> (lifecycle \<times> nat) option" where
  "replay [] s = Some s"
| "replay (e # es) s = (case replay_entry e s of None \<Rightarrow> None | Some s' \<Rightarrow> replay es s')"

lemma replay_snoc:
  "replay (es @ [e]) s = (case replay es s of None \<Rightarrow> None | Some s' \<Rightarrow> replay_entry e s')"
  by (induction es arbitrary: s) (auto split: option.splits)

section \<open>Lemmas on the operations\<close>

lemma all_states_UNIV [simp]: "s \<in> all_states"
  by (cases s) (simp_all add: all_states_def state_order_def)

lemma can_transition_emergency [simp]:
  "can_transition s S_LANDING" "can_transition s S_RTL" "can_transition s S_ESTOP"
  by (simp_all add: can_transition_def EMERGENCY_STATES_def)

text \<open>The two tables agree: a command's target is reachable from every state it is legal in.\<close>

lemma rules_agree:
  "s \<in> allowed_from (COMMAND_RULES c) \<Longrightarrow> rule_target (COMMAND_RULES c) = Some t \<Longrightarrow>
    can_transition s t"
  by (cases c) (auto simp: can_transition_def EMERGENCY_STATES_def)

lemma fsm_audit_frame [simp]:
  "fsm_state (fsm_audit env e m) = fsm_state m" "fsm_since (fsm_audit env e m) = fsm_since m"
  "fsm_seq (fsm_audit env e m) = fsm_seq m" "fsm_history (fsm_audit env e m) = fsm_history m"
  "fsm_history_size (fsm_audit env e m) = fsm_history_size m"
  "fsm_observers (fsm_audit env e m) = fsm_observers m"
  "fsm_audit_path (fsm_audit env e m) = fsm_audit_path m"
  "fsm_observed (fsm_audit env e m) = fsm_observed m @ map (\<lambda>i. (i, e)) [0..<fsm_observers m]"
  by (simp_all add: fsm_audit_def Let_def)

lemma trail_update [simp]:
  "trail (m\<lparr>fsm_state := s\<rparr>) = trail m" "trail (m\<lparr>fsm_since := t\<rparr>) = trail m"
  "trail (m\<lparr>fsm_seq := n\<rparr>) = trail m" "trail (m\<lparr>fsm_history := h\<rparr>) = trail m"
  "trail (m\<lparr>fsm_observers := k\<rparr>) = trail m"
  by (simp_all add: trail_def)

lemma filter_zero_upt: "0 < n \<Longrightarrow> filter (\<lambda>p. fst p = 0) (map (\<lambda>i. (i, e)) [0..<n]) = [(0::nat, e)]"
  by (induction n) (auto simp: less_Suc_eq)

lemma trail_audit: "0 < fsm_observers m \<Longrightarrow> trail (fsm_audit env e m) = trail m @ [e]"
  by (simp add: trail_def filter_zero_upt del: upt_conv_Cons)

lemma fsm_check_cases:
  "fsm_check env now c opr trg m =
    (if fsm_state m \<in> allowed_from (COMMAND_RULES c) then (Inr (), m)
     else (Inl (IllegalTransition c (fsm_state m)),
           fsm_audit env (Rejected now c (fsm_state m) opr trg) m))"
  by (simp add: fsm_check_def)

text \<open>\<open>apply\<close> by cases: refused, gated without a target, or a transition.\<close>

lemma fsm_apply_cases:
  "fsm_apply env now c opr trg m =
    (if fsm_state m \<notin> allowed_from (COMMAND_RULES c)
     then (Inl (IllegalTransition c (fsm_state m)),
           fsm_audit env (Rejected now c (fsm_state m) opr trg) m)
     else case rule_target (COMMAND_RULES c) of
            None \<Rightarrow> (Inr None, m)
          | Some t \<Rightarrow> (case fsm_transition env now t opr trg m of
               (Inl e, m2) \<Rightarrow> (Inl e, m2) | (Inr rec, m2) \<Rightarrow> (Inr (Some rec), m2)))"
  by (simp add: fsm_apply_def fsm_check_def)

section \<open>The invariant of the audit trail\<close>

definition fsm_inv :: "fsm \<Rightarrow> bool" where
  "fsm_inv m \<longleftrightarrow> 0 < fsm_observers m \<and>
     replay (trail m) (S_STAGED, 0) = Some (fsm_state m, fsm_seq m) \<and>
     length (fsm_history m) \<le> fsm_history_size m \<and>
     suffix (fsm_history m) (filter is_accepted (trail m))"

lemma fsm_inv_reject:
  assumes "fsm_inv m" and "fsm_state m \<notin> allowed_from (COMMAND_RULES c)"
  shows "fsm_inv (fsm_audit env (Rejected now c (fsm_state m) opr trg) m)"
  using assms by (simp add: fsm_inv_def trail_audit replay_snoc)

lemma fsm_inv_transition:
  assumes "fsm_inv m"
  shows "fsm_inv (snd (fsm_transition env now t opr trg m))"
proof (cases "can_transition (fsm_state m) t")
  case True
  let ?r = "Accepted (fsm_seq m + 1) now (fsm_state m) t opr trg"
  let ?h = "deque_append (fsm_history_size m) (fsm_history m) ?r"
  let ?m2 = "m\<lparr>fsm_state := t, fsm_since := now, fsm_seq := fsm_seq m + 1, fsm_history := ?h\<rparr>"
  have suf: "suffix ?h (filter is_accepted (trail m) @ [?r])"
    using assms by (intro deque_append_suffix_of) (simp add: fsm_inv_def)
  have "snd (fsm_transition env now t opr trg m) = fsm_audit env ?r ?m2"
    using True by (simp add: fsm_transition_def Let_def)
  moreover have "fsm_inv (fsm_audit env ?r ?m2)"
    using assms True suf
    by (simp add: fsm_inv_def trail_audit replay_snoc length_deque_append del: suffix_snoc)
  ultimately show ?thesis by simp
next
  case False
  with assms show ?thesis by (simp add: fsm_transition_def Let_def)
qed

lemma snd_case_result:
  "snd (case r of (Inl e, m) \<Rightarrow> (Inl e, m) | (Inr x, m) \<Rightarrow> (Inr (f x), m)) = snd r"
  by (auto split: prod.splits sum.splits)

lemma fsm_step_inv: "fsm_inv m \<Longrightarrow> fsm_inv (fsm_step op m)"
  by (cases op)
    (auto simp: fsm_check_def fsm_apply_cases fsm_advance_def snd_case_result
      fsm_inv_reject fsm_inv_transition split: option.splits,
     simp add: fsm_inv_def)

lemma fsm_transition_seq: "fsm_seq m \<le> fsm_seq (snd (fsm_transition env now t opr trg m))"
  by (simp add: fsm_transition_def Let_def)

lemma fsm_step_seq: "fsm_seq m \<le> fsm_seq (fsm_step op m)"
  by (cases op)
    (auto simp: fsm_check_def fsm_apply_cases fsm_advance_def snd_case_result fsm_transition_seq
      split: option.splits)

interpretation fsm_run: monotone_machine fsm_step fsm_inv fsm_seq
  by unfold_locales (auto intro: fsm_step_inv fsm_step_seq)

section \<open>Flight legs\<close>

text \<open>
  A leg is what follows a launch: the states a show passes through in order. The states
  an accepted entry moved to, in the order of the trail, are the path of the fleet.
\<close>

definition path_of :: "audit_entry list \<Rightarrow> lifecycle list" where
  "path_of es = concat (map entry_target es)"

definition LEG_STATES :: "lifecycle set" where
  "LEG_STATES = {S_PREARM, S_ARMED, S_TAKEOFF, S_FORMATION_HOLD, S_RUNNING}"

fun leg_need :: "lifecycle \<Rightarrow> lifecycle list" where
  "leg_need S_PREARM = [S_PREARM]"
| "leg_need S_ARMED = [S_PREARM, S_ARMED]"
| "leg_need S_TAKEOFF = [S_PREARM, S_ARMED, S_TAKEOFF]"
| "leg_need S_FORMATION_HOLD = [S_PREARM, S_ARMED, S_TAKEOFF, S_FORMATION_HOLD]"
| "leg_need S_RUNNING = [S_PREARM, S_ARMED, S_TAKEOFF, S_FORMATION_HOLD, S_RUNNING]"
| "leg_need s = []"

text \<open>The path so far ends with a leg that began with a launch of a parked fleet.\<close>

definition ends_in_leg :: "lifecycle \<Rightarrow> lifecycle list \<Rightarrow> bool" where
  "ends_in_leg st ts \<longleftrightarrow> (\<exists>ys zs. ts = ys @ S_PREARM # zs \<and>
     last (S_STAGED # ys) \<in> {S_STAGED, S_DISARMED} \<and>
     set zs \<subseteq> LEG_STATES \<and> subseq (leg_need st) (S_PREARM # zs))"

lemma leg_step:
  "can_transition s t \<Longrightarrow> t \<in> LEG_STATES \<Longrightarrow> t \<noteq> S_PREARM \<Longrightarrow>
    s \<in> LEG_STATES \<and> (leg_need t = leg_need s @ [t] \<or> subseq (leg_need t) (leg_need s))"
  by (cases s; cases t) (simp_all add: can_transition_def EMERGENCY_STATES_def LEG_STATES_def)

lemma to_prearm: "can_transition s S_PREARM \<Longrightarrow> s \<in> {S_STAGED, S_DISARMED}"
  by (cases s) (simp_all add: can_transition_def EMERGENCY_STATES_def)

lemma ends_in_leg_step:
  assumes "can_transition s t" and "t \<in> LEG_STATES" and "last (S_STAGED # ts) = s"
    and "s \<in> LEG_STATES \<longrightarrow> ends_in_leg s ts"
  shows "ends_in_leg t (ts @ [t])"
proof (cases "t = S_PREARM")
  case True
  with assms(1,3) to_prearm[of s] show ?thesis
    unfolding ends_in_leg_def by (intro exI[of _ ts] exI[of _ "[]"]) auto
next
  case False
  with assms(1,2) leg_step have s: "s \<in> LEG_STATES"
    and need: "leg_need t = leg_need s @ [t] \<or> subseq (leg_need t) (leg_need s)" by auto
  from s assms(4) obtain ys zs where
    ts: "ts = ys @ S_PREARM # zs" "last (S_STAGED # ys) \<in> {S_STAGED, S_DISARMED}"
    "set zs \<subseteq> LEG_STATES" and sub: "subseq (leg_need s) (S_PREARM # zs)"
    unfolding ends_in_leg_def by blast
  have "subseq (leg_need t) ((S_PREARM # zs) @ [t])"
    using need
  proof
    assume "leg_need t = leg_need s @ [t]"
    with sub show ?thesis by (simp only: subseq_append)
  next
    assume "subseq (leg_need t) (leg_need s)"
    from subseq_order.trans[OF this sub] show ?thesis
      by (rule list_emb_prefix)
  qed
  with ts assms(2) show ?thesis
    unfolding ends_in_leg_def by (intro exI[of _ ys] exI[of _ "zs @ [t]"]) auto
qed

lemma replay_path:
  "replay es (S_STAGED, 0) = Some (st, k) \<Longrightarrow>
    last (S_STAGED # path_of es) = st \<and> (st \<in> LEG_STATES \<longrightarrow> ends_in_leg st (path_of es))"
proof (induction es arbitrary: st k rule: rev_induct)
  case Nil
  then show ?case by (simp add: path_of_def LEG_STATES_def)
next
  case (snoc e es)
  then obtain s j where pre: "replay es (S_STAGED, 0) = Some (s, j)"
    and e: "replay_entry e (s, j) = Some (st, k)"
    by (auto simp: replay_snoc split: option.splits)
  note IH = snoc.IH[OF pre]
  show ?case
  proof (cases e)
    case (Accepted n ts src dst opr trg)
    with e have t: "can_transition s st" "path_of (es @ [e]) = path_of es @ [st]"
      by (auto simp: path_of_def split: if_splits)
    with IH ends_in_leg_step[of s st "path_of es"] show ?thesis by auto
  next
    case (Rejected ts c s' opr trg)
    with e have "st = s" "path_of (es @ [e]) = path_of es"
      by (auto simp: path_of_def split: if_splits)
    with IH show ?thesis by simp
  qed
qed

lemma fsm_inv_init: "fsm_inv (fsm_step OpObserve (fsm_init path hsize ctx now))"
  by (simp add: fsm_inv_def fsm_init_def trail_def)

section \<open>Properties\<close>

text \<open>No operator command can trip over a disagreement of the two tables: whatever
  the state, \<^verbatim>\<open>apply\<close> never raises the \<^verbatim>\<open>ValueError\<close> of \<^verbatim>\<open>transition\<close>, it either refuses
  the command in the current state or ends in the rule's target (or, without one, in the
  same state).\<close>

theorem fsm_apply_total:
  "(case fsm_apply env now c opr trg m of
      (Inl e, m') \<Rightarrow> e = IllegalTransition c (fsm_state m) \<and>
        fsm_state m \<notin> allowed_from (COMMAND_RULES c) \<and> fsm_state m' = fsm_state m
    | (Inr r, m') \<Rightarrow> fsm_state m \<in> allowed_from (COMMAND_RULES c) \<and>
        (case rule_target (COMMAND_RULES c) of
           None \<Rightarrow> r = None \<and> m' = m
         | Some t \<Rightarrow> fsm_state m' = t \<and> fsm_seq m' = fsm_seq m + 1 \<and>
             r = Some (Accepted (fsm_seq m + 1) now (fsm_state m) t opr trg)))"
  using rules_agree[of "fsm_state m" c]
  by (auto simp: fsm_apply_cases fsm_transition_def Let_def split: option.splits)

text \<open>An emergency command is never refused: from every state, whatever the context
  provider, the observers or the audit file do, LAND, RTL and ESTOP are accepted and the
  machine is in the state they name.\<close>

theorem fsm_emergency_accepted:
  "\<exists>m1 m2 m3. fsm_apply env now C_LAND opr trg m
       = (Inr (Some (Accepted (fsm_seq m + 1) now (fsm_state m) S_LANDING opr trg)), m1) \<and>
     fsm_state m1 = S_LANDING \<and>
     fsm_apply env now C_RTL opr trg m
       = (Inr (Some (Accepted (fsm_seq m + 1) now (fsm_state m) S_RTL opr trg)), m2) \<and>
     fsm_state m2 = S_RTL \<and>
     fsm_apply env now C_ESTOP opr trg m
       = (Inr (Some (Accepted (fsm_seq m + 1) now (fsm_state m) S_ESTOP opr trg)), m3) \<and>
     fsm_state m3 = S_ESTOP"
  by (simp add: fsm_apply_cases fsm_transition_def Let_def)

text \<open>A refused command changes nothing but the audit trail: the state, the entry time,
  the sequence number and the history are as before, the error names the command and the
  state, and every observer is told exactly one rejection.\<close>

theorem fsm_rejection_frame:
  assumes "fsm_state m \<notin> allowed_from (COMMAND_RULES c)"
  shows "let m' = snd (fsm_apply env now c opr trg m) in
      fst (fsm_apply env now c opr trg m) = Inl (IllegalTransition c (fsm_state m)) \<and>
      fsm_state m' = fsm_state m \<and> fsm_since m' = fsm_since m \<and> fsm_seq m' = fsm_seq m \<and>
      fsm_history m' = fsm_history m \<and>
      fsm_observed m' = fsm_observed m @
        map (\<lambda>i. (i, Rejected now c (fsm_state m) opr trg)) [0..<fsm_observers m]"
  using assms by (simp add: fsm_apply_cases Let_def)

definition plain_env :: audit_env where
  "plain_env = \<lparr>ctx_result = None, file_ok = False, utc_iso = (\<lambda>t. [])\<rparr>"

theorem fsm_rejection_frame_witness:
  "let m = fsm_init None 10 False 0 in
     S_STAGED \<notin> allowed_from (COMMAND_RULES C_START_TRAJECTORY) \<and>
     fst (fsm_apply plain_env 1 C_START_TRAJECTORY ''op'' ''api'' m)
       = Inl (IllegalTransition C_START_TRAJECTORY S_STAGED)"
  using fsm_rejection_frame[of "fsm_init None 10 False 0" C_START_TRAJECTORY plain_env 1 "''op''" "''api''"]
  by (simp add: fsm_init_def Let_def)

text \<open>C21. The audit trail is complete: with an observer registered before the first
  operation, after any operations whatsoever the entries it was given, read back from STAGED
  and sequence number 0, are legal one after the other and end in the machine's own state
  and sequence number; and the bounded history is the newest part of the accepted ones.\<close>

theorem fsm_audit_trail_replays:
  "let m = run_ops fsm_step ops (fsm_step OpObserve (fsm_init path hsize ctx now)) in
     replay (trail m) (S_STAGED, 0) = Some (fsm_state m, fsm_seq m) \<and>
     suffix (fsm_history m) (filter is_accepted (trail m)) \<and>
     length (fsm_history m) \<le> fsm_history_size m"
  using fsm_run.run_inv[OF fsm_inv_init] by (simp add: Let_def fsm_inv_def)

text \<open>C4. A show only plays in a leg that began with the launch of a parked fleet and went
  through PREARM, ARMED, TAKEOFF and FORMATION_HOLD in this order, and in which no landing,
  RTL, ESTOP or disarming has happened since: whatever commands, observed progress or
  direct transitions were attempted, accepted or not.\<close>

theorem fsm_running_only_after_full_launch:
  assumes "m = run_ops fsm_step ops (fsm_step OpObserve (fsm_init path hsize ctx now))"
    and "fsm_state m = S_RUNNING"
  shows "\<exists>ys zs. path_of (trail m) = ys @ S_PREARM # zs \<and>
    last (S_STAGED # ys) \<in> {S_STAGED, S_DISARMED} \<and>
    set zs \<subseteq> {S_PREARM, S_ARMED, S_TAKEOFF, S_FORMATION_HOLD, S_RUNNING} \<and>
    subseq [S_PREARM, S_ARMED, S_TAKEOFF, S_FORMATION_HOLD, S_RUNNING] (S_PREARM # zs)"
proof -
  have "fsm_inv m" using fsm_run.run_inv[OF fsm_inv_init] assms(1) by simp
  then have "replay (trail m) (S_STAGED, 0) = Some (S_RUNNING, fsm_seq m)"
    using assms(2) by (simp add: fsm_inv_def)
  then have "ends_in_leg S_RUNNING (path_of (trail m))"
    using replay_path by (simp add: LEG_STATES_def)
  then show ?thesis by (simp add: ends_in_leg_def LEG_STATES_def)
qed

definition full_launch :: "fsm_op list" where
  "full_launch =
     [OpApply plain_env 1 C_LAUNCH ''op'' ''api'',
      OpAdvance plain_env 2 S_PREARM S_ARMED ''telemetry'' ''system'',
      OpApply plain_env 3 C_START_TRAJECTORY ''op'' ''api'',
      OpAdvance plain_env 4 S_ARMED S_TAKEOFF ''telemetry'' ''system'',
      OpAdvance plain_env 5 S_TAKEOFF S_FORMATION_HOLD ''telemetry'' ''system'',
      OpApply plain_env 6 C_START_TRAJECTORY ''op'' ''api'']"

theorem fsm_running_only_after_full_launch_witness:
  "let m = run_ops fsm_step full_launch (fsm_step OpObserve (fsm_init None 10 False 0)) in
     fsm_state m = S_RUNNING \<and>
     (\<exists>ys zs. path_of (trail m) = ys @ S_PREARM # zs \<and>
        subseq [S_PREARM, S_ARMED, S_TAKEOFF, S_FORMATION_HOLD, S_RUNNING] (S_PREARM # zs))"
proof -
  let ?m = "run_ops fsm_step full_launch (fsm_step OpObserve (fsm_init None 10 False 0))"
  have st: "fsm_state ?m = S_RUNNING"
    by (simp add: full_launch_def fsm_init_def fsm_apply_cases fsm_advance_def
        fsm_transition_def can_transition_def EMERGENCY_STATES_def Let_def)
  from fsm_running_only_after_full_launch[OF refl st] st show ?thesis
    unfolding Let_def by blast
qed
end
