(* ===== verification/Broadcast.thy ===== *)
theory Broadcast
  imports Struct_Codec
begin

unbundle bit_operations_syntax

text \<open>
  The authenticated 10 Hz broadcast downlink, \<^verbatim>\<open>packages/tara-gcs/tara_gcs/broadcast_manager.py\<close>:
  the 32 byte frame (\<^verbatim>\<open>encode_broadcast_frame\<close>, \<^verbatim>\<open>decode_broadcast_frame\<close>), the ground side
  (\<^verbatim>\<open>BroadcastManager\<close>) and the drone side (\<^verbatim>\<open>BroadcastReceiver\<close>). HMAC-SHA256 is the parameter
  \<open>hmac\<close> of the definitions that use it; all that is relied on is that a digest has 32 bytes.
  The injected clock is the argument \<open>now\<close>, in seconds.
\<close>

section \<open>States, frame layout and constants\<close>

datatype swarm_state = SW_IDLE | SW_ARMED | SW_RUN | SW_HOLD | SW_RTL | SW_ESTOP

fun swarm_int :: "swarm_state \<Rightarrow> int" where
  "swarm_int SW_IDLE = 0"
| "swarm_int SW_ARMED = 1"
| "swarm_int SW_RUN = 2"
| "swarm_int SW_HOLD = 3"
| "swarm_int SW_RTL = 4"
| "swarm_int SW_ESTOP = 5"

text \<open>\<^verbatim>\<open>SwarmState(n)\<close>: a value of no member is a \<^verbatim>\<open>ValueError\<close>.\<close>

definition swarm_of_int :: "int \<Rightarrow> swarm_state option" where
  "swarm_of_int n =
     (if n = 0 then Some SW_IDLE else if n = 1 then Some SW_ARMED
      else if n = 2 then Some SW_RUN else if n = 3 then Some SW_HOLD
      else if n = 4 then Some SW_RTL else if n = 5 then Some SW_ESTOP else None)"

datatype frame_status = FS_OK | FS_MALFORMED | FS_BAD_TAG | FS_CLOCK_SKEW | FS_REPLAYED

definition BROADCAST_SYSID :: nat where
  "BROADCAST_SYSID = 0"

definition PAYLOAD_FORMAT :: "fmt list" where
  "PAYLOAD_FORMAT = [FU 8, FU 1, FU 4, FU 2, FU 8]"

definition PAYLOAD_SIZE :: nat where
  "PAYLOAD_SIZE = 32"

definition AUTH_TAG_SIZE :: nat where
  "AUTH_TAG_SIZE = 8"

definition AUTH_TAG_OFFSET :: nat where
  "AUTH_TAG_OFFSET = PAYLOAD_SIZE - AUTH_TAG_SIZE"

definition RESERVED_SIZE :: nat where
  "RESERVED_SIZE = AUTH_TAG_OFFSET - calcsize PAYLOAD_FORMAT"

text \<open>\<^verbatim>\<open>b"TARA-BCAST\x01"\<close>\<close>

definition AUTH_DOMAIN :: bytes where
  "AUTH_DOMAIN = [84, 65, 82, 65, 45, 66, 67, 65, 83, 84, 1]"

definition SHOW_KEY_MIN_BYTES :: nat where
  "SHOW_KEY_MIN_BYTES = 16"

definition MAX_CLOCK_SKEW_S :: real where
  "MAX_CLOCK_SKEW_S = 0.2"

definition MAC_FRAMING_BYTES :: nat where
  "MAC_FRAMING_BYTES = 14"

definition FRAME_SIZE :: nat where
  "FRAME_SIZE = PAYLOAD_SIZE + MAC_FRAMING_BYTES"

definition downlink_bitrate_bps :: "real \<Rightarrow> real" where
  "downlink_bitrate_bps hz = real (FRAME_SIZE * 8) * hz"

lemmas layout_defs = PAYLOAD_FORMAT_def PAYLOAD_SIZE_def AUTH_TAG_SIZE_def AUTH_TAG_OFFSET_def
  RESERVED_SIZE_def

section \<open>Key, tag and checksum\<close>

datatype bc_error = KeyTooShort | StructError | BadPayloadSize nat | BadSwarmState int

definition check_key :: "bytes \<Rightarrow> bc_error + bytes" where
  "check_key key = (if length key < SHOW_KEY_MIN_BYTES then Inl KeyTooShort else Inr key)"

definition auth_tag :: "(bytes \<Rightarrow> bytes \<Rightarrow> bytes) \<Rightarrow> bytes \<Rightarrow> bytes \<Rightarrow> bytes" where
  "auth_tag hmac key authenticated = take AUTH_TAG_SIZE (hmac key (AUTH_DOMAIN @ authenticated))"

definition sync_checksum :: "int \<Rightarrow> int \<Rightarrow> int \<Rightarrow> int" where
  "sync_checksum utc state seqid =
     (let total = (utc AND 0xFFFFFFFF) + drop_bit 32 utc;
          total = total + ((state AND 0xFF) + (seqid AND 0xFFFFFFFF));
          total = (total AND 0xFFFF) + drop_bit 16 total
      in (total + drop_bit 16 total) AND 0xFFFF)"

section \<open>The frame codec\<close>

definition encode_broadcast_frame ::
  "(bytes \<Rightarrow> bytes \<Rightarrow> bytes) \<Rightarrow> bytes \<Rightarrow> int \<Rightarrow> int \<Rightarrow> int \<Rightarrow> int \<Rightarrow> bc_error + bytes"
where
  "encode_broadcast_frame hmac key utc state seqid counter =
     (case check_key key of Inl e \<Rightarrow> Inl e | Inr key \<Rightarrow>
        (let checksum = sync_checksum utc state seqid in
         case struct_pack PAYLOAD_FORMAT [VI utc, VI state, VI seqid, VI checksum, VI counter] of
           None \<Rightarrow> Inl StructError
         | Some packed \<Rightarrow>
             (let body = packed @ replicate RESERVED_SIZE 0
              in Inr (body @ auth_tag hmac key body))))"

record frame =
  fr_utc :: int
  fr_state :: int
  fr_seq :: int
  fr_checksum :: int
  fr_counter :: int
  fr_status :: frame_status
  fr_valid :: bool

text \<open>\<^verbatim>\<open>struct.unpack_from(_PAYLOAD_FORMAT, body)\<close> reads the five fields at the front of the body.\<close>

definition unpack_fields :: "bytes \<Rightarrow> (int \<times> int \<times> int \<times> int \<times> int) option" where
  "unpack_fields body =
     (case struct_unpack PAYLOAD_FORMAT (take (calcsize PAYLOAD_FORMAT) body) of
        Some [VI utc, VI st, VI sq, VI cs, VI ct] \<Rightarrow> Some (utc, st, sq, cs, ct)
      | _ \<Rightarrow> None)"

definition decode_broadcast_frame ::
  "(bytes \<Rightarrow> bytes \<Rightarrow> bytes) \<Rightarrow> bytes \<Rightarrow> bytes \<Rightarrow> bc_error + frame"
where
  "decode_broadcast_frame hmac payload key =
     (case check_key key of Inl e \<Rightarrow> Inl e | Inr key \<Rightarrow>
        if length payload \<noteq> PAYLOAD_SIZE then Inl (BadPayloadSize (length payload))
        else let body = take AUTH_TAG_OFFSET payload; tag = drop AUTH_TAG_OFFSET payload in
          case unpack_fields body of
            None \<Rightarrow> Inl StructError
          | Some (utc, st, sq, cs, ct) \<Rightarrow>
              (let status = (if tag = auth_tag hmac key body then FS_OK else FS_BAD_TAG)
               in Inr \<lparr>fr_utc = utc, fr_state = st, fr_seq = sq, fr_checksum = cs,
                       fr_counter = ct, fr_status = status, fr_valid = (status = FS_OK)\<rparr>))"

section \<open>The ground side\<close>

record bmanager =
  bm_key :: bytes
  bm_has_transmit :: bool
  bm_state :: swarm_state
  bm_sequence :: int
  bm_frames_sent :: nat
  bm_counter :: int
  bm_sent :: "(bytes \<times> nat) list"

definition bm_init :: "bytes \<Rightarrow> bool \<Rightarrow> bc_error + bmanager" where
  "bm_init key transmit =
     (case check_key key of Inl e \<Rightarrow> Inl e | Inr key \<Rightarrow>
        Inr \<lparr>bm_key = key, bm_has_transmit = transmit, bm_state = SW_IDLE, bm_sequence = 0,
             bm_frames_sent = 0, bm_counter = 0, bm_sent = []\<rparr>)"

definition bm_set_state :: "int \<Rightarrow> bmanager \<Rightarrow> bc_error + bmanager" where
  "bm_set_state n m =
     (case swarm_of_int n of None \<Rightarrow> Inl (BadSwarmState n) | Some s \<Rightarrow> Inr (m\<lparr>bm_state := s\<rparr>))"

definition bm_set_sequence :: "int \<Rightarrow> bmanager \<Rightarrow> bmanager" where
  "bm_set_sequence n m = m\<lparr>bm_sequence := n\<rparr>"

text \<open>\<^verbatim>\<open>int(self._clock() * 1_000_000)\<close>\<close>

definition usec :: "real \<Rightarrow> int" where
  "usec now = py_int (now * 1000000)"

definition bm_build_frame ::
  "(bytes \<Rightarrow> bytes \<Rightarrow> bytes) \<Rightarrow> real \<Rightarrow> bmanager \<Rightarrow> (bc_error + bytes) \<times> bmanager"
where
  "bm_build_frame hmac now m =
     (let m1 = m\<lparr>bm_counter := max (bm_counter m + 1) (usec now)\<rparr>
      in (encode_broadcast_frame hmac (bm_key m1) (usec now) (swarm_int (bm_state m1))
            (bm_sequence m1) (bm_counter m1), m1))"

definition bm_tick ::
  "(bytes \<Rightarrow> bytes \<Rightarrow> bytes) \<Rightarrow> real \<Rightarrow> bmanager \<Rightarrow> (bc_error + bytes) \<times> bmanager"
where
  "bm_tick hmac now m =
     (case bm_build_frame hmac now m of
        (Inl e, m1) \<Rightarrow> (Inl e, m1)
      | (Inr payload, m1) \<Rightarrow>
          (let m2 = (if bm_has_transmit m1
                     then m1\<lparr>bm_sent := bm_sent m1 @ [(payload, BROADCAST_SYSID)]\<rparr> else m1)
           in (Inr payload, m2\<lparr>bm_frames_sent := bm_frames_sent m2 + 1\<rparr>)))"

section \<open>The drone side\<close>

record breceiver =
  rx_key :: bytes
  rx_max_skew :: int
  rx_last_counter :: "int option"
  rx_last_frame :: "frame option"

definition rx_init :: "bytes \<Rightarrow> real \<Rightarrow> bc_error + breceiver" where
  "rx_init key max_skew_s =
     (case check_key key of Inl e \<Rightarrow> Inl e | Inr key \<Rightarrow>
        Inr \<lparr>rx_key = key, rx_max_skew = py_int (max_skew_s * 1000000),
             rx_last_counter = None, rx_last_frame = None\<rparr>)"

text \<open>A payload of the wrong size yields only a status, any other the decoded fields as well.\<close>

datatype rx_result = RxMalformed | RxFrame frame

fun rx_status :: "rx_result \<Rightarrow> frame_status" where
  "rx_status RxMalformed = FS_MALFORMED"
| "rx_status (RxFrame f) = fr_status f"

definition rx_receive ::
  "(bytes \<Rightarrow> bytes \<Rightarrow> bytes) \<Rightarrow> real \<Rightarrow> bytes \<Rightarrow> breceiver \<Rightarrow> rx_result \<times> breceiver"
where
  "rx_receive hmac now payload r =
     (case decode_broadcast_frame hmac payload (rx_key r) of
        Inl e \<Rightarrow> (RxMalformed, r)
      | Inr f \<Rightarrow>
          if fr_status f \<noteq> FS_OK then (RxFrame f, r)
          else let skew = \<bar>usec now - fr_utc f\<bar> in
            if rx_max_skew r < skew
            then (RxFrame (f\<lparr>fr_status := FS_CLOCK_SKEW, fr_valid := False\<rparr>), r)
            else if (case rx_last_counter r of None \<Rightarrow> False | Some c \<Rightarrow> fr_counter f \<le> c)
            then (RxFrame (f\<lparr>fr_status := FS_REPLAYED, fr_valid := False\<rparr>), r)
            else (RxFrame f, r\<lparr>rx_last_counter := Some (fr_counter f), rx_last_frame := Some f\<rparr>))"

section \<open>The checksum as arithmetic\<close>

lemma and_masks:
  "(n::int) AND 0xFFFF = n mod 65536" "n AND 0xFF = n mod 256"
  "n AND 0xFFFFFFFF = n mod 4294967296"
  using take_bit_eq_mask[of 16 n] take_bit_eq_mask[of 8 n] take_bit_eq_mask[of 32 n]
  by (simp_all add: take_bit_eq_mod mask_eq_exp_minus_1)

lemma drop_bits:
  "drop_bit 16 (n::int) = n div 65536" "drop_bit 32 n = n div 4294967296"
  by (simp_all add: drop_bit_eq_div)

definition fold_once :: "int \<Rightarrow> int" where
  "fold_once n = n mod 65536 + n div 65536"

definition fold_twice :: "int \<Rightarrow> int" where
  "fold_twice n = (fold_once n + fold_once n div 65536) mod 65536"

lemma sync_checksum_fold:
  "sync_checksum utc state seqid =
     fold_twice (utc mod 4294967296 + utc div 4294967296 + (state mod 256 + seqid mod 4294967296))"
  by (simp add: sync_checksum_def fold_twice_def fold_once_def and_masks drop_bits Let_def)

lemma sync_checksum_range: "0 \<le> sync_checksum u s q \<and> sync_checksum u s q < 65536"
  by (simp add: sync_checksum_fold fold_twice_def)

text \<open>A difference of less than 65535 between two once folded sums survives the second fold.\<close>

lemma second_fold_differs:
  assumes "0 < d" and "d < 65535"
  shows "((n::int) + d + (n + d) div 65536) mod 65536 \<noteq> (n + n div 65536) mod 65536"
proof
  assume "(n + d + (n + d) div 65536) mod 65536 = (n + n div 65536) mod 65536"
  then have "65536 dvd (n + d + (n + d) div 65536) - (n + n div 65536)"
    by (rule mod_eq_dvd_iff[THEN iffD1])
  then have "65536 dvd d + ((n + d) div 65536 - n div 65536)"
    by (simp add: algebra_simps)
  moreover have "(n + d) div 65536 - n div 65536 \<in> {0, 1}" using assms by auto
  ultimately show False using assms by (auto dest!: zdvd_imp_le)
qed

lemma div_mod_of_parts:
  "0 \<le> r \<Longrightarrow> r < 65536 \<Longrightarrow> (r + 65536 * q) mod 65536 = r \<and> (r + 65536 * q) div 65536 = (q::int)"
  by simp

lemma mod_div_no_carry:
  assumes "0 < x" and "(n::int) mod 65536 + x < 65536"
  shows "(n + x) mod 65536 = n mod 65536 + x \<and> (n + x) div 65536 = n div 65536"
proof -
  have e: "n + x = (n mod 65536 + x) + 65536 * (n div 65536)" by simp
  have "0 \<le> n mod 65536 + x" using assms(1) pos_mod_sign[of 65536 n] by linarith
  then show ?thesis unfolding e using assms(2) by (intro div_mod_of_parts)
qed

lemma mod_div_carry:
  assumes "x \<le> 2 ^ 15" and "\<not> (n::int) mod 65536 + x < 65536"
  shows "(n + x) mod 65536 = n mod 65536 + x - 65536 \<and> (n + x) div 65536 = n div 65536 + 1"
proof -
  have e: "n + x = (n mod 65536 + x - 65536) + 65536 * (n div 65536 + 1)" by simp
  have "x \<le> 32768" using assms(1) by simp
  then have "0 \<le> n mod 65536 + x - 65536" "n mod 65536 + x - 65536 < 65536"
    using assms(2) pos_mod_bound[of 65536 n] by linarith+
  then show ?thesis unfolding e by (intro div_mod_of_parts)
qed

lemma fold_differs_pow:
  assumes "k < 32"
  shows "fold_twice (n + 2 ^ k) \<noteq> fold_twice n"
proof (cases "k < 16")
  case True
  have p: "(0::int) < 2 ^ k" "(2::int) ^ k \<le> 2 ^ 15"
    using True by (simp_all add: power_increasing del: power_numeral)
  show ?thesis
  proof (cases "n mod 65536 + 2 ^ k < 65536")
    case nc: True
    with p mod_div_no_carry[of "2 ^ k" n] have "fold_once (n + 2 ^ k) = fold_once n + 2 ^ k" by (simp add: fold_once_def)
    with p second_fold_differs[of "2 ^ k" "fold_once n"] show ?thesis
      by (simp add: fold_twice_def)
  next
    case False
    with p mod_div_carry[of "2 ^ k" n] have "fold_once n = fold_once (n + 2 ^ k) + (65535 - 2 ^ k)" by (simp add: fold_once_def)
    with p second_fold_differs[of "65535 - 2 ^ k" "fold_once (n + 2 ^ k)"] show ?thesis
      by (simp add: fold_twice_def)
  qed
next
  case False
  define j where "j = k - 16"
  with False assms have k: "k = j + 16" "j < 16" by auto
  have pj: "(0::int) < 2 ^ j" "(2::int) ^ j \<le> 2 ^ 15"
    using k by (simp_all add: power_increasing del: power_numeral)
  have "n + 2 ^ k = n + 2 ^ j * 65536" by (simp add: k power_add)
  then have "fold_once (n + 2 ^ k) = fold_once n + 2 ^ j" by (simp add: fold_once_def)
  with pj second_fold_differs[of "2 ^ j" "fold_once n"] show ?thesis
    by (simp add: fold_twice_def)
qed

lemma fold_differs: "k < 32 \<Longrightarrow> m = n + 2 ^ k \<or> n = m + 2 ^ k \<Longrightarrow> fold_twice m \<noteq> fold_twice n"
  using fold_differs_pow by metis

lemma flip_bit_value:
  "flip_bit k (n::int) = n + 2 ^ k \<or> n = flip_bit k n + 2 ^ k"
  by (auto simp: flip_bit_eq_if set_bit_eq unset_bit_eq)

lemma drop_bit_flip_bit:
  "drop_bit m (flip_bit k (n::int)) = (if k < m then drop_bit m n else flip_bit (k - m) (drop_bit m n))"
  by (rule bit_eqI) (auto simp: bit_simps)

lemma fold_flip:
  assumes "j < 32"
  shows "fold_twice (c + (flip_bit j a + b)) \<noteq> fold_twice (c + (a + b))"
proof -
  from flip_bit_value[of j a]
  have "c + (flip_bit j a + b) = c + (a + b) + 2 ^ j \<or> c + (a + b) = c + (flip_bit j a + b) + 2 ^ j"
    by auto
  with assms show ?thesis by (rule fold_differs)
qed

lemma sync_checksum_bits:
  "sync_checksum u s q =
    fold_twice (take_bit 32 u + (drop_bit 32 u + (take_bit 8 s + take_bit 32 q)))"
  by (simp add: sync_checksum_fold take_bit_eq_mod drop_bit_eq_div add.assoc)

lemma checksum_flip_utc:
  assumes "k < 64"
  shows "sync_checksum (flip_bit k u) s q \<noteq> sync_checksum u s q"
proof (cases "k < 32")
  case True
  then show ?thesis
    using fold_flip[of k 0 "take_bit 32 u" "drop_bit 32 u + (take_bit 8 s + take_bit 32 q)"]
    by (simp add: sync_checksum_bits take_bit_flip_bit_eq drop_bit_flip_bit)
next
  case False
  then show ?thesis
    using fold_flip[of "k - 32" "take_bit 32 u" "drop_bit 32 u" "take_bit 8 s + take_bit 32 q"] assms
    by (simp add: sync_checksum_bits take_bit_flip_bit_eq drop_bit_flip_bit)
qed

lemma checksum_flip_state:
  assumes "k < 8"
  shows "sync_checksum u (flip_bit k s) q \<noteq> sync_checksum u s q"
  using fold_flip[of k "take_bit 32 u + drop_bit 32 u" "take_bit 8 s" "take_bit 32 q"] assms
  by (simp add: sync_checksum_bits take_bit_flip_bit_eq add.assoc)

lemma checksum_flip_seq:
  assumes "k < 32"
  shows "sync_checksum u s (flip_bit k q) \<noteq> sync_checksum u s q"
  using fold_flip[of k "take_bit 32 u + drop_bit 32 u + take_bit 8 s" "take_bit 32 q" 0] assms
  by (simp add: sync_checksum_bits take_bit_flip_bit_eq add.assoc)

section \<open>The codec's contract\<close>

text \<open>The five fields in front of the tag, as a fixed width codec.\<close>

definition enc_fields :: "int \<times> int \<times> int \<times> int \<times> int \<Rightarrow> bytes option" where
  "enc_fields = (\<lambda>(utc, st, sq, cs, ct). struct_pack PAYLOAD_FORMAT [VI utc, VI st, VI sq, VI cs, VI ct])"

lemma calcsize_payload [simp]: "calcsize PAYLOAD_FORMAT = 23"
  by (simp add: PAYLOAD_FORMAT_def)

lemma enc_fields_length: "enc_fields x = Some bs \<Longrightarrow> length bs = 23"
  by (auto simp: enc_fields_def split: prod.splits dest!: struct_pack_length)

lemma unpack_enc_fields:
  assumes "enc_fields x = Some bs"
  shows "unpack_fields (bs @ rest) = Some x"
proof -
  obtain utc st sq cs ct where x: "x = (utc, st, sq, cs, ct)" by (cases x)
  have pack: "struct_pack PAYLOAD_FORMAT [VI utc, VI st, VI sq, VI cs, VI ct] = Some bs"
    using assms by (simp add: enc_fields_def x)
  have "struct_unpack PAYLOAD_FORMAT bs = Some [VI utc, VI st, VI sq, VI cs, VI ct]"
    using pack by (rule struct_unpack_pack) (simp_all add: PAYLOAD_FORMAT_def)
  then show ?thesis
    using enc_fields_length[OF assms] by (simp add: unpack_fields_def x)
qed

interpretation bc_fields: fixed_codec enc_fields unpack_fields 23
proof unfold_locales
  fix x bs assume "enc_fields x = Some bs"
  from unpack_enc_fields[OF this, of "[]"] show "unpack_fields bs = Some x" by simp
qed (auto dest: enc_fields_length)

text \<open>A frame the ground side builds: fields, one reserved zero byte, the tag over both.\<close>

lemma encode_InrE:
  assumes "encode_broadcast_frame hmac key u s q c = Inr p"
  obtains packed where "check_key key = Inr key"
    and "enc_fields (u, s, q, sync_checksum u s q, c) = Some packed"
    and "p = (packed @ [0]) @ auth_tag hmac key (packed @ [0])"
proof (cases "struct_pack PAYLOAD_FORMAT [VI u, VI s, VI q, VI (sync_checksum u s q), VI c]")
  case None
  with assms show ?thesis
    by (auto simp: encode_broadcast_frame_def check_key_def Let_def split: if_splits)
next
  case (Some packed)
  have rs: "replicate RESERVED_SIZE (0 :: 8 word) = [0]" by (simp add: layout_defs)
  from assms Some that[of packed] show ?thesis
    by (auto simp: encode_broadcast_frame_def check_key_def Let_def enc_fields_def rs split: if_splits)
qed

lemma length_auth_tag: "(\<And>k m. length (hmac k m) = 32) \<Longrightarrow> length (auth_tag hmac key b) = 8"
  by (simp add: auth_tag_def AUTH_TAG_SIZE_def)

lemma decode_authentic:
  assumes len: "\<And>k m. length (hmac k m) = 32"
    and enc: "encode_broadcast_frame hmac key u s q c = Inr p"
  shows "length p = 32 \<and> decode_broadcast_frame hmac p key = Inr \<lparr>fr_utc = u, fr_state = s, fr_seq = q,
    fr_checksum = sync_checksum u s q, fr_counter = c, fr_status = FS_OK, fr_valid = True\<rparr>"
proof -
  from enc obtain packed where ck: "check_key key = Inr key"
    and pk: "enc_fields (u, s, q, sync_checksum u s q, c) = Some packed"
    and p: "p = (packed @ [0]) @ auth_tag hmac key (packed @ [0])"
    by (rule encode_InrE)
  have l: "length packed = 23" using pk by (rule enc_fields_length)
  have off: "AUTH_TAG_OFFSET = 24" by (simp add: layout_defs)
  have body: "take AUTH_TAG_OFFSET p = packed @ [0]"
    "drop AUTH_TAG_OFFSET p = auth_tag hmac key (packed @ [0])"
    using l by (simp_all add: p off)
  have "length p = 32" using l length_auth_tag[OF len] by (simp add: p)
  then show ?thesis
    using ck unpack_enc_fields[OF pk, of "[0]"]
    by (simp add: decode_broadcast_frame_def body Let_def PAYLOAD_SIZE_def)
qed

text \<open>When the fields are in range and the key long enough, a frame is built.\<close>

lemma encode_in_range:
  assumes "16 \<le> length key" and "0 \<le> u" "u < 2 ^ 64" and "0 \<le> s" "s < 256"
    and "0 \<le> q" "q < 2 ^ 32" and "0 \<le> c" "c < 2 ^ 64"
  shows "\<exists>p. encode_broadcast_frame hmac key u s q c = Inr p"
  using assms sync_checksum_range[of u s q]
  by (auto simp: encode_broadcast_frame_def check_key_def SHOW_KEY_MIN_BYTES_def PAYLOAD_FORMAT_def Let_def)

section \<open>The receiver's machine\<close>

lemma decode_key_checked: "decode_broadcast_frame hmac p key = Inr f \<Longrightarrow> length p = PAYLOAD_SIZE"
  by (auto simp: decode_broadcast_frame_def check_key_def split: if_splits)

definition rx_fresh :: "real \<Rightarrow> frame \<Rightarrow> breceiver \<Rightarrow> bool" where
  "rx_fresh now f r \<longleftrightarrow> \<bar>usec now - fr_utc f\<bar> \<le> rx_max_skew r \<and>
     (case rx_last_counter r of None \<Rightarrow> True | Some c \<Rightarrow> c < fr_counter f)"

lemma rx_receive_accepts:
  "rx_status (fst (rx_receive hmac now p r)) = FS_OK \<longleftrightarrow>
    (\<exists>f. decode_broadcast_frame hmac p (rx_key r) = Inr f \<and> fr_status f = FS_OK \<and> rx_fresh now f r)"
  by (auto simp: rx_receive_def rx_fresh_def Let_def split: sum.splits option.splits)

lemma rx_receive_accepted:
  "decode_broadcast_frame hmac p (rx_key r) = Inr f \<Longrightarrow> fr_status f = FS_OK \<Longrightarrow> rx_fresh now f r \<Longrightarrow>
    rx_receive hmac now p r =
      (RxFrame f, r\<lparr>rx_last_counter := Some (fr_counter f), rx_last_frame := Some f\<rparr>)"
  by (auto simp: rx_receive_def rx_fresh_def Let_def split: option.splits)

lemma rx_receive_refused:
  "rx_status (fst (rx_receive hmac now p r)) \<noteq> FS_OK \<Longrightarrow> snd (rx_receive hmac now p r) = r"
  by (auto simp: rx_receive_def Let_def split: sum.splits option.splits if_splits)

lemma rx_receive_key [simp]: "rx_key (snd (rx_receive hmac now p r)) = rx_key r"
  by (auto simp: rx_receive_def Let_def split: sum.splits option.splits)

text \<open>The frames a receiver accepts out of a sequence of received payloads.\<close>

fun rx_accepted ::
  "(bytes \<Rightarrow> bytes \<Rightarrow> bytes) \<Rightarrow> (real \<times> bytes) list \<Rightarrow> breceiver \<Rightarrow> (bytes \<times> int) list"
where
  "rx_accepted hmac [] r = []"
| "rx_accepted hmac ((now, p) # ops) r =
     (case rx_receive hmac now p r of (res, r') \<Rightarrow>
        (case res of
           RxMalformed \<Rightarrow> []
         | RxFrame f \<Rightarrow> if fr_status f = FS_OK then [(p, fr_counter f)] else [])
        @ rx_accepted hmac ops r')"

definition above :: "int option \<Rightarrow> int \<Rightarrow> bool" where
  "above l c \<longleftrightarrow> (case l of None \<Rightarrow> True | Some c0 \<Rightarrow> c0 < c)"

lemma above_simps [simp]: "above None c" "above (Some c0) c \<longleftrightarrow> c0 < c"
  by (simp_all add: above_def)

lemma rx_accepted_increasing:
  "(\<forall>x \<in> set (rx_accepted hmac ops r). above (rx_last_counter r) (snd x)) \<and>
   sorted_wrt (<) (map snd (rx_accepted hmac ops r))"
proof (induction ops arbitrary: r)
  case Nil
  show ?case by simp
next
  case (Cons op ops)
  obtain now p where op: "op = (now, p)" by force
  show ?case
  proof (cases "rx_status (fst (rx_receive hmac now p r)) = FS_OK")
    case True
    then obtain f where f: "decode_broadcast_frame hmac p (rx_key r) = Inr f" "fr_status f = FS_OK"
      "rx_fresh now f r" by (auto simp: rx_receive_accepts)
    from f(3) have "above (rx_last_counter r) (fr_counter f)"
      by (auto simp: rx_fresh_def above_def split: option.splits)
    with Cons[of "r\<lparr>rx_last_counter := Some (fr_counter f), rx_last_frame := Some f\<rparr>"] f(2)
    show ?thesis
      by (auto simp: op rx_receive_accepted[OF f] above_def split: option.splits)
  next
    case False
    from rx_receive_refused[OF this] have r': "snd (rx_receive hmac now p r) = r" .
    from False have "rx_accepted hmac (op # ops) r = rx_accepted hmac ops r"
      using r' by (auto simp: op split: prod.splits rx_result.splits)
    with Cons[of r] show ?thesis by simp
  qed
qed

lemma rx_accepted_decodes:
  "(p, c) \<in> set (rx_accepted hmac ops r) \<Longrightarrow>
    \<exists>f. decode_broadcast_frame hmac p (rx_key r) = Inr f \<and> fr_status f = FS_OK \<and> fr_counter f = c"
proof (induction ops arbitrary: r)
  case Nil
  then show ?case by simp
next
  case (Cons op ops)
  obtain now q where op: "op = (now, q)" by force
  obtain res r' where rr: "rx_receive hmac now q r = (res, r')" by force
  from Cons.prems consider
      "(p, c) \<in> set (rx_accepted hmac ops (snd (rx_receive hmac now q r)))"
    | f where "fst (rx_receive hmac now q r) = RxFrame f" "fr_status f = FS_OK" "p = q" "c = fr_counter f"
    by (auto simp: op rr split: rx_result.splits if_splits)
  then show ?case
  proof cases
    case 1
    from Cons.IH[OF this] show ?thesis by simp
  next
    case 2
    then have "rx_status (fst (rx_receive hmac now q r)) = FS_OK" by simp
    then obtain g where "decode_broadcast_frame hmac q (rx_key r) = Inr g" "fr_status g = FS_OK"
      "rx_fresh now g r" by (auto simp: rx_receive_accepts)
    with rx_receive_accepted[of hmac q r g now] 2 show ?thesis by auto
  qed
qed

lemma distinct_keys_of_increasing:
  assumes "sorted_wrt (<) (map snd (xs :: ('a \<times> int) list))"
    and "\<And>p c d. (p, c) \<in> set xs \<Longrightarrow> (p, d) \<in> set xs \<Longrightarrow> c = d"
  shows "distinct (map fst xs)"
  using assms
proof (induction xs)
  case Nil
  show ?case by simp
next
  case (Cons x xs)
  have "fst x \<notin> fst ` set xs"
  proof
    assume "fst x \<in> fst ` set xs"
    then obtain d where d: "(fst x, d) \<in> set xs" by auto
    then have "snd x = d" using Cons.prems(2)[of "fst x" "snd x" d] by simp
    with d Cons.prems(1) show False by force
  qed
  moreover have "distinct (map fst xs)"
    using Cons.prems by (intro Cons.IH) auto
  ultimately show ?case by simp
qed

section \<open>Ground and drone together\<close>

lemma bm_tick_cases:
  "bm_tick hmac now m = (let c = max (bm_counter m + 1) (usec now); m1 = m\<lparr>bm_counter := c\<rparr> in
     case encode_broadcast_frame hmac (bm_key m) (usec now) (swarm_int (bm_state m)) (bm_sequence m) c of
       Inl e \<Rightarrow> (Inl e, m1)
     | Inr p \<Rightarrow> (Inr p, (if bm_has_transmit m then m1\<lparr>bm_sent := bm_sent m @ [(p, BROADCAST_SYSID)]\<rparr>
         else m1)\<lparr>bm_frames_sent := bm_frames_sent m + 1\<rparr>))"
  by (auto simp: bm_tick_def bm_build_frame_def Let_def split: sum.splits)

lemma bm_tick_counter: "bm_counter (snd (bm_tick hmac now m)) = max (bm_counter m + 1) (usec now)"
  and bm_tick_key: "bm_key (snd (bm_tick hmac now m)) = bm_key m"
  by (auto simp: bm_tick_cases Let_def split: sum.splits)

lemma bm_tick_delivers:
  assumes len: "\<And>k m. length (hmac k m) = 32"
    and tick: "fst (bm_tick hmac now m) = Inr p"
    and key: "rx_key r = bm_key m"
    and skew: "\<bar>usec now' - usec now\<bar> \<le> rx_max_skew r"
    and last: "above (rx_last_counter r) (max (bm_counter m + 1) (usec now))"
  shows "\<exists>f. rx_receive hmac now' p r =
      (RxFrame f, r\<lparr>rx_last_counter := Some (fr_counter f), rx_last_frame := Some f\<rparr>) \<and>
    fr_status f = FS_OK \<and> fr_utc f = usec now \<and> fr_state f = swarm_int (bm_state m) \<and>
    fr_seq f = bm_sequence m \<and> fr_counter f = bm_counter (snd (bm_tick hmac now m))"
proof -
  let ?c = "max (bm_counter m + 1) (usec now)"
  have "encode_broadcast_frame hmac (bm_key m) (usec now) (swarm_int (bm_state m)) (bm_sequence m) ?c = Inr p"
    using tick by (auto simp: bm_tick_cases Let_def split: sum.splits)
  note dec = conjunct2[OF decode_authentic[OF len this], folded key]
  show ?thesis
    using skew last
    by (subst rx_receive_accepted[OF dec])
      (auto simp: rx_fresh_def bm_tick_counter above_def split: option.splits)
qed

text \<open>
  A lossy link: per broadcast the sender's clock, the receiver's clock and whether the frame
  got lost; the result is the receiver's verdict on every frame that reached it.
\<close>

fun link_run ::
  "(bytes \<Rightarrow> bytes \<Rightarrow> bytes) \<Rightarrow> (real \<times> real \<times> bool) list \<Rightarrow> bmanager \<Rightarrow> breceiver \<Rightarrow> frame_status list"
where
  "link_run hmac [] m r = []"
| "link_run hmac ((now, now', lost) # es) m r =
     (case bm_tick hmac now m of
        (Inl e, m1) \<Rightarrow> link_run hmac es m1 r
      | (Inr p, m1) \<Rightarrow>
          if lost then link_run hmac es m1 r
          else case rx_receive hmac now' p r of
                 (res, r1) \<Rightarrow> rx_status res # link_run hmac es m1 r1)"

definition in_step :: "bmanager \<Rightarrow> breceiver \<Rightarrow> bool" where
  "in_step m r \<longleftrightarrow> rx_key r = bm_key m \<and>
     (case rx_last_counter r of None \<Rightarrow> True | Some c \<Rightarrow> c \<le> bm_counter m)"

lemma link_run_accepts:
  assumes len: "\<And>k m. length (hmac k m) = 32"
  shows "in_step m r \<Longrightarrow> list_all (\<lambda>(t, t', lost). \<bar>usec t' - usec t\<bar> \<le> rx_max_skew r) es \<Longrightarrow>
    set (link_run hmac es m r) \<subseteq> {FS_OK}"
proof (induction es arbitrary: m r)
  case Nil
  show ?case by simp
next
  case (Cons e es)
  obtain t t' lost where e: "e = (t, t', lost)" by (cases e)
  let ?m1 = "snd (bm_tick hmac t m)"
  have keep: "in_step ?m1 r"
    using Cons.prems(1) by (auto simp: in_step_def bm_tick_counter bm_tick_key split: option.splits)
  note IH = Cons.IH[OF keep]
  show ?case
  proof (cases "fst (bm_tick hmac t m)")
    case (Inl err)
    with IH Cons.prems(2) show ?thesis by (cases "bm_tick hmac t m") (simp add: e)
  next
    case (Inr p)
    show ?thesis
    proof (cases lost)
      case True
      with IH Inr Cons.prems(2) show ?thesis by (cases "bm_tick hmac t m") (simp add: e)
    next
      case False
      have a: "above (rx_last_counter r) (max (bm_counter m + 1) (usec t))"
        using Cons.prems(1) by (auto simp: in_step_def above_def split: option.splits)
      have k: "rx_key r = bm_key m" using Cons.prems(1) by (simp add: in_step_def)
      have s: "\<bar>usec t' - usec t\<bar> \<le> rx_max_skew r" using Cons.prems(2) by (simp add: e)
      from bm_tick_delivers[OF len Inr k s a] obtain f where
        rx: "rx_receive hmac t' p r =
          (RxFrame f, r\<lparr>rx_last_counter := Some (fr_counter f), rx_last_frame := Some f\<rparr>)"
        and f: "fr_status f = FS_OK" "fr_counter f = bm_counter ?m1" by blast
      let ?r1 = "r\<lparr>rx_last_counter := Some (fr_counter f), rx_last_frame := Some f\<rparr>"
      have "in_step ?m1 ?r1" using f k by (simp add: in_step_def bm_tick_key)
      from Cons.IH[OF this] Cons.prems(2) have "set (link_run hmac es ?m1 ?r1) \<subseteq> {FS_OK}"
        by (simp add: case_prod_beta e)
      with Inr False rx f(1) show ?thesis by (cases "bm_tick hmac t m") (simp add: e)
    qed
  qed
qed

section \<open>Properties\<close>

text \<open>What a receiver accepts: a frame is OK exactly when it is authentic under the
  receiver's key, its time stamp is within the allowed skew of the receiver's clock and its
  counter is above the last accepted one; then, and only then, the receiver's state changes,
  to that frame.\<close>

theorem rx_receive_verdict:
  "(case rx_receive hmac now p r of (res, r') \<Rightarrow>
     if rx_status res = FS_OK
     then (\<exists>f. decode_broadcast_frame hmac p (rx_key r) = Inr f \<and> fr_status f = FS_OK \<and>
             \<bar>usec now - fr_utc f\<bar> \<le> rx_max_skew r \<and>
             (case rx_last_counter r of None \<Rightarrow> True | Some c \<Rightarrow> c < fr_counter f) \<and>
             res = RxFrame f \<and>
             r' = r\<lparr>rx_last_counter := Some (fr_counter f), rx_last_frame := Some f\<rparr>)
     else r' = r \<and> \<not> (\<exists>f. decode_broadcast_frame hmac p (rx_key r) = Inr f \<and>
             fr_status f = FS_OK \<and> rx_fresh now f r))"
proof (cases "rx_status (fst (rx_receive hmac now p r)) = FS_OK")
  case True
  then obtain f where f: "decode_broadcast_frame hmac p (rx_key r) = Inr f" "fr_status f = FS_OK"
    "rx_fresh now f r" by (auto simp: rx_receive_accepts)
  from f show ?thesis by (simp add: rx_receive_accepted[OF f]) (simp add: rx_fresh_def)
next
  case False
  with rx_receive_refused[OF this] rx_receive_accepts[of hmac now p r] show ?thesis
    by (auto split: prod.splits)
qed

text \<open>C8. No replay: whatever arrives in whatever order, at whatever times, the counters of
  the frames a receiver accepts go strictly up, so no payload is ever accepted twice.\<close>

theorem rx_no_replay:
  "sorted_wrt (<) (map snd (rx_accepted hmac ops r)) \<and> distinct (map fst (rx_accepted hmac ops r))"
proof
  show s: "sorted_wrt (<) (map snd (rx_accepted hmac ops r))"
    using rx_accepted_increasing[of hmac ops r] by simp
  show "distinct (map fst (rx_accepted hmac ops r))"
    using s by (rule distinct_keys_of_increasing) (auto dest!: rx_accepted_decodes)
qed

text \<open>Round trip: a frame that was encoded is 32 bytes and decodes under the same key to
  the same time, state, sequence, counter and checksum, marked authentic. Of HMAC only the
  digest's length is used.\<close>

theorem broadcast_roundtrip:
  assumes "\<And>k m. length (hmac k m) = 32"
    and "encode_broadcast_frame hmac key u s q c = Inr p"
  shows "length p = PAYLOAD_SIZE \<and> decode_broadcast_frame hmac p key =
    Inr \<lparr>fr_utc = u, fr_state = s, fr_seq = q, fr_checksum = sync_checksum u s q, fr_counter = c,
         fr_status = FS_OK, fr_valid = True\<rparr>"
  using decode_authentic[OF assms] by (simp add: PAYLOAD_SIZE_def)

text \<open>A keyed stand-in for HMAC, to evaluate examples with.\<close>

definition toy_mac :: "bytes \<Rightarrow> bytes \<Rightarrow> bytes" where
  "toy_mac k m = replicate 32 (sum_list k + sum_list m)"

lemma length_toy_mac [simp]: "length (toy_mac k m) = 32"
  by (simp add: toy_mac_def)

theorem broadcast_roundtrip_witness:
  "\<exists>p. encode_broadcast_frame toy_mac (replicate 16 7) 1700000000000000 5 3 9 = Inr p \<and>
     length p = PAYLOAD_SIZE \<and>
     decode_broadcast_frame toy_mac p (replicate 16 7) =
       Inr \<lparr>fr_utc = 1700000000000000, fr_state = 5, fr_seq = 3,
            fr_checksum = sync_checksum 1700000000000000 5 3, fr_counter = 9,
            fr_status = FS_OK, fr_valid = True\<rparr>"
proof -
  obtain p where p: "encode_broadcast_frame toy_mac (replicate 16 7) 1700000000000000 5 3 9 = Inr p"
    using encode_in_range[of "replicate 16 7" 1700000000000000 5 3 9 toy_mac] by auto
  with broadcast_roundtrip[OF length_toy_mac p] show ?thesis by blast
qed

text \<open>C24. Delivery: over a link that may lose frames, with the receiver's clock within the
  allowed skew of the sender's at every broadcast, every frame that arrives is accepted.
  The sender's clock may stall or step back; its counter goes up anyway.\<close>

theorem link_delivers:
  assumes "\<And>k m. length (hmac k m) = 32"
    and "rx_key r = bm_key m" and "rx_last_counter r = None"
    and "list_all (\<lambda>(t, t', lost). \<bar>usec t' - usec t\<bar> \<le> rx_max_skew r) es"
  shows "set (link_run hmac es m r) \<subseteq> {FS_OK}"
  using assms by (intro link_run_accepts) (auto simp: in_step_def)

definition example_manager :: bmanager where
  "example_manager = \<lparr>bm_key = replicate 16 7, bm_has_transmit = True, bm_state = SW_ESTOP,
     bm_sequence = 3, bm_frames_sent = 0, bm_counter = 0, bm_sent = []\<rparr>"

definition example_receiver :: breceiver where
  "example_receiver = \<lparr>rx_key = replicate 16 7, rx_max_skew = 200000, rx_last_counter = None,
     rx_last_frame = None\<rparr>"

theorem link_delivers_witness:
  "bm_init (replicate 16 7) True \<noteq> Inl KeyTooShort \<and>
   set (link_run toy_mac [(1, 1, False), (9/10, 1, True), (19/20, 11/10, False)]
      example_manager example_receiver) \<subseteq> {FS_OK}"
proof -
  have u: "usec 1 = 1000000" "usec (9/10) = 900000" "usec (19/20) = 950000" "usec (11/10) = 1100000"
    by (simp_all add: usec_def py_int_def)
  have "set (link_run toy_mac [(1, 1, False), (9/10, 1, True), (19/20, 11/10, False)]
      example_manager example_receiver) \<subseteq> {FS_OK}"
    by (rule link_delivers[OF length_toy_mac])
      (simp_all add: example_manager_def example_receiver_def u)
  then show ?thesis by (simp add: bm_init_def check_key_def SHOW_KEY_MIN_BYTES_def)
qed

text \<open>C32. A restarted ground station is heard: a fresh manager (counter 0) whose clock is past
  every counter the receiver has accepted gets its very first frame accepted, with the state
  and sequence it carries.\<close>

theorem restarted_manager_is_heard:
  assumes "\<And>k m. length (hmac k m) = 32"
    and "bm_counter m = 0" and "fst (bm_tick hmac now m) = Inr p" and "rx_key r = bm_key m"
    and "\<bar>usec now' - usec now\<bar> \<le> rx_max_skew r"
    and "rx_last_counter r = Some c" and "c < usec now"
  shows "\<exists>f. fst (rx_receive hmac now' p r) = RxFrame f \<and> fr_status f = FS_OK \<and>
    fr_state f = swarm_int (bm_state m) \<and> fr_seq f = bm_sequence m \<and> c < fr_counter f"
proof -
  have "above (rx_last_counter r) (max (bm_counter m + 1) (usec now))" using assms by simp
  from bm_tick_delivers[OF assms(1,3,4,5) this] assms(6,7) show ?thesis
    by (auto simp: bm_tick_counter)
qed

theorem restarted_manager_is_heard_witness:
  "\<exists>p f. fst (bm_tick toy_mac 2 example_manager) = Inr p \<and>
     fst (rx_receive toy_mac 2 p (example_receiver\<lparr>rx_last_counter := Some 1000001\<rparr>)) = RxFrame f \<and>
     fr_status f = FS_OK \<and> fr_state f = 5 \<and> 1000001 < fr_counter f"
proof -
  have u: "usec 2 = 2000000" by (simp add: usec_def py_int_def)
  obtain p where "encode_broadcast_frame toy_mac (replicate 16 7) 2000000 5 3 2000000 = Inr p"
    using encode_in_range[of "replicate 16 7" 2000000 5 3 2000000 toy_mac] by auto
  then have p: "fst (bm_tick toy_mac 2 example_manager) = Inr p"
    by (simp add: bm_tick_cases example_manager_def u Let_def)
  from restarted_manager_is_heard[OF length_toy_mac _ p,
      of "example_receiver\<lparr>rx_last_counter := Some 1000001\<rparr>" 2 1000001] p
  show ?thesis by (auto simp: u example_manager_def example_receiver_def)
qed

text \<open>The 16 bit checksum notices any single flipped bit of the 64 bit time stamp (the
  upper half included), of the state byte and of the 32 bit sequence id.\<close>

theorem checksum_detects_bit_flip:
  "(k < 64 \<longrightarrow> sync_checksum (flip_bit k u) s q \<noteq> sync_checksum u s q) \<and>
   (k < 8 \<longrightarrow> sync_checksum u (flip_bit k s) q \<noteq> sync_checksum u s q) \<and>
   (k < 32 \<longrightarrow> sync_checksum u s (flip_bit k q) \<noteq> sync_checksum u s q)"
  by (simp add: checksum_flip_utc checksum_flip_state checksum_flip_seq)

theorem checksum_detects_bit_flip_witness:
  "sync_checksum (flip_bit 40 1700000000000000) 5 3 \<noteq> sync_checksum 1700000000000000 5 3 \<and>
   sync_checksum 1700000000000000 (flip_bit 2 5) 3 \<noteq> sync_checksum 1700000000000000 5 3"
  using checksum_detects_bit_flip[of 40 1700000000000000 5 3]
    checksum_detects_bit_flip[of 2 1700000000000000 5 3] by simp
end
