(* ===== verification/Tdma.thy ===== *)
theory Tdma
  imports Struct_Codec Broadcast
begin

text \<open>
  The slotted uplink, \<^verbatim>\<open>packages/tara-gcs/tara_gcs/tdma_scheduler.py\<close>: the 16 byte status
  payload, \<^verbatim>\<open>TDMASlot\<close> and \<^verbatim>\<open>TDMAScheduler\<close>, and the channel budget. Slot boundaries are
  computed in floating point and their disjointness is claimed for floating point, so the
  slot arithmetic takes the rounding \<open>fl\<close> of a floating point operation as a parameter: each
  Python operation is the exact one followed by \<open>fl\<close>. Results about exact arithmetic
  instantiate it with the identity, and \<open>fl53\<close> is IEEE double precision rounding (to 53
  bits, ties to even; over- and underflow do not occur here and are left out).
\<close>

section \<open>The status payload\<close>

definition STATUS_FORMAT :: "fmt list" where
  "STATUS_FORMAT = [FU 2, FU 2, FU 2, FU 1, FU 1, FI 2, FI 2, FI 2]"

definition STATUS_PAYLOAD_SIZE :: nat where
  "STATUS_PAYLOAD_SIZE = 16"

definition STATUS_RESERVED :: nat where
  "STATUS_RESERVED = STATUS_PAYLOAD_SIZE - calcsize STATUS_FORMAT"

definition STATUS_FRAME_SIZE :: nat where
  "STATUS_FRAME_SIZE = STATUS_PAYLOAD_SIZE + MAC_FRAMING_BYTES"

definition RADIO_CAPACITY_BPS :: real where
  "RADIO_CAPACITY_BPS = 250000"

definition EPOCH_SECONDS :: real where
  "EPOCH_SECONDS = 2"

record status =
  st_drone_id :: int
  st_vbat_mv :: int
  st_wp_idx :: int
  st_rtk :: int
  st_faults :: int
  st_x_err :: int
  st_y_err :: int
  st_z_err :: int

datatype tdma_error =
    StatusStructError
  | StatusSizeError nat
  | FleetSizeError int
  | EpochError real
  | DroneIdError int
  | OffsetError real

definition encode_status_payload :: "status \<Rightarrow> tdma_error + bytes" where
  "encode_status_payload s =
     (case struct_pack STATUS_FORMAT
        [VI (st_drone_id s), VI (st_vbat_mv s), VI (st_wp_idx s), VI (st_rtk s), VI (st_faults s),
         VI (st_x_err s), VI (st_y_err s), VI (st_z_err s)] of
        None \<Rightarrow> Inl StatusStructError
      | Some payload \<Rightarrow> Inr (payload @ replicate STATUS_RESERVED 0))"

definition decode_status_payload :: "bytes \<Rightarrow> tdma_error + status" where
  "decode_status_payload payload =
     (if length payload \<noteq> STATUS_PAYLOAD_SIZE then Inl (StatusSizeError (length payload))
      else case struct_unpack STATUS_FORMAT (take (calcsize STATUS_FORMAT) payload) of
             Some [VI a, VI b, VI c, VI d, VI e, VI x, VI y, VI z] \<Rightarrow>
               Inr \<lparr>st_drone_id = a, st_vbat_mv = b, st_wp_idx = c, st_rtk = d, st_faults = e,
                    st_x_err = x, st_y_err = y, st_z_err = z\<rparr>
           | _ \<Rightarrow> Inl StatusStructError)"

section \<open>Slots\<close>

record slot =
  slot_drone :: int
  slot_start :: real
  slot_end :: real

definition slot_width :: "(real \<Rightarrow> real) \<Rightarrow> slot \<Rightarrow> real" where
  "slot_width fl s = fl (slot_end s - slot_start s)"

definition slot_contains :: "slot \<Rightarrow> real \<Rightarrow> bool" where
  "slot_contains s t \<longleftrightarrow> slot_start s \<le> t \<and> t < slot_end s"

definition slot_overlaps :: "slot \<Rightarrow> slot \<Rightarrow> bool" where
  "slot_overlaps s s' \<longleftrightarrow> slot_start s < slot_end s' \<and> slot_start s' < slot_end s"

record scheduler =
  fleet_size :: int
  epoch_s :: real

definition scheduler_init :: "int \<Rightarrow> real \<Rightarrow> tdma_error + scheduler" where
  "scheduler_init n e =
     (if n \<le> 0 then Inl (FleetSizeError n)
      else if e \<le> 0 then Inl (EpochError e)
      else Inr \<lparr>fleet_size = n, epoch_s = e\<rparr>)"

definition slot_width_s :: "(real \<Rightarrow> real) \<Rightarrow> scheduler \<Rightarrow> real" where
  "slot_width_s fl sch = fl (epoch_s sch / fl (of_int (fleet_size sch)))"

text \<open>\<^verbatim>\<open>i * self.epoch_s / self.fleet_size\<close>\<close>

definition boundary :: "(real \<Rightarrow> real) \<Rightarrow> scheduler \<Rightarrow> int \<Rightarrow> real" where
  "boundary fl sch i = fl (fl (fl (of_int i) * epoch_s sch) / fl (of_int (fleet_size sch)))"

definition slot_for :: "(real \<Rightarrow> real) \<Rightarrow> scheduler \<Rightarrow> int \<Rightarrow> tdma_error + slot" where
  "slot_for fl sch i =
     (if \<not> (0 \<le> i \<and> i < fleet_size sch) then Inl (DroneIdError i)
      else Inr \<lparr>slot_drone = i, slot_start = boundary fl sch i,
                slot_end = boundary fl sch (i + 1)\<rparr>)"

fun collect :: "('e + 'a) list \<Rightarrow> 'e + 'a list" where
  "collect [] = Inr []"
| "collect (Inl e # rs) = Inl e"
| "collect (Inr x # rs) = (case collect rs of Inl e \<Rightarrow> Inl e | Inr xs \<Rightarrow> Inr (x # xs))"

definition all_slots :: "(real \<Rightarrow> real) \<Rightarrow> scheduler \<Rightarrow> tdma_error + slot list" where
  "all_slots fl sch = collect (map (slot_for fl sch) [0..fleet_size sch - 1])"

definition drone_for_offset :: "(real \<Rightarrow> real) \<Rightarrow> scheduler \<Rightarrow> real \<Rightarrow> tdma_error + int" where
  "drone_for_offset fl sch t =
     (if \<not> (0 \<le> t \<and> t < epoch_s sch) then Inl (OffsetError t)
      else let idx = py_int (fl (t / slot_width_s fl sch)) in Inr (min idx (fleet_size sch - 1)))"

definition transmission_time_s :: "(real \<Rightarrow> real) \<Rightarrow> real \<Rightarrow> real" where
  "transmission_time_s fl capacity = fl (fl (real (STATUS_FRAME_SIZE * 8)) / capacity)"

definition slot_utilization :: "(real \<Rightarrow> real) \<Rightarrow> scheduler \<Rightarrow> real \<Rightarrow> real" where
  "slot_utilization fl sch capacity =
     fl (transmission_time_s fl capacity / slot_width_s fl sch)"

definition uplink_bitrate_bps :: "(real \<Rightarrow> real) \<Rightarrow> scheduler \<Rightarrow> real" where
  "uplink_bitrate_bps fl sch =
     fl (fl (of_int (fleet_size sch * int STATUS_FRAME_SIZE * 8)) / epoch_s sch)"

definition DOWNLINK_HZ :: real where
  "DOWNLINK_HZ = 10"

definition total_bitrate_bps :: "(real \<Rightarrow> real) \<Rightarrow> int \<Rightarrow> real \<Rightarrow> tdma_error + real" where
  "total_bitrate_bps fl n e =
     (case scheduler_init n e of Inl err \<Rightarrow> Inl err
      | Inr sch \<Rightarrow> Inr (fl (downlink_bitrate_bps DOWNLINK_HZ + uplink_bitrate_bps fl sch)))"

definition channel_utilization ::
  "(real \<Rightarrow> real) \<Rightarrow> int \<Rightarrow> real \<Rightarrow> real \<Rightarrow> tdma_error + real"
where
  "channel_utilization fl n e capacity =
     (case total_bitrate_bps fl n e of Inl err \<Rightarrow> Inl err | Inr b \<Rightarrow> Inr (fl (b / capacity)))"

text \<open>IEEE 754 double precision: round to 53 significant bits, a tie to the even one.\<close>

definition fl53 :: "real \<Rightarrow> real" where
  "fl53 x = (if x = 0 then 0
     else let e = \<lfloor>log 2 \<bar>x\<bar>\<rfloor> - 52 in of_int (py_round (x / 2 powi e)) * 2 powi e)"

section \<open>Lemmas\<close>

lemma scheduler_init_Inr:
  "scheduler_init n e = Inr sch \<longleftrightarrow> 0 < n \<and> 0 < e \<and> sch = \<lparr>fleet_size = n, epoch_s = e\<rparr>"
  by (auto simp: scheduler_init_def)

lemma slot_for_Inr:
  "slot_for fl sch i = Inr s \<longleftrightarrow> 0 \<le> i \<and> i < fleet_size sch \<and>
    s = \<lparr>slot_drone = i, slot_start = boundary fl sch i, slot_end = boundary fl sch (i + 1)\<rparr>"
  by (auto simp: slot_for_def)

lemma boundary_mono:
  assumes "mono fl" and "fl 0 = 0" and "0 < epoch_s sch" and "0 < fleet_size sch" and "i \<le> j"
  shows "boundary fl sch i \<le> boundary fl sch j"
proof -
  have n: "0 \<le> fl (of_int (fleet_size sch))"
    using monoD[OF assms(1), of 0 "of_int (fleet_size sch)"] assms(2,4) by simp
  have "fl (of_int i) \<le> fl (of_int j)" using assms(5) by (intro monoD[OF assms(1)]) simp
  then have "fl (of_int i) * epoch_s sch \<le> fl (of_int j) * epoch_s sch"
    using assms(3) by (intro mult_right_mono) auto
  then have "fl (fl (of_int i) * epoch_s sch) \<le> fl (fl (of_int j) * epoch_s sch)"
    by (rule monoD[OF assms(1)])
  then have "fl (fl (of_int i) * epoch_s sch) / fl (of_int (fleet_size sch))
      \<le> fl (fl (of_int j) * epoch_s sch) / fl (of_int (fleet_size sch))"
    using n by (rule divide_right_mono)
  then show ?thesis unfolding boundary_def by (rule monoD[OF assms(1)])
qed

lemma exact_boundary: "boundary id sch i = of_int i * epoch_s sch / of_int (fleet_size sch)"
  by (simp add: boundary_def)

text \<open>Exact arithmetic: an offset lies in slot \<open>i\<close> when the quotient by the width floors to \<open>i\<close>.\<close>

lemma exact_slot_contains:
  assumes "0 < fleet_size sch" and "0 < epoch_s sch" and "slot_for id sch i = Inr s"
  shows "slot_contains s t \<longleftrightarrow> \<lfloor>t / (epoch_s sch / of_int (fleet_size sch))\<rfloor> = i"
proof -
  let ?w = "epoch_s sch / of_int (fleet_size sch)"
  have w: "0 < ?w" using assms(1,2) by simp
  have "slot_contains s t \<longleftrightarrow> of_int i * ?w \<le> t \<and> t < of_int (i + 1) * ?w"
    using assms(3) by (auto simp: slot_for_Inr slot_contains_def exact_boundary)
  also have "\<dots> \<longleftrightarrow> of_int i \<le> t / ?w \<and> t / ?w < of_int (i + 1)"
    using w by (simp add: pos_le_divide_eq pos_divide_less_eq del: divide_divide_eq_right)
  also have "\<dots> \<longleftrightarrow> \<lfloor>t / ?w\<rfloor> = i"
    by (simp add: floor_eq_iff)
  finally show ?thesis .
qed

lemma fl53_eval:
  assumes "2 powi k \<le> x" and "x < 2 powi (k + 1)" and "py_round (x / 2 powi (k - 52)) = n"
  shows "fl53 x = of_int n * 2 powi (k - 52)"
proof -
  have "(0 :: real) < 2 powi k" by simp
  with assms(1) have pos: "0 < x" by linarith
  have k: "2 powr real_of_int k = 2 powi k" "2 powr real_of_int (k + 1) = 2 powi (k + 1)"
    by (rule powr_real_of_int'; simp)+
  have "\<lfloor>log 2 x\<rfloor> = k"
    using assms(1,2) pos k by (subst floor_log_eq_powr_iff) (simp_all del: of_int_add)
  with pos assms(3) show ?thesis by (simp add: fl53_def)
qed

section \<open>Disjoint, gapless slots\<close>

text \<open>C33. Whatever the rounding of floating point does (any monotone rounding that keeps 0), the
  slots of a fleet are gapless and disjoint: each slot starts at the very instant the one
  before it ends, slots of different drones never overlap, and no instant of the epoch belongs
  to two drones.\<close>

theorem slots_disjoint_gapless:
  assumes "mono fl" and "fl 0 = 0" and "scheduler_init n e = Inr sch"
    and "slot_for fl sch i = Inr s" and "slot_for fl sch j = Inr s'" and "i < j"
  shows "\<not> slot_overlaps s s' \<and> \<not> slot_overlaps s' s \<and>
         (\<forall>t. \<not> (slot_contains s t \<and> slot_contains s' t)) \<and>
         (j = i + 1 \<longrightarrow> slot_end s = slot_start s')"
proof -
  have "boundary fl sch (i + 1) \<le> boundary fl sch j"
    using assms by (intro boundary_mono) (auto simp: scheduler_init_Inr)
  then show ?thesis
    using assms(4,5) by (auto simp: slot_for_Inr slot_overlaps_def slot_contains_def)
qed

theorem slots_disjoint_gapless_witness:
  "\<exists>sch s s'. slot_for id sch 3 = Inr s \<and> slot_for id sch 4 = Inr s' \<and> slot_end s = slot_start s'"
proof -
  let ?sch = "\<lparr>fleet_size = 500, epoch_s = 2\<rparr>"
  obtain s where s: "slot_for id ?sch 3 = Inr s" by (simp add: slot_for_def)
  obtain s' where s': "slot_for id ?sch 4 = Inr s'" by (simp add: slot_for_def)
  show ?thesis
    using slots_disjoint_gapless [of id 500 2 ?sch 3 s 4 s'] s s'
    by (auto simp: scheduler_init_def mono_def)
qed

section \<open>The attribution of an offset\<close>

lemma all_slots_Inr:
  assumes "0 < fleet_size sch"
  shows "\<exists>ss. all_slots fl sch = Inr ss \<and> map slot_drone ss = [0..fleet_size sch - 1] \<and>
              (\<forall>s \<in> set ss. slot_for fl sch (slot_drone s) = Inr s)"
proof -
  have "\<exists>ss. collect (map (slot_for fl sch) is) = Inr ss \<and> map slot_drone ss = is \<and>
             (\<forall>s \<in> set ss. slot_for fl sch (slot_drone s) = Inr s)"
    if "\<forall>i \<in> set is. 0 \<le> i \<and> i < fleet_size sch" for "is"
    using that by (induction "is") (auto simp: slot_for_def)
  then show ?thesis unfolding all_slots_def by simp
qed

lemma exact_index:
  assumes "0 < fleet_size sch" and "0 \<le> t" and "t < epoch_s sch"
  defines "q \<equiv> \<lfloor>t / (epoch_s sch / of_int (fleet_size sch))\<rfloor>"
  shows "0 \<le> q" and "q < fleet_size sch" and "drone_for_offset id sch t = Inr q"
proof -
  let ?x = "t / (epoch_s sch / of_int (fleet_size sch))"
  have e: "0 < epoch_s sch" using assms(2,3) by linarith
  then have x: "0 \<le> ?x" "?x < of_int (fleet_size sch)"
    using assms(1-3) by (simp_all add: field_simps)
  then show q: "0 \<le> q" "q < fleet_size sch"
    unfolding q_def by (simp_all add: floor_less_iff del: divide_divide_eq_right)
  then show "drone_for_offset id sch t = Inr q"
    using assms(2,3) x
    by (simp add: drone_for_offset_def slot_width_s_def py_int_def q_def
        del: divide_divide_eq_right)
qed

text \<open>In exact arithmetic \<^verbatim>\<open>drone_for_offset\<close> is the inverse of \<^verbatim>\<open>slot_for\<close> its documentation
  promises: for every offset of the epoch it answers with a drone of the fleet, and with drone
  \<open>i\<close> exactly when the slot of \<open>i\<close> contains the offset; \<^verbatim>\<open>all_slots\<close> lists each drone once, in
  transmission order.\<close>

theorem exact_attribution:
  assumes "scheduler_init n e = Inr sch"
  shows "\<exists>ss. all_slots id sch = Inr ss \<and> map slot_drone ss = [0..n - 1] \<and>
    (\<forall>t. 0 \<le> t \<and> t < e \<longrightarrow>
       (\<exists>i. drone_for_offset id sch t = Inr i \<and> 0 \<le> i \<and> i < n \<and>
            (\<forall>s \<in> set ss. slot_contains s t \<longleftrightarrow> slot_drone s = i)))"
proof -
  have sch: "0 < n" "0 < e" "sch = \<lparr>fleet_size = n, epoch_s = e\<rparr>"
    using assms by (simp_all add: scheduler_init_Inr)
  obtain ss where ss: "all_slots id sch = Inr ss" "map slot_drone ss = [0..n - 1]"
      "\<forall>s \<in> set ss. slot_for id sch (slot_drone s) = Inr s"
    using all_slots_Inr[of sch id] sch by auto
  have "\<exists>i. drone_for_offset id sch t = Inr i \<and> 0 \<le> i \<and> i < n \<and>
            (\<forall>s \<in> set ss. slot_contains s t \<longleftrightarrow> slot_drone s = i)"
    if "0 \<le> t \<and> t < e" for t
    using exact_index[of sch t] that sch ss(3) exact_slot_contains[of sch] by auto
  with ss show ?thesis by blast
qed

theorem exact_attribution_witness:
  "\<exists>ss. all_slots id \<lparr>fleet_size = 4, epoch_s = 2\<rparr> = Inr ss \<and> map slot_drone ss = [0..4 - 1]"
  using exact_attribution [of 4 2 "\<lparr>fleet_size = 4, epoch_s = 2\<rparr>"]
  by (auto simp: scheduler_init_def)

section \<open>The attribution in double precision\<close>

lemma py_round_near:
  assumes "\<bar>x - of_int n\<bar> < 1 / 2"
  shows "py_round x = n"
proof -
  have "\<lfloor>x\<rfloor> = n \<or> \<lfloor>x\<rfloor> = n - 1"
    using assms unfolding floor_eq_iff by (auto simp: abs_if split: if_splits)
  then show ?thesis using assms by (auto simp: py_round_def Let_def abs_if split: if_splits)
qed

lemma fl53_near:
  assumes "2 powi k \<le> x" and "x < 2 powi (k + 1)" and "\<bar>x / 2 powi (k - 52) - of_int n\<bar> < 1 / 2"
  shows "fl53 x = of_int n * 2 powi (k - 52)"
  using assms(1,2) py_round_near[OF assms(3)] by (rule fl53_eval)

lemmas fl53_arith = power_int_def power_one_over

lemma fl53_500: "fl53 500 = 500"
  using fl53_near[of 8 500 "500 * 2 ^ 44"] by (simp add: fl53_arith)

lemma fl53_43: "fl53 43 = 43"
  using fl53_near[of 5 43 "43 * 2 ^ 47"] by (simp add: fl53_arith)

lemma fl53_44: "fl53 44 = 44"
  using fl53_near[of 5 44 "44 * 2 ^ 47"] by (simp add: fl53_arith)

lemma fl53_86: "fl53 86 = 86"
  using fl53_near[of 6 86 "86 * 2 ^ 46"] by (simp add: fl53_arith)

lemma fl53_88: "fl53 88 = 88"
  using fl53_near[of 6 88 "88 * 2 ^ 46"] by (simp add: fl53_arith)

definition show_fleet :: scheduler where
  "show_fleet = \<lparr>fleet_size = 500, epoch_s = 2\<rparr>"

lemma width_500: "slot_width_s fl53 show_fleet = 4611686018427388 / 2 ^ 60"
  using fl53_near[of "- 8" "1 / 250" 4611686018427388]
  by (simp add: slot_width_s_def show_fleet_def fl53_500 fl53_arith)

lemma boundary_43: "boundary fl53 show_fleet 43 = 6196953087261802 / 2 ^ 55"
  using fl53_near[of "- 3" "43 / 250" 6196953087261802]
  by (simp add: boundary_def show_fleet_def fl53_500 fl53_43 fl53_86 fl53_arith)

lemma boundary_44: "boundary fl53 show_fleet 44 = 6341068275337658 / 2 ^ 55"
  using fl53_near[of "- 3" "22 / 125" 6341068275337658]
  by (simp add: boundary_def show_fleet_def fl53_500 fl53_44 fl53_88 fl53_arith)

lemma quotient_43:
  "fl53 (6196953087261802 / 2 ^ 55 / (4611686018427388 / 2 ^ 60)) = 6051711999279103 / 2 ^ 47"
  using fl53_near[of 5 "6196953087261802 / 2 ^ 55 / (4611686018427388 / 2 ^ 60)" 6051711999279103]
  by (simp add: fl53_arith)

text \<open>In double precision it is not: in a fleet of 500 with the 2 second epoch, the instant
  at which the slot of drone 43 begins lies in the slot of drone 43, but
  \<^verbatim>\<open>drone_for_offset\<close> attributes a frame received at that instant to drone 42.\<close>

theorem double_precision_misattribution:
  "\<exists>sch s. scheduler_init 500 EPOCH_SECONDS = Inr sch \<and> slot_for fl53 sch 43 = Inr s \<and>
     slot_contains s (slot_start s) \<and> drone_for_offset fl53 sch (slot_start s) = Inr 42"
proof (intro exI conjI)
  show "scheduler_init 500 EPOCH_SECONDS = Inr show_fleet"
    by (simp add: scheduler_init_def show_fleet_def EPOCH_SECONDS_def)
  show "slot_for fl53 show_fleet 43 = Inr \<lparr>slot_drone = 43,
      slot_start = 6196953087261802 / 2 ^ 55, slot_end = 6341068275337658 / 2 ^ 55\<rparr>"
    using boundary_43 boundary_44 by (simp add: slot_for_def show_fleet_def)
  show "drone_for_offset fl53 show_fleet (slot_start \<lparr>slot_drone = 43,
      slot_start = 6196953087261802 / 2 ^ 55, slot_end = 6341068275337658 / 2 ^ 55\<rparr>) = Inr 42"
    unfolding drone_for_offset_def width_500 using quotient_43
    by (simp add: show_fleet_def py_int_def floor_eq_iff)
qed (simp add: slot_contains_def)

section \<open>The status payload and the channel budget\<close>

definition enc_status :: "status \<Rightarrow> bytes option" where
  "enc_status s = (case encode_status_payload s of Inl _ \<Rightarrow> None | Inr bs \<Rightarrow> Some bs)"

definition dec_status :: "bytes \<Rightarrow> status option" where
  "dec_status bs = (case decode_status_payload bs of Inl _ \<Rightarrow> None | Inr s \<Rightarrow> Some s)"

lemma decode_encode_status:
  assumes "encode_status_payload s = Inr p"
  shows "length p = STATUS_PAYLOAD_SIZE" and "decode_status_payload p = Inr s"
proof -
  let ?vs = "[VI (st_drone_id s), VI (st_vbat_mv s), VI (st_wp_idx s), VI (st_rtk s),
    VI (st_faults s), VI (st_x_err s), VI (st_y_err s), VI (st_z_err s)]"
  obtain bs where bs: "struct_pack STATUS_FORMAT ?vs = Some bs"
      and p: "p = bs @ replicate STATUS_RESERVED 0"
    using assms by (auto simp: encode_status_payload_def split: option.splits)
  have size: "calcsize STATUS_FORMAT = 14" by (simp add: STATUS_FORMAT_def)
  have len: "length bs = 14" using struct_pack_length[OF bs] size by simp
  show l: "length p = STATUS_PAYLOAD_SIZE"
    using len by (simp add: p STATUS_RESERVED_def size STATUS_PAYLOAD_SIZE_def)
  have "struct_unpack STATUS_FORMAT bs = Some ?vs"
    using bs by (rule struct_unpack_pack) (simp_all add: STATUS_FORMAT_def)
  then show "decode_status_payload p = Inr s"
    using l len by (simp add: decode_status_payload_def size p)
qed

interpretation status_codec: fixed_codec enc_status dec_status STATUS_PAYLOAD_SIZE
  by unfold_locales
    (auto simp: enc_status_def dec_status_def STATUS_PAYLOAD_SIZE_def[symmetric] decode_encode_status
      split: sum.splits, simp add: STATUS_PAYLOAD_SIZE_def)

definition status_in_range :: "status \<Rightarrow> bool" where
  "status_in_range s \<longleftrightarrow>
     (\<forall>x \<in> {st_drone_id s, st_vbat_mv s, st_wp_idx s}. 0 \<le> x \<and> x < 65536) \<and>
     (\<forall>x \<in> {st_rtk s, st_faults s}. 0 \<le> x \<and> x < 256) \<and>
     (\<forall>x \<in> {st_x_err s, st_y_err s, st_z_err s}. - 32768 \<le> x \<and> x < 32768)"

lemma encode_status_in_range: "(\<exists>p. encode_status_payload s = Inr p) \<longleftrightarrow> status_in_range s"
proof -
  have "(\<exists>p. encode_status_payload s = Inr p) \<longleftrightarrow> packable STATUS_FORMAT
    [VI (st_drone_id s), VI (st_vbat_mv s), VI (st_wp_idx s), VI (st_rtk s), VI (st_faults s),
     VI (st_x_err s), VI (st_y_err s), VI (st_z_err s)]"
    by (simp add: encode_status_payload_def flip: struct_pack_packable split: option.splits)
  also have "\<dots> \<longleftrightarrow> status_in_range s"
    by (simp add: STATUS_FORMAT_def status_in_range_def conj_ac)
  finally show ?thesis .
qed

lemma decode_status_size:
  "decode_status_payload q = Inl (StatusSizeError (length q)) \<longleftrightarrow> length q \<noteq> STATUS_PAYLOAD_SIZE"
proof (cases "length q = STATUS_PAYLOAD_SIZE")
  case True
  then show ?thesis
    unfolding decode_status_payload_def by (auto split: option.splits list.splits fval.splits)
qed (simp add: decode_status_payload_def)

text \<open>A status report whose fields fit their wire widths packs into 16 bytes, from which the
  ground station reads back exactly that report and which no other report packs into; a report
  with a field out of range is refused rather than truncated; and a payload of any other
  length than 16 bytes is refused.\<close>

theorem status_payload_roundtrip:
  "(case encode_status_payload s of
      Inr p \<Rightarrow> status_in_range s \<and> length p = STATUS_PAYLOAD_SIZE \<and>
        decode_status_payload p = Inr s \<and> (\<forall>s'. encode_status_payload s' = Inr p \<longrightarrow> s' = s)
    | Inl err \<Rightarrow> \<not> status_in_range s \<and> err = StatusStructError) \<and>
   (decode_status_payload q = Inl (StatusSizeError (length q)) \<longleftrightarrow> length q \<noteq> STATUS_PAYLOAD_SIZE)"
proof (cases "encode_status_payload s")
  case (Inl err)
  then have "err = StatusStructError"
    by (simp add: encode_status_payload_def split: option.splits)
  with Inl show ?thesis
    using encode_status_in_range[of s] decode_status_size[of q] by simp
next
  case (Inr p)
  have inj: "\<forall>s'. encode_status_payload s' = Inr p \<longrightarrow> s' = s"
    using Inr status_codec.enc_inj[of _ p s] by (simp add: enc_status_def)
  have ok: "status_in_range s" using encode_status_in_range[of s] Inr by blast
  show ?thesis
    unfolding Inr sum.case
    using decode_encode_status[OF Inr] decode_status_size[of q] inj ok by blast
qed

theorem status_payload_roundtrip_witness:
  "\<exists>p. encode_status_payload \<lparr>st_drone_id = 7, st_vbat_mv = 15200, st_wp_idx = 300, st_rtk = 2,
     st_faults = 0, st_x_err = - 12, st_y_err = 5, st_z_err = 0\<rparr> = Inr p \<and>
     length p = STATUS_PAYLOAD_SIZE"
proof -
  let ?s = "\<lparr>st_drone_id = 7, st_vbat_mv = 15200, st_wp_idx = 300, st_rtk = 2,
     st_faults = 0, st_x_err = - 12, st_y_err = 5, st_z_err = 0\<rparr>"
  have "status_in_range ?s" by (simp add: status_in_range_def)
  then obtain p where p: "encode_status_payload ?s = Inr p" using encode_status_in_range by blast
  have "length p = STATUS_PAYLOAD_SIZE"
    using conjunct1 [OF status_payload_roundtrip [of ?s "[]"]] unfolding p sum.case by blast
  with p show ?thesis by blast
qed

text \<open>The budget of the link, in exact arithmetic: a status frame sent at the start of a slot
  is off the air before the slot ends exactly for fleets of up to 2083 drones; the whole
  protocol loads the channel with the fixed downlink plus 120 bit/s per drone, which stays
  below 26 percent up to 500 drones and below capacity up to 2052; and an empty fleet is
  refused.\<close>

theorem uplink_budget:
  "(case scheduler_init n EPOCH_SECONDS of
      Inl err \<Rightarrow> n \<le> 0 \<and> err = FleetSizeError n
    | Inr sch \<Rightarrow> 0 < n \<and> (slot_utilization id sch RADIO_CAPACITY_BPS < 1 \<longleftrightarrow> n \<le> 2083) \<and>
        (\<forall>i s. slot_for id sch i = Inr s \<longrightarrow>
           slot_contains s (slot_start s + transmission_time_s id RADIO_CAPACITY_BPS) =
             (n \<le> 2083)) \<and>
        (let load = (downlink_bitrate_bps DOWNLINK_HZ + 120 * of_int n) / 250000 in
           channel_utilization id n EPOCH_SECONDS RADIO_CAPACITY_BPS = Inr load \<and>
           (n \<le> 500 \<longrightarrow> load < 26 / 100) \<and> (load < 1 \<longleftrightarrow> n \<le> 2052)))"
proof (cases "0 < n")
  case True
  let ?sch = "\<lparr>fleet_size = n, epoch_s = EPOCH_SECONDS\<rparr>"
  have init: "scheduler_init n EPOCH_SECONDS = Inr ?sch"
    using True by (simp add: scheduler_init_Inr EPOCH_SECONDS_def)
  have fits: "240 * of_int n < (2 :: real) * 250000 \<longleftrightarrow> n \<le> 2083" by linarith
  have util: "slot_utilization id ?sch RADIO_CAPACITY_BPS < 1 \<longleftrightarrow> n \<le> 2083"
    using True fits by (simp add: slot_utilization_def transmission_time_s_def slot_width_s_def
        STATUS_FRAME_SIZE_def STATUS_PAYLOAD_SIZE_def MAC_FRAMING_BYTES_def RADIO_CAPACITY_BPS_def
        EPOCH_SECONDS_def field_simps)
  have tx: "transmission_time_s id RADIO_CAPACITY_BPS = 240 / 250000"
    by (simp add: transmission_time_s_def STATUS_FRAME_SIZE_def STATUS_PAYLOAD_SIZE_def
        MAC_FRAMING_BYTES_def RADIO_CAPACITY_BPS_def)
  have contains: "slot_contains s (slot_start s + transmission_time_s id RADIO_CAPACITY_BPS) =
      (n \<le> 2083)" if "slot_for id ?sch i = Inr s" for i s
  proof -
    have "slot_end s = slot_start s + 2 / of_int n"
      using that by (simp add: slot_for_Inr exact_boundary EPOCH_SECONDS_def distrib_right
          add_divide_distrib)
    moreover have "240 / 250000 < 2 / (of_int n :: real) \<longleftrightarrow> n \<le> 2083"
      using True fits by (simp add: field_simps)
    ultimately show ?thesis by (simp add: slot_contains_def tx)
  qed
  have chan: "channel_utilization id n EPOCH_SECONDS RADIO_CAPACITY_BPS =
      Inr ((downlink_bitrate_bps DOWNLINK_HZ + 120 * of_int n) / 250000)"
    using init by (simp add: channel_utilization_def total_bitrate_bps_def uplink_bitrate_bps_def
        STATUS_FRAME_SIZE_def STATUS_PAYLOAD_SIZE_def MAC_FRAMING_BYTES_def RADIO_CAPACITY_BPS_def
        EPOCH_SECONDS_def)
  have "downlink_bitrate_bps DOWNLINK_HZ = 3680"
    by (simp add: downlink_bitrate_bps_def DOWNLINK_HZ_def FRAME_SIZE_def PAYLOAD_SIZE_def
        MAC_FRAMING_BYTES_def)
  moreover have "120 * of_int n < (246320 :: real) \<longleftrightarrow> n \<le> 2052" by linarith
  ultimately show ?thesis using True util contains chan init by (simp add: Let_def)
next
  case False
  then show ?thesis by (simp add: scheduler_init_def)
qed

theorem uplink_budget_witness:
  "slot_utilization id \<lparr>fleet_size = 500, epoch_s = EPOCH_SECONDS\<rparr> RADIO_CAPACITY_BPS < 1"
  using uplink_budget [of 500] by (simp add: scheduler_init_def EPOCH_SECONDS_def)

end
