(* ===== verification/Safety.thy ===== *)
theory Safety
  imports Prelude
begin

text \<open>
  The safety limits every package shares, \<^verbatim>\<open>packages/tara-core/tara_core/safety.py\<close>, and the
  launch pad geometry derived from them, \<^verbatim>\<open>packages/tara-core/tara_core/layout.py\<close>. Python floats
  are reals here. The constructor's checks are the function \<open>limits_check\<close>, in the order the
  code makes them.
\<close>

section \<open>Safety limits\<close>

record limits =
  min_separation_m :: real
  design_separation_m :: real
  pad_spacing_m :: real
  max_velocity_ms :: real
  max_accel_ms2 :: real
  max_yaw_rate_dps :: real
  geofence_radius_m :: real
  max_altitude_m :: real
  geofence_soft_warning_buffer_m :: real
  geofence_hard_buffer_m :: real

datatype limits_error =
    DesignBelowMin real real
  | HardBelowSoft real real
  | PadBelowDesign real real
  | NotPositive string real
  | EnvelopeNegative real

definition limit_fields :: "limits \<Rightarrow> (string \<times> real) list" where
  "limit_fields l =
     [(''min_separation_m'', min_separation_m l), (''design_separation_m'', design_separation_m l),
      (''pad_spacing_m'', pad_spacing_m l), (''max_velocity_ms'', max_velocity_ms l),
      (''max_accel_ms2'', max_accel_ms2 l), (''max_yaw_rate_dps'', max_yaw_rate_dps l),
      (''geofence_radius_m'', geofence_radius_m l), (''max_altitude_m'', max_altitude_m l),
      (''geofence_soft_warning_buffer_m'', geofence_soft_warning_buffer_m l),
      (''geofence_hard_buffer_m'', geofence_hard_buffer_m l)]"

definition limits_check :: "limits \<Rightarrow> limits_error + limits" where
  "limits_check l =
     (if design_separation_m l < min_separation_m l
      then Inl (DesignBelowMin (design_separation_m l) (min_separation_m l))
      else if geofence_hard_buffer_m l < geofence_soft_warning_buffer_m l
      then Inl (HardBelowSoft (geofence_hard_buffer_m l) (geofence_soft_warning_buffer_m l))
      else if pad_spacing_m l < design_separation_m l
      then Inl (PadBelowDesign (pad_spacing_m l) (design_separation_m l))
      else case find (\<lambda>(name, v). v \<le> 0) (limit_fields l) of
             Some (name, v) \<Rightarrow> Inl (NotPositive name v)
           | None \<Rightarrow> Inr l)"

definition DEFAULT_LIMITS :: limits where
  "DEFAULT_LIMITS =
     \<lparr>min_separation_m = 15 / 10, design_separation_m = 2, pad_spacing_m = 22 / 10,
      max_velocity_ms = 6, max_accel_ms2 = 50, max_yaw_rate_dps = 300, geofence_radius_m = 30,
      max_altitude_m = 120, geofence_soft_warning_buffer_m = 10, geofence_hard_buffer_m = 15\<rparr>"

definition separation_margin_m :: "limits \<Rightarrow> real" where
  "separation_margin_m l = design_separation_m l - min_separation_m l"

definition geofence_radii :: "limits \<Rightarrow> real \<Rightarrow> limits_error + real \<times> real" where
  "geofence_radii l r =
     (if r < 0 then Inl (EnvelopeNegative r)
      else Inr (r + geofence_soft_warning_buffer_m l, r + geofence_hard_buffer_m l))"

section \<open>Launch pads and hover layers\<close>

definition BASE_HOVER_ALT_M :: real where
  "BASE_HOVER_ALT_M = 2"

definition MAX_FLEET_SIZE :: int where
  "MAX_FLEET_SIZE = 1000"

datatype layout_error =
    CountNegative int
  | SpacingNotPositive real
  | StepNotPositive real

definition grid_cols :: "int \<Rightarrow> limits \<Rightarrow> real \<Rightarrow> int" where
  "grid_cols n l sp =
     (let max_cols = max 1 \<lfloor>geofence_radius_m l / sp\<rfloor> in max 1 (min \<lceil>sqrt (of_int n)\<rceil> max_cols))"

definition launch_grid :: "int \<Rightarrow> limits \<Rightarrow> real option \<Rightarrow> layout_error + (real \<times> real) list" where
  "launch_grid n l spacing =
     (if n < 0 then Inl (CountNegative n)
      else let sp = (case spacing of None \<Rightarrow> pad_spacing_m l | Some s \<Rightarrow> s) in
        if sp \<le> 0 then Inl (SpacingNotPositive sp)
        else let cols = grid_cols n l sp in
          Inr (map (\<lambda>i. (of_int (i div cols) * sp, of_int (i mod cols) * sp)) [0..n - 1]))"

definition max_layers :: "limits \<Rightarrow> real \<Rightarrow> real \<Rightarrow> int" where
  "max_layers l base step = max 1 (py_int (of_int \<lfloor>(max_altitude_m l - base) / step\<rfloor>) + 1)"

definition altitude_layers ::
  "int \<Rightarrow> limits \<Rightarrow> real \<Rightarrow> real option \<Rightarrow> layout_error + real list"
where
  "altitude_layers n l base step =
     (if n < 0 then Inl (CountNegative n)
      else let st = (case step of None \<Rightarrow> design_separation_m l | Some s \<Rightarrow> s) in
        if st \<le> 0 then Inl (StepNotPositive st)
        else Inr (map (\<lambda>i. base + st * of_int (i mod max_layers l base st)) [0..n - 1]))"

section \<open>Lemmas\<close>

lemma limits_check_Inr:
  assumes "limits_check l = Inr l'"
  shows "l' = l" and "min_separation_m l \<le> design_separation_m l"
    and "design_separation_m l \<le> pad_spacing_m l"
    and "geofence_soft_warning_buffer_m l \<le> geofence_hard_buffer_m l"
    and "\<forall>(name, v) \<in> set (limit_fields l). 0 < v"
  using assms by (force simp: limits_check_def find_None_iff split: if_splits option.splits)+

lemma DEFAULT_LIMITS_ok: "limits_check DEFAULT_LIMITS = Inr DEFAULT_LIMITS"
  by (simp add: limits_check_def DEFAULT_LIMITS_def limit_fields_def)

lemma grid_cols_pos: "1 \<le> grid_cols n l sp"
  by (simp add: grid_cols_def Let_def)

lemma launch_grid_nth:
  assumes "launch_grid n l spacing = Inr ps" and "i < length ps"
  defines "sp \<equiv> case spacing of None \<Rightarrow> pad_spacing_m l | Some s \<Rightarrow> s"
  shows "0 < sp" and "length ps = nat n"
    and "ps ! i = (of_int (int i div grid_cols n l sp) * sp, of_int (int i mod grid_cols n l sp) * sp)"
  using assms by (auto simp: launch_grid_def Let_def split: if_splits option.splits)

lemma of_int_gap: "(a :: int) \<noteq> b \<Longrightarrow> 1 \<le> (of_int a - of_int b :: real)\<^sup>2"
proof -
  assume "a \<noteq> b"
  then have "1 \<le> \<bar>a - b\<bar>" by linarith
  then have "1 \<le> (a - b)\<^sup>2" by (simp add: abs_le_square_iff[of 1, simplified])
  then have "(1 :: real) \<le> of_int ((a - b)\<^sup>2)" by linarith
  then show ?thesis by simp
qed

lemma grid_cell_gap:
  assumes "i \<noteq> j" and "(1 :: int) \<le> c"
  shows "(1 :: real) \<le> (of_int (i div c) - of_int (j div c))\<^sup>2 + (of_int (i mod c) - of_int (j mod c))\<^sup>2"
proof (cases "i div c = j div c")
  case True
  have "i mod c \<noteq> j mod c"
  proof
    assume "i mod c = j mod c"
    with True have "i = j" by (metis mult_div_mod_eq)
    with assms show False by simp
  qed
  then show ?thesis using of_int_gap[of "i mod c" "j mod c"] by (simp add: add_increasing)
next
  case False
  then show ?thesis using of_int_gap[of "i div c" "j div c"] by (simp add: add_increasing2)
qed

section \<open>Properties\<close>

text \<open>C34. Pads are far enough apart: whatever fleet size and limits pass their checks, the grid
  has one pad per drone, the first at the origin, any two pads are at least the pad spacing
  apart, which is at least the distance at which the live monitor aborts, and a row stays
  inside the geofence radius.\<close>

theorem launch_grid_separated:
  assumes "limits_check l = Inr l'" and "launch_grid n l None = Inr ps"
  shows "length ps = nat n \<and>
    (\<forall>i < length ps. \<forall>j < length ps. i \<noteq> j \<longrightarrow>
       pad_spacing_m l \<le> sqrt ((fst (ps ! i) - fst (ps ! j))\<^sup>2 + (snd (ps ! i) - snd (ps ! j))\<^sup>2)) \<and>
    min_separation_m l \<le> pad_spacing_m l \<and> (ps \<noteq> [] \<longrightarrow> ps ! 0 = (0, 0)) \<and>
    (\<forall>p \<in> set ps. 0 \<le> snd p \<and> snd p \<le> geofence_radius_m l)"
proof (intro conjI allI impI ballI)
  let ?sp = "pad_spacing_m l" and ?c = "grid_cols n l (pad_spacing_m l)"
  show "length ps = nat n" using assms(2) by (auto simp: launch_grid_def Let_def split: if_splits)
  show "min_separation_m l \<le> ?sp" using limits_check_Inr[OF assms(1)] by linarith
  have nth: "0 < ?sp" "ps ! i = (of_int (int i div ?c) * ?sp, of_int (int i mod ?c) * ?sp)"
    if "i < length ps" for i
    using launch_grid_nth[OF assms(2) that] by simp_all
  show "ps ! 0 = (0, 0)" if "ps \<noteq> []" using nth(2)[of 0] that by simp
  show "?sp \<le> sqrt ((fst (ps ! i) - fst (ps ! j))\<^sup>2 + (snd (ps ! i) - snd (ps ! j))\<^sup>2)"
    if "i < length ps" "j < length ps" "i \<noteq> j" for i j
  proof (rule real_le_rsqrt)
    let ?d = "(of_int (int i div ?c) - of_int (int j div ?c))\<^sup>2
      + (of_int (int i mod ?c) - of_int (int j mod ?c))\<^sup>2 :: real"
    have "1 \<le> ?d" using that(3) by (intro grid_cell_gap grid_cols_pos) simp
    then have "?sp\<^sup>2 * 1 \<le> ?sp\<^sup>2 * ?d" by (intro mult_left_mono) auto
    also have "?sp\<^sup>2 * ?d = (fst (ps ! i) - fst (ps ! j))\<^sup>2 + (snd (ps ! i) - snd (ps ! j))\<^sup>2"
      by (simp only: nth(2)[OF that(1)] nth(2)[OF that(2)] fst_conv snd_conv)
        (simp add: power2_eq_square algebra_simps)
    finally show "?sp\<^sup>2 \<le> (fst (ps ! i) - fst (ps ! j))\<^sup>2 + (snd (ps ! i) - snd (ps ! j))\<^sup>2"
      by simp
  qed
  fix p assume "p \<in> set ps"
  then obtain i where i: "i < length ps" "p = ps ! i" by (auto simp: in_set_conv_nth)
  have c: "1 \<le> ?c" by (rule grid_cols_pos)
  show "0 \<le> snd p" using nth[OF i(1)] c by (simp add: i(2))
  let ?k = "int i mod ?c"
  have k: "?k \<le> ?c - 1" using c by (simp add: zle_diff1_eq)
  have cases: "?c \<le> \<lfloor>geofence_radius_m l / ?sp\<rfloor> \<or> ?c = 1"
    unfolding grid_cols_def Let_def by linarith
  have sp: "0 < ?sp" using nth(1)[OF i(1)] .
  have pos: "0 < geofence_radius_m l"
    using limits_check_Inr(5)[OF assms(1)] by (simp add: limit_fields_def)
  have "of_int ?k * ?sp \<le> geofence_radius_m l"
  proof (cases "?c = 1")
    case True
    then show ?thesis using pos by simp
  next
    case False
    then have "?k \<le> \<lfloor>geofence_radius_m l / ?sp\<rfloor>" using k cases by linarith
    then have "of_int ?k \<le> geofence_radius_m l / ?sp" by (simp add: le_floor_iff)
    then show ?thesis using sp by (simp add: pos_le_divide_eq)
  qed
  then show "snd p \<le> geofence_radius_m l" using nth(2)[OF i(1)] by (simp add: i(2))
qed

theorem launch_grid_separated_witness:
  "\<exists>ps. launch_grid 3 DEFAULT_LIMITS None = Inr ps \<and> length ps = 3 \<and> ps ! 0 = (0, 0)"
proof -
  obtain ps where ps: "launch_grid 3 DEFAULT_LIMITS None = Inr ps"
    by (simp add: launch_grid_def Let_def DEFAULT_LIMITS_def)
  show ?thesis
    using launch_grid_separated [OF DEFAULT_LIMITS_ok ps] ps by auto
qed

text \<open>Hover layers stay under the ceiling: with a base below the ceiling every layer
  lies between the base and the maximum altitude, and two drones on different layers are at
  least one step apart.\<close>

theorem altitude_layers_bounded:
  assumes "altitude_layers n l base step = Inr zs" and "base \<le> max_altitude_m l"
  defines "st \<equiv> case step of None \<Rightarrow> design_separation_m l | Some s \<Rightarrow> s"
  shows "length zs = nat n \<and> (\<forall>z \<in> set zs. base \<le> z \<and> z \<le> max_altitude_m l) \<and>
    (\<forall>z \<in> set zs. \<forall>z' \<in> set zs. z \<noteq> z' \<longrightarrow> st \<le> \<bar>z - z'\<bar>)"
proof (intro conjI ballI impI)
  let ?m = "max_layers l base st"
  have st: "0 < st" and zs: "zs = map (\<lambda>i. base + st * of_int (i mod ?m)) [0..n - 1]" and n: "0 \<le> n"
    using assms(1) unfolding st_def by (simp_all add: altitude_layers_def Let_def split: if_splits)
  have u: "0 \<le> (max_altitude_m l - base) / st" using st assms(2) by simp
  then have m: "?m = \<lfloor>(max_altitude_m l - base) / st\<rfloor> + 1"
    by (simp add: max_layers_def py_int_def)
  then have m1: "1 \<le> ?m" using u by simp
  show "length zs = nat n" using n by (simp add: zs)
  show "base \<le> z" if "z \<in> set zs" for z
    using that st m1 by (auto simp: zs)
  show "z \<le> max_altitude_m l" if "z \<in> set zs" for z
  proof -
    obtain i where z: "z = base + st * of_int (i mod ?m)" using \<open>z \<in> set zs\<close> by (auto simp: zs)
    have "i mod ?m \<le> \<lfloor>(max_altitude_m l - base) / st\<rfloor>"
      using m m1 pos_mod_bound[of ?m i] by linarith
    then have "of_int (i mod ?m) \<le> (max_altitude_m l - base) / st" by (simp add: le_floor_iff)
    then show ?thesis using st by (simp add: z pos_le_divide_eq mult.commute)
  qed
  show "st \<le> \<bar>z - z'\<bar>" if zz: "z \<in> set zs" "z' \<in> set zs" "z \<noteq> z'" for z z'
  proof -
    obtain i j where ij: "z = base + st * of_int i" "z' = base + st * of_int j"
      using zz(1,2) by (auto simp: zs)
    then have "1 \<le> \<bar>i - j\<bar>" using zz(3) by auto
    then have "(1 :: real) \<le> of_int \<bar>i - j\<bar>" by linarith
    then have "st * 1 \<le> st * of_int \<bar>i - j\<bar>" using st by (intro mult_left_mono) auto
    also have "st * of_int \<bar>i - j\<bar> = \<bar>z - z'\<bar>"
      using st by (simp add: ij abs_mult flip: right_diff_distrib)
    finally show ?thesis by simp
  qed
qed

theorem altitude_layers_bounded_witness:
  "\<exists>zs. altitude_layers 70 DEFAULT_LIMITS BASE_HOVER_ALT_M None = Inr zs \<and> length zs = 70"
proof -
  obtain zs where zs: "altitude_layers 70 DEFAULT_LIMITS BASE_HOVER_ALT_M None = Inr zs"
    by (simp add: altitude_layers_def Let_def DEFAULT_LIMITS_def)
  show ?thesis
    using altitude_layers_bounded [OF zs] zs by (simp add: DEFAULT_LIMITS_def BASE_HOVER_ALT_M_def)
qed

text \<open>The geofence radii of a show: for limits that pass their checks and a non-negative
  envelope, the soft and the hard radius both lie strictly outside the envelope, the soft one
  never outside the hard one; they differ by the difference of the buffers, so they coincide
  when the buffers are equal, which the constructor allows.\<close>

theorem geofence_radii_ordered:
  assumes "limits_check l = Inr l'" and "0 \<le> r"
  shows "\<exists>soft hard. geofence_radii l r = Inr (soft, hard) \<and> r < soft \<and> soft \<le> hard \<and>
    hard - soft = geofence_hard_buffer_m l - geofence_soft_warning_buffer_m l"
  using limits_check_Inr[OF assms(1)] assms(2) by (auto simp: geofence_radii_def limit_fields_def)

theorem geofence_radii_ordered_witness:
  "\<exists>soft hard. geofence_radii DEFAULT_LIMITS 12 = Inr (soft, hard) \<and> soft \<le> hard"
  using geofence_radii_ordered [OF DEFAULT_LIMITS_ok, of 12] by auto

text \<open>The two radii can coincide: equal buffers pass the constructor's check.\<close>

definition equal_buffers :: limits where
  "equal_buffers = DEFAULT_LIMITS\<lparr>geofence_soft_warning_buffer_m := 15\<rparr>"

lemma equal_buffers_not_strict:
  "limits_check equal_buffers = Inr equal_buffers \<and> geofence_radii equal_buffers 12 = Inr (27, 27)"
  by (simp add: equal_buffers_def DEFAULT_LIMITS_def limits_check_def limit_fields_def geofence_radii_def)

end
