(* ===== verification/Preflight.thy ===== *)
theory Preflight
  imports Safety "HOL-Library.Multiset" "HOL-Library.Char_ord" "HOL-Library.List_Lexorder"
begin

text \<open>
  The pre-arm checklist engine, \<^verbatim>\<open>packages/tara-gcs/tara_gcs/preflight.py\<close>: profiles and their
  policies, the safety configuration, the audit log, the two-step confirmations and the
  evaluation that ends in a launch decision. SHA-256 of a canonical JSON text is the
  parameter \<open>jhash\<close>; \<^verbatim>\<open>secrets.token_urlsafe\<close> is an argument of a request. What the operating
  system answers to the audit log (wall clock, context provider, file writes) is the
  log's environment, indexed by the number of the entry; the successive readings of the
  monotonic clock in one operation are \<open>clk 0\<close>, \<open>clk 1\<close>, and so on.
\<close>

section \<open>Profiles, rules and policies\<close>

datatype profile = SIMULATION | ENGINEERING | FIELD_TEST | PRODUCTION

fun profile_value :: "profile \<Rightarrow> string" where
  "profile_value SIMULATION = ''SIMULATION''"
| "profile_value ENGINEERING = ''ENGINEERING''"
| "profile_value FIELD_TEST = ''FIELD_TEST''"
| "profile_value PRODUCTION = ''PRODUCTION''"

datatype severity = BLOCKING | WARNING | IGNORED

fun severity_value :: "severity \<Rightarrow> string" where
  "severity_value BLOCKING = ''BLOCKING''"
| "severity_value WARNING = ''WARNING''"
| "severity_value IGNORED = ''IGNORED''"

datatype gate_state = G_PASS | G_FAIL | G_WARN | G_OVERRIDDEN | G_IGNORED

fun gate_value :: "gate_state \<Rightarrow> string" where
  "gate_value G_PASS = ''pass''"
| "gate_value G_FAIL = ''fail''"
| "gate_value G_WARN = ''warn''"
| "gate_value G_OVERRIDDEN = ''overridden''"
| "gate_value G_IGNORED = ''ignored''"

definition GNSS_FIX_TYPES :: "(string, int) dict" where
  "GNSS_FIX_TYPES = [(''NO_GPS'', 0), (''NO_FIX'', 1), (''FIX_2D'', 2), (''FIX_3D'', 3),
     (''FIX_DGPS'', 4), (''RTK_FLOAT'', 5), (''RTK_FIXED'', 6)]"

definition FIX_TYPE_NAMES :: "(int, string) dict" where
  "FIX_TYPE_NAMES = map (\<lambda>(k, v). (v, k)) GNSS_FIX_TYPES"

datatype fix_value = FixInt int | FixName string

text \<open>\<^verbatim>\<open>str(fix_type or ...)\<close>: zero, the empty string and an absent value are falsy.\<close>

fun fix_text :: "string \<Rightarrow> fix_value option \<Rightarrow> string" where
  "fix_text d None = d"
| "fix_text d (Some (FixInt i)) = (if i = 0 then d else py_str i)"
| "fix_text d (Some (FixName s)) = (if s = [] then d else s)"

fun gnss_fix_level :: "fix_value option \<Rightarrow> int" where
  "gnss_fix_level (Some (FixInt i)) = i"
| "gnss_fix_level ft =
     (case map_of GNSS_FIX_TYPES (py_upper (after_last_dot (fix_text '''' ft))) of
        None \<Rightarrow> 0 | Some v \<Rightarrow> v)"

record rule =
  rule_id :: string
  rule_title :: string
  rule_scope :: string

definition mk_rule :: "string \<Rightarrow> string \<Rightarrow> string \<Rightarrow> rule" where
  "mk_rule i t sc = \<lparr>rule_id = i, rule_title = t, rule_scope = sc\<rparr>"

definition RULES :: "rule list" where
  "RULES =
     [mk_rule ''operator_latch'' ''Operator confirmation latch'' ''fleet'',
      mk_rule ''fleet_complete'' ''Full fleet connected'' ''fleet'',
      mk_rule ''connected'' ''Vehicle link up'' ''drone'',
      mk_rule ''comm_latency'' ''Comm latency'' ''drone'',
      mk_rule ''heartbeat'' ''Heartbeat continuity'' ''drone'',
      mk_rule ''gnss_fix'' ''GNSS / RTK fix'' ''drone'',
      mk_rule ''battery_soc'' ''Battery state of charge'' ''drone'',
      mk_rule ''battery_cell_voltage'' ''Cell voltage'' ''drone'',
      mk_rule ''battery_cell_balance'' ''Cell balance'' ''drone'',
      mk_rule ''ekf_health'' ''EKF health & home lock'' ''drone'',
      mk_rule ''trajectory_hash'' ''Trajectory hash match'' ''drone'',
      mk_rule ''pad_clearance'' ''Launch pad clearance'' ''drone'']"

definition RULES_BY_ID :: "(string, rule) dict" where
  "RULES_BY_ID = map (\<lambda>r. (rule_id r, r)) RULES"

record policy =
  po_profile :: profile
  po_severities :: "(string, severity) dict"
  po_overridable :: "string set"
  po_partial :: bool
  po_min_fix :: int
  po_min_battery :: real
  po_min_cell_v :: real
  po_max_cell_delta :: real
  po_max_latency :: real
  po_heartbeat_window :: real
  po_require_hash :: bool

text \<open>The fields' default values.\<close>

definition policy_defaults :: "profile \<Rightarrow> (string, severity) dict \<Rightarrow> policy" where
  "policy_defaults p sev =
     \<lparr>po_profile = p, po_severities = sev, po_overridable = {}, po_partial = False,
      po_min_fix = 6, po_min_battery = 85, po_min_cell_v = 415 / 100, po_max_cell_delta = 30,
      po_max_latency = 150, po_heartbeat_window = 10, po_require_hash = True\<rparr>"

definition severity :: "policy \<Rightarrow> string \<Rightarrow> severity" where
  "severity p r = (case map_of (po_severities p) r of None \<Rightarrow> IGNORED | Some s \<Rightarrow> s)"

datatype pf_error =
    UnknownRules profile "string set"
  | OverridableNotBlocking profile string
  | UnknownProfile
  | BadBatteryCells
  | NoSafetyTable
  | TomlError
  | AuditWriteError
  | TokenTypeError
  | ConfirmNoMatch string
  | OverrideNoRules
  | OverrideNoReason
  | OverrideRefused "string list"

definition policy_post_init :: "policy \<Rightarrow> pf_error + unit" where
  "policy_post_init p =
     (let unknown = (set (dkeys (po_severities p)) \<union> po_overridable p) - set (dkeys RULES_BY_ID) in
      if unknown \<noteq> {} then Inl (UnknownRules (po_profile p) unknown)
      else case filter (\<lambda>r. severity p r \<noteq> BLOCKING) (sorted_list_of_set (po_overridable p)) of
             r # _ \<Rightarrow> Inl (OverridableNotBlocking (po_profile p) r)
           | [] \<Rightarrow> Inr ())"

fun POLICIES :: "profile \<Rightarrow> policy" where
  "POLICIES SIMULATION =
     (policy_defaults SIMULATION
        [(''operator_latch'', IGNORED), (''fleet_complete'', WARNING),
         (''connected'', BLOCKING), (''comm_latency'', WARNING), (''heartbeat'', WARNING),
         (''gnss_fix'', BLOCKING), (''battery_soc'', BLOCKING),
         (''battery_cell_voltage'', IGNORED), (''battery_cell_balance'', IGNORED),
         (''ekf_health'', BLOCKING), (''trajectory_hash'', WARNING), (''pad_clearance'', WARNING)])
     \<lparr>po_partial := True, po_min_fix := 3, po_min_battery := 50, po_require_hash := False\<rparr>"
| "POLICIES ENGINEERING =
     (policy_defaults ENGINEERING
        [(''operator_latch'', IGNORED), (''fleet_complete'', IGNORED),
         (''connected'', BLOCKING), (''comm_latency'', IGNORED), (''heartbeat'', IGNORED),
         (''gnss_fix'', IGNORED), (''battery_soc'', IGNORED),
         (''battery_cell_voltage'', IGNORED), (''battery_cell_balance'', IGNORED),
         (''ekf_health'', BLOCKING), (''trajectory_hash'', IGNORED), (''pad_clearance'', IGNORED)])
     \<lparr>po_overridable := {''ekf_health''}, po_partial := True, po_min_fix := 0,
      po_min_battery := 0, po_require_hash := False\<rparr>"
| "POLICIES FIELD_TEST =
     (policy_defaults FIELD_TEST
        [(''operator_latch'', IGNORED), (''fleet_complete'', BLOCKING),
         (''connected'', BLOCKING), (''comm_latency'', BLOCKING), (''heartbeat'', WARNING),
         (''gnss_fix'', BLOCKING), (''battery_soc'', BLOCKING),
         (''battery_cell_voltage'', WARNING), (''battery_cell_balance'', WARNING),
         (''ekf_health'', BLOCKING), (''trajectory_hash'', BLOCKING), (''pad_clearance'', BLOCKING)])
     \<lparr>po_min_fix := 5, po_min_battery := 80, po_require_hash := False\<rparr>"
| "POLICIES PRODUCTION =
     policy_defaults PRODUCTION (map (\<lambda>r. (rule_id r, BLOCKING)) RULES)"

section \<open>Hashes and slots\<close>

datatype slot_key = KInt int | KStr string

fun key_str :: "slot_key \<Rightarrow> string" where
  "key_str (KInt i) = py_str i"
| "key_str (KStr s) = s"

type_synonym trajectory = "(slot_key, json list) dict"

definition trajectory_hash :: "(json \<Rightarrow> string) \<Rightarrow> json list \<Rightarrow> string" where
  "trajectory_hash jhash wps = jhash (JList wps)"

definition show_hash :: "(json \<Rightarrow> string) \<Rightarrow> trajectory \<Rightarrow> string" where
  "show_hash jhash t = jhash (JObj (foldl (\<lambda>d (k, v). dset (key_str k) (JList v) d) [] t))"

definition slot_waypoints :: "trajectory \<Rightarrow> int \<Rightarrow> json list option" where
  "slot_waypoints t i =
     (case map_of t (KInt i) of Some w \<Rightarrow> Some w | None \<Rightarrow> map_of t (KStr (py_str i)))"

section \<open>The safety configuration\<close>

definition DEFAULT_PROFILE :: profile where
  "DEFAULT_PROFILE = PRODUCTION"

definition DEFAULT_BATTERY_CELLS :: int where
  "DEFAULT_BATTERY_CELLS = 4"

definition all_profiles :: "profile list" where
  "all_profiles = [SIMULATION, ENGINEERING, FIELD_TEST, PRODUCTION]"

text \<open>No text form of a TOML value that is not a string is the name of a profile.\<close>

fun parse_profile :: "json \<Rightarrow> pf_error + profile" where
  "parse_profile (JStr s) =
     (case find (\<lambda>p. profile_value p = py_upper (py_strip s)) all_profiles of
        Some p \<Rightarrow> Inr p | None \<Rightarrow> Inl UnknownProfile)"
| "parse_profile _ = Inl UnknownProfile"

fun as_int :: "json \<Rightarrow> int option" where
  "as_int (JInt i) = Some i"
| "as_int (JBool b) = Some (if b then 1 else 0)"
| "as_int _ = None"

text \<open>
  The first argument is the parsed \<^verbatim>\<open>tara.toml\<close>: \<^const>\<open>None\<close> when there is none,
  \<^const>\<open>Inl\<close> when it cannot be read or parsed.
\<close>

definition load_safety_config ::
  "(unit + (string, json) dict) option \<Rightarrow> string option \<Rightarrow> pf_error + profile \<times> int"
where
  "load_safety_config toml env =
     (case toml of
        Some (Inl _) \<Rightarrow> Inl TomlError
      | _ \<Rightarrow>
        let sec = (case toml of Some (Inr d) \<Rightarrow>
                     (case map_of d ''safety'' of None \<Rightarrow> JObj [] | Some v \<Rightarrow> v) | _ \<Rightarrow> JObj []) in
        (case sec of
           JObj section \<Rightarrow>
             let raw = (case env of
                          Some s \<Rightarrow> if s \<noteq> [] then Some (JStr s)
                                    else map_of section ''operational_profile''
                        | None \<Rightarrow> map_of section ''operational_profile'');
                 prof = (case raw of Some v \<Rightarrow> if truthy v then parse_profile v else Inr DEFAULT_PROFILE
                         | None \<Rightarrow> Inr DEFAULT_PROFILE);
                 cells = (case map_of section ''battery_cells'' of
                            None \<Rightarrow> Some DEFAULT_BATTERY_CELLS | Some v \<Rightarrow> as_int v)
             in (case prof of Inl e \<Rightarrow> Inl e
                 | Inr p \<Rightarrow> (case cells of
                     Some c \<Rightarrow> if c < 1 then Inl BadBatteryCells else Inr (p, c)
                   | None \<Rightarrow> Inl BadBatteryCells))
         | _ \<Rightarrow>
             (case env of
                Some s \<Rightarrow> if s \<noteq> [] then (case parse_profile (JStr s) of Inl e \<Rightarrow> Inl e
                                             | Inr _ \<Rightarrow> Inl NoSafetyTable)
                          else Inl NoSafetyTable
              | None \<Rightarrow> Inl NoSafetyTable)))"

section \<open>The audit log\<close>

type_synonym entry = "(string, json) dict"

record audit_world =
  wall_clock :: "nat \<Rightarrow> real"
  context_result :: "nat \<Rightarrow> entry option"
  write_ok :: "nat \<Rightarrow> bool"

record audit_log =
  al_has_path :: bool
  al_keep_recent :: nat
  al_has_context :: bool
  al_world :: audit_world
  al_count :: nat
  al_recent :: "entry list"
  al_observers :: nat
  al_observed :: "(nat \<times> entry) list"
  al_file :: "entry list"

definition al_init :: "bool \<Rightarrow> nat \<Rightarrow> bool \<Rightarrow> audit_world \<Rightarrow> audit_log" where
  "al_init has_path keep has_context w =
     \<lparr>al_has_path = has_path, al_keep_recent = keep, al_has_context = has_context, al_world = w,
      al_count = 0, al_recent = [], al_observers = 0, al_observed = [], al_file = []\<rparr>"

text \<open>
  An observer or a context provider that raises is ignored; a failing directory, open or
  write is not, and its exception leaves the entry with the observers and in \<^verbatim>\<open>recent\<close>.
\<close>

definition al_record :: "string \<Rightarrow> entry \<Rightarrow> (audit_log, pf_error, unit) sx" where
  "al_record event flds l =
     (let k = al_count l;
          extra = (if al_has_context l
                   then (case context_result (al_world l) k of None \<Rightarrow> [] | Some c \<Rightarrow> c) else []);
          entry = dict_merge (dict_merge
                    [(''ts'', JNum (wall_clock (al_world l) k)), (''event'', JStr event)] extra) flds;
          l1 = l\<lparr>al_count := k + 1,
                 al_recent := deque_append (al_keep_recent l) (al_recent l) entry,
                 al_observed := al_observed l @ map (\<lambda>i. (i, entry)) [0..<al_observers l]\<rparr>
      in if \<not> al_has_path l then (Inr (), l1)
         else if write_ok (al_world l) k then (Inr (), l1\<lparr>al_file := al_file l @ [entry]\<rparr>)
         else (Inl AuditWriteError, l1))"

section \<open>Two-step confirmations\<close>

datatype kind = K_LATCH | K_OVERRIDE

fun kind_name :: "kind \<Rightarrow> string" where
  "kind_name K_LATCH = ''latch''"
| "kind_name K_OVERRIDE = ''override''"

record pending =
  pe_token :: string
  pe_operator :: string
  pe_expires_at :: real
  pe_rules :: "string set"
  pe_reason :: string

record activation =
  ac_operator :: string
  ac_confirmed_at :: real
  ac_expires_at :: real
  ac_rules :: "string set"
  ac_reason :: string

definition CONFIRM_WINDOW_S :: real where
  "CONFIRM_WINDOW_S = 30"

definition HOLD_S :: real where
  "HOLD_S = 120"

record engine =
  en_profile :: profile
  en_policy :: policy
  en_cells :: int
  en_audit :: audit_log
  en_window :: real
  en_hold :: real
  en_pending :: "(kind, pending) dict"
  en_active :: "(kind, activation) dict"

definition engine_init :: "profile \<Rightarrow> int \<Rightarrow> audit_log \<Rightarrow> real \<Rightarrow> real \<Rightarrow> engine" where
  "engine_init p cells alog window hold =
     \<lparr>en_profile = p, en_policy = POLICIES p, en_cells = cells, en_audit = alog,
      en_window = window, en_hold = hold, en_pending = [], en_active = []\<rparr>"

type_synonym 'a en = "(engine, pf_error, 'a) sx"

definition en_record :: "string \<Rightarrow> entry \<Rightarrow> unit en" where
  "en_record event flds s =
     (case al_record event
        ((''profile'', JStr (profile_value (en_profile s))) # flds) (en_audit s) of
        (r, alog) \<Rightarrow> (r, s\<lparr>en_audit := alog\<rparr>))"

definition sorted_json :: "string set \<Rightarrow> json" where
  "sorted_json rs = JList (map JStr (sorted_list_of_set rs))"

definition expire_pending :: "real \<Rightarrow> kind \<times> pending \<Rightarrow> unit en" where
  "expire_pending now kp =
     (if pe_expires_at (snd kp) < now
      then sx_then (sx_modify (\<lambda>s. s\<lparr>en_pending := dpop (fst kp) (en_pending s)\<rparr>))
             (en_record (kind_name (fst kp) @ ''_request_expired'')
                [(''operator'', JStr (pe_operator (snd kp)))])
      else sx_return ())"

definition expire_active :: "real \<Rightarrow> kind \<times> activation \<Rightarrow> unit en" where
  "expire_active now ka =
     (if ac_expires_at (snd ka) < now
      then sx_then (sx_modify (\<lambda>s. s\<lparr>en_active := dpop (fst ka) (en_active s)\<rparr>))
             (en_record (kind_name (fst ka) @ ''_expired'')
                [(''operator'', JStr (ac_operator (snd ka)))])
      else sx_return ())"

definition expire :: "real \<Rightarrow> unit en" where
  "expire now =
     sx_then (sx_bind (sx_get en_pending) (sx_iter (expire_pending now)))
             (sx_bind (sx_get en_active) (sx_iter (expire_active now)))"

record request_result =
  rq_token :: string
  rq_expires_in :: real
  rq_rules :: "string set"

definition en_request ::
  "(nat \<Rightarrow> real) \<Rightarrow> string \<Rightarrow> kind \<Rightarrow> string \<Rightarrow> string set \<Rightarrow> string \<Rightarrow> request_result en"
where
  "en_request clk token k opr rules reason =
     sx_then (expire (clk 0))
    (sx_then (sx_modify (\<lambda>s. s\<lparr>en_pending := dset k
                \<lparr>pe_token = token, pe_operator = opr, pe_expires_at = clk 1 + en_window s,
                 pe_rules = rules, pe_reason = reason\<rparr> (en_pending s)\<rparr>))
    (sx_then (en_record (kind_name k @ ''_requested'')
                [(''operator'', JStr opr), (''rules'', sorted_json rules), (''reason'', JStr reason)])
             (sx_get (\<lambda>s. \<lparr>rq_token = token, rq_expires_in = en_window s, rq_rules = rules\<rparr>))))"

definition is_ascii :: "string \<Rightarrow> bool" where
  "is_ascii s = list_all (\<lambda>c. (of_char c :: nat) < 128) s"

text \<open>\<^verbatim>\<open>secrets.compare_digest\<close> of strings raises \<^verbatim>\<open>TypeError\<close> unless both are ASCII.\<close>

definition token_matches :: "string \<Rightarrow> string \<Rightarrow> bool en" where
  "token_matches tok given =
     (if is_ascii tok \<and> is_ascii given then sx_return (tok = given) else sx_throw TokenTypeError)"

definition confirm_reject :: "kind \<Rightarrow> string \<Rightarrow> 'a en" where
  "confirm_reject k opr =
     sx_then (en_record (kind_name k @ ''_confirm_rejected'') [(''operator'', JStr opr)])
             (sx_throw (ConfirmNoMatch (kind_name k)))"

definition confirm_accept ::
  "(nat \<Rightarrow> real) \<Rightarrow> kind \<Rightarrow> pending \<Rightarrow> string \<Rightarrow> json \<Rightarrow> (real \<times> string set) en"
where
  "confirm_accept clk k p opr gates =
     sx_then (sx_modify (\<lambda>s. s\<lparr>en_pending := dpop k (en_pending s)\<rparr>))
    (sx_then (sx_modify (\<lambda>s. s\<lparr>en_active := dset k
                \<lparr>ac_operator = opr, ac_confirmed_at = clk 1, ac_expires_at = clk 1 + en_hold s,
                 ac_rules = pe_rules p, ac_reason = pe_reason p\<rparr> (en_active s)\<rparr>))
    (sx_then (en_record (kind_name k @ ''_confirmed'')
                [(''operator'', JStr opr), (''requested_by'', JStr (pe_operator p)),
                 (''rules'', sorted_json (pe_rules p)), (''reason'', JStr (pe_reason p)),
                 (''gates'', gates)])
             (sx_get (\<lambda>s. (en_hold s, pe_rules p)))))"

definition en_confirm ::
  "(nat \<Rightarrow> real) \<Rightarrow> kind \<Rightarrow> string \<Rightarrow> string \<Rightarrow> json \<Rightarrow> (real \<times> string set) en"
where
  "en_confirm clk k token opr gates =
     sx_then (expire (clk 0))
    (sx_bind (sx_get (\<lambda>s. map_of (en_pending s) k)) (\<lambda>p.
       case p of
         None \<Rightarrow> confirm_reject k opr
       | Some p \<Rightarrow> sx_bind (token_matches (pe_token p) token) (\<lambda>ok.
           if ok then confirm_accept clk k p opr gates else confirm_reject k opr)))"

definition request_latch :: "(nat \<Rightarrow> real) \<Rightarrow> string \<Rightarrow> string \<Rightarrow> request_result en" where
  "request_latch clk fresh opr = en_request clk fresh K_LATCH opr {} []"

definition confirm_latch ::
  "(nat \<Rightarrow> real) \<Rightarrow> string \<Rightarrow> string \<Rightarrow> json \<Rightarrow> (real \<times> string set) en"
where
  "confirm_latch clk token opr gates = en_confirm clk K_LATCH token opr gates"

definition request_override ::
  "(nat \<Rightarrow> real) \<Rightarrow> string \<Rightarrow> string list \<Rightarrow> string \<Rightarrow> string \<Rightarrow> request_result en"
where
  "request_override clk fresh rules reason opr =
     (if set rules = {} then sx_throw OverrideNoRules
      else if py_strip reason = [] then sx_throw OverrideNoReason
      else sx_bind (sx_get (\<lambda>s. sorted_list_of_set (set rules - po_overridable (en_policy s))))
        (\<lambda>refused.
           if refused \<noteq> [] then
             sx_then (en_record ''override_refused''
                        [(''operator'', JStr opr), (''rules'', sorted_json (set rules)),
                         (''reason'', JStr reason)])
                     (sx_throw (OverrideRefused refused))
           else en_request clk fresh K_OVERRIDE opr (set rules) (py_strip reason)))"

definition confirm_override :: "(nat \<Rightarrow> real) \<Rightarrow> string \<Rightarrow> string \<Rightarrow> (real \<times> string set) en" where
  "confirm_override clk token opr = en_confirm clk K_OVERRIDE token opr JNull"

datatype confirmation =
    CF_Idle
  | CF_Pending string "string set" string real
  | CF_Confirmed string "string set" string real

text \<open>\<^verbatim>\<open>round(x, 1)\<close>\<close>

definition round1 :: "real \<Rightarrow> real" where
  "round1 x = of_int (py_round (x * 10)) / 10"

definition describe :: "real \<Rightarrow> kind \<Rightarrow> engine \<Rightarrow> confirmation" where
  "describe now k s =
     (case map_of (en_active s) k of
        Some a \<Rightarrow> CF_Confirmed (ac_operator a) (ac_rules a) (ac_reason a)
                    (round1 (ac_expires_at a - now))
      | None \<Rightarrow> (case map_of (en_pending s) k of
            Some p \<Rightarrow> CF_Pending (pe_operator p) (pe_rules p) (pe_reason p)
                        (round1 (pe_expires_at p - now))
          | None \<Rightarrow> CF_Idle))"

definition confirmation_state :: "real \<Rightarrow> real \<Rightarrow> (confirmation \<times> confirmation) en" where
  "confirmation_state t now =
     sx_then (expire t) (sx_get (\<lambda>s. (describe now K_LATCH s, describe now K_OVERRIDE s)))"

definition overridden_rules :: "real \<Rightarrow> string set en" where
  "overridden_rules t =
     sx_then (expire t)
       (sx_get (\<lambda>s. case map_of (en_active s) K_OVERRIDE of None \<Rightarrow> {} | Some a \<Rightarrow> ac_rules a))"

section \<open>Evaluation\<close>

record telemetry =
  tl_connected :: bool
  tl_armed :: bool
  tl_latency_ms :: "real option"
  tl_stable_since :: "real option"
  tl_fix_type :: "fix_value option"
  tl_battery_percent :: "real option"
  tl_battery_voltage :: "real option"
  tl_cells :: "real list option"
  tl_armable :: bool
  tl_home_ok :: bool
  tl_flight_mode :: "string option"
  tl_mission_hash :: "string option"
  tl_local :: "real \<times> real"
  tl_fleet :: "real \<times> real \<times> real"

record gate =
  g_rule :: string
  g_title :: string
  g_severity :: severity
  g_passed :: bool
  g_state :: gate_state
  g_detail :: string

definition gate_of :: "policy \<Rightarrow> string set \<Rightarrow> string \<times> bool \<times> string \<Rightarrow> gate" where
  "gate_of p overridden c =
     (case c of (rid, passed, detail) \<Rightarrow>
       let sev = severity p rid in
       \<lparr>g_rule = rid,
        g_title = (case map_of RULES_BY_ID rid of None \<Rightarrow> [] | Some r \<Rightarrow> rule_title r),
        g_severity = sev, g_passed = passed,
        g_state =
          (if sev = IGNORED then G_IGNORED
           else if passed then G_PASS
           else if sev = WARNING then G_WARN
           else if rid \<in> overridden then G_OVERRIDDEN
           else G_FAIL),
        g_detail = detail\<rparr>)"

definition check_latency :: "policy \<Rightarrow> telemetry \<Rightarrow> string \<times> bool \<times> string" where
  "check_latency p t =
     (''comm_latency'',
      (case tl_latency_ms t of
         None \<Rightarrow> (False, ''No latency measurement'')
       | Some l \<Rightarrow>
           if \<not> tl_connected t then (False, ''No latency measurement'')
           else if l < 0 then (False, ''Latency probe failed'')
           else (l < po_max_latency p,
             fmt_fixed 0 l @ '' ms (limit < '' @ fmt_fixed 0 (po_max_latency p) @ '' ms)'')))"

definition check_heartbeat :: "policy \<Rightarrow> telemetry \<Rightarrow> real \<Rightarrow> string \<times> bool \<times> string" where
  "check_heartbeat p t now =
     (let stable = (case tl_stable_since t of
                      None \<Rightarrow> 0 | Some s \<Rightarrow> if tl_connected t then now - s else 0) in
      (''heartbeat'', po_heartbeat_window p \<le> stable,
       fmt_fixed 1 stable @ ''s without a dropped heartbeat (need '' @
       fmt_fixed 0 (po_heartbeat_window p) @ ''s)''))"

definition check_fix :: "policy \<Rightarrow> telemetry \<Rightarrow> string \<times> bool \<times> string" where
  "check_fix p t =
     (let name = after_last_dot (fix_text ''NO_GPS'' (tl_fix_type t)) in
      (''gnss_fix'', tl_connected t \<and> po_min_fix p \<le> gnss_fix_level (Some (FixName name)),
       name @ '' (need '' @
       (case map_of FIX_TYPE_NAMES (po_min_fix p) of None \<Rightarrow> [] | Some n \<Rightarrow> n) @ '' or better)''))"

definition or_zero :: "real option \<Rightarrow> real" where
  "or_zero x = (case x of None \<Rightarrow> 0 | Some v \<Rightarrow> v)"

definition check_soc :: "policy \<Rightarrow> telemetry \<Rightarrow> string \<times> bool \<times> string" where
  "check_soc p t =
     (let soc = or_zero (tl_battery_percent t) in
      (''battery_soc'', tl_connected t \<and> po_min_battery p \<le> soc,
       fmt_fixed 1 soc @ ''% (floor '' @ fmt_fixed 0 (po_min_battery p) @ ''%)''))"

definition reported_cells :: "telemetry \<Rightarrow> real list" where
  "reported_cells t = (case tl_cells t of None \<Rightarrow> [] | Some cs \<Rightarrow> cs)"

definition cell_voltage :: "int \<Rightarrow> telemetry \<Rightarrow> real" where
  "cell_voltage n t =
     (if reported_cells t \<noteq> [] then Min (set (reported_cells t))
      else or_zero (tl_battery_voltage t) / of_int n)"

definition check_cell_voltage :: "policy \<Rightarrow> int \<Rightarrow> telemetry \<Rightarrow> string \<times> bool \<times> string" where
  "check_cell_voltage p n t =
     (let v = cell_voltage n t in
      (''battery_cell_voltage'', tl_connected t \<and> po_min_cell_v p \<le> v,
       (if reported_cells t \<noteq> [] then ''min cell '' @ fmt_fixed 3 v @ '' V''
        else fmt_fixed 3 v @ '' V/cell ('' @ fmt_fixed 2 (or_zero (tl_battery_voltage t)) @
             '' V / '' @ py_str n @ ''S)'') @
       '' (floor '' @ fmt_fixed 2 (po_min_cell_v p) @ '' V)''))"

definition check_cell_balance :: "policy \<Rightarrow> telemetry \<Rightarrow> string \<times> bool \<times> string" where
  "check_cell_balance p t =
     (if reported_cells t \<noteq> [] then
        let delta = (Max (set (reported_cells t)) - Min (set (reported_cells t))) * 1000 in
        (''battery_cell_balance'', tl_connected t \<and> delta < po_max_cell_delta p,
         fmt_fixed 0 delta @ '' mV spread (limit < '' @ fmt_fixed 0 (po_max_cell_delta p) @ '' mV)'')
      else (''battery_cell_balance'', False, ''Per-cell voltages not reported by this vehicle''))"

definition check_ekf :: "telemetry \<Rightarrow> string \<times> bool \<times> string" where
  "check_ekf t =
     (let armable = tl_armable t; home_ok = tl_home_ok t;
          missing = map fst (filter (\<lambda>(name, ok). \<not> ok)
                      [(''not armable'', armable), (''no home lock'', home_ok)]);
          base = py_capitalize (py_join '', '' missing);
          detail =
            (if armable \<and> home_ok then ''Armable, home position locked''
             else case tl_flight_mode t of
                None \<Rightarrow> base
              | Some mode \<Rightarrow>
                  if \<not> armable \<and> mode \<noteq> ''UNKNOWN'' \<and> mode \<noteq> ''HOLD''
                  then base @ ''; PX4 is in '' @ mode @
                    '', which can block arming even with a healthy EKF: set HOLD and re-check''
                  else base)
      in (''ekf_health'', tl_connected t \<and> armable \<and> home_ok, detail))"

definition check_trajectory ::
  "(json \<Rightarrow> string) \<Rightarrow> policy \<Rightarrow> int \<Rightarrow> telemetry \<Rightarrow> trajectory option \<Rightarrow> bool \<times> string"
where
  "check_trajectory jhash p i t traj =
     (case traj of
        None \<Rightarrow> (False, ''No show loaded'')
      | Some tr \<Rightarrow>
          if tr = [] then (False, ''No show loaded'')
          else case slot_waypoints tr i of
              None \<Rightarrow> (False, ''No trajectory slot for this drone'')
            | Some wps \<Rightarrow>
                if wps = [] then (False, ''No trajectory slot for this drone'')
                else let expected = trajectory_hash jhash wps in
                  (case tl_mission_hash t of
                     None \<Rightarrow>
                       if po_require_hash p then (False, ''Vehicle reports no onboard mission hash'')
                       else (True, ''Slot hash '' @ take 12 expected @ '' (streamed from GCS)'')
                   | Some onboard \<Rightarrow>
                       if onboard \<noteq> expected
                       then (False, ''Onboard '' @ take 12 onboard @ '' '' @ NOT_EQUAL @ '' expected '' @
                                    take 12 expected)
                       else (True, ''Onboard hash '' @ take 12 expected @ '' matches'')))"

text \<open>The distance to the nearest other connected drone; \<^const>\<open>None\<close> is \<^verbatim>\<open>math.inf\<close>.\<close>

definition nearest_other :: "int \<Rightarrow> (int, real \<times> real \<times> real) dict \<Rightarrow> real option" where
  "nearest_other i pos =
     (case map_of pos i of None \<Rightarrow> None
      | Some own \<Rightarrow>
          (case filter (\<lambda>(j, q). j \<noteq> i) pos of
             [] \<Rightarrow> None
           | others \<Rightarrow> Some (Min (set (map (\<lambda>(j, q). dist3 own q) others)))))"

definition check_pad ::
  "int \<Rightarrow> telemetry \<Rightarrow> real \<Rightarrow> (int, real \<times> real \<times> real) dict \<Rightarrow> bool \<times> string"
where
  "check_pad i t fence pos =
     (if \<not> tl_connected t then (False, ''No position (disconnected)'')
      else let from_home = (case tl_local t of (x, y) \<Rightarrow> sqrt (x\<^sup>2 + y\<^sup>2)) in
        if fence < from_home
        then (False, fmt_fixed 1 from_home @ '' m from home, outside '' @ fmt_fixed 0 fence @ '' m geofence'')
        else let limit = min_separation_m DEFAULT_LIMITS in
          (case nearest_other i pos of
             None \<Rightarrow> (True, ''Inside geofence, no other drone'')
           | Some d \<Rightarrow>
               if d < limit
               then (False, ''Another drone '' @ fmt_fixed 2 d @ '' m away (min '' @ fmt_fixed 1 limit @ '' m)'')
               else (True, ''Inside geofence, nearest drone '' @ fmt_fixed 1 d @ '' m'')))"

definition drone_checks ::
  "(json \<Rightarrow> string) \<Rightarrow> policy \<Rightarrow> int \<Rightarrow> int \<Rightarrow> telemetry \<Rightarrow> trajectory option \<Rightarrow> real
    \<Rightarrow> (int, real \<times> real \<times> real) dict \<Rightarrow> real \<Rightarrow> (string \<times> bool \<times> string) list"
where
  "drone_checks jhash p n i t traj fence pos now =
     [(''connected'', tl_connected t, if tl_connected t then ''Link up'' else ''No link to vehicle''),
      check_latency p t, check_heartbeat p t now, check_fix p t, check_soc p t,
      check_cell_voltage p n t, check_cell_balance p t, check_ekf t,
      (''trajectory_hash'', check_trajectory jhash p i t traj),
      (''pad_clearance'', check_pad i t fence pos)]"

record manager_view =
  mv_telemetry :: "(int, telemetry) dict"
  mv_expected :: int
  mv_trajectory :: "trajectory option"
  mv_geofence :: real

record drone_report =
  dr_id :: int
  dr_ready :: bool
  dr_armed :: bool
  dr_gates :: "gate list"

record rule_report =
  rr_rule :: rule
  rr_severity :: severity
  rr_overridable :: bool
  rr_overridden :: bool

record report =
  rp_profile :: profile
  rp_evaluated_at :: real
  rp_permitted :: bool
  rp_launch_ids :: "int list"
  rp_excluded_ids :: "int list"
  rp_blocking :: "string list"
  rp_partial :: bool
  rp_expected :: int
  rp_show_hash :: "string option"
  rp_rules :: "rule_report list"
  rp_fleet_gates :: "gate list"
  rp_drones :: "drone_report list"
  rp_confirmations :: "confirmation \<times> confirmation"

definition failed_gates :: "gate list \<Rightarrow> gate list" where
  "failed_gates gs = filter (\<lambda>g. g_state g = G_FAIL) gs"

definition positions_of :: "(int, telemetry) dict \<Rightarrow> (int, real \<times> real \<times> real) dict" where
  "positions_of tel = map (\<lambda>(i, t). (i, tl_fleet t)) (filter (\<lambda>(i, t). tl_connected t) tel)"

definition sorted_telemetry :: "(int, telemetry) dict \<Rightarrow> (int, telemetry) dict" where
  "sorted_telemetry tel = sort_key fst tel"

definition drone_reports ::
  "(json \<Rightarrow> string) \<Rightarrow> policy \<Rightarrow> int \<Rightarrow> manager_view \<Rightarrow> string set \<Rightarrow> real \<Rightarrow> drone_report list"
where
  "drone_reports jhash p n mv overridden now =
     map (\<lambda>(i, t).
       let gs = map (gate_of p overridden)
             (drone_checks jhash p n i t (mv_trajectory mv) (mv_geofence mv)
                (positions_of (mv_telemetry mv)) now)
       in \<lparr>dr_id = i, dr_ready = (failed_gates gs = []), dr_armed = tl_armed t, dr_gates = gs\<rparr>)
     (sorted_telemetry (mv_telemetry mv))"

definition fleet_gates ::
  "policy \<Rightarrow> manager_view \<Rightarrow> activation option \<Rightarrow> string set \<Rightarrow> real \<Rightarrow> gate list"
where
  "fleet_gates p mv latch overridden now =
     (let connected = length (filter (\<lambda>(i, t). tl_connected t) (mv_telemetry mv)) in
      [gate_of p overridden (''operator_latch'', latch \<noteq> None,
         (case latch of None \<Rightarrow> ''Not confirmed '' @ EM_DASH @ '' arm and confirm the launch latch''
          | Some a \<Rightarrow> ''Confirmed by '' @ ac_operator a @ '', '' @ fmt_fixed 0 (ac_expires_at a - now)
                        @ ''s left'')),
       gate_of p overridden (''fleet_complete'',
         0 < mv_expected mv \<and> mv_expected mv \<le> int connected,
         digits connected @ ''/'' @ py_str (mv_expected mv) @ '' drones connected'')])"

definition gate_line :: "string \<Rightarrow> gate \<Rightarrow> string" where
  "gate_line who g = who @ '': '' @ g_title g @ '' '' @ EM_DASH @ '' '' @ g_detail g"

definition blocking_lines :: "policy \<Rightarrow> drone_report list \<Rightarrow> gate list \<Rightarrow> string list" where
  "blocking_lines p drs fgs =
     map (gate_line ''Fleet'') (failed_gates fgs) @
     (if po_partial p then []
      else concat (map (\<lambda>d. map (gate_line (''Drone '' @ py_str (dr_id d))) (failed_gates (dr_gates d)))
                     drs)) @
     (if \<exists>d \<in> set drs. dr_ready d then [] else [''No drone passes every blocking pre-arm gate.''])"

definition assemble ::
  "(json \<Rightarrow> string) \<Rightarrow> engine \<Rightarrow> manager_view \<Rightarrow> string set \<Rightarrow> real \<Rightarrow> real
    \<Rightarrow> (confirmation \<times> confirmation \<Rightarrow> report)"
where
  "assemble jhash s mv overridden now wall =
     (let p = en_policy s;
          drs = drone_reports jhash p (en_cells s) mv overridden now;
          fgs = fleet_gates p mv (map_of (en_active s) K_LATCH) overridden now;
          blocking = blocking_lines p drs fgs;
          ready = map dr_id (filter dr_ready drs)
      in (\<lambda>conf.
        \<lparr>rp_profile = en_profile s, rp_evaluated_at = wall, rp_permitted = (blocking = []),
         rp_launch_ids = (if blocking = [] then ready else []),
         rp_excluded_ids = sorted_list_of_set (set (dkeys (mv_telemetry mv)) - set ready),
         rp_blocking = blocking, rp_partial = po_partial p, rp_expected = mv_expected mv,
         rp_show_hash = (case mv_trajectory mv of None \<Rightarrow> None
                         | Some tr \<Rightarrow> if tr = [] then None else Some (show_hash jhash tr)),
         rp_rules = map (\<lambda>r. \<lparr>rr_rule = r, rr_severity = severity p (rule_id r),
                               rr_overridable = (rule_id r \<in> po_overridable p),
                               rr_overridden = (rule_id r \<in> overridden)\<rparr>) RULES,
         rp_fleet_gates = fgs, rp_drones = drs, rp_confirmations = conf\<rparr>))"

definition evaluate ::
  "(json \<Rightarrow> string) \<Rightarrow> (nat \<Rightarrow> real) \<Rightarrow> real \<Rightarrow> manager_view \<Rightarrow> report en"
where
  "evaluate jhash clk wall mv =
     sx_then (expire (clk 0))
    (sx_bind (overridden_rules (clk 1)) (\<lambda>overridden.
     sx_bind (sx_get (\<lambda>s. assemble jhash s mv overridden (clk 2) wall)) (\<lambda>mk.
     sx_bind (confirmation_state (clk 3) (clk 4)) (\<lambda>conf.
     sx_return (mk conf)))))"

record decision =
  de_permitted :: bool
  de_report :: report
  de_drone_ids :: "int list"
  de_overridden :: "string set"

definition ids_json :: "int list \<Rightarrow> json" where
  "ids_json is = JList (map JInt is)"

definition authorize_launch ::
  "(json \<Rightarrow> string) \<Rightarrow> (nat \<Rightarrow> real) \<Rightarrow> real \<Rightarrow> manager_view \<Rightarrow> string \<Rightarrow> decision en"
where
  "authorize_launch jhash clk wall mv opr =
     sx_bind (evaluate jhash clk wall mv) (\<lambda>r.
       if \<not> rp_permitted r then
         sx_then (en_record ''launch_rejected''
                    [(''operator'', JStr opr), (''reasons'', JList (map JStr (rp_blocking r)))])
           (sx_return \<lparr>de_permitted = False, de_report = r, de_drone_ids = [], de_overridden = {}\<rparr>)
       else sx_bind (overridden_rules (clk 5)) (\<lambda>overridden.
         sx_then (en_record ''launch_authorized''
                    [(''operator'', JStr opr), (''drone_ids'', ids_json (rp_launch_ids r)),
                     (''excluded'', ids_json (rp_excluded_ids r)),
                     (''overridden_rules'', sorted_json overridden),
                     (''show_hash'', case rp_show_hash r of None \<Rightarrow> JNull | Some h \<Rightarrow> JStr h)])
        (sx_then (sx_modify (\<lambda>s. s\<lparr>en_active := dpop K_OVERRIDE (dpop K_LATCH (en_active s))\<rparr>))
           (sx_return \<lparr>de_permitted = True, de_report = r, de_drone_ids = rp_launch_ids r,
                        de_overridden = overridden\<rparr>))))"

section \<open>Lemmas\<close>

lemma en_record_frame: "en_record e f s = (r, s') \<Longrightarrow> \<exists>l. s' = s\<lparr>en_audit := l\<rparr>"
  by (auto simp: en_record_def split: prod.splits)

text \<open>An assertion that does not speak of the audit log survives a record.\<close>

definition audit_free :: "(engine \<Rightarrow> bool) \<Rightarrow> bool" where
  "audit_free P \<longleftrightarrow> (\<forall>s l. P s \<longrightarrow> P (s\<lparr>en_audit := l\<rparr>))"

lemma en_record_keeps: "audit_free P \<Longrightarrow> sx_keeps P (en_record e f)"
  unfolding sx_keeps_def audit_free_def using en_record_frame by (metis prod.collapse)

lemma dpop_filter: "dpop k d = filter (\<lambda>kv. fst kv \<noteq> k) d"
  by (induction d) auto

text \<open>A loop that deletes the outdated entries of a dictionary, and may stop on an exception.\<close>

lemma sx_iter_delete:
  assumes step: "\<And>x s r s'. f x s = (r, s') \<Longrightarrow>
      sel s' = (if old x then dpop (fst x) (sel s) else sel s)"
    and "sx_iter f xs s = (r, s')"
  shows "(\<exists>P. sel s' = filter P (sel s)) \<and>
    (isl r \<or> sel s' = filter (\<lambda>kv. \<forall>x \<in> set xs. fst x = fst kv \<longrightarrow> \<not> old x) (sel s))"
  using assms(2)
proof (induction xs arbitrary: s)
  case Nil
  then show ?case by (auto simp: sx_return_def intro!: exI[of _ "\<lambda>_. True"])
next
  case (Cons x xs)
  obtain r1 s1 where f: "f x s = (r1, s1)" by force
  have s1: "sel s1 = filter (\<lambda>kv. \<not> (old x \<and> fst kv = fst x)) (sel s)"
    using step[OF f] by (auto simp: dpop_filter intro: filter_cong)
  show ?case
  proof (cases r1)
    case (Inl e)
    then show ?thesis using Cons.prems f s1 by (auto simp: sx_defs)
  next
    case (Inr u)
    then have "sx_iter f xs s1 = (r, s')" using Cons.prems f by (simp add: sx_defs)
    from Cons.IH[OF this] obtain P where P: "sel s' = filter P (sel s1)" and
      all: "isl r \<or> sel s' = filter (\<lambda>kv. \<forall>x \<in> set xs. fst x = fst kv \<longrightarrow> \<not> old x) (sel s1)"
      by blast
    have "\<exists>P. sel s' = filter P (sel s)" using P s1 by auto
    moreover have "sel s' = filter (\<lambda>kv. \<forall>x \<in> set (x # xs). fst x = fst kv \<longrightarrow> \<not> old x) (sel s)"
      if "\<not> isl r" using that all s1 by (auto intro: filter_cong)
    ultimately show ?thesis by blast
  qed
qed

lemma en_pending_audit: "en_record e f s = (r, s') \<Longrightarrow> en_pending s' = en_pending s"
  and en_active_audit: "en_record e f s = (r, s') \<Longrightarrow> en_active s' = en_active s"
  by (auto dest: en_record_frame)

lemma expire_pending_step:
  "expire_pending now x s = (r, s') \<Longrightarrow>
    en_pending s' = (if pe_expires_at (snd x) < now then dpop (fst x) (en_pending s) else en_pending s)"
  by (auto simp: expire_pending_def sx_defs dest: en_pending_audit split: if_splits)

lemma expire_active_step:
  "expire_active now x s = (r, s') \<Longrightarrow>
    en_active s' = (if ac_expires_at (snd x) < now then dpop (fst x) (en_active s) else en_active s)"
  by (auto simp: expire_active_def sx_defs dest: en_active_audit split: if_splits)

lemma expire_pending_keeps:
  assumes "audit_free P" and "\<And>s k. P s \<Longrightarrow> P (s\<lparr>en_pending := dpop k (en_pending s)\<rparr>)"
  shows "sx_keeps P (expire_pending now x)"
  unfolding expire_pending_def
  by (intro sx_rules sx_keeps_modify en_record_keeps assms)

lemma expire_active_keeps:
  assumes "audit_free P" and "\<And>s k. P s \<Longrightarrow> P (s\<lparr>en_active := dpop k (en_active s)\<rparr>)"
  shows "sx_keeps P (expire_active now x)"
  unfolding expire_active_def
  by (intro sx_rules sx_keeps_modify en_record_keeps assms)

lemma expire_keeps:
  assumes "audit_free P" and "\<And>s k. P s \<Longrightarrow> P (s\<lparr>en_pending := dpop k (en_pending s)\<rparr>)"
    and "\<And>s k. P s \<Longrightarrow> P (s\<lparr>en_active := dpop k (en_active s)\<rparr>)"
  shows "sx_keeps P (expire now)"
  unfolding expire_def
  by (intro sx_rules sx_keeps_iter expire_pending_keeps expire_active_keeps assms)

text \<open>What \<^verbatim>\<open>_expire\<close> leaves when it returns: the entries whose deadline has not passed.\<close>

lemma filter_own_keys:
  assumes "dict_ok d"
  shows "filter (\<lambda>kv. \<forall>x \<in> set d. fst x = fst kv \<longrightarrow> \<not> old x) d = filter (\<lambda>kv. \<not> old kv) d"
  using assms unfolding dict_ok_def
  by (intro filter_cong) (auto dest: eq_key_imp_eq_value)

lemma sx_keeps_const:
  assumes "\<And>c. sx_keeps (\<lambda>s. sel s = c) m" and "m s = (r, s')"
  shows "sel s' = sel s"
  using assms(1)[of "sel s"] assms(2) by (auto simp: sx_keeps_def)

lemma expire_Inr:
  assumes "expire now s = (Inr u, s')" and "dict_ok (en_pending s)" and "dict_ok (en_active s)"
  shows "en_pending s' = filter (\<lambda>kv. now \<le> pe_expires_at (snd kv)) (en_pending s)"
    and "en_active s' = filter (\<lambda>kv. now \<le> ac_expires_at (snd kv)) (en_active s)"
proof -
  let ?ip = "sx_iter (expire_pending now) (en_pending s)"
  obtain u1 s1 where 1: "?ip s = (Inr u1, s1)"
    and 2: "sx_iter (expire_active now) (en_active s1) s1 = (Inr u, s')"
    using assms(1) unfolding expire_def
    by (auto simp: sx_then_Inr sx_bind_Inr sx_get_def)
  have p1: "en_pending s1 = filter (\<lambda>kv. now \<le> pe_expires_at (snd kv)) (en_pending s)"
    using sx_iter_delete[where sel = en_pending and old = "\<lambda>x. pe_expires_at (snd x) < now",
        OF expire_pending_step 1, simplified]
      filter_own_keys[OF assms(2), of "\<lambda>x. pe_expires_at (snd x) < now"]
    by (simp add: not_less)
  have a1: "en_active s1 = en_active s"
    using 1 by (rule sx_keeps_const[rotated])
      (intro sx_keeps_iter expire_pending_keeps; simp add: audit_free_def)
  have p2: "en_pending s' = en_pending s1"
    using 2 by (rule sx_keeps_const[rotated])
      (intro sx_keeps_iter expire_active_keeps; simp add: audit_free_def)
  have a2: "en_active s' = filter (\<lambda>kv. now \<le> ac_expires_at (snd kv)) (en_active s1)"
    using sx_iter_delete[where sel = en_active and old = "\<lambda>x. ac_expires_at (snd x) < now",
        OF expire_active_step 2, simplified]
      filter_own_keys[OF assms(3), of "\<lambda>x. ac_expires_at (snd x) < now"] a1
    by (simp add: not_less)
  show "en_pending s' = filter (\<lambda>kv. now \<le> pe_expires_at (snd kv)) (en_pending s)"
    using p1 p2 by simp
  show "en_active s' = filter (\<lambda>kv. now \<le> ac_expires_at (snd kv)) (en_active s)"
    using a1 a2 by simp
qed

section \<open>Every operation as a step\<close>

type_synonym clock = "nat \<Rightarrow> real"

datatype pf_op =
    OpRequestLatch clock string string
  | OpConfirmLatch clock string string json
  | OpRequestOverride clock string "string list" string string
  | OpConfirmOverride clock string string
  | OpConfirmationState real real
  | OpOverridden real
  | OpEvaluate clock real manager_view
  | OpAuthorize clock real manager_view string
  | OpObserver

datatype pf_out =
    OutRequest "pf_error + request_result"
  | OutConfirm "pf_error + real \<times> string set"
  | OutDecision "pf_error + decision"
  | OutOther

fun pf_do :: "(json \<Rightarrow> string) \<Rightarrow> pf_op \<Rightarrow> engine \<Rightarrow> pf_out \<times> engine" where
  "pf_do jhash (OpRequestLatch clk fresh opr) s = map_prod OutRequest id (request_latch clk fresh opr s)"
| "pf_do jhash (OpConfirmLatch clk tok opr gates) s =
     map_prod OutConfirm id (confirm_latch clk tok opr gates s)"
| "pf_do jhash (OpRequestOverride clk fresh rules reason opr) s =
     map_prod OutRequest id (request_override clk fresh rules reason opr s)"
| "pf_do jhash (OpConfirmOverride clk tok opr) s =
     map_prod OutConfirm id (confirm_override clk tok opr s)"
| "pf_do jhash (OpConfirmationState t now) s = (OutOther, snd (confirmation_state t now s))"
| "pf_do jhash (OpOverridden t) s = (OutOther, snd (overridden_rules t s))"
| "pf_do jhash (OpEvaluate clk wall mv) s = (OutOther, snd (evaluate jhash clk wall mv s))"
| "pf_do jhash (OpAuthorize clk wall mv opr) s =
     map_prod OutDecision id (authorize_launch jhash clk wall mv opr s)"
| "pf_do jhash OpObserver s =
     (OutOther, s\<lparr>en_audit := (en_audit s)\<lparr>al_observers := al_observers (en_audit s) + 1\<rparr>\<rparr>)"

definition pf_step :: "(json \<Rightarrow> string) \<Rightarrow> pf_op \<Rightarrow> engine \<Rightarrow> engine" where
  "pf_step jhash x s = snd (pf_do jhash x s)"

text \<open>
  The invariant: the policy is the profile's, and what is requested or active names only
  rules that profile lets an operator override.
\<close>

definition pf_inv :: "profile \<Rightarrow> engine \<Rightarrow> bool" where
  "pf_inv prof s \<longleftrightarrow> en_profile s = prof \<and> en_policy s = POLICIES prof \<and>
     dict_ok (en_pending s) \<and> dict_ok (en_active s) \<and>
     (\<forall>kp \<in> set (en_pending s). pe_rules (snd kp) \<subseteq> po_overridable (POLICIES prof)) \<and>
     (\<forall>ka \<in> set (en_active s). ac_rules (snd ka) \<subseteq> po_overridable (POLICIES prof))"

lemma dset_mem: "x \<in> set (dset k v d) \<Longrightarrow> x = (k, v) \<or> x \<in> set d"
  by (induction d) (auto split: if_splits)

lemma pf_inv_audit: "audit_free (pf_inv prof)"
  by (simp add: audit_free_def pf_inv_def)

lemma pf_inv_pop:
  "pf_inv prof s \<Longrightarrow> pf_inv prof (s\<lparr>en_pending := dpop k (en_pending s)\<rparr>)"
  "pf_inv prof s \<Longrightarrow> pf_inv prof (s\<lparr>en_active := dpop k (en_active s)\<rparr>)"
  by (auto simp: pf_inv_def dpop_filter)

lemma pf_inv_set:
  "pf_inv prof s \<Longrightarrow> pe_rules p \<subseteq> po_overridable (POLICIES prof) \<Longrightarrow>
     pf_inv prof (s\<lparr>en_pending := dset k p (en_pending s)\<rparr>)"
  "pf_inv prof s \<Longrightarrow> ac_rules a \<subseteq> po_overridable (POLICIES prof) \<Longrightarrow>
     pf_inv prof (s\<lparr>en_active := dset k a (en_active s)\<rparr>)"
  by (auto simp: pf_inv_def dest!: dset_mem)

lemma expire_inv: "sx_keeps (pf_inv prof) (expire now)"
  by (intro expire_keeps pf_inv_audit pf_inv_pop)

lemma record_inv: "sx_keeps (pf_inv prof) (en_record e f)"
  by (intro en_record_keeps pf_inv_audit)

lemma sx_keeps_get_bind:
  assumes "\<And>a s. P s \<Longrightarrow> f s = a \<Longrightarrow> sx_keeps P (g a)"
  shows "sx_keeps P (sx_bind (sx_get f) g)"
  using assms by (simp add: sx_keeps_def sx_bind_def sx_get_def)

lemma request_inv:
  assumes "rules \<subseteq> po_overridable (POLICIES prof)"
  shows "sx_keeps (pf_inv prof) (en_request clk fresh k opr rules reason)"
  unfolding en_request_def
  by (intro sx_rules expire_inv record_inv sx_keeps_modify pf_inv_set) (simp_all add: assms)

lemma confirm_inv: "sx_keeps (pf_inv prof) (en_confirm clk k tok opr gates)"
proof -
  have reject: "sx_keeps (pf_inv prof) (confirm_reject k opr)"
    unfolding confirm_reject_def by (intro sx_rules record_inv)
  have accept: "sx_keeps (pf_inv prof) (confirm_accept clk k p opr gates)"
    if "pe_rules p \<subseteq> po_overridable (POLICIES prof)" for p
    unfolding confirm_accept_def
    by (intro sx_rules record_inv sx_keeps_modify pf_inv_set pf_inv_pop) (simp_all add: that)
  show ?thesis
    unfolding en_confirm_def
  proof (intro sx_keeps_then expire_inv sx_keeps_get_bind)
    fix a s assume "pf_inv prof s" and "map_of (en_pending s) k = a"
    then have "pe_rules p \<subseteq> po_overridable (POLICIES prof)" if "a = Some p" for p
      using that map_of_SomeD[of "en_pending s" k p] unfolding pf_inv_def by fastforce
    then show "sx_keeps (pf_inv prof) (case a of None \<Rightarrow> confirm_reject k opr
      | Some p \<Rightarrow> sx_bind (token_matches (pe_token p) tok) (\<lambda>ok.
          if ok then confirm_accept clk k p opr gates else confirm_reject k opr))"
      unfolding token_matches_def
      by (auto split: option.splits intro!: sx_rules reject accept)
  qed
qed

lemma request_override_inv: "sx_keeps (pf_inv prof) (request_override clk fresh rules reason opr)"
proof -
  have "sx_keeps (pf_inv prof) (if refused \<noteq> [] then sx_then (en_record e f) (sx_throw err)
      else en_request clk fresh K_OVERRIDE opr (set rules) r)"
    if "pf_inv prof s" "sorted_list_of_set (set rules - po_overridable (en_policy s)) = refused"
    for refused s e f err r
  proof (cases "refused = []")
    case True
    then have "set rules \<subseteq> po_overridable (POLICIES prof)" using that by (auto simp: pf_inv_def)
    then show ?thesis using True by (simp add: request_inv)
  next
    case False
    then show ?thesis by (simp add: record_inv sx_rules)
  qed
  note body = this
  show ?thesis
    unfolding request_override_def
    by (rule sx_keeps_if, rule sx_keeps_throw, rule sx_keeps_if, rule sx_keeps_throw,
        rule sx_keeps_get_bind, rule body)
qed

lemma overridden_inv: "sx_keeps (pf_inv prof) (overridden_rules t)"
  unfolding overridden_rules_def by (intro sx_rules expire_inv)

lemma confirmation_state_inv: "sx_keeps (pf_inv prof) (confirmation_state t now)"
  unfolding confirmation_state_def by (intro sx_rules expire_inv)

lemma evaluate_inv: "sx_keeps (pf_inv prof) (evaluate jhash clk wall mv)"
  unfolding evaluate_def by (intro sx_rules expire_inv overridden_inv confirmation_state_inv)

lemma authorize_inv: "sx_keeps (pf_inv prof) (authorize_launch jhash clk wall mv opr)"
proof -
  have "pf_inv prof s \<Longrightarrow> pf_inv prof (s\<lparr>en_active := dpop K_OVERRIDE (dpop K_LATCH (en_active s))\<rparr>)"
    for s by (auto simp: pf_inv_def dpop_filter)
  then show ?thesis
    unfolding authorize_launch_def
    by (intro sx_rules evaluate_inv overridden_inv record_inv sx_keeps_modify)
qed

lemma pf_step_inv: "pf_inv prof s \<Longrightarrow> pf_inv prof (pf_step jhash x s)"
  unfolding pf_step_def
  by (cases x)
    (auto simp: request_latch_def confirm_latch_def confirm_override_def
      pf_inv_audit[unfolded audit_free_def, rule_format]
      intro!: sx_keepsD[of "pf_inv prof"] request_inv confirm_inv request_override_inv overridden_inv
        confirmation_state_inv evaluate_inv authorize_inv)

interpretation pf_run: invariant_machine "pf_step jhash" "pf_inv prof"
  by unfold_locales (rule pf_step_inv)

lemma pf_inv_init: "pf_inv prof (engine_init prof cells alog window hold)"
  by (simp add: pf_inv_def engine_init_def)

section \<open>What an evaluation reports\<close>

definition override_of :: "engine \<Rightarrow> string set" where
  "override_of s = (case map_of (en_active s) K_OVERRIDE of None \<Rightarrow> {} | Some a \<Rightarrow> ac_rules a)"

lemma overridden_Inr:
  assumes "overridden_rules t s = (Inr rs, s')" and "pf_inv prof s"
  shows "rs = override_of s'" and "pf_inv prof s'"
    and "en_active s' = filter (\<lambda>ka. t \<le> ac_expires_at (snd ka)) (en_active s)"
    and "en_cells s' = en_cells s"
proof -
  obtain u where e: "expire t s = (Inr u, s')" and "rs = override_of s'"
    using assms(1) unfolding overridden_rules_def
    by (auto simp: sx_then_Inr sx_get_def override_of_def)
  then show "rs = override_of s'" by simp
  show "pf_inv prof s'" using sx_keepsD[OF expire_inv assms(2), of t] e by simp
  show "en_active s' = filter (\<lambda>ka. t \<le> ac_expires_at (snd ka)) (en_active s)"
    using expire_Inr(2)[OF e] assms(2) by (simp add: pf_inv_def)
  show "en_cells s' = en_cells s"
    using e by (rule sx_keeps_const[rotated]) (intro expire_keeps; simp add: audit_free_def)
qed

lemma evaluate_Inr:
  assumes "evaluate jhash clk wall mv s = (Inr r, s')" and "pf_inv prof s"
  obtains s2 conf where "r = assemble jhash s2 mv (override_of s2) (clk 2) wall conf"
    and "pf_inv prof s2" and "en_cells s2 = en_cells s"
    and "en_active s2 = filter (\<lambda>ka. clk 0 \<le> ac_expires_at (snd ka) \<and> clk 1 \<le> ac_expires_at (snd ka))
           (en_active s)"
    and "pf_inv prof s'"
proof -
  obtain u s1 ov s2 conf where 1: "expire (clk 0) s = (Inr u, s1)"
    and 2: "overridden_rules (clk 1) s1 = (Inr ov, s2)"
    and 3: "confirmation_state (clk 3) (clk 4) s2 = (Inr conf, s')"
    and r: "r = assemble jhash s2 mv ov (clk 2) wall conf"
    using assms(1) unfolding evaluate_def
    by (auto simp: sx_then_Inr sx_bind_Inr sx_get_def sx_return_def)
  have inv1: "pf_inv prof s1" using sx_keepsD[OF expire_inv assms(2), of "clk 0"] 1 by simp
  have act1: "en_active s1 = filter (\<lambda>ka. clk 0 \<le> ac_expires_at (snd ka)) (en_active s)"
    using expire_Inr(2)[OF 1] assms(2) by (simp add: pf_inv_def)
  have cells1: "en_cells s1 = en_cells s"
    using 1 by (rule sx_keeps_const[rotated]) (intro expire_keeps; simp add: audit_free_def)
  note ov = overridden_Inr[OF 2 inv1]
  have inv': "pf_inv prof s'"
    using sx_keepsD[OF confirmation_state_inv ov(2), of "clk 3" "clk 4"] 3 by simp
  show thesis
    by (rule that[of s2 conf]) (use r ov act1 cells1 inv' in \<open>simp_all add: conj_commute\<close>)
qed

lemma concat_map_Nil: "concat (map f xs) = [] \<longleftrightarrow> (\<forall>x \<in> set xs. f x = [])"
  by auto

lemma blocking_Nil:
  "blocking_lines p drs fgs = [] \<longleftrightarrow> failed_gates fgs = [] \<and>
     (po_partial p \<or> (\<forall>d \<in> set drs. failed_gates (dr_gates d) = [])) \<and> (\<exists>d \<in> set drs. dr_ready d)"
  by (auto simp: blocking_lines_def concat_map_Nil)

lemma drone_reports_ready:
  "d \<in> set (drone_reports jhash p n mv ov now) \<Longrightarrow> dr_ready d \<longleftrightarrow> failed_gates (dr_gates d) = []"
  by (auto simp: drone_reports_def Let_def)

lemma gate_fails:
  "g_state (gate_of p ov (r, passed, detail)) = G_FAIL \<longleftrightarrow> severity p r = BLOCKING \<and> \<not> passed \<and> r \<notin> ov"
  by (cases "severity p r") (simp_all add: gate_of_def Let_def)

lemma failed_gates_map:
  "failed_gates (map (gate_of p ov) cs) = [] \<longleftrightarrow>
     (\<forall>(r, passed, detail) \<in> set cs. severity p r = BLOCKING \<longrightarrow> passed \<or> r \<in> ov)"
  by (induction cs) (auto simp: failed_gates_def gate_fails)

lemma set_sorted_telemetry: "set (sorted_telemetry tel) = set tel"
  by (simp add: sorted_telemetry_def)

lemma ids_sorted: "map fst (sorted_telemetry tel) = sort (map fst tel)"
proof -
  have "sort (map fst tel) = map fst (sorted_telemetry tel)"
    by (rule properties_for_sort) (simp_all add: sorted_telemetry_def)
  then show ?thesis by simp
qed

lemma authorize_permitted:
  assumes "authorize_launch jhash clk wall mv opr s = (Inr d, s')" and "de_permitted d"
    and "pf_inv prof s"
  obtains s2 conf where "de_report d = assemble jhash s2 mv (override_of s2) (clk 2) wall conf"
    and "rp_permitted (de_report d)" and "de_drone_ids d = rp_launch_ids (de_report d)"
    and "pf_inv prof s2" and "en_cells s2 = en_cells s"
    and "en_active s2 = filter (\<lambda>ka. clk 0 \<le> ac_expires_at (snd ka) \<and> clk 1 \<le> ac_expires_at (snd ka))
           (en_active s)"
    and "map_of (en_active s') K_LATCH = None" and "map_of (en_active s') K_OVERRIDE = None"
    and "de_overridden d \<subseteq> po_overridable (POLICIES prof)"
proof -
  obtain r s1 where ev: "evaluate jhash clk wall mv s = (Inr r, s1)"
    and rest: "(if \<not> rp_permitted r then
         sx_then (en_record ''launch_rejected''
                    [(''operator'', JStr opr), (''reasons'', JList (map JStr (rp_blocking r)))])
           (sx_return \<lparr>de_permitted = False, de_report = r, de_drone_ids = [], de_overridden = {}\<rparr>)
       else sx_bind (overridden_rules (clk 5)) (\<lambda>overridden.
         sx_then (en_record ''launch_authorized''
                    [(''operator'', JStr opr), (''drone_ids'', ids_json (rp_launch_ids r)),
                     (''excluded'', ids_json (rp_excluded_ids r)),
                     (''overridden_rules'', sorted_json overridden),
                     (''show_hash'', case rp_show_hash r of None \<Rightarrow> JNull | Some h \<Rightarrow> JStr h)])
        (sx_then (sx_modify (\<lambda>s. s\<lparr>en_active := dpop K_OVERRIDE (dpop K_LATCH (en_active s))\<rparr>))
           (sx_return \<lparr>de_permitted = True, de_report = r, de_drone_ids = rp_launch_ids r,
                        de_overridden = overridden\<rparr>)))) s1 = (Inr d, s')"
    using assms(1) unfolding authorize_launch_def by (auto simp: sx_bind_Inr)
  have perm: "rp_permitted r"
    using rest assms(2) by (auto simp: sx_then_Inr sx_return_def split: if_splits)
  with rest obtain ov s3 s4 where ov: "overridden_rules (clk 5) s1 = (Inr ov, s3)"
    and s': "s' = s4\<lparr>en_active := dpop K_OVERRIDE (dpop K_LATCH (en_active s4))\<rparr>"
    and d: "d = \<lparr>de_permitted = True, de_report = r, de_drone_ids = rp_launch_ids r, de_overridden = ov\<rparr>"
    by (auto simp: sx_then_Inr sx_bind_Inr sx_modify_def sx_return_def)
  obtain s2 conf where s2: "r = assemble jhash s2 mv (override_of s2) (clk 2) wall conf" "pf_inv prof s2"
      "en_cells s2 = en_cells s"
      "en_active s2 = filter (\<lambda>ka. clk 0 \<le> ac_expires_at (snd ka) \<and> clk 1 \<le> ac_expires_at (snd ka))
        (en_active s)" "pf_inv prof s1"
    by (rule evaluate_Inr[OF ev assms(3)]) (rule that)
  have "ov \<subseteq> po_overridable (POLICIES prof)"
  proof (cases "map_of (en_active s3) K_OVERRIDE")
    case None
    then show ?thesis using overridden_Inr(1)[OF ov s2(5)] by (simp add: override_of_def)
  next
    case (Some a)
    then have "ac_rules a \<subseteq> po_overridable (POLICIES prof)"
      using overridden_Inr(2)[OF ov s2(5)] map_of_SomeD[OF Some] unfolding pf_inv_def by force
    then show ?thesis using Some overridden_Inr(1)[OF ov s2(5)] by (simp add: override_of_def)
  qed
  then show thesis
    by (intro that[of s2 conf]) (use s2 d perm s' in \<open>simp_all add: dict_simps\<close>)
qed

section \<open>The production gate\<close>

lemma map_of_const: "map_of (map (\<lambda>r. (f r, c)) xs) x = (if x \<in> f ` set xs then Some c else None)"
  by (induction xs) auto

lemma severity_production: "r \<in> set (map rule_id RULES) \<Longrightarrow> severity (POLICIES PRODUCTION) r = BLOCKING"
  by (simp add: severity_def policy_defaults_def map_of_const)

lemma rule_ids: "set (map rule_id RULES) = {''operator_latch'', ''fleet_complete'', ''connected'',
    ''comm_latency'', ''heartbeat'', ''gnss_fix'', ''battery_soc'', ''battery_cell_voltage'',
    ''battery_cell_balance'', ''ekf_health'', ''trajectory_hash'', ''pad_clearance''}"
  by (simp add: RULES_def mk_rule_def)

lemma production_overridable: "po_overridable (POLICIES PRODUCTION) = {}"
  by (simp add: policy_defaults_def)

text \<open>
  What a production launch demands of one drone, in terms of its telemetry.
\<close>

definition flight_ready :: "(json \<Rightarrow> string) \<Rightarrow> manager_view \<Rightarrow> real \<Rightarrow> int \<Rightarrow> telemetry \<Rightarrow> bool" where
  "flight_ready jhash mv now i t \<longleftrightarrow>
     tl_connected t \<and>
     (\<exists>l. tl_latency_ms t = Some l \<and> 0 \<le> l \<and> l < 150) \<and>
     (\<exists>u. tl_stable_since t = Some u \<and> 10 \<le> now - u) \<and>
     py_upper (after_last_dot (fix_text ''NO_GPS'' (tl_fix_type t))) = ''RTK_FIXED'' \<and>
     85 \<le> or_zero (tl_battery_percent t) \<and>
     reported_cells t \<noteq> [] \<and> (\<forall>v \<in> set (reported_cells t). 415 / 100 \<le> v) \<and>
     (\<forall>v \<in> set (reported_cells t). \<forall>v' \<in> set (reported_cells t). (v - v') * 1000 < 30) \<and>
     tl_armable t \<and> tl_home_ok t \<and>
     (\<exists>tr wps. mv_trajectory mv = Some tr \<and> slot_waypoints tr i = Some wps \<and> wps \<noteq> [] \<and>
        tl_mission_hash t = Some (trajectory_hash jhash wps)) \<and>
     (fst (tl_local t))\<^sup>2 + (snd (tl_local t))\<^sup>2 \<le> (mv_geofence mv)\<^sup>2 \<and>
     (\<forall>(j, t') \<in> set (mv_telemetry mv). j \<noteq> i \<longrightarrow> tl_connected t' \<longrightarrow>
        15 / 10 \<le> dist3 (tl_fleet t) (tl_fleet t'))"

lemma after_last_dot_idem: "after_last_dot (after_last_dot s) = after_last_dot s"
  by (simp add: after_last_dot_def)

lemma fix_level_RTK:
  assumes "6 \<le> gnss_fix_level (Some (FixName (after_last_dot s)))"
  shows "py_upper (after_last_dot s) = ''RTK_FIXED''"
proof -
  let ?n = "py_upper (after_last_dot s)"
  have "\<exists>v. map_of GNSS_FIX_TYPES ?n = Some v \<and> 6 \<le> v"
    using assms by (cases "after_last_dot s = []")
      (auto simp: after_last_dot_idem after_last_dot_def[of "[]"] split: option.splits)
  then show ?thesis by (auto simp: GNSS_FIX_TYPES_def split: if_splits)
qed

lemma pad_others:
  assumes "nearest_other i pos = r" and "map_of pos i = Some own" and "(j, q) \<in> set pos" and "j \<noteq> i"
  shows "\<exists>d. r = Some d \<and> d \<le> dist3 own q"
proof -
  let ?o = "filter (\<lambda>(j, q). j \<noteq> i) pos"
  have mem: "(j, q) \<in> set ?o" using assms(3,4) by simp
  then obtain x xs where o: "?o = x # xs" by (cases ?o) auto
  have "r = Some (Min (set (map (\<lambda>(j, q). dist3 own q) ?o)))"
    using assms(1,2) unfolding nearest_other_def o by simp
  moreover have "Min (set (map (\<lambda>(j, q). dist3 own q) ?o)) \<le> dist3 own q"
    using mem by (intro Min_le) force+
  ultimately show ?thesis by blast
qed

lemma check_pad_passed:
  assumes "fst (check_pad i t fence (positions_of tel))" and "(i, t) \<in> set tel" and "dict_ok tel"
  shows "tl_connected t \<and> (fst (tl_local t))\<^sup>2 + (snd (tl_local t))\<^sup>2 \<le> fence\<^sup>2 \<and>
    (\<forall>(j, t') \<in> set tel. j \<noteq> i \<longrightarrow> tl_connected t' \<longrightarrow> 15 / 10 \<le> dist3 (tl_fleet t) (tl_fleet t'))"
proof -
  obtain x y where xy: "tl_local t = (x, y)" by force
  have c: "tl_connected t" and home: "sqrt (x\<^sup>2 + y\<^sup>2) \<le> fence"
    and near: "\<And>d. nearest_other i (positions_of tel) = Some d \<Longrightarrow> 15 / 10 \<le> d"
    using assms(1) by (auto simp: check_pad_def Let_def xy DEFAULT_LIMITS_def not_less
        split: if_splits option.splits)
  have "x\<^sup>2 + y\<^sup>2 \<le> fence\<^sup>2"
    using sqrt_le_D[OF home] .
  moreover have "15 / 10 \<le> dist3 (tl_fleet t) (tl_fleet t')"
    if "(j, t') \<in> set tel" "j \<noteq> i" "tl_connected t'" for j t'
  proof -
    have ok: "dict_ok (positions_of tel)"
      using assms(3) unfolding positions_of_def dict_ok_def
      by (auto simp: distinct_map inj_on_def split: prod.splits)
    have "map_of (positions_of tel) i = Some (tl_fleet t)"
      using ok assms(2) c by (auto simp: dict_ok_mem[symmetric] positions_of_def)
    moreover have "(j, tl_fleet t') \<in> set (positions_of tel)"
      using that by (auto simp: positions_of_def)
    ultimately show ?thesis using pad_others[OF refl] that(2) near by fastforce
  qed
  ultimately show ?thesis using c by (auto simp: xy)
qed

lemma check_trajectory_passed:
  assumes "fst (check_trajectory jhash p i t traj)" and "po_require_hash p"
  shows "\<exists>tr wps. traj = Some tr \<and> slot_waypoints tr i = Some wps \<and> wps \<noteq> [] \<and>
    tl_mission_hash t = Some (trajectory_hash jhash wps)"
  using assms by (auto simp: check_trajectory_def Let_def split: option.splits if_splits)

lemma production_checks_ready:
  assumes "\<forall>(r, passed, detail) \<in> set (drone_checks jhash (POLICIES PRODUCTION) n i t
      (mv_trajectory mv) (mv_geofence mv) (positions_of (mv_telemetry mv)) now). passed"
    and "(i, t) \<in> set (mv_telemetry mv)" and "dict_ok (mv_telemetry mv)"
  shows "flight_ready jhash mv now i t"
proof -
  let ?p = "POLICIES PRODUCTION"
  have pass: "tl_connected t" "fst (snd (check_latency ?p t))" "fst (snd (check_heartbeat ?p t now))"
    "fst (snd (check_fix ?p t))" "fst (snd (check_soc ?p t))" "fst (snd (check_cell_voltage ?p n t))"
    "fst (snd (check_cell_balance ?p t))" "fst (snd (check_ekf t))"
    "fst (check_trajectory jhash ?p i t (mv_trajectory mv))"
    "fst (check_pad i t (mv_geofence mv) (positions_of (mv_telemetry mv)))"
    using assms(1) unfolding drone_checks_def by (simp_all split: prod.splits del: POLICIES.simps)
  have "\<exists>l. tl_latency_ms t = Some l \<and> 0 \<le> l \<and> l < 150"
    using pass(2) by (auto simp: check_latency_def policy_defaults_def split: option.splits if_splits)
  moreover have "\<exists>u. tl_stable_since t = Some u \<and> 10 \<le> now - u"
    using pass(3) by (auto simp: check_heartbeat_def policy_defaults_def Let_def
        split: option.splits if_splits)
  moreover have "py_upper (after_last_dot (fix_text ''NO_GPS'' (tl_fix_type t))) = ''RTK_FIXED''"
    using pass(4) by (intro fix_level_RTK)
      (simp add: check_fix_def policy_defaults_def Let_def del: gnss_fix_level.simps)
  moreover have "85 \<le> or_zero (tl_battery_percent t)"
    using pass(5) by (simp add: check_soc_def policy_defaults_def Let_def)
  moreover have cells: "reported_cells t \<noteq> []"
    using pass(7) by (auto simp: check_cell_balance_def split: if_splits)
  moreover have "\<forall>v \<in> set (reported_cells t). 415 / 100 \<le> v"
  proof
    fix v assume "v \<in> set (reported_cells t)"
    then have "Min (set (reported_cells t)) \<le> v" by simp
    moreover have "415 / 100 \<le> Min (set (reported_cells t))"
      using pass(6) cells by (simp add: check_cell_voltage_def cell_voltage_def policy_defaults_def Let_def)
    ultimately show "415 / 100 \<le> v" by linarith
  qed
  moreover have "(v - v') * 1000 < 30"
    if "v \<in> set (reported_cells t)" "v' \<in> set (reported_cells t)" for v v'
  proof -
    have "v \<le> Max (set (reported_cells t))" "Min (set (reported_cells t)) \<le> v'"
      using that by simp_all
    moreover have "(Max (set (reported_cells t)) - Min (set (reported_cells t))) * 1000 < 30"
      using pass(7) cells by (simp add: check_cell_balance_def policy_defaults_def Let_def)
    ultimately show ?thesis by (simp add: left_diff_distrib)
  qed
  moreover have "tl_armable t \<and> tl_home_ok t"
    using pass(8) by (simp add: check_ekf_def Let_def)
  moreover have "\<exists>tr wps. mv_trajectory mv = Some tr \<and> slot_waypoints tr i = Some wps \<and> wps \<noteq> [] \<and>
        tl_mission_hash t = Some (trajectory_hash jhash wps)"
    using pass(9) by (rule check_trajectory_passed) (simp add: policy_defaults_def)
  ultimately show ?thesis
    using check_pad_passed[OF pass(10) assms(2,3)] unfolding flight_ready_def by blast
qed

section \<open>The launch decision\<close>

lemma assemble_sel:
  "rp_permitted (assemble jhash s mv ov now wall conf) \<longleftrightarrow>
     blocking_lines (en_policy s) (drone_reports jhash (en_policy s) (en_cells s) mv ov now)
       (fleet_gates (en_policy s) mv (map_of (en_active s) K_LATCH) ov now) = []"
  "rp_permitted (assemble jhash s mv ov now wall conf) \<Longrightarrow>
     rp_launch_ids (assemble jhash s mv ov now wall conf) =
       map dr_id (filter dr_ready (drone_reports jhash (en_policy s) (en_cells s) mv ov now))"
  by (simp_all add: assemble_def Let_def)

lemma drone_reports_ids:
  "map dr_id (drone_reports jhash p n mv ov now) = sort (map fst (mv_telemetry mv))"
proof -
  have "map dr_id (drone_reports jhash p n mv ov now) = map fst (sorted_telemetry (mv_telemetry mv))"
    by (simp add: drone_reports_def Let_def comp_def case_prod_unfold)
  then show ?thesis by (simp add: ids_sorted)
qed

lemma ready_reports:
  "d \<in> set (drone_reports jhash p n mv ov now) \<Longrightarrow> \<exists>t. (dr_id d, t) \<in> set (mv_telemetry mv) \<and>
     (dr_ready d \<longleftrightarrow> (\<forall>(r, passed, detail) \<in> set (drone_checks jhash p n (dr_id d) t (mv_trajectory mv)
        (mv_geofence mv) (positions_of (mv_telemetry mv)) now). severity p r = BLOCKING \<longrightarrow> passed \<or> r \<in> ov))"
  by (auto simp: drone_reports_def Let_def failed_gates_map set_sorted_telemetry)

lemma report_of:
  "(i, t) \<in> set (mv_telemetry mv) \<Longrightarrow> \<exists>d \<in> set (drone_reports jhash p n mv ov now). dr_id d = i \<and>
     dr_gates d = map (gate_of p ov) (drone_checks jhash p n i t (mv_trajectory mv)
        (mv_geofence mv) (positions_of (mv_telemetry mv)) now)"
  by (force simp: drone_reports_def Let_def set_sorted_telemetry)

lemma override_bound: "pf_inv prof s \<Longrightarrow> override_of s \<subseteq> po_overridable (POLICIES prof)"
  by (fastforce simp: override_of_def pf_inv_def split: option.splits dest!: map_of_SomeD)

lemma drone_check_ids:
  "(r, passed, detail) \<in> set (drone_checks jhash p n i t traj fence pos now) \<Longrightarrow>
     r \<in> {''connected'', ''comm_latency'', ''heartbeat'', ''gnss_fix'', ''battery_soc'',
       ''battery_cell_voltage'', ''battery_cell_balance'', ''ekf_health'', ''trajectory_hash'',
       ''pad_clearance''}"
  by (auto simp: drone_checks_def check_latency_def check_heartbeat_def check_fix_def check_soc_def
      check_cell_voltage_def check_cell_balance_def check_ekf_def Let_def split: if_splits)

section \<open>Properties\<close>

text \<open>C2. A show launch is safe: after any sequence of operations on a PRODUCTION engine, a launch
  is permitted only with the operator latch confirmed and unexpired, every expected drone
  connected, and every drone of the fleet ready to fly in every respect the rules name; it then
  launches exactly the whole fleet, with nothing overridden, and uses the latch up.\<close>

theorem production_launch_is_safe:
  assumes "s = run_ops (pf_step jhash) ops (engine_init PRODUCTION cells alog window hold)"
    and "authorize_launch jhash clk wall mv opr s = (Inr d, s')" and "de_permitted d"
    and "dict_ok (mv_telemetry mv)"
  shows "(\<exists>a. map_of (en_active s) K_LATCH = Some a \<and> clk 0 \<le> ac_expires_at a \<and> clk 1 \<le> ac_expires_at a) \<and>
    0 < mv_expected mv \<and> mv_expected mv \<le> int (length (filter (\<lambda>(i, t). tl_connected t) (mv_telemetry mv))) \<and>
    (\<forall>(i, t) \<in> set (mv_telemetry mv). flight_ready jhash mv (clk 2) i t) \<and>
    de_drone_ids d = sort (map fst (mv_telemetry mv)) \<and> de_drone_ids d \<noteq> [] \<and>
    de_overridden d = {} \<and> map_of (en_active s') K_LATCH = None"
proof -
  let ?p = "POLICIES PRODUCTION"
  have inv: "pf_inv PRODUCTION s" unfolding assms(1) by (intro pf_run.run_inv pf_inv_init)
  obtain s2 conf where rep: "de_report d = assemble jhash s2 mv (override_of s2) (clk 2) wall conf"
    and perm: "rp_permitted (de_report d)" and ids: "de_drone_ids d = rp_launch_ids (de_report d)"
    and inv2: "pf_inv PRODUCTION s2"
    and act: "en_active s2 = filter (\<lambda>ka. clk 0 \<le> ac_expires_at (snd ka) \<and>
      clk 1 \<le> ac_expires_at (snd ka)) (en_active s)"
    and used: "map_of (en_active s') K_LATCH = None"
    and over: "de_overridden d \<subseteq> po_overridable ?p"
    by (rule authorize_permitted[OF assms(2,3) inv]) (rule that)
  have p: "en_policy s2 = ?p" using inv2 by (simp add: pf_inv_def)
  have ov: "override_of s2 = {}" using override_bound[OF inv2] production_overridable by simp
  let ?drs = "drone_reports jhash ?p (en_cells s2) mv {} (clk 2)"
  let ?fgs = "fleet_gates ?p mv (map_of (en_active s2) K_LATCH) {} (clk 2)"
  have block: "blocking_lines ?p ?drs ?fgs = []"
    using perm unfolding rep assemble_sel p ov .
  then have fg: "failed_gates ?fgs = []" and dg: "\<forall>d \<in> set ?drs. failed_gates (dr_gates d) = []"
    and some: "\<exists>d \<in> set ?drs. dr_ready d"
    unfolding blocking_Nil by (simp_all add: policy_defaults_def)
  have sev: "severity ?p ''operator_latch'' = BLOCKING" "severity ?p ''fleet_complete'' = BLOCKING"
    by (rule severity_production[unfolded rule_ids], simp)+
  have latch: "map_of (en_active s2) K_LATCH \<noteq> None" and fleet: "0 < mv_expected mv"
    "mv_expected mv \<le> int (length (filter (\<lambda>(i, t). tl_connected t) (mv_telemetry mv)))"
    using fg sev by (auto simp: fleet_gates_def Let_def failed_gates_def gate_fails
        simp del: POLICIES.simps split: if_splits)
  have "\<exists>a. map_of (en_active s) K_LATCH = Some a \<and> clk 0 \<le> ac_expires_at a \<and> clk 1 \<le> ac_expires_at a"
    using latch inv unfolding act
    by (auto simp: pf_inv_def map_of_filter_dict split: option.splits if_splits)
  moreover have "flight_ready jhash mv (clk 2) i t" if it: "(i, t) \<in> set (mv_telemetry mv)" for i t
  proof (rule production_checks_ready[OF _ it assms(4)])
    obtain d where d: "d \<in> set ?drs" "dr_gates d = map (gate_of ?p {}) (drone_checks jhash ?p
        (en_cells s2) i t (mv_trajectory mv) (mv_geofence mv) (positions_of (mv_telemetry mv)) (clk 2))"
      using report_of[OF it] by blast
    let ?cs = "drone_checks jhash ?p (en_cells s2) i t (mv_trajectory mv) (mv_geofence mv)
      (positions_of (mv_telemetry mv)) (clk 2)"
    have "failed_gates (dr_gates d) = []" using dg d(1) by blast
    then have all: "\<forall>(r, passed, detail) \<in> set ?cs. severity ?p r = BLOCKING \<longrightarrow> passed \<or> r \<in> {}"
      unfolding d(2) failed_gates_map .
    have "severity ?p r = BLOCKING" if "(r, passed, detail) \<in> set ?cs" for r passed detail
      using drone_check_ids[OF that] by (intro severity_production[unfolded rule_ids]) simp
    then show "\<forall>(r, passed, detail) \<in> set ?cs. passed" using all by fast
  qed
  moreover have "de_drone_ids d = sort (map fst (mv_telemetry mv))"
  proof -
    have "filter dr_ready ?drs = ?drs"
      using dg drone_reports_ready by (auto simp: filter_id_conv)
    then show ?thesis
      using assemble_sel(2)[OF perm[unfolded rep]] unfolding ids rep p ov
      by (simp add: drone_reports_ids)
  qed
  moreover have "de_drone_ids d \<noteq> []"
    using some calculation(3) drone_reports_ids[of jhash ?p "en_cells s2" mv "{}" "clk 2"]
    by (metis empty_iff empty_set map_is_Nil_conv)
  ultimately show ?thesis using fleet used over production_overridable by blast
qed

lemma connected_blocking:
  "severity (POLICIES prof) ''connected'' = BLOCKING \<and> ''connected'' \<notin> po_overridable (POLICIES prof)"
  by (cases prof) (simp_all add: severity_def policy_defaults_def RULES_def mk_rule_def)

lemma ekf_blocking:
  "severity (POLICIES prof) ''ekf_health'' = BLOCKING \<and>
     (prof \<noteq> ENGINEERING \<longrightarrow> ''ekf_health'' \<notin> po_overridable (POLICIES prof))"
  by (cases prof) (simp_all add: severity_def policy_defaults_def RULES_def mk_rule_def)

lemma connected_check:
  "(''connected'', tl_connected t, if tl_connected t then ''Link up'' else ''No link to vehicle'')
     \<in> set (drone_checks jhash p n i t traj fence pos now)"
  by (simp add: drone_checks_def)

lemma ekf_check:
  "\<exists>detail. (''ekf_health'', tl_connected t \<and> tl_armable t \<and> tl_home_ok t, detail)
     \<in> set (drone_checks jhash p n i t traj fence pos now)"
proof -
  have "check_ekf t \<in> set (drone_checks jhash p n i t traj fence pos now)"
    by (simp add: drone_checks_def)
  moreover have "\<exists>detail. check_ekf t = (''ekf_health'', tl_connected t \<and> tl_armable t \<and> tl_home_ok t, detail)"
    by (simp add: check_ekf_def Let_def)
  ultimately show ?thesis by force
qed

text \<open>In every profile, and after any operations, a permitted launch sends up only drones of
  the fleet that are connected and pass every BLOCKING check of the profile, those it lets an
  operator override aside; outside ENGINEERING their estimator is healthy with home locked. A
  profile without partial fleets launches all drones. The launch uses up both confirmations.\<close>

theorem launched_drones_pass:
  assumes "s = run_ops (pf_step jhash) ops (engine_init prof cells alog window hold)"
    and "authorize_launch jhash clk wall mv opr s = (Inr d, s')" and "de_permitted d"
  shows "de_drone_ids d \<noteq> [] \<and>
    (\<forall>i \<in> set (de_drone_ids d). \<exists>t. (i, t) \<in> set (mv_telemetry mv) \<and> tl_connected t \<and>
       (prof \<noteq> ENGINEERING \<longrightarrow> tl_armable t \<and> tl_home_ok t) \<and>
       (\<forall>(r, passed, detail) \<in> set (drone_checks jhash (POLICIES prof) (en_cells s) i t
            (mv_trajectory mv) (mv_geofence mv) (positions_of (mv_telemetry mv)) (clk 2)).
          severity (POLICIES prof) r = BLOCKING \<longrightarrow> r \<notin> po_overridable (POLICIES prof) \<longrightarrow> passed)) \<and>
    (\<not> po_partial (POLICIES prof) \<longrightarrow> de_drone_ids d = sort (map fst (mv_telemetry mv))) \<and>
    map_of (en_active s') K_LATCH = None \<and> map_of (en_active s') K_OVERRIDE = None"
proof -
  let ?p = "POLICIES prof"
  have inv: "pf_inv prof s" unfolding assms(1) by (intro pf_run.run_inv pf_inv_init)
  obtain s2 conf where rep: "de_report d = assemble jhash s2 mv (override_of s2) (clk 2) wall conf"
    and perm: "rp_permitted (de_report d)" and ids: "de_drone_ids d = rp_launch_ids (de_report d)"
    and inv2: "pf_inv prof s2" and cells: "en_cells s2 = en_cells s"
    and used: "map_of (en_active s') K_LATCH = None" "map_of (en_active s') K_OVERRIDE = None"
    by (rule authorize_permitted[OF assms(2,3) inv]) (rule that)
  have p: "en_policy s2 = ?p" using inv2 by (simp add: pf_inv_def)
  let ?drs = "drone_reports jhash ?p (en_cells s) mv (override_of s2) (clk 2)"
  have ready: "de_drone_ids d = map dr_id (filter dr_ready ?drs)"
    using assemble_sel(2)[OF perm[unfolded rep]] unfolding ids rep p cells .
  have "blocking_lines ?p ?drs (fleet_gates ?p mv (map_of (en_active s2) K_LATCH) (override_of s2) (clk 2)) = []"
    using perm unfolding rep assemble_sel p cells .
  then have some: "\<exists>d \<in> set ?drs. dr_ready d"
    and dg: "po_partial ?p \<or> (\<forall>d \<in> set ?drs. failed_gates (dr_gates d) = [])"
    unfolding blocking_Nil by blast+
  have "\<exists>t. (i, t) \<in> set (mv_telemetry mv) \<and> tl_connected t \<and>
       (prof \<noteq> ENGINEERING \<longrightarrow> tl_armable t \<and> tl_home_ok t) \<and>
       (\<forall>(r, passed, detail) \<in> set (drone_checks jhash ?p (en_cells s) i t
            (mv_trajectory mv) (mv_geofence mv) (positions_of (mv_telemetry mv)) (clk 2)).
          severity ?p r = BLOCKING \<longrightarrow> r \<notin> po_overridable ?p \<longrightarrow> passed)"
    if i: "i \<in> set (de_drone_ids d)" for i
  proof -
    obtain r where r: "r \<in> set ?drs" "dr_ready r" "dr_id r = i" using i ready by auto
    then obtain t where t: "(i, t) \<in> set (mv_telemetry mv)"
      and pass: "\<forall>(r, passed, detail) \<in> set (drone_checks jhash ?p (en_cells s) i t (mv_trajectory mv)
        (mv_geofence mv) (positions_of (mv_telemetry mv)) (clk 2)). severity ?p r = BLOCKING \<longrightarrow>
          passed \<or> r \<in> override_of s2"
      using ready_reports[OF r(1)] by blast
    have all: "\<forall>(r, passed, detail) \<in> set (drone_checks jhash ?p (en_cells s) i t (mv_trajectory mv)
        (mv_geofence mv) (positions_of (mv_telemetry mv)) (clk 2)). severity ?p r = BLOCKING \<longrightarrow>
          r \<notin> po_overridable ?p \<longrightarrow> passed"
      using pass override_bound[OF inv2] by fast
    have "tl_connected t" using all connected_check connected_blocking by fast
    moreover have "prof \<noteq> ENGINEERING \<longrightarrow> tl_armable t \<and> tl_home_ok t"
      using all ekf_check ekf_blocking by fast
    ultimately show ?thesis using t all by blast
  qed
  moreover have "de_drone_ids d \<noteq> []" using some ready by (auto simp: filter_empty_conv)
  moreover have "de_drone_ids d = sort (map fst (mv_telemetry mv))" if "\<not> po_partial ?p"
  proof -
    have "filter dr_ready ?drs = ?drs"
      using dg that drone_reports_ready by (auto simp: filter_id_conv)
    then show ?thesis unfolding ready by (simp add: drone_reports_ids)
  qed
  ultimately show ?thesis using used by blast
qed

text \<open>What an operator can override: after any operations, the rules an evaluation may treat
  as overridden are among those the profile lists as overridable. That is the estimator check
  under ENGINEERING alone, and nothing in SIMULATION, FIELD_TEST and PRODUCTION.\<close>

theorem overrides_stay_overridable:
  assumes "overridden_rules t (run_ops (pf_step jhash) ops (engine_init prof cells alog window hold)) =
    (Inr rules, s')"
  shows "rules \<subseteq> po_overridable (POLICIES prof) \<and> rules \<subseteq> {''ekf_health''} \<and>
    (prof \<noteq> ENGINEERING \<longrightarrow> rules = {})"
proof -
  have "pf_inv prof (run_ops (pf_step jhash) ops (engine_init prof cells alog window hold))"
    by (intro pf_run.run_inv pf_inv_init)
  from overridden_Inr(1,2)[OF assms this] have "rules \<subseteq> po_overridable (POLICIES prof)"
    using override_bound by blast
  then show ?thesis by (cases prof) (auto simp: policy_defaults_def)
qed

lemma parse_profile_name:
  "parse_profile v = Inr q \<Longrightarrow> \<exists>s. v = JStr s \<and> py_upper (py_strip s) = profile_value q"
  by (cases v) (auto simp: find_Some_iff split: option.splits)

lemma load_safety_config_cases:
  assumes "load_safety_config toml env = Inr (q, cells)"
  shows "1 \<le> cells" and "q \<noteq> PRODUCTION \<Longrightarrow>
    (\<exists>s. py_upper (py_strip s) = profile_value q \<and>
       (env = Some s \<or> (\<exists>d sec. toml = Some (Inr d) \<and> map_of d ''safety'' = Some (JObj sec) \<and>
          map_of sec ''operational_profile'' = Some (JStr s))))"
  using assms
  by (auto simp: load_safety_config_def Let_def DEFAULT_PROFILE_def
      split: option.splits sum.splits json.splits if_splits dest!: parse_profile_name)

lemma policies_ok:
  "policy_post_init (POLICIES p) = Inr () \<and> po_profile (POLICIES p) = p \<and>
   set (dkeys (po_severities (POLICIES p))) = set (map rule_id RULES) \<and>
   map_of FIX_TYPE_NAMES (po_min_fix (POLICIES p)) \<noteq> None"
  by (cases p) (auto simp: policy_post_init_def policy_defaults_def dkeys_def RULES_BY_ID_def RULES_def
      mk_rule_def severity_def FIX_TYPE_NAMES_def GNSS_FIX_TYPES_def)

text \<open>The shipped policies pass their own constructor, give every rule a severity and each
  fix level a name; and the configuration fails closed: with neither the environment nor
  \<^verbatim>\<open>tara.toml\<close> naming a profile it is PRODUCTION, and a relaxed profile is only ever the one
  that was named.\<close>

theorem safety_config_fails_closed:
  "policy_post_init (POLICIES p) = Inr () \<and> po_profile (POLICIES p) = p \<and>
   set (dkeys (po_severities (POLICIES p))) = set (map rule_id RULES) \<and>
   map_of FIX_TYPE_NAMES (po_min_fix (POLICIES p)) \<noteq> None \<and>
   (case load_safety_config toml env of
      Inl err \<Rightarrow> toml \<noteq> None \<or> env \<noteq> None
    | Inr (q, cells) \<Rightarrow> 1 \<le> cells \<and>
        (q \<noteq> PRODUCTION \<longrightarrow>
          (\<exists>s. py_upper (py_strip s) = profile_value q \<and>
             (env = Some s \<or> (\<exists>d sec. toml = Some (Inr d) \<and> map_of d ''safety'' = Some (JObj sec) \<and>
                map_of sec ''operational_profile'' = Some (JStr s))))))"
proof -
  have "toml \<noteq> None \<or> env \<noteq> None" if "load_safety_config toml env = Inl err" for err
  proof (rule ccontr)
    assume "\<not> (toml \<noteq> None \<or> env \<noteq> None)"
    then have "toml = None" "env = None" by simp_all
    with that show False by (simp add: load_safety_config_def DEFAULT_BATTERY_CELLS_def Let_def)
  qed
  then show ?thesis
    using policies_ok load_safety_config_cases[of toml env] by (simp split: sum.splits)
qed

section \<open>A launch, end to end\<close>

definition example_hash :: "json \<Rightarrow> string" where
  "example_hash v = ''ab12''"

definition example_drone :: telemetry where
  "example_drone =
     \<lparr>tl_connected = True, tl_armed = False, tl_latency_ms = Some 20, tl_stable_since = Some 0,
      tl_fix_type = Some (FixName ''RTK_FIXED''), tl_battery_percent = Some 97,
      tl_battery_voltage = Some (168 / 10), tl_cells = Some [42 / 10, 42 / 10], tl_armable = True,
      tl_home_ok = True, tl_flight_mode = Some ''HOLD'', tl_mission_hash = Some ''ab12'',
      tl_local = (0, 0), tl_fleet = (0, 0, 0)\<rparr>"

definition example_view :: manager_view where
  "example_view = \<lparr>mv_telemetry = [(0, example_drone)], mv_expected = 1,
     mv_trajectory = Some [(KInt 0, [JInt 1])], mv_geofence = 30\<rparr>"

definition quiet_log :: audit_log where
  "quiet_log = al_init False 200 False
     \<lparr>wall_clock = \<lambda>_. 0, context_result = \<lambda>_. None, write_ok = \<lambda>_. True\<rparr>"

definition example_ops :: "pf_op list" where
  "example_ops = [OpRequestLatch (\<lambda>_. 20) ''tok'' ''op'', OpConfirmLatch (\<lambda>_. 21) ''tok'' ''op'' JNull]"

definition example_start :: "profile \<Rightarrow> engine" where
  "example_start p = engine_init p 4 quiet_log CONFIRM_WINDOW_S HOLD_S"

lemma en_record_quiet:
  assumes "\<not> al_has_path (en_audit s)"
  shows "\<exists>l. \<not> al_has_path l \<and> en_record e f s = (Inr (), s\<lparr>en_audit := l\<rparr>)"
proof -
  obtain r l where al: "al_record e ((''profile'', JStr (profile_value (en_profile s))) # f) (en_audit s)
    = (r, l)" by force
  then have "r = Inr () \<and> \<not> al_has_path l"
    using assms by (auto simp: al_record_def Let_def)
  then show ?thesis using al by (auto simp: en_record_def)
qed

lemma example_checks:
  "\<forall>(r, passed, detail) \<in> set (drone_checks example_hash (POLICIES p) 4 0 example_drone
     (mv_trajectory example_view) 30 (positions_of (mv_telemetry example_view)) 30). passed"
proof -
  have rtk: "6 \<le> gnss_fix_level (Some (FixName ''RTK_FIXED''))"
    by (simp add: GNSS_FIX_TYPES_def after_last_dot_def py_upper_def Let_def)
  have "po_min_fix (POLICIES p) \<le> 6" "po_min_battery (POLICIES p) \<le> 97"
    "po_min_cell_v (POLICIES p) \<le> 42 / 10" "0 < po_max_cell_delta (POLICIES p)"
    "20 < po_max_latency (POLICIES p)" "po_heartbeat_window (POLICIES p) \<le> 30"
    by (cases p; simp add: policy_defaults_def)+
  then show ?thesis
    using rtk
    by (simp add: drone_checks_def check_latency_def check_heartbeat_def check_fix_def check_soc_def
        check_cell_voltage_def check_cell_balance_def check_ekf_def check_trajectory_def check_pad_def
        example_drone_def example_view_def cell_voltage_def reported_cells_def or_zero_def Let_def
        slot_waypoints_def trajectory_hash_def example_hash_def nearest_other_def positions_of_def
        after_last_dot_def del: gnss_fix_level.simps POLICIES.simps)
qed

definition example_active :: activation where
  "example_active = \<lparr>ac_operator = ''op'', ac_confirmed_at = 21, ac_expires_at = 141, ac_rules = {},
     ac_reason = []\<rparr>"

lemma example_confirmed:
  "\<exists>l. \<not> al_has_path l \<and> run_ops (pf_step jhash) example_ops (example_start p) =
     (example_start p)\<lparr>en_audit := l, en_active := [(K_LATCH, example_active)]\<rparr>"
proof -
  let ?s0 = "example_start p"
  let ?pend = "\<lparr>pe_token = ''tok'', pe_operator = ''op'', pe_expires_at = 50, pe_rules = {}, pe_reason = []\<rparr>"
  let ?s1 = "?s0\<lparr>en_pending := [(K_LATCH, ?pend)]\<rparr>"
  obtain l1 where l1: "\<not> al_has_path l1" and rec1: "en_record ''latch_requested''
      [(''operator'', JStr ''op''), (''rules'', sorted_json {}), (''reason'', JStr [])] ?s1 =
      (Inr (), ?s1\<lparr>en_audit := l1\<rparr>)"
    using en_record_quiet[of ?s1] by (auto simp: example_start_def engine_init_def quiet_log_def al_init_def)
  have 1: "pf_step jhash (OpRequestLatch (\<lambda>_. 20) ''tok'' ''op'') ?s0 = ?s1\<lparr>en_audit := l1\<rparr>"
    using rec1 by (simp add: pf_step_def request_latch_def en_request_def expire_def sx_defs
        example_start_def engine_init_def CONFIRM_WINDOW_S_def)
  let ?s2 = "?s0\<lparr>en_audit := l1, en_active := [(K_LATCH, example_active)]\<rparr>"
  obtain l2 where l2: "\<not> al_has_path l2" and rec2: "en_record ''latch_confirmed''
      [(''operator'', JStr ''op''), (''requested_by'', JStr ''op''), (''rules'', sorted_json {}),
       (''reason'', JStr []), (''gates'', JNull)] ?s2 = (Inr (), ?s2\<lparr>en_audit := l2\<rparr>)"
    using en_record_quiet[of ?s2] l1 by auto
  have 2: "pf_step jhash (OpConfirmLatch (\<lambda>_. 21) ''tok'' ''op'' JNull) (?s1\<lparr>en_audit := l1\<rparr>) =
      ?s2\<lparr>en_audit := l2\<rparr>"
    using rec2 by (simp add: pf_step_def confirm_latch_def en_confirm_def expire_def sx_defs
        expire_pending_def expire_active_def token_matches_def is_ascii_def confirm_accept_def
        example_start_def engine_init_def HOLD_S_def example_active_def)
  show ?thesis using 1 2 l2 by (auto simp: example_ops_def)
qed

lemma example_authorized:
  "\<exists>d s'. authorize_launch example_hash (\<lambda>_. 30) 0 example_view ''op''
     (run_ops (pf_step jhash) example_ops (example_start p)) = (Inr d, s') \<and> de_permitted d"
proof -
  obtain l where l: "\<not> al_has_path l" and s: "run_ops (pf_step jhash) example_ops (example_start p) =
      (example_start p)\<lparr>en_audit := l, en_active := [(K_LATCH, example_active)]\<rparr>"
    using example_confirmed by blast
  let ?s = "(example_start p)\<lparr>en_audit := l, en_active := [(K_LATCH, example_active)]\<rparr>"
  have pol: "en_policy ?s = POLICIES p" "en_cells ?s = 4" "en_pending ?s = []"
    by (simp_all add: example_start_def engine_init_def)
  have expire: "expire 30 ?s = (Inr (), ?s)"
    using pol by (simp add: expire_def sx_defs expire_active_def example_active_def)
  have block: "blocking_lines (POLICIES p) (drone_reports example_hash (POLICIES p) 4 example_view {} 30)
      (fleet_gates (POLICIES p) example_view (Some example_active) {} 30) = []"
  proof -
    have "failed_gates (map (gate_of (POLICIES p) {}) (drone_checks example_hash (POLICIES p) 4 0
        example_drone (mv_trajectory example_view) 30 (positions_of (mv_telemetry example_view)) 30)) = []"
      using example_checks unfolding failed_gates_map by blast
    then have "\<forall>d \<in> set (drone_reports example_hash (POLICIES p) 4 example_view {} 30).
        failed_gates (dr_gates d) = []" and
      "\<exists>d. d \<in> set (drone_reports example_hash (POLICIES p) 4 example_view {} 30)"
      by (simp_all add: drone_reports_def example_view_def sorted_telemetry_def Let_def)
    moreover have "failed_gates (fleet_gates (POLICIES p) example_view (Some example_active) {} 30) = []"
      by (simp add: fleet_gates_def failed_gates_def gate_fails Let_def example_view_def example_drone_def
          del: POLICIES.simps)
    ultimately show ?thesis unfolding blocking_Nil using drone_reports_ready by blast
  qed
  let ?mk = "assemble example_hash ?s example_view {} 30 0"
  have over: "overridden_rules 30 ?s = (Inr {}, ?s)"
    using expire by (simp add: overridden_rules_def sx_defs)
  obtain conf where "confirmation_state 30 30 ?s = (Inr conf, ?s)"
    using expire by (simp add: confirmation_state_def sx_defs)
  then have ev: "evaluate example_hash (\<lambda>_. 30) 0 example_view ?s = (Inr (?mk conf), ?s)"
    using expire over unfolding evaluate_def by (simp add: sx_defs)
  have perm: "rp_permitted (?mk conf)" unfolding assemble_sel pol using block by simp
  obtain l2 where "en_record ''launch_authorized''
      [(''operator'', JStr ''op''), (''drone_ids'', ids_json (rp_launch_ids (?mk conf))),
       (''excluded'', ids_json (rp_excluded_ids (?mk conf))), (''overridden_rules'', sorted_json {}),
       (''show_hash'', case rp_show_hash (?mk conf) of None \<Rightarrow> JNull | Some h \<Rightarrow> JStr h)] ?s =
      (Inr (), ?s\<lparr>en_audit := l2\<rparr>)"
    using en_record_quiet[of ?s] l by auto
  then show ?thesis
    unfolding s authorize_launch_def using ev perm over by (simp add: sx_defs)
qed

lemma example_keys: "dict_ok (mv_telemetry example_view)"
  by (simp add: example_view_def dict_ok_def)

theorem production_launch_is_safe_witness:
  "\<exists>d s'. authorize_launch example_hash (\<lambda>_. 30) 0 example_view ''op''
     (run_ops (pf_step example_hash) example_ops (example_start PRODUCTION)) = (Inr d, s') \<and>
     de_drone_ids d = [0] \<and> flight_ready example_hash example_view 30 0 example_drone"
proof -
  obtain d s' where d: "authorize_launch example_hash (\<lambda>_. 30) 0 example_view ''op''
     (run_ops (pf_step example_hash) example_ops (example_start PRODUCTION)) = (Inr d, s')"
    "de_permitted d" using example_authorized by blast
  have mem: "(0, example_drone) \<in> set (mv_telemetry example_view)"
    and keys: "sort (map fst (mv_telemetry example_view)) = [0]"
    by (simp_all add: example_view_def)
  show ?thesis
    using production_launch_is_safe [OF refl d(1)[unfolded example_start_def] d(2) example_keys] d(1)
      mem keys by fastforce
qed

theorem launched_drones_pass_witness:
  "\<exists>d s'. authorize_launch example_hash (\<lambda>_. 30) 0 example_view ''op''
     (run_ops (pf_step example_hash) example_ops (example_start ENGINEERING)) = (Inr d, s') \<and>
     de_drone_ids d \<noteq> []"
proof -
  obtain d s' where d: "authorize_launch example_hash (\<lambda>_. 30) 0 example_view ''op''
     (run_ops (pf_step example_hash) example_ops (example_start ENGINEERING)) = (Inr d, s')"
    "de_permitted d" using example_authorized by blast
  show ?thesis
    using launched_drones_pass [OF refl d(1)[unfolded example_start_def] d(2)] d(1) by blast
qed

theorem overrides_stay_overridable_witness:
  "\<exists>s'. overridden_rules 30 (run_ops (pf_step example_hash) [] (example_start FIELD_TEST)) = (Inr {}, s')"
proof -
  obtain rules s' where r: "overridden_rules 30
      (run_ops (pf_step example_hash) [] (example_start FIELD_TEST)) = (Inr rules, s')"
    by (simp add: overridden_rules_def expire_def sx_defs example_start_def engine_init_def)
  show ?thesis
    using overrides_stay_overridable [OF r[unfolded example_start_def]] r by auto
qed

theorem safety_config_fails_closed_witness:
  "load_safety_config None (Some ''simulation'') = Inr (SIMULATION, 4) \<and> (4 :: int) \<ge> 1"
proof -
  have "py_upper (py_strip ''simulation'') = ''SIMULATION''" by code_simp
  then have "load_safety_config None (Some ''simulation'') = Inr (SIMULATION, 4)"
    by (simp add: load_safety_config_def Let_def all_profiles_def DEFAULT_BATTERY_CELLS_def)
  then show ?thesis
    using safety_config_fails_closed [of SIMULATION None "Some ''simulation''"] by simp
qed

section \<open>The two-step protocol of the latch\<close>

text \<open>
  The contract of the latch, over what an operator does and is answered: the requests that
  can still be confirmed (token and deadline), and the deadlines of the confirmations no
  launch has used. A new request that is answered replaces the earlier ones; a confirmation
  needs the token of an open request before its deadline, and closes it; a launch needs an
  unused confirmation before its deadline, and uses up all of them. An operation that ends
  in an exception (the audit log cannot be written) may or may not have taken effect, so it
  only adds.
\<close>

type_synonym latch_ghost = "(string \<times> real) set \<times> real set"

fun latch_contract :: "real \<Rightarrow> real \<Rightarrow> pf_op \<Rightarrow> pf_out \<Rightarrow> latch_ghost \<Rightarrow> latch_ghost" where
  "latch_contract window hold (OpRequestLatch clk fresh opr) out (P, A) =
     (case out of
        OutRequest (Inr _) \<Rightarrow> ({(fresh, clk 1 + window)}, A)
      | _ \<Rightarrow> (insert (fresh, clk 1 + window) P, A))"
| "latch_contract window hold (OpConfirmLatch clk tok opr gates) out (P, A) =
     (if \<exists>(t, d) \<in> P. t = tok \<and> clk 0 \<le> d then
        (case out of
           OutConfirm (Inr _) \<Rightarrow> ({x \<in> P. fst x \<noteq> tok}, {clk 1 + hold})
         | _ \<Rightarrow> (P, insert (clk 1 + hold) A))
      else (P, A))"
| "latch_contract window hold (OpAuthorize clk wall mv opr) out (P, A) =
     (case out of
        OutDecision (Inr d) \<Rightarrow> (P, if de_permitted d then {} else A)
      | _ \<Rightarrow> (P, A))"
| "latch_contract window hold op out (P, A) = (P, A)"

fun launch_allowed :: "pf_op \<Rightarrow> pf_out \<Rightarrow> latch_ghost \<Rightarrow> bool" where
  "launch_allowed (OpAuthorize clk wall mv opr) (OutDecision (Inr d)) (P, A) =
     (de_permitted d \<longrightarrow> (\<exists>e \<in> A. clk 0 \<le> e \<and> clk 1 \<le> e))"
| "launch_allowed op out g = True"

fun follows_contract :: "(json \<Rightarrow> string) \<Rightarrow> pf_op list \<Rightarrow> engine \<Rightarrow> latch_ghost \<Rightarrow> bool" where
  "follows_contract jhash [] s g = True"
| "follows_contract jhash (x # xs) s g =
     (case pf_do jhash x s of (out, s') \<Rightarrow>
        launch_allowed x out g \<and>
        follows_contract jhash xs s' (latch_contract (en_window s) (en_hold s) x out g))"

definition latch_sim :: "real \<Rightarrow> real \<Rightarrow> latch_ghost \<Rightarrow> engine \<Rightarrow> bool" where
  "latch_sim window hold g s \<longleftrightarrow> en_window s = window \<and> en_hold s = hold \<and> pf_inv PRODUCTION s \<and>
     (\<forall>p. (K_LATCH, p) \<in> set (en_pending s) \<longrightarrow> (pe_token p, pe_expires_at p) \<in> fst g) \<and>
     (\<forall>a. (K_LATCH, a) \<in> set (en_active s) \<longrightarrow> ac_expires_at a \<in> snd g)"

lemma latch_sim_audit: "audit_free (latch_sim w h g)"
  by (simp add: audit_free_def latch_sim_def pf_inv_def)

lemma latch_sim_pop:
  "latch_sim w h g s \<Longrightarrow> latch_sim w h g (s\<lparr>en_pending := dpop k (en_pending s)\<rparr>)"
  "latch_sim w h g s \<Longrightarrow> latch_sim w h g (s\<lparr>en_active := dpop k (en_active s)\<rparr>)"
  unfolding latch_sim_def using pf_inv_pop by (auto simp: dpop_filter)

lemma latch_sim_set_pending:
  assumes "latch_sim w h g s" and "pe_rules p = {}"
    and "k = K_LATCH \<Longrightarrow> (pe_token p, pe_expires_at p) \<in> fst g"
  shows "latch_sim w h g (s\<lparr>en_pending := dset k p (en_pending s)\<rparr>)"
  using assms pf_inv_set(1)[of PRODUCTION s p k] unfolding latch_sim_def
  by (auto dest!: dset_mem)

lemma latch_sim_set_active:
  assumes "latch_sim w h g s" and "ac_rules a = {}" and "k = K_LATCH \<Longrightarrow> ac_expires_at a \<in> snd g"
  shows "latch_sim w h g (s\<lparr>en_active := dset k a (en_active s)\<rparr>)"
  using assms pf_inv_set(2)[of PRODUCTION s a k] unfolding latch_sim_def
  by (auto dest!: dset_mem)

lemma latch_sim_mono: "latch_sim w h (P, A) s \<Longrightarrow> P \<subseteq> P' \<Longrightarrow> A \<subseteq> A' \<Longrightarrow> latch_sim w h (P', A') s"
  by (auto simp: latch_sim_def)

lemma latch_sim_expire: "sx_keeps (latch_sim w h g) (expire now)"
  by (intro expire_keeps latch_sim_audit latch_sim_pop)

lemma latch_sim_record: "sx_keeps (latch_sim w h g) (en_record e f)"
  by (intro en_record_keeps latch_sim_audit)

lemma latch_sim_overridden: "sx_keeps (latch_sim w h g) (overridden_rules t)"
  unfolding overridden_rules_def by (intro sx_rules latch_sim_expire)

lemma latch_sim_state: "sx_keeps (latch_sim w h g) (confirmation_state t now)"
  unfolding confirmation_state_def by (intro sx_rules latch_sim_expire)

lemma latch_sim_evaluate: "sx_keeps (latch_sim w h g) (evaluate jhash clk wall mv)"
  unfolding evaluate_def by (intro sx_rules latch_sim_expire latch_sim_overridden latch_sim_state)

lemma latch_sim_window: "latch_sim w h g s \<Longrightarrow> en_window s = w \<and> en_hold s = h"
  by (simp add: latch_sim_def)

text \<open>A request of the latch.\<close>

lemma latch_sim_request:
  assumes "latch_sim w h (P, A) s" and "request_latch clk fresh opr s = (r, s')"
  shows "latch_sim w h (insert (fresh, clk 1 + w) P, A) s'"
    and "\<not> isl r \<Longrightarrow> latch_sim w h ({(fresh, clk 1 + w)}, A) s'"
proof -
  let ?set = "sx_modify (\<lambda>s. s\<lparr>en_pending := dset K_LATCH
      \<lparr>pe_token = fresh, pe_operator = opr, pe_expires_at = clk 1 + en_window s,
       pe_rules = {}, pe_reason = []\<rparr> (en_pending s)\<rparr>) :: unit en"
  obtain r1 s1 where e: "expire (clk 0) s = (r1, s1)" by force
  have sim1: "latch_sim w h (P, A) s1" using sx_keepsD[OF latch_sim_expire assms(1), of "clk 0"] e by simp
  have all: "sx_keeps (latch_sim w h (insert (fresh, clk 1 + w) P, A)) (request_latch clk fresh opr)"
    unfolding request_latch_def en_request_def
    by (intro sx_rules latch_sim_expire latch_sim_record sx_keeps_modify latch_sim_set_pending)
      (auto dest: latch_sim_window)
  have "latch_sim w h (insert (fresh, clk 1 + w) P, A) s"
    using assms(1) by (rule latch_sim_mono) auto
  from sx_keepsD[OF all this] show "latch_sim w h (insert (fresh, clk 1 + w) P, A) s'"
    using assms(2) by simp
  assume "\<not> isl r"
  then obtain u where r1: "r1 = Inr u"
    using assms(2) e by (cases r1) (auto simp: request_latch_def en_request_def sx_then_def sx_bind_def)
  let ?p = "\<lparr>pe_token = fresh, pe_operator = opr, pe_expires_at = clk 1 + w, pe_rules = {}, pe_reason = []\<rparr>"
  let ?s2 = "s1\<lparr>en_pending := dset K_LATCH ?p (en_pending s1)\<rparr>"
  have "latch_sim w h ({(fresh, clk 1 + w)}, A) ?s2"
  proof -
    have inv: "pf_inv PRODUCTION ?s2" using sim1 by (intro pf_inv_set) (simp_all add: latch_sim_def)
    have only: "pe_token p = fresh \<and> pe_expires_at p = clk 1 + w"
      if "(K_LATCH, p) \<in> set (dset K_LATCH ?p (en_pending s1))" for p
    proof -
      have "dict_ok (dset K_LATCH ?p (en_pending s1))" using inv by (simp add: pf_inv_def)
      then have "map_of (dset K_LATCH ?p (en_pending s1)) K_LATCH = Some p"
        using that by (simp only: dict_ok_mem)
      then show ?thesis by (auto simp: map_of_dset)
    qed
    have "en_window ?s2 = w \<and> en_hold ?s2 = h" using sim1 by (simp add: latch_sim_def)
    moreover have "\<forall>a. (K_LATCH, a) \<in> set (en_active ?s2) \<longrightarrow> ac_expires_at a \<in> A"
      using sim1 by (simp add: latch_sim_def)
    moreover have "\<forall>p. (K_LATCH, p) \<in> set (en_pending ?s2) \<longrightarrow>
        (pe_token p, pe_expires_at p) \<in> {(fresh, clk 1 + w)}"
    proof (intro allI impI)
      fix p assume "(K_LATCH, p) \<in> set (en_pending ?s2)"
      then have "(K_LATCH, p) \<in> set (dset K_LATCH ?p (en_pending s1))" by simp
      from only[OF this] show "(pe_token p, pe_expires_at p) \<in> {(fresh, clk 1 + w)}" by simp
    qed
    ultimately show ?thesis using inv unfolding latch_sim_def fst_conv snd_conv by blast
  qed
  moreover obtain l where "s' = ?s2\<lparr>en_audit := l\<rparr>"
  proof -
    obtain r3 s3 where rec: "en_record (kind_name K_LATCH @ ''_requested'')
        [(''operator'', JStr opr), (''rules'', sorted_json {}), (''reason'', JStr [])] ?s2 = (r3, s3)"
      by force
    then obtain l where "s3 = ?s2\<lparr>en_audit := l\<rparr>" using en_record_frame by blast
    moreover have "s' = s3"
      using assms(2) e r1 rec latch_sim_window[OF sim1]
      by (auto simp: request_latch_def en_request_def sx_defs split: sum.splits)
    ultimately show thesis using that by blast
  qed
  ultimately show "latch_sim w h ({(fresh, clk 1 + w)}, A) s'"
    using latch_sim_audit unfolding audit_free_def by blast
qed

text \<open>A confirmation of the latch.\<close>

lemma confirm_latch_cases:
  assumes "latch_sim w h (P, A) s" and "confirm_latch clk tok opr gates s = (r, s')"
  shows "(isl r \<and> latch_sim w h (P, A) s') \<or>
    (\<exists>s1 p. latch_sim w h (P, A) s1 \<and> (K_LATCH, p) \<in> set (en_pending s1) \<and> clk 0 \<le> pe_expires_at p \<and>
       pe_token p = tok \<and> pe_rules p = {} \<and> confirm_accept clk K_LATCH p opr gates s1 = (r, s'))"
proof -
  obtain r1 s1 where e: "expire (clk 0) s = (r1, s1)" by force
  have sim1: "latch_sim w h (P, A) s1" using sx_keepsD[OF latch_sim_expire assms(1), of "clk 0"] e by simp
  have reject: "isl r \<and> latch_sim w h (P, A) s'" if "confirm_reject K_LATCH opr s1 = (r, s')"
  proof -
    have "sx_keeps (latch_sim w h (P, A)) (confirm_reject K_LATCH opr)"
      unfolding confirm_reject_def by (intro sx_rules latch_sim_record)
    from sx_keepsD[OF this sim1] that show ?thesis
      by (auto simp: confirm_reject_def sx_defs split: sum.splits prod.splits)
  qed
  show ?thesis
  proof (cases r1)
    case (Inl err)
    then show ?thesis
      using assms(2) e sim1 by (auto simp: confirm_latch_def en_confirm_def sx_defs)
  next
    case (Inr u)
    have run: "(case map_of (en_pending s1) K_LATCH of
         None \<Rightarrow> confirm_reject K_LATCH opr
       | Some p \<Rightarrow> sx_bind (token_matches (pe_token p) tok) (\<lambda>ok.
           if ok then confirm_accept clk K_LATCH p opr gates else confirm_reject K_LATCH opr)) s1 = (r, s')"
      using assms(2) e Inr by (simp add: confirm_latch_def en_confirm_def sx_defs)
    show ?thesis
    proof (cases "map_of (en_pending s1) K_LATCH")
      case None
      then show ?thesis using run reject by simp
    next
      case (Some p)
      have mem: "(K_LATCH, p) \<in> set (en_pending s1)" using Some by (rule map_of_SomeD)
      have "en_pending s1 = filter (\<lambda>kv. clk 0 \<le> pe_expires_at (snd kv)) (en_pending s)"
        using expire_Inr(1)[OF e[unfolded Inr]] assms(1) by (simp add: latch_sim_def pf_inv_def)
      then have alive: "clk 0 \<le> pe_expires_at p" using mem by auto
      have rules: "pe_rules p = {}"
        using mem sim1 production_overridable by (fastforce simp: latch_sim_def pf_inv_def)
      show ?thesis
      proof (cases "is_ascii (pe_token p) \<and> is_ascii tok")
        case False
        then show ?thesis using run Some sim1 by (auto simp: token_matches_def sx_defs)
      next
        case True
        then show ?thesis
          using run Some sim1 reject mem alive rules
          by (cases "pe_token p = tok") (auto simp: token_matches_def sx_defs)
      qed
    qed
  qed
qed

lemma latch_sim_accept:
  assumes "latch_sim w h (P, A) s" and "confirm_accept clk K_LATCH p opr gates s = (r, s')"
    and "pe_rules p = {}"
  shows "latch_sim w h ({}, {clk 1 + h}) s'"
proof -
  let ?a = "\<lparr>ac_operator = opr, ac_confirmed_at = clk 1, ac_expires_at = clk 1 + h,
      ac_rules = {}, ac_reason = pe_reason p\<rparr>"
  let ?s2 = "s\<lparr>en_pending := dpop K_LATCH (en_pending s), en_active := dset K_LATCH ?a (en_active s)\<rparr>"
  have inv: "pf_inv PRODUCTION ?s2"
    using assms(1) pf_inv_set(2)[of PRODUCTION "s\<lparr>en_pending := dpop K_LATCH (en_pending s)\<rparr>" ?a K_LATCH]
      pf_inv_pop(1)[of PRODUCTION s K_LATCH] by (simp add: latch_sim_def)
  have only: "ac_expires_at a = clk 1 + h" if "(K_LATCH, a) \<in> set (dset K_LATCH ?a (en_active s))" for a
  proof -
    have "dict_ok (dset K_LATCH ?a (en_active s))" using inv by (simp add: pf_inv_def)
    then have "map_of (dset K_LATCH ?a (en_active s)) K_LATCH = Some a"
      using that by (simp only: dict_ok_mem)
    then show ?thesis by (auto simp: map_of_dset)
  qed
  have "\<forall>a. (K_LATCH, a) \<in> set (en_active ?s2) \<longrightarrow> ac_expires_at a \<in> {clk 1 + h}"
    using only by simp
  moreover have "\<forall>p. (K_LATCH, p) \<in> set (en_pending ?s2) \<longrightarrow> (pe_token p, pe_expires_at p) \<in> {}"
    by (simp add: dpop_filter)
  moreover have "en_window ?s2 = w \<and> en_hold ?s2 = h" using assms(1) by (simp add: latch_sim_def)
  ultimately have sim2: "latch_sim w h ({}, {clk 1 + h}) ?s2"
    using inv unfolding latch_sim_def fst_conv snd_conv by blast
  have "\<exists>r3 l. en_record (kind_name K_LATCH @ ''_confirmed'')
        [(''operator'', JStr opr), (''requested_by'', JStr (pe_operator p)),
         (''rules'', sorted_json (pe_rules p)), (''reason'', JStr (pe_reason p)),
         (''gates'', gates)] ?s2 = (r3, ?s2\<lparr>en_audit := l\<rparr>)"
    using en_record_frame by (metis surj_pair)
  then obtain r3 l where rec: "en_record (kind_name K_LATCH @ ''_confirmed'')
        [(''operator'', JStr opr), (''requested_by'', JStr (pe_operator p)),
         (''rules'', sorted_json (pe_rules p)), (''reason'', JStr (pe_reason p)),
         (''gates'', gates)] ?s2 = (r3, ?s2\<lparr>en_audit := l\<rparr>)" by blast
  then have "s' = ?s2\<lparr>en_audit := l\<rparr>"
    using assms(2,3) latch_sim_window[OF assms(1)]
    by (auto simp: confirm_accept_def sx_defs split: sum.splits)
  then show ?thesis using sim2 latch_sim_audit unfolding audit_free_def by blast
qed

lemma latch_sim_confirm:
  assumes "latch_sim w h (P, A) s" and "confirm_latch clk tok opr gates s = (r, s')"
  shows "latch_sim w h (latch_contract w h (OpConfirmLatch clk tok opr gates) (OutConfirm r) (P, A)) s'"
  using confirm_latch_cases[OF assms]
proof (elim disjE exE conjE)
  assume "isl r" and sim: "latch_sim w h (P, A) s'"
  then obtain e where "r = Inl e" by (cases r) auto
  then show ?thesis using sim latch_sim_mono[OF sim subset_refl subset_insertI] by auto
next
  fix s1 p
  assume sim: "latch_sim w h (P, A) s1" and mem: "(K_LATCH, p) \<in> set (en_pending s1)"
    and alive: "clk 0 \<le> pe_expires_at p" and tok: "pe_token p = tok" and rules: "pe_rules p = {}"
    and acc: "confirm_accept clk K_LATCH p opr gates s1 = (r, s')"
  have "(tok, pe_expires_at p) \<in> P" using sim mem tok by (auto simp: latch_sim_def)
  then have open_request: "\<exists>(t, d) \<in> P. t = tok \<and> clk 0 \<le> d" using alive by blast
  have sim': "latch_sim w h ({}, {clk 1 + h}) s'" using latch_sim_accept[OF sim acc rules] .
  show ?thesis
    using open_request latch_sim_mono[OF sim'] by (auto split: sum.splits)
qed

lemma latch_sim_request_override:
  "sx_keeps (latch_sim w h g) (request_override clk fresh rules reason opr)"
proof -
  have "sx_keeps (latch_sim w h g) (if refused \<noteq> [] then sx_then (en_record e f) (sx_throw err)
      else en_request clk fresh K_OVERRIDE opr (set rules) r)"
    if "set rules \<noteq> {}" "latch_sim w h g s"
      "sorted_list_of_set (set rules - po_overridable (en_policy s)) = refused"
    for refused s e f err r
  proof -
    have "po_overridable (en_policy s) = {}"
      using that(2) production_overridable by (simp add: latch_sim_def pf_inv_def)
    then have "refused \<noteq> []" using that(1,3) by auto
    then show ?thesis by (simp add: sx_keeps_then latch_sim_record sx_keeps_throw)
  qed
  note body = this
  show ?thesis
    unfolding request_override_def
    by (rule sx_keeps_if, rule sx_keeps_throw, rule sx_keeps_if, rule sx_keeps_throw,
        rule sx_keeps_get_bind, rule body)
qed

lemma latch_sim_confirm_override: "sx_keeps (latch_sim w h g) (confirm_override clk tok opr)"
proof -
  have reject: "sx_keeps (latch_sim w h g) (confirm_reject K_OVERRIDE opr)"
    unfolding confirm_reject_def by (intro sx_rules latch_sim_record)
  have accept: "sx_keeps (latch_sim w h g) (confirm_accept clk K_OVERRIDE p opr JNull)"
    if "pe_rules p = {}" for p
    unfolding confirm_accept_def
    by (intro sx_rules latch_sim_record sx_keeps_modify latch_sim_set_active latch_sim_pop)
      (simp_all add: that)
  show ?thesis
    unfolding confirm_override_def en_confirm_def
  proof (intro sx_keeps_then latch_sim_expire sx_keeps_get_bind)
    fix a s assume sim: "latch_sim w h g s" and a: "map_of (en_pending s) K_OVERRIDE = a"
    have "pe_rules p = {}" if "a = Some p" for p
      using that a sim map_of_SomeD[of "en_pending s" K_OVERRIDE p] production_overridable
      unfolding latch_sim_def pf_inv_def by fastforce
    then show "sx_keeps (latch_sim w h g) (case a of None \<Rightarrow> confirm_reject K_OVERRIDE opr
      | Some p \<Rightarrow> sx_bind (token_matches (pe_token p) tok) (\<lambda>ok.
          if ok then confirm_accept clk K_OVERRIDE p opr JNull else confirm_reject K_OVERRIDE opr))"
      unfolding token_matches_def
      by (auto split: option.splits intro!: sx_rules reject accept)
  qed
qed

text \<open>A launch.\<close>

lemma latch_sim_authorize:
  assumes "latch_sim w h (P, A) s" and "authorize_launch jhash clk wall mv opr s = (r, s')"
  shows "launch_allowed (OpAuthorize clk wall mv opr) (OutDecision r) (P, A)"
    and "latch_sim w h (latch_contract w h (OpAuthorize clk wall mv opr) (OutDecision r) (P, A)) s'"
proof -
  have pop: "latch_sim w h (P, A) s \<Longrightarrow> latch_sim w h (P, A)
      (s\<lparr>en_active := dpop K_OVERRIDE (dpop K_LATCH (en_active s))\<rparr>)" for s
    unfolding latch_sim_def pf_inv_def by (auto simp: dpop_filter)
  have "sx_keeps (latch_sim w h (P, A)) (authorize_launch jhash clk wall mv opr)"
    unfolding authorize_launch_def
    by (intro sx_rules latch_sim_evaluate latch_sim_overridden latch_sim_record sx_keeps_modify pop)
  from sx_keepsD[OF this assms(1)] have keep: "latch_sim w h (P, A) s'" using assms(2) by simp
  have inv: "pf_inv PRODUCTION s" using assms(1) by (simp add: latch_sim_def)
  have launch: "(\<exists>e \<in> A. clk 0 \<le> e \<and> clk 1 \<le> e) \<and> latch_sim w h (P, {}) s'"
    if r: "r = Inr d" "de_permitted d" for d
  proof -
    have run: "authorize_launch jhash clk wall mv opr s = (Inr d, s')" using assms(2) r by simp
    obtain s2 conf where rep: "de_report d = assemble jhash s2 mv (override_of s2) (clk 2) wall conf"
      and perm: "rp_permitted (de_report d)" and inv2: "pf_inv PRODUCTION s2"
      and act: "en_active s2 = filter (\<lambda>ka. clk 0 \<le> ac_expires_at (snd ka) \<and>
        clk 1 \<le> ac_expires_at (snd ka)) (en_active s)"
      and used: "map_of (en_active s') K_LATCH = None"
      by (rule authorize_permitted[OF run r(2) inv]) (rule that)
    have "failed_gates (fleet_gates (en_policy s2) mv (map_of (en_active s2) K_LATCH)
        (override_of s2) (clk 2)) = []"
      using perm unfolding rep assemble_sel blocking_Nil by blast
    moreover have "severity (en_policy s2) ''operator_latch'' = BLOCKING" "override_of s2 = {}"
      using inv2 severity_production[unfolded rule_ids] override_bound[OF inv2] production_overridable
      by (simp_all add: pf_inv_def del: POLICIES.simps)
    ultimately obtain a where "map_of (en_active s2) K_LATCH = Some a"
      by (auto simp: fleet_gates_def Let_def failed_gates_def gate_fails split: if_splits)
    then have "(K_LATCH, a) \<in> set (en_active s2)" by (rule map_of_SomeD)
    then have "ac_expires_at a \<in> A \<and> clk 0 \<le> ac_expires_at a \<and> clk 1 \<le> ac_expires_at a"
      using assms(1) unfolding act latch_sim_def by auto
    moreover have "\<forall>a. (K_LATCH, a) \<notin> set (en_active s')"
      using used by (auto simp: map_of_eq_None_iff image_iff)
    ultimately show ?thesis using keep by (auto simp: latch_sim_def)
  qed
  show "launch_allowed (OpAuthorize clk wall mv opr) (OutDecision r) (P, A)"
    using launch by (cases r) auto
  show "latch_sim w h (latch_contract w h (OpAuthorize clk wall mv opr) (OutDecision r) (P, A)) s'"
    using launch keep by (cases r) auto
qed

lemma latch_sim_step:
  assumes "latch_sim w h g s" and "pf_do jhash x s = (out, s')"
  shows "launch_allowed x out g \<and> latch_sim w h (latch_contract w h x out g) s'"
proof -
  obtain P A where g: "g = (P, A)" by force
  have keeps: "latch_sim w h (P, A) (snd (m s))" if "sx_keeps (latch_sim w h (P, A)) m" for m :: "'a en"
    using sx_keepsD[OF that] assms(1) g by simp
  show ?thesis
  proof (cases x)
    case (OpRequestLatch clk fresh opr)
    then obtain r where r: "request_latch clk fresh opr s = (r, s')" "out = OutRequest r"
      using assms(2) by (cases "request_latch clk fresh opr s") auto
    then show ?thesis
      using latch_sim_request[OF assms(1)[unfolded g] r(1)] OpRequestLatch g by (cases r) auto
  next
    case (OpConfirmLatch clk tok opr gates)
    then obtain r where r: "confirm_latch clk tok opr gates s = (r, s')" "out = OutConfirm r"
      using assms(2) by (cases "confirm_latch clk tok opr gates s") auto
    then show ?thesis
      using latch_sim_confirm[OF assms(1)[unfolded g] r(1)] OpConfirmLatch g by simp
  next
    case (OpAuthorize clk wall mv opr)
    then obtain r where r: "authorize_launch jhash clk wall mv opr s = (r, s')" "out = OutDecision r"
      using assms(2) by (cases "authorize_launch jhash clk wall mv opr s") auto
    then show ?thesis
      using latch_sim_authorize[OF assms(1)[unfolded g] r(1)] OpAuthorize g by simp
  next
    case (OpRequestOverride clk fresh rules reason opr)
    then have "s' = snd (request_override clk fresh rules reason opr s)"
      using assms(2) by (cases "request_override clk fresh rules reason opr s") auto
    then show ?thesis
      using OpRequestOverride g sx_keepsD[OF latch_sim_request_override assms(1)[unfolded g]] by simp
  next
    case (OpConfirmOverride clk tok opr)
    then have "s' = snd (confirm_override clk tok opr s)"
      using assms(2) by (cases "confirm_override clk tok opr s") auto
    then show ?thesis
      using OpConfirmOverride g sx_keepsD[OF latch_sim_confirm_override assms(1)[unfolded g]] by simp
  next
    case (OpConfirmationState t now)
    then show ?thesis using assms(2) g sx_keepsD[OF latch_sim_state assms(1)[unfolded g]] by auto
  next
    case (OpOverridden t)
    then show ?thesis using assms(2) g sx_keepsD[OF latch_sim_overridden assms(1)[unfolded g]] by auto
  next
    case (OpEvaluate clk wall mv)
    then show ?thesis using assms(2) g sx_keepsD[OF latch_sim_evaluate assms(1)[unfolded g]] by auto
  next
    case OpObserver
    then show ?thesis
      using assms g latch_sim_audit unfolding audit_free_def by auto
  qed
qed

text \<open>C22. Two steps before every show launch, and no launch without its own: over any run of a
  PRODUCTION engine, a launch is permitted only on an unexpired confirmation that no earlier
  launch has used, and a confirmation takes effect only on the token of an open, unexpired
  request, even when writing the audit log fails at any point.\<close>

theorem production_latch_protocol:
  "follows_contract jhash ops (engine_init PRODUCTION cells alog window hold) ({}, {})"
proof -
  have "follows_contract jhash ops s g" if "latch_sim (en_window s) (en_hold s) g s" for s g
    using that
  proof (induction ops arbitrary: s g)
    case Nil
    show ?case by simp
  next
    case (Cons x xs)
    obtain out s' where do: "pf_do jhash x s = (out, s')" by force
    from latch_sim_step[OF Cons.prems do]
    have "launch_allowed x out g"
      and sim: "latch_sim (en_window s) (en_hold s) (latch_contract (en_window s) (en_hold s) x out g) s'"
      by blast+
    moreover have "en_window s' = en_window s" "en_hold s' = en_hold s"
      using latch_sim_window[OF sim] by simp_all
    ultimately show ?case using do Cons.IH[of s'] by simp
  qed
  moreover have "latch_sim window hold ({}, {}) (engine_init PRODUCTION cells alog window hold)"
    using pf_inv_init by (simp add: latch_sim_def) (simp add: engine_init_def)
  ultimately show ?thesis by (simp add: engine_init_def)
qed

end
