(* ===== verification/Auth.thy ===== *)
theory Auth
  imports Prelude "HOL-Library.Char_ord" "HOL-Library.List_Lexorder"
begin

text \<open>
  Operators, sessions and logins, \<^verbatim>\<open>packages/tara-gcs/tara_gcs/auth.py\<close>: roles, the operator
  store with its cache of the operators file, the session store, the login throttle and the
  service the API calls. A login is four calls on these (check the throttle, verify, settle the throttle,
  issue a session), and the endpoint runs in a thread pool, so the section on the thread pool runs the four
  apart, with the calls of other threads in between; each of them is one step. The parameters are scrypt (\<open>scrypt\<close>, which may raise) and the SHA-256
  of a token (\<open>sha\<close>). The operators file as it is when an operation looks at it, the clock
  readings, fresh tokens and salts are arguments.
\<close>

section \<open>Roles\<close>

datatype role = VIEWER | CHOREOGRAPHER | FLIGHT_COMMANDER

fun role_level :: "role \<Rightarrow> nat" where
  "role_level VIEWER = 1"
| "role_level CHOREOGRAPHER = 2"
| "role_level FLIGHT_COMMANDER = 3"

fun role_name :: "role \<Rightarrow> string" where
  "role_name VIEWER = ''VIEWER''"
| "role_name CHOREOGRAPHER = ''CHOREOGRAPHER''"
| "role_name FLIGHT_COMMANDER = ''FLIGHT_COMMANDER''"

lemma role_level_inj: "role_level a = role_level b \<Longrightarrow> a = b"
  by (cases a; cases b) simp_all

text \<open>\<^verbatim>\<open>Role\<close> is an \<^verbatim>\<open>IntEnum\<close>: roles compare by their levels.\<close>

instantiation role :: linorder
begin

definition less_eq_role :: "role \<Rightarrow> role \<Rightarrow> bool" where
  "less_eq_role a b \<longleftrightarrow> role_level a \<le> role_level b"

definition less_role :: "role \<Rightarrow> role \<Rightarrow> bool" where
  "less_role a b \<longleftrightarrow> role_level a < role_level b"

instance
  by standard (auto simp: less_eq_role_def less_role_def dest: role_level_inj)

end

definition all_roles :: "role list" where
  "all_roles = [VIEWER, CHOREOGRAPHER, FLIGHT_COMMANDER]"

definition parse_role :: "string \<Rightarrow> role option" where
  "parse_role v =
     find (\<lambda>r. role_name r = map (\<lambda>c. if c = CHR ''-'' then CHR ''_'' else c) (py_upper (py_strip v)))
       all_roles"

record operator =
  op_id :: string
  op_role :: role

datatype auth_error =
    NotLoggedIn
  | SessionInvalid
  | OperatorGone
  | BadCredentials
  | LoginThrottled int
  | InsecureFile nat
  | BadOperatorsFile
  | BadRole string
  | BadOperatorId
  | ShortPassphrase
  | OperatorExists string
  | WriteFailed
  | HashError
  | IndexError

section \<open>The operator store\<close>

record scrypt_params =
  sc_n :: nat
  sc_r :: nat
  sc_p :: nat
  sc_dklen :: nat

definition SCRYPT :: scrypt_params where
  "SCRYPT = \<lparr>sc_n = 2 ^ 14, sc_r = 8, sc_p = 1, sc_dklen = 32\<rparr>"

text \<open>
  A record of the operators file; \<^const>\<open>None\<close> is a salt or hash that is absent or not base64,
  and parameters that are absent.
\<close>

record op_record =
  rc_id :: string
  rc_role :: string
  rc_salt :: "bytes option"
  rc_hash :: "bytes option"
  rc_scrypt :: "scrypt_params option"

text \<open>
  The file on disk: its time and size, its permission bits, and its records in order,
  \<^const>\<open>None\<close> when it is not the JSON the store expects.
\<close>

record op_file =
  of_stamp :: "real \<times> nat"
  of_mode :: nat
  of_records :: "op_record list option"

record op_store =
  os_records :: "(string, op_record) dict"
  os_stamp :: "(real \<times> nat) option"

definition os_init :: op_store where
  "os_init = \<lparr>os_records = [], os_stamp = None\<rparr>"

definition decoy :: op_record where
  "decoy = \<lparr>rc_id = [], rc_role = [], rc_salt = Some (replicate 16 0),
     rc_hash = Some (replicate 32 0), rc_scrypt = Some SCRYPT\<rparr>"

definition check_owner_only :: "op_file \<Rightarrow> auth_error option" where
  "check_owner_only f = (if of_mode f mod 64 \<noteq> 0 then Some (InsecureFile (of_mode f)) else None)"

definition records_dict :: "op_record list \<Rightarrow> (string, op_record) dict" where
  "records_dict recs = foldl (\<lambda>d r. dset (rc_id r) r d) [] recs"

definition os_refresh :: "op_file option \<Rightarrow> (op_store, auth_error, unit) sx" where
  "os_refresh f s =
     (case f of
        None \<Rightarrow> (Inr (), s\<lparr>os_records := [], os_stamp := None\<rparr>)
      | Some f \<Rightarrow>
          if os_stamp s = Some (of_stamp f) then (Inr (), s)
          else case check_owner_only f of
            Some e \<Rightarrow> (Inl e, s)
          | None \<Rightarrow> (case of_records f of
              None \<Rightarrow> (Inl BadOperatorsFile, s)
            | Some recs \<Rightarrow> (case find (\<lambda>r. parse_role (rc_role r) = None) recs of
                Some r \<Rightarrow> (Inl (BadRole (rc_role r)), s)
              | None \<Rightarrow> (Inr (), s\<lparr>os_records := records_dict recs, os_stamp := Some (of_stamp f)\<rparr>))))"

definition operator_of :: "op_record \<Rightarrow> auth_error + operator" where
  "operator_of r =
     (case parse_role (rc_role r) of None \<Rightarrow> Inl (BadRole (rc_role r))
      | Some ro \<Rightarrow> Inr \<lparr>op_id = rc_id r, op_role = ro\<rparr>)"

definition sx_lift :: "'e + 'a \<Rightarrow> ('s, 'e, 'a) sx" where
  "sx_lift r s = (r, s)"

definition os_get :: "op_file option \<Rightarrow> string \<Rightarrow> (op_store, auth_error, operator option) sx" where
  "os_get f oid =
     sx_then (os_refresh f)
    (sx_bind (sx_get (\<lambda>s. map_of (os_records s) oid)) (\<lambda>r.
       case r of None \<Rightarrow> sx_return None
       | Some r \<Rightarrow> sx_bind (sx_lift (operator_of r)) (\<lambda>o1. sx_return (Some o1))))"

fun collect_operators :: "op_record list \<Rightarrow> auth_error + operator list" where
  "collect_operators [] = Inr []"
| "collect_operators (r # rs) =
     (case operator_of r of Inl e \<Rightarrow> Inl e
      | Inr o1 \<Rightarrow> (case collect_operators rs of Inl e \<Rightarrow> Inl e | Inr os \<Rightarrow> Inr (o1 # os)))"

definition os_all :: "op_file option \<Rightarrow> (op_store, auth_error, operator list) sx" where
  "os_all f =
     sx_then (os_refresh f)
    (sx_bind (sx_get (\<lambda>s. collect_operators (sort_key rc_id (map snd (os_records s))))) sx_lift)"

text \<open>\<^verbatim>\<open>len(s)\<close> counts characters: the bytes of the UTF-8 text that are not continuations.\<close>

definition py_len :: "string \<Rightarrow> nat" where
  "py_len s = length (filter (\<lambda>c. let k = of_char c :: nat in \<not> (128 \<le> k \<and> k < 192)) s)"

definition is_alnum :: "char \<Rightarrow> bool" where
  "is_alnum c = (let k = of_char c :: nat in
     (48 \<le> k \<and> k \<le> 57) \<or> (65 \<le> k \<and> k \<le> 90) \<or> (97 \<le> k \<and> k \<le> 122))"

definition plain_id :: "string \<Rightarrow> bool" where
  "plain_id s \<longleftrightarrow> (case s of [] \<Rightarrow> False
     | c # cs \<Rightarrow> is_alnum c \<and> length cs \<le> 63 \<and>
         list_all (\<lambda>c. is_alnum c \<or> c = CHR ''_'' \<or> c = CHR ''.'' \<or> c = CHR ''-'') cs)"

text \<open>
  \<^verbatim>\<open>re.match\<close> with a pattern that ends in \<^verbatim>\<open>$\<close>: it also matches before one newline at the end.
\<close>

definition operator_id_matches :: "string \<Rightarrow> bool" where
  "operator_id_matches s \<longleftrightarrow> plain_id s \<or> (s \<noteq> [] \<and> last s = CHR 0x0A \<and> plain_id (butlast s))"

definition MIN_PASSPHRASE_LEN :: nat where
  "MIN_PASSPHRASE_LEN = 12"

type_synonym scrypt_fun = "string \<Rightarrow> bytes \<Rightarrow> scrypt_params \<Rightarrow> bytes option"

text \<open>
  Writing the store: the new file, or an exception; the argument is the time and size the
  new file gets, \<^const>\<open>None\<close> when the file system refuses. The file is the second component
  of the state.
\<close>

type_synonym 'a os_fs = "(op_store \<times> op_file option, auth_error, 'a) sx"

definition os_write :: "(real \<times> nat) option \<Rightarrow> unit os_fs" where
  "os_write stamp = (\<lambda>(s, f).
     case stamp of
       None \<Rightarrow> (Inl WriteFailed, (s, f))
     | Some st \<Rightarrow> (Inr (), (s\<lparr>os_stamp := None\<rparr>,
         Some \<lparr>of_stamp = st, of_mode = 6 * 64,
               of_records = Some (sort_key rc_id (map snd (os_records s)))\<rparr>)))"

definition os_refresh_fs :: "unit os_fs" where
  "os_refresh_fs = (\<lambda>(s, f). case os_refresh f s of (r, s') \<Rightarrow> (r, (s', f)))"

definition os_add ::
  "scrypt_fun \<Rightarrow> bytes \<Rightarrow> (real \<times> nat) option \<Rightarrow> string \<Rightarrow> role \<Rightarrow> string \<Rightarrow> bool \<Rightarrow> operator os_fs"
where
  "os_add scrypt salt stamp oid ro pass replace =
     (if \<not> operator_id_matches oid then sx_throw BadOperatorId
      else if py_len pass < MIN_PASSPHRASE_LEN then sx_throw ShortPassphrase
      else sx_then os_refresh_fs
        (sx_bind (sx_get (\<lambda>(s, f). map_of (os_records s) oid)) (\<lambda>r.
           if r \<noteq> None \<and> \<not> replace then sx_throw (OperatorExists oid)
           else case scrypt pass salt SCRYPT of
             None \<Rightarrow> sx_throw HashError
           | Some h \<Rightarrow>
               sx_then (sx_modify (\<lambda>(s, f). (s\<lparr>os_records := dset oid
                   \<lparr>rc_id = oid, rc_role = role_name ro, rc_salt = Some salt, rc_hash = Some h,
                    rc_scrypt = Some SCRYPT\<rparr> (os_records s)\<rparr>, f)))
              (sx_then (os_write stamp) (sx_return \<lparr>op_id = oid, op_role = ro\<rparr>)))))"

definition os_remove :: "(real \<times> nat) option \<Rightarrow> string \<Rightarrow> bool os_fs" where
  "os_remove stamp oid =
     sx_then os_refresh_fs
    (sx_bind (sx_get (\<lambda>(s, f). map_of (os_records s) oid)) (\<lambda>r.
       if r = None then sx_return False
       else sx_then (sx_modify (\<lambda>(s, f). (s\<lparr>os_records := dpop oid (os_records s)\<rparr>, f)))
           (sx_then (os_write stamp) (sx_return True))))"

definition os_verify ::
  "scrypt_fun \<Rightarrow> op_file option \<Rightarrow> string \<Rightarrow> string \<Rightarrow> (op_store, auth_error, operator option) sx"
where
  "os_verify scrypt f oid pass =
     sx_then (os_refresh f)
    (sx_bind (sx_get (\<lambda>s. map_of (os_records s) oid)) (\<lambda>r.
       let target = (case r of None \<Rightarrow> decoy | Some r \<Rightarrow> r) in
       case (rc_salt target, rc_hash target) of
         (Some salt, Some h) \<Rightarrow>
           (case scrypt pass salt (case rc_scrypt target of None \<Rightarrow> SCRYPT | Some p \<Rightarrow> p) of
              None \<Rightarrow> sx_throw HashError
            | Some computed \<Rightarrow>
                (case r of
                   Some r \<Rightarrow>
                     if computed = h
                     then sx_bind (sx_lift (operator_of r)) (\<lambda>o1. sx_return (Some o1))
                     else sx_return None
                 | None \<Rightarrow> sx_return None))
       | _ \<Rightarrow> sx_throw BadOperatorsFile))"

section \<open>Sessions\<close>

definition DEFAULT_SESSION_TTL_S :: real where
  "DEFAULT_SESSION_TTL_S = 12 * 3600"

record session =
  se_operator :: string
  se_issued_at :: real
  se_expires_at :: real

record session_store =
  ss_ttl :: real
  ss_sessions :: "(string, session) dict"

definition ss_init :: "real \<Rightarrow> session_store" where
  "ss_init ttl = \<lparr>ss_ttl = ttl, ss_sessions = []\<rparr>"

definition ss_sweep :: "real \<Rightarrow> session_store \<Rightarrow> session_store" where
  "ss_sweep now s =
     s\<lparr>ss_sessions := foldl (\<lambda>d k. dpop k d) (ss_sessions s)
        (map fst (filter (\<lambda>(k, v). se_expires_at v \<le> now) (ss_sessions s)))\<rparr>"

definition ss_issue ::
  "(string \<Rightarrow> string) \<Rightarrow> string \<Rightarrow> real \<Rightarrow> operator \<Rightarrow> session_store \<Rightarrow> (string \<times> session) \<times> session_store"
where
  "ss_issue sha token now o1 s =
     (let s1 = ss_sweep now s;
          v = \<lparr>se_operator = op_id o1, se_issued_at = now, se_expires_at = now + ss_ttl s1\<rparr>
      in ((token, v), s1\<lparr>ss_sessions := dset (sha token) v (ss_sessions s1)\<rparr>))"

definition ss_resolve ::
  "(string \<Rightarrow> string) \<Rightarrow> string \<Rightarrow> real \<Rightarrow> session_store \<Rightarrow> session option \<times> session_store"
where
  "ss_resolve sha token now s =
     (case map_of (ss_sessions s) (sha token) of
        None \<Rightarrow> (None, s)
      | Some v \<Rightarrow>
          if se_expires_at v \<le> now then (None, s\<lparr>ss_sessions := dpop (sha token) (ss_sessions s)\<rparr>)
          else (Some v, s))"

definition ss_revoke :: "(string \<Rightarrow> string) \<Rightarrow> string \<Rightarrow> session_store \<Rightarrow> bool \<times> session_store" where
  "ss_revoke sha token s =
     (map_of (ss_sessions s) (sha token) \<noteq> None,
      s\<lparr>ss_sessions := dpop (sha token) (ss_sessions s)\<rparr>)"

definition ss_revoke_operator :: "string \<Rightarrow> session_store \<Rightarrow> nat \<times> session_store" where
  "ss_revoke_operator oid s =
     (let doomed = map fst (filter (\<lambda>(k, v). se_operator v = oid) (ss_sessions s)) in
      (length doomed, s\<lparr>ss_sessions := foldl (\<lambda>d k. dpop k d) (ss_sessions s) doomed\<rparr>))"

section \<open>The login throttle\<close>

record throttle =
  th_max :: nat
  th_window :: real
  th_failures :: "(string, real list) dict"

definition th_init :: "nat \<Rightarrow> real \<Rightarrow> throttle" where
  "th_init m w = \<lparr>th_max = m, th_window = w, th_failures = []\<rparr>"

definition th_queue :: "string \<Rightarrow> throttle \<Rightarrow> real list" where
  "th_queue origin t = (case map_of (th_failures t) origin of None \<Rightarrow> [] | Some q \<Rightarrow> q)"

definition th_recent :: "string \<Rightarrow> real \<Rightarrow> throttle \<Rightarrow> real list \<times> throttle" where
  "th_recent origin now t =
     (let q = dropWhile (\<lambda>x. th_window t < now - x) (th_queue origin t) in
      (q, t\<lparr>th_failures := dset origin q (th_failures t)\<rparr>))"

definition th_retry_after :: "string \<Rightarrow> real \<Rightarrow> throttle \<Rightarrow> (auth_error + real) \<times> throttle" where
  "th_retry_after origin now t =
     (case th_recent origin now t of (q, t') \<Rightarrow>
        if length q < th_max t then (Inr 0, t')
        else case q of
            [] \<Rightarrow> (Inl IndexError, t')
          | x # xs \<Rightarrow> (Inr (max 0 (th_window t - (now - x))), t'))"

definition th_failed :: "string \<Rightarrow> real \<Rightarrow> throttle \<Rightarrow> throttle" where
  "th_failed origin now t =
     (case th_recent origin now t of (q, t') \<Rightarrow>
        t'\<lparr>th_failures := dset origin (q @ [now]) (th_failures t')\<rparr>)"

definition th_succeeded :: "string \<Rightarrow> throttle \<Rightarrow> throttle" where
  "th_succeeded origin t = t\<lparr>th_failures := dpop origin (th_failures t)\<rparr>"

section \<open>The service\<close>

record auth_service =
  as_store :: op_store
  as_sessions :: session_store
  as_throttle :: throttle

definition as_init :: "real \<Rightarrow> nat \<Rightarrow> real \<Rightarrow> auth_service" where
  "as_init ttl m w = \<lparr>as_store = os_init, as_sessions = ss_init ttl, as_throttle = th_init m w\<rparr>"

text \<open>
  What a login meets: the file, the three clock readings (throttle, failure, session) and the
  fresh token.
\<close>

record login_world =
  lw_file :: "op_file option"
  lw_t0 :: real
  lw_t1 :: real
  lw_t2 :: real
  lw_token :: string

text \<open>The four calls of a login, each of which a thread makes in one go.\<close>

definition login_check :: "string \<Rightarrow> real \<Rightarrow> (auth_service, auth_error, unit) sx" where
  "login_check origin t0 = (\<lambda>s.
     (case th_retry_after origin t0 (as_throttle s) of
        (Inl e, t) \<Rightarrow> (Inl e, s\<lparr>as_throttle := t\<rparr>)
      | (Inr wait, t) \<Rightarrow>
          (if wait \<noteq> 0 then Inl (LoginThrottled (py_int wait + 1)) else Inr (), s\<lparr>as_throttle := t\<rparr>)))"

definition login_verify ::
  "scrypt_fun \<Rightarrow> op_file option \<Rightarrow> string \<Rightarrow> string \<Rightarrow> (auth_service, auth_error, operator option) sx"
where
  "login_verify scrypt f oid pass = (\<lambda>s.
     (case os_verify scrypt f oid pass (as_store s) of (r, st) \<Rightarrow> (r, s\<lparr>as_store := st\<rparr>)))"

definition login_settle :: "string \<Rightarrow> real \<Rightarrow> operator option \<Rightarrow> (auth_service, auth_error, operator) sx" where
  "login_settle origin t1 verdict = (\<lambda>s.
     (case verdict of
        None \<Rightarrow> (Inl BadCredentials, s\<lparr>as_throttle := th_failed origin t1 (as_throttle s)\<rparr>)
      | Some o1 \<Rightarrow> (Inr o1, s\<lparr>as_throttle := th_succeeded origin (as_throttle s)\<rparr>)))"

definition login_issue ::
  "(string \<Rightarrow> string) \<Rightarrow> string \<Rightarrow> real \<Rightarrow> operator \<Rightarrow> (auth_service, auth_error, string \<times> session \<times> operator) sx"
where
  "login_issue sha token t2 o1 = (\<lambda>s.
     (case ss_issue sha token t2 o1 (as_sessions s) of
        ((tok, v), ss) \<Rightarrow> (Inr (tok, v, o1), s\<lparr>as_sessions := ss\<rparr>)))"

text \<open>A login that no other thread disturbs.\<close>

definition as_login ::
  "scrypt_fun \<Rightarrow> (string \<Rightarrow> string) \<Rightarrow> login_world \<Rightarrow> string \<Rightarrow> string \<Rightarrow> string
    \<Rightarrow> (auth_service, auth_error, string \<times> session \<times> operator) sx"
where
  "as_login scrypt sha w oid pass origin =
     sx_then (login_check origin (lw_t0 w))
    (sx_bind (login_verify scrypt (lw_file w) oid pass) (\<lambda>verdict.
     sx_bind (login_settle origin (lw_t1 w) verdict) (\<lambda>o1. login_issue sha (lw_token w) (lw_t2 w) o1)))"

lemma as_login_unfold:
  "as_login scrypt sha w oid pass origin s =
     (case th_retry_after origin (lw_t0 w) (as_throttle s) of
        (Inl e, t) \<Rightarrow> (Inl e, s\<lparr>as_throttle := t\<rparr>)
      | (Inr wait, t) \<Rightarrow>
          let s1 = s\<lparr>as_throttle := t\<rparr> in
          if wait \<noteq> 0 then (Inl (LoginThrottled (py_int wait + 1)), s1)
          else (case os_verify scrypt (lw_file w) oid pass (as_store s1) of
                  (Inl e, st) \<Rightarrow> (Inl e, s1\<lparr>as_store := st\<rparr>)
                | (Inr None, st) \<Rightarrow>
                    (Inl BadCredentials,
                     s1\<lparr>as_store := st, as_throttle := th_failed origin (lw_t1 w) (as_throttle s1)\<rparr>)
                | (Inr (Some o1), st) \<Rightarrow>
                    let s2 = s1\<lparr>as_store := st, as_throttle := th_succeeded origin (as_throttle s1)\<rparr> in
                    (case ss_issue sha (lw_token w) (lw_t2 w) o1 (as_sessions s2) of
                       ((tok, v), ss) \<Rightarrow> (Inr (tok, v, o1), s2\<lparr>as_sessions := ss\<rparr>))))"
  by (auto simp: as_login_def login_check_def login_verify_def login_settle_def login_issue_def sx_defs Let_def
      split: prod.splits sum.splits option.splits)

definition as_authenticate ::
  "(string \<Rightarrow> string) \<Rightarrow> op_file option \<Rightarrow> real \<Rightarrow> string option \<Rightarrow> auth_service
    \<Rightarrow> (auth_error + operator) \<times> auth_service"
where
  "as_authenticate sha f now token s =
     (case token of
        None \<Rightarrow> (Inl NotLoggedIn, s)
      | Some tok \<Rightarrow>
          if tok = [] then (Inl NotLoggedIn, s)
          else case ss_resolve sha tok now (as_sessions s) of
              (None, ss) \<Rightarrow> (Inl SessionInvalid, s\<lparr>as_sessions := ss\<rparr>)
            | (Some v, ss) \<Rightarrow>
                let s1 = s\<lparr>as_sessions := ss\<rparr> in
                (case os_get f (se_operator v) (as_store s1) of
                   (Inl e, st) \<Rightarrow> (Inl e, s1\<lparr>as_store := st\<rparr>)
                 | (Inr None, st) \<Rightarrow>
                     (Inl OperatorGone,
                      s1\<lparr>as_store := st, as_sessions := snd (ss_revoke sha tok (as_sessions s1))\<rparr>)
                 | (Inr (Some o1), st) \<Rightarrow> (Inr o1, s1\<lparr>as_store := st\<rparr>)))"

section \<open>Configuration\<close>

text \<open>
  \<^verbatim>\<open>load_auth_config\<close>: the parsed \<^verbatim>\<open>tara.toml\<close> (\<^const>\<open>None\<close> without one, \<^const>\<open>Inl\<close> when it
  cannot be read), the environment variable, and the result's path (\<^const>\<open>None\<close> the default).
  A \<^verbatim>\<open>[auth]\<close> that is not a table and a path that is not a string are \<^const>\<open>None\<close>.
\<close>

definition ttl_of_section :: "(string, json) dict \<Rightarrow> real option" where
  "ttl_of_section section =
     (case map_of section ''session_ttl_hours'' of
        None \<Rightarrow> Some (DEFAULT_SESSION_TTL_S / 3600)
      | Some v \<Rightarrow> as_number v)"

definition load_auth_config ::
  "(unit + (string, json) dict) option \<Rightarrow> string option \<Rightarrow> (string option \<times> real) option"
where
  "load_auth_config toml env =
     (case toml of
        Some (Inl _) \<Rightarrow> None
      | _ \<Rightarrow>
        (case (case toml of Some (Inr d) \<Rightarrow>
                 (case map_of d ''auth'' of None \<Rightarrow> JObj [] | Some v \<Rightarrow> v) | _ \<Rightarrow> JObj []) of
           JObj section \<Rightarrow>
             (case ttl_of_section section of
                None \<Rightarrow> None
              | Some hours \<Rightarrow>
                  if \<not> (0 < hours \<and> hours \<le> 24 * 7) then None
                  else (case env of
                      Some (c # cs) \<Rightarrow> Some (Some (c # cs), hours * 3600)
                    | _ \<Rightarrow> (case map_of section ''operators_file'' of
                          Some v \<Rightarrow>
                            if \<not> truthy v then Some (None, hours * 3600)
                            else (case v of JStr p \<Rightarrow> Some (Some p, hours * 3600) | _ \<Rightarrow> None)
                        | None \<Rightarrow> Some (None, hours * 3600))))
         | _ \<Rightarrow> None))"

section \<open>Operations of the service\<close>

datatype as_op =
    OpLogin login_world string string string
  | OpAuthenticate "op_file option" real "string option"
  | OpLogout string
  | OpRevokeOperator string

fun as_step :: "scrypt_fun \<Rightarrow> (string \<Rightarrow> string) \<Rightarrow> as_op \<Rightarrow> auth_service \<Rightarrow> auth_service" where
  "as_step scrypt sha (OpLogin w oid pass origin) s = snd (as_login scrypt sha w oid pass origin s)"
| "as_step scrypt sha (OpAuthenticate f now tok) s = snd (as_authenticate sha f now tok s)"
| "as_step scrypt sha (OpLogout tok) s = s\<lparr>as_sessions := snd (ss_revoke sha tok (as_sessions s))\<rparr>"
| "as_step scrypt sha (OpRevokeOperator oid) s =
     s\<lparr>as_sessions := snd (ss_revoke_operator oid (as_sessions s))\<rparr>"

section \<open>The thread pool\<close>

text \<open>Logins in flight: what a thread has done of its login and what it holds. The calls of the threads and the
  other requests interleave in any order.\<close>

datatype login_stage = Checked | Verified "operator option" | Cleared operator

record login_thread =
  lt_oid :: string
  lt_pass :: string
  lt_origin :: string
  lt_stage :: login_stage

record login_server =
  ls_service :: auth_service
  ls_threads :: "(nat, login_thread) dict"

datatype thread_step =
    T_Begin nat string string string real
  | T_Verify nat "op_file option"
  | T_Settle nat real
  | T_Issue nat real string
  | T_Authenticate "op_file option" real "string option"
  | T_Logout string
  | T_Revoke_Operator string

definition end_thread :: "nat \<Rightarrow> auth_service \<Rightarrow> login_server \<Rightarrow> login_server" where
  "end_thread n s st = st\<lparr>ls_service := s, ls_threads := dpop n (ls_threads st)\<rparr>"

definition keep_thread :: "nat \<Rightarrow> login_thread \<Rightarrow> auth_service \<Rightarrow> login_server \<Rightarrow> login_server" where
  "keep_thread n l s st = st\<lparr>ls_service := s, ls_threads := dset n l (ls_threads st)\<rparr>"

definition begin_login :: "nat \<Rightarrow> string \<Rightarrow> string \<Rightarrow> string \<Rightarrow> real \<Rightarrow> login_server \<Rightarrow> login_server" where
  "begin_login n oid pass origin t0 st =
     (if map_of (ls_threads st) n \<noteq> None then st
      else case login_check origin t0 (ls_service st) of
          (Inl e, s) \<Rightarrow> st\<lparr>ls_service := s\<rparr>
        | (Inr _, s) \<Rightarrow>
            keep_thread n \<lparr>lt_oid = oid, lt_pass = pass, lt_origin = origin, lt_stage = Checked\<rparr> s st)"

definition verify_login :: "scrypt_fun \<Rightarrow> nat \<Rightarrow> op_file option \<Rightarrow> login_thread \<Rightarrow> login_server \<Rightarrow> login_server" where
  "verify_login scrypt n f l st =
     (case login_verify scrypt f (lt_oid l) (lt_pass l) (ls_service st) of
        (Inl e, s) \<Rightarrow> end_thread n s st
      | (Inr verdict, s) \<Rightarrow> keep_thread n (l\<lparr>lt_stage := Verified verdict\<rparr>) s st)"

definition settle_login :: "nat \<Rightarrow> real \<Rightarrow> operator option \<Rightarrow> login_thread \<Rightarrow> login_server \<Rightarrow> login_server" where
  "settle_login n t1 verdict l st =
     (case login_settle (lt_origin l) t1 verdict (ls_service st) of
        (Inl e, s) \<Rightarrow> end_thread n s st
      | (Inr o1, s) \<Rightarrow> keep_thread n (l\<lparr>lt_stage := Cleared o1\<rparr>) s st)"

definition issue_login :: "(string \<Rightarrow> string) \<Rightarrow> nat \<Rightarrow> real \<Rightarrow> string \<Rightarrow> operator \<Rightarrow> login_server \<Rightarrow> login_server" where
  "issue_login sha n t2 token o1 st = end_thread n (snd (login_issue sha token t2 o1 (ls_service st))) st"

text \<open>A step of a thread that is at another point of its login does nothing.\<close>

fun server_step :: "scrypt_fun \<Rightarrow> (string \<Rightarrow> string) \<Rightarrow> thread_step \<Rightarrow> login_server \<Rightarrow> login_server" where
  "server_step scrypt sha (T_Begin n oid pass origin t0) st = begin_login n oid pass origin t0 st"
| "server_step scrypt sha (T_Verify n f) st =
     (case map_of (ls_threads st) n of
        Some l \<Rightarrow> (case lt_stage l of Checked \<Rightarrow> verify_login scrypt n f l st | _ \<Rightarrow> st) | None \<Rightarrow> st)"
| "server_step scrypt sha (T_Settle n t1) st =
     (case map_of (ls_threads st) n of
        Some l \<Rightarrow> (case lt_stage l of Verified verdict \<Rightarrow> settle_login n t1 verdict l st | _ \<Rightarrow> st) | None \<Rightarrow> st)"
| "server_step scrypt sha (T_Issue n t2 token) st =
     (case map_of (ls_threads st) n of
        Some l \<Rightarrow> (case lt_stage l of Cleared o1 \<Rightarrow> issue_login sha n t2 token o1 st | _ \<Rightarrow> st) | None \<Rightarrow> st)"
| "server_step scrypt sha (T_Authenticate f now tok) st =
     st\<lparr>ls_service := as_step scrypt sha (OpAuthenticate f now tok) (ls_service st)\<rparr>"
| "server_step scrypt sha (T_Logout tok) st = st\<lparr>ls_service := as_step scrypt sha (OpLogout tok) (ls_service st)\<rparr>"
| "server_step scrypt sha (T_Revoke_Operator oid) st =
     st\<lparr>ls_service := as_step scrypt sha (OpRevokeOperator oid) (ls_service st)\<rparr>"

definition server_init :: "real \<Rightarrow> nat \<Rightarrow> real \<Rightarrow> login_server" where
  "server_init ttl m w = \<lparr>ls_service = as_init ttl m w, ls_threads = []\<rparr>"

section \<open>The session table\<close>

lemma map_of_foldl_dpop: "map_of (foldl (\<lambda>d k. dpop k d) d ks) k = (if k \<in> set ks then None else map_of d k)"
  by (induction ks arbitrary: d) (auto simp: map_of_dpop)

definition session_at :: "auth_service \<Rightarrow> string \<Rightarrow> session option" where
  "session_at s k = map_of (ss_sessions (as_sessions s)) k"

definition login_granted ::
  "scrypt_fun \<Rightarrow> (string \<Rightarrow> string) \<Rightarrow> as_op \<Rightarrow> auth_service \<Rightarrow> string \<Rightarrow> session \<Rightarrow> bool"
where
  "login_granted scrypt sha x s k v \<longleftrightarrow>
     (\<exists>w oid pass origin tok o1. x = OpLogin w oid pass origin \<and>
        fst (as_login scrypt sha w oid pass origin s) = Inr (tok, v, o1) \<and> sha tok = k)"

definition session_dropped :: "(string \<Rightarrow> string) \<Rightarrow> as_op \<Rightarrow> string \<Rightarrow> session \<Rightarrow> bool" where
  "session_dropped sha x k v \<longleftrightarrow>
     (\<exists>tok. x = OpLogout tok \<and> sha tok = k) \<or> x = OpRevokeOperator (se_operator v)"

lemma login_session:
  assumes "as_login scrypt sha w oid pass origin s = (r, s')" and "session_at s' k = Some v"
  shows "session_at s k = Some v \<or> (\<exists>tok o1. r = Inr (tok, v, o1) \<and> sha tok = k)"
  using assms
  by (auto simp: as_login_unfold ss_issue_def ss_sweep_def session_at_def Let_def map_of_dset
      map_of_foldl_dpop split: prod.splits sum.splits option.splits if_splits)

lemma authenticate_session:
  assumes "as_authenticate sha f now tok s = (r, s')" and "session_at s' k = Some v"
  shows "session_at s k = Some v"
  using assms
  by (auto simp: as_authenticate_def ss_resolve_def ss_revoke_def session_at_def Let_def map_of_dpop
      split: prod.splits sum.splits option.splits if_splits)

lemma revoke_operator_session:
  "session_at (s\<lparr>as_sessions := snd (ss_revoke_operator oid (as_sessions s))\<rparr>) k =
    (case session_at s k of None \<Rightarrow> None | Some v \<Rightarrow>
       if \<exists>v'. (k, v') \<in> set (ss_sessions (as_sessions s)) \<and> se_operator v' = oid then None else Some v)"
  by (force simp: ss_revoke_operator_def session_at_def Let_def map_of_foldl_dpop split: option.splits)

interpretation session_grants: grant_table "as_step scrypt sha" session_at "login_granted scrypt sha"
  "session_dropped sha"
proof
  fix x s k v assume look: "session_at (as_step scrypt sha x s) k = Some v"
  show "login_granted scrypt sha x s k v \<or> session_at s k = Some v \<and> \<not> session_dropped sha x k v"
  proof (cases x)
    case (OpLogin w oid pass origin)
    obtain r s' where run: "as_login scrypt sha w oid pass origin s = (r, s')" by force
    then have "session_at s' k = Some v" using look OpLogin by simp
    from login_session[OF run this] show ?thesis
      using OpLogin run by (auto simp: login_granted_def session_dropped_def)
  next
    case (OpAuthenticate f now tok)
    obtain r s' where run: "as_authenticate sha f now tok s = (r, s')" by force
    then have "session_at s' k = Some v" using look OpAuthenticate by simp
    from authenticate_session[OF run this] show ?thesis
      using OpAuthenticate by (auto simp: session_dropped_def)
  next
    case (OpLogout tok)
    then show ?thesis
      using look by (auto simp: session_dropped_def session_at_def ss_revoke_def map_of_dpop
          split: if_splits)
  next
    case (OpRevokeOperator oid)
    then have "session_at (s\<lparr>as_sessions := snd (ss_revoke_operator oid (as_sessions s))\<rparr>) k = Some v"
      using look by simp
    then have "session_at s k = Some v" and
      "\<not> (\<exists>v'. (k, v') \<in> set (ss_sessions (as_sessions s)) \<and> se_operator v' = oid)"
      unfolding revoke_operator_session by (auto split: option.splits if_splits)
    moreover from this have "(k, v) \<in> set (ss_sessions (as_sessions s))"
      by (auto simp: session_at_def dest: map_of_SomeD)
    ultimately show ?thesis using OpRevokeOperator by (auto simp: session_dropped_def)
  qed
qed

section \<open>The cached operators file\<close>

text \<open>
  The store trusts a file whose time and size it has seen. \<open>content\<close> says what a file with a
  given time and size holds; \<open>seen_ok\<close> that a file is such a file.
\<close>

definition seen_ok :: "((real \<times> nat) \<Rightarrow> op_record list option) \<Rightarrow> op_file option \<Rightarrow> bool" where
  "seen_ok content f \<longleftrightarrow> (\<forall>g. f = Some g \<longrightarrow> content (of_stamp g) = of_records g)"

fun op_seen_ok :: "((real \<times> nat) \<Rightarrow> op_record list option) \<Rightarrow> as_op \<Rightarrow> bool" where
  "op_seen_ok content (OpLogin w oid pass origin) = seen_ok content (lw_file w)"
| "op_seen_ok content (OpAuthenticate f now tok) = seen_ok content f"
| "op_seen_ok content x = True"

definition store_ok :: "((real \<times> nat) \<Rightarrow> op_record list option) \<Rightarrow> op_store \<Rightarrow> bool" where
  "store_ok content s \<longleftrightarrow> (case os_stamp s of
     None \<Rightarrow> os_records s = []
   | Some st \<Rightarrow> \<exists>recs. content st = Some recs \<and> os_records s = records_dict recs)"

text \<open>What the store knows after a refresh that returned.\<close>

definition file_records :: "op_file option \<Rightarrow> op_record list" where
  "file_records f = (case f of None \<Rightarrow> [] | Some g \<Rightarrow> (case of_records g of None \<Rightarrow> [] | Some rs \<Rightarrow> rs))"

lemma os_refresh_ok:
  assumes "os_refresh f s = (r, s')" and "store_ok content s" and "seen_ok content f"
  shows "store_ok content s'" and "r = Inr u \<Longrightarrow> os_records s' = records_dict (file_records f)"
proof -
  show "store_ok content s'"
    using assms by (auto simp: os_refresh_def store_ok_def seen_ok_def split: option.splits if_splits)
  show "os_records s' = records_dict (file_records f)" if "r = Inr u"
    using assms that by (auto simp: os_refresh_def store_ok_def seen_ok_def file_records_def
        records_dict_def split: option.splits if_splits)
qed

lemma records_dict_mem:
  "map_of (records_dict recs) k = Some r \<Longrightarrow> r \<in> set recs \<and> rc_id r = k"
proof -
  have "map_of (foldl (\<lambda>d r. dset (rc_id r) r d) d recs) k = Some r \<Longrightarrow>
      map_of d k = Some r \<or> (r \<in> set recs \<and> rc_id r = k)" for d
    by (induction recs arbitrary: d) (fastforce simp: map_of_dset split: if_splits)+
  from this[of "[]"] show "map_of (records_dict recs) k = Some r \<Longrightarrow> r \<in> set recs \<and> rc_id r = k"
    by (simp add: records_dict_def)
qed

lemma operator_of_Inr: "operator_of r = Inr o1 \<longleftrightarrow> op_id o1 = rc_id r \<and> parse_role (rc_role r) = Some (op_role o1)"
  by (cases o1) (auto simp: operator_of_def split: option.splits)

lemma os_get_ok:
  assumes "os_get f oid s = (r, s')" and "store_ok content s" and "seen_ok content f"
  shows "store_ok content s'" and "r = Inr (Some o1) \<Longrightarrow> op_id o1 = oid \<and>
    (\<exists>rc \<in> set (file_records f). rc_id rc = oid \<and> parse_role (rc_role rc) = Some (op_role o1))"
proof -
  obtain r1 s1 where ref: "os_refresh f s = (r1, s1)" by force
  have s': "s' = s1" using assms(1) ref
    by (auto simp: os_get_def sx_defs sx_lift_def split: sum.splits option.splits)
  then show "store_ok content s'" using os_refresh_ok(1)[OF ref assms(2,3)] by simp
  assume r: "r = Inr (Some o1)"
  then obtain u rc where r1: "r1 = Inr u" and rc: "map_of (os_records s1) oid = Some rc"
    "operator_of rc = Inr o1"
    using assms(1) ref by (auto simp: os_get_def sx_defs sx_lift_def split: sum.splits option.splits)
  have "map_of (records_dict (file_records f)) oid = Some rc"
    using rc(1) os_refresh_ok(2)[OF ref assms(2,3) r1] by simp
  from records_dict_mem[OF this] rc(2) show "op_id o1 = oid \<and>
    (\<exists>rc \<in> set (file_records f). rc_id rc = oid \<and> parse_role (rc_role rc) = Some (op_role o1))"
    by (auto simp: operator_of_Inr)
qed

lemma os_verify_ok:
  assumes "os_verify scrypt f oid pass s = (r, s')" and "store_ok content s" and "seen_ok content f"
  shows "store_ok content s'" and "r = Inr (Some o1) \<Longrightarrow> op_id o1 = oid \<and>
    (\<exists>rc \<in> set (file_records f). rc_id rc = oid \<and> parse_role (rc_role rc) = Some (op_role o1) \<and>
       (\<exists>salt p. rc_salt rc = Some salt \<and> scrypt pass salt p = rc_hash rc \<and> rc_hash rc \<noteq> None))"
proof -
  obtain r1 s1 where ref: "os_refresh f s = (r1, s1)" by force
  have s': "s' = s1" using assms(1) ref
    by (auto simp: os_verify_def sx_defs sx_lift_def Let_def split: sum.splits option.splits if_splits)
  then show "store_ok content s'" using os_refresh_ok(1)[OF ref assms(2,3)] by simp
  assume r: "r = Inr (Some o1)"
  then obtain u rc where r1: "r1 = Inr u" and rc: "map_of (os_records s1) oid = Some rc"
    "operator_of rc = Inr o1"
    and h: "\<exists>salt p. rc_salt rc = Some salt \<and> scrypt pass salt p = rc_hash rc \<and> rc_hash rc \<noteq> None"
    using assms(1) ref
    by (auto simp: os_verify_def sx_defs sx_lift_def Let_def split: sum.splits option.splits if_splits)
  have "map_of (records_dict (file_records f)) oid = Some rc"
    using rc(1) os_refresh_ok(2)[OF ref assms(2,3) r1] by simp
  from records_dict_mem[OF this] rc(2) h show "op_id o1 = oid \<and>
    (\<exists>rc \<in> set (file_records f). rc_id rc = oid \<and> parse_role (rc_role rc) = Some (op_role o1) \<and>
       (\<exists>salt p. rc_salt rc = Some salt \<and> scrypt pass salt p = rc_hash rc \<and> rc_hash rc \<noteq> None))"
    by (auto simp: operator_of_Inr)
qed

lemma login_store_ok:
  assumes "as_login scrypt sha w oid pass origin s = (r, s')" and "store_ok content (as_store s)"
    and "seen_ok content (lw_file w)"
  shows "store_ok content (as_store s')"
proof -
  obtain r1 st where v: "os_verify scrypt (lw_file w) oid pass (as_store s) = (r1, st)" by force
  have "as_store s' = as_store s \<or> as_store s' = st"
    using assms(1) v by (auto simp: as_login_unfold Let_def split: prod.splits sum.splits option.splits if_splits)
  then show ?thesis using os_verify_ok(1)[OF v assms(2,3)] assms(2) by metis
qed

lemma authenticate_store_ok:
  assumes "as_authenticate sha f now tok s = (r, s')" and "store_ok content (as_store s)"
    and "seen_ok content f"
  shows "store_ok content (as_store s')"
proof (cases "as_store s' = as_store s")
  case False
  then obtain oid r1 st where v: "os_get f oid (as_store s) = (r1, st)" and "as_store s' = st"
    using assms(1)
    by (auto simp: as_authenticate_def Let_def split: prod.splits sum.splits option.splits if_splits)
  then show ?thesis using os_get_ok(1)[OF v assms(2,3)] by simp
qed (use assms(2) in simp)

lemma run_store_ok:
  "\<forall>x \<in> set xs. op_seen_ok content x \<Longrightarrow> store_ok content (as_store s) \<Longrightarrow>
     store_ok content (as_store (run_ops (as_step scrypt sha) xs s))"
proof (induction xs arbitrary: s)
  case (Cons x xs)
  have "store_ok content (as_store (as_step scrypt sha x s))"
    using Cons.prems
    by (cases x) (auto intro: login_store_ok[OF surjective_pairing]
        authenticate_store_ok[OF surjective_pairing])
  then show ?case using Cons by simp
qed simp

lemma login_Inr:
  assumes "as_login scrypt sha w oid pass origin s = (Inr (tok, v, o1), s')"
  shows "fst (th_retry_after origin (lw_t0 w) (as_throttle s)) = Inr 0" and "tok = lw_token w"
    and "v = \<lparr>se_operator = op_id o1, se_issued_at = lw_t2 w,
      se_expires_at = lw_t2 w + ss_ttl (as_sessions s)\<rparr>"
    and "fst (os_verify scrypt (lw_file w) oid pass (as_store s)) = Inr (Some o1)"
  using assms by (auto simp: as_login_unfold Let_def ss_issue_def ss_sweep_def
      split: prod.splits sum.splits option.splits if_splits)

lemma ttl_step: "ss_ttl (as_sessions (as_step scrypt sha x s)) = ss_ttl (as_sessions s)"
  by (cases x) (auto simp: as_login_unfold as_authenticate_def Let_def ss_issue_def ss_sweep_def
      ss_resolve_def ss_revoke_def ss_revoke_operator_def
      split: prod.splits sum.splits option.splits if_splits)

lemma ttl_run: "ss_ttl (as_sessions (run_ops (as_step scrypt sha) xs s)) = ss_ttl (as_sessions s)"
  by (induction xs arbitrary: s) (simp_all add: ttl_step)

lemma authenticate_Inr:
  assumes "as_authenticate sha f now (Some tok) s = (Inr o1, s')"
  shows "\<exists>v. session_at s (sha tok) = Some v \<and> now < se_expires_at v \<and>
    fst (os_get f (se_operator v) (as_store s)) = Inr (Some o1)"
  using assms by (auto simp: as_authenticate_def Let_def ss_resolve_def session_at_def
      split: prod.splits sum.splits option.splits if_splits)

section \<open>Properties\<close>

text \<open>C9. Who a request is: after any run of the service, \<^verbatim>\<open>authenticate\<close> answers with an operator
  only if the token's hash is that of a token an earlier login issued to that operator, who
  then gave the passphrase the file had a hash of, less than the session lifetime ago, with no
  logout of the token and no revocation of the operator since, and if the operators file as it
  is now still lists the operator, with the role answered. (A file's time and size must tell
  its content apart from others seen: that is how the store knows it changed.)\<close>

theorem authenticate_sound:
  assumes "as_authenticate sha f now (Some tok) (run_ops (as_step scrypt sha) xs (as_init ttl m win)) =
      (Inr o1, s')"
    and "\<forall>x \<in> set xs. op_seen_ok content x" and "seen_ok content f"
  shows "(\<exists>ys w pass origin zs. xs = ys @ OpLogin w (op_id o1) pass origin # zs \<and>
       sha (lw_token w) = sha tok \<and> now < lw_t2 w + ttl \<and>
       (\<exists>rc \<in> set (file_records (lw_file w)). rc_id rc = op_id o1 \<and>
          (\<exists>salt p h. rc_salt rc = Some salt \<and> rc_hash rc = Some h \<and> scrypt pass salt p = Some h)) \<and>
       (\<forall>z \<in> set zs. z \<noteq> OpRevokeOperator (op_id o1) \<and> (\<forall>t. z = OpLogout t \<longrightarrow> sha t \<noteq> sha tok))) \<and>
     (\<exists>rc \<in> set (file_records f). rc_id rc = op_id o1 \<and> parse_role (rc_role rc) = Some (op_role o1))"
proof -
  let ?run = "\<lambda>xs. run_ops (as_step scrypt sha) xs (as_init ttl m win)"
  have init: "store_ok content (as_store (as_init ttl m win))" "ss_ttl (as_sessions (as_init ttl m win)) = ttl"
    "session_at (as_init ttl m win) k = None" for k
    by (simp_all add: as_init_def store_ok_def os_init_def ss_init_def session_at_def)
  obtain v where look: "session_at (?run xs) (sha tok) = Some v" and now: "now < se_expires_at v"
    and get: "fst (os_get f (se_operator v) (as_store (?run xs))) = Inr (Some o1)"
    using authenticate_Inr[OF assms(1)] by blast
  have "store_ok content (as_store (?run xs))" using run_store_ok[OF assms(2) init(1)] .
  note got = os_get_ok(2)[OF surjective_pairing this assms(3) get]
  have oper: "op_id o1 = se_operator v" using got by blast
  have rc: "\<exists>rc \<in> set (file_records f). rc_id rc = op_id o1 \<and> parse_role (rc_role rc) = Some (op_role o1)"
    using got oper by simp
  obtain ys x zs where xs: "xs = ys @ x # zs" and grant: "login_granted scrypt sha x (?run ys) (sha tok) v"
    and keep: "\<forall>z \<in> set zs. \<not> session_dropped sha z (sha tok) v"
    using session_grants.found_was_granted[OF look init(3)] by blast
  obtain w oid pass origin t o2 s2 where x: "x = OpLogin w oid pass origin"
    and run: "as_login scrypt sha w oid pass origin (?run ys) = (Inr (t, v, o2), s2)" and t: "sha t = sha tok"
    using grant unfolding login_granted_def by (metis surjective_pairing)
  note log = login_Inr[OF run]
  have seen: "seen_ok content (lw_file w)" using assms(2) xs x by simp
  have "store_ok content (as_store (?run ys))"
    using assms(2) xs by (intro run_store_ok init(1)) simp
  note pw = os_verify_ok(2)[OF surjective_pairing this seen log(4)]
  have "op_id o2 = oid" using pw by blast
  then have oid: "oid = op_id o1" using log(3) oper by simp
  have secret: "\<exists>rc \<in> set (file_records (lw_file w)). rc_id rc = oid \<and>
      (\<exists>salt p h. rc_salt rc = Some salt \<and> rc_hash rc = Some h \<and> scrypt pass salt p = Some h)"
    using pw by (metis not_None_eq)
  have fresh: "now < lw_t2 w + ttl" using now log(3) ttl_run init(2) by simp
  have same: "sha (lw_token w) = sha tok" using log(2) t by simp
  have kept: "\<forall>z \<in> set zs. z \<noteq> OpRevokeOperator (op_id o1) \<and> (\<forall>t. z = OpLogout t \<longrightarrow> sha t \<noteq> sha tok)"
    using keep oper by (auto simp: session_dropped_def)
  show ?thesis
    using xs[unfolded x oid] same fresh secret[unfolded oid] kept rc
    by (intro conjI exI[of _ ys] exI[of _ w] exI[of _ pass] exI[of _ origin] exI[of _ zs])
qed

section \<open>The rate of wrong guesses\<close>

text \<open>
  The times of an origin's wrong guesses since its last successful login, \<open>fs\<close>, against the
  queue the throttle keeps, \<open>q\<close>: a suffix of them, what is missing is older than the window.
\<close>

definition suffix_inv :: "real \<Rightarrow> real \<Rightarrow> real list \<Rightarrow> real list \<Rightarrow> bool" where
  "suffix_inv win last_t fs q \<longleftrightarrow>
     (\<exists>k \<le> length fs. q = drop k fs \<and> (\<forall>i < k. win < last_t - fs ! i)) \<and> (\<forall>x \<in> set fs. x \<le> last_t)"

text \<open>Once \<open>m\<close> wrong guesses lie in a window, only the logins already in flight can add to them, \<open>p\<close> of the at
  most \<open>c\<close>.\<close>

definition burst_inv :: "real \<Rightarrow> nat \<Rightarrow> nat \<Rightarrow> real \<Rightarrow> real list \<Rightarrow> nat \<Rightarrow> bool" where
  "burst_inv win m c last_t fs p \<longleftrightarrow>
     (\<forall>i. i + m \<le> length fs \<longrightarrow> last_t - fs ! i < win \<longrightarrow> length fs - (i + m) + p < c) \<and>
     (\<forall>i. i + m + c \<le> length fs \<longrightarrow> win \<le> fs ! (i + m + c - 1) - fs ! i)"

lemma dropWhile_drop:
  assumes "k \<le> length fs"
  obtains k' where "k \<le> k'" and "k' \<le> length fs" and "dropWhile P (drop k fs) = drop k' fs"
    and "\<And>i. k \<le> i \<Longrightarrow> i < k' \<Longrightarrow> P (fs ! i)" and "k' < length fs \<Longrightarrow> \<not> P (fs ! k')"
proof -
  let ?n = "length (takeWhile P (drop k fs))"
  have n: "?n \<le> length fs - k" using length_takeWhile_le[of P "drop k fs"] by simp
  show thesis
  proof (rule that[of "k + ?n"])
    show "dropWhile P (drop k fs) = drop (k + ?n) fs" by (simp add: dropWhile_eq_drop add.commute)
    show "P (fs ! i)" if "k \<le> i" "i < k + ?n" for i
    proof -
      have "takeWhile P (drop k fs) ! (i - k) = drop k fs ! (i - k)" using that by (intro takeWhile_nth) simp
      moreover have "takeWhile P (drop k fs) ! (i - k) \<in> set (takeWhile P (drop k fs))"
        using that by (intro nth_mem) simp
      ultimately show ?thesis using that assms by (auto dest: set_takeWhileD)
    qed
    show "\<not> P (fs ! (k + ?n))" if "k + ?n < length fs"
      using nth_length_takeWhile[of P "drop k fs"] that assms by simp
  qed (use n assms in simp_all)
qed

lemma suffix_inv_recent:
  assumes "suffix_inv win last_t fs q" and "last_t \<le> t"
  shows "suffix_inv win t fs (dropWhile (\<lambda>x. win < t - x) q)"
proof -
  obtain k where k: "k \<le> length fs" "q = drop k fs" "\<forall>i < k. win < last_t - fs ! i"
    using assms(1) by (auto simp: suffix_inv_def)
  obtain k' where k': "k \<le> k'" "k' \<le> length fs" "dropWhile (\<lambda>x. win < t - x) q = drop k' fs"
    "\<And>i. k \<le> i \<Longrightarrow> i < k' \<Longrightarrow> win < t - fs ! i"
    using dropWhile_drop[OF k(1), of "\<lambda>x. win < t - x"] unfolding k(2) by metis
  have "\<forall>i < k'. win < t - fs ! i"
  proof (intro allI impI)
    fix i assume "i < k'"
    then show "win < t - fs ! i"
      using k(3) k'(4)[of i] assms(2) by (cases "i < k") force+
  qed
  moreover have "\<forall>x \<in> set fs. x \<le> t"
    using assms by (force simp: suffix_inv_def)
  ultimately show ?thesis
    using k'(2,3) unfolding suffix_inv_def by blast
qed

lemma suffix_inv_later:
  assumes "suffix_inv win last_t fs q" and "last_t \<le> t"
  shows "suffix_inv win t fs q"
proof -
  obtain k where k: "k \<le> length fs" "q = drop k fs" "\<And>i. i < k \<Longrightarrow> win < last_t - fs ! i"
    using assms(1) by (auto simp: suffix_inv_def)
  have "win < t - fs ! i" if "i < k" for i using k(3)[OF that] assms(2) by linarith
  moreover have "\<forall>x \<in> set fs. x \<le> t" using assms by (force simp: suffix_inv_def)
  ultimately show ?thesis using k(1,2) unfolding suffix_inv_def by blast
qed

lemma suffix_inv_fail:
  assumes "suffix_inv win t fs q"
  shows "suffix_inv win t (fs @ [t]) (q @ [t])"
proof -
  obtain k where k: "k \<le> length fs" "q = drop k fs" "\<forall>i < k. win < t - fs ! i"
    using assms by (auto simp: suffix_inv_def)
  then show ?thesis using assms unfolding suffix_inv_def
    by (auto intro!: exI[of _ k] simp: nth_append)
qed

text \<open>A login that may try now finds no full window behind it: the oldest guess the queue keeps is not exactly a
  window old.\<close>

lemma allowed_spaced:
  assumes inv: "suffix_inv win last_t fs q" and t: "last_t \<le> t0" and edge: "\<forall>x \<in> set fs. t0 - x \<noteq> win"
    and allowed: "length (dropWhile (\<lambda>x. win < t0 - x) q) < m \<or>
      (\<exists>x xs. dropWhile (\<lambda>x. win < t0 - x) q = x # xs \<and> win \<le> t0 - x)"
    and i: "i + m \<le> length fs" "0 < m"
  shows "win \<le> t0 - fs ! i"
proof -
  let ?q = "dropWhile (\<lambda>x. win < t0 - x) q"
  obtain k where k: "k \<le> length fs" "?q = drop k fs" "\<forall>i < k. win < t0 - fs ! i"
    using suffix_inv_recent[OF inv t] by (auto simp: suffix_inv_def)
  show ?thesis
  proof (cases "i < k")
    case True
    then show ?thesis using k(3) by force
  next
    case False
    then have "\<not> length ?q < m" using i k(2) by simp
    then obtain x xs where x: "?q = x # xs" "win \<le> t0 - x" using allowed by blast
    have "x \<in> set fs" using x(1) k(2) by (metis in_set_dropD list.set_intros(1))
    moreover have "\<not> win < t0 - x" using hd_dropWhile[of "\<lambda>x. win < t0 - x" q] x(1) by simp
    ultimately show ?thesis using x(2) edge by fastforce
  qed
qed

lemma burst_inv_later:
  assumes "burst_inv win m c last_t fs p" and "last_t \<le> t" and "p' \<le> p"
  shows "burst_inv win m c t fs p'"
proof -
  have "length fs - (i + m) + p' < c" if "i + m \<le> length fs" "t - fs ! i < win" for i
  proof -
    have "last_t - fs ! i < win" using that(2) assms(2) by linarith
    then have "length fs - (i + m) + p < c" using assms(1) that(1) by (simp add: burst_inv_def)
    then show ?thesis using assms(3) by linarith
  qed
  then show ?thesis using assms(1) by (simp add: burst_inv_def)
qed

lemma burst_inv_begin:
  assumes "burst_inv win m c last_t fs p" and "\<And>i. i + m \<le> length fs \<Longrightarrow> win \<le> t - fs ! i"
  shows "burst_inv win m c t fs p'"
  using assms by (fastforce simp: burst_inv_def)

lemma burst_inv_fail:
  assumes inv: "burst_inv win m c last_t fs (Suc p)" and t: "last_t \<le> t" and p: "Suc p \<le> c" and m: "0 < m"
  shows "burst_inv win m c t (fs @ [t]) p"
proof -
  have now: "length (fs @ [t]) - (i + m) + p < c"
    if i: "i + m \<le> length (fs @ [t])" "t - (fs @ [t]) ! i < win" for i
  proof (cases "i + m = length (fs @ [t])")
    case True
    then show ?thesis using p by simp
  next
    case False
    then have old: "i + m \<le> length fs" "i < length fs" using i m by simp_all
    then have "last_t - fs ! i < win" using i(2) t by (simp add: nth_append)
    then have "length fs - (i + m) + Suc p < c" using inv old(1) by (simp add: burst_inv_def)
    then show ?thesis using old(1) by simp
  qed
  have "win \<le> (fs @ [t]) ! (i + m + c - 1) - (fs @ [t]) ! i" if i: "i + m + c \<le> length (fs @ [t])" for i
  proof (cases "i + m + c = length (fs @ [t])")
    case True
    then have "length (fs @ [t]) - (i + m) = c" "i + m \<le> length (fs @ [t])" by linarith+
    then have "\<not> t - (fs @ [t]) ! i < win" using now[of i] by linarith
    moreover have "(fs @ [t]) ! (i + m + c - 1) = t" using True by (simp add: nth_append)
    ultimately show ?thesis by simp
  next
    case False
    then have old: "i + m + c \<le> length fs" using i by simp
    then have "i + m + c - 1 < length fs" "i < length fs" using m p by simp_all
    then show ?thesis using inv old by (simp add: burst_inv_def nth_append)
  qed
  then show ?thesis using now unfolding burst_inv_def by blast
qed

text \<open>The wrong guesses of an origin over a run, since its last successful login; its logins that have been let
  through and not settled; how many there are at most at any point of a run.\<close>

definition settles :: "login_server \<Rightarrow> nat \<Rightarrow> string \<Rightarrow> operator option \<Rightarrow> bool" where
  "settles st n origin verdict \<longleftrightarrow>
     (case map_of (ls_threads st) n of None \<Rightarrow> False | Some l \<Rightarrow> lt_origin l = origin \<and> lt_stage l = Verified verdict)"

fun after_step :: "string \<Rightarrow> thread_step \<Rightarrow> login_server \<Rightarrow> real list \<Rightarrow> real list" where
  "after_step origin (T_Settle n t) st fs =
     (case map_of (ls_threads st) n of
        Some l \<Rightarrow> (case lt_stage l of
            Verified verdict \<Rightarrow> if lt_origin l \<noteq> origin then fs else if verdict = None then fs @ [t] else []
          | _ \<Rightarrow> fs)
      | None \<Rightarrow> fs)"
| "after_step origin x st fs = fs"

fun wrong_guesses ::
  "scrypt_fun \<Rightarrow> (string \<Rightarrow> string) \<Rightarrow> string \<Rightarrow> thread_step list \<Rightarrow> login_server \<Rightarrow> real list \<Rightarrow> real list"
where
  "wrong_guesses scrypt sha origin [] st fs = fs"
| "wrong_guesses scrypt sha origin (x # xs) st fs =
     wrong_guesses scrypt sha origin xs (server_step scrypt sha x st) (after_step origin x st fs)"

fun unsettled :: "login_stage \<Rightarrow> bool" where
  "unsettled (Cleared o1) = False"
| "unsettled _ = True"

definition in_flight :: "string \<Rightarrow> login_server \<Rightarrow> nat set" where
  "in_flight origin st = set (filter (\<lambda>n. case map_of (ls_threads st) n of None \<Rightarrow> False
     | Some l \<Rightarrow> lt_origin l = origin \<and> unsettled (lt_stage l)) (map fst (ls_threads st)))"

fun crowd_within ::
  "scrypt_fun \<Rightarrow> (string \<Rightarrow> string) \<Rightarrow> string \<Rightarrow> nat \<Rightarrow> thread_step list \<Rightarrow> login_server \<Rightarrow> bool"
where
  "crowd_within scrypt sha origin c [] st \<longleftrightarrow> card (in_flight origin st) \<le> c"
| "crowd_within scrypt sha origin c (x # xs) st \<longleftrightarrow> card (in_flight origin st) \<le> c \<and>
     crowd_within scrypt sha origin c xs (server_step scrypt sha x st)"

text \<open>The readings of the clock, and those at which logins are checked and settled.\<close>

fun readings :: "thread_step \<Rightarrow> real list" where
  "readings (T_Begin n oid pass origin t0) = [t0]"
| "readings (T_Settle n t1) = [t1]"
| "readings x = []"

definition off_the_edge :: "real \<Rightarrow> thread_step list \<Rightarrow> bool" where
  "off_the_edge win xs \<longleftrightarrow> (\<forall>n oid pass origin t0 k t1.
     T_Begin n oid pass origin t0 \<in> set xs \<longrightarrow> T_Settle k t1 \<in> set xs \<longrightarrow> t0 - t1 \<noteq> win)"

definition rate_inv :: "real \<Rightarrow> nat \<Rightarrow> nat \<Rightarrow> string \<Rightarrow> real \<Rightarrow> real list \<Rightarrow> login_server \<Rightarrow> bool" where
  "rate_inv win m c origin last_t fs st \<longleftrightarrow>
     (let t = as_throttle (ls_service st) in th_max t = m \<and> th_window t = win \<and>
        suffix_inv win last_t fs (th_queue origin t)) \<and>
     burst_inv win m c last_t fs (card (in_flight origin st))"

lemma th_queue_recent:
  "th_queue origin (snd (th_recent origin now t)) = dropWhile (\<lambda>x. th_window t < now - x) (th_queue origin t)"
  "fst (th_recent origin now t) = dropWhile (\<lambda>x. th_window t < now - x) (th_queue origin t)"
  "orig \<noteq> origin \<Longrightarrow> th_queue origin (snd (th_recent orig now t)) = th_queue origin t"
  "th_max (snd (th_recent orig now t)) = th_max t" "th_window (snd (th_recent orig now t)) = th_window t"
  by (simp_all add: th_recent_def th_queue_def Let_def map_of_dset)

lemma retry_after_state: "snd (th_retry_after orig now t) = snd (th_recent orig now t)"
  by (auto simp: th_retry_after_def split: prod.splits list.splits)

lemma retry_after_zero:
  assumes "fst (th_retry_after orig now t) = Inr 0"
  shows "length (fst (th_recent orig now t)) < th_max t \<or>
    (\<exists>x xs. fst (th_recent orig now t) = x # xs \<and> th_window t \<le> now - x)"
  using assms by (auto simp: th_retry_after_def th_recent_def Let_def split: if_splits list.splits)

lemma th_failed_queue:
  "th_queue origin (th_failed origin now t) =
     dropWhile (\<lambda>x. th_window t < now - x) (th_queue origin t) @ [now]"
  "orig \<noteq> origin \<Longrightarrow> th_queue origin (th_failed orig now t) = th_queue origin t"
  "th_max (th_failed orig now t) = th_max t" "th_window (th_failed orig now t) = th_window t"
  by (auto simp: th_failed_def th_recent_def th_queue_def Let_def map_of_dset)

lemma th_succeeded_queue:
  "th_queue origin (th_succeeded orig t) = (if orig = origin then [] else th_queue origin t)"
  "th_max (th_succeeded orig t) = th_max t" "th_window (th_succeeded orig t) = th_window t"
  by (simp_all add: th_succeeded_def th_queue_def map_of_dpop)

lemma in_flight_iff:
  "n \<in> in_flight origin st \<longleftrightarrow>
    (\<exists>l. map_of (ls_threads st) n = Some l \<and> lt_origin l = origin \<and> unsettled (lt_stage l))"
proof -
  have "n \<in> fst ` set (ls_threads st)" if "map_of (ls_threads st) n = Some l" for l
    using that by (metis fst_conv image_eqI map_of_SomeD)
  then show ?thesis by (auto simp: in_flight_def split: option.splits)
qed

lemma finite_in_flight [simp]: "finite (in_flight origin st)"
  by (simp add: in_flight_def)

lemma in_flight_end: "in_flight origin (end_thread n s st) = in_flight origin st - {n}"
  by (auto simp: in_flight_iff end_thread_def map_of_dpop split: if_splits)

lemma in_flight_keep:
  "in_flight origin (keep_thread n l s st) =
    (if lt_origin l = origin \<and> unsettled (lt_stage l) then insert n (in_flight origin st) else in_flight origin st - {n})"
  by (auto simp: in_flight_iff keep_thread_def map_of_dset split: if_splits)

lemma in_flight_service: "in_flight origin (st\<lparr>ls_service := s\<rparr>) = in_flight origin st"
  by (auto simp: in_flight_iff)

lemma other_requests_throttle:
  "as_throttle (as_step scrypt sha (OpAuthenticate f now tok) s) = as_throttle s"
  "as_throttle (as_step scrypt sha (OpLogout t) s) = as_throttle s"
  "as_throttle (as_step scrypt sha (OpRevokeOperator oid) s) = as_throttle s"
  by (auto simp: as_authenticate_def Let_def split: option.splits prod.splits sum.splits)

text \<open>A service whose throttle is the old one, or the old one looked at by another origin, and no more logins
  in flight.\<close>

lemma rate_inv_frame:
  assumes "rate_inv win m c origin last_t fs st" and "last_t \<le> t"
    and "th_max (as_throttle (ls_service st')) = m" "th_window (as_throttle (ls_service st')) = win"
    and "th_queue origin (as_throttle (ls_service st')) = th_queue origin (as_throttle (ls_service st))"
    and "in_flight origin st' \<subseteq> in_flight origin st"
  shows "rate_inv win m c origin t fs st'"
  using assms suffix_inv_later burst_inv_later card_mono[OF finite_in_flight assms(6)]
  unfolding rate_inv_def Let_def by metis

lemma rate_inv_begin:
  assumes inv: "rate_inv win m c origin last_t fs st" and m: "0 < m" and t: "last_t \<le> t0"
    and edge: "\<forall>x \<in> set fs. t0 - x \<noteq> win"
  shows "rate_inv win m c origin t0 fs (begin_login n oid pass orig t0 st)"
proof (cases "map_of (ls_threads st) n")
  case (Some l)
  then show ?thesis using rate_inv_frame[OF inv t, of st] inv by (simp add: begin_login_def rate_inv_def Let_def)
next
  case None
  let ?t = "as_throttle (ls_service st)"
  let ?s = "ls_service st\<lparr>as_throttle := snd (th_recent orig t0 ?t)\<rparr>"
  have par: "th_max ?t = m" "th_window ?t = win" and q: "suffix_inv win last_t fs (th_queue origin ?t)"
    and b: "burst_inv win m c last_t fs (card (in_flight origin st))"
    using inv by (simp_all add: rate_inv_def Let_def)
  obtain r where r: "login_check orig t0 (ls_service st) = (r, ?s)"
  proof -
    obtain a where "th_retry_after orig t0 ?t = (a, snd (th_recent orig t0 ?t))"
      by (metis prod.collapse retry_after_state)
    then show thesis using that by (cases a) (simp_all add: login_check_def)
  qed
  have allowed: "fst (th_retry_after orig t0 ?t) = Inr 0" if "r = Inr u" for u
    using r that by (auto simp: login_check_def split: prod.splits sum.splits if_splits)
  have begin_r: "begin_login n oid pass orig t0 st = (case r of Inl e \<Rightarrow> st\<lparr>ls_service := ?s\<rparr>
      | Inr _ \<Rightarrow> keep_thread n \<lparr>lt_oid = oid, lt_pass = pass, lt_origin = orig, lt_stage = Checked\<rparr> ?s st)"
    using None r by (simp add: begin_login_def)
  have fresh: "n \<notin> in_flight origin st" using None by (simp add: in_flight_iff)
  show ?thesis
  proof (cases "orig = origin")
    case False
    have "in_flight origin (begin_login n oid pass orig t0 st) \<subseteq> in_flight origin st"
      using False unfolding begin_r by (cases r) (auto simp: in_flight_keep in_flight_service)
    moreover have "as_throttle (ls_service (begin_login n oid pass orig t0 st)) = as_throttle ?s"
      unfolding begin_r by (cases r) (simp_all add: keep_thread_def)
    ultimately show ?thesis
      using False par by (intro rate_inv_frame[OF inv t]) (simp_all add: th_queue_recent)
  next
    case True
    have q': "suffix_inv win t0 fs (th_queue origin (as_throttle ?s))"
      using suffix_inv_recent[OF q t] True par by (simp add: th_queue_recent)
    show ?thesis
    proof (cases r)
      case (Inl e)
      then show ?thesis unfolding begin_r
        using q' burst_inv_later[OF b t order_refl] par
        by (simp add: rate_inv_def th_queue_recent in_flight_service)
    next
      case (Inr u)
      have "length (dropWhile (\<lambda>x. win < t0 - x) (th_queue origin ?t)) < m \<or>
          (\<exists>x xs. dropWhile (\<lambda>x. win < t0 - x) (th_queue origin ?t) = x # xs \<and> win \<le> t0 - x)"
        using retry_after_zero[OF allowed[OF Inr]] par True by (simp add: th_queue_recent)
      note spaced = allowed_spaced[OF q t edge this _ m]
      show ?thesis unfolding begin_r Inr
        using q' burst_inv_begin[OF b spaced] par
        by (simp add: rate_inv_def th_queue_recent keep_thread_def)
    qed
  qed
qed

lemma rate_inv_settle:
  assumes inv: "rate_inv win m c origin last_t fs st" and m: "0 < m" and t: "last_t \<le> t1"
    and crowd: "card (in_flight origin st) \<le> c"
    and l: "map_of (ls_threads st) n = Some l" "lt_stage l = Verified verdict"
  shows "rate_inv win m c origin t1 (if lt_origin l \<noteq> origin then fs else if verdict = None then fs @ [t1] else [])
    (settle_login n t1 verdict l st)"
proof -
  let ?t = "as_throttle (ls_service st)"
  have par: "th_max ?t = m" "th_window ?t = win" and q: "suffix_inv win last_t fs (th_queue origin ?t)"
    and b: "burst_inv win m c last_t fs (card (in_flight origin st))"
    using inv by (simp_all add: rate_inv_def Let_def)
  show ?thesis
  proof (cases "lt_origin l = origin")
    case False
    have "in_flight origin (settle_login n t1 verdict l st) \<subseteq> in_flight origin st"
      by (auto simp: settle_login_def login_settle_def in_flight_end in_flight_keep split: option.splits)
    then show ?thesis using False
      by (simp, intro rate_inv_frame[OF inv t])
        (auto simp: settle_login_def login_settle_def end_thread_def keep_thread_def par th_failed_queue th_succeeded_queue
          split: option.splits)
  next
    case True
    show ?thesis
    proof (cases verdict)
      case None
      have n: "n \<in> in_flight origin st" using l True by (simp add: in_flight_iff)
      then have card: "card (in_flight origin st) = Suc (card (in_flight origin st - {n}))"
        by (rule card.remove[OF finite_in_flight])
      have q': "suffix_inv win t1 (fs @ [t1]) (th_queue origin (th_failed origin t1 ?t))"
        using suffix_inv_fail[OF suffix_inv_recent[OF q t]] par by (simp add: th_failed_queue)
      have b': "burst_inv win m c t1 (fs @ [t1]) (card (in_flight origin st - {n}))"
        by (rule burst_inv_fail[OF b[unfolded card] t crowd[unfolded card] m])
      show ?thesis using q' b' par True None
        by (simp add: settle_login_def login_settle_def rate_inv_def in_flight_end Let_def th_failed_queue(3,4))
          (simp add: end_thread_def th_failed_queue)
    next
      case (Some o1)
      then show ?thesis using par True m
        by (simp add: settle_login_def login_settle_def rate_inv_def keep_thread_def th_succeeded_queue suffix_inv_def
            burst_inv_def)
    qed
  qed
qed

definition last_reading :: "real \<Rightarrow> thread_step \<Rightarrow> real" where
  "last_reading t x = last (t # readings x)"

lemma rate_inv_step:
  assumes inv: "rate_inv win m c origin last_t fs st" and m: "0 < m" and crowd: "card (in_flight origin st) \<le> c"
    and up: "\<forall>t \<in> set (readings x). last_t \<le> t"
    and edge: "\<forall>n oid pass orig t0. x = T_Begin n oid pass orig t0 \<longrightarrow> (\<forall>y \<in> set fs. t0 - y \<noteq> win)"
  shows "rate_inv win m c origin (last_reading last_t x) (after_step origin x st fs) (server_step scrypt sha x st)"
proof -
  have par: "th_max (as_throttle (ls_service st)) = m" "th_window (as_throttle (ls_service st)) = win"
    using inv by (simp_all add: rate_inv_def Let_def)
  note frame = rate_inv_frame[OF inv order_refl]
  show ?thesis
  proof (cases x)
    case (T_Begin n oid pass orig t0)
    then show ?thesis using rate_inv_begin[OF inv m, of t0] up edge by (simp add: last_reading_def)
  next
    case (T_Settle n t1)
    have later: "rate_inv win m c origin t1 fs st"
      using rate_inv_frame[OF inv, of t1 st] up T_Settle par by simp
    show ?thesis
    proof (cases "map_of (ls_threads st) n")
      case None
      then show ?thesis using later T_Settle by (simp add: last_reading_def)
    next
      case (Some l)
      then show ?thesis
        using later T_Settle rate_inv_settle[OF inv m _ crowd Some, of t1] up
        by (cases "lt_stage l") (simp_all add: last_reading_def)
    qed
  next
    case (T_Verify n f)
    have "rate_inv win m c origin last_t fs (verify_login scrypt n f l st)"
      if "map_of (ls_threads st) n = Some l" "lt_stage l = Checked" for l
    proof (intro frame)
      show "in_flight origin (verify_login scrypt n f l st) \<subseteq> in_flight origin st"
        using that by (auto simp: verify_login_def in_flight_end in_flight_keep in_flight_iff split: prod.splits sum.splits)
    qed (auto simp: verify_login_def login_verify_def end_thread_def keep_thread_def par split: prod.splits sum.splits)
    then show ?thesis using inv T_Verify
      by (auto simp: last_reading_def split: option.splits login_stage.splits)
  next
    case (T_Issue n t2 token)
    have "rate_inv win m c origin last_t fs (issue_login sha n t2 token o1 st)" for o1
      by (intro frame) (auto simp: issue_login_def login_issue_def end_thread_def par in_flight_iff map_of_dpop
          split: prod.splits if_splits)
    then show ?thesis using inv T_Issue
      by (auto simp: last_reading_def split: option.splits login_stage.splits)
  next
    case (T_Authenticate f now tok)
    then show ?thesis
      using frame[of "st\<lparr>ls_service := as_step scrypt sha (OpAuthenticate f now tok) (ls_service st)\<rparr>"]
      by (simp add: last_reading_def par other_requests_throttle in_flight_service del: as_step.simps)
  next
    case (T_Logout tok)
    then show ?thesis
      using frame[of "st\<lparr>ls_service := as_step scrypt sha (OpLogout tok) (ls_service st)\<rparr>"]
      by (simp add: last_reading_def par other_requests_throttle in_flight_service del: as_step.simps)
  next
    case (T_Revoke_Operator oid)
    then show ?thesis
      using frame[of "st\<lparr>ls_service := as_step scrypt sha (OpRevokeOperator oid) (ls_service st)\<rparr>"]
      by (simp add: last_reading_def par other_requests_throttle in_flight_service del: as_step.simps)
  qed
qed

lemma rate_inv_run:
  assumes "rate_inv win m c origin last_t fs st" and "0 < m" and "crowd_within scrypt sha origin c xs st"
    and "sorted (last_t # concat (map readings xs))"
    and "\<forall>n oid pass orig t0. T_Begin n oid pass orig t0 \<in> set xs \<longrightarrow>
      (\<forall>y \<in> set fs \<union> {t. \<exists>k. T_Settle k t \<in> set xs}. t0 - y \<noteq> win)"
  shows "\<exists>t p. burst_inv win m c t (wrong_guesses scrypt sha origin xs st fs) p"
  using assms(1,3-)
proof (induction xs arbitrary: last_t fs st)
  case Nil
  then show ?case by (auto simp: rate_inv_def)
next
  case (Cons x xs)
  have up: "\<forall>t \<in> set (readings x). last_t \<le> t" using Cons.prems(3) by (auto simp: sorted_append)
  have "rate_inv win m c origin (last_reading last_t x) (after_step origin x st fs) (server_step scrypt sha x st)"
    using Cons.prems(2,4) by (intro rate_inv_step[OF Cons.prems(1) assms(2) _ up]) auto
  moreover have "sorted (last_reading last_t x # concat (map readings xs))"
    using Cons.prems(3) by (cases x) (auto simp: last_reading_def)
  moreover have "set (after_step origin x st fs) \<subseteq> set fs \<union> {t. \<exists>k. x = T_Settle k t}"
    by (cases x) (auto split: option.splits login_stage.splits)
  ultimately show ?case using Cons.IH[of "last_reading last_t x" "after_step origin x st fs" "server_step scrypt sha x st"] Cons.prems(2,4)
    by fastforce
qed

text \<open>C35. Guessing is slow. Logins run in a thread pool, so the calls of any number of them interleave with one
  another and with the other requests; let at most \<open>c\<close> logins of an origin be past the throttle's check and not yet
  settled at any time, and let the clock not go back and no login be checked exactly a window after one was settled.
  Then of any \<open>m + c\<close> consecutive wrong guesses from that origin since its last successful login (a success clears the
  origin's record) the first and the last are at least a window apart, whatever the other origins do: within less
  than a window an origin gets at most \<open>m + c - 1\<close> wrong guesses answered, which is \<open>m\<close> when its logins come one
  after the other.\<close>

theorem login_rate_limited:
  assumes "0 < m" and "crowd_within scrypt sha origin c xs (server_init ttl m win)"
    and "sorted (concat (map readings xs))" and "off_the_edge win xs"
    and "wrong_guesses scrypt sha origin xs (server_init ttl m win) [] = fs" and "i + m + c \<le> length fs"
  shows "win \<le> fs ! (i + m + c - 1) - fs ! i"
proof -
  define t where "t = (case concat (map readings xs) of [] \<Rightarrow> 0 | t # _ \<Rightarrow> t)"
  have "sorted ((case L of [] \<Rightarrow> 0 | t # _ \<Rightarrow> t) # L)" if "sorted L" for L :: "real list"
    using that by (cases L) auto
  from this[OF assms(3)] have "sorted (t # concat (map readings xs))" by (simp only: t_def)
  note clock = this
  have begin0: "rate_inv win m c origin t [] (server_init ttl m win)"
    using assms(1) by (simp add: rate_inv_def server_init_def as_init_def th_init_def th_queue_def suffix_inv_def
        burst_inv_def)
  have "\<forall>n oid pass orig t0. T_Begin n oid pass orig t0 \<in> set xs \<longrightarrow>
      (\<forall>y \<in> set [] \<union> {t. \<exists>k. T_Settle k t \<in> set xs}. t0 - y \<noteq> win)"
    using assms(4) by (simp add: off_the_edge_def) blast
  from rate_inv_run[OF begin0 assms(1,2) clock this] obtain t' p where "burst_inv win m c t' fs p"
    unfolding assms(5) by blast
  then show ?thesis using assms(6) by (simp add: burst_inv_def)
qed

section \<open>Accounts on disk\<close>

definition keyed :: "(string, op_record) dict \<Rightarrow> bool" where
  "keyed d \<longleftrightarrow> dict_ok d \<and> (\<forall>(k, r) \<in> set d. k = rc_id r)"

definition roles_ok :: "op_record list \<Rightarrow> bool" where
  "roles_ok recs \<longleftrightarrow> (\<forall>r \<in> set recs. parse_role (rc_role r) \<noteq> None)"

lemma keyed_dset: "keyed d \<Longrightarrow> keyed (dset (rc_id r) r d)"
proof -
  have "x \<in> set (dset k v d) \<Longrightarrow> x = (k, v) \<or> x \<in> set d" for x k and v :: op_record
    by (induction d) (auto split: if_splits)
  then show "keyed d \<Longrightarrow> keyed (dset (rc_id r) r d)" unfolding keyed_def by fastforce
qed

lemma keyed_dpop: "keyed d \<Longrightarrow> keyed (dpop k d)"
proof -
  have "x \<in> set (dpop k d) \<Longrightarrow> x \<in> set d" for x by (induction d) (auto split: if_splits)
  then show "keyed d \<Longrightarrow> keyed (dpop k d)" unfolding keyed_def by fastforce
qed

lemma keyed_records_dict: "keyed (records_dict recs)"
proof -
  have "keyed d \<Longrightarrow> keyed (foldl (\<lambda>d r. dset (rc_id r) r d) d recs)" for d
    by (induction recs arbitrary: d) (simp_all add: keyed_dset)
  from this[of "[]"] show ?thesis by (simp add: records_dict_def keyed_def)
qed

lemma keyed_mem: "keyed d \<Longrightarrow> r \<in> snd ` set d \<longleftrightarrow> map_of d (rc_id r) = Some r"
  unfolding keyed_def by (force simp: dict_ok_mem[symmetric])

lemma map_of_records_dict:
  assumes "distinct (map rc_id recs)"
  shows "map_of (records_dict recs) k = Some r \<longleftrightarrow> r \<in> set recs \<and> rc_id r = k"
proof -
  have "map_of (foldl (\<lambda>d r. dset (rc_id r) r d) d recs) k = Some r \<longleftrightarrow>
      (r \<in> set recs \<and> rc_id r = k) \<or> (k \<notin> rc_id ` set recs \<and> map_of d k = Some r)" for d
    using assms
    by (induction recs arbitrary: d) (auto simp: map_of_dset)
  from this[of "[]"] show ?thesis by (simp add: records_dict_def)
qed

lemma keyed_key: "keyed d \<Longrightarrow> map_of d k = Some r \<Longrightarrow> rc_id r = k"
  unfolding keyed_def by (auto dest!: map_of_SomeD)

text \<open>Writing the records out, in any order, and reading them back.\<close>

lemma written_records:
  assumes "keyed d"
  shows "map_of (records_dict (sort_key rc_id (map snd d))) = map_of d"
proof -
  have ids: "map rc_id (map snd d) = map fst d"
    using assms by (auto simp: keyed_def)
  have "distinct (map rc_id (map snd d))" using assms unfolding ids keyed_def dict_ok_def by blast
  then have dist: "distinct (map rc_id (sort_key rc_id (map snd d)))"
    by (simp only: distinct_map set_sort distinct_sort)
  have "map_of (records_dict (sort_key rc_id (map snd d))) k = Some r \<longleftrightarrow> map_of d k = Some r" for k r
    using map_of_records_dict[OF dist, of k r] keyed_mem[OF assms, of r] keyed_key[OF assms, of k r]
    by auto
  then show ?thesis by (intro ext) (metis not_None_eq)
qed

lemma parse_role_name: "parse_role (role_name ro) = Some ro"
proof -
  have "parse_role ''VIEWER'' = Some VIEWER" "parse_role ''CHOREOGRAPHER'' = Some CHOREOGRAPHER"
    "parse_role ''FLIGHT_COMMANDER'' = Some FLIGHT_COMMANDER"
    by code_simp+
  then show ?thesis by (cases ro) simp_all
qed

lemma refresh_fresh_stamp:
  assumes "os_stamp s = None" and "of_mode g mod 64 = 0" and "of_records g = Some recs" and "roles_ok recs"
  shows "os_refresh (Some g) s = (Inr (), s\<lparr>os_records := records_dict recs, os_stamp := Some (of_stamp g)\<rparr>)"
proof -
  have "find (\<lambda>r. parse_role (rc_role r) = None) recs = None"
    using assms(4) by (auto simp: find_None_iff roles_ok_def)
  then show ?thesis using assms(1-3) by (simp add: os_refresh_def check_owner_only_def)
qed

lemma refresh_start:
  assumes "os_refresh f os_init = (Inr u, s)"
  shows "os_records s = records_dict (file_records f)" and "roles_ok (file_records f)"
  using assms by (auto simp: os_refresh_def os_init_def file_records_def records_dict_def roles_ok_def
      find_None_iff split: option.splits)

lemma roles_ok_records:
  assumes "roles_ok recs" and "r \<in> snd ` set (records_dict recs)"
  shows "parse_role (rc_role r) \<noteq> None"
proof -
  have "map_of (records_dict recs) (rc_id r) = Some r"
    using assms(2) keyed_mem[OF keyed_records_dict] by simp
  then show ?thesis using records_dict_mem[of recs] assms(1) by (simp add: roles_ok_def)
qed

text \<open>Accounts survive the disk: when adding an operator succeeds, the file it leaves is
  readable by its owner only; whoever reads it then, with an empty cache, lets the operator in
  with that passphrase and in the given role; and every other operator is as before.\<close>

theorem added_operator_can_log_in:
  assumes "os_add scrypt salt stamp oid ro pass rep (os_init, f) = (Inr o1, (s', f'))"
  shows "o1 = \<lparr>op_id = oid, op_role = ro\<rparr> \<and> operator_id_matches oid \<and> 12 \<le> py_len pass \<and>
    fst (os_verify scrypt f' oid pass s') = Inr (Some o1) \<and>
    (\<forall>g. f' = Some g \<longrightarrow> check_owner_only g = None) \<and>
    (\<forall>k. k \<noteq> oid \<longrightarrow> fst (os_get f' k s') = fst (os_get f k os_init)) \<and>
    (\<not> rep \<longrightarrow> fst (os_get f oid os_init) = Inr None)"
proof -
  have pre: "operator_id_matches oid" "\<not> py_len pass < MIN_PASSPHRASE_LEN"
    using assms by (auto simp: os_add_def sx_throw_def split: if_splits)
  obtain s1 where ref: "os_refresh f os_init = (Inr (), s1)" and
    old: "\<not> (map_of (os_records s1) oid \<noteq> None \<and> \<not> rep)"
    and run: "(case scrypt pass salt SCRYPT of
             None \<Rightarrow> sx_throw HashError
           | Some h \<Rightarrow>
               sx_then (sx_modify (\<lambda>(s, f). (s\<lparr>os_records := dset oid
                   \<lparr>rc_id = oid, rc_role = role_name ro, rc_salt = Some salt, rc_hash = Some h,
                    rc_scrypt = Some SCRYPT\<rparr> (os_records s)\<rparr>, f)))
              (sx_then (os_write stamp) (sx_return \<lparr>op_id = oid, op_role = ro\<rparr>))) (s1, f) = (Inr o1, (s', f'))"
    using assms pre unfolding os_add_def os_refresh_fs_def
    by (auto simp: sx_then_Inr sx_bind_Inr sx_get_def sx_throw_def split: prod.splits if_splits)
  obtain h st where h: "scrypt pass salt SCRYPT = Some h" and st: "stamp = Some st"
    using run by (cases stamp; cases "scrypt pass salt SCRYPT")
      (auto simp: sx_defs os_write_def)
  let ?rc = "\<lparr>rc_id = oid, rc_role = role_name ro, rc_salt = Some salt, rc_hash = Some h, rc_scrypt = Some SCRYPT\<rparr>"
  let ?d = "dset oid ?rc (os_records s1)"
  let ?recs = "sort_key rc_id (map snd ?d)"
  let ?g = "\<lparr>of_stamp = st, of_mode = 6 * 64, of_records = Some ?recs\<rparr>"
  have s': "s' = s1\<lparr>os_records := ?d, os_stamp := None\<rparr>" and f': "f' = Some ?g"
    and o1: "o1 = \<lparr>op_id = oid, op_role = ro\<rparr>"
    using run h st by (auto simp: sx_defs os_write_def)
  note s1 = refresh_start[OF ref]
  have keyed1: "keyed (os_records s1)" using s1(1) keyed_records_dict by simp
  then have keyed: "keyed ?d" using keyed_dset[of "os_records s1" ?rc] by simp
  have roles: "roles_ok ?recs"
    unfolding roles_ok_def
  proof
    fix r assume "r \<in> set ?recs"
    then have "map_of ?d (rc_id r) = Some r" using keyed_mem[OF keyed] by simp
    then have "r = ?rc \<or> r \<in> snd ` set (os_records s1)"
      using keyed_mem[OF keyed1] by (auto simp: map_of_dset split: if_splits)
    then show "parse_role (rc_role r) \<noteq> None"
      using roles_ok_records[OF s1(2)] s1(1) parse_role_name by auto
  qed
  have ref': "os_refresh f' s' = (Inr (), s'\<lparr>os_records := records_dict ?recs, os_stamp := Some st\<rparr>)"
    using refresh_fresh_stamp[of s' ?g ?recs] roles unfolding f' by (simp add: s')
  have look: "map_of (records_dict ?recs) k = (if k = oid then Some ?rc else map_of (os_records s1) k)" for k
    using written_records[OF keyed] by (simp add: map_of_dset)
  have "fst (os_verify scrypt f' oid pass s') = Inr (Some o1)"
    using ref' look h o1
    by (simp add: os_verify_def sx_defs sx_lift_def Let_def operator_of_def parse_role_name)
  moreover have "fst (os_get f' k s') = fst (os_get f k os_init)" if "k \<noteq> oid" for k
    using that ref ref' look by (simp add: os_get_def sx_defs sx_lift_def split: option.splits sum.splits)
  moreover have "fst (os_get f oid os_init) = Inr None" if "\<not> rep"
    using that old ref by (simp add: os_get_def sx_defs)
  moreover have "check_owner_only ?g = None" by (simp add: check_owner_only_def)
  ultimately show ?thesis
    using pre o1 f' by (simp add: MIN_PASSPHRASE_LEN_def)
qed

section \<open>One operator, end to end\<close>

definition toy_scrypt :: scrypt_fun where
  "toy_scrypt pass salt p = (if pass = ''right guess'' then Some [1] else Some [2])"

definition alice :: op_record where
  "alice = \<lparr>rc_id = ''alice'', rc_role = ''VIEWER'', rc_salt = Some [7], rc_hash = Some [1], rc_scrypt = None\<rparr>"

definition alice_file :: op_file where
  "alice_file = \<lparr>of_stamp = (1, 1), of_mode = 384, of_records = Some [alice]\<rparr>"

definition login_at :: "real \<Rightarrow> login_world" where
  "login_at t = \<lparr>lw_file = Some alice_file, lw_t0 = t, lw_t1 = t, lw_t2 = t, lw_token = ''tok''\<rparr>"

lemma alice_role: "parse_role ''VIEWER'' = Some VIEWER"
  using parse_role_name[of VIEWER] by simp

lemmas login_eval = as_login_unfold th_retry_after_def th_recent_def th_queue_def os_verify_def os_refresh_def
  check_owner_only_def records_dict_def operator_of_def sx_lift_def th_succeeded_def ss_issue_def
  ss_sweep_def th_failed_def

lemma alice_logs_in:
  "as_authenticate id (Some alice_file) 10 (Some ''tok'')
     (run_ops (as_step toy_scrypt id) [OpLogin (login_at 0) ''alice'' ''right guess'' ''lan''] (as_init 60 5 60))
   = (Inr \<lparr>op_id = ''alice'', op_role = VIEWER\<rparr>, s') \<longleftrightarrow>
   s' = snd (as_authenticate id (Some alice_file) 10 (Some ''tok'')
     (run_ops (as_step toy_scrypt id) [OpLogin (login_at 0) ''alice'' ''right guess'' ''lan''] (as_init 60 5 60)))"
  by (auto simp: login_eval as_authenticate_def ss_resolve_def os_get_def alice_def alice_file_def login_at_def
      alice_role as_init_def os_init_def ss_init_def th_init_def toy_scrypt_def sx_defs Let_def)

theorem authenticate_sound_witness:
  "\<exists>ys pass origin zs. [OpLogin (login_at 0) ''alice'' ''right guess'' ''lan''] =
     ys @ OpLogin (login_at 0) ''alice'' pass origin # zs \<and> (10 :: real) < 0 + 60"
proof -
  define content where "content = (\<lambda>_ :: real \<times> nat. Some [alice])"
  obtain s' where run: "as_authenticate id (Some alice_file) 10 (Some ''tok'')
     (run_ops (as_step toy_scrypt id) [OpLogin (login_at 0) ''alice'' ''right guess'' ''lan''] (as_init 60 5 60))
   = (Inr \<lparr>op_id = ''alice'', op_role = VIEWER\<rparr>, s')" using alice_logs_in by blast
  have seen: "\<forall>x \<in> set [OpLogin (login_at 0) ''alice'' ''right guess'' ''lan'']. op_seen_ok content x"
    "seen_ok content (Some alice_file)"
    by (simp_all add: content_def seen_ok_def login_at_def alice_file_def)
  show ?thesis
    using authenticate_sound [OF run seen] by (auto simp: Cons_eq_append_conv)
qed

text \<open>One wrong guess allowed in ten seconds, two logins at a time: both are let through before either has failed,
  so the bound for one at a time does not hold; the third is refused, and ten seconds later one is let through.\<close>

definition guesses :: "thread_step list" where
  "guesses =
     [T_Begin 0 ''alice'' ''a'' ''lan'' 1, T_Begin 1 ''alice'' ''b'' ''lan'' 2,
      T_Verify 0 (Some alice_file), T_Verify 1 (Some alice_file), T_Settle 0 3, T_Settle 1 4,
      T_Begin 2 ''alice'' ''c'' ''lan'' 5,
      T_Begin 3 ''alice'' ''d'' ''lan'' 20, T_Verify 3 (Some alice_file), T_Settle 3 21]"

lemmas server_eval = server_init_def begin_login_def verify_login_def settle_login_def keep_thread_def end_thread_def
  login_check_def login_verify_def login_settle_def th_retry_after_def th_recent_def th_queue_def os_verify_def
  os_refresh_def check_owner_only_def records_dict_def operator_of_def sx_lift_def th_failed_def
  alice_def alice_file_def alice_role as_init_def os_init_def ss_init_def th_init_def toy_scrypt_def

lemma guesses_recorded:
  "wrong_guesses toy_scrypt id ''lan'' guesses (server_init 60 1 10) [] = [3, 4, 21]"
  "crowd_within toy_scrypt id ''lan'' 2 guesses (server_init 60 1 10)"
  by (simp_all add: guesses_def server_eval sx_defs Let_def in_flight_def)

theorem login_rate_limited_witness: "(10 :: real) \<le> [3, 4, 21] ! (0 + 1 + 2 - 1) - [3, 4, 21] ! 0"
proof -
  have "sorted (concat (map readings guesses))" "off_the_edge 10 guesses"
    by (auto simp: guesses_def off_the_edge_def)
  then show ?thesis
    using login_rate_limited [OF _ guesses_recorded(2) _ _ guesses_recorded(1), of 0] by simp
qed

theorem added_operator_can_log_in_witness:
  "\<exists>o1 s' f'. os_add toy_scrypt [7] (Some (3, 90)) ''bob'' CHOREOGRAPHER ''right guess!'' False
     (os_init, Some alice_file) = (Inr o1, (s', f')) \<and> fst (os_get f' ''alice'' s') = Inr (Some
     \<lparr>op_id = ''alice'', op_role = VIEWER\<rparr>)"
proof -
  have bob: "operator_id_matches ''bob''" "\<not> py_len ''right guess!'' < MIN_PASSPHRASE_LEN"
    by code_simp+
  have ref: "os_refresh (Some alice_file) os_init =
      (Inr (), \<lparr>os_records = [(''alice'', alice)], os_stamp = Some (1, 1)\<rparr>)"
    by (simp add: os_refresh_def alice_file_def os_init_def check_owner_only_def records_dict_def alice_def
        alice_role)
  then obtain o1 s' f' where add: "os_add toy_scrypt [7] (Some (3, 90)) ''bob'' CHOREOGRAPHER
      ''right guess!'' False (os_init, Some alice_file) = (Inr o1, (s', f'))"
    using bob by (simp add: os_add_def os_refresh_fs_def sx_defs os_write_def toy_scrypt_def)
  have "fst (os_get (Some alice_file) ''alice'' os_init) = Inr (Some \<lparr>op_id = ''alice'', op_role = VIEWER\<rparr>)"
    using ref by (simp add: os_get_def sx_defs sx_lift_def operator_of_def alice_def alice_role)
  then show ?thesis
    using added_operator_can_log_in [OF add] add by auto
qed

text \<open>
  The pattern for operator ids ends in a dollar sign, which also matches before a newline at
  the end: an id that is not plain is accepted.
\<close>

lemma operator_id_newline: "operator_id_matches (''eve'' @ [CHR 0x0A]) \<and> \<not> plain_id (''eve'' @ [CHR 0x0A])"
  by code_simp

end
