(* ===== verification/Show.thy ===== *)
theory Show
  imports Safety
begin

text \<open>
  The one representation of a choreography, \<^verbatim>\<open>packages/tara-core/tara_core/show.py\<close>: waypoints,
  the lenient reader \<^verbatim>\<open>Show.from_any\<close> for both historical shapes, the strict reader
  \<^verbatim>\<open>Show.validate_and_load\<close> with the schema its Pydantic models declare, and the quantities
  derived from a show. A waypoint is a record of the keys this code reads; other keys, which
  the code passes through, are left out. A value that is present but not a number, on which
  the code fails at its first arithmetic use, is refused when the waypoint is read.
\<close>

section \<open>Waypoints\<close>

record waypoint =
  w_time :: real
  w_x :: real
  w_y :: real
  w_z :: real
  w_yaw :: "real option"
  w_r :: "real option"
  w_g :: "real option"
  w_b :: "real option"
  w_w :: "real option"
  w_vx :: "real option"
  w_vy :: "real option"
  w_vz :: "real option"

text \<open>\<^verbatim>\<open>wp.get(key, default)\<close>\<close>

definition getd :: "'a option \<Rightarrow> 'a \<Rightarrow> 'a" where
  "getd v d = (case v of None \<Rightarrow> d | Some x \<Rightarrow> x)"

definition SHOW_FORMAT_VERSION :: int where
  "SHOW_FORMAT_VERSION = 1"

definition REQUIRED_KEYS :: "string list" where
  "REQUIRED_KEYS = [''time'', ''x'', ''y'', ''z'']"

datatype show_error =
    NotAShow
  | EntryWithoutId
  | BadInteger string
  | WaypointMissing int "string list"
  | NotUsable

type_synonym choreography = "(int, waypoint list) dict"

text \<open>A number under a key: \<^const>\<open>None\<close> absent, \<^const>\<open>Inl\<close> present but not a number.\<close>

definition number_at :: "(string, json) dict \<Rightarrow> string \<Rightarrow> (unit + real) option" where
  "number_at d k =
     (case map_of d k of None \<Rightarrow> None
      | Some v \<Rightarrow> Some (case as_number v of None \<Rightarrow> Inl () | Some x \<Rightarrow> Inr x))"

definition numeric :: "(string, json) dict \<Rightarrow> string \<Rightarrow> bool" where
  "numeric d k = (number_at d k \<noteq> Some (Inl ()))"

definition opt_number :: "(string, json) dict \<Rightarrow> string \<Rightarrow> real option" where
  "opt_number d k = (case number_at d k of Some (Inr x) \<Rightarrow> Some x | _ \<Rightarrow> None)"

definition waypoint_keys :: "string list" where
  "waypoint_keys = REQUIRED_KEYS @
     [''yaw'', ''r'', ''g'', ''b'', ''w'', ''vx'', ''vy'', ''vz'']"

definition mk_waypoint :: "(string, json) dict \<Rightarrow> waypoint" where
  "mk_waypoint d =
     \<lparr>w_time = getd (opt_number d ''time'') 0, w_x = getd (opt_number d ''x'') 0,
      w_y = getd (opt_number d ''y'') 0, w_z = getd (opt_number d ''z'') 0,
      w_yaw = opt_number d ''yaw'', w_r = opt_number d ''r'', w_g = opt_number d ''g'',
      w_b = opt_number d ''b'', w_w = opt_number d ''w'', w_vx = opt_number d ''vx'',
      w_vy = opt_number d ''vy'', w_vz = opt_number d ''vz''\<rparr>"

definition read_waypoint :: "int \<Rightarrow> json \<Rightarrow> show_error + waypoint" where
  "read_waypoint i v =
     (case v of
        JObj d \<Rightarrow>
          let missing = filter (\<lambda>k. map_of d k = None) REQUIRED_KEYS in
          if missing \<noteq> [] then Inl (WaypointMissing i missing)
          else if list_all (numeric d) waypoint_keys then Inr (mk_waypoint d) else Inl NotUsable
      | _ \<Rightarrow> Inl NotUsable)"

fun map_result :: "('a \<Rightarrow> 'e + 'b) \<Rightarrow> 'a list \<Rightarrow> 'e + 'b list" where
  "map_result f [] = Inr []"
| "map_result f (x # xs) =
     (case f x of Inl e \<Rightarrow> Inl e
      | Inr y \<Rightarrow> (case map_result f xs of Inl e \<Rightarrow> Inl e | Inr ys \<Rightarrow> Inr (y # ys)))"

lemma map_result_Inr: "map_result f xs = Inr ys \<longleftrightarrow> list_all2 (\<lambda>x y. f x = Inr y) xs ys"
proof (induction xs arbitrary: ys)
  case (Cons x xs)
  show ?case by (auto split: sum.splits simp: list_all2_Cons1 simp flip: Cons.IH)
qed auto

section \<open>The lenient reader\<close>

text \<open>\<^verbatim>\<open>int(s)\<close> of a string: trimmed, an optional sign, decimal digits with single underscores.\<close>

definition digit_of :: "char \<Rightarrow> int option" where
  "digit_of c = (let k = of_char c :: nat in if 48 \<le> k \<and> k \<le> 57 then Some (int k - 48) else None)"

fun parse_digits :: "bool \<Rightarrow> int \<Rightarrow> string \<Rightarrow> int option" where
  "parse_digits after acc [] = (if after then Some acc else None)"
| "parse_digits after acc (c # cs) =
     (if c = CHR ''_'' then (if after then parse_digits False acc cs else None)
      else case digit_of c of None \<Rightarrow> None | Some v \<Rightarrow> parse_digits True (10 * acc + v) cs)"

definition parse_int :: "string \<Rightarrow> int option" where
  "parse_int s =
     (case py_strip s of
        [] \<Rightarrow> None
      | c # cs \<Rightarrow>
          if c = CHR ''-'' then map_option uminus (parse_digits False 0 cs)
          else if c = CHR ''+'' then parse_digits False 0 cs
          else parse_digits False 0 (c # cs))"

fun as_py_int :: "json \<Rightarrow> int option" where
  "as_py_int (JInt i) = Some i"
| "as_py_int (JBool b) = Some (if b then 1 else 0)"
| "as_py_int (JNum x) = Some (py_int x)"
| "as_py_int (JStr s) = parse_int s"
| "as_py_int _ = None"

text \<open>What a caller hands over: a show already built, a JSON value, or the dictionary with
  integer keys the GCS builds itself.\<close>

datatype show_data =
    AlreadyShow choreography
  | FromJson json
  | IntDict "(int \<times> json) list"

text \<open>\<^verbatim>\<open>list(v)\<close> of a waypoint list; of another JSON value it is not one.\<close>

fun waypoint_list :: "json \<Rightarrow> show_error + json list" where
  "waypoint_list (JList ws) = Inr ws"
| "waypoint_list _ = Inl NotUsable"

definition studio_entry :: "json \<Rightarrow> show_error + int \<times> json list" where
  "studio_entry e =
     (case e of
        JObj d \<Rightarrow>
          (case map_of d ''id'' of
             None \<Rightarrow> Inl EntryWithoutId
           | Some v \<Rightarrow>
               (case as_py_int v of
                  None \<Rightarrow> Inl (BadInteger ''id'')
                | Some i \<Rightarrow>
                    (case (case map_of d ''waypoints'' of None \<Rightarrow> Inr [] | Some w \<Rightarrow> waypoint_list w) of
                       Inl err \<Rightarrow> Inl err | Inr ws \<Rightarrow> Inr (i, ws))))
      | _ \<Rightarrow> Inl NotUsable)"

definition gcs_entry :: "string \<times> json \<Rightarrow> show_error + int \<times> json list" where
  "gcs_entry kv =
     (case parse_int (fst kv) of
        None \<Rightarrow> Inl (BadInteger (fst kv))
      | Some i \<Rightarrow> (case waypoint_list (snd kv) of Inl e \<Rightarrow> Inl e | Inr ws \<Rightarrow> Inr (i, ws)))"

definition raw_drones :: "show_data \<Rightarrow> show_error + (int \<times> json list) list" where
  "raw_drones data =
     (case data of
        FromJson (JObj d) \<Rightarrow>
          (case map_of d ''drones'' of
             Some (JList es) \<Rightarrow> map_result studio_entry es
           | _ \<Rightarrow> map_result gcs_entry (filter (\<lambda>(k, v). take 1 k \<noteq> ''_'') d))
      | IntDict d \<Rightarrow>
          map_result (\<lambda>(i, v). case waypoint_list v of Inl e \<Rightarrow> Inl e | Inr ws \<Rightarrow> Inr (i, ws)) d
      | _ \<Rightarrow> Inl NotAShow)"

definition dict_of :: "('k \<times> 'v) list \<Rightarrow> ('k, 'v) dict" where
  "dict_of kvs = foldl (\<lambda>d (k, v). dset k v d) [] kvs"

definition from_any :: "show_data \<Rightarrow> show_error + choreography" where
  "from_any data =
     (case data of
        AlreadyShow s \<Rightarrow> Inr s
      | _ \<Rightarrow>
          (case raw_drones data of
             Inl e \<Rightarrow> Inl e
           | Inr raw \<Rightarrow>
               map_result (\<lambda>(i, ws). case map_result (read_waypoint i) ws of
                   Inl e \<Rightarrow> Inl e | Inr wps \<Rightarrow> Inr (i, wps)) (dict_of raw)))"

section \<open>Derived quantities\<close>

definition num_drones :: "choreography \<Rightarrow> nat" where
  "num_drones s = length s"

definition max_default :: "real \<Rightarrow> real list \<Rightarrow> real" where
  "max_default d xs = (case xs of [] \<Rightarrow> d | x # xs' \<Rightarrow> foldl max x xs')"

definition duration :: "choreography \<Rightarrow> real" where
  "duration s = max_default 0 (map (\<lambda>wps. w_time (last wps)) (filter (\<lambda>wps. wps \<noteq> []) (map snd s)))"

definition has_light_data :: "choreography \<Rightarrow> bool" where
  "has_light_data s \<longleftrightarrow> list_ex (\<lambda>(i, wps). list_ex (\<lambda>wp. w_r wp \<noteq> None) wps) s"

definition max_horizontal_radius_m :: "choreography \<Rightarrow> real" where
  "max_horizontal_radius_m s =
     max_default 0 (map (\<lambda>wp. sqrt ((w_x wp)\<^sup>2 + (w_y wp)\<^sup>2)) (concat (map snd s)))"

record envelope =
  en_envelope_radius :: real
  en_soft_radius :: real
  en_hard_radius :: real

definition geofence_envelope :: "choreography \<Rightarrow> limits \<Rightarrow> limits_error + envelope" where
  "geofence_envelope s l =
     (let r = max_horizontal_radius_m s in
      case geofence_radii l r of Inl e \<Rightarrow> Inl e
      | Inr (soft, hard) \<Rightarrow>
          Inr \<lparr>en_envelope_radius = r, en_soft_radius = soft, en_hard_radius = hard\<rparr>)"

definition opt_field :: "string \<Rightarrow> real option \<Rightarrow> (string \<times> json) list" where
  "opt_field k v = (case v of None \<Rightarrow> [] | Some x \<Rightarrow> [(k, JNum x)])"

definition waypoint_json :: "waypoint \<Rightarrow> json" where
  "waypoint_json wp = JObj
     ([(''time'', JNum (w_time wp)), (''x'', JNum (w_x wp)), (''y'', JNum (w_y wp)),
       (''z'', JNum (w_z wp))] @
      opt_field ''yaw'' (w_yaw wp) @ opt_field ''r'' (w_r wp) @ opt_field ''g'' (w_g wp) @
      opt_field ''b'' (w_b wp) @ opt_field ''w'' (w_w wp) @ opt_field ''vx'' (w_vx wp) @
      opt_field ''vy'' (w_vy wp) @ opt_field ''vz'' (w_vz wp))"

definition to_studio :: "choreography \<Rightarrow> json" where
  "to_studio s = JObj
     [(''version'', JInt SHOW_FORMAT_VERSION),
      (''drones'', JList (map (\<lambda>(i, wps). JObj [(''id'', JInt i), (''waypoints'', JList (map waypoint_json wps))])
         (sort_key fst s))),
      (''_duration'', JNum (duration s))]"

definition to_gcs :: "choreography \<Rightarrow> (int, waypoint list) dict" where
  "to_gcs s = s"

section \<open>The schema of a show file\<close>

text \<open>
  What the Pydantic models accept, strictly: an integer field takes integers only, a float
  field integers and finite floats, none of them a Boolean; an optional field may be left out
  but not null; unknown keys pass.
\<close>

fun is_float :: "json \<Rightarrow> bool" where
  "is_float (JInt i) = True"
| "is_float (JNum x) = True"
| "is_float _ = False"

fun is_int :: "json \<Rightarrow> bool" where
  "is_int (JInt i) = True"
| "is_int _ = False"

definition required :: "(json \<Rightarrow> bool) \<Rightarrow> (string, json) dict \<Rightarrow> string \<Rightarrow> bool" where
  "required P d k = (case map_of d k of None \<Rightarrow> False | Some v \<Rightarrow> P v)"

definition optional :: "(json \<Rightarrow> bool) \<Rightarrow> (string, json) dict \<Rightarrow> string \<Rightarrow> bool" where
  "optional P d k = (case map_of d k of None \<Rightarrow> True | Some v \<Rightarrow> P v)"

definition float_in :: "(real \<Rightarrow> bool) \<Rightarrow> json \<Rightarrow> bool" where
  "float_in P v \<longleftrightarrow> is_float v \<and> (case as_number v of None \<Rightarrow> False | Some x \<Rightarrow> P x)"

definition int_in :: "(int \<Rightarrow> bool) \<Rightarrow> json \<Rightarrow> bool" where
  "int_in P v \<longleftrightarrow> (case v of JInt i \<Rightarrow> P i | _ \<Rightarrow> False)"

definition led_channel :: "json \<Rightarrow> bool" where
  "led_channel = int_in (\<lambda>i. 0 \<le> i \<and> i \<le> 255)"

definition waypoint_schema :: "json \<Rightarrow> bool" where
  "waypoint_schema v =
     (case v of
        JObj d \<Rightarrow>
          required (float_in (\<lambda>x. 0 \<le> x)) d ''time'' \<and>
          required (float_in (\<lambda>x. True)) d ''x'' \<and> required (float_in (\<lambda>x. True)) d ''y'' \<and>
          required (float_in (\<lambda>x. True)) d ''z'' \<and>
          required (float_in (\<lambda>x. 0 \<le> x \<and> x < 360)) d ''yaw'' \<and>
          optional led_channel d ''r'' \<and> optional led_channel d ''g'' \<and>
          optional led_channel d ''b'' \<and> optional led_channel d ''w'' \<and>
          optional (float_in (\<lambda>x. True)) d ''vx'' \<and> optional (float_in (\<lambda>x. True)) d ''vy'' \<and>
          optional (float_in (\<lambda>x. True)) d ''vz''
      | _ \<Rightarrow> False)"

definition list_of :: "(json \<Rightarrow> bool) \<Rightarrow> json \<Rightarrow> bool" where
  "list_of P v = (case v of JList vs \<Rightarrow> list_all P vs | _ \<Rightarrow> False)"

definition track_schema :: "json \<Rightarrow> bool" where
  "track_schema v =
     (case v of
        JObj d \<Rightarrow> required (int_in (\<lambda>i. 0 \<le> i \<and> i < MAX_FLEET_SIZE)) d ''id'' \<and>
                  required (list_of waypoint_schema) d ''waypoints''
      | _ \<Rightarrow> False)"

definition envelope_schema :: "json \<Rightarrow> bool" where
  "envelope_schema v =
     (case v of
        JObj d \<Rightarrow> required (float_in (\<lambda>x. 0 \<le> x)) d ''envelope_radius_m'' \<and>
                  required (float_in (\<lambda>x. 0 \<le> x)) d ''soft_warning_radius_m'' \<and>
                  required (float_in (\<lambda>x. 0 \<le> x)) d ''hard_geofence_radius_m''
      | _ \<Rightarrow> False)"

definition track_id :: "json \<Rightarrow> int option" where
  "track_id v = (case v of JObj d \<Rightarrow> (case map_of d ''id'' of Some (JInt i) \<Rightarrow> Some i | _ \<Rightarrow> None) | _ \<Rightarrow> None)"

definition unique_ids :: "json \<Rightarrow> bool" where
  "unique_ids v = (case v of JList ts \<Rightarrow> distinct (map track_id ts) | _ \<Rightarrow> False)"

definition signature_ref_schema :: "json \<Rightarrow> bool" where
  "signature_ref_schema v = (case v of JNull \<Rightarrow> True | JStr s \<Rightarrow> s \<noteq> [] | _ \<Rightarrow> False)"

definition container_schema :: "json \<Rightarrow> bool" where
  "container_schema v =
     (case v of
        JObj d \<Rightarrow>
          required (int_in (\<lambda>i. 1 \<le> i)) d ''version'' \<and>
          required (\<lambda>ts. list_of track_schema ts \<and> unique_ids ts) d ''drones'' \<and>
          optional envelope_schema d ''_geofence'' \<and>
          optional signature_ref_schema d ''signature_ref''
      | _ \<Rightarrow> False)"

definition load_track :: "json \<Rightarrow> (int \<times> waypoint list) option" where
  "load_track v =
     (case v of
        JObj d \<Rightarrow>
          (case (map_of d ''id'', map_of d ''waypoints'') of
             (Some (JInt i), Some (JList ws)) \<Rightarrow>
               Some (i, map (\<lambda>w. case w of JObj e \<Rightarrow> mk_waypoint e | _ \<Rightarrow> mk_waypoint []) ws)
           | _ \<Rightarrow> None)
      | _ \<Rightarrow> None)"

definition validate_and_load :: "json \<Rightarrow> choreography option" where
  "validate_and_load v =
     (if \<not> container_schema v then None
      else case v of
        JObj d \<Rightarrow> (case map_of d ''drones'' of
            Some (JList ts) \<Rightarrow> Some (dict_of (List.map_filter load_track ts)) | _ \<Rightarrow> None)
      | _ \<Rightarrow> None)"

section \<open>Lemmas\<close>

lemma dict_of_distinct:
  assumes "distinct (map fst kvs)"
  shows "dict_of kvs = kvs"
proof -
  have update_new: "k \<notin> fst ` set d \<Longrightarrow> dset k v d = d @ [(k, v)]" for k and v :: 'b and d
    by (induction d) auto
  have "distinct (map fst kvs) \<Longrightarrow> fst ` set kvs \<inter> fst ` set d = {} \<Longrightarrow>
      foldl (\<lambda>d (k, v). dset k v d) d kvs = d @ kvs" for d
    by (induction kvs arbitrary: d) (auto simp: update_new)
  then show ?thesis using assms by (simp add: dict_of_def)
qed

lemma foldl_max_le: "foldl max a xs \<le> b \<longleftrightarrow> (a :: real) \<le> b \<and> (\<forall>x \<in> set xs. x \<le> b)"
  by (induction xs arbitrary: a) auto

lemma max_default_ge: "x \<in> set xs \<Longrightarrow> x \<le> max_default d xs"
  using foldl_max_le[of "hd xs" "tl xs" "max_default d xs"]
  by (cases xs) (auto simp: max_default_def)

text \<open>What an accepted waypoint looks like.\<close>

definition well_typed_waypoint :: "waypoint \<Rightarrow> bool" where
  "well_typed_waypoint wp \<longleftrightarrow> 0 \<le> w_time wp \<and>
     (\<exists>yaw. w_yaw wp = Some yaw \<and> 0 \<le> yaw \<and> yaw < 360) \<and>
     (\<forall>c \<in> {w_r wp, w_g wp, w_b wp, w_w wp}. \<forall>x. c = Some x \<longrightarrow> (\<exists>i :: int. x = of_int i \<and> 0 \<le> i \<and> i \<le> 255))"

lemma required_float:
  "required (float_in P) d k \<Longrightarrow> \<exists>x. opt_number d k = Some x \<and> P x \<and> map_of d k \<noteq> None \<and> numeric d k"
  by (auto simp: required_def float_in_def opt_number_def number_at_def numeric_def
      split: option.splits)

lemma optional_float: "optional (float_in P) d k \<Longrightarrow> numeric d k"
  by (auto simp: optional_def float_in_def number_at_def numeric_def split: option.splits)

lemma optional_led:
  "optional led_channel d k \<Longrightarrow> numeric d k \<and>
     (\<forall>x. opt_number d k = Some x \<longrightarrow> (\<exists>i :: int. x = of_int i \<and> 0 \<le> i \<and> i \<le> 255))"
  by (auto simp: optional_def led_channel_def int_in_def number_at_def numeric_def opt_number_def
      split: option.splits json.splits)

lemma schema_reads:
  assumes "waypoint_schema (JObj d)"
  shows "read_waypoint i (JObj d) = Inr (mk_waypoint d)" and "well_typed_waypoint (mk_waypoint d)"
proof -
  have s: "required (float_in (\<lambda>x. 0 \<le> x)) d ''time''" "required (float_in (\<lambda>x. True)) d ''x''"
    "required (float_in (\<lambda>x. True)) d ''y''" "required (float_in (\<lambda>x. True)) d ''z''"
    "required (float_in (\<lambda>x. 0 \<le> x \<and> x < 360)) d ''yaw''" "optional led_channel d ''r''"
    "optional led_channel d ''g''" "optional led_channel d ''b''" "optional led_channel d ''w''"
    "optional (float_in (\<lambda>x. True)) d ''vx''" "optional (float_in (\<lambda>x. True)) d ''vy''"
    "optional (float_in (\<lambda>x. True)) d ''vz''"
    using assms by (simp_all add: waypoint_schema_def)
  note f = s(1-5)[THEN required_float] and l = s(6-9)[THEN optional_led] and v = s(10-12)[THEN optional_float]
  have "list_all (numeric d) waypoint_keys"
    using f l[THEN conjunct1] v by (auto simp: waypoint_keys_def REQUIRED_KEYS_def)
  moreover have "filter (\<lambda>k. map_of d k = None) REQUIRED_KEYS = []"
    using f by (auto simp: REQUIRED_KEYS_def)
  ultimately show "read_waypoint i (JObj d) = Inr (mk_waypoint d)" by (simp add: read_waypoint_def)
  obtain t yaw where "opt_number d ''time'' = Some t" "0 \<le> t" and
    "opt_number d ''yaw'' = Some yaw" "0 \<le> yaw" "yaw < 360" using f(1,5) by blast
  then show "well_typed_waypoint (mk_waypoint d)"
    using l[THEN conjunct2] by (simp add: well_typed_waypoint_def mk_waypoint_def getd_def)
qed

lemma track_reads:
  assumes "track_schema t"
  shows "\<exists>i ws wps. studio_entry t = Inr (i, ws) \<and> load_track t = Some (i, wps) \<and> track_id t = Some i \<and>
    0 \<le> i \<and> i < MAX_FLEET_SIZE \<and> map_result (read_waypoint i) ws = Inr wps \<and>
    (\<forall>wp \<in> set wps. well_typed_waypoint wp)"
proof -
  obtain d i ws where t: "t = JObj d" and i: "map_of d ''id'' = Some (JInt i)" "0 \<le> i" "i < MAX_FLEET_SIZE"
    and ws: "map_of d ''waypoints'' = Some (JList ws)" "list_all waypoint_schema ws"
    using assms by (auto simp: track_schema_def required_def int_in_def list_of_def
        split: json.splits option.splits)
  let ?wps = "map (\<lambda>w. case w of JObj e \<Rightarrow> mk_waypoint e | _ \<Rightarrow> mk_waypoint []) ws"
  have each: "read_waypoint i w = Inr (case w of JObj e \<Rightarrow> mk_waypoint e | _ \<Rightarrow> mk_waypoint []) \<and>
      well_typed_waypoint (case w of JObj e \<Rightarrow> mk_waypoint e | _ \<Rightarrow> mk_waypoint [])"
    if "w \<in> set ws" for w
  proof -
    have w: "waypoint_schema w" using that ws(2) by (simp add: list_all_iff)
    then obtain e where "w = JObj e" by (auto simp: waypoint_schema_def split: json.splits)
    then show ?thesis using schema_reads w by simp
  qed
  have "map_result (read_waypoint i) ws = Inr ?wps"
    unfolding map_result_Inr using each by (auto simp: list_all2_conv_all_nth)
  moreover have "\<forall>wp \<in> set ?wps. well_typed_waypoint wp" using each by auto
  ultimately show ?thesis
    using t i ws(1) by (simp add: studio_entry_def load_track_def track_id_def)
qed

lemma max_default_nonneg: "(\<And>x. x \<in> set xs \<Longrightarrow> 0 \<le> x) \<Longrightarrow> 0 \<le> max_default 0 xs"
  using max_default_ge[of "hd xs" xs] by (cases xs) (fastforce simp: max_default_def)+

text \<open>The identifiers of the accepted tracks, and the tracks the strict reader builds.\<close>

lemma map_filter_tracks:
  assumes "list_all track_schema ts"
  shows "map (Some \<circ> fst) (List.map_filter load_track ts) = map track_id ts"
  using assms
proof (induction ts)
  case (Cons t ts)
  then obtain i wps where "load_track t = Some (i, wps)" "track_id t = Some i"
    using track_reads[of t] by auto
  then show ?case using Cons by (simp add: List.map_filter_simps)
qed (simp add: List.map_filter_simps)

lemma tracks_agree:
  assumes "list_all track_schema ts"
  shows "\<exists>raw. map_result studio_entry ts = Inr raw \<and>
    map fst raw = map fst (List.map_filter load_track ts) \<and>
    map_result (\<lambda>(i, ws). case map_result (read_waypoint i) ws of
      Inl e \<Rightarrow> Inl e | Inr wps \<Rightarrow> Inr (i, wps)) raw = Inr (List.map_filter load_track ts) \<and>
    (\<forall>(i, wps) \<in> set (List.map_filter load_track ts). 0 \<le> i \<and> i < MAX_FLEET_SIZE \<and>
      (\<forall>wp \<in> set wps. well_typed_waypoint wp))"
  using assms
proof (induction ts)
  case Nil
  then show ?case by (simp add: List.map_filter_simps)
next
  case (Cons t ts)
  then obtain i ws wps where "studio_entry t = Inr (i, ws)" "load_track t = Some (i, wps)"
    "0 \<le> i" "i < MAX_FLEET_SIZE" "map_result (read_waypoint i) ws = Inr wps"
    "\<forall>wp \<in> set wps. well_typed_waypoint wp"
    using track_reads[of t] by auto
  moreover obtain raw where "map_result studio_entry ts = Inr raw"
    "map fst raw = map fst (List.map_filter load_track ts)"
    "map_result (\<lambda>(i, ws). case map_result (read_waypoint i) ws of
      Inl e \<Rightarrow> Inl e | Inr wps \<Rightarrow> Inr (i, wps)) raw = Inr (List.map_filter load_track ts)"
    "\<forall>(i, wps) \<in> set (List.map_filter load_track ts). 0 \<le> i \<and> i < MAX_FLEET_SIZE \<and>
      (\<forall>wp \<in> set wps. well_typed_waypoint wp)"
    using Cons by auto
  ultimately show ?case
    by (intro exI[of _ "(i, ws) # raw"]) (simp add: List.map_filter_simps)
qed

section \<open>Properties\<close>

text \<open>C36. The strict gate for show files types what it lets through: a file it loads is read
  to the same choreography by the lenient reader every internal caller uses, its drone ids are
  distinct and within the fleet, and every waypoint has a non-negative time, a yaw in
  [0, 360) and LED channels that are whole numbers between 0 and 255.\<close>

theorem validate_and_load_typed:
  assumes "validate_and_load v = Some s"
  shows "from_any (FromJson v) = Inr s \<and> dict_ok s \<and>
    (\<forall>(i, wps) \<in> set s. 0 \<le> i \<and> i < MAX_FLEET_SIZE \<and> (\<forall>wp \<in> set wps. well_typed_waypoint wp))"
proof -
  obtain d ts where v: "v = JObj d" and ts: "map_of d ''drones'' = Some (JList ts)"
    and sch: "list_all track_schema ts" and ids: "distinct (map track_id ts)"
    and s: "s = dict_of (List.map_filter load_track ts)"
    using assms by (auto simp: validate_and_load_def container_schema_def required_def list_of_def
        unique_ids_def split: json.splits option.splits if_splits)
  let ?l = "List.map_filter load_track ts"
  have "distinct (map (Some \<circ> fst) ?l)" using ids map_filter_tracks[OF sch] by simp
  then have dist: "distinct (map fst ?l)" by (simp add: distinct_map inj_on_def)
  obtain raw where raw: "map_result studio_entry ts = Inr raw" "map fst raw = map fst ?l"
    "map_result (\<lambda>(i, ws). case map_result (read_waypoint i) ws of
      Inl e \<Rightarrow> Inl e | Inr wps \<Rightarrow> Inr (i, wps)) raw = Inr ?l"
    and typed: "\<forall>(i, wps) \<in> set ?l. 0 \<le> i \<and> i < MAX_FLEET_SIZE \<and> (\<forall>wp \<in> set wps. well_typed_waypoint wp)"
    using tracks_agree[OF sch] by blast
  have "dict_of raw = raw" "dict_of ?l = ?l" using dict_of_distinct dist raw(2) by metis+
  then have "from_any (FromJson v) = Inr ?l" "s = ?l"
    using v ts raw s by (simp_all add: from_any_def raw_drones_def)
  then show ?thesis using typed dist by (simp add: dict_ok_def)
qed

text \<open>A waypoint on the vertical axis, for examples.\<close>

definition waypoint_at :: "real \<Rightarrow> real \<Rightarrow> waypoint" where
  "waypoint_at t z = \<lparr>w_time = t, w_x = 0, w_y = 0, w_z = z, w_yaw = None, w_r = None, w_g = None,
     w_b = None, w_w = None, w_vx = None, w_vy = None, w_vz = None\<rparr>"

definition example_file :: json where
  "example_file = JObj [(''version'', JInt 1), (''drones'', JList [JObj [(''id'', JInt 3),
     (''waypoints'', JList [JObj [(''time'', JInt 0), (''x'', JNum 1), (''y'', JInt 2),
       (''z'', JInt (-2)), (''yaw'', JInt 90), (''r'', JInt 255)]])]])]"

lemma example_file_loads:
  "validate_and_load example_file = Some [(3, [mk_waypoint [(''time'', JInt 0), (''x'', JNum 1),
     (''y'', JInt 2), (''z'', JInt (-2)), (''yaw'', JInt 90), (''r'', JInt 255)]])]"
  by (simp add: example_file_def validate_and_load_def container_schema_def required_def
      optional_def list_of_def track_schema_def waypoint_schema_def float_in_def int_in_def
      led_channel_def unique_ids_def track_id_def load_track_def dict_of_def MAX_FLEET_SIZE_def
      List.map_filter_simps)

theorem validate_and_load_typed_witness:
  "\<exists>s. validate_and_load example_file = Some s \<and> s \<noteq> [] \<and> from_any (FromJson example_file) = Inr s"
  using validate_and_load_typed[OF example_file_loads] example_file_loads by blast

text \<open>The geofence a show carries is large enough for it: whenever the limits pass their
  checks every show has an envelope, all waypoints of all drones, from the first to the last,
  lie strictly inside the soft warning radius, and the soft radius lies within the hard one.\<close>

theorem show_inside_its_geofence:
  assumes "limits_check l = Inr l'"
  shows "\<exists>e. geofence_envelope s l = Inr e \<and> en_soft_radius e \<le> en_hard_radius e \<and>
    (\<forall>(i, wps) \<in> set s. \<forall>wp \<in> set wps. sqrt ((w_x wp)\<^sup>2 + (w_y wp)\<^sup>2) < en_soft_radius e)"
proof -
  let ?r = "max_horizontal_radius_m s"
  have b: "0 < geofence_soft_warning_buffer_m l"
    "geofence_soft_warning_buffer_m l \<le> geofence_hard_buffer_m l"
    using limits_check_Inr[OF assms] by (simp_all add: limit_fields_def)
  have reach: "sqrt ((w_x wp)\<^sup>2 + (w_y wp)\<^sup>2) \<le> ?r" if "(i, wps) \<in> set s" "wp \<in> set wps" for i wps wp
    unfolding max_horizontal_radius_m_def using that by (intro max_default_ge) force
  have "0 \<le> ?r"
    unfolding max_horizontal_radius_m_def by (rule max_default_nonneg) auto
  then show ?thesis using b reach by (fastforce simp: geofence_envelope_def geofence_radii_def Let_def)
qed

theorem show_inside_its_geofence_witness:
  "\<exists>e. geofence_envelope [(0, [mk_waypoint [(''x'', JInt 3), (''y'', JInt 4)]])] DEFAULT_LIMITS = Inr e \<and>
     5 < en_soft_radius e"
  using show_inside_its_geofence[OF DEFAULT_LIMITS_ok,
      of "[(0, [mk_waypoint [(''x'', JInt 3), (''y'', JInt 4)]])]"]
  by (auto simp: mk_waypoint_def opt_number_def number_at_def getd_def)
end
