(* ===== verification/Geometry.thy ===== *)
theory Geometry
  imports Show
begin

text \<open>
  Waypoint interpolation and coordinates, \<^verbatim>\<open>packages/tara-core/tara_core/geometry.py\<close>: the binary
  search of the segment with its termination, the interpolated state, the minimum-jerk ramp,
  the sample times of a sweep, and the conversion between local and geodetic coordinates.
  Floats are reals. \<^verbatim>\<open>bisect_left\<close> of the standard library is its loop.
\<close>

section \<open>Interpolation\<close>

definition EARTH_RADIUS_M :: real where
  "EARTH_RADIUS_M = 6378137"

text \<open>\<^verbatim>\<open>bisect_left(a, t)\<close> from \<open>lo\<close> to \<open>hi\<close>.\<close>

function bisect_left :: "real list \<Rightarrow> real \<Rightarrow> nat \<Rightarrow> nat \<Rightarrow> nat" where
  "bisect_left a t lo hi =
     (if lo < hi
      then let mid = (lo + hi) div 2 in
        if a ! mid < t then bisect_left a t (mid + 1) hi else bisect_left a t lo mid
      else lo)"
  by pat_completeness auto
termination by (relation "measure (\<lambda>(a, t, lo, hi). hi - lo)") auto

declare bisect_left.simps [simp del]

definition yaw_difference :: "real \<Rightarrow> real \<Rightarrow> real" where
  "yaw_difference yaw1 yaw2 =
     (let diff = py_fmod (yaw2 - yaw1) 360 in if diff > 180 then diff - 360 else diff)"

definition between :: "waypoint \<Rightarrow> waypoint \<Rightarrow> real \<Rightarrow> waypoint" where
  "between w1 w2 t =
     (let span = w_time w2 - w_time w1;
          ratio = (if span > 0 then (t - w_time w1) / span else 0);
          yaw1 = getd (w_yaw w1) 0;
          diff = yaw_difference yaw1 (getd (w_yaw w2) 0);
          rate = (\<lambda>d. Some (if span > 0 then d / span else 0))
      in \<lparr>w_time = t,
          w_x = w_x w1 + ratio * (w_x w2 - w_x w1),
          w_y = w_y w1 + ratio * (w_y w2 - w_y w1),
          w_z = w_z w1 + ratio * (w_z w2 - w_z w1),
          w_yaw = Some (py_fmod (yaw1 + ratio * diff) 360),
          w_r = None, w_g = None, w_b = None, w_w = None,
          w_vx = rate (w_x w2 - w_x w1), w_vy = rate (w_y w2 - w_y w1),
          w_vz = rate (w_z w2 - w_z w1)\<rparr>)"

definition interpolate_waypoint :: "waypoint list \<Rightarrow> real \<Rightarrow> waypoint option" where
  "interpolate_waypoint wps t =
     (if wps = [] then None
      else if t \<le> w_time (wps ! 0) then Some (wps ! 0)
      else if t \<ge> w_time (last wps) then Some (last wps)
      else let i = bisect_left (map w_time wps) t 0 (length wps) in
        Some (between (wps ! (i - 1)) (wps ! i) t))"

section \<open>The minimum-jerk ramp\<close>

definition quintic_profile :: "real \<Rightarrow> real \<times> real \<times> real \<times> real" where
  "quintic_profile ratio =
     (let r = min 1 (max 0 ratio) in
      (6 * r ^ 5 - 15 * r ^ 4 + 10 * r ^ 3,
       30 * r ^ 4 - 60 * r ^ 3 + 30 * r ^ 2,
       120 * r ^ 3 - 180 * r ^ 2 + 60 * r,
       360 * r ^ 2 - 360 * r + 60))"

record segment_state =
  sg_position :: point3
  sg_velocity :: point3
  sg_acceleration :: point3
  sg_jerk :: point3

definition map3 :: "(real \<Rightarrow> real) \<Rightarrow> point3 \<Rightarrow> point3" where
  "map3 f p = (case p of (x, y, z) \<Rightarrow> (f x, f y, f z))"

definition quintic_segment :: "point3 \<Rightarrow> point3 \<Rightarrow> real \<Rightarrow> real \<Rightarrow> segment_state" where
  "quintic_segment p0 p1 dur t =
     (if dur \<le> 0
      then \<lparr>sg_position = p1, sg_velocity = (0, 0, 0), sg_acceleration = (0, 0, 0), sg_jerk = (0, 0, 0)\<rparr>
      else case (p0, p1, quintic_profile (t / dur)) of
        ((x0, y0, z0), (x1, y1, z1), (s, s1, s2, s3)) \<Rightarrow>
          let delta = (x1 - x0, y1 - y0, z1 - z0) in
          \<lparr>sg_position = (x0 + (x1 - x0) * s, y0 + (y1 - y0) * s, z0 + (z1 - z0) * s),
           sg_velocity = map3 (\<lambda>d. d * s1 / dur) delta,
           sg_acceleration = map3 (\<lambda>d. d * s2 / dur ^ 2) delta,
           sg_jerk = map3 (\<lambda>d. d * s3 / dur ^ 3) delta\<rparr>)"

definition jerk_component :: "real \<Rightarrow> real \<Rightarrow> real \<Rightarrow> real \<Rightarrow> real \<Rightarrow> real" where
  "jerk_component a b c d dt = (- a + 2 * b - 2 * c + d) / (2 * dt ^ 3)"

definition jerk_from_positions :: "point3 \<Rightarrow> point3 \<Rightarrow> point3 \<Rightarrow> point3 \<Rightarrow> real \<Rightarrow> real option" where
  "jerk_from_positions a b c d dt =
     (if dt = 0 then None
      else case (a, b, c, d) of ((ax, ay, az), (bx, by_, bz), (cx, cy, cz), (dx, dy, dz)) \<Rightarrow>
        let jx = jerk_component ax bx cx dx dt; jy = jerk_component ay by_ cy dy dt;
            jz = jerk_component az bz cz dz dt
        in Some (sqrt (jx * jx + jy * jy + jz * jz)))"

section \<open>Sweeps and coordinates\<close>

text \<open>\<^const>\<open>None\<close> is the division by a zero step.\<close>

definition sweep_times :: "real \<Rightarrow> real \<Rightarrow> real list option" where
  "sweep_times dur dt =
     (if dur \<le> 0 then Some [0]
      else if dt = 0 then None
      else Some (map (\<lambda>step. of_int step * dt) [0..\<lceil>dur / dt\<rceil>]))"

definition degrees :: "real \<Rightarrow> real" where
  "degrees x = x * (180 / pi)"

definition radians :: "real \<Rightarrow> real" where
  "radians x = x * (pi / 180)"

definition ned_to_geodetic :: "real \<Rightarrow> real \<Rightarrow> real \<Rightarrow> real \<Rightarrow> real \<times> real" where
  "ned_to_geodetic x y home_lat home_lon =
     (home_lat + degrees (x / EARTH_RADIUS_M),
      home_lon + degrees (y / (EARTH_RADIUS_M * cos (radians home_lat))))"

definition geodetic_to_ned :: "real \<Rightarrow> real \<Rightarrow> real \<Rightarrow> real \<Rightarrow> real \<times> real" where
  "geodetic_to_ned lat lon home_lat home_lon =
     (radians (lat - home_lat) * EARTH_RADIUS_M,
      radians (lon - home_lon) * EARTH_RADIUS_M * cos (radians home_lat))"

section \<open>Lemmas\<close>

lemma bisect_left_splits:
  assumes "lo \<le> hi" and "hi \<le> length a"
  shows "lo \<le> bisect_left a t lo hi \<and> bisect_left a t lo hi \<le> hi \<and>
    (lo < bisect_left a t lo hi \<longrightarrow> a ! (bisect_left a t lo hi - 1) < t) \<and>
    (bisect_left a t lo hi < hi \<longrightarrow> t \<le> a ! bisect_left a t lo hi)"
  using assms
proof (induction a t lo hi rule: bisect_left.induct)
  case (1 a t lo hi)
  show ?case
  proof (cases "lo < hi")
    case True
    define mid where "mid = (lo + hi) div 2"
    have mid: "lo \<le> mid" "mid < hi" using True by (auto simp: mid_def)
    have step: "bisect_left a t lo hi =
        (if a ! mid < t then bisect_left a t (mid + 1) hi else bisect_left a t lo mid)"
      using True by (subst bisect_left.simps) (simp add: mid_def Let_def)
    show ?thesis
    proof (cases "a ! mid < t")
      case True
      then have "mid + 1 \<le> bisect_left a t (mid + 1) hi \<and> bisect_left a t (mid + 1) hi \<le> hi \<and>
          (mid + 1 < bisect_left a t (mid + 1) hi \<longrightarrow> a ! (bisect_left a t (mid + 1) hi - 1) < t) \<and>
          (bisect_left a t (mid + 1) hi < hi \<longrightarrow> t \<le> a ! bisect_left a t (mid + 1) hi)"
        using "1.IH"(1)[OF \<open>lo < hi\<close> mid_def] mid "1.prems" by simp
      with True mid step show ?thesis
        by (cases "bisect_left a t (mid + 1) hi = mid + 1") auto
    next
      case False
      then have "lo \<le> bisect_left a t lo mid \<and> bisect_left a t lo mid \<le> mid \<and>
          (lo < bisect_left a t lo mid \<longrightarrow> a ! (bisect_left a t lo mid - 1) < t) \<and>
          (bisect_left a t lo mid < mid \<longrightarrow> t \<le> a ! bisect_left a t lo mid)"
        using "1.IH"(2)[OF \<open>lo < hi\<close> mid_def] mid "1.prems" by simp
      with False mid step show ?thesis
        by (cases "bisect_left a t lo mid = mid") auto
    qed
  next
    case False
    then have "bisect_left a t lo hi = lo" by (subst bisect_left.simps) simp
    with False "1.prems" show ?thesis by simp
  qed
qed

text \<open>Whatever the order of the waypoints, a time strictly inside the span falls into the
  segment the search finds.\<close>

lemma bisect_left_segment:
  assumes "wps \<noteq> []" and "w_time (wps ! 0) < t" and "t < w_time (last wps)"
  defines "i \<equiv> bisect_left (map w_time wps) t 0 (length wps)"
  shows "0 < i" and "i < length wps" and "w_time (wps ! (i - 1)) < t" and "t \<le> w_time (wps ! i)"
proof -
  have s: "i \<le> length wps" "0 < i \<longrightarrow> map w_time wps ! (i - 1) < t"
    "i < length wps \<longrightarrow> t \<le> map w_time wps ! i"
    using bisect_left_splits[of 0 "length wps" "map w_time wps" t] by (simp_all add: i_def)
  show "0 < i"
  proof (rule ccontr)
    assume "\<not> 0 < i"
    then show False using s(3) assms(1,2) by simp
  qed
  show "i < length wps"
  proof (rule ccontr)
    assume "\<not> i < length wps"
    then have "i = length wps" using s(1) by simp
    then show False using s(2) assms(1,3) by (simp add: last_conv_nth)
  qed
  then show "w_time (wps ! (i - 1)) < t" and "t \<le> w_time (wps ! i)"
    using s \<open>0 < i\<close> by simp_all
qed

text \<open>A clamped or convex combination stays between the values it is made of.\<close>

lemma convex_between:
  assumes "0 \<le> r" and "r \<le> (1 :: real)" and "lo \<le> a" "a \<le> hi" "lo \<le> b" "b \<le> hi"
  shows "lo \<le> a + r * (b - a) \<and> a + r * (b - a) \<le> hi"
proof -
  have "a + r * (b - a) = (1 - r) * a + r * b" by (simp add: algebra_simps)
  moreover have "(1 - r) * lo + r * lo \<le> (1 - r) * a + r * b"
    using assms by (intro add_mono mult_left_mono) auto
  moreover have "(1 - r) * a + r * b \<le> (1 - r) * hi + r * hi"
    using assms by (intro add_mono mult_left_mono) auto
  ultimately show ?thesis by (simp add: algebra_simps)
qed

lemma interpolate_within:
  assumes "interpolate_waypoint wps t = Some wp"
    and "\<And>w. w \<in> set wps \<Longrightarrow> lo \<le> f w \<and> f w \<le> hi"
    and "\<And>w1 w2. \<exists>r. f (between w1 w2 t) = f w1 + r * (f w2 - f w1) \<and>
      r = (if w_time w2 - w_time w1 > 0 then (t - w_time w1) / (w_time w2 - w_time w1) else 0)"
  shows "lo \<le> f wp \<and> f wp \<le> hi"
proof (cases "w_time (wps ! 0) < t \<and> t < w_time (last wps) \<and> wps \<noteq> []")
  case True
  let ?i = "bisect_left (map w_time wps) t 0 (length wps)"
  note seg = bisect_left_segment[of wps t]
  have i: "0 < ?i" "?i < length wps" "w_time (wps ! (?i - 1)) < t" "t \<le> w_time (wps ! ?i)"
    using seg True by blast+
  have wp: "wp = between (wps ! (?i - 1)) (wps ! ?i) t"
    using assms(1) True by (auto simp: interpolate_waypoint_def Let_def split: if_splits)
  let ?span = "w_time (wps ! ?i) - w_time (wps ! (?i - 1))"
  let ?r = "(t - w_time (wps ! (?i - 1))) / ?span"
  have span: "0 < ?span" using i by simp
  obtain r where r: "f wp = f (wps ! (?i - 1)) + r * (f (wps ! ?i) - f (wps ! (?i - 1)))" "r = ?r"
    using assms(3)[of "wps ! (?i - 1)" "wps ! ?i"] span wp by auto
  have "0 \<le> ?r" "?r \<le> 1" using i span by (simp_all add: field_simps)
  moreover have "lo \<le> f (wps ! (?i - 1)) \<and> f (wps ! (?i - 1)) \<le> hi" "lo \<le> f (wps ! ?i) \<and> f (wps ! ?i) \<le> hi"
    using assms(2) i(1,2) by simp_all
  ultimately show ?thesis using convex_between[of ?r lo "f (wps ! (?i - 1))" hi "f (wps ! ?i)"] r by simp
next
  case False
  then have "wp \<in> set wps"
    using assms(1) by (auto simp: interpolate_waypoint_def Let_def split: if_splits)
  then show ?thesis by (rule assms(2))
qed

lemma interpolate_Some: "interpolate_waypoint wps t \<noteq> None \<longleftrightarrow> wps \<noteq> []"
  by (auto simp: interpolate_waypoint_def Let_def)

text \<open>The former linear scan: the first segment whose ends enclose the time.\<close>

fun linear_scan :: "waypoint list \<Rightarrow> real \<Rightarrow> (waypoint \<times> waypoint) option" where
  "linear_scan (w1 # w2 # ws) t =
     (if w_time w1 \<le> t \<and> t \<le> w_time w2 then Some (w1, w2) else linear_scan (w2 # ws) t)"
| "linear_scan _ t = None"

definition interpolate_by_scan :: "waypoint list \<Rightarrow> real \<Rightarrow> waypoint option" where
  "interpolate_by_scan wps t =
     (if wps = [] then None
      else if t \<le> w_time (hd wps) then Some (hd wps)
      else if t \<ge> w_time (last wps) then Some (last wps)
      else case linear_scan wps t of None \<Rightarrow> Some (last wps) | Some (w1, w2) \<Rightarrow> Some (between w1 w2 t))"

lemma linear_scan_segment:
  assumes "sorted (map w_time wps)" and "0 < i" "i < length wps"
    and "w_time (wps ! (i - 1)) < t" "t \<le> w_time (wps ! i)"
  shows "linear_scan wps t = Some (wps ! (i - 1), wps ! i)"
  using assms
proof (induction wps t arbitrary: i rule: linear_scan.induct)
  case (1 w1 w2 ws t)
  show ?case
  proof (cases "i = 1")
    case True
    then show ?thesis using "1.prems" by simp
  next
    case False
    then have i: "0 < i - 1" "i - 1 < length (w2 # ws)" using "1.prems"(2,3) by auto
    have "map w_time (w1 # w2 # ws) ! 1 \<le> map w_time (w1 # w2 # ws) ! (i - 1)"
      using i by (intro sorted_nth_mono "1.prems"(1)) simp_all
    then have "w_time w2 \<le> w_time ((w1 # w2 # ws) ! (i - 1))"
      using i by (simp only: nth_map length_Cons) simp
    then have "\<not> t \<le> w_time w2" using "1.prems"(4) by linarith
    moreover have "linear_scan (w2 # ws) t = Some ((w2 # ws) ! (i - 1 - 1), (w2 # ws) ! (i - 1))"
      using "1.prems" i calculation by (intro "1.IH") (auto simp: nth_Cons')
    ultimately show ?thesis using i by (simp add: nth_Cons')
  qed
qed auto

text \<open>C37. The binary search changes nothing: on waypoints in time order, duplicate times
  included, the interpolation finds at every time the state that the linear scan it replaced
  finds.\<close>

theorem interpolate_eq_scan:
  assumes "sorted (map w_time wps)"
  shows "interpolate_waypoint wps t = interpolate_by_scan wps t"
proof (cases "w_time (wps ! 0) < t \<and> t < w_time (last wps) \<and> wps \<noteq> []")
  case True
  then have "linear_scan wps t = Some (wps ! (bisect_left (map w_time wps) t 0 (length wps) - 1),
      wps ! bisect_left (map w_time wps) t 0 (length wps))"
    using bisect_left_segment[of wps t] by (intro linear_scan_segment assms) auto
  then show ?thesis
    using True by (simp add: interpolate_waypoint_def interpolate_by_scan_def hd_conv_nth Let_def)
next
  case False
  then show ?thesis
    by (auto simp: interpolate_waypoint_def interpolate_by_scan_def hd_conv_nth)
qed

theorem interpolate_eq_scan_witness:
  "interpolate_waypoint [waypoint_at 0 0, waypoint_at 2 (-4), waypoint_at 2 (-6), waypoint_at 4 0] 2 =
   interpolate_by_scan [waypoint_at 0 0, waypoint_at 2 (-4), waypoint_at 2 (-6), waypoint_at 4 0] 2 \<and>
   map_option w_z (interpolate_by_scan [waypoint_at 0 0, waypoint_at 2 (-4), waypoint_at 2 (-6), waypoint_at 4 0] 2) =
     Some (-4)"
  using interpolate_eq_scan[of "[waypoint_at 0 0, waypoint_at 2 (-4), waypoint_at 2 (-6), waypoint_at 4 0]" 2]
  by (simp add: interpolate_by_scan_def waypoint_at_def between_def Let_def)

section \<open>Ramps, sweeps and coordinates\<close>

text \<open>The ramp starts and ends at rest, and its components are successive derivatives.\<close>

lemma quintic_profile_ends:
  "quintic_profile 0 = (0, 0, 0, 60)" "quintic_profile 1 = (1, 0, 0, 60)"
  by (simp_all add: quintic_profile_def)

lemma quintic_profile_derivatives:
  fixes r :: real
  shows "((\<lambda>r. 6 * r ^ 5 - 15 * r ^ 4 + 10 * r ^ 3) has_real_derivative
      30 * r ^ 4 - 60 * r ^ 3 + 30 * r ^ 2) (at r)"
    and "((\<lambda>r. 30 * r ^ 4 - 60 * r ^ 3 + 30 * r ^ 2) has_real_derivative
      120 * r ^ 3 - 180 * r ^ 2 + 60 * r) (at r)"
    and "((\<lambda>r. 120 * r ^ 3 - 180 * r ^ 2 + 60 * r) has_real_derivative
      360 * r ^ 2 - 360 * r + 60) (at r)"
  by (auto intro!: derivative_eq_intros)

text \<open>Every instant of the show is at most a step after a sample, and the last sample is not
  before the end.\<close>

lemma sweep_times_cover:
  assumes "0 < dt" and "0 \<le> t" and "t \<le> dur"
  shows "\<exists>ts. sweep_times dur dt = Some ts \<and> dur \<le> last ts \<and> (\<exists>s \<in> set ts. s \<le> t \<and> t < s + dt)"
proof (cases "dur = 0")
  case True
  then show ?thesis using assms by (simp add: sweep_times_def)
next
  case False
  let ?n = "\<lceil>dur / dt\<rceil>" and ?k = "\<lfloor>t / dt\<rfloor>"
  have "0 \<le> dur / dt" using assms by simp
  then have n: "0 \<le> ?n" by linarith
  have "t / dt \<le> dur / dt" using assms by (simp add: divide_right_mono)
  then have k: "0 \<le> ?k" "?k \<le> ?n" using assms by (auto intro: order.trans[OF floor_mono])
  have "dur / dt \<le> of_int ?n" by (rule le_of_int_ceiling)
  then have "dur \<le> of_int ?n * dt" using assms(1) by (simp only: pos_divide_le_eq)
  moreover have "last [0..?n] = ?n" using n by (simp add: upto_rec2)
  moreover have "of_int ?k * dt \<le> t" "t < (of_int ?k + 1) * dt"
    using floor_divide_lower[OF assms(1), of t] floor_divide_upper[OF assms(1), of t] by simp_all
  ultimately show ?thesis
    using False assms n k by (auto simp: sweep_times_def last_map algebra_simps intro!: bexI[of _ "of_int ?k * dt"])
qed

text \<open>Local coordinates survive the way through latitude and longitude, except at a pole.\<close>

lemma geodetic_round_trip:
  assumes "cos (radians home_lat) \<noteq> 0"
  shows "(case ned_to_geodetic x y home_lat home_lon of (lat, lon) \<Rightarrow>
    geodetic_to_ned lat lon home_lat home_lon) = (x, y)"
  using assms
  by (simp add: ned_to_geodetic_def geodetic_to_ned_def degrees_def radians_def EARTH_RADIUS_M_def field_simps)
end
