(* ===== verification/Validate.thy ===== *)
theory Validate
  imports Geometry
begin

text \<open>
  Proximity checks and whole-show validation: \<^verbatim>\<open>packages/tara-core/tara_core/proximity.py\<close>,
  \<^verbatim>\<open>validate.py\<close> and \<^verbatim>\<open>assignment.py\<close>. The spatial index \<^verbatim>\<open>scipy.spatial.cKDTree\<close> and the
  assignment solver \<^verbatim>\<open>scipy.optimize.linear_sum_assignment\<close> are parameters: \<open>near pts r\<close> stands
  for \<^verbatim>\<open>query_pairs(r)\<close>, \<open>second pts\<close> for the second column of \<^verbatim>\<open>query(pts, k=2)\<close>. So is \<open>repr\<close>, the
  text Python prints for a float.
\<close>

section \<open>Proximity\<close>

type_synonym near_pairs = "point3 list \<Rightarrow> real \<Rightarrow> (nat \<times> nat) list"

definition close_pairs :: "near_pairs \<Rightarrow> (int, point3) dict \<Rightarrow> real \<Rightarrow> (int \<times> int \<times> real) list" where
  "close_pairs near positions threshold =
     (let ids = map fst positions; coords = map snd positions in
      if length ids < 2 then []
      else
        sort_key (\<lambda>(a, b, dist). dist)
          (List.map_filter (\<lambda>(i, j).
             let dist = dist3 (coords ! i) (coords ! j) in
             if dist \<ge> threshold then None
             else let a = ids ! i; b = ids ! j in
               Some (if a < b then (a, b, dist) else (b, a, dist)))
           (near coords threshold)))"

text \<open>\<^const>\<open>None\<close> is \<^verbatim>\<open>inf\<close>.\<close>

definition min_separation :: "(point3 list \<Rightarrow> real list) \<Rightarrow> (int, point3) dict \<Rightarrow> real option" where
  "min_separation second positions =
     (if length positions < 2 then None else Some (Min (set (second (map snd positions)))))"

text \<open>What \<^verbatim>\<open>query_pairs\<close> documents: the set of pairs \<open>i < j\<close> at most the radius apart, each once.\<close>

definition finds_near_pairs :: "near_pairs \<Rightarrow> bool" where
  "finds_near_pairs near \<longleftrightarrow> (\<forall>pts r. distinct (near pts r) \<and>
     set (near pts r) = {(i, j). i < j \<and> j < length pts \<and> dist3 (pts ! i) (pts ! j) \<le> r})"

section \<open>Which violations are reported\<close>

definition MAX_REPORTED :: nat where
  "MAX_REPORTED = 50"

definition by_severity :: "(real \<times> 'v) list \<Rightarrow> nat list" where
  "by_severity found = sort_key (\<lambda>i. - fst (found ! i)) [0..<length found]"

text \<open>\<^verbatim>\<open>xs[::step]\<close>\<close>

definition stride :: "nat \<Rightarrow> 'a list \<Rightarrow> 'a list" where
  "stride step xs = map snd (filter (\<lambda>(k, x). k mod step = 0) (enumerate 0 xs))"

definition report_picks :: "nat \<Rightarrow> (real \<times> 'v) list \<Rightarrow> nat list" where
  "report_picks cap found =
     (let most_severe = cap div 2;
          severe = take most_severe (by_severity found);
          rest = filter (\<lambda>i. i \<notin> set severe) [0..<length found];
          step = max 1 (length rest div (cap - most_severe));
          sample = take (cap - most_severe) (stride step rest)
      in sort (remdups (severe @ sample)))"

text \<open>\<^const>\<open>None\<close> is the division by zero of a cap of zero.\<close>

definition report_subset :: "nat \<Rightarrow> (real \<times> 'v) list \<Rightarrow> 'v list option" where
  "report_subset cap found =
     (if length found \<le> cap then Some (map snd found)
      else if cap - cap div 2 = 0 then None
      else Some (map (\<lambda>i. snd (found ! i)) (report_picks cap found)))"

definition worst_of :: "(real \<times> 'v) list \<Rightarrow> 'v option" where
  "worst_of found =
     (case found of [] \<Rightarrow> None
      | x # xs \<Rightarrow> Some (snd (foldl (\<lambda>best item. if fst item > fst best then item else best) x xs)))"

section \<open>The sweep\<close>

datatype violation =
    Proximity (v_time: real) int int real real point3 point3
  | Velocity (v_time: real) int real real
  | Acceleration (v_time: real) int real real
  | YawRate (v_time: real) int real real
  | Altitude (v_time: real) int real real

type_synonym found = "(real \<times> violation) list"

definition positions_at :: "choreography \<Rightarrow> real \<Rightarrow> (int, waypoint) dict" where
  "positions_at s t =
     List.map_filter (\<lambda>(i, wps). map_option (\<lambda>wp. (i, wp)) (interpolate_waypoint wps t)) s"

definition xyz :: "waypoint \<Rightarrow> point3" where
  "xyz wp = (w_x wp, w_y wp, w_z wp)"

definition xyz_at :: "choreography \<Rightarrow> real \<Rightarrow> (int, point3) dict" where
  "xyz_at s t = map (\<lambda>(i, wp). (i, xyz wp)) (positions_at s t)"

text \<open>Ceiling and ground breaches of one waypoint, and the scan over all of them.\<close>

definition altitude_breach :: "limits \<Rightarrow> int \<times> waypoint \<Rightarrow> (real \<times> violation) option" where
  "altitude_breach l iw =
     (let alt = - w_z (snd iw) in
      if alt > max_altitude_m l
      then Some (alt - max_altitude_m l, Altitude (round_to 2 (w_time (snd iw))) (fst iw) (round_to 2 alt)
                  (round_to 2 (max_altitude_m l)))
      else None)"

definition ground_breach :: "limits \<Rightarrow> int \<times> waypoint \<Rightarrow> (real \<times> violation) option" where
  "ground_breach l iw =
     (let alt = - w_z (snd iw) in
      if \<not> alt > max_altitude_m l \<and> alt < 0
      then Some (- alt, Altitude (round_to 2 (w_time (snd iw))) (fst iw) (round_to 2 alt) 0)
      else None)"

definition all_waypoints :: "choreography \<Rightarrow> (int \<times> waypoint) list" where
  "all_waypoints s = concat (map (\<lambda>(i, wps). map (Pair i) wps) s)"

definition altitude_extremes :: "choreography \<Rightarrow> limits \<Rightarrow> (found \<times> found) \<times> real \<times> real" where
  "altitude_extremes s l =
     (let ws = all_waypoints s; alts = map (\<lambda>iw. - w_z (snd iw)) ws in
      ((List.map_filter (altitude_breach l) ws, List.map_filter (ground_breach l) ws),
       (if ws = [] then 0 else round_to 2 (Max (set alts))),
       (if ws = [] then 0 else round_to 2 (Min (set alts)))))"

record motion =
  mo_pos :: point3
  mo_vel :: point3
  mo_yaw :: real

record sweep =
  sw_proximity :: found
  sw_velocity :: found
  sw_acceleration :: found
  sw_yaw_rate :: found
  sw_min_dist :: "real option"
  sw_max_vel :: real
  sw_max_acc :: real
  sw_max_yaw :: real
  sw_prev :: "(int, motion) dict"

definition sweep_start :: sweep where
  "sweep_start = \<lparr>sw_proximity = [], sw_velocity = [], sw_acceleration = [], sw_yaw_rate = [],
     sw_min_dist = None, sw_max_vel = 0, sw_max_acc = 0, sw_max_yaw = 0, sw_prev = []\<rparr>"

definition rate3 :: "real \<Rightarrow> point3 \<Rightarrow> point3 \<Rightarrow> point3" where
  "rate3 dt new old =
     (case (new, old) of ((x, y, z), (x', y', z')) \<Rightarrow> ((x - x') / dt, (y - y') / dt, (z - z') / dt))"

definition length3 :: "point3 \<Rightarrow> real" where
  "length3 p = (case p of (x, y, z) \<Rightarrow> sqrt (x * x + y * y + z * z))"

definition over :: "real \<Rightarrow> real \<Rightarrow> (real \<Rightarrow> real \<Rightarrow> violation) \<Rightarrow> found" where
  "over value limit mk = (if value > limit then [(value - limit, mk (round_to 2 value) (round_to 2 limit))] else [])"

definition motion_step :: "limits \<Rightarrow> real \<Rightarrow> real \<Rightarrow> sweep \<Rightarrow> int \<times> waypoint \<Rightarrow> sweep" where
  "motion_step l dt t sw iw =
     (case iw of (i, wp) \<Rightarrow>
       (let yaw = getd (w_yaw wp) 0 in
        case map_of (sw_prev sw) i of
          None \<Rightarrow> sw\<lparr>sw_prev := dset i \<lparr>mo_pos = xyz wp, mo_vel = (0, 0, 0), mo_yaw = yaw\<rparr> (sw_prev sw)\<rparr>
        | Some before \<Rightarrow>
            let v = rate3 dt (xyz wp) (mo_pos before); speed = length3 v;
                a = rate3 dt v (mo_vel before); accel = length3 a;
                yaw_rate = \<bar>yaw_difference (mo_yaw before) yaw\<bar> / dt
            in sw\<lparr>sw_max_vel := max (sw_max_vel sw) speed,
                  sw_max_acc := max (sw_max_acc sw) accel,
                  sw_max_yaw := max (sw_max_yaw sw) yaw_rate,
                  sw_velocity := sw_velocity sw @ over speed (max_velocity_ms l) (Velocity (round_to 2 t) i),
                  sw_acceleration :=
                    sw_acceleration sw @ over accel (max_accel_ms2 l) (Acceleration (round_to 2 t) i),
                  sw_yaw_rate := sw_yaw_rate sw @ over yaw_rate (max_yaw_rate_dps l) (YawRate (round_to 2 t) i),
                  sw_prev := dset i \<lparr>mo_pos = xyz wp, mo_vel = v, mo_yaw = yaw\<rparr> (sw_prev sw)\<rparr>))"

definition proximity_violation ::
  "real \<Rightarrow> real \<Rightarrow> (int, point3) dict \<Rightarrow> int \<times> int \<times> real \<Rightarrow> real \<times> violation"
where
  "proximity_violation threshold t pos p =
     (case p of (a, b, d) \<Rightarrow>
       (threshold - d,
        Proximity (round_to 2 t) a b (round_to 2 d) (round_to 2 threshold)
          (map3 (round_to 2) (the (map_of pos a))) (map3 (round_to 2) (the (map_of pos b)))))"

definition min_inf :: "real option \<Rightarrow> real option \<Rightarrow> real option" where
  "min_inf x y =
     (case (x, y) of (None, y) \<Rightarrow> y | (x, None) \<Rightarrow> x | (Some a, Some b) \<Rightarrow> Some (min a b))"

definition sweep_step ::
  "near_pairs \<Rightarrow> (point3 list \<Rightarrow> real list) \<Rightarrow> choreography \<Rightarrow> limits \<Rightarrow> real \<Rightarrow> real \<Rightarrow> sweep \<Rightarrow> real \<Rightarrow> sweep"
where
  "sweep_step near second s l threshold dt sw t =
     (let pos = xyz_at s t;
          sw' = sw\<lparr>sw_proximity := sw_proximity sw @
                     map (proximity_violation threshold t pos) (close_pairs near pos threshold),
                   sw_min_dist := min_inf (sw_min_dist sw) (min_separation second pos)\<rparr>
      in foldl (motion_step l dt t) sw' (positions_at s t))"

section \<open>The report\<close>

record metrics =
  me_min_distance_m :: real
  me_max_velocity_m_s :: real
  me_max_acceleration_m_s2 :: real
  me_max_yaw_rate_deg_s :: real
  me_max_altitude_m :: real
  me_min_altitude_m :: real

record method_block =
  mb_sweep_dt_s :: real
  mb_samples :: nat
  mb_min_distance :: string
  mb_motion :: string
  mb_altitude :: string

record validation =
  vr_status :: string
  vr_summary :: string
  vr_metrics :: metrics
  vr_violations :: "(string, violation list) dict"
  vr_worst :: "(string, violation option) dict"
  vr_method :: method_block

datatype validate_error = Unreadable show_error | DivisionByZero

definition method_of :: "real \<Rightarrow> nat \<Rightarrow> method_block" where
  "method_of dt samples = \<lparr>mb_sweep_dt_s = dt, mb_samples = samples, mb_min_distance = ''sampled'',
     mb_motion = ''backward_difference'', mb_altitude = ''waypoint_exact''\<rparr>"

definition KINDS :: "string list" where
  "KINDS = [''proximity'', ''velocity'', ''acceleration'', ''yaw_rate'', ''altitude'', ''ground'']"

definition no_drones_report :: "real \<Rightarrow> validation" where
  "no_drones_report dt =
     \<lparr>vr_status = ''FAILED'', vr_summary = ''No drones found in choreography.'',
      vr_metrics = \<lparr>me_min_distance_m = 0, me_max_velocity_m_s = 0, me_max_acceleration_m_s2 = 0,
        me_max_yaw_rate_deg_s = 0, me_max_altitude_m = 0, me_min_altitude_m = 0\<rparr>,
      vr_violations = map (\<lambda>k. (k, [])) KINDS, vr_worst = map (\<lambda>k. (k, None)) KINDS,
      vr_method = method_of dt 0\<rparr>"

definition found_of :: "sweep \<Rightarrow> found \<times> found \<Rightarrow> (string, found) dict" where
  "found_of sw alt =
     [(''proximity'', sw_proximity sw), (''velocity'', sw_velocity sw),
      (''acceleration'', sw_acceleration sw), (''yaw_rate'', sw_yaw_rate sw),
      (''altitude'', fst alt), (''ground'', snd alt)]"

definition finish_report :: "choreography \<Rightarrow> limits \<Rightarrow> real \<Rightarrow> real list \<Rightarrow> sweep \<Rightarrow> validation" where
  "finish_report s l dt ts sw =
     (case altitude_extremes s l of (alt, max_alt, min_alt) \<Rightarrow>
       (let found = found_of sw alt;
            violations = map (\<lambda>(k, items). (k, case report_subset MAX_REPORTED items of
                None \<Rightarrow> [] | Some vs \<Rightarrow> vs)) found;
            failed = list_ex (\<lambda>(k, vs). vs \<noteq> []) violations
        in \<lparr>vr_status = (if failed then ''FAILED'' else ''PASSED''),
            vr_summary = (if failed then ''Choreography failed safety validation checks.''
                          else ''Choreography passed all safety checks!''),
            vr_metrics =
              \<lparr>me_min_distance_m = (case sw_min_dist sw of None \<Rightarrow> 0 | Some d \<Rightarrow> round_to 2 d),
               me_max_velocity_m_s = round_to 2 (sw_max_vel sw),
               me_max_acceleration_m_s2 = round_to 2 (sw_max_acc sw),
               me_max_yaw_rate_deg_s = round_to 2 (sw_max_yaw sw),
               me_max_altitude_m = max_alt, me_min_altitude_m = min_alt\<rparr>,
            vr_violations = violations,
            vr_worst = map (\<lambda>(k, items). (k, worst_of items)) found,
            vr_method = method_of dt (length ts)\<rparr>))"

definition validate_show ::
  "near_pairs \<Rightarrow> (point3 list \<Rightarrow> real list) \<Rightarrow> show_data \<Rightarrow> limits \<Rightarrow> real option \<Rightarrow> real \<Rightarrow>
     validate_error + validation"
where
  "validate_show near second data l separation dt =
     (case from_any data of Inl e \<Rightarrow> Inl (Unreadable e)
      | Inr s \<Rightarrow>
          let threshold = getd separation (design_separation_m l) in
          if s = [] then Inr (no_drones_report dt)
          else (case sweep_times (duration s) dt of
              None \<Rightarrow> Inl DivisionByZero
            | Some ts \<Rightarrow>
                Inr (finish_report s l dt ts
                  (foldl (sweep_step near second s l threshold dt) sweep_start ts))))"

section \<open>The upload gates\<close>

text \<open>Append each message, and stop once there are \<open>m\<close>.\<close>

fun collect_until :: "int \<Rightarrow> string list \<Rightarrow> string list \<Rightarrow> string list" where
  "collect_until m acc [] = acc"
| "collect_until m acc (e # es) =
     (let acc' = acc @ [e] in if int (length acc') \<ge> m then acc' else collect_until m acc' es)"

definition collision_text :: "(real \<Rightarrow> string) \<Rightarrow> real \<Rightarrow> real \<Rightarrow> int \<times> int \<times> real \<Rightarrow> string" where
  "collision_text repr threshold t p =
     (case p of (a, b, d) \<Rightarrow>
       ''Collision risk at '' @ fmt_fixed 1 t @ ''s: Drone '' @ py_str a @ '' and Drone '' @ py_str b @
       '' are separated by '' @ fmt_fixed 2 d @ ''m (limit: '' @ repr threshold @ ''m)'')"

definition collision_errors ::
  "(real \<Rightarrow> string) \<Rightarrow> near_pairs \<Rightarrow> show_data \<Rightarrow> limits \<Rightarrow> real option \<Rightarrow> int \<Rightarrow> validate_error + string list"
where
  "collision_errors repr near data l separation m =
     (case from_any data of Inl e \<Rightarrow> Inl (Unreadable e)
      | Inr s \<Rightarrow>
          let threshold = getd separation (min_separation_m l) in
          (case sweep_times (duration s) (1 / 10) of
             None \<Rightarrow> Inl DivisionByZero
           | Some ts \<Rightarrow> Inr (collect_until m []
               (concat (map (\<lambda>t. map (collision_text repr threshold t)
                  (close_pairs near (xyz_at s t) threshold)) ts)))))"

definition altitude_text :: "(real \<Rightarrow> string) \<Rightarrow> violation \<Rightarrow> string" where
  "altitude_text repr v =
     (case v of
        Altitude t i alt limit \<Rightarrow>
          if limit = 0
          then ''Ground violation at '' @ fmt_fixed 1 t @ ''s: Drone '' @ py_str i @ '' is '' @
            fmt_fixed 2 (- alt) @ ''m below ground level.''
          else ''Altitude violation at '' @ fmt_fixed 1 t @ ''s: Drone '' @ py_str i @ '' is '' @
            fmt_fixed 2 alt @ ''m above ground (limit: '' @ repr limit @ ''m).''
      | _ \<Rightarrow> [])"

definition altitude_errors ::
  "(real \<Rightarrow> string) \<Rightarrow> show_data \<Rightarrow> limits \<Rightarrow> int \<Rightarrow> validate_error + string list"
where
  "altitude_errors repr data l m =
     (case from_any data of Inl e \<Rightarrow> Inl (Unreadable e)
      | Inr s \<Rightarrow>
          (case fst (altitude_extremes s l) of (high, ground) \<Rightarrow>
            Inr (collect_until m []
              (map (\<lambda>item. altitude_text repr (snd item))
                (sort_key (\<lambda>item. v_time (snd item)) (high @ ground))))))"

section \<open>Assignment of drones to targets\<close>

datatype assignment_error = SizesDiffer nat nat

definition squared_distance :: "point3 \<Rightarrow> point3 \<Rightarrow> real" where
  "squared_distance p q =
     (case (p, q) of ((x, y, z), (x', y', z')) \<Rightarrow> (x - x')\<^sup>2 + (y - y')\<^sup>2 + (z - z')\<^sup>2)"

text \<open>\<open>solve cost\<close> stands for the rows and columns \<^verbatim>\<open>linear_sum_assignment\<close> returns, paired.\<close>

definition optimal_assignment ::
  "(real list list \<Rightarrow> (nat \<times> nat) list) \<Rightarrow> point3 list \<Rightarrow> point3 list \<Rightarrow> assignment_error + nat list"
where
  "optimal_assignment solve from_pts to_pts =
     (if from_pts = [] then Inr []
      else if length to_pts \<noteq> length from_pts then Inl (SizesDiffer (length from_pts) (length to_pts))
      else
        let cost = map (\<lambda>p. map (squared_distance p) to_pts) from_pts in
        Inr (foldl (\<lambda>perm (r, c). perm[r := c]) (replicate (length from_pts) 0) (solve cost)))"

definition total_cost :: "point3 list \<Rightarrow> point3 list \<Rightarrow> nat list \<Rightarrow> real" where
  "total_cost from_pts to_pts perm =
     (\<Sum>(i, j) \<leftarrow> enumerate 0 perm. squared_distance (from_pts ! i) (to_pts ! j))"

section \<open>Lemmas\<close>

lemma collect_until_Nil: "collect_until m acc es = [] \<longleftrightarrow> acc = [] \<and> es = []"
proof (induction es arbitrary: acc)
  case (Cons e es)
  then show ?case by (simp add: Let_def)
qed simp

lemma map_filter_Nil: "List.map_filter f xs = [] \<longleftrightarrow> (\<forall>x \<in> set xs. f x = None)"
  by (auto simp: List.map_filter_def filter_empty_conv)

lemma report_subset_Nil: "report_subset MAX_REPORTED found = Some [] \<longleftrightarrow> found = []"
  and report_subset_defined: "report_subset MAX_REPORTED found \<noteq> None"
proof -
  have "report_picks MAX_REPORTED found \<noteq> []" if "50 < length found"
  proof -
    have "length (by_severity found) = length found" by (simp add: by_severity_def)
    then have "take (50 div 2) (by_severity found) \<noteq> []" using that by auto
    then show ?thesis
      by (auto simp: report_picks_def Let_def MAX_REPORTED_def dest!: arg_cong[of _ _ set])
  qed
  then show "report_subset MAX_REPORTED found = Some [] \<longleftrightarrow> found = []"
    and "report_subset MAX_REPORTED found \<noteq> None"
    by (auto simp: report_subset_def MAX_REPORTED_def)
qed

text \<open>A pair that is close at a threshold is close at every larger one.\<close>

lemma close_pairs_Nil:
  assumes "finds_near_pairs near"
  shows "close_pairs near pos r = [] \<longleftrightarrow>
    (\<forall>j < length pos. \<forall>i < j. r \<le> dist3 (snd (pos ! i)) (snd (pos ! j)))"
proof -
  have near: "set (near (map snd pos) r) =
      {(i, j). i < j \<and> j < length pos \<and> dist3 (map snd pos ! i) (map snd pos ! j) \<le> r}"
    using assms by (simp add: finds_near_pairs_def)
  have "sort_key f xs = [] \<longleftrightarrow> xs = []" for f :: "int \<times> int \<times> real \<Rightarrow> real" and xs
    by (metis length_0_conv length_sort)
  then show ?thesis
    using near by (auto simp: close_pairs_def Let_def map_filter_Nil not_le) force+
qed

lemma close_pairs_mono:
  "finds_near_pairs near \<Longrightarrow> close_pairs near pos r = [] \<Longrightarrow> r' \<le> r \<Longrightarrow> close_pairs near pos r' = []"
  by (force simp: close_pairs_Nil)

text \<open>The sweep collects the close pairs of every sample.\<close>

lemma motion_steps_proximity:
  "sw_proximity (foldl (motion_step l dt t) sw ps) = sw_proximity sw"
proof (induction ps arbitrary: sw)
  case (Cons p ps)
  have "sw_proximity (motion_step l dt t sw p) = sw_proximity sw"
    by (simp add: motion_step_def Let_def split: prod.splits option.splits)
  then show ?case using Cons by simp
qed simp

lemma sweep_proximity_Nil:
  "sw_proximity (foldl (sweep_step near second s l r dt) sw ts) = [] \<longleftrightarrow>
     sw_proximity sw = [] \<and> (\<forall>t \<in> set ts. close_pairs near (xyz_at s t) r = [])"
proof (induction ts arbitrary: sw)
  case (Cons t ts)
  have "sw_proximity (sweep_step near second s l r dt sw t) = sw_proximity sw @
      map (proximity_violation r t (xyz_at s t)) (close_pairs near (xyz_at s t) r)"
    by (simp add: sweep_step_def motion_steps_proximity Let_def)
  then show ?case using Cons by auto
qed simp

lemma finish_report_passed:
  "vr_status (finish_report s l dt ts sw) = ''PASSED'' \<longleftrightarrow>
     sw_proximity sw = [] \<and> sw_velocity sw = [] \<and> sw_acceleration sw = [] \<and> sw_yaw_rate sw = [] \<and>
     fst (altitude_extremes s l) = ([], [])"
proof -
  have "(case report_subset MAX_REPORTED items of None \<Rightarrow> [] | Some vs \<Rightarrow> vs) = [] \<longleftrightarrow> items = []"
    for items :: found
    using report_subset_Nil[of items] report_subset_defined[of items] by (auto split: option.splits)
  then show ?thesis
    by (auto simp: finish_report_def found_of_def Let_def split: prod.splits)
qed

lemma validate_show_passed:
  assumes "validate_show near second data l sep dt = Inr rep" and "vr_status rep = ''PASSED''"
  shows "\<exists>s ts. from_any data = Inr s \<and> s \<noteq> [] \<and> sweep_times (duration s) dt = Some ts \<and>
    (\<forall>t \<in> set ts. close_pairs near (xyz_at s t) (getd sep (design_separation_m l)) = []) \<and>
    fst (altitude_extremes s l) = ([], [])"
proof -
  obtain s where s: "from_any data = Inr s" using assms(1) by (auto simp: validate_show_def split: sum.splits)
  have ne: "s \<noteq> []" using assms s by (auto simp: validate_show_def Let_def no_drones_report_def)
  then obtain ts where ts: "sweep_times (duration s) dt = Some ts"
    using assms(1) s by (auto simp: validate_show_def Let_def split: option.splits)
  have rep: "rep = finish_report s l dt ts
      (foldl (sweep_step near second s l (getd sep (design_separation_m l)) dt) sweep_start ts)"
    using assms(1) s ne ts by (simp add: validate_show_def Let_def)
  then show ?thesis
    using assms(2) s ne ts unfolding rep finish_report_passed sweep_proximity_Nil by blast
qed

section \<open>Reporting\<close>

lemma by_severity_set [simp]: "set (by_severity found) = {..<length found}"
  "length (by_severity found) = length found" "distinct (by_severity found)"
  by (auto simp: by_severity_def)

lemma by_severity_take:
  assumes "j \<in> set (take k (by_severity found))" and "i < length found"
    and "i \<notin> set (take k (by_severity found))"
  shows "fst (found ! i) \<le> fst (found ! j)"
proof -
  let ?f = "\<lambda>i. - fst (found ! i)" and ?bs = "by_severity found"
  have "i \<in> set (drop k ?bs)" using assms(2,3) set_append[of "take k ?bs" "drop k ?bs"] by auto
  moreover have "sorted (map ?f (take k ?bs @ drop k ?bs))"
    unfolding append_take_drop_id by (simp add: by_severity_def)
  then have "\<forall>x \<in> set (map ?f (take k ?bs)). \<forall>y \<in> set (map ?f (drop k ?bs)). x \<le> y"
    by (simp only: map_append sorted_append) blast
  then have "\<forall>x \<in> set (take k ?bs). \<forall>y \<in> set (drop k ?bs). fst (found ! y) \<le> fst (found ! x)"
    by simp
  ultimately show ?thesis using assms(1) by blast
qed

lemma best_index:
  fixes found :: "(real \<times> 'v) list"
  assumes "found \<noteq> []"
  defines "best xs \<equiv> foldl (\<lambda>best item. if fst item > fst best then item else best) (hd xs) (tl xs)"
  shows "\<exists>k < length found. best found = found ! k \<and>
    (\<forall>j < length found. fst (found ! j) \<le> fst (found ! k)) \<and> (\<forall>j < k. fst (found ! j) < fst (found ! k))"
  using assms(1)
proof (induction found rule: rev_induct)
  case (snoc y ys)
  show ?case
  proof (cases "ys = []")
    case True
    then show ?thesis by (simp add: best_def)
  next
    case False
    then obtain k where k: "k < length ys" "best ys = ys ! k"
      "\<And>j. j < length ys \<Longrightarrow> fst (ys ! j) \<le> fst (ys ! k)" "\<And>j. j < k \<Longrightarrow> fst (ys ! j) < fst (ys ! k)"
      using snoc.IH by blast
    have step: "best (ys @ [y]) = (if fst y > fst (ys ! k) then y else ys ! k)"
      using False k(2) by (simp add: best_def)
    show ?thesis
    proof (cases "fst y > fst (ys ! k)")
      case True
      then have "fst (ys ! j) < fst y" if "j < length ys" for j
        using k(3)[OF that] by linarith
      then show ?thesis
        using True step by (intro exI[of _ "length ys"]) (auto simp: nth_append less_Suc_eq intro: less_imp_le)
    next
      case smaller: False
      then show ?thesis
        using k step by (intro exI[of _ k]) (auto simp: nth_append less_Suc_eq)
    qed
  qed
qed simp

lemma worst_of_index:
  assumes "found \<noteq> []"
  shows "\<exists>k < length found. worst_of found = Some (snd (found ! k)) \<and>
    (\<forall>j < length found. fst (found ! j) \<le> fst (found ! k)) \<and> (\<forall>j < k. fst (found ! j) < fst (found ! k))"
  using best_index[OF assms] assms by (cases found) (auto simp: worst_of_def)

text \<open>The sort is stable, so the most severe violation comes first, the earliest of equal ones.\<close>

lemma by_severity_hd:
  assumes "k < length found" and "\<forall>j < length found. fst (found ! j) \<le> fst (found ! k)"
    and "\<forall>j < k. fst (found ! j) < fst (found ! k)"
  shows "hd (by_severity found) = k"
proof -
  let ?f = "\<lambda>i. - fst (found ! i)" and ?bs = "by_severity found"
  have "?bs \<noteq> []" using assms(1) by (metis by_severity_set(2) less_zeroE list.size(3))
  then obtain h hs where bs: "?bs = h # hs" by (cases ?bs) auto
  have h: "h < length found" using bs by_severity_set(1)[of found] by auto
  have "sorted (map ?f ?bs)" by (simp add: by_severity_def)
  moreover have "k \<in> set ?bs" using assms(1) by simp
  ultimately have "?f h \<le> ?f k" using bs by auto
  then have eq: "?f h = ?f k" using assms(2) h by fastforce
  have "filter (\<lambda>i. ?f i = ?f k) ?bs = filter (\<lambda>i. ?f i = ?f k) [0..<length found]"
    unfolding by_severity_def by (rule sort_key_stable)
  then have f: "filter (\<lambda>i. ?f i = ?f k) [0..<length found] = h # filter (\<lambda>i. ?f i = ?f k) hs"
    using bs eq by simp
  have "sorted (filter (\<lambda>i. ?f i = ?f k) [0..<length found])" by (rule sorted_wrt_filter) simp
  then have "sorted (h # filter (\<lambda>i. ?f i = ?f k) hs)" by (simp only: f)
  moreover have "k \<in> set (filter (\<lambda>i. ?f i = ?f k) [0..<length found])" using assms(1) by simp
  then have "k \<in> set (h # filter (\<lambda>i. ?f i = ?f k) hs)" by (simp only: f)
  ultimately have "h \<le> k" by auto
  moreover have "\<not> h < k" using assms(3) eq by fastforce
  ultimately show ?thesis using bs by simp
qed

lemma report_picks_props:
  assumes "cap < length found"
  shows "sorted_wrt (<) (report_picks cap found)" and "set (report_picks cap found) \<subseteq> {..<length found}"
    and "length (report_picks cap found) \<le> cap"
    and "set (take (cap div 2) (by_severity found)) \<subseteq> set (report_picks cap found)"
proof -
  let ?sev = "take (cap div 2) (by_severity found)"
  define rest where "rest = filter (\<lambda>i. i \<notin> set ?sev) [0..<length found]"
  define sample where
    "sample = take (cap - cap div 2) (stride (max 1 (length rest div (cap - cap div 2))) rest)"
  have p: "report_picks cap found = sort (remdups (?sev @ sample))"
    by (simp only: report_picks_def Let_def rest_def sample_def)
  show "sorted_wrt (<) (report_picks cap found)"
    unfolding p strict_sorted_iff by (simp add: distinct_sort)
  have "set (stride m rest) \<subseteq> set rest" for m
    by (auto simp: stride_def in_set_enumerate_eq)
  then have "set sample \<subseteq> set rest" unfolding sample_def by (meson set_take_subset order_trans)
  moreover have "set ?sev \<subseteq> {..<length found}" using by_severity_set(1)[of found] set_take_subset by metis
  ultimately show "set (report_picks cap found) \<subseteq> {..<length found}" by (auto simp: p rest_def)
  have "length (report_picks cap found) \<le> length (?sev @ sample)" by (simp only: p length_sort length_remdups_leq)
  moreover have "length ?sev \<le> cap div 2" "length sample \<le> cap - cap div 2"
    by (simp_all add: sample_def)
  ultimately show "length (report_picks cap found) \<le> cap" by simp
  show "set ?sev \<subseteq> set (report_picks cap found)" by (simp add: p)
qed

section \<open>Properties\<close>

text \<open>What a report keeps of the violations it found: for every cap of at least two the
  report is a subsequence of them in their order, of at most \<open>cap\<close> entries, all of them when
  they fit; it contains the worst one; and when some are left out, there are \<open>cap // 2\<close> kept
  ones none of which is less severe than any that is left out.\<close>

theorem report_subset_keeps_worst:
  assumes "2 \<le> cap"
  shows "\<exists>picks. report_subset cap found = Some (map (\<lambda>i. snd (found ! i)) picks) \<and>
    sorted_wrt (<) picks \<and> set picks \<subseteq> {..<length found} \<and> length picks \<le> cap \<and>
    (length found \<le> cap \<longrightarrow> picks = [0..<length found]) \<and>
    (\<forall>w. worst_of found = Some w \<longrightarrow> (\<exists>i \<in> set picks. w = snd (found ! i))) \<and>
    (cap < length found \<longrightarrow> (\<exists>kept \<subseteq> set picks. card kept = cap div 2 \<and>
       (\<forall>i < length found. i \<notin> set picks \<longrightarrow> (\<forall>j \<in> kept. fst (found ! i) \<le> fst (found ! j)))))"
proof (cases "length found \<le> cap")
  case True
  have "map snd found = map (\<lambda>i. snd (found ! i)) [0..<length found]"
    by (rule nth_equalityI) auto
  moreover have "\<exists>i \<in> set [0..<length found]. w = snd (found ! i)" if "worst_of found = Some w" for w
  proof -
    have "found \<noteq> []" using that by (auto simp: worst_of_def)
    then show ?thesis using worst_of_index[of found] that by auto
  qed
  ultimately show ?thesis using True
    by (intro exI[of _ "[0..<length found]"]) (auto simp: report_subset_def)
next
  case False
  let ?p = "report_picks cap found" and ?sev = "take (cap div 2) (by_severity found)"
  have big: "cap < length found" using False by simp
  note props = report_picks_props[OF big]
  have "card (set ?sev) = cap div 2"
    using big by (simp add: distinct_card)
  moreover have "fst (found ! i) \<le> fst (found ! j)" if "i < length found" "i \<notin> set ?p" "j \<in> set ?sev" for i j
    using by_severity_take[of j "cap div 2" found i] that props(4) by blast
  moreover have "\<exists>i \<in> set ?p. w = snd (found ! i)" if w: "worst_of found = Some w" for w
  proof -
    have "found \<noteq> []" using big by auto
    then obtain k where k: "k < length found" "worst_of found = Some (snd (found ! k))"
      "\<forall>j < length found. fst (found ! j) \<le> fst (found ! k)" "\<forall>j < k. fst (found ! j) < fst (found ! k)"
      using worst_of_index by blast
    have "hd (by_severity found) = k" using by_severity_hd k(1,3,4) by blast
    moreover have "by_severity found \<noteq> []" using k(1) by (metis by_severity_set(2) less_zeroE list.size(3))
    ultimately have "k \<in> set ?sev" using assms by (cases "by_severity found") (auto simp: take_Cons')
    then show ?thesis using props(4) k(2) w by auto
  qed
  ultimately show ?thesis
    using props big assms by (intro exI[of _ ?p]) (auto simp: report_subset_def intro!: exI[of _ "set ?sev"])
qed

theorem report_subset_keeps_worst_witness:
  "\<exists>picks. report_subset 2 [(1 :: real, ''a''), (2, ''b''), (9, ''c''), (4, ''d'')] =
     Some (map (\<lambda>i. snd ([(1 :: real, ''a''), (2, ''b''), (9, ''c''), (4, ''d'')] ! i)) picks) \<and>
     length picks \<le> 2 \<and> 2 \<in> set picks"
proof -
  let ?l = "[(1 :: real, ''a''), (2, ''b''), (9, ''c''), (4, ''d'')]"
  have "worst_of ?l = Some ''c''" by (simp add: worst_of_def)
  then obtain picks where p: "report_subset 2 ?l = Some (map (\<lambda>i. snd (?l ! i)) picks)" "length picks \<le> 2"
    "set picks \<subseteq> {..<length ?l}" "\<exists>i \<in> set picks. ''c'' = snd (?l ! i)"
    using report_subset_keeps_worst[of 2 ?l] by blast
  then obtain i where i: "i \<in> set picks" "''c'' = snd (?l ! i)" by blast
  then have "i < 4" using p(3) by auto
  then have "i = 2" using i(2) by (auto simp: numeral_eq_Suc less_Suc_eq)
  then show ?thesis using p i(1) by blast
qed

text \<open>The example the witnesses use: two drones hovering five metres apart, and the pairs of a
  brute-force search.\<close>

definition all_near_pairs :: near_pairs where
  "all_near_pairs pts r =
     filter (\<lambda>(i, j). i < j \<and> dist3 (pts ! i) (pts ! j) \<le> r)
       (List.product [0..<length pts] [0..<length pts])"

lemma all_near_pairs_finds: "finds_near_pairs all_near_pairs"
  by (auto simp: finds_near_pairs_def all_near_pairs_def distinct_product)

definition hover_show :: choreography where
  "hover_show = [(0, [waypoint_at 0 (-2)]), (1, [waypoint_at 0 (-7)])]"

lemma hover_show_passes:
  "\<exists>rep. validate_show all_near_pairs (\<lambda>pts. []) (AlreadyShow hover_show) DEFAULT_LIMITS None (1 / 10) = Inr rep \<and>
     vr_status rep = ''PASSED''"
proof -
  have pairs: "close_pairs all_near_pairs (xyz_at hover_show 0) r = []" if "r \<le> 5" for r
    using that unfolding close_pairs_Nil[OF all_near_pairs_finds]
    by (auto simp: hover_show_def xyz_at_def positions_at_def interpolate_waypoint_def waypoint_at_def
        List.map_filter_simps xyz_def dist3_def less_Suc_eq)
  have prev: "sw_velocity sw = [] \<and> sw_acceleration sw = [] \<and> sw_yaw_rate sw = []"
    if "sw = foldl (sweep_step all_near_pairs (\<lambda>pts. []) hover_show DEFAULT_LIMITS r (1/10)) sweep_start [0]" for sw r
    unfolding that
    by (simp add: sweep_step_def sweep_start_def positions_at_def hover_show_def interpolate_waypoint_def
        List.map_filter_simps motion_step_def Let_def)
  have times: "sweep_times (duration hover_show) (1 / 10) = Some [0]"
    by (simp add: sweep_times_def duration_def hover_show_def max_default_def waypoint_at_def)
  have alt: "fst (altitude_extremes hover_show DEFAULT_LIMITS) = ([], [])"
    by (simp add: altitude_extremes_def all_waypoints_def hover_show_def altitude_breach_def
        ground_breach_def List.map_filter_simps waypoint_at_def DEFAULT_LIMITS_def)
  have ne: "hover_show \<noteq> []" by (simp add: hover_show_def)
  have "design_separation_m DEFAULT_LIMITS \<le> 5" by (simp add: DEFAULT_LIMITS_def)
  then have "sw_proximity (foldl (sweep_step all_near_pairs (\<lambda>pts. []) hover_show DEFAULT_LIMITS
      (design_separation_m DEFAULT_LIMITS) (1/10)) sweep_start [0]) = []"
    unfolding sweep_proximity_Nil using pairs by (simp add: sweep_start_def)
  then show ?thesis
    using prev[OF refl] times alt ne
    by (simp add: validate_show_def from_any_def finish_report_passed getd_def)
qed

text \<open>C23. A show certified at design time always clears the upload gate: when \<open>validate_show\<close>
  passes a choreography at the design separation and the default step, then, under limits that
  pass their own checks, the collision gate at the hard separation and the altitude gate report
  no error at all, whatever their cap on messages.\<close>

theorem validated_show_clears_upload:
  assumes "finds_near_pairs near" and "limits_check l = Inr l'"
    and "validate_show near second data l None (1 / 10) = Inr rep" and "vr_status rep = ''PASSED''"
  shows "collision_errors repr near data l None m = Inr [] \<and> altitude_errors repr data l m = Inr []"
proof -
  obtain s ts where s: "from_any data = Inr s" "sweep_times (duration s) (1 / 10) = Some ts"
    and far: "\<forall>t \<in> set ts. close_pairs near (xyz_at s t) (design_separation_m l) = []"
    and alt: "fst (altitude_extremes s l) = ([], [])"
    using validate_show_passed[OF assms(3,4)] by (auto simp: getd_def)
  have "min_separation_m l \<le> design_separation_m l" using assms(2) by (rule limits_check_Inr)
  then have "\<forall>t \<in> set ts. close_pairs near (xyz_at s t) (min_separation_m l) = []"
    using far close_pairs_mono[OF assms(1)] by blast
  then show ?thesis
    using s alt by (auto simp: collision_errors_def altitude_errors_def getd_def collect_until_Nil Let_def)
qed

theorem validated_show_clears_upload_witness:
  "collision_errors (\<lambda>x. []) all_near_pairs (AlreadyShow hover_show) DEFAULT_LIMITS None 3 = Inr [] \<and>
   altitude_errors (\<lambda>x. []) (AlreadyShow hover_show) DEFAULT_LIMITS 3 = Inr []"
proof -
  obtain rep where "validate_show all_near_pairs (\<lambda>pts. []) (AlreadyShow hover_show) DEFAULT_LIMITS None (1 / 10) = Inr rep"
    "vr_status rep = ''PASSED''"
    using hover_show_passes by blast
  then show ?thesis
    by (rule validated_show_clears_upload[OF all_near_pairs_finds DEFAULT_LIMITS_ok])
qed

text \<open>Within the ground and the ceiling, along a whole interpolated path.\<close>

definition within_altitudes :: "limits \<Rightarrow> waypoint \<Rightarrow> bool" where
  "within_altitudes l wp \<longleftrightarrow> 0 \<le> - w_z wp \<and> - w_z wp \<le> max_altitude_m l"

definition path_within :: "limits \<Rightarrow> choreography \<Rightarrow> bool" where
  "path_within l s \<longleftrightarrow> (\<forall>(i, wps) \<in> set s. \<forall>t wp. interpolate_waypoint wps t = Some wp \<longrightarrow> within_altitudes l wp)"

lemma altitude_extremes_Nil:
  "fst (altitude_extremes s l) = ([], []) \<longleftrightarrow> (\<forall>(i, wps) \<in> set s. \<forall>wp \<in> set wps. within_altitudes l wp)"
proof -
  have none: "altitude_breach l iw = None \<and> ground_breach l iw = None \<longleftrightarrow> within_altitudes l (snd iw)" for iw
    by (auto simp: altitude_breach_def ground_breach_def within_altitudes_def Let_def)
  have "fst (altitude_extremes s l) = ([], []) \<longleftrightarrow>
      (\<forall>iw \<in> set (all_waypoints s). altitude_breach l iw = None \<and> ground_breach l iw = None)"
    by (simp add: altitude_extremes_def map_filter_Nil Let_def ball_conj_distrib)
  moreover have "set (all_waypoints s) = {(i, wp). \<exists>wps. (i, wps) \<in> set s \<and> wp \<in> set wps}"
    by (force simp: all_waypoints_def)
  ultimately show ?thesis unfolding none by fastforce
qed

lemma interpolate_hits_waypoint:
  assumes "sorted_wrt (<) (map w_time wps)" and "wp \<in> set wps"
  shows "\<exists>w. interpolate_waypoint wps (w_time wp) = Some w \<and> w_z w = w_z wp"
proof -
  obtain k where k: "k < length wps" "wp = wps ! k" using assms(2) by (auto simp: in_set_conv_nth)
  have less: "w_time (wps ! i) < w_time (wps ! j)" if "i < j" "j < length wps" for i j
    using sorted_wrt_nth_less[OF assms(1), of i j] that by simp
  have ne: "wps \<noteq> []" using k(1) by auto
  consider "k = 0" | "k = length wps - 1" "0 < k" | "0 < k" "k < length wps - 1" using k(1) by linarith
  then show ?thesis
  proof cases
    case 1
    then show ?thesis using k ne by (simp add: interpolate_waypoint_def)
  next
    case 2
    then show ?thesis using k ne less[of 0 k] by (simp add: interpolate_waypoint_def last_conv_nth)
  next
    case 3
    let ?i = "bisect_left (map w_time wps) (w_time wp) 0 (length wps)"
    have span: "w_time (wps ! 0) < w_time wp" "w_time wp < w_time (last wps)"
      using 3 less[of 0 k] less[of k "length wps - 1"] k ne by (simp_all add: last_conv_nth)
    note seg = bisect_left_segment[OF ne span]
    have "?i = k"
    proof (rule antisym)
      show "?i \<le> k"
      proof (rule ccontr)
        assume "\<not> ?i \<le> k"
        then have "k = ?i - 1 \<or> k < ?i - 1" by linarith
        then show False using less[of k "?i - 1"] seg k(2) by fastforce
      qed
      show "k \<le> ?i"
      proof (rule ccontr)
        assume "\<not> k \<le> ?i"
        then show False using less[of ?i k] seg k by fastforce
      qed
    qed
    then show ?thesis
      using seg span k ne by (simp add: interpolate_waypoint_def between_def Let_def)
  qed
qed

lemma waypoints_path_within:
  assumes "\<forall>(i, wps) \<in> set s. \<forall>wp \<in> set wps. within_altitudes l wp"
  shows "path_within l s"
  unfolding path_within_def
proof (intro ballI allI impI, clarify)
  fix i wps t wp assume i: "(i, wps) \<in> set s" and wp: "interpolate_waypoint wps t = Some wp"
  have "0 \<le> - w_z wp \<and> - w_z wp \<le> max_altitude_m l"
  proof (rule interpolate_within[OF wp, of 0 "\<lambda>w. - w_z w" "max_altitude_m l"])
    show "0 \<le> - w_z w \<and> - w_z w \<le> max_altitude_m l" if "w \<in> set wps" for w
      using assms i that by (auto simp: within_altitudes_def)
  qed (auto simp: between_def Let_def algebra_simps)
  then show "within_altitudes l wp" by (simp add: within_altitudes_def)
qed

text \<open>C38. The altitude check looks at waypoints only, and that is exact: a show it finds no breach
  in stays between the ground and the ceiling at every instant of every drone's interpolated
  path, however its waypoints are spaced or ordered; and where times strictly increase along
  every track, a show whose whole path stays within them has no breach.\<close>

theorem altitude_check_exact:
  "(fst (altitude_extremes s l) = ([], []) \<longrightarrow> path_within l s) \<and>
   ((\<forall>(i, wps) \<in> set s. sorted_wrt (<) (map w_time wps)) \<longrightarrow> path_within l s \<longrightarrow>
      fst (altitude_extremes s l) = ([], []))"
proof (intro conjI impI)
  assume "fst (altitude_extremes s l) = ([], [])"
  then show "path_within l s" by (simp only: altitude_extremes_Nil waypoints_path_within)
next
  assume inc: "\<forall>(i, wps) \<in> set s. sorted_wrt (<) (map w_time wps)" and path: "path_within l s"
  show "fst (altitude_extremes s l) = ([], [])"
    unfolding altitude_extremes_Nil
  proof clarify
    fix i wps wp assume "(i, wps) \<in> set s" "wp \<in> set wps"
    moreover then obtain w where "interpolate_waypoint wps (w_time wp) = Some w" "w_z w = w_z wp"
      using interpolate_hits_waypoint inc by blast
    ultimately show "within_altitudes l wp"
      using path by (force simp: path_within_def within_altitudes_def)
  qed
qed

theorem altitude_check_exact_witness:
  "path_within DEFAULT_LIMITS [(0, [waypoint_at 0 0, waypoint_at 1 (-3)])] \<and>
   fst (altitude_extremes [(0, [waypoint_at 0 0, waypoint_at 1 (-3)])] DEFAULT_LIMITS) = ([], [])"
proof -
  have "fst (altitude_extremes [(0, [waypoint_at 0 0, waypoint_at 1 (-3)])] DEFAULT_LIMITS) = ([], [])"
    by (simp add: altitude_extremes_Nil within_altitudes_def waypoint_at_def DEFAULT_LIMITS_def)
  with altitude_check_exact[of "[(0, [waypoint_at 0 0, waypoint_at 1 (-3)])]" DEFAULT_LIMITS]
  show ?thesis by blast
qed

text \<open>The breaches come drone by drone, so the altitude violations of a report are not in time
  order when an early breach belongs to a later drone.\<close>

definition two_breaches :: choreography where
  "two_breaches = [(0, [waypoint_at 5 (-200)]), (1, [waypoint_at 1 (-200)])]"

lemma altitude_breaches_not_in_time_order:
  "map (\<lambda>item. v_time (snd item)) (fst (fst (altitude_extremes two_breaches DEFAULT_LIMITS))) = [5, 1]"
  by (simp add: altitude_extremes_def all_waypoints_def two_breaches_def altitude_breach_def
      List.map_filter_simps waypoint_at_def DEFAULT_LIMITS_def round_to_def)
end
