(* ===== verification/Crc32.thy ===== *)
theory Crc32
  imports Prelude
begin

text \<open>
  The CRC-32 of the standard library's \<^verbatim>\<open>zlib.crc32\<close>, bit by bit: the reflected polynomial
  \<open>0xEDB88320\<close>, all ones before and complemented after. Every step is injective in the register,
  so two messages of one length that differ in one byte have different checksums.
\<close>

unbundle bit_operations_syntax

definition crc_bit :: "32 word \<Rightarrow> 32 word" where
  "crc_bit c = (if bit c 0 then drop_bit 1 c XOR 0xEDB88320 else drop_bit 1 c)"

definition crc_byte :: "32 word \<Rightarrow> 8 word \<Rightarrow> 32 word" where
  "crc_byte c b = (crc_bit ^^ 8) (c XOR ucast b)"

definition crc32 :: "bytes \<Rightarrow> 32 word" where
  "crc32 bs = NOT (foldl crc_byte 0xFFFFFFFF bs)"

text \<open>The value for the message \<^verbatim>\<open>b"a"\<close>, as the library gives it.\<close>

lemma crc_byte_bits: "crc_byte c b =
    crc_bit (crc_bit (crc_bit (crc_bit (crc_bit (crc_bit (crc_bit (crc_bit (c XOR ucast b))))))))"
proof -
  have "(crc_bit ^^ Suc (Suc (Suc (Suc (Suc (Suc (Suc (Suc 0)))))))) x = crc_bit (crc_bit (crc_bit (crc_bit
      (crc_bit (crc_bit (crc_bit (crc_bit x)))))))" for x
    by (simp only: funpow.simps comp_apply id_apply)
  moreover have "Suc (Suc (Suc (Suc (Suc (Suc (Suc (Suc 0))))))) = 8" by simp
  ultimately show ?thesis by (metis crc_byte_def)
qed

lemma crc32_a: "crc32 [0x61] = 0xE8B7BE43"
  by (simp add: crc32_def crc_byte_bits crc_bit_def)

lemma drop_bit_top: "\<not> bit (drop_bit 1 (c :: 32 word)) 31"
  by (auto simp: bit_drop_bit_eq dest: bit_imp_le_length)

lemma xor_cancel_right: "a XOR x = b XOR x \<longleftrightarrow> a = (b :: 32 word)"
  by (auto simp: bit_eq_iff bit_xor_iff)

lemma xor_cancel_left: "x XOR a = x XOR b \<longleftrightarrow> a = (b :: 32 word)"
  by (auto simp: bit_eq_iff bit_xor_iff)

lemma poly_top: "bit (0xEDB88320 :: 32 word) 31"
  by simp

lemma crc_bit_top: "bit (crc_bit c) 31 \<longleftrightarrow> bit c 0"
  using drop_bit_top[of c] poly_top by (simp add: crc_bit_def bit_xor_iff)

lemma crc_bit_inj: "inj crc_bit"
proof (rule injI)
  fix c d assume eq: "crc_bit c = crc_bit d"
  then have low: "bit c 0 \<longleftrightarrow> bit d 0" using crc_bit_top by metis
  then have "drop_bit 1 c = drop_bit 1 d"
    using eq by (simp add: crc_bit_def xor_cancel_right split: if_splits)
  then have "bit (drop_bit 1 c) n \<longleftrightarrow> bit (drop_bit 1 d) n" for n by simp
  then have "bit c (Suc n) \<longleftrightarrow> bit d (Suc n)" for n by (simp add: bit_drop_bit_eq)
  then show "c = d" using low by (intro bit_eqI) (case_tac n; simp)
qed

lemma crc_byte_inj_state: "crc_byte c b = crc_byte d b \<Longrightarrow> c = d"
  unfolding crc_byte_def by (drule injD[OF inj_fn[OF crc_bit_inj]]) (simp only: xor_cancel_right)

lemma crc_byte_inj_byte: "crc_byte c a = crc_byte c b \<Longrightarrow> a = b"
proof -
  assume "crc_byte c a = crc_byte c b"
  then have "c XOR ucast a = c XOR ucast b"
    unfolding crc_byte_def by (rule injD[OF inj_fn[OF crc_bit_inj]])
  then have "(ucast a :: 32 word) = ucast b" by (simp only: xor_cancel_left)
  then show "a = b" by (auto simp: bit_eq_iff bit_ucast_iff dest: bit_imp_le_length)
qed

lemma crc_foldl_inj: "foldl crc_byte c bs = foldl crc_byte d bs \<Longrightarrow> c = d"
  by (induction bs arbitrary: c d) (auto dest: crc_byte_inj_state)

lemma crc32_one_byte:
  assumes "i < length bs" and "b \<noteq> bs ! i"
  shows "crc32 (bs[i := b]) \<noteq> crc32 bs"
proof
  assume "crc32 (bs[i := b]) = crc32 bs"
  then have eq: "foldl crc_byte 0xFFFFFFFF (bs[i := b]) = foldl crc_byte 0xFFFFFFFF bs"
    by (simp add: crc32_def bit.compl_eq_compl_iff)
  let ?c = "foldl crc_byte 0xFFFFFFFF (take i bs)"
  have "foldl crc_byte 0xFFFFFFFF bs = foldl crc_byte (crc_byte ?c (bs ! i)) (drop (Suc i) bs)"
    by (subst (1) id_take_nth_drop[OF assms(1)]) simp
  then have "foldl crc_byte (crc_byte ?c b) (drop (Suc i) bs) = foldl crc_byte (crc_byte ?c (bs ! i)) (drop (Suc i) bs)"
    using eq by (simp add: upd_conv_take_nth_drop[OF assms(1)])
  then show False using assms(2) by (blast dest: crc_foldl_inj crc_byte_inj_byte)
qed

end
