(* ===== verification/Mission.thy ===== *)
theory Mission
  imports Show Crc32 Struct_Codec
begin

text \<open>
  The per-drone mission file and the broadcast show trigger,
  \<^verbatim>\<open>packages/tara-core/tara_core/mission.py\<close>, over the byte formats of \<open>Struct_Codec\<close> and the
  checksum of \<open>Crc32\<close>. SHA-256 is a parameter of the show identity.
\<close>

section \<open>Formats\<close>

definition MISSION_MAGIC :: bytes where
  "MISSION_MAGIC = [0x54, 0x4D, 0x53, 0x4E]"

definition MISSION_FORMAT_VERSION :: int where
  "MISSION_FORMAT_VERSION = 1"

definition SHOW_ID_SIZE :: nat where
  "SHOW_ID_SIZE = 16"

definition FLAG_HAS_LED :: int where
  "FLAG_HAS_LED = 1"

definition HEADER_FORMAT :: "fmt list" where
  "HEADER_FORMAT = [FS 4, FU 2, FU 2, FU 2, FU 2, FU 4, FU 4, FS 16, FU 4]"

definition RECORD_FORMAT :: "fmt list" where
  "RECORD_FORMAT = [FU 4, FI 2, FI 2, FI 2, FU 2, FU 1, FU 1, FU 1, FX]"

definition HEADER_SIZE :: nat where
  "HEADER_SIZE = calcsize HEADER_FORMAT"

definition RECORD_SIZE :: nat where
  "RECORD_SIZE = calcsize RECORD_FORMAT"

definition POS_LIMIT_CM :: int where
  "POS_LIMIT_CM = 32767"

definition MAX_TIME_MS :: int where
  "MAX_TIME_MS = 0xFFFFFFFF"

datatype mission_error =
    OutsideRange int char real
  | EmptyWaypoints int
  | TimeOutOfRange int real
  | NotTimeOrdered int int int
  | BadShowId nat
  | StructError
  | Unreadable show_error
  | TooShort nat
  | NotAMission bytes
  | UnsupportedVersion int
  | WrongRecordBytes nat nat
  | CorruptRecords
  | NotATrigger nat
  | UnknownCommand int

record mission_record =
  rc_time_ms :: int
  rc_x_cm :: int
  rc_y_cm :: int
  rc_z_cm :: int
  rc_yaw_cdeg :: int
  rc_r :: int
  rc_g :: int
  rc_b :: int

section \<open>Compiling\<close>

definition cm_of :: "real \<Rightarrow> char \<Rightarrow> int \<Rightarrow> mission_error + int" where
  "cm_of value_m axis drone_id =
     (let cm = py_round (value_m * 100) in
      if - POS_LIMIT_CM \<le> cm \<and> cm \<le> POS_LIMIT_CM then Inr cm
      else Inl (OutsideRange drone_id axis value_m))"

text \<open>\<^verbatim>\<open>int(wp.get(k, 0)) & 0xFF\<close>\<close>

definition channel :: "real option \<Rightarrow> int" where
  "channel v = py_int (getd v 0) mod 256"

definition quantise ::
  "int \<Rightarrow> real \<times> real \<Rightarrow> int \<Rightarrow> waypoint \<Rightarrow> mission_error + mission_record"
where
  "quantise drone_id origin prev_ms wp =
     (let time_ms = py_round (w_time wp * 1000) in
      if time_ms < 0 \<or> time_ms > MAX_TIME_MS then Inl (TimeOutOfRange drone_id (w_time wp))
      else if time_ms < prev_ms then Inl (NotTimeOrdered drone_id time_ms prev_ms)
      else case cm_of (w_x wp - fst origin) (CHR ''x'') drone_id of Inl e \<Rightarrow> Inl e
      | Inr x \<Rightarrow> (case cm_of (w_y wp - snd origin) (CHR ''y'') drone_id of Inl e \<Rightarrow> Inl e
      | Inr y \<Rightarrow> (case cm_of (w_z wp) (CHR ''z'') drone_id of Inl e \<Rightarrow> Inl e
      | Inr z \<Rightarrow>
          Inr \<lparr>rc_time_ms = time_ms, rc_x_cm = x, rc_y_cm = y, rc_z_cm = z,
               rc_yaw_cdeg = py_round (getd (w_yaw wp) 0 * 100) mod 36000,
               rc_r = channel (w_r wp), rc_g = channel (w_g wp), rc_b = channel (w_b wp)\<rparr>)))"

fun quantise_all ::
  "int \<Rightarrow> real \<times> real \<Rightarrow> int \<Rightarrow> waypoint list \<Rightarrow> mission_error + mission_record list"
where
  "quantise_all drone_id origin prev_ms [] = Inr []"
| "quantise_all drone_id origin prev_ms (wp # wps) =
     (case quantise drone_id origin prev_ms wp of Inl e \<Rightarrow> Inl e
      | Inr r \<Rightarrow> (case quantise_all drone_id origin (rc_time_ms r) wps of Inl e \<Rightarrow> Inl e
        | Inr rs \<Rightarrow> Inr (r # rs)))"

definition record_values :: "mission_record \<Rightarrow> fval list" where
  "record_values r = [VI (rc_time_ms r), VI (rc_x_cm r), VI (rc_y_cm r), VI (rc_z_cm r),
     VI (rc_yaw_cdeg r), VI (rc_r r), VI (rc_g r), VI (rc_b r)]"

definition pack_record :: "mission_record \<Rightarrow> bytes option" where
  "pack_record r = struct_pack RECORD_FORMAT (record_values r)"

definition unpack_record :: "bytes \<Rightarrow> mission_record option" where
  "unpack_record bs =
     (case struct_unpack RECORD_FORMAT bs of
        Some [VI t, VI x, VI y, VI z, VI yaw, VI r, VI g, VI b] \<Rightarrow>
          Some \<lparr>rc_time_ms = t, rc_x_cm = x, rc_y_cm = y, rc_z_cm = z, rc_yaw_cdeg = yaw,
                rc_r = r, rc_g = g, rc_b = b\<rparr>
      | _ \<Rightarrow> None)"

definition encode_records ::
  "waypoint list \<Rightarrow> int \<Rightarrow> real \<times> real \<Rightarrow> mission_error + bytes \<times> bool"
where
  "encode_records wps drone_id origin =
     (if wps = [] then Inl (EmptyWaypoints drone_id)
      else case quantise_all drone_id origin (-1) wps of Inl e \<Rightarrow> Inl e
      | Inr rs \<Rightarrow> (case enc_all pack_record rs of None \<Rightarrow> Inl StructError
        | Some bs \<Rightarrow> Inr (bs, list_ex (\<lambda>wp. w_r wp \<noteq> None) wps)))"

text \<open>The bytes hashed for a show: the magic and the version, then every slot in order.\<close>

fun digest_slots :: "(int \<times> waypoint list) list \<Rightarrow> mission_error + bytes" where
  "digest_slots [] = Inr []"
| "digest_slots ((slot, wps) # rest) =
     (case encode_records wps slot (0, 0) of Inl e \<Rightarrow> Inl e
      | Inr (records, _) \<Rightarrow>
          (case struct_pack [FU 2, FU 4] [VI slot, VI (int (length wps))] of None \<Rightarrow> Inl StructError
           | Some head \<Rightarrow>
               (case digest_slots rest of Inl e \<Rightarrow> Inl e | Inr tail \<Rightarrow> Inr (head @ records @ tail))))"

definition compute_show_id :: "(bytes \<Rightarrow> bytes) \<Rightarrow> show_data \<Rightarrow> mission_error + bytes" where
  "compute_show_id sha256 data =
     (case from_any data of Inl e \<Rightarrow> Inl (Unreadable e)
      | Inr s \<Rightarrow>
          (case (struct_pack [FU 2] [VI MISSION_FORMAT_VERSION], digest_slots (sort_key fst s)) of
             (None, _) \<Rightarrow> Inl StructError
           | (_, Inl e) \<Rightarrow> Inl e
           | (Some v, Inr body) \<Rightarrow> Inr (take SHOW_ID_SIZE (sha256 (MISSION_MAGIC @ v @ body)))))"

definition word_int :: "32 word \<Rightarrow> int" where
  "word_int w = int (unat w)"

definition compile_mission ::
  "waypoint list \<Rightarrow> int \<Rightarrow> bytes \<Rightarrow> real \<times> real \<Rightarrow> mission_error + bytes"
where
  "compile_mission wps drone_id show_id origin =
     (if length show_id \<noteq> SHOW_ID_SIZE then Inl (BadShowId (length show_id))
      else case encode_records wps drone_id origin of Inl e \<Rightarrow> Inl e
      | Inr (records, has_led) \<Rightarrow>
          (case struct_pack HEADER_FORMAT
             [VB MISSION_MAGIC, VI MISSION_FORMAT_VERSION, VI (if has_led then FLAG_HAS_LED else 0),
              VI drone_id, VI 0, VI (int (length wps)), VI (py_round (w_time (last wps) * 1000)),
              VB show_id, VI (word_int (crc32 records))] of
             None \<Rightarrow> Inl StructError
           | Some header \<Rightarrow> Inr (header @ records)))"

section \<open>Decoding\<close>

record mission_header =
  mh_version :: int
  mh_flags :: int
  mh_drone_id :: int
  mh_waypoint_count :: int
  mh_duration_ms :: int
  mh_show_id :: bytes
  mh_records_crc32 :: int

definition has_led :: "mission_header \<Rightarrow> bool" where
  "has_led h \<longleftrightarrow> odd (mh_flags h)"

definition decode_mission_header :: "bytes \<Rightarrow> mission_error + mission_header" where
  "decode_mission_header blob =
     (if length blob < HEADER_SIZE then Inl (TooShort (length blob))
      else case struct_unpack HEADER_FORMAT (take HEADER_SIZE blob) of
        Some [VB magic, VI version, VI flags, VI drone_id, VI res, VI count, VI duration_ms, VB show_id, VI crc] \<Rightarrow>
          if magic \<noteq> MISSION_MAGIC then Inl (NotAMission magic)
          else if version \<noteq> MISSION_FORMAT_VERSION then Inl (UnsupportedVersion version)
          else Inr \<lparr>mh_version = version, mh_flags = flags, mh_drone_id = drone_id,
            mh_waypoint_count = count, mh_duration_ms = duration_ms, mh_show_id = show_id,
            mh_records_crc32 = crc\<rparr>
      | _ \<Rightarrow> Inl StructError)"

record mission_waypoint =
  mw_time :: real
  mw_x :: real
  mw_y :: real
  mw_z :: real
  mw_yaw :: real
  mw_rgb :: "(int \<times> int \<times> int) option"

definition waypoint_of_record :: "bool \<Rightarrow> mission_record \<Rightarrow> mission_waypoint" where
  "waypoint_of_record led r =
     \<lparr>mw_time = of_int (rc_time_ms r) / 1000, mw_x = of_int (rc_x_cm r) / 100,
      mw_y = of_int (rc_y_cm r) / 100, mw_z = of_int (rc_z_cm r) / 100,
      mw_yaw = of_int (rc_yaw_cdeg r) / 100,
      mw_rgb = (if led then Some (rc_r r, rc_g r, rc_b r) else None)\<rparr>"

definition decode_mission :: "bytes \<Rightarrow> mission_error + mission_header \<times> mission_waypoint list" where
  "decode_mission blob =
     (case decode_mission_header blob of Inl e \<Rightarrow> Inl e
      | Inr h \<Rightarrow>
          let records = drop HEADER_SIZE blob;
              expected = nat (mh_waypoint_count h) * RECORD_SIZE in
          if length records \<noteq> expected then Inl (WrongRecordBytes (length records) expected)
          else if word_int (crc32 records) \<noteq> mh_records_crc32 h then Inl CorruptRecords
          else case iter_unpack RECORD_SIZE unpack_record records of None \<Rightarrow> Inl StructError
            | Some rs \<Rightarrow> Inr (h, map (waypoint_of_record (has_led h)) rs))"

definition mission_crc32 :: "bytes \<Rightarrow> int" where
  "mission_crc32 blob = word_int (crc32 blob)"

section \<open>The show trigger\<close>

datatype show_command = START | CANCEL

fun command_value :: "show_command \<Rightarrow> int" where
  "command_value START = 1"
| "command_value CANCEL = 2"

definition command_of :: "int \<Rightarrow> show_command option" where
  "command_of c = (if c = 1 then Some START else if c = 2 then Some CANCEL else None)"

definition TRIGGER_BODY_FORMAT :: "fmt list" where
  "TRIGGER_BODY_FORMAT = [FU 1, FS 16, FU 8]"

definition TRIGGER_BODY_SIZE :: nat where
  "TRIGGER_BODY_SIZE = calcsize TRIGGER_BODY_FORMAT"

definition TRIGGER_SIZE :: nat where
  "TRIGGER_SIZE = TRIGGER_BODY_SIZE + 4"

definition encode_show_trigger :: "int \<Rightarrow> bytes \<Rightarrow> int \<Rightarrow> mission_error + bytes" where
  "encode_show_trigger command show_id start_utc_usec =
     (if length show_id \<noteq> SHOW_ID_SIZE then Inl (BadShowId (length show_id))
      else case command_of command of None \<Rightarrow> Inl (UnknownCommand command)
      | Some c \<Rightarrow>
          (case struct_pack TRIGGER_BODY_FORMAT [VI (command_value c), VB show_id, VI start_utc_usec] of
             None \<Rightarrow> Inl StructError
           | Some body \<Rightarrow>
               (case struct_pack [FU 4] [VI (word_int (crc32 body))] of None \<Rightarrow> Inl StructError
                | Some crc \<Rightarrow> Inr (body @ crc))))"

record trigger =
  tr_command :: int
  tr_show_id :: bytes
  tr_start_utc_usec :: int
  tr_valid :: bool

definition decode_show_trigger :: "bytes \<Rightarrow> mission_error + trigger" where
  "decode_show_trigger payload =
     (if length payload \<noteq> TRIGGER_SIZE then Inl (NotATrigger (length payload))
      else let body = take TRIGGER_BODY_SIZE payload in
        case (struct_unpack TRIGGER_BODY_FORMAT body,
              struct_unpack [FU 4] (drop TRIGGER_BODY_SIZE payload)) of
          (Some [VI command, VB show_id, VI start], Some [VI crc]) \<Rightarrow>
            Inr \<lparr>tr_command = command, tr_show_id = show_id, tr_start_utc_usec = start,
                 tr_valid = (crc = word_int (crc32 body) \<and> command_of command \<noteq> None)\<rparr>
        | _ \<Rightarrow> Inl StructError)"

section \<open>Lemmas\<close>

lemma format_sizes [simp]: "HEADER_SIZE = 40" "RECORD_SIZE = 16" "TRIGGER_BODY_SIZE = 25" "TRIGGER_SIZE = 29"
  by (simp_all add: HEADER_SIZE_def RECORD_SIZE_def HEADER_FORMAT_def RECORD_FORMAT_def
      TRIGGER_SIZE_def TRIGGER_BODY_SIZE_def TRIGGER_BODY_FORMAT_def)

lemma word_int_bounds: "0 \<le> word_int w" "word_int w < 4294967296"
  using unsigned_less[of w, where ?'a = int] by (auto simp: word_int_def)

lemma word_int_eq: "word_int v = word_int w \<longleftrightarrow> v = w"
  by (simp add: word_int_def word_uint_eq_iff)

text \<open>Records are a codec of fixed width; a stream of them is read back.\<close>

interpretation record_codec: fixed_codec pack_record unpack_record RECORD_SIZE
proof
  show "0 < RECORD_SIZE" by simp
  fix r bs assume enc: "pack_record r = Some bs"
  then show "length bs = RECORD_SIZE"
    unfolding pack_record_def RECORD_SIZE_def by (rule struct_pack_length)
  have "struct_unpack RECORD_FORMAT bs = Some (record_values r)"
    using enc by (intro struct_unpack_pack)
      (simp_all add: pack_record_def RECORD_FORMAT_def record_values_def)
  then show "unpack_record bs = Some r"
    by (simp add: unpack_record_def record_values_def)
qed

text \<open>What a quantised waypoint is.\<close>

definition record_ok :: "int \<Rightarrow> mission_record \<Rightarrow> bool" where
  "record_ok prev r \<longleftrightarrow> prev \<le> rc_time_ms r \<and> 0 \<le> rc_time_ms r \<and> rc_time_ms r \<le> MAX_TIME_MS \<and>
     \<bar>rc_x_cm r\<bar> \<le> POS_LIMIT_CM \<and> \<bar>rc_y_cm r\<bar> \<le> POS_LIMIT_CM \<and> \<bar>rc_z_cm r\<bar> \<le> POS_LIMIT_CM \<and>
     rc_yaw_cdeg r \<in> {0..<36000} \<and> rc_r r \<in> {0..<256} \<and> rc_g r \<in> {0..<256} \<and> rc_b r \<in> {0..<256}"

lemma cm_of_Inr: "cm_of v a d = Inr c \<longleftrightarrow> c = py_round (v * 100) \<and> \<bar>c\<bar> \<le> POS_LIMIT_CM"
  by (auto simp: cm_of_def Let_def)

lemma quantise_Inr:
  assumes "quantise d origin prev wp = Inr r"
  shows "record_ok prev r" and "rc_time_ms r = py_round (w_time wp * 1000)"
    and "rc_x_cm r = py_round ((w_x wp - fst origin) * 100)"
    and "rc_y_cm r = py_round ((w_y wp - snd origin) * 100)"
    and "rc_z_cm r = py_round (w_z wp * 100)"
    and "rc_yaw_cdeg r = py_round (getd (w_yaw wp) 0 * 100) mod 36000"
    and "rc_r r = channel (w_r wp)" and "rc_g r = channel (w_g wp)" and "rc_b r = channel (w_b wp)"
  using assms
  by (auto simp: quantise_def Let_def cm_of_Inr record_ok_def channel_def split: if_splits sum.splits)

lemma pack_record_ok:
  assumes "record_ok prev r"
  shows "pack_record r \<noteq> None"
proof -
  have "packable RECORD_FORMAT (record_values r)"
    using assms by (auto simp: RECORD_FORMAT_def record_values_def record_ok_def MAX_TIME_MS_def POS_LIMIT_CM_def)
  then show ?thesis unfolding pack_record_def using struct_pack_packable by blast
qed

lemma quantise_all_Inr:
  assumes "quantise_all d origin prev wps = Inr rs"
  shows "list_all2 (\<lambda>wp r. \<exists>p. quantise d origin p wp = Inr r) wps rs" and "enc_all pack_record rs \<noteq> None"
    and "sorted (map rc_time_ms rs)" and "\<forall>r \<in> set rs. prev \<le> rc_time_ms r"
proof -
  have "list_all2 (\<lambda>wp r. \<exists>p. quantise d origin p wp = Inr r) wps rs \<and> enc_all pack_record rs \<noteq> None \<and>
      sorted (map rc_time_ms rs) \<and> (\<forall>r \<in> set rs. prev \<le> rc_time_ms r)"
    using assms
  proof (induction wps arbitrary: prev rs)
    case (Cons wp wps)
    then obtain r rs' where r: "quantise d origin prev wp = Inr r"
      and rs': "quantise_all d origin (rc_time_ms r) wps = Inr rs'" and rs: "rs = r # rs'"
      by (auto split: sum.splits)
    have ok: "record_ok prev r" by (rule quantise_Inr(1)[OF r])
    then have "pack_record r \<noteq> None" "prev \<le> rc_time_ms r" using pack_record_ok by (auto simp: record_ok_def)
    then show ?case using Cons.IH[OF rs'] r by (auto simp: rs)
  qed simp
  then show "list_all2 (\<lambda>wp r. \<exists>p. quantise d origin p wp = Inr r) wps rs" and "enc_all pack_record rs \<noteq> None"
    and "sorted (map rc_time_ms rs)" and "\<forall>r \<in> set rs. prev \<le> rc_time_ms r"
    by blast+
qed

lemma compile_mission_Inr:
  assumes "compile_mission wps d sid origin = Inr blob"
  shows "\<exists>rs records header led. wps \<noteq> [] \<and> length sid = 16 \<and> quantise_all d origin (-1) wps = Inr rs \<and>
    enc_all pack_record rs = Some records \<and> led = list_ex (\<lambda>wp. w_r wp \<noteq> None) wps \<and>
    struct_pack HEADER_FORMAT
      [VB MISSION_MAGIC, VI MISSION_FORMAT_VERSION, VI (if led then FLAG_HAS_LED else 0), VI d, VI 0,
       VI (int (length wps)), VI (py_round (w_time (last wps) * 1000)), VB sid, VI (word_int (crc32 records))] =
      Some header \<and> blob = header @ records"
  using assms
  by (auto simp: compile_mission_def encode_records_def SHOW_ID_SIZE_def split: if_splits sum.splits option.splits)

lemma header_reads:
  assumes "struct_pack HEADER_FORMAT
      [VB MISSION_MAGIC, VI MISSION_FORMAT_VERSION, VI flags, VI d, VI 0, VI n, VI dur, VB sid, VI crc] = Some header"
    and "length sid = 16"
  shows "decode_mission_header (header @ records) =
    Inr \<lparr>mh_version = MISSION_FORMAT_VERSION, mh_flags = flags, mh_drone_id = d, mh_waypoint_count = n,
         mh_duration_ms = dur, mh_show_id = sid, mh_records_crc32 = crc\<rparr>"
    and "length header = 40"
proof -
  show len: "length header = 40"
    using struct_pack_length[OF assms(1)] by (simp flip: HEADER_SIZE_def)
  have "struct_unpack HEADER_FORMAT header = Some
      [VB MISSION_MAGIC, VI MISSION_FORMAT_VERSION, VI flags, VI d, VI 0, VI n, VI dur, VB sid, VI crc]"
    using assms by (intro struct_unpack_pack) (simp_all add: HEADER_FORMAT_def MISSION_MAGIC_def)
  then show "decode_mission_header (header @ records) =
    Inr \<lparr>mh_version = MISSION_FORMAT_VERSION, mh_flags = flags, mh_drone_id = d, mh_waypoint_count = n,
         mh_duration_ms = dur, mh_show_id = sid, mh_records_crc32 = crc\<rparr>"
    using len by (simp add: decode_mission_header_def)
qed

section \<open>Properties\<close>

text \<open>How far a decoded waypoint is from the one that was compiled, in the drone's own frame.\<close>

definition faithful_to :: "real \<times> real \<Rightarrow> bool \<Rightarrow> waypoint \<Rightarrow> mission_waypoint \<Rightarrow> bool" where
  "faithful_to origin led wp d \<longleftrightarrow>
     \<bar>mw_time d - w_time wp\<bar> \<le> 1 / 2000 \<and>
     \<bar>mw_x d - (w_x wp - fst origin)\<bar> \<le> 1 / 200 \<and> \<bar>mw_y d - (w_y wp - snd origin)\<bar> \<le> 1 / 200 \<and>
     \<bar>mw_z d - w_z wp\<bar> \<le> 1 / 200 \<and> 0 \<le> mw_yaw d \<and> mw_yaw d < 360 \<and>
     (\<exists>turns :: int. \<bar>mw_yaw d + 360 * of_int turns - getd (w_yaw wp) 0\<bar> \<le> 1 / 200) \<and>
     mw_rgb d = (if led then Some (channel (w_r wp), channel (w_g wp), channel (w_b wp)) else None)"

lemma scaled_round: "0 < (c :: real) \<Longrightarrow> \<bar>of_int (py_round (x * c)) / c - x\<bar> \<le> 1 / (2 * c)"
  using py_round_error[of "x * c"] by (auto simp: abs_le_iff field_simps)

lemma quantise_faithful:
  assumes "quantise d origin p wp = Inr r"
  shows "faithful_to origin led wp (waypoint_of_record led r)"
proof -
  note q = quantise_Inr[OF assms]
  let ?y = "py_round (getd (w_yaw wp) 0 * 100)"
  have "\<bar>of_int ?y / 100 - getd (w_yaw wp) 0\<bar> \<le> 1 / 200" using scaled_round[of 100 "getd (w_yaw wp) 0"] by simp
  moreover have turns: "(of_int (?y mod 36000) :: real) / 100 + 360 * of_int (?y div 36000) = of_int ?y / 100"
  proof -
    have "(of_int ?y :: real) = of_int (36000 * (?y div 36000) + ?y mod 36000)" by simp
    then show ?thesis by (simp only: of_int_add of_int_mult) simp
  qed
  ultimately have "\<bar>(of_int (?y mod 36000) :: real) / 100 + 360 * of_int (?y div 36000) - getd (w_yaw wp) 0\<bar> \<le> 1 / 200"
    by (simp only: turns)
  moreover have "?y mod 36000 < 36000" "0 \<le> ?y mod 36000" by simp_all
  then have "(of_int (?y mod 36000) :: real) / 100 < 360" "0 \<le> (of_int (?y mod 36000) :: real) / 100" by linarith+
  ultimately show ?thesis
    using scaled_round[of 1000 "w_time wp"] scaled_round[of 100 "w_x wp - fst origin"]
      scaled_round[of 100 "w_y wp - snd origin"] scaled_round[of 100 "w_z wp"]
    by (auto simp: faithful_to_def waypoint_of_record_def q)
qed

text \<open>What a drone decodes is what was compiled for it: a mission file that compiles is
  accepted, carries the drone, the show and the waypoint count it was compiled with, its
  duration is the time of the last waypoint, times never decrease, and every waypoint is within
  half a millisecond and half a centimetre of the original in the drone's own frame, its yaw
  within half a hundredth of a degree up to full turns, and its colour exact.\<close>

theorem mission_roundtrip:
  assumes "compile_mission wps drone_id show_id origin = Inr blob"
  shows "\<exists>h ws. decode_mission blob = Inr (h, ws) \<and> mh_drone_id h = drone_id \<and> mh_show_id h = show_id \<and>
    mh_waypoint_count h = int (length wps) \<and> mh_duration_ms h = py_round (w_time (last wps) * 1000) \<and>
    has_led h = list_ex (\<lambda>wp. w_r wp \<noteq> None) wps \<and> sorted (map mw_time ws) \<and>
    list_all2 (faithful_to origin (has_led h)) wps ws"
proof -
  obtain rs records header led where c: "wps \<noteq> []" "length show_id = 16"
    "quantise_all drone_id origin (-1) wps = Inr rs" "enc_all pack_record rs = Some records"
    "led = list_ex (\<lambda>wp. w_r wp \<noteq> None) wps"
    and pack: "struct_pack HEADER_FORMAT
      [VB MISSION_MAGIC, VI MISSION_FORMAT_VERSION, VI (if led then FLAG_HAS_LED else 0), VI drone_id, VI 0,
       VI (int (length wps)), VI (py_round (w_time (last wps) * 1000)), VB show_id, VI (word_int (crc32 records))] =
      Some header" and blob: "blob = header @ records"
    using compile_mission_Inr[OF assms] by blast
  note h = header_reads[OF pack c(2)] and q = quantise_all_Inr[OF c(3)]
  have len: "length rs = length wps" using q(1) by (simp add: list_all2_lengthD)
  have bytes: "length records = length wps * 16" using record_codec.enc_all_length[OF c(4)] len by simp
  have reads: "iter_unpack 16 unpack_record records = Some rs"
    using record_codec.iter_unpack_enc_all[OF c(4)] by simp
  let ?h = "\<lparr>mh_version = MISSION_FORMAT_VERSION, mh_flags = (if led then FLAG_HAS_LED else 0),
    mh_drone_id = drone_id, mh_waypoint_count = int (length wps),
    mh_duration_ms = py_round (w_time (last wps) * 1000), mh_show_id = show_id,
    mh_records_crc32 = word_int (crc32 records)\<rparr>"
  have led: "has_led ?h = led" by (simp add: has_led_def FLAG_HAS_LED_def)
  have "decode_mission blob = Inr (?h, map (waypoint_of_record led) rs)"
    using h bytes reads by (simp add: decode_mission_def blob led)
  moreover have "sorted (map mw_time (map (waypoint_of_record led) rs))"
    using q(3) by (simp add: sorted_map waypoint_of_record_def sorted_wrt_iff_nth_less divide_right_mono)
  moreover have "list_all2 (faithful_to origin led) wps (map (waypoint_of_record led) rs)"
    using q(1) by (auto simp: list_all2_conv_all_nth intro: quantise_faithful)
  ultimately show ?thesis using led c(5) by (intro exI[of _ ?h]) auto
qed

text \<open>A one-waypoint mission, two metres above the pad, compiled.\<close>

definition sample_id :: bytes where
  "sample_id = replicate 16 7"

definition sample_record :: mission_record where
  "sample_record = \<lparr>rc_time_ms = 0, rc_x_cm = 0, rc_y_cm = 0, rc_z_cm = -200, rc_yaw_cdeg = 0,
     rc_r = 0, rc_g = 0, rc_b = 0\<rparr>"

lemma sample_compiles_for:
  assumes "0 \<le> d" and "d < 65536"
  shows "\<exists>blob. compile_mission [waypoint_at 0 (-2)] d sample_id (0, 0) = Inr blob \<and> length blob = 56"
proof -
  have q: "quantise_all d (0, 0) (-1) [waypoint_at 0 (-2)] = Inr [sample_record]"
    using py_round_of_int[of "-200"]
    by (simp add: quantise_def cm_of_def Let_def waypoint_at_def sample_record_def channel_def getd_def
        py_int_def POS_LIMIT_CM_def MAX_TIME_MS_def)
  then obtain records where r: "enc_all pack_record [sample_record] = Some records"
    using quantise_all_Inr(2)[OF q] by blast
  have "packable HEADER_FORMAT
      [VB MISSION_MAGIC, VI MISSION_FORMAT_VERSION, VI 0, VI d, VI 0, VI 1, VI 0, VB sample_id,
       VI (word_int (crc32 records))]"
    using word_int_bounds assms by (simp add: HEADER_FORMAT_def MISSION_FORMAT_VERSION_def)
  then obtain header where h: "struct_pack HEADER_FORMAT
      [VB MISSION_MAGIC, VI MISSION_FORMAT_VERSION, VI 0, VI d, VI 0, VI 1, VI 0, VB sample_id,
       VI (word_int (crc32 records))] = Some header"
    using struct_pack_packable by blast
  then have "length header = 40" "length records = 16"
    using struct_pack_length[OF h] record_codec.enc_all_length[OF r] by (simp_all flip: HEADER_SIZE_def)
  then show ?thesis
    using h q r by (simp add: compile_mission_def encode_records_def SHOW_ID_SIZE_def sample_id_def
        waypoint_at_def[of 0 "-2"])
qed

lemma sample_compiles:
  "\<exists>blob. compile_mission [waypoint_at 0 (-2)] 5 sample_id (0, 0) = Inr blob \<and> length blob = 56"
  by (rule sample_compiles_for) simp_all

theorem mission_roundtrip_witness:
  "\<exists>blob h w. decode_mission blob = Inr (h, [w]) \<and> mh_drone_id h = 5 \<and> \<bar>mw_z w - (-2)\<bar> \<le> 1 / 200"
proof -
  obtain blob where "compile_mission [waypoint_at 0 (-2)] 5 sample_id (0, 0) = Inr blob"
    using sample_compiles by blast
  from mission_roundtrip[OF this] obtain h ws where "decode_mission blob = Inr (h, ws)" "mh_drone_id h = 5"
    "list_all2 (faithful_to (0, 0) (has_led h)) [waypoint_at 0 (-2)] ws" by blast
  then show ?thesis by (auto simp: list_all2_Cons1 faithful_to_def waypoint_at_def)
qed

text \<open>What the decoder has checked of a file it accepts.\<close>

lemma header_unpacks:
  assumes "length bs = 40"
  shows "struct_unpack HEADER_FORMAT bs = Some
    [VB (take 4 bs), VI (int (le_dec (take 2 (drop 4 bs)))), VI (int (le_dec (take 2 (drop 6 bs)))),
     VI (int (le_dec (take 2 (drop 8 bs)))), VI (int (le_dec (take 2 (drop 10 bs)))),
     VI (int (le_dec (take 4 (drop 12 bs)))), VI (int (le_dec (take 4 (drop 16 bs)))),
     VB (take 16 (drop 20 bs)), VI (int (le_dec (take 4 (drop 36 bs))))]"
  using assms by (simp add: HEADER_FORMAT_def)

lemma decode_mission_accepts:
  assumes "decode_mission blob = Inr (h, ws)"
  shows "40 \<le> length blob" and "take 4 blob = MISSION_MAGIC" and "le_dec (take 2 (drop 4 blob)) = 1"
    and "length blob - 40 = 16 * le_dec (take 4 (drop 12 blob))"
    and "le_dec (take 4 (drop 36 blob)) = unat (crc32 (drop 40 blob))"
proof -
  obtain h' where h': "decode_mission_header blob = Inr h'"
    using assms by (auto simp: decode_mission_def split: sum.splits)
  then show len: "40 \<le> length blob" by (auto simp: decode_mission_header_def split: if_splits)
  have "length (take 40 blob) = 40" using len by simp
  note u = header_unpacks[OF this]
  have f: "take 4 blob = MISSION_MAGIC" "le_dec (take 2 (drop 4 (take 40 blob))) = 1"
    "mh_waypoint_count h' = int (le_dec (take 4 (drop 12 (take 40 blob))))"
    "mh_records_crc32 h' = int (le_dec (take 4 (drop 36 (take 40 blob))))"
    using h' len unfolding decode_mission_header_def format_sizes u
    by (auto simp: MISSION_FORMAT_VERSION_def min_def split: if_splits)
  then show "take 4 blob = MISSION_MAGIC" and "le_dec (take 2 (drop 4 blob)) = 1"
    by (simp_all add: drop_take)
  have "length (drop 40 blob) = nat (mh_waypoint_count h') * 16"
    "word_int (crc32 (drop 40 blob)) = mh_records_crc32 h'"
    using assms h' by (auto simp: decode_mission_def Let_def split: if_splits)
  moreover have "mh_waypoint_count h' = int (le_dec (take 4 (drop 12 blob)))"
    "mh_records_crc32 h' = int (le_dec (take 4 (drop 36 blob)))"
    using f(3,4) by (simp_all add: drop_take)
  ultimately show "length blob - 40 = 16 * le_dec (take 4 (drop 12 blob))"
    and "le_dec (take 4 (drop 36 blob)) = unat (crc32 (drop 40 blob))"
    unfolding word_int_def by (simp, metis of_nat_eq_iff)
qed

lemma le_dec_inj: "length a = length b \<Longrightarrow> le_dec a = le_dec b \<Longrightarrow> a = b"
  by (metis le_enc_dec)

lemma update_differs: "i < length xs \<Longrightarrow> b \<noteq> xs ! i \<Longrightarrow> xs[i := b] \<noteq> xs"
  by (metis nth_list_update_eq)

lemma field_update_other:
  "i < j \<or> j + k \<le> i \<Longrightarrow> take k (drop j (xs[i := b])) = take k (drop j xs)"
  by (cases "i < j") (auto simp: drop_update_cancel drop_update_swap take_update_swap list_update_beyond)

lemma field_update_differs:
  assumes "j \<le> i" and "i < j + k" and "i < length xs" and "b \<noteq> xs ! i"
  shows "take k (drop j (xs[i := b])) \<noteq> take k (drop j xs)"
proof -
  have "(take k (drop j xs))[i - j := b] \<noteq> take k (drop j xs)"
    using assms by (intro update_differs) auto
  then show ?thesis using assms by (simp add: drop_update_swap take_update_swap)
qed

definition checked_offset :: "nat \<Rightarrow> bool" where
  "checked_offset i \<longleftrightarrow> i < 6 \<or> (12 \<le> i \<and> i < 16) \<or> 36 \<le> i"

text \<open>C16. A damaged mission file does not fly: of a file that is accepted, every proper prefix is
  refused, and so is every copy in which one byte of the records, of the magic, of the version, of
  the waypoint count or of the checksum is altered.\<close>

theorem damaged_mission_refused:
  assumes "decode_mission blob = Inr r"
  shows "(\<forall>n < length blob. \<exists>e. decode_mission (take n blob) = Inl e) \<and>
    (\<forall>i < length blob. \<forall>b. checked_offset i \<longrightarrow> b \<noteq> blob ! i \<longrightarrow> (\<exists>e. decode_mission (blob[i := b]) = Inl e))"
proof (intro conjI allI impI)
  obtain h ws where "decode_mission blob = Inr (h, ws)" using assms by (cases r) auto
  note old = decode_mission_accepts[OF this]
  show "\<exists>e. decode_mission (take n blob) = Inl e" if "n < length blob" for n
  proof (cases "decode_mission (take n blob)")
    case (Inr r')
    then obtain h' ws' where "decode_mission (take n blob) = Inr (h', ws')" by (cases r') auto
    note new = decode_mission_accepts[OF this]
    have "40 \<le> n" using new(1) that by simp
    then have "take 4 (drop 12 (take n blob)) = take 4 (drop 12 blob)" by (simp add: drop_take)
    then show ?thesis using new(4) old(4) that \<open>40 \<le> n\<close> by simp
  qed simp
  fix i b assume i: "i < length blob" "checked_offset i" "b \<noteq> blob ! i"
  show "\<exists>e. decode_mission (blob[i := b]) = Inl e"
  proof (cases "decode_mission (blob[i := b])")
    case (Inr r')
    then obtain h' ws' where "decode_mission (blob[i := b]) = Inr (h', ws')" by (cases r') auto
    note new = decode_mission_accepts[OF this]
    note changed = field_update_differs[OF _ _ i(1,3)] and same = field_update_other[where xs = blob and i = i and b = b]
    have le: "le_dec (take k (drop j (blob[i := b]))) \<noteq> le_dec (take k (drop j blob))"
      if "j \<le> i" "i < j + k" for j k
      using changed[OF that] le_dec_inj[of "take k (drop j (blob[i := b]))" "take k (drop j blob)"] by auto
    consider "i < 4" | "4 \<le> i" "i < 6" | "12 \<le> i" "i < 16" | "36 \<le> i" "i < 40" | "40 \<le> i"
      using i(2) unfolding checked_offset_def by linarith
    then have False
    proof cases
      case 1
      then show False using changed[of 0 4] old(2) new(2) by simp
    next
      case 2
      then show False using le[of 4 2] old(3) new(3) by simp
    next
      case 3
      then show False using le[of 12 4] old(4) new(4) by simp
    next
      case 4
      then show False using le[of 36 4] old(5) new(5) by (simp add: drop_update_cancel)
    next
      case 5
      have "crc32 (drop 40 (blob[i := b])) \<noteq> crc32 (drop 40 blob)"
        using 5 i by (simp add: drop_update_swap crc32_one_byte)
      then show False using same[of 36 4] 5 old(5) new(5) by (simp add: word_unat_eq_iff)
    qed
    then show ?thesis ..
  qed simp
qed

theorem damaged_mission_refused_witness:
  "\<exists>blob r. decode_mission blob = Inr r \<and> 40 < length blob \<and> (\<exists>e. decode_mission (blob[40 := blob ! 40 + 1]) = Inl e)"
proof -
  obtain blob where b: "compile_mission [waypoint_at 0 (-2)] 5 sample_id (0, 0) = Inr blob" "length blob = 56"
    using sample_compiles by blast
  then obtain r where r: "decode_mission blob = Inr r" using mission_roundtrip[OF b(1)] by blast
  have "blob ! 40 + 1 \<noteq> blob ! 40" by simp
  then have "\<exists>e. decode_mission (blob[40 := blob ! 40 + 1]) = Inl e"
    using damaged_mission_refused[OF r] b(2) by (simp add: checked_offset_def)
  then show ?thesis using r b(2) by (intro exI[of _ blob] exI[of _ r]) simp
qed

text \<open>The converse: these checks are all there are, so the flags, the drone, the duration and the
  show a header names can be altered without the file being refused.\<close>

lemma unpack_record_total:
  assumes "length bs = 16"
  shows "unpack_record bs \<noteq> None"
proof -
  have "struct_unpack RECORD_FORMAT bs = Some
      [VI (int (le_dec (take 4 bs))), VI (to_signed 2 (le_dec (take 2 (drop 4 bs)))),
       VI (to_signed 2 (le_dec (take 2 (drop 6 bs)))), VI (to_signed 2 (le_dec (take 2 (drop 8 bs)))),
       VI (int (le_dec (take 2 (drop 10 bs)))), VI (int (le_dec (take 1 (drop 12 bs)))),
       VI (int (le_dec (take 1 (drop 13 bs)))), VI (int (le_dec (take 1 (drop 14 bs))))]"
    using assms by (auto simp: RECORD_FORMAT_def split: list.splits dest!: arg_cong[of _ _ length])
  then show ?thesis by (simp add: unpack_record_def)
qed

lemma iter_unpack_total:
  "16 dvd length bs \<Longrightarrow> iter_unpack 16 unpack_record bs \<noteq> None"
proof (induction "length bs" arbitrary: bs rule: less_induct)
  case less
  show ?case
  proof (cases "bs = []")
    case False
    then have len: "16 \<le> length bs" using less.prems by (auto dest: dvd_imp_le)
    then have "unpack_record (take 16 bs) \<noteq> None" by (intro unpack_record_total) simp
    moreover have "iter_unpack 16 unpack_record (drop 16 bs) \<noteq> None"
      using less.prems len by (intro less.hyps) auto
    ultimately show ?thesis using len False by (subst iter_unpack.simps) auto
  qed (simp add: iter_unpack.simps)
qed

lemma decode_mission_complete:
  assumes "40 \<le> length blob" and "take 4 blob = MISSION_MAGIC" and "le_dec (take 2 (drop 4 blob)) = 1"
    and "length blob - 40 = 16 * le_dec (take 4 (drop 12 blob))"
    and "le_dec (take 4 (drop 36 blob)) = unat (crc32 (drop 40 blob))"
  shows "\<exists>h ws. decode_mission blob = Inr (h, ws)"
proof -
  have len: "length (take 40 blob) = 40" using assms(1) by simp
  obtain h where h: "decode_mission_header blob = Inr h"
    "mh_waypoint_count h = int (le_dec (take 4 (drop 12 blob)))"
    "mh_records_crc32 h = int (le_dec (take 4 (drop 36 blob)))"
    using assms(1-3) unfolding decode_mission_header_def format_sizes header_unpacks[OF len]
    by (simp add: MISSION_FORMAT_VERSION_def min_def drop_take)
  obtain rs where "iter_unpack 16 unpack_record (drop 40 blob) = Some rs"
    using iter_unpack_total[of "drop 40 blob"] assms(4) by auto
  then show ?thesis
    using h assms(4,5) by (simp add: decode_mission_def word_int_def word_unat_eq_iff[symmetric])
qed

lemma unprotected_header_byte:
  assumes "decode_mission blob = Inr (h, ws)" and "i < length blob" and "\<not> checked_offset i"
  shows "\<exists>h' ws'. decode_mission (blob[i := b]) = Inr (h', ws')"
proof -
  note old = decode_mission_accepts[OF assms(1)]
  have i: "6 \<le> i" "i < 12 \<or> 16 \<le> i" "i < 36" using assms(3) by (auto simp: checked_offset_def)
  show ?thesis
    using old i by (intro decode_mission_complete)
      (simp_all add: field_update_other field_update_other[of _ 0, simplified] drop_update_cancel)
qed

section \<open>Triggers\<close>

lemma trigger_reads:
  assumes "length p = 29"
  shows "decode_show_trigger p = Inr
    \<lparr>tr_command = int (le_dec (take 1 p)), tr_show_id = take 16 (drop 1 p),
     tr_start_utc_usec = int (le_dec (take 8 (drop 17 p))),
     tr_valid = (le_dec (drop 25 p) = unat (crc32 (take 25 p)) \<and> command_of (int (le_dec (take 1 p))) \<noteq> None)\<rparr>"
proof -
  have "struct_unpack TRIGGER_BODY_FORMAT (take 25 p) =
      Some [VI (int (le_dec (take 1 p))), VB (take 16 (drop 1 p)), VI (int (le_dec (take 8 (drop 17 p))))]"
    using assms by (simp add: TRIGGER_BODY_FORMAT_def drop_take min_def)
  moreover have "struct_unpack [FU 4] (drop 25 p) = Some [VI (int (le_dec (drop 25 p)))]"
    using assms by simp
  ultimately show ?thesis
    using assms by (simp add: decode_show_trigger_def Let_def word_int_def del: of_nat_unat)
qed

lemma encode_show_trigger_Inr:
  assumes "encode_show_trigger c sid start = Inr p"
  shows "length sid = 16" and "c \<in> {1, 2}" and "0 \<le> start" and "start < 256 ^ 8"
    and "p = le_enc 1 (nat c) @ sid @ le_enc 8 (nat start) @
      le_enc 4 (unat (crc32 (le_enc 1 (nat c) @ sid @ le_enc 8 (nat start))))"
  using assms
  by (auto simp: encode_show_trigger_def SHOW_ID_SIZE_def TRIGGER_BODY_FORMAT_def command_of_def word_int_def
      split: if_splits option.splits)

text \<open>C17. A drone acts on the trigger that was sent and on no damaged copy of it: an encoded trigger
  decodes as valid with the command, the show and the start instant it was made of, and whatever
  single byte is altered, the receiver sees an invalid frame.\<close>

theorem trigger_integrity:
  assumes "encode_show_trigger command show_id start = Inr p"
  shows "decode_show_trigger p = Inr \<lparr>tr_command = command, tr_show_id = show_id,
      tr_start_utc_usec = start, tr_valid = True\<rparr> \<and>
    (\<forall>i < length p. \<forall>b. b \<noteq> p ! i \<longrightarrow> (\<exists>t. decode_show_trigger (p[i := b]) = Inr t \<and> \<not> tr_valid t))"
proof (intro conjI allI impI)
  note e = encode_show_trigger_Inr[OF assms]
  let ?body = "le_enc 1 (nat command) @ show_id @ le_enc 8 (nat start)"
  have len: "length p = 29" using e by simp
  have parts: "take 1 p = le_enc 1 (nat command)" "take 16 (drop 1 p) = show_id"
    "take 8 (drop 17 p) = le_enc 8 (nat start)" "take 25 p = ?body" "drop 25 p = le_enc 4 (unat (crc32 ?body))"
    unfolding e(5) using e(1) by simp_all
  have crc: "le_dec (drop 25 p) = unat (crc32 (take 25 p))"
    using unsigned_less[of "crc32 ?body", where ?'a = nat] by (simp add: parts le_dec_enc)
  have vals: "int (le_dec (take 1 p)) = command" "int (le_dec (take 8 (drop 17 p))) = start"
    unfolding parts le_dec_enc using e(2-4) by (auto simp: nat_less_pow)
  show "decode_show_trigger p = Inr \<lparr>tr_command = command, tr_show_id = show_id,
      tr_start_utc_usec = start, tr_valid = True\<rparr>"
    using trigger_reads[OF len] crc vals parts(2) e(2) by (auto simp: command_of_def)
  fix i b assume i: "i < length p" "b \<noteq> p ! i"
  have len': "length (p[i := b]) = 29" using len by simp
  have "le_dec (drop 25 (p[i := b])) \<noteq> unat (crc32 (take 25 (p[i := b])))"
  proof (cases "i < 25")
    case True
    have "crc32 ((take 25 p)[i := b]) \<noteq> crc32 (take 25 p)"
      using True i len by (intro crc32_one_byte) auto
    then show ?thesis using True crc by (simp add: take_update_swap drop_update_cancel word_unat_eq_iff)
  next
    case False
    have "(drop 25 p)[i - 25 := b] \<noteq> drop 25 p" using False i len by (intro update_differs) auto
    then have "le_dec (drop 25 (p[i := b])) \<noteq> le_dec (drop 25 p)"
      using False le_dec_inj[of "drop 25 (p[i := b])" "drop 25 p"] by (auto simp: drop_update_swap)
    then show ?thesis using False crc by simp
  qed
  then show "\<exists>t. decode_show_trigger (p[i := b]) = Inr t \<and> \<not> tr_valid t"
    using trigger_reads[OF len'] by simp
qed

theorem trigger_integrity_witness:
  "\<exists>p. encode_show_trigger 1 sample_id 1750000000000000 = Inr p \<and>
     (\<exists>t. decode_show_trigger p = Inr t \<and> tr_valid t \<and> tr_start_utc_usec t = 1750000000000000)"
proof -
  obtain p where "encode_show_trigger 1 sample_id 1750000000000000 = Inr p"
    using word_int_bounds
    by (simp add: encode_show_trigger_def sample_id_def SHOW_ID_SIZE_def command_of_def TRIGGER_BODY_FORMAT_def)
  then show ?thesis using trigger_integrity[of 1 sample_id 1750000000000000] by auto
qed
end
