(* ===== verification/Signing.thy ===== *)
theory Signing
  imports Prelude
begin

text \<open>
  Signed show files, from the Studio to the ground station:
  \<^verbatim>\<open>packages/tara-core/tara_core/signing.py\<close> (manifests, signing and verification),
  \<^verbatim>\<open>packages/tara-gcs/tara_gcs/show_auth.py\<close> (which files the GCS accepts) and
  \<^verbatim>\<open>packages/tara-studio/tara_studio/signing.py\<close> (signing of exports). Ed25519, SHA-256, PEM and
  the JSON and base64 codecs are a record of parameters; a public key is its 32 raw bytes, a
  private key its seed.
\<close>

record crypto =
  cy_sha256 :: "bytes \<Rightarrow> bytes"
  cy_public :: "bytes \<Rightarrow> bytes"
  cy_sign :: "bytes \<Rightarrow> bytes \<Rightarrow> bytes"
  cy_verify :: "bytes \<Rightarrow> bytes \<Rightarrow> bytes \<Rightarrow> bool"
  cy_load_pem :: "bytes \<Rightarrow> (unit + bytes) option"
  cy_b64encode :: "bytes \<Rightarrow> string"
  cy_b64decode :: "string \<Rightarrow> bytes option"
  cy_loads :: "bytes \<Rightarrow> json option"
  cy_dumps :: "(string \<times> json) list \<Rightarrow> bytes"
  cy_pretty :: "(string \<times> json) list \<Rightarrow> bytes"
  cy_repr :: "json \<Rightarrow> string"

section \<open>Manifests\<close>

definition MANIFEST_SCHEMA :: string where
  "MANIFEST_SCHEMA = ''tara-show-signature/1''"

definition MANIFEST_SUFFIX :: string where
  "MANIFEST_SUFFIX = ''.sig.json''"

definition MAX_MANIFEST_BYTES :: nat where
  "MAX_MANIFEST_BYTES = 16 * 1024"

datatype signature_error =
    UnreadablePem
  | NotEd25519
  | NotBase64
  | KeyLength nat
  | ManifestTooLarge
  | ManifestNotJson
  | ManifestNotObject
  | UnsupportedSchema "json option"
  | MissingField string
  | UntrustedKey json
  | ManifestAltered
  | WrongFormat json string
  | FileModified
  | UnsignedRefused
  | NoTrustedKeys

record trusted_key =
  tk_signer :: string
  tk_public_key :: bytes

record verified_signature =
  vs_key_id :: string
  vs_signer :: string
  vs_signed_at :: string

definition hex_digit :: "nat \<Rightarrow> char" where
  "hex_digit n = (if n < 10 then char_of (48 + n) else char_of (87 + n))"

definition hexdigest :: "bytes \<Rightarrow> string" where
  "hexdigest bs = concat (map (\<lambda>b. [hex_digit (unat b div 16), hex_digit (unat b mod 16)]) bs)"

definition private_key_from_pem :: "crypto \<Rightarrow> bytes \<Rightarrow> signature_error + bytes" where
  "private_key_from_pem cy pem =
     (case cy_load_pem cy pem of
        None \<Rightarrow> Inl UnreadablePem
      | Some (Inl ()) \<Rightarrow> Inl NotEd25519
      | Some (Inr key) \<Rightarrow> Inr key)"

definition public_key_to_b64 :: "crypto \<Rightarrow> bytes \<Rightarrow> string" where
  "public_key_to_b64 cy key = cy_b64encode cy key"

definition public_key_from_b64 :: "crypto \<Rightarrow> string \<Rightarrow> signature_error + bytes" where
  "public_key_from_b64 cy s =
     (case cy_b64decode cy s of
        None \<Rightarrow> Inl NotBase64
      | Some raw \<Rightarrow> if length raw \<noteq> 32 then Inl (KeyLength (length raw)) else Inr raw)"

definition key_fingerprint :: "crypto \<Rightarrow> bytes \<Rightarrow> string" where
  "key_fingerprint cy key = take 16 (hexdigest (cy_sha256 cy key))"

definition key_id :: "crypto \<Rightarrow> trusted_key \<Rightarrow> string" where
  "key_id cy tk = key_fingerprint cy (tk_public_key tk)"

text \<open>\<^verbatim>\<open>PurePath(filename).suffix\<close>: the last component, from its last dot on, when the dot is neither
  the first nor the last character.\<close>

fun split_on :: "char \<Rightarrow> string \<Rightarrow> string list" where
  "split_on c [] = [[]]"
| "split_on c (x # xs) =
     (if x = c then [] # split_on c xs
      else case split_on c xs of [] \<Rightarrow> [[x]] | w # ws \<Rightarrow> (x # w) # ws)"

definition path_name :: "string \<Rightarrow> string" where
  "path_name p =
     (case rev (filter (\<lambda>w. w \<noteq> [] \<and> w \<noteq> ''.'') (split_on (CHR ''/'') p)) of [] \<Rightarrow> [] | w # ws \<Rightarrow> w)"

definition path_suffix :: "string \<Rightarrow> string" where
  "path_suffix p =
     (let name = path_name p; ext = after_last_dot name; i = length name - length ext - 1 in
      if CHR ''.'' \<in> set name \<and> 0 < i \<and> i < length name - 1 then CHR ''.'' # ext else [])"

definition file_format :: "string \<Rightarrow> string" where
  "file_format filename = dropWhile (\<lambda>c. c = CHR ''.'') (py_lower (path_suffix filename))"

definition signed_payload :: "crypto \<Rightarrow> (string, json) dict \<Rightarrow> bytes" where
  "signed_payload cy manifest = cy_dumps cy (filter (\<lambda>(k, v). k \<noteq> ''signature'') manifest)"

text \<open>The fields that are signed.\<close>

definition unsigned_manifest :: "crypto \<Rightarrow> bytes \<Rightarrow> string \<Rightarrow> bytes \<Rightarrow> string \<Rightarrow> (string, json) dict" where
  "unsigned_manifest cy content filename public_key signed_at =
     [(''schema'', JStr MANIFEST_SCHEMA), (''format'', JStr (file_format filename)),
      (''sha256'', JStr (hexdigest (cy_sha256 cy content))), (''size'', JInt (int (length content))),
      (''key_id'', JStr (key_fingerprint cy public_key)), (''signed_at'', JStr signed_at)]"

definition signed_manifest :: "crypto \<Rightarrow> bytes \<Rightarrow> string \<Rightarrow> bytes \<Rightarrow> string \<Rightarrow> (string, json) dict" where
  "signed_manifest cy content filename private_key signed_at =
     (let m = unsigned_manifest cy content filename (cy_public cy private_key) signed_at in
      m @ [(''signature'', JStr (cy_b64encode cy (cy_sign cy private_key (signed_payload cy m))))])"

definition sign_show :: "crypto \<Rightarrow> bytes \<Rightarrow> string \<Rightarrow> bytes \<Rightarrow> string \<Rightarrow> bytes" where
  "sign_show cy content filename private_key signed_at =
     cy_pretty cy (signed_manifest cy content filename private_key signed_at) @ [10]"

section \<open>Verification\<close>

definition REQUIRED_FIELDS :: "string list" where
  "REQUIRED_FIELDS = [''format'', ''sha256'', ''size'', ''key_id'', ''signed_at'', ''signature'']"

text \<open>\<^verbatim>\<open>str(value)\<close>\<close>

fun py_text :: "crypto \<Rightarrow> json \<Rightarrow> string" where
  "py_text cy (JStr s) = s"
| "py_text cy (JInt i) = py_str i"
| "py_text cy (JBool b) = (if b then ''True'' else ''False'')"
| "py_text cy JNull = ''None''"
| "py_text cy v = cy_repr cy v"

definition signature_ok :: "crypto \<Rightarrow> (string, json) dict \<Rightarrow> bytes \<Rightarrow> bool" where
  "signature_ok cy manifest public_key =
     (case map_of manifest ''signature'' of
        None \<Rightarrow> False
      | Some s \<Rightarrow> (case cy_b64decode cy (py_text cy s) of
          None \<Rightarrow> False
        | Some sig \<Rightarrow> cy_verify cy public_key sig (signed_payload cy manifest)))"

definition verify_manifest ::
  "crypto \<Rightarrow> bytes \<Rightarrow> string \<Rightarrow> (string, json) dict \<Rightarrow> (string, trusted_key) dict \<Rightarrow>
     signature_error + verified_signature"
where
  "verify_manifest cy content filename manifest trusted_keys =
     (if map_of manifest ''schema'' \<noteq> Some (JStr MANIFEST_SCHEMA)
      then Inl (UnsupportedSchema (map_of manifest ''schema''))
      else case find (\<lambda>f. map_of manifest f = None) REQUIRED_FIELDS of
        Some f \<Rightarrow> Inl (MissingField f)
      | None \<Rightarrow>
          let key = the (map_of manifest ''key_id'') in
          (case (case key of JStr k \<Rightarrow> map_of trusted_keys k | _ \<Rightarrow> None) of
             None \<Rightarrow> Inl (UntrustedKey key)
           | Some trusted \<Rightarrow>
               if \<not> signature_ok cy manifest (tk_public_key trusted) then Inl ManifestAltered
               else if map_of manifest ''format'' \<noteq> Some (JStr (file_format filename))
               then Inl (WrongFormat (the (map_of manifest ''format'')) (file_format filename))
               else if as_number (the (map_of manifest ''size'')) \<noteq> Some (of_nat (length content)) \<or>
                       map_of manifest ''sha256'' \<noteq> Some (JStr (hexdigest (cy_sha256 cy content)))
               then Inl FileModified
               else Inr \<lparr>vs_key_id = key_id cy trusted, vs_signer = tk_signer trusted,
                         vs_signed_at = py_text cy (the (map_of manifest ''signed_at''))\<rparr>))"

definition verify_show ::
  "crypto \<Rightarrow> bytes \<Rightarrow> string \<Rightarrow> bytes \<Rightarrow> (string, trusted_key) dict \<Rightarrow> signature_error + verified_signature"
where
  "verify_show cy content filename manifest_bytes trusted_keys =
     (if length manifest_bytes > MAX_MANIFEST_BYTES then Inl ManifestTooLarge
      else case cy_loads cy manifest_bytes of
        None \<Rightarrow> Inl ManifestNotJson
      | Some (JObj manifest) \<Rightarrow> verify_manifest cy content filename manifest trusted_keys
      | Some _ \<Rightarrow> Inl ManifestNotObject)"

section \<open>What the GCS accepts\<close>

record trust_policy =
  tp_trusted_keys :: "(string, trusted_key) dict"
  tp_allow_unsigned :: bool

definition check_show ::
  "crypto \<Rightarrow> trust_policy \<Rightarrow> bytes \<Rightarrow> string \<Rightarrow> bytes option \<Rightarrow> signature_error + verified_signature option"
where
  "check_show cy p content filename manifest =
     (case manifest of
        None \<Rightarrow> if tp_allow_unsigned p then Inr None else Inl UnsignedRefused
      | Some m \<Rightarrow>
          if tp_trusted_keys p = [] then Inl NoTrustedKeys
          else map_sum id Some (verify_show cy content filename m (tp_trusted_keys p)))"

text \<open>The configuration file: missing, not TOML, or its top-level table.\<close>

datatype toml_file = NoFile | NotToml | Toml "(string, json) dict"

text \<open>The elements a \<^verbatim>\<open>for\<close> loop over a value sees; \<^const>\<open>None\<close> where it raises.\<close>

fun iterate :: "json \<Rightarrow> json list option" where
  "iterate (JList vs) = Some vs"
| "iterate (JStr s) = Some (map (\<lambda>c. JStr [c]) s)"
| "iterate (JObj d) = Some (map (\<lambda>(k, v). JStr k) d)"
| "iterate _ = None"

definition trusted_entry :: "crypto \<Rightarrow> json \<Rightarrow> trusted_key option" where
  "trusted_entry cy entry =
     (case entry of
        JObj d \<Rightarrow>
          (case (map_of d ''signer'', map_of d ''public_key'') of
             (Some s, Some k) \<Rightarrow>
               if truthy s \<and> truthy k then
                 (case public_key_from_b64 cy (py_text cy k) of
                    Inl e \<Rightarrow> None
                  | Inr key \<Rightarrow> Some \<lparr>tk_signer = py_text cy s, tk_public_key = key\<rparr>)
               else None
           | _ \<Rightarrow> None)
      | _ \<Rightarrow> None)"

definition add_trusted :: "crypto \<Rightarrow> (string, trusted_key) dict \<Rightarrow> json \<Rightarrow> (string, trusted_key) dict" where
  "add_trusted cy keys entry =
     (case trusted_entry cy entry of None \<Rightarrow> keys | Some tk \<Rightarrow> dset (key_id cy tk) tk keys)"

text \<open>\<^const>\<open>None\<close> where \<^verbatim>\<open>[security]\<close> is not a table or the keys cannot be iterated over.\<close>

definition load_trust_policy :: "crypto \<Rightarrow> toml_file \<Rightarrow> bool \<Rightarrow> trust_policy option" where
  "load_trust_policy cy file allow_unsigned =
     (case file of
        Toml data \<Rightarrow>
          (case (case map_of data ''security'' of None \<Rightarrow> Some [] | Some (JObj d) \<Rightarrow> Some d | _ \<Rightarrow> None) of
             None \<Rightarrow> None
           | Some sec \<Rightarrow>
               (case (case map_of sec ''trusted_keys'' of None \<Rightarrow> Some [] | Some v \<Rightarrow> iterate v) of
                  None \<Rightarrow> None
                | Some entries \<Rightarrow>
                    Some \<lparr>tp_trusted_keys = foldl (add_trusted cy) [] entries,
                          tp_allow_unsigned = allow_unsigned\<rparr>))
      | _ \<Rightarrow> Some \<lparr>tp_trusted_keys = [], tp_allow_unsigned = allow_unsigned\<rparr>)"

section \<open>Signing of Studio exports\<close>

definition SIGNABLE_FORMATS :: "string list" where
  "SIGNABLE_FORMATS = [''json'', ''csv'']"

text \<open>A key file on disk: its permission bits and its bytes; \<^const>\<open>None\<close> if there is no such file.\<close>

type_synonym key_files = "string \<Rightarrow> (nat \<times> bytes) option"

datatype signing_error =
    KeyMissing string
  | KeyReadableByOthers string nat
  | KeyUnusable string signature_error
  | NotSignable string
  | NoKeyConfigured

text \<open>The configured path: the environment variable, or \<^verbatim>\<open>[studio].signing_key\<close>.\<close>

definition signing_key_path :: "string option \<Rightarrow> string option \<Rightarrow> string option" where
  "signing_key_path env toml =
     (case (case env of Some (c # cs) \<Rightarrow> Some (c # cs) | _ \<Rightarrow> toml) of
        Some (c # cs) \<Rightarrow> Some (c # cs) | _ \<Rightarrow> None)"

definition load_signer :: "crypto \<Rightarrow> key_files \<Rightarrow> string option \<Rightarrow> signing_error + bytes option" where
  "load_signer cy files path =
     (case path of
        None \<Rightarrow> Inr None
      | Some p \<Rightarrow>
          (case files p of
             None \<Rightarrow> Inl (KeyMissing p)
           | Some (mode, pem) \<Rightarrow>
               if mode mod 64 \<noteq> 0 then Inl (KeyReadableByOthers p mode)
               else (case private_key_from_pem cy pem of
                   Inl e \<Rightarrow> Inl (KeyUnusable p e) | Inr key \<Rightarrow> Inr (Some key))))"

record export_signature =
  ex_filename :: string
  ex_content :: bytes
  ex_key_id :: string

definition sign_export ::
  "crypto \<Rightarrow> key_files \<Rightarrow> string option \<Rightarrow> string \<Rightarrow> bytes \<Rightarrow> string \<Rightarrow> bool option \<Rightarrow>
     signing_error + export_signature option"
where
  "sign_export cy files path now content filename sign =
     (if sign = Some False then Inr None
      else if file_format filename \<notin> set SIGNABLE_FORMATS
      then (if sign = Some True then Inl (NotSignable (file_format filename)) else Inr None)
      else (case load_signer cy files path of
          Inl e \<Rightarrow> Inl e
        | Inr None \<Rightarrow> if sign = Some True then Inl NoKeyConfigured else Inr None
        | Inr (Some key) \<Rightarrow>
            Inr (Some \<lparr>ex_filename = filename @ MANIFEST_SUFFIX,
                       ex_content = sign_show cy content filename key now,
                       ex_key_id = key_fingerprint cy (cy_public cy key)\<rparr>)))"

record signing_status =
  ss_configured :: bool
  ss_ready :: bool
  ss_problem :: "signing_error option"
  ss_key_id :: "string option"
  ss_public_key :: "string option"

definition signing_status :: "crypto \<Rightarrow> key_files \<Rightarrow> string option \<Rightarrow> signing_status" where
  "signing_status cy files path =
     (case load_signer cy files path of
        Inl e \<Rightarrow> \<lparr>ss_configured = True, ss_ready = False, ss_problem = Some e,
                  ss_key_id = None, ss_public_key = None\<rparr>
      | Inr None \<Rightarrow> \<lparr>ss_configured = False, ss_ready = False, ss_problem = Some NoKeyConfigured,
                     ss_key_id = None, ss_public_key = None\<rparr>
      | Inr (Some key) \<Rightarrow> \<lparr>ss_configured = True, ss_ready = True, ss_problem = None,
                    ss_key_id = Some (key_fingerprint cy (cy_public cy key)),
                    ss_public_key = Some (public_key_to_b64 cy (cy_public cy key))\<rparr>)"

section \<open>Lemmas\<close>

lemma hex_digit_inj:
  assumes "m < 16" and "n < 16" and "hex_digit m = hex_digit n"
  shows "m = n"
proof -
  have code: "of_char (hex_digit k) = (if k < 10 then 48 + k else 87 + k)" if "k < 16" for k :: nat
    using that by (auto simp: hex_digit_def)
  have "(if m < 10 then 48 + m else 87 + m) = (if n < 10 then 48 + n else 87 + n)"
    using code[OF assms(1)] code[OF assms(2)] assms(3) by simp
  then show ?thesis using assms(1,2) by (simp split: if_splits)
qed

lemma hexdigest_inj: "hexdigest a = hexdigest b \<Longrightarrow> a = b"
proof (induction a arbitrary: b)
  case Nil
  then show ?case by (cases b) (auto simp: hexdigest_def)
next
  case (Cons x a)
  then obtain y b' where b: "b = y # b'" by (cases b) (auto simp: hexdigest_def)
  have bound: "unat w div 16 < 16" for w :: "8 word"
    using unsigned_less[of w, where ?'a = nat] by (simp add: less_mult_imp_div_less)
  have "hex_digit (unat x div 16) = hex_digit (unat y div 16)" "hex_digit (unat x mod 16) = hex_digit (unat y mod 16)"
    and rest: "hexdigest a = hexdigest b'"
    using Cons.prems by (simp_all add: b hexdigest_def)
  then have "unat x div 16 = unat y div 16" "unat x mod 16 = unat y mod 16"
    using bound by (auto intro: hex_digit_inj)
  then have "unat x = unat y" by (metis div_mult_mod_eq)
  then show ?case using Cons.IH[OF rest] by (simp add: b word_unat_eq_iff)
qed

lemma map_of_filter_key: "map_of (filter (\<lambda>(k, v). k \<noteq> s) d) k = (if k = s then None else map_of d k)"
  by (induction d) auto

lemma unsigned_manifest_fields:
  "map_of (unsigned_manifest cy c f pk ts) ''schema'' = Some (JStr MANIFEST_SCHEMA)"
  "map_of (unsigned_manifest cy c f pk ts) ''format'' = Some (JStr (file_format f))"
  "map_of (unsigned_manifest cy c f pk ts) ''sha256'' = Some (JStr (hexdigest (cy_sha256 cy c)))"
  "map_of (unsigned_manifest cy c f pk ts) ''size'' = Some (JInt (int (length c)))"
  "map_of (unsigned_manifest cy c f pk ts) ''key_id'' = Some (JStr (key_fingerprint cy pk))"
  "map_of (unsigned_manifest cy c f pk ts) ''signed_at'' = Some (JStr ts)"
  "dict_ok (unsigned_manifest cy c f pk ts)"
  by (simp_all add: unsigned_manifest_def dict_ok_def)

lemma filter_unsigned_manifest:
  "filter (\<lambda>(k, v). k \<noteq> ''signature'') (unsigned_manifest cy c f pk ts) = unsigned_manifest cy c f pk ts"
  by (simp add: unsigned_manifest_def)

lemma verify_show_Inr:
  assumes "verify_show cy content filename mb keys = Inr v"
  shows "\<exists>m tk k. cy_loads cy mb = Some (JObj m) \<and> map_of m ''key_id'' = Some (JStr k) \<and> map_of keys k = Some tk \<and>
    signature_ok cy m (tk_public_key tk) \<and> map_of m ''format'' = Some (JStr (file_format filename)) \<and>
    as_number (the (map_of m ''size'')) = Some (of_nat (length content)) \<and>
    map_of m ''sha256'' = Some (JStr (hexdigest (cy_sha256 cy content))) \<and>
    v = \<lparr>vs_key_id = key_id cy tk, vs_signer = tk_signer tk, vs_signed_at = py_text cy (the (map_of m ''signed_at''))\<rparr>"
proof -
  obtain m where m: "cy_loads cy mb = Some (JObj m)" and v: "verify_manifest cy content filename m keys = Inr v"
    using assms by (auto simp: verify_show_def split: if_splits option.splits json.splits)
  have "find (\<lambda>f. map_of m f = None) REQUIRED_FIELDS = None"
    using v by (auto simp: verify_manifest_def split: if_splits option.splits)
  then have "map_of m ''key_id'' \<noteq> None" by (auto simp: REQUIRED_FIELDS_def split: if_splits)
  then obtain key where key: "map_of m ''key_id'' = Some key" by blast
  obtain tk where tk: "(case key of JStr k \<Rightarrow> map_of keys k | _ \<Rightarrow> None) = Some tk"
    using v key by (auto simp: verify_manifest_def Let_def split: if_splits option.splits)
  then obtain k where "key = JStr k" "map_of keys k = Some tk" by (cases key) auto
  then show ?thesis
    using v m key by (intro exI[of _ m] exI[of _ tk] exI[of _ k])
      (auto simp: verify_manifest_def Let_def split: if_splits option.splits)
qed

section \<open>Properties\<close>

text \<open>What the library's documentation promises: JSON objects come back with distinct keys and
  the canonical encoding determines a manifest. Of the signature and of the digest nothing is assumed: a
  \<open>forgery\<close> is a signature that verifies under a key for a message that is the payload of nothing in the log
  \<open>issued\<close> of what the holder of the key signed, and a \<open>collision\<close> is two files of one digest.\<close>

definition json_faithful :: "crypto \<Rightarrow> bool" where
  "json_faithful cy \<longleftrightarrow> (\<forall>b d. cy_loads cy b = Some (JObj d) \<longrightarrow> dict_ok d) \<and>
     (\<forall>d c f key ts. dict_ok d \<longrightarrow> cy_dumps cy d = cy_dumps cy (unsigned_manifest cy c f key ts) \<longrightarrow>
       map_of d = map_of (unsigned_manifest cy c f key ts))"

type_synonym signed_file = "bytes \<times> string \<times> string"

definition forgery :: "crypto \<Rightarrow> bytes \<Rightarrow> signed_file set \<Rightarrow> bytes \<Rightarrow> bytes \<Rightarrow> bool" where
  "forgery cy key issued sig msg \<longleftrightarrow> cy_verify cy key sig msg \<and>
     (\<forall>(c, f, ts) \<in> issued. msg \<noteq> cy_dumps cy (unsigned_manifest cy c f key ts))"

definition collision :: "crypto \<Rightarrow> bytes \<Rightarrow> bytes \<Rightarrow> bool" where
  "collision cy c c' \<longleftrightarrow> c \<noteq> c' \<and> cy_sha256 cy c = cy_sha256 cy c'"

lemma payload_determines:
  assumes "json_faithful cy" and "dict_ok m" and "signed_payload cy m = cy_dumps cy (unsigned_manifest cy c f key ts)"
    and "x \<noteq> ''signature''"
  shows "map_of m x = map_of (unsigned_manifest cy c f key ts) x"
proof -
  have "map_of (filter (\<lambda>(k, v). k \<noteq> ''signature'') m) = map_of (unsigned_manifest cy c f key ts)"
    using assms(1-3) dict_ok_filter unfolding json_faithful_def signed_payload_def by blast
  then show ?thesis using assms(4) map_of_filter_key[of "''signature''" m x] by simp
qed

text \<open>C10. Only signed shows get in. When the GCS accepts a trajectory with a manifest, it reports a trusted key
  and its signer, and it has verified under that key a signature of a manifest that carries the format, the length
  and the digest of this very file and the instant it reports. So, whatever the holder of the key has signed: it
  signed this very file, under a name of the same format at the instant reported, or what was presented is a
  forgery of its signature or a collision of the digest with a signed file of the same format and length. In
  particular a file altered after signing, a signature moved to another file or format, and a key that is not on
  the list are refused, short of one of the two.\<close>

theorem accepted_show_was_signed:
  assumes "check_show cy p content filename (Some mb) = Inr (Some v)"
    and "json_faithful cy"
  shows "\<exists>(k, tk) \<in> set (tp_trusted_keys p). \<exists>m sig. cy_loads cy mb = Some (JObj m) \<and>
    vs_key_id v = key_id cy tk \<and> vs_signer v = tk_signer tk \<and>
    cy_verify cy (tk_public_key tk) sig (signed_payload cy m) \<and>
    map_of m ''format'' = Some (JStr (file_format filename)) \<and>
    as_number (the (map_of m ''size'')) = Some (of_nat (length content)) \<and>
    map_of m ''sha256'' = Some (JStr (hexdigest (cy_sha256 cy content))) \<and>
    vs_signed_at v = py_text cy (the (map_of m ''signed_at'')) \<and>
    ((\<exists>(c, f, ts) \<in> issued (tk_public_key tk). c = content \<and> file_format f = file_format filename \<and> ts = vs_signed_at v) \<or>
     (\<exists>(c, f, ts) \<in> issued (tk_public_key tk). collision cy c content \<and> length c = length content \<and>
        file_format f = file_format filename \<and> ts = vs_signed_at v) \<or>
     forgery cy (tk_public_key tk) (issued (tk_public_key tk)) sig (signed_payload cy m))"
proof -
  have "verify_show cy content filename mb (tp_trusted_keys p) = Inr v"
    using assms(1) by (cases "verify_show cy content filename mb (tp_trusted_keys p)")
      (auto simp: check_show_def split: if_splits)
  then obtain m tk k where m: "cy_loads cy mb = Some (JObj m)" "map_of (tp_trusted_keys p) k = Some tk"
    "signature_ok cy m (tk_public_key tk)" "map_of m ''format'' = Some (JStr (file_format filename))"
    "as_number (the (map_of m ''size'')) = Some (of_nat (length content))"
    "map_of m ''sha256'' = Some (JStr (hexdigest (cy_sha256 cy content)))"
    and v: "v = \<lparr>vs_key_id = key_id cy tk, vs_signer = tk_signer tk,
      vs_signed_at = py_text cy (the (map_of m ''signed_at''))\<rparr>"
    using verify_show_Inr by blast
  have tk: "(k, tk) \<in> set (tp_trusted_keys p)" using m(2) by (rule map_of_SomeD)
  obtain sig where sig: "cy_verify cy (tk_public_key tk) sig (signed_payload cy m)"
    using m(3) by (auto simp: signature_ok_def split: option.splits)
  have ok: "dict_ok m" using assms(2) m(1) by (auto simp: json_faithful_def)
  have "c = content \<and> file_format f = file_format filename \<and> ts = vs_signed_at v \<or>
      collision cy c content \<and> length c = length content \<and> file_format f = file_format filename \<and> ts = vs_signed_at v"
    if "signed_payload cy m = cy_dumps cy (unsigned_manifest cy c f (tk_public_key tk) ts)" for c f ts
  proof -
    note same = payload_determines[OF assms(2) ok that]
    have "cy_sha256 cy c = cy_sha256 cy content"
      using m(6) same[of "''sha256''"] by (auto simp: unsigned_manifest_fields dest: hexdigest_inj)
    moreover have "length c = length content" "file_format f = file_format filename" "vs_signed_at v = ts"
      using m(4,5) same[of "''size''"] same[of "''format''"] same[of "''signed_at''"]
      by (auto simp: unsigned_manifest_fields v)
    ultimately show ?thesis by (auto simp: collision_def)
  qed
  then have by_whom: "(\<exists>(c, f, ts) \<in> issued (tk_public_key tk). c = content \<and> file_format f = file_format filename \<and> ts = vs_signed_at v) \<or>
     (\<exists>(c, f, ts) \<in> issued (tk_public_key tk). collision cy c content \<and> length c = length content \<and>
        file_format f = file_format filename \<and> ts = vs_signed_at v) \<or>
     forgery cy (tk_public_key tk) (issued (tk_public_key tk)) sig (signed_payload cy m)"
    using sig unfolding forgery_def by fast
  have "vs_key_id v = key_id cy tk" "vs_signer v = tk_signer tk"
    "vs_signed_at v = py_text cy (the (map_of m ''signed_at''))" by (simp_all add: v)
  note reported = this
  show ?thesis
    by (intro bexI[OF _ tk] case_prodI exI[of _ m] exI[of _ sig] conjI) (rule m reported sig by_whom)+
qed

text \<open>A toy instance for the example: every piece of text is written with its length in unary.\<close>

definition enc_text :: "string \<Rightarrow> bytes" where
  "enc_text s = replicate (length s) 1 @ 0 # map (\<lambda>c. word_of_nat (of_char c)) s"

fun enc_value :: "json \<Rightarrow> bytes" where
  "enc_value (JStr s) = 1 # enc_text s"
| "enc_value (JInt i) = (if 0 \<le> i then 0 # replicate (nat i) 1 @ [0] else [2])"
| "enc_value v = [2]"

definition toy_dumps :: "(string, json) dict \<Rightarrow> bytes" where
  "toy_dumps d = concat (map (\<lambda>(k, v). enc_text k @ enc_value v) d)"

lemma unary_inj:
  assumes "replicate m (1 :: 8 word) @ 0 # xs = replicate n 1 @ 0 # ys"
  shows "m = n \<and> xs = ys"
proof -
  have "takeWhile (\<lambda>b. b = 1) (replicate k (1 :: 8 word) @ 0 # zs) = replicate k 1" for k zs
    by (induction k) auto
  then have "replicate m (1 :: 8 word) = replicate n 1" using assms by metis
  then have "m = n" by (metis length_replicate)
  then show ?thesis using assms by simp
qed

lemma char_byte_inj: "(word_of_nat (of_char c) :: 8 word) = word_of_nat (of_char d) \<Longrightarrow> c = d"
  by (drule arg_cong[of _ _ unat]) (simp add: unat_of_nat)

lemma enc_text_inj:
  assumes "enc_text s @ xs = enc_text t @ ys"
  shows "s = t \<and> xs = ys"
proof -
  let ?b = "\<lambda>c. word_of_nat (of_char c) :: 8 word"
  have "length s = length t \<and> map ?b s @ xs = map ?b t @ ys"
    using assms by (intro unary_inj) (simp add: enc_text_def)
  then have "length s = length t" "map ?b s = map ?b t" "xs = ys" by auto
  moreover have "inj ?b" by (rule injI) (rule char_byte_inj)
  ultimately show ?thesis by (simp add: inj_map_eq_map)
qed

lemma toy_dumps_inj:
  assumes "toy_dumps d = toy_dumps d'" and "\<forall>(k, v) \<in> set d'. (\<exists>s. v = JStr s) \<or> (\<exists>i. v = JInt i \<and> 0 \<le> i)"
  shows "d = d'"
  using assms
proof (induction d' arbitrary: d)
  case Nil
  then show ?case by (cases d) (auto simp: toy_dumps_def enc_text_def)
next
  case (Cons kv d')
  obtain k v where kv: "kv = (k, v)" by force
  obtain k' v' e where d: "d = (k', v') # e"
    using Cons.prems(1) by (cases d) (auto simp: toy_dumps_def enc_text_def kv)
  have "enc_text k' @ (enc_value v' @ toy_dumps e) = enc_text k @ (enc_value v @ toy_dumps d')"
    using Cons.prems(1) by (simp add: toy_dumps_def d kv)
  then have k: "k' = k" and v: "enc_value v' @ toy_dumps e = enc_value v @ toy_dumps d'"
    using enc_text_inj by blast+
  from Cons.prems(2) have good: "(\<exists>s. v = JStr s) \<or> (\<exists>i. v = JInt i \<and> 0 \<le> i)"
    and rest: "\<forall>(k, v) \<in> set d'. (\<exists>s. v = JStr s) \<or> (\<exists>i. v = JInt i \<and> 0 \<le> i)"
    by (auto simp: kv)
  have "v' = v \<and> toy_dumps e = toy_dumps d'"
    using good
  proof (elim disjE exE conjE)
    fix s assume "v = JStr s"
    then show ?thesis using v by (cases v') (auto split: if_splits dest: enc_text_inj)
  next
    fix i assume "v = JInt i" "0 \<le> i"
    then show ?thesis using v by (cases v') (auto split: if_splits dest: unary_inj)
  qed
  then show ?case using Cons.IH[of e] rest k by (simp add: d kv)
qed

definition toy_crypto :: "bytes \<Rightarrow> (string, json) dict \<Rightarrow> crypto" where
  "toy_crypto payload manifest =
     \<lparr>cy_sha256 = id, cy_public = id, cy_sign = (\<lambda>k m. [7]), cy_verify = (\<lambda>k s m. s = [7] \<and> m = payload),
      cy_load_pem = (\<lambda>pem. Some (Inr pem)), cy_b64encode = map (\<lambda>b. char_of (unat b)),
      cy_b64decode = (\<lambda>s. Some (map (\<lambda>c. word_of_nat (of_char c)) s)),
      cy_loads = (\<lambda>b. Some (JObj manifest)), cy_dumps = toy_dumps, cy_pretty = (\<lambda>d. []),
      cy_repr = (\<lambda>v. [])\<rparr>"

text \<open>The toy key holder has signed one file of three bytes.\<close>

definition toy_key :: bytes where
  "toy_key = replicate 32 9"

definition toy_unsigned :: "(string, json) dict" where
  "toy_unsigned = unsigned_manifest (toy_crypto [] []) [1, 2, 3] ''show.json'' toy_key ''now''"

definition toy :: crypto where
  "toy = toy_crypto (toy_dumps toy_unsigned) (toy_unsigned @ [(''signature'', JStr [CHR 0x07])])"

definition toy_policy :: trust_policy where
  "toy_policy = \<lparr>tp_trusted_keys = [(key_fingerprint toy toy_key, \<lparr>tk_signer = ''alice'', tk_public_key = toy_key\<rparr>)],
     tp_allow_unsigned = False\<rparr>"

lemma toy_fields: "cy_sha256 toy = id" "cy_dumps toy = toy_dumps" "cy_public toy = id"
  "cy_loads toy b = Some (JObj (toy_unsigned @ [(''signature'', JStr [CHR 0x07])]))"
  "cy_verify toy k s m \<longleftrightarrow> s = [7] \<and> m = toy_dumps toy_unsigned"
  by (simp_all add: toy_def toy_crypto_def)

lemma toy_unsigned_eq: "unsigned_manifest toy [1, 2, 3] ''show.json'' toy_key ''now'' = toy_unsigned"
  by (simp add: toy_unsigned_def unsigned_manifest_def toy_crypto_def toy_fields key_fingerprint_def)

lemma toy_faithful: "json_faithful toy"
  unfolding json_faithful_def
proof (intro conjI allI impI)
  show "dict_ok d" if "cy_loads toy b = Some (JObj d)" for b d
    using that by (auto simp: toy_fields toy_unsigned_def unsigned_manifest_def dict_ok_def)
  fix d c f key ts
  assume "cy_dumps toy d = cy_dumps toy (unsigned_manifest toy c f key ts)"
  then have "d = unsigned_manifest toy c f key ts"
    by (intro toy_dumps_inj) (auto simp: toy_fields unsigned_manifest_def)
  then show "map_of d = map_of (unsigned_manifest toy c f key ts)" by simp
qed

lemma toy_check: "check_show toy toy_policy [1, 2, 3] ''up.JSON'' (Some []) =
    Inr (Some \<lparr>vs_key_id = key_fingerprint toy toy_key, vs_signer = ''alice'', vs_signed_at = ''now''\<rparr>)"
proof -
  have fmts: "file_format ''up.JSON'' = file_format ''show.json''" by code_simp
  have sig: "filter (\<lambda>(k, v). k \<noteq> ''signature'') (toy_unsigned @ [(''signature'', JStr [CHR 0x07])]) = toy_unsigned"
    by (simp add: toy_unsigned_def filter_unsigned_manifest)
  have fields: "map_of (toy_unsigned @ [(''signature'', v)]) k = (if k = ''signature'' then Some v else map_of toy_unsigned k)"
    for v k by (auto simp: toy_unsigned_def unsigned_manifest_def split: option.splits)
  have payload: "signed_payload toy (toy_unsigned @ [(''signature'', JStr [CHR 0x07])]) = toy_dumps toy_unsigned"
    by (simp only: signed_payload_def sig toy_fields)
  have decoded: "cy_b64decode toy [CHR 0x07] = Some [7]" by (simp add: toy_def toy_crypto_def)
  have "signature_ok toy (toy_unsigned @ [(''signature'', JStr [CHR 0x07])]) toy_key"
    using payload decoded by (simp add: signature_ok_def fields toy_fields del: map_of_append)
  moreover note unsigned_manifest_fields[where cy = toy and c = "[1, 2, 3]" and f = "''show.json''"
      and pk = toy_key and ts = "''now''", unfolded toy_unsigned_eq]
  ultimately show ?thesis
    by (simp add: check_show_def toy_policy_def verify_show_def MAX_MANIFEST_BYTES_def toy_fields verify_manifest_def
        fields REQUIRED_FIELDS_def fmts Let_def key_id_def
        del: map_of_append)
qed

theorem accepted_show_was_signed_witness:
  "\<exists>v. check_show toy toy_policy [1, 2, 3] ''up.JSON'' (Some []) = Inr (Some v) \<and> vs_signer v = ''alice''"
  using accepted_show_was_signed[OF toy_check toy_faithful] toy_check by (auto simp: toy_policy_def)

text \<open>A show signed on the way out of the Studio gets in: when the Studio signs an export with
  the configured key and the GCS trusts that key under its fingerprint, the GCS accepts the same
  file, whatever the policy says of unsigned files, and reports the signer it lists for the key and
  the instant of signing. (The manifest must be within the size limit and be read back as written.)\<close>

theorem signed_export_accepted:
  assumes "sign_export cy files path now content filename wanted = Inr (Some e)"
    and "load_signer cy files path = Inr (Some key)"
    and "cy_loads cy (ex_content e) = Some (JObj (signed_manifest cy content filename key now))"
    and "length (ex_content e) \<le> MAX_MANIFEST_BYTES"
    and "\<forall>msg. cy_verify cy (cy_public cy key) (cy_sign cy key msg) msg"
    and "\<forall>bs. cy_b64decode cy (cy_b64encode cy bs) = Some bs"
    and "map_of (tp_trusted_keys p) (ex_key_id e) = Some tk" and "tk_public_key tk = cy_public cy key"
  shows "check_show cy p content filename (Some (ex_content e)) =
      Inr (Some \<lparr>vs_key_id = ex_key_id e, vs_signer = tk_signer tk, vs_signed_at = now\<rparr>) \<and>
    ex_filename e = filename @ ''.sig.json''"
proof -
  have e: "e = \<lparr>ex_filename = filename @ MANIFEST_SUFFIX, ex_content = sign_show cy content filename key now,
      ex_key_id = key_fingerprint cy (cy_public cy key)\<rparr>"
    using assms(1,2) by (auto simp: sign_export_def split: if_splits)
  let ?u = "unsigned_manifest cy content filename (cy_public cy key) now"
  let ?sig = "JStr (cy_b64encode cy (cy_sign cy key (signed_payload cy ?u)))"
  have m: "signed_manifest cy content filename key now = ?u @ [(''signature'', ?sig)]"
    by (simp add: signed_manifest_def Let_def)
  have fields: "map_of (?u @ [(''signature'', v)]) k = (if k = ''signature'' then Some v else map_of ?u k)" for v k
    by (auto simp: unsigned_manifest_def split: option.splits)
  have "signed_payload cy (?u @ [(''signature'', ?sig)]) = signed_payload cy ?u"
    by (simp add: signed_payload_def filter_unsigned_manifest)
  then have "signature_ok cy (?u @ [(''signature'', ?sig)]) (tk_public_key tk)"
    using assms(5,6,8) by (simp add: signature_ok_def fields del: map_of_append)
  moreover have "tp_trusted_keys p \<noteq> []" using assms(7) by auto
  moreover have "key_id cy tk = ex_key_id e" using assms(8) by (simp add: key_id_def e)
  ultimately show ?thesis
    using assms(3,4,7) unfolding m
    by (simp add: check_show_def verify_show_def verify_manifest_def fields REQUIRED_FIELDS_def
        unsigned_manifest_fields Let_def e MANIFEST_SUFFIX_def del: map_of_append)
qed

definition toy2 :: crypto where
  "toy2 = toy_crypto [] (signed_manifest (toy_crypto [] []) [1, 2, 3] ''show.json'' toy_key ''now'')
     \<lparr>cy_verify := (\<lambda>k s m. s = [7])\<rparr>"

theorem signed_export_accepted_witness:
  "\<exists>e. sign_export toy2 (\<lambda>f. Some (384, toy_key)) (Some ''key.pem'') ''now'' [1, 2, 3] ''show.json'' None = Inr (Some e) \<and>
     check_show toy2 \<lparr>tp_trusted_keys = [(ex_key_id e, \<lparr>tk_signer = ''alice'', tk_public_key = toy_key\<rparr>)],
        tp_allow_unsigned = False\<rparr> [1, 2, 3] ''show.json'' (Some (ex_content e)) =
       Inr (Some \<lparr>vs_key_id = ex_key_id e, vs_signer = ''alice'', vs_signed_at = ''now''\<rparr>)"
proof -
  have f: "file_format ''show.json'' = ''json''" by code_simp
  have signer: "load_signer toy2 (\<lambda>f. Some (384, toy_key)) (Some ''key.pem'') = Inr (Some toy_key)"
    by (simp add: load_signer_def private_key_from_pem_def toy2_def toy_crypto_def)
  obtain e where e: "sign_export toy2 (\<lambda>f. Some (384, toy_key)) (Some ''key.pem'') ''now'' [1, 2, 3] ''show.json'' None = Inr (Some e)"
    "e = \<lparr>ex_filename = ''show.json'' @ MANIFEST_SUFFIX, ex_content = sign_show toy2 [1, 2, 3] ''show.json'' toy_key ''now'',
      ex_key_id = key_fingerprint toy2 (cy_public toy2 toy_key)\<rparr>"
    using signer f by (simp add: sign_export_def SIGNABLE_FORMATS_def)
  have same: "signed_manifest toy2 [1, 2, 3] ''show.json'' toy_key ''now'' =
      signed_manifest (toy_crypto [] []) [1, 2, 3] ''show.json'' toy_key ''now''"
    by (simp add: signed_manifest_def toy2_def toy_crypto_def unsigned_manifest_def signed_payload_def
        key_fingerprint_def Let_def)
  have loads: "cy_loads toy2 (ex_content e) = Some (JObj (signed_manifest toy2 [1, 2, 3] ''show.json'' toy_key ''now''))"
    unfolding same by (simp add: toy2_def toy_crypto_def)
  have "length (ex_content e) \<le> MAX_MANIFEST_BYTES"
    by (simp add: e(2) sign_show_def toy2_def toy_crypto_def MAX_MANIFEST_BYTES_def)
  moreover have "\<forall>msg. cy_verify toy2 (cy_public toy2 toy_key) (cy_sign toy2 toy_key msg) msg"
    by (simp add: toy2_def toy_crypto_def)
  moreover have "\<forall>bs. cy_b64decode toy2 (cy_b64encode toy2 bs) = Some bs"
  proof -
    have "word_of_nat (of_char (char_of (unat b))) = b" for b :: "8 word"
      using unsigned_less[of b, where ?'a = nat] by simp
    then show ?thesis by (simp add: toy2_def toy_crypto_def o_def)
  qed
  moreover have "cy_public toy2 toy_key = toy_key" by (simp add: toy2_def toy_crypto_def)
  ultimately show ?thesis
    using signed_export_accepted[OF e(1) signer loads, of
        "\<lparr>tp_trusted_keys = [(ex_key_id e, \<lparr>tk_signer = ''alice'', tk_public_key = toy_key\<rparr>)], tp_allow_unsigned = False\<rparr>"
        "\<lparr>tk_signer = ''alice'', tk_public_key = toy_key\<rparr>"] e(1) by auto
qed
end
