(* ===== verification/Start_Bridge.thy ===== *)
theory Start_Bridge
  imports Validate
begin

text \<open>
  The transition from the formation hold to a streamed show's first waypoint,
  \<^verbatim>\<open>packages/tara-gcs/tara_gcs/start_bridge.py\<close>: a minimum-jerk leg for every drone, the
  show delayed behind it, and the closed-form check of the separation between any two legs. The
  spatial index is the parameter \<open>near\<close> of \<open>Validate\<close>; the sort of the pairs by distance is
  taken to be stable.
\<close>

definition BRIDGE_TOLERANCE_M :: real where
  "BRIDGE_TOLERANCE_M = 1 / 2"

definition BRIDGE_PEAK_SPEED_MS :: real where
  "BRIDGE_PEAK_SPEED_MS = 14 / 10"

definition MIN_BRIDGE_S :: real where
  "MIN_BRIDGE_S = 1"

definition BRIDGE_SAMPLE_S :: real where
  "BRIDGE_SAMPLE_S = 1 / 10"

definition MIN_JERK_PEAK_FACTOR :: real where
  "MIN_JERK_PEAK_FACTOR = 1875 / 1000"

datatype bridge_error =
    UnknownPositions "int list"
  | UnsafeLegs "string list"
  | ZeroPeakSpeed

text \<open>The text of the two refusals.\<close>

fun bridge_message :: "bridge_error \<Rightarrow> string" where
  "bridge_message (UnknownPositions ids) =
     ''Start refused: no current position for '' @
     py_join '', '' (map (\<lambda>d. ''Drone '' @ py_str d) ids) @
     '' (not connected, no fresh telemetry, or never reported), so its transition from the '' @
     ''formation hold to the show's first waypoint cannot be planned or checked.''"
| "bridge_message (UnsafeLegs errors) =
     ''Start refused: the transition from the formation hold to the show's first waypoints is not safe '' @
     ''(runtime separation limit 1.5m). '' @ py_join ''; '' errors"
| "bridge_message ZeroPeakSpeed = ''float division by zero''"

definition min_jerk :: "real \<Rightarrow> real" where
  "min_jerk tau = tau ^ 3 * (10 - 15 * tau + 6 * tau * tau)"

record leg =
  lg_start :: point3
  lg_goal :: point3
  lg_yaw :: real

definition lerp3 :: "real \<Rightarrow> point3 \<Rightarrow> point3 \<Rightarrow> point3" where
  "lerp3 f a b =
     (case (a, b) of ((x, y, z), (x', y', z')) \<Rightarrow> (x + f * (x' - x), y + f * (y' - y), z + f * (z' - z)))"

definition sub3 :: "point3 \<Rightarrow> point3 \<Rightarrow> point3" where
  "sub3 a b = (case (a, b) of ((x, y, z), (x', y', z')) \<Rightarrow> (x - x', y - y', z - z'))"

definition add_scaled :: "point3 \<Rightarrow> real \<Rightarrow> point3 \<Rightarrow> point3" where
  "add_scaled a u b = (case (a, b) of ((x, y, z), (x', y', z')) \<Rightarrow> (x + u * x', y + u * y', z + u * z'))"

definition dot3 :: "point3 \<Rightarrow> point3 \<Rightarrow> real" where
  "dot3 a b = (case (a, b) of ((x, y, z), (x', y', z')) \<Rightarrow> x * x' + y * y' + z * z')"

section \<open>The separation of the legs\<close>

text \<open>The closest approach of two drones within one interval, from the vector between them and its
  change: the fraction of the interval and the distance.\<close>

definition closest_approach :: "point3 \<Rightarrow> point3 \<Rightarrow> real \<times> real" where
  "closest_approach r0 dv =
     (let speed2 = dot3 dv dv;
          u = min 1 (max 0 (if speed2 > 0 then - dot3 r0 dv / speed2 else 0))
      in (u, length3 (add_scaled r0 u dv)))"

definition leg_points :: "leg list \<Rightarrow> nat \<Rightarrow> nat \<Rightarrow> point3 list" where
  "leg_points legs steps k = map (\<lambda>l. lerp3 (min_jerk (real k / real steps)) (lg_start l) (lg_goal l)) legs"

text \<open>The pairs examined in one interval: their indices, and the fraction and the distance of their
  closest approach, nearest first.\<close>

definition interval_pairs :: "near_pairs \<Rightarrow> leg list \<Rightarrow> nat \<Rightarrow> nat \<Rightarrow> (nat \<times> nat \<times> real \<times> real) list" where
  "interval_pairs near legs steps k =
     (let a = leg_points legs steps k; delta = map2 sub3 (leg_points legs steps (k + 1)) a;
          reach = 2 * Max (set (map length3 delta))
      in sort_key (\<lambda>(i, j, u, d). d)
           (map (\<lambda>(i, j). (i, j, closest_approach (sub3 (a ! j) (a ! i)) (sub3 (delta ! j) (delta ! i))))
             (near a (min_separation_m DEFAULT_LIMITS + reach))))"

definition leg_error_text :: "int list \<Rightarrow> nat \<Rightarrow> nat \<times> nat \<times> real \<times> real \<Rightarrow> string" where
  "leg_error_text ids k p =
     (case p of (i, j, u, d) \<Rightarrow>
       ''Collision risk at '' @ fmt_fixed 1 ((real k + u) * BRIDGE_SAMPLE_S) @ ''s: Drone '' @
       py_str (min (ids ! i) (ids ! j)) @ '' and Drone '' @ py_str (max (ids ! i) (ids ! j)) @
       '' are separated by '' @ fmt_fixed 2 d @ ''m (limit: 1.5m)'')"

definition leg_separation_errors :: "near_pairs \<Rightarrow> (int, leg) dict \<Rightarrow> nat \<Rightarrow> int \<Rightarrow> string list" where
  "leg_separation_errors near legs steps max_errors =
     (let ids = map fst legs in
      if length ids < 2 then []
      else collect_until max_errors []
        (concat (map (\<lambda>k. map (leg_error_text ids k)
            (takeWhile (\<lambda>(i, j, u, d). d < min_separation_m DEFAULT_LIMITS)
              (interval_pairs near (map snd legs) steps k)))
          [0..<steps])))"

section \<open>The bridged plan\<close>

definition legs_of :: "choreography \<Rightarrow> (int, point3) dict \<Rightarrow> (int, leg) dict" where
  "legs_of plan hold =
     List.map_filter (\<lambda>(i, wps).
       case wps of [] \<Rightarrow> None
       | first # _ \<Rightarrow> map_option (\<lambda>p. (i, \<lparr>lg_start = p, lg_goal = xyz first, lg_yaw = getd (w_yaw first) 0\<rparr>))
           (map_of hold i)) plan"

definition unknown_drones :: "choreography \<Rightarrow> (int, point3) dict \<Rightarrow> int list" where
  "unknown_drones plan hold = map fst (filter (\<lambda>(i, wps). wps \<noteq> [] \<and> map_of hold i = None) plan)"

text \<open>Waypoint \<open>k\<close> of a leg: a fresh dictionary of the five keys.\<close>

definition leg_sample :: "leg \<Rightarrow> nat \<Rightarrow> nat \<Rightarrow> waypoint" where
  "leg_sample l steps k =
     (case lerp3 (min_jerk (real k / real steps)) (lg_start l) (lg_goal l) of (x, y, z) \<Rightarrow>
       \<lparr>w_time = real k * BRIDGE_SAMPLE_S, w_x = x, w_y = y, w_z = z, w_yaw = Some (lg_yaw l),
        w_r = None, w_g = None, w_b = None, w_w = None, w_vx = None, w_vy = None, w_vz = None\<rparr>)"

definition shift :: "real \<Rightarrow> waypoint \<Rightarrow> waypoint" where
  "shift bridge_s w = w\<lparr>w_time := w_time w + bridge_s\<rparr>"

definition bridge_track :: "nat \<Rightarrow> real \<Rightarrow> leg option \<Rightarrow> waypoint list \<Rightarrow> waypoint list" where
  "bridge_track steps bridge_s leg wps =
     (let shifted = map (shift bridge_s) wps in
      case leg of
        None \<Rightarrow> shifted
      | Some l \<Rightarrow>
          let shifted' = (if w_time (shifted ! 0) > bridge_s
                          then (shifted ! 0)\<lparr>w_time := bridge_s\<rparr> # shifted else shifted)
          in map (leg_sample l steps) [0..<steps] @ shifted')"

definition bridge_steps :: "real \<Rightarrow> real \<Rightarrow> nat" where
  "bridge_steps longest peak_speed_ms =
     nat (max \<lceil>MIN_BRIDGE_S / BRIDGE_SAMPLE_S\<rceil>
       \<lceil>MIN_JERK_PEAK_FACTOR * longest / peak_speed_ms / BRIDGE_SAMPLE_S\<rceil>)"

definition build_start_bridge ::
  "near_pairs \<Rightarrow> choreography \<Rightarrow> (int, point3) dict \<Rightarrow> real \<Rightarrow> bridge_error + choreography \<times> real"
where
  "build_start_bridge near plan hold peak_speed_ms =
     (let legs = legs_of plan hold; unknown = unknown_drones plan hold in
      if unknown \<noteq> [] then Inl (UnknownPositions (sort unknown))
      else let longest = max_default 0 (map (\<lambda>(i, l). dist3 (lg_start l) (lg_goal l)) legs) in
        if longest \<le> BRIDGE_TOLERANCE_M then Inr (plan, 0)
        else if peak_speed_ms = 0 then Inl ZeroPeakSpeed
        else let steps = bridge_steps longest peak_speed_ms;
                 bridge_s = real steps * BRIDGE_SAMPLE_S;
                 bridged = map (\<lambda>(i, wps). (i, bridge_track steps bridge_s (map_of legs i) wps)) plan;
                 errors = leg_separation_errors near legs steps 3
             in if errors \<noteq> [] then Inl (UnsafeLegs errors) else Inr (bridged, bridge_s))"

section \<open>Lemmas\<close>

lemma length3_dot: "length3 p = sqrt (dot3 p p)"
  by (cases p) (simp add: length3_def dot3_def)

lemma dist3_length: "dist3 p q = length3 (sub3 q p)"
  by (cases p; cases q) (simp add: dist3_def length3_def sub3_def power2_eq_square algebra_simps)

text \<open>The closed form is the minimum over the interval.\<close>

lemma closest_approach_minimal:
  assumes "0 \<le> u" and "u \<le> 1"
  shows "snd (closest_approach r0 dv) \<le> length3 (add_scaled r0 u dv)"
proof -
  let ?s = "dot3 dv dv" and ?b = "dot3 r0 dv"
  define v where "v = min 1 (max 0 (if ?s > 0 then - ?b / ?s else 0))"
  have expand: "dot3 (add_scaled r0 w dv) (add_scaled r0 w dv) = dot3 r0 r0 + 2 * w * ?b + w\<^sup>2 * ?s" for w
    by (cases r0; cases dv) (simp add: dot3_def add_scaled_def power2_eq_square algebra_simps)
  have s: "0 \<le> ?s" by (cases dv) (simp add: dot3_def)
  have "2 * v * ?b + v\<^sup>2 * ?s \<le> 2 * u * ?b + u\<^sup>2 * ?s"
  proof (cases "?s > 0")
    case False
    then have "?s = 0" using s by simp
    then have "dv = (0, 0, 0)" by (cases dv) (simp add: dot3_def sum_nonneg_eq_0_iff add_nonneg_eq_0_iff)
    then show ?thesis by (cases r0) (simp add: dot3_def)
  next
    case True
    define m where "m = - ?b / ?s"
    have b: "?b = - m * ?s" using True by (simp add: m_def)
    have v: "v = min 1 (max 0 m)" using True by (simp add: v_def m_def)
    have q: "2 * w * ?b + w\<^sup>2 * ?s = ?s * ((w - m)\<^sup>2 - m\<^sup>2)" for w
      by (simp add: b power2_eq_square algebra_simps)
    have "\<bar>v - m\<bar> \<le> \<bar>u - m\<bar>" using assms unfolding v by (auto simp: min_def max_def)
    then have "(v - m)\<^sup>2 \<le> (u - m)\<^sup>2" by (simp add: abs_le_square_iff)
    then show ?thesis unfolding q using True by (intro mult_left_mono) auto
  qed
  then show ?thesis
    by (simp add: closest_approach_def Let_def length3_dot expand flip: v_def)
qed

text \<open>Lengths: the triangle inequality, and scaling.\<close>

lemma cauchy_schwarz3: "(dot3 a b)\<^sup>2 \<le> dot3 a a * dot3 b b"
proof -
  obtain x y z x' y' z' where a: "a = (x, y, z)" and b: "b = (x', y', z')" by (cases a; cases b)
  have "dot3 a a * dot3 b b - (dot3 a b)\<^sup>2 = (x * y' - y * x')\<^sup>2 + (x * z' - z * x')\<^sup>2 + (y * z' - z * y')\<^sup>2"
    by (simp add: a b dot3_def power2_eq_square algebra_simps)
  then have "0 \<le> dot3 a a * dot3 b b - (dot3 a b)\<^sup>2" by simp
  then show ?thesis by simp
qed

lemma dot3_nonneg [simp]: "0 \<le> dot3 a a"
  by (cases a) (simp add: dot3_def)

lemma length3_triangle: "length3 (add_scaled a u b) \<le> length3 a + \<bar>u\<bar> * length3 b"
proof -
  have "\<bar>dot3 a b\<bar> \<le> length3 a * length3 b"
    using cauchy_schwarz3[of a b] by (simp add: length3_dot real_le_rsqrt flip: real_sqrt_mult real_sqrt_abs)
  then have "u * dot3 a b \<le> \<bar>u\<bar> * (length3 a * length3 b)"
    by (metis abs_ge_self abs_mult abs_ge_zero mult_left_mono order_trans)
  moreover have "dot3 (add_scaled a u b) (add_scaled a u b) = dot3 a a + 2 * (u * dot3 a b) + u\<^sup>2 * dot3 b b"
    by (cases a; cases b) (simp add: dot3_def add_scaled_def power2_eq_square algebra_simps)
  moreover have "(length3 a + \<bar>u\<bar> * length3 b)\<^sup>2 = dot3 a a + 2 * (\<bar>u\<bar> * (length3 a * length3 b)) + u\<^sup>2 * dot3 b b"
    by (simp add: power2_sum power_mult_distrib length3_dot)
  ultimately have "dot3 (add_scaled a u b) (add_scaled a u b) \<le> (length3 a + \<bar>u\<bar> * length3 b)\<^sup>2" by linarith
  moreover have "0 \<le> length3 a + \<bar>u\<bar> * length3 b" by (simp add: length3_dot)
  ultimately show ?thesis unfolding length3_dot[of "add_scaled a u b"] by (intro real_le_lsqrt) simp_all
qed

lemma length3_back: "length3 r \<le> length3 (add_scaled r u dv) + \<bar>u\<bar> * length3 dv"
proof -
  have "add_scaled (add_scaled r u dv) (- u) dv = r" by (cases r; cases dv) (simp add: add_scaled_def)
  then show ?thesis using length3_triangle[of "add_scaled r u dv" "- u" dv] by simp
qed

lemma length3_sub: "length3 (sub3 a b) \<le> length3 a + length3 b"
proof -
  have "sub3 a b = add_scaled a (- 1) b" by (cases a; cases b) (simp add: sub3_def add_scaled_def)
  then show ?thesis using length3_triangle[of a "- 1" b] by simp
qed

lemma take_while_sorted_Nil:
  assumes "takeWhile (\<lambda>x. f x < b) xs = []" and "sorted (map f xs)" and "x \<in> set xs"
  shows "(b :: real) \<le> f x"
  using assms by (cases xs) (auto split: if_splits)

lemma interval_pairs_mem:
  assumes "(i, j, u, d) \<in> set (interval_pairs near legs steps k)"
  shows "\<exists>r. (i, j) \<in> set (near (leg_points legs steps k) r) \<and>
    (u, d) = closest_approach (sub3 (leg_points legs steps k ! j) (leg_points legs steps k ! i))
      (sub3 (map2 sub3 (leg_points legs steps (k + 1)) (leg_points legs steps k) ! j)
        (map2 sub3 (leg_points legs steps (k + 1)) (leg_points legs steps k) ! i))"
  using assms by (auto simp: interval_pairs_def Let_def)

text \<open>The filter loses nothing: a pair that comes closer than the limit within an interval starts it
  within the limit plus what the two can close.\<close>

lemma interval_clear:
  assumes near: "finds_near_pairs near"
    and clear: "takeWhile (\<lambda>(i, j, u, d). d < min_separation_m DEFAULT_LIMITS) (interval_pairs near legs steps k) = []"
    and ij: "i < j" "j < length legs" and u: "0 \<le> u" "u \<le> 1"
  defines "a \<equiv> leg_points legs steps k" and "b \<equiv> leg_points legs steps (k + 1)"
  shows "min_separation_m DEFAULT_LIMITS \<le>
    dist3 (add_scaled (a ! i) u (sub3 (b ! i) (a ! i))) (add_scaled (a ! j) u (sub3 (b ! j) (a ! j)))"
proof (rule ccontr)
  let ?L = "min_separation_m DEFAULT_LIMITS"
  let ?delta = "map2 sub3 b a" and ?reach = "2 * Max (set (map length3 (map2 sub3 b a)))"
  have len: "length a = length legs" "length b = length legs" by (simp_all add: a_def b_def leg_points_def)
  have nth: "?delta ! m = sub3 (b ! m) (a ! m)" if "m < length legs" for m using that len by simp
  define r0 where "r0 = sub3 (a ! j) (a ! i)"
  define dv where "dv = sub3 (?delta ! j) (?delta ! i)"
  assume "\<not> ?L \<le> dist3 (add_scaled (a ! i) u (sub3 (b ! i) (a ! i))) (add_scaled (a ! j) u (sub3 (b ! j) (a ! j)))"
  moreover have "sub3 (add_scaled (a ! j) u (?delta ! j)) (add_scaled (a ! i) u (?delta ! i)) = add_scaled r0 u dv"
    by (cases "a ! i"; cases "a ! j"; cases "?delta ! i"; cases "?delta ! j")
      (simp add: r0_def dv_def sub3_def add_scaled_def algebra_simps)
  ultimately have close: "length3 (add_scaled r0 u dv) < ?L"
    using nth ij by (simp add: dist3_length)
  have reach: "length3 (?delta ! m) \<le> ?reach / 2" if "m < length legs" for m
  proof -
    have "?delta ! m \<in> set ?delta" using that len by (intro nth_mem) simp
    then have "length3 (?delta ! m) \<in> set (map length3 ?delta)" unfolding set_map by (rule imageI)
    then have "length3 (?delta ! m) \<le> Max (set (map length3 ?delta))" by (intro Max_ge) simp
    then show ?thesis by simp
  qed
  have "length3 dv \<le> ?reach" using length3_sub[of "?delta ! j" "?delta ! i"] reach[of i] reach[of j] ij
    by (simp add: dv_def)
  moreover have "\<bar>u\<bar> * length3 dv \<le> 1 * length3 dv" using u by (intro mult_right_mono) (auto simp: length3_dot)
  ultimately have "length3 r0 \<le> ?L + ?reach" using length3_back[of r0 u dv] close by linarith
  then have "(i, j) \<in> set (near a (?L + ?reach))"
    using near ij len by (simp add: finds_near_pairs_def dist3_length r0_def)
  then have mem: "(i, j, closest_approach r0 dv) \<in> set (interval_pairs near legs steps k)"
    unfolding interval_pairs_def Let_def set_sort set_map a_def[symmetric] b_def[symmetric]
    by (rule image_eqI[rotated]) (simp add: r0_def dv_def)
  have "sorted (map (\<lambda>(i, j, u, d). d) (interval_pairs near legs steps k))"
    by (simp add: interval_pairs_def Let_def)
  moreover have "takeWhile (\<lambda>x. (\<lambda>(i, j, u, d). d) x < ?L) (interval_pairs near legs steps k) = []"
    using clear by (simp add: case_prod_unfold)
  ultimately have "?L \<le> (\<lambda>(i, j, u, d). d) (i, j, closest_approach r0 dv)"
    using mem by (intro take_while_sorted_Nil)
  then show False
    using closest_approach_minimal[OF u, of r0 dv] close by (simp add: case_prod_unfold)
qed


section \<open>The bridged tracks\<close>

lemma min_jerk_ends [simp]: "min_jerk 0 = 0" "min_jerk 1 = 1"
  by (simp_all add: min_jerk_def)

lemma lerp3_ends [simp]: "lerp3 0 a b = a" "lerp3 1 a b = b"
  by (cases a; cases b; simp add: lerp3_def)+

lemma leg_sample_fields [simp]:
  "w_time (leg_sample l n k) = real k * BRIDGE_SAMPLE_S"
  "xyz (leg_sample l n k) = lerp3 (min_jerk (real k / real n)) (lg_start l) (lg_goal l)"
  by (simp_all add: leg_sample_def xyz_def split: prod.splits)

text \<open>The waypoint \<open>between\<close> two others is on the line between them.\<close>

lemma xyz_between:
  assumes "w_time w1 < w_time w2"
  shows "xyz (between w1 w2 t) =
    add_scaled (xyz w1) ((t - w_time w1) / (w_time w2 - w_time w1)) (sub3 (xyz w2) (xyz w1))"
  using assms by (simp add: between_def xyz_def add_scaled_def sub3_def Let_def)

text \<open>A track with its leg: the times of its first waypoints and where they are.\<close>

lemma bridge_track_points:
  assumes "wps \<noteq> []" and "0 \<le> w_time (hd wps)" and "0 < steps" and "lg_goal l = xyz (hd wps)"
    and "k \<le> steps"
  defines "track \<equiv> bridge_track steps (real steps * BRIDGE_SAMPLE_S) (Some l) wps"
  shows "k < length track" and "w_time (track ! k) = real k * BRIDGE_SAMPLE_S"
    and "xyz (track ! k) = lerp3 (min_jerk (real k / real steps)) (lg_start l) (lg_goal l)"
proof -
  let ?bs = "real steps * BRIDGE_SAMPLE_S"
  obtain w ws where wps: "wps = w # ws" using assms(1) by (cases wps) auto
  obtain rest v where track: "track = map (leg_sample l steps) [0..<steps] @ v # rest"
    and v: "w_time v = ?bs" "xyz v = xyz w"
  proof (cases "w_time w > 0")
    case True
    show thesis
      by (rule that[of "(shift ?bs w)\<lparr>w_time := ?bs\<rparr>" "map (shift ?bs) wps"])
        (use True in \<open>simp_all add: track_def bridge_track_def Let_def wps shift_def xyz_def\<close>)
  next
    case False
    then have "w_time w = 0" using assms(2) by (simp add: wps)
    then show thesis
      by (intro that[of "shift ?bs w" "map (shift ?bs) ws"])
        (simp_all add: track_def bridge_track_def Let_def wps shift_def xyz_def)
  qed
  show "k < length track" using assms(5) by (simp add: track)
  show "w_time (track ! k) = real k * BRIDGE_SAMPLE_S"
    and "xyz (track ! k) = lerp3 (min_jerk (real k / real steps)) (lg_start l) (lg_goal l)"
    using assms(3-5) v by (auto simp: track nth_append wps)
qed

lemma bridge_track_sorted:
  assumes "wps \<noteq> []" and "sorted (map w_time wps)" and "0 \<le> w_time (hd wps)"
  shows "sorted (map w_time (bridge_track steps (real steps * BRIDGE_SAMPLE_S) (Some l) wps))"
proof -
  let ?bs = "real steps * BRIDGE_SAMPLE_S"
  obtain w ws where wps: "wps = w # ws" using assms(1) by (cases wps) auto
  have late: "?bs \<le> w_time v + ?bs" if "v \<in> set wps" for v
    using assms(2,3) that by (auto simp: wps)
  have "sorted (map (\<lambda>k. real k * BRIDGE_SAMPLE_S) [0..<steps])"
    by (simp add: sorted_iff_nth_mono BRIDGE_SAMPLE_S_def)
  moreover have "sorted (map (\<lambda>v. w_time v + ?bs) wps)"
    using assms(2) by (simp add: sorted_map sorted_wrt_iff_nth_less)
  moreover have "real k * BRIDGE_SAMPLE_S \<le> ?bs" if "k < steps" for k
    using that by (simp add: BRIDGE_SAMPLE_S_def)
  ultimately show ?thesis
    using late by (fastforce simp: bridge_track_def Let_def sorted_append shift_def o_def wps intro: order_trans)
qed

text \<open>Where a leg is, a fraction \<open>u\<close> into its interval \<open>k\<close>.\<close>

definition leg_point :: "leg \<Rightarrow> nat \<Rightarrow> nat \<Rightarrow> point3" where
  "leg_point l steps k = lerp3 (min_jerk (real k / real steps)) (lg_start l) (lg_goal l)"

definition leg_at :: "leg \<Rightarrow> nat \<Rightarrow> nat \<Rightarrow> real \<Rightarrow> point3" where
  "leg_at l steps k u =
     add_scaled (leg_point l steps k) u (sub3 (leg_point l steps (k + 1)) (leg_point l steps k))"

text \<open>During the leg a track is linear between the points of the leg.\<close>

lemma bridge_interpolates:
  assumes wps: "wps \<noteq> []" "sorted (map w_time wps)" "0 \<le> w_time (hd wps)"
    and "0 < steps" and goal: "lg_goal l = xyz (hd wps)"
    and t: "0 \<le> t" "t < real steps * BRIDGE_SAMPLE_S"
    and p: "interpolate_waypoint (bridge_track steps (real steps * BRIDGE_SAMPLE_S) (Some l) wps) t = Some p"
  shows "xyz p = (let k = nat (\<lceil>t / BRIDGE_SAMPLE_S\<rceil> - 1) in leg_at l steps k (t / BRIDGE_SAMPLE_S - real k))"
proof -
  define pt where "pt = leg_point l steps"
  define track where "track = bridge_track steps (real steps * BRIDGE_SAMPLE_S) (Some l) wps"
  note pts = bridge_track_points[OF wps(1,3) \<open>0 < steps\<close> goal, folded track_def leg_point_def, folded pt_def]
  have ne: "track \<noteq> []" using pts(1)[of 0] by auto
  have first: "w_time (track ! 0) = 0" "xyz (track ! 0) = pt 0" using pts(2,3)[of 0] by simp_all
  show ?thesis
  proof (cases "t = 0")
    case True
    then have "p = track ! 0" using p ne first by (simp add: interpolate_waypoint_def flip: track_def)
    then show ?thesis using first True
      by (cases "pt 0") (simp add: add_scaled_def leg_at_def flip: pt_def)
  next
    case False
    then have pos: "0 < t" using t(1) by simp
    have sorted: "sorted (map w_time track)" unfolding track_def by (rule bridge_track_sorted[OF wps])
    have mono: "w_time (track ! i) \<le> w_time (track ! j)" if "i \<le> j" "j < length track" for i j
      using sorted_nth_mono[OF sorted, of i j] that by simp
    have "w_time (track ! steps) \<le> w_time (last track)"
      using mono[of steps "length track - 1"] pts(1)[of steps] ne by (simp add: last_conv_nth)
    then have last: "t < w_time (last track)" using pts(2)[of steps] t(2) by simp
    let ?i = "bisect_left (map w_time track) t 0 (length track)"
    note seg = bisect_left_segment[OF ne _ last]
    have i: "0 < ?i" "?i < length track" "w_time (track ! (?i - 1)) < t" "t \<le> w_time (track ! ?i)"
      using seg first(1) pos by simp_all
    have "?i \<le> steps"
    proof (rule ccontr)
      assume "\<not> ?i \<le> steps"
      then have "w_time (track ! steps) \<le> w_time (track ! (?i - 1))" using mono i(2) by simp
      then show False using pts(2)[of steps] i(3) t(2) by simp
    qed
    then obtain k where k: "?i = k + 1" "k < steps" using i(1) by (metis Suc_eq_plus1 Suc_le_eq gr0_implies_Suc)
    have tk: "w_time (track ! k) = real k * BRIDGE_SAMPLE_S" "xyz (track ! k) = pt k"
      "w_time (track ! (k + 1)) = real (k + 1) * BRIDGE_SAMPLE_S" "xyz (track ! (k + 1)) = pt (k + 1)"
      using pts(2,3) k(2) by (simp_all del: of_nat_add)
    have "p = between (track ! k) (track ! (k + 1)) t"
      using p ne pos first(1) last k(1) by (simp add: interpolate_waypoint_def Let_def flip: track_def)
    moreover have less: "w_time (track ! k) < w_time (track ! (k + 1))" using tk by (simp add: BRIDGE_SAMPLE_S_def)
    moreover have "(t - w_time (track ! k)) / (w_time (track ! (k + 1)) - w_time (track ! k)) = t / BRIDGE_SAMPLE_S - real k"
    proof -
      have diff: "w_time (track ! (k + 1)) - w_time (track ! k) = BRIDGE_SAMPLE_S"
        unfolding tk by (simp add: algebra_simps)
      show ?thesis
        by (subst diff, subst tk(1)) (simp add: diff_divide_distrib BRIDGE_SAMPLE_S_def)
    qed
    ultimately have xyz: "xyz p = add_scaled (pt k) (t / BRIDGE_SAMPLE_S - real k) (sub3 (pt (k + 1)) (pt k))"
      using tk by (simp add: xyz_between)
    have "real k < t / BRIDGE_SAMPLE_S" "t / BRIDGE_SAMPLE_S \<le> real k + 1"
      using i(3,4) tk k(1) by (simp_all add: BRIDGE_SAMPLE_S_def)
    then have "\<lceil>t / BRIDGE_SAMPLE_S\<rceil> = int k + 1" by linarith
    then show ?thesis using xyz by (simp add: Let_def leg_at_def flip: pt_def)
  qed
qed

text \<open>Every drone of the plan with waypoints has a leg, to its own first waypoint.\<close>

lemma legs_of_mem:
  assumes "dict_ok plan" and "(i, wps) \<in> set plan" and "wps \<noteq> []" and "unknown_drones plan hold = []"
  shows "\<exists>l. map_of (legs_of plan hold) i = Some l \<and> (i, l) \<in> set (legs_of plan hold) \<and> lg_goal l = xyz (hd wps)"
proof -
  have known: "map_of hold i \<noteq> None"
  proof
    assume "map_of hold i = None"
    then have "(i, wps) \<in> set (filter (\<lambda>(i, wps). wps \<noteq> [] \<and> map_of hold i = None) plan)"
      using assms(2,3) by simp
    then have "unknown_drones plan hold \<noteq> []" unfolding unknown_drones_def by force
    then show False using assms(4) by simp
  qed
  obtain w ws where w: "wps = w # ws" using assms(3) by (cases wps) auto
  obtain q where q: "map_of hold i = Some q" using known by auto
  let ?l = "\<lparr>lg_start = q, lg_goal = xyz w, lg_yaw = getd (w_yaw w) 0\<rparr>"
  have mem: "(i, ?l) \<in> set (legs_of plan hold)"
    unfolding legs_of_def using assms(2) by (rule map_filter_mem) (simp add: w q)
  have "dict_ok (legs_of plan hold)"
    unfolding legs_of_def
    by (rule dict_ok_map_filter[OF assms(1)]) (auto split: prod.splits list.splits)
  then have "map_of (legs_of plan hold) i = Some ?l" using mem by (simp add: dict_ok_mem)
  then show ?thesis using mem by (auto simp: w)
qed

lemma legs_separated:
  assumes near: "finds_near_pairs near" and none: "leg_separation_errors near legs steps m = []"
    and ij: "i < j" "j < length legs" and k: "k < steps" and u: "0 \<le> u" "u \<le> 1"
  shows "min_separation_m DEFAULT_LIMITS \<le>
    dist3 (leg_at (snd (legs ! i)) steps k u) (leg_at (snd (legs ! j)) steps k u)"
proof -
  have "takeWhile (\<lambda>(i, j, u, d). d < min_separation_m DEFAULT_LIMITS) (interval_pairs near (map snd legs) steps k) = []"
    using none ij k by (auto simp: leg_separation_errors_def Let_def collect_until_Nil split: if_splits)
  from interval_clear[OF near this, of i j u] show ?thesis
    using ij u by (simp add: leg_points_def leg_at_def leg_point_def)
qed

lemma dist3_commute: "dist3 p q = dist3 q p"
  by (cases p; cases q) (simp add: dist3_def power2_commute)

section \<open>Properties\<close>

text \<open>The shows the bridge is built for: waypoints in time order, none before the start.\<close>

definition timed_plan :: "choreography \<Rightarrow> bool" where
  "timed_plan plan \<longleftrightarrow> (\<forall>(i, wps) \<in> set plan. sorted (map w_time wps) \<and> (\<forall>w \<in> set wps. 0 \<le> w_time w))"

lemma legs_of_empty:
  assumes "dict_ok plan" and "(d, []) \<in> set plan"
  shows "map_of (legs_of plan hold) d = None"
proof (rule ccontr)
  assume "map_of (legs_of plan hold) d \<noteq> None"
  then obtain l where "(d, l) \<in> set (legs_of plan hold)" by (auto dest: map_of_SomeD)
  then obtain v vs where "(d, v # vs) \<in> set plan"
    by (auto simp: legs_of_def List.map_filter_def split: list.splits)
  then show False using assms by (simp add: dict_ok_mem)
qed

lemma bridge_steps_pos: "0 < bridge_steps d v"
proof -
  have "0 < \<lceil>MIN_BRIDGE_S / BRIDGE_SAMPLE_S\<rceil>" by (simp add: MIN_BRIDGE_S_def BRIDGE_SAMPLE_S_def)
  then show ?thesis unfolding bridge_steps_def zero_less_nat_eq by (rule less_max_iff_disj[THEN iffD2, OF disjI1])
qed

lemma build_start_bridge_Inr:
  assumes "build_start_bridge near plan hold peak = Inr (bridged, bridge_s)"
  obtains "unknown_drones plan hold = []" and "bridged = plan" and "bridge_s = 0"
  | steps where "unknown_drones plan hold = []" and "0 < steps" and "bridge_s = real steps * BRIDGE_SAMPLE_S"
    and "leg_separation_errors near (legs_of plan hold) steps 3 = []"
    and "bridged = map (\<lambda>(i, wps). (i, bridge_track steps bridge_s (map_of (legs_of plan hold) i) wps)) plan"
proof -
  define longest where "longest = max_default 0 (map (\<lambda>(i, l). dist3 (lg_start l) (lg_goal l)) (legs_of plan hold))"
  note b = assms[unfolded build_start_bridge_def Let_def, folded longest_def]
  have none: "unknown_drones plan hold = []" using b by (simp split: if_splits)
  show thesis
  proof (cases "longest \<le> BRIDGE_TOLERANCE_M")
    case True
    then show thesis using b none by (intro that(1)) simp_all
  next
    case False
    then show thesis using b none bridge_steps_pos
      by (intro that(2)[of "bridge_steps longest peak"]) (auto split: if_splits)
  qed
qed

lemma bridged_position:
  assumes ok: "dict_ok plan" "timed_plan plan" and none: "unknown_drones plan hold = []" and "0 < steps"
    and t: "0 \<le> t" "t < real steps * BRIDGE_SAMPLE_S" and d: "(d, wps) \<in> set plan"
    and r: "interpolate_waypoint
      (bridge_track steps (real steps * BRIDGE_SAMPLE_S) (map_of (legs_of plan hold) d) wps) t = Some r"
  shows "\<exists>n l. n < length (legs_of plan hold) \<and> legs_of plan hold ! n = (d, l) \<and>
    xyz r = (let k = nat (\<lceil>t / BRIDGE_SAMPLE_S\<rceil> - 1) in leg_at l steps k (t / BRIDGE_SAMPLE_S - real k))"
proof -
  have ne: "wps \<noteq> []"
  proof
    assume "wps = []"
    then show False
      using r legs_of_empty[OF ok(1)] d by (auto simp: bridge_track_def Let_def interpolate_waypoint_def)
  qed
  obtain l where l: "map_of (legs_of plan hold) d = Some l" "(d, l) \<in> set (legs_of plan hold)"
    "lg_goal l = xyz (hd wps)"
    using legs_of_mem[OF ok(1) d ne none] by auto
  then obtain n where "n < length (legs_of plan hold)" "legs_of plan hold ! n = (d, l)"
    by (auto simp: in_set_conv_nth)
  moreover have "sorted (map w_time wps)" "0 \<le> w_time (hd wps)"
    using ok(2) d ne by (auto simp: timed_plan_def)
  ultimately show ?thesis
    using bridge_interpolates[OF ne _ _ \<open>0 < steps\<close> l(3) t] r l(1) by auto
qed

text \<open>C14. The way from the hold into the show is safe at every instant: if a start is not refused, then
  all through the transition, and not only at its sample times, any two drones as the streaming
  loop interpolates them are at least the distance apart at which the live monitor aborts.\<close>

theorem start_bridge_separated:
  assumes "finds_near_pairs near" and "dict_ok plan" and "timed_plan plan"
    and "build_start_bridge near plan hold peak = Inr (bridged, bridge_s)"
    and "0 \<le> t" and "t < bridge_s"
    and "(i, wi) \<in> set bridged" and "(j, wj) \<in> set bridged" and "i \<noteq> j"
    and "interpolate_waypoint wi t = Some p" and "interpolate_waypoint wj t = Some q"
  shows "15 / 10 \<le> dist3 (xyz p) (xyz q)"
proof -
  obtain steps where b: "unknown_drones plan hold = []" and steps: "0 < steps"
    and bs: "bridge_s = real steps * BRIDGE_SAMPLE_S"
    and none: "leg_separation_errors near (legs_of plan hold) steps 3 = []"
    and bridged: "bridged = map (\<lambda>(i, wps). (i, bridge_track steps bridge_s (map_of (legs_of plan hold) i) wps)) plan"
    using assms(4) by (rule build_start_bridge_Inr) (use assms(5,6) in auto)
  define k u where "k = nat (\<lceil>t / BRIDGE_SAMPLE_S\<rceil> - 1)" and "u = t / BRIDGE_SAMPLE_S - real k"
  have ku: "k < steps" "0 \<le> u" "u \<le> 1"
    using assms(5,6) bs steps unfolding k_def u_def BRIDGE_SAMPLE_S_def by (auto simp: nat_less_iff) linarith+
  have at: "\<exists>n l. n < length (legs_of plan hold) \<and> legs_of plan hold ! n = (d, l) \<and> xyz r = leg_at l steps k u"
    if "(d, w) \<in> set bridged" "interpolate_waypoint w t = Some r" for d w r
    using that bridged_position[OF assms(2,3) b steps assms(5)] assms(6) bs
    by (auto simp: bridged Let_def k_def u_def)
  obtain m lm n ln where "m < length (legs_of plan hold)" "legs_of plan hold ! m = (i, lm)" "xyz p = leg_at lm steps k u"
    and "n < length (legs_of plan hold)" "legs_of plan hold ! n = (j, ln)" "xyz q = leg_at ln steps k u"
    using at[OF assms(7,10)] at[OF assms(8,11)] by blast
  moreover from this have "m \<noteq> n" using assms(9) by auto
  ultimately show ?thesis
    using legs_separated[OF assms(1) none, of m n k u] legs_separated[OF assms(1) none, of n m k u] ku
    by (auto simp: DEFAULT_LIMITS_def dist3_commute nat_neq_iff)
qed

text \<open>The example: two drones five metres apart that each move one metre down to their show.\<close>

definition pad_waypoint :: "real \<Rightarrow> waypoint" where
  "pad_waypoint x = (waypoint_at 0 0)\<lparr>w_x := x\<rparr>"

definition pad_plan :: choreography where
  "pad_plan = [(0, [pad_waypoint 0]), (1, [pad_waypoint 5])]"

definition pad_hold :: "(int, point3) dict" where
  "pad_hold = [(0, (0, 0, -1)), (1, (5, 0, -1))]"

lemma pad_plan_legs:
  "legs_of pad_plan pad_hold = [(0, \<lparr>lg_start = (0, 0, -1), lg_goal = (0, 0, 0), lg_yaw = 0\<rparr>),
     (1, \<lparr>lg_start = (5, 0, -1), lg_goal = (5, 0, 0), lg_yaw = 0\<rparr>)]"
  by (simp add: legs_of_def pad_plan_def pad_hold_def List.map_filter_simps pad_waypoint_def waypoint_at_def
      xyz_def getd_def)

lemma pad_leg_points:
  "leg_points (map snd (legs_of pad_plan pad_hold)) steps k =
     [(0, 0, -1 + min_jerk (real k / real steps)), (5, 0, -1 + min_jerk (real k / real steps))]"
  by (simp add: pad_plan_legs leg_points_def lerp3_def)

text \<open>They stay five metres apart, so no pair is close.\<close>

lemma pad_no_errors: "leg_separation_errors all_near_pairs (legs_of pad_plan pad_hold) steps m = []"
proof -
  have "takeWhile (\<lambda>(i, j, u, d). d < min_separation_m DEFAULT_LIMITS)
      (interval_pairs all_near_pairs (map snd (legs_of pad_plan pad_hold)) steps k) = []" for k
  proof -
    have "\<not> d < min_separation_m DEFAULT_LIMITS"
      if ijud: "(i, j, u, d) \<in> set (interval_pairs all_near_pairs (map snd (legs_of pad_plan pad_hold)) steps k)" for i j u d
    proof -
      let ?a = "leg_points (map snd (legs_of pad_plan pad_hold)) steps"
      obtain r where r: "(i, j) \<in> set (all_near_pairs (?a k) r)" and d: "(u, d) = closest_approach (sub3 (?a k ! j) (?a k ! i))
          (sub3 (map2 sub3 (?a (k + 1)) (?a k) ! j) (map2 sub3 (?a (k + 1)) (?a k) ! i))"
        using interval_pairs_mem[OF ijud] by blast
      have "i < j" "j < 2" using r all_near_pairs_finds by (auto simp: finds_near_pairs_def pad_leg_points)
      then have "i = 0" "j = 1" by auto
      then have "(u, d) = closest_approach (5, 0, 0) (0, 0, 0)"
        using d unfolding pad_leg_points by (simp add: sub3_def)
      moreover have "closest_approach (5, 0, 0) (0, 0, 0) = (0, 5)"
        by (simp add: closest_approach_def Let_def dot3_def length3_def add_scaled_def)
      ultimately show ?thesis by (simp add: DEFAULT_LIMITS_def)
    qed
    then show ?thesis by (auto simp: takeWhile_eq_Nil_iff dest: hd_in_set)
  qed
  then show ?thesis by (simp add: leg_separation_errors_def collect_until_Nil Let_def)
qed

lemma pad_steps: "bridge_steps 1 (7 / 5) = 14"
proof -
  have "\<lceil>(1875 / 1000 * 1 / (7 / 5) / (1 / 10) :: real)\<rceil> = 14" by (intro ceiling_unique) simp_all
  then show ?thesis by (simp add: bridge_steps_def MIN_BRIDGE_S_def BRIDGE_SAMPLE_S_def MIN_JERK_PEAK_FACTOR_def)
qed

lemma pad_bridge: "build_start_bridge all_near_pairs pad_plan pad_hold (14 / 10) = Inr
  (map (\<lambda>(i, wps). (i, bridge_track 14 (14 / 10) (map_of (legs_of pad_plan pad_hold) i) wps)) pad_plan, 14 / 10)"
proof -
  have "unknown_drones pad_plan pad_hold = []" by (simp add: unknown_drones_def pad_plan_def pad_hold_def)
  moreover have "max_default 0 (map (\<lambda>(i, l). dist3 (lg_start l) (lg_goal l)) (legs_of pad_plan pad_hold)) = 1"
    by (simp add: pad_plan_legs max_default_def dist3_def)
  ultimately show ?thesis
    by (simp add: build_start_bridge_def Let_def BRIDGE_TOLERANCE_M_def pad_steps pad_no_errors BRIDGE_SAMPLE_S_def)
qed

theorem start_bridge_separated_witness:
  "\<exists>p q. interpolate_waypoint (bridge_track 14 (14 / 10) (map_of (legs_of pad_plan pad_hold) 0) [pad_waypoint 0]) (7 / 10) = Some p \<and>
     interpolate_waypoint (bridge_track 14 (14 / 10) (map_of (legs_of pad_plan pad_hold) 1) [pad_waypoint 5]) (7 / 10) = Some q \<and>
     15 / 10 \<le> dist3 (xyz p) (xyz q)"
proof -
  let ?t = "\<lambda>i w. bridge_track 14 (14 / 10) (map_of (legs_of pad_plan pad_hold) i) [w]"
  have ne: "?t 0 (pad_waypoint 0) \<noteq> []" "?t 1 (pad_waypoint 5) \<noteq> []"
    by (simp_all add: bridge_track_def Let_def split: option.splits)
  obtain p where p: "interpolate_waypoint (?t 0 (pad_waypoint 0)) (7 / 10) = Some p"
    using interpolate_Some[THEN iffD2, OF ne(1)] by (rule not_None_eq[THEN iffD1, THEN exE])
  obtain q where q: "interpolate_waypoint (?t 1 (pad_waypoint 5)) (7 / 10) = Some q"
    using interpolate_Some[THEN iffD2, OF ne(2)] by (rule not_None_eq[THEN iffD1, THEN exE])
  note pq = p q
  have mem: "(0, ?t 0 (pad_waypoint 0)) \<in> set (map (\<lambda>(i, wps). (i, bridge_track 14 (14 / 10) (map_of (legs_of pad_plan pad_hold) i) wps)) pad_plan)"
    "(1, ?t 1 (pad_waypoint 5)) \<in> set (map (\<lambda>(i, wps). (i, bridge_track 14 (14 / 10) (map_of (legs_of pad_plan pad_hold) i) wps)) pad_plan)"
    unfolding set_map
    by (rule image_eqI[of _ _ "(0, [pad_waypoint 0])"], simp, simp add: pad_plan_def)
      (rule image_eqI[of _ _ "(1, [pad_waypoint 5])"], simp, simp add: pad_plan_def)
  have "timed_plan pad_plan" "dict_ok pad_plan"
    by (simp_all add: timed_plan_def dict_ok_def pad_plan_def pad_waypoint_def waypoint_at_def)
  then have "15 / 10 \<le> dist3 (xyz p) (xyz q)"
    by (intro start_bridge_separated[OF all_near_pairs_finds _ _ pad_bridge _ _ mem _ pq]) simp_all
  then show ?thesis using pq by blast
qed

section \<open>The show behind the leg\<close>

lemma interpolate_segment:
  assumes "sorted (map w_time wps)" and "0 < i" "i < length wps"
    and "w_time (wps ! (i - 1)) < t" "t \<le> w_time (wps ! i)" "t < w_time (last wps)"
  shows "interpolate_waypoint wps t = Some (between (wps ! (i - 1)) (wps ! i) t)"
proof -
  have ne: "wps \<noteq> []" using assms(3) by auto
  have "w_time (wps ! 0) \<le> w_time (wps ! (i - 1))"
    using sorted_nth_mono[OF assms(1), of 0 "i - 1"] assms(3) ne by simp
  then have "\<not> t \<le> w_time (hd wps)" using assms(4) ne by (simp add: hd_conv_nth)
  then show ?thesis
    using linear_scan_segment[OF assms(1-5)] assms(6) ne
    by (simp add: interpolate_eq_scan[OF assms(1)] interpolate_by_scan_def)
qed

lemma xyz_shift [simp]: "xyz (shift b w) = xyz w" "w_time (shift b w) = w_time w + b"
  by (simp_all add: shift_def xyz_def)

lemma xyz_between_same:
  assumes "xyz w1 = xyz w2"
  shows "xyz (between w1 w2 t) = xyz w2"
  using assms by (simp add: between_def xyz_def Let_def)

lemma xyz_between_shift: "xyz (between (shift b w1) (shift b w2) (t + b)) = xyz (between w1 w2 t)"
  by (simp add: between_def xyz_def shift_def Let_def)

text \<open>A track is what comes before the show, at or before its start, and the shifted show.\<close>

lemma bridge_track_parts:
  assumes "wps \<noteq> []" and "0 \<le> w_time (hd wps)" and "0 < steps"
  obtains pre where "bridge_track steps (real steps * BRIDGE_SAMPLE_S) (Some l) wps =
      pre @ map (shift (real steps * BRIDGE_SAMPLE_S)) wps" and "pre \<noteq> []"
    and "\<And>w. w \<in> set pre \<Longrightarrow> w_time w \<le> real steps * BRIDGE_SAMPLE_S"
    and "0 < w_time (hd wps) \<Longrightarrow> w_time (last pre) = real steps * BRIDGE_SAMPLE_S \<and> xyz (last pre) = xyz (hd wps)"
proof -
  let ?bs = "real steps * BRIDGE_SAMPLE_S"
  have early: "w_time w \<le> ?bs" if "w \<in> set (map (leg_sample l steps) [0..<steps])" for w
    using that by (auto simp: BRIDGE_SAMPLE_S_def)
  obtain w ws where w: "wps = w # ws" using assms(1) by (cases wps) auto
  show thesis
  proof (cases "0 < w_time w")
    case True
    show thesis
      by (rule that[of "map (leg_sample l steps) [0..<steps] @ [(shift ?bs w)\<lparr>w_time := ?bs\<rparr>]"])
        (use True early in \<open>auto simp: bridge_track_def Let_def w xyz_def shift_def\<close>)
  next
    case False
    show thesis
      by (rule that[of "map (leg_sample l steps) [0..<steps]"])
        (use False early assms(3) in \<open>auto simp: bridge_track_def Let_def w\<close>)
  qed
qed

lemma bridge_track_delays:
  fixes l :: leg
  assumes wps: "wps \<noteq> []" "sorted (map w_time wps)" "0 \<le> w_time (hd wps)" and "0 < steps" and "0 < t"
    and spread: "w_time (hd wps) < w_time (last wps) \<or> length wps = 1"
  defines "bs \<equiv> real steps * BRIDGE_SAMPLE_S"
  defines "track \<equiv> bridge_track steps bs (Some l) wps"
  shows "map_option xyz (interpolate_waypoint track (t + bs)) = map_option xyz (interpolate_waypoint wps t)"
proof -
  obtain pre where track: "track = pre @ map (shift bs) wps" and ne: "pre \<noteq> []"
    and early: "\<And>w. w \<in> set pre \<Longrightarrow> w_time w \<le> bs"
    and held: "0 < w_time (hd wps) \<Longrightarrow> w_time (last pre) = bs \<and> xyz (last pre) = xyz (hd wps)"
    using bridge_track_parts[OF wps(1,3) assms(4), of l] unfolding track_def bs_def by blast
  have sorted: "sorted (map w_time track)"
    unfolding track_def bs_def by (rule bridge_track_sorted[OF wps])
  have first: "\<not> t + bs \<le> w_time (track ! 0)"
    using early[of "pre ! 0"] ne assms(5) by (simp add: track nth_append)
  have last: "w_time (last track) = w_time (last wps) + bs" "xyz (last track) = xyz (last wps)"
    using wps(1) by (simp_all add: track last_map)
  have seg: "map_option xyz (interpolate_waypoint track (t + bs)) =
      Some (xyz (between (track ! (length pre + i - 1)) (shift bs (wps ! i)) (t + bs)))"
    if "i < length wps" "w_time (track ! (length pre + i - 1)) < t + bs" "t \<le> w_time (wps ! i)"
      "t < w_time (last wps)" for i
    using interpolate_segment[OF sorted, of "length pre + i" "t + bs"] that ne last(1)
    by (simp add: track nth_append)
  consider "w_time (last wps) \<le> t" | "t < w_time (last wps)" "t \<le> w_time (hd wps)"
    | "w_time (hd wps) < t" "t < w_time (last wps)" by linarith
  then show ?thesis
  proof cases
    case 1
    then have "interpolate_waypoint track (t + bs) = Some (last track)"
      using first last(1) ne by (simp add: interpolate_waypoint_def track)
    moreover have "xyz p = xyz (last wps)" if "interpolate_waypoint wps t = Some p" for p
    proof (cases "t \<le> w_time (wps ! 0)")
      case True
      then have "length wps = 1" using 1 spread wps(1) by (auto simp: hd_conv_nth)
      then show ?thesis using True that wps(1) by (simp add: interpolate_waypoint_def last_conv_nth)
    next
      case False
      then show ?thesis using that 1 wps(1) by (simp add: interpolate_waypoint_def)
    qed
    ultimately show ?thesis
      using last(2) interpolate_Some[of wps t] wps(1) by auto
  next
    case 2
    then have "map_option xyz (interpolate_waypoint track (t + bs)) =
        Some (xyz (between (last pre) (shift bs (hd wps)) (t + bs)))"
      using seg[of 0] wps(1) held assms(5) ne by (simp add: track nth_append hd_conv_nth last_conv_nth)
    also have "\<dots> = Some (xyz (hd wps))"
      using held 2 assms(5) by (subst xyz_between_same) auto
    finally show ?thesis using 2 wps(1) by (simp add: interpolate_waypoint_def hd_conv_nth)
  next
    case 3
    let ?i = "bisect_left (map w_time wps) t 0 (length wps)"
    have i: "0 < ?i" "?i < length wps" "w_time (wps ! (?i - 1)) < t" "t \<le> w_time (wps ! ?i)"
      using bisect_left_segment[OF wps(1), of t] 3 wps(1) by (simp_all add: hd_conv_nth)
    have "track ! (length pre + ?i - 1) = shift bs (wps ! (?i - 1))"
      using i(1,2) by (simp add: track nth_append)
    then have "map_option xyz (interpolate_waypoint track (t + bs)) = Some (xyz (between (wps ! (?i - 1)) (wps ! ?i) t))"
      using seg[of ?i] i 3(2) by (simp add: xyz_between_shift)
    then show ?thesis using 3 wps(1) by (simp add: interpolate_waypoint_def hd_conv_nth Let_def)
  qed
qed

lemma map_of_map_key: "map_of (map (\<lambda>(i, x). (i, f i x)) d) k = map_option (f k) (map_of d k)"
  by (induction d) auto

text \<open>Nothing but the delay changes: when a start is granted, every drone of the plan is
  streamed, and from its beginning on the show is where it was planned, as much later as the
  transition takes (tracks whose times strictly increase from a non-negative one).\<close>

theorem start_bridge_delays_show:
  assumes "build_start_bridge near plan hold peak = Inr (bridged, bridge_s)"
    and "dict_ok plan" and "(i, wps) \<in> set plan" and "0 < t"
    and "sorted_wrt (<) (map w_time wps)" and "\<forall>w \<in> set wps. 0 \<le> w_time w"
  shows "\<exists>w. map_of bridged i = Some w \<and>
    map_option xyz (interpolate_waypoint w (t + bridge_s)) = map_option xyz (interpolate_waypoint wps t)"
  using assms(1)
proof (rule build_start_bridge_Inr)
  assume "bridged = plan" and "bridge_s = 0"
  then show ?thesis using assms(2,3) by (simp add: dict_ok_mem)
next
  fix steps
  assume none: "unknown_drones plan hold = []" and steps: "0 < steps"
    and bs: "bridge_s = real steps * BRIDGE_SAMPLE_S"
    and bridged: "bridged = map (\<lambda>(i, wps). (i, bridge_track steps bridge_s (map_of (legs_of plan hold) i) wps)) plan"
  have "map_of bridged i = Some (bridge_track steps bridge_s (map_of (legs_of plan hold) i) wps)"
    using assms(2,3) by (simp add: bridged map_of_map_key dict_ok_mem)
  moreover have "map_option xyz (interpolate_waypoint (bridge_track steps bridge_s (map_of (legs_of plan hold) i) wps) (t + bridge_s)) =
      map_option xyz (interpolate_waypoint wps t)"
  proof (cases "wps = []")
    case True
    then show ?thesis
      using legs_of_empty[OF assms(2)] assms(3) by (simp add: interpolate_waypoint_def bridge_track_def)
  next
    case ne: False
    obtain l where l: "map_of (legs_of plan hold) i = Some l" using legs_of_mem[OF assms(2,3) ne none] by blast
    have "length wps = 1 \<or> 1 < length wps" using ne by (cases wps; cases "tl wps") auto
    then have "w_time (hd wps) < w_time (last wps) \<or> length wps = 1"
      using sorted_wrt_nth_less[OF assms(5), of 0 "length wps - 1"] ne
      by (auto simp: hd_conv_nth last_conv_nth)
    then show ?thesis
      unfolding l bs using ne assms(4-6) steps
      by (intro bridge_track_delays) (auto simp: strict_sorted_iff)
  qed
  ultimately show ?thesis by blast
qed

theorem start_bridge_delays_show_witness:
  "map_option xyz (interpolate_waypoint
     (the (map_of (map (\<lambda>(i, wps). (i, bridge_track 14 (14 / 10) (map_of (legs_of pad_plan pad_hold) i) wps)) pad_plan) 1))
     (3 + 14 / 10)) = Some (5, 0, 0)"
proof -
  have "\<exists>w. map_of (map (\<lambda>(i, wps). (i, bridge_track 14 (14 / 10) (map_of (legs_of pad_plan pad_hold) i) wps)) pad_plan) 1 = Some w \<and>
    map_option xyz (interpolate_waypoint w (3 + 14 / 10)) = map_option xyz (interpolate_waypoint [pad_waypoint 5] 3)"
    by (rule start_bridge_delays_show[OF pad_bridge])
      (simp_all add: dict_ok_def pad_plan_def pad_waypoint_def waypoint_at_def)
  then show ?thesis by (auto simp: interpolate_waypoint_def pad_waypoint_def waypoint_at_def xyz_def)
qed
end
