(* ===== verification/Blackbox.thy ===== *)
theory Blackbox
  imports Prelude "HOL-Library.Char_ord" "HOL-Library.List_Lexorder" "HOL-Library.Product_Lexorder"
begin

text \<open>
  The flight recorder, \<^verbatim>\<open>packages/tara-gcs/tara_gcs/blackbox.py\<close>, and the service that runs it,
  \<^verbatim>\<open>blackbox_service.py\<close>: quantised columns, key and difference lines, events, failure handling,
  the reader, session rotation and breach polling. A file is the list of the lines emitted; the
  gzip and JSON layers deliver a prefix of them. Each call is given its clock readings and whether
  its writes succeed. A line is the JSON object of the code, and the reader takes it apart by its \<open>type\<close>
  field as the code does, whatever the line holds. Columns are 64-bit words, as numpy's; what the machine makes
  of a number that does not fit is part of the environment. Telemetry values are finite reals. Log lines, the fsync thread and the
  asyncio tasks are not modelled.
\<close>

section \<open>Channels\<close>

definition FORMAT_NAME :: string where
  "FORMAT_NAME = ''tara-blackbox''"

definition FORMAT_VERSION :: int where
  "FORMAT_VERSION = 1"

definition FLAG_BITS :: "(string, nat) dict" where
  "FLAG_BITS = [(''connected'', 0), (''armed'', 1), (''aborted'', 2), (''planned_valid'', 3), (''gps_lock'', 4)]"

definition MISSING :: int where
  "MISSING = -1"

record channel =
  ch_key :: string
  ch_source :: string
  ch_scale :: int
  ch_unit :: string

definition mk_channel :: "string \<Rightarrow> string \<Rightarrow> int \<Rightarrow> string \<Rightarrow> channel" where
  "mk_channel k src scale u = \<lparr>ch_key = k, ch_source = src, ch_scale = scale, ch_unit = u\<rparr>"

definition CHANNELS :: "channel list" where
  "CHANNELS =
     [mk_channel ''x'' ''fleet_x'' 100 ''cm'', mk_channel ''y'' ''fleet_y'' 100 ''cm'',
      mk_channel ''z'' ''fleet_z'' 100 ''cm'', mk_channel ''h'' ''heading'' 10 ''0.1deg'',
      mk_channel ''b'' ''battery_percent'' 10 ''0.1%'', mk_channel ''v'' ''battery_voltage'' 10 ''0.1V'',
      mk_channel ''n'' ''satellites'' 1 ''count'', mk_channel ''l'' ''comm_latency_ms'' 1 ''ms'']"

definition RESERVED_EVENT_KEYS :: "string list" where
  "RESERVED_EVENT_KEYS = [''type'', ''t'', ''wall'', ''kind'']"

definition ALL_KEYS :: "string list" where
  "ALL_KEYS = map ch_key CHANNELS @ [''r'', ''s'', ''m'', ''f'']"

definition channel_row :: "string \<Rightarrow> string \<Rightarrow> int \<Rightarrow> string \<Rightarrow> json" where
  "channel_row k src scale u =
     JObj [(''key'', JStr k), (''source'', JStr src), (''scale'', JInt scale), (''unit'', JStr u)]"

definition header_channels :: "json list" where
  "header_channels =
     map (\<lambda>c. channel_row (ch_key c) (ch_source c) (ch_scale c) (ch_unit c)) CHANNELS @
     [JObj [(''key'', JStr ''r''), (''source'', JStr ''rf_drop_rate''), (''scale'', JInt 10000),
            (''unit'', JStr ''1e-4''), (''missing'', JInt MISSING)],
      channel_row ''s'' ''flags'' 1 ''bits'', channel_row ''m'' ''flight_mode'' 1 ''dict:modes'',
      channel_row ''f'' ''gps_fix_type'' 1 ''dict:fixes'']"

section \<open>Lines and columns\<close>

text \<open>A sample is quantised to whole numbers, stored in columns of \<^verbatim>\<open>int64\<close>, and written as JSON lists.\<close>

type_synonym 'a cols = "(string \<times> 'a list) list"
type_synonym columns = "64 word cols"
type_synonym line = "(string, json) dict"

definition int64 :: "(int \<Rightarrow> 64 word) \<Rightarrow> int \<Rightarrow> 64 word" where
  "int64 far n = (if - (2 ^ 63) \<le> n \<and> n < 2 ^ 63 then word_of_int n else far n)"

definition as_int64 :: "(int \<Rightarrow> 64 word) \<Rightarrow> int cols \<Rightarrow> columns" where
  "as_int64 far cols = map (\<lambda>(k, v). (k, map (int64 far) v)) cols"

definition json_column :: "64 word list \<Rightarrow> json list" where
  "json_column v = map (\<lambda>w. JInt (sint w)) v"

definition json_texts :: "string list \<Rightarrow> json" where
  "json_texts names = JList (map JStr names)"

definition json_ints :: "int list \<Rightarrow> json" where
  "json_ints is = JList (map JInt is)"

definition key_line :: "int \<Rightarrow> int list \<Rightarrow> string list \<Rightarrow> string list \<Rightarrow> columns \<Rightarrow> line" where
  "key_line t ids modes fixes cols =
     [(''type'', JStr ''key''), (''t'', JInt t), (''ids'', json_ints ids), (''modes'', json_texts modes),
      (''fixes'', json_texts fixes), (''ch'', JObj (map (\<lambda>(k, v). (k, JList (json_column v))) cols))]"

definition tick_line :: "int \<Rightarrow> columns \<Rightarrow> line" where
  "tick_line t diff =
     [(''type'', JStr ''tick''), (''t'', JInt t), (''ch'', JObj (map (\<lambda>(k, v). (k, JList (json_column v))) diff))]"

text \<open>What the recorder reads of one drone's telemetry: its numeric fields, its flags and its two
  texts.\<close>

record bb_telemetry =
  bt_value :: "string \<Rightarrow> real option"
  bt_flag :: "string \<Rightarrow> bool"
  bt_flight_mode :: "string option"
  bt_fix_type :: "string option"

datatype rf_rates = RfNone | RfOne real | RfMap "(int, real) dict" | RfSeq "real list"

text \<open>\<^verbatim>\<open>value or 0.0\<close>, \<^verbatim>\<open>xs[i]\<close> (a negative index counts from the end).\<close>

definition number_or_zero :: "real option \<Rightarrow> real" where
  "number_or_zero v = (case v of None \<Rightarrow> 0 | Some x \<Rightarrow> x)"

definition py_index :: "'a list \<Rightarrow> int \<Rightarrow> 'a option" where
  "py_index xs i =
     (let j = (if i < 0 then i + int (length xs) else i) in
      if 0 \<le> j \<and> j < int (length xs) then Some (xs ! nat j) else None)"

text \<open>The drop rates of the drones; \<^const>\<open>None\<close> is an index out of range. A drone without a rate is
  missing.\<close>

definition rf_column :: "int list \<Rightarrow> rf_rates \<Rightarrow> int list option" where
  "rf_column ids rf =
     (case rf of
        RfNone \<Rightarrow> Some (map (\<lambda>i. MISSING) ids)
      | RfOne r \<Rightarrow> Some (map (\<lambda>i. py_round (r * 10000)) ids)
      | RfMap d \<Rightarrow> Some (map (\<lambda>i. case map_of d i of None \<Rightarrow> MISSING | Some r \<Rightarrow> py_round (r * 10000)) ids)
      | RfSeq rs \<Rightarrow>
          if list_all (\<lambda>i. py_index rs i \<noteq> None) ids
          then Some (map (\<lambda>i. py_round (the (py_index rs i) * 10000)) ids) else None)"

definition flag_word :: "bb_telemetry \<Rightarrow> int" where
  "flag_word t = (\<Sum>(name, bit) \<leftarrow> FLAG_BITS. if bt_flag t name then 2 ^ bit else 0)"

text \<open>Codes of names: the table gives a new name the next number.\<close>

fun code_names :: "string list \<Rightarrow> string list \<Rightarrow> int list \<times> string list" where
  "code_names tbl [] = ([], tbl)"
| "code_names tbl (n # ns) =
     (let tbl' = (if n \<in> set tbl then tbl else tbl @ [n]);
          i = length (takeWhile (\<lambda>m. m \<noteq> n) tbl')
      in case code_names tbl' ns of (is, tbl'') \<Rightarrow> (int i # is, tbl''))"

definition mode_name :: "bb_telemetry \<Rightarrow> string" where
  "mode_name t = (case bt_flight_mode t of None \<Rightarrow> ''UNKNOWN'' | Some m \<Rightarrow> m)"

definition fix_name :: "bb_telemetry \<Rightarrow> string" where
  "fix_name t = (case bt_fix_type t of None \<Rightarrow> ''NO_GPS'' | Some m \<Rightarrow> m)"

definition numeric_columns :: "bb_telemetry list \<Rightarrow> int cols" where
  "numeric_columns rows =
     map (\<lambda>c. (ch_key c, map (\<lambda>t. py_round (number_or_zero (bt_value t (ch_source c)) * of_int (ch_scale c))) rows)) CHANNELS"

text \<open>The columns of one sample before they are cast to \<^verbatim>\<open>int64\<close>, and the two tables after it. (A table has
  fewer than \<open>2 ^ 63\<close> names.)\<close>

definition columns_of ::
  "(int, bb_telemetry) dict \<Rightarrow> int list \<Rightarrow> rf_rates \<Rightarrow> string list \<Rightarrow> string list \<Rightarrow>
     (int cols \<times> string list \<times> string list) option"
where
  "columns_of telemetry ids rf modes fixes =
     (let rows = map (\<lambda>i. the (map_of telemetry i)) ids in
      case rf_column ids rf of None \<Rightarrow> None
      | Some r \<Rightarrow>
          (case (code_names modes (map mode_name rows), code_names fixes (map fix_name rows)) of
             ((m, modes'), (f, fixes')) \<Rightarrow>
               Some (numeric_columns rows @ [(''r'', r), (''s'', map flag_word rows), (''m'', m), (''f'', f)],
                     modes', fixes')))"

definition column :: "'a cols \<Rightarrow> string \<Rightarrow> 'a list" where
  "column c k = (case map_of c k of None \<Rightarrow> [] | Some v \<Rightarrow> v)"

text \<open>The difference of two samples wraps around, as numpy's does.\<close>

definition difference :: "columns \<Rightarrow> columns \<Rightarrow> columns" where
  "difference cols prev = map (\<lambda>k. (k, map2 (-) (column cols k) (column prev k))) ALL_KEYS"

section \<open>The recorder\<close>

record recorder =
  bb_rate_hz :: real
  bb_keyframe_interval_s :: real
  bb_flush_interval_s :: real
  bb_t0 :: real
  bb_last_tick_t :: "real option"
  bb_last_flush_t :: real
  bb_last_key_t :: "real option"
  bb_ids :: "int list"
  bb_prev :: columns
  bb_modes :: "string list"
  bb_fixes :: "string list"
  bb_failed :: bool
  bb_closed :: bool
  bb_ticks :: nat
  bb_events :: nat
  bb_dropped :: nat
  bb_errors :: nat
  bb_lines :: "line list"
  bb_flushed :: nat

text \<open>The environment of one call: the clocks, the context provider (\<^const>\<open>None\<close> raises), whether the
  writes of lines and of flushes succeed, what a cast to \<^verbatim>\<open>int64\<close> makes of a number outside its range.\<close>

record bb_env =
  ev_now :: real
  ev_wall :: real
  ev_context :: "(string, json) dict option"
  ev_emit_ok :: bool
  ev_flush_ok :: bool
  ev_far :: "int \<Rightarrow> 64 word"

definition t_ms :: "recorder \<Rightarrow> real \<Rightarrow> int" where
  "t_ms r now = py_round ((now - bb_t0 r) * 1000)"

definition context_of :: "bb_env \<Rightarrow> (string, json) dict" where
  "context_of ev = (case ev_context ev of None \<Rightarrow> [] | Some d \<Rightarrow> d)"

text \<open>\<^verbatim>\<open>_emit\<close>, \<^verbatim>\<open>_flush\<close> raise \<^verbatim>\<open>OSError\<close> when their write fails; \<^verbatim>\<open>_fail\<close> stops the recorder.\<close>

definition bb_emit :: "bb_env \<Rightarrow> line \<Rightarrow> (recorder, unit, unit) sx" where
  "bb_emit ev l = (if ev_emit_ok ev then sx_modify (\<lambda>r. r\<lparr>bb_lines := bb_lines r @ [l]\<rparr>) else sx_throw ())"

definition bb_flush :: "bb_env \<Rightarrow> (recorder, unit, unit) sx" where
  "bb_flush ev =
     (if ev_flush_ok ev
      then sx_modify (\<lambda>r. r\<lparr>bb_flushed := length (bb_lines r), bb_last_flush_t := ev_now ev\<rparr>)
      else sx_throw ())"

definition bb_fail :: "recorder \<Rightarrow> recorder" where
  "bb_fail r = r\<lparr>bb_dropped := bb_dropped r + 1, bb_failed := True\<rparr>"

definition guarded :: "(recorder, unit, unit) sx \<Rightarrow> recorder \<Rightarrow> bool \<times> recorder" where
  "guarded m r = (case m r of (Inl _, r') \<Rightarrow> (False, bb_fail r') | (Inr _, r') \<Rightarrow> (True, r'))"

definition need_key :: "recorder \<Rightarrow> real \<Rightarrow> int list \<Rightarrow> string list \<Rightarrow> string list \<Rightarrow> bool" where
  "need_key r now ids modes fixes \<longleftrightarrow>
     ids \<noteq> bb_ids r \<or> length modes \<noteq> length (bb_modes r) \<or> length fixes \<noteq> length (bb_fixes r) \<or>
     (case bb_last_key_t r of None \<Rightarrow> True | Some t \<Rightarrow> now - t \<ge> bb_keyframe_interval_s r)"

text \<open>\<^verbatim>\<open>_tick\<close> after the columns are there.\<close>

definition bb_write_tick ::
  "bb_env \<Rightarrow> int list \<Rightarrow> columns \<Rightarrow> string list \<Rightarrow> string list \<Rightarrow> (recorder, unit, unit) sx"
where
  "bb_write_tick ev ids cols modes fixes =
     sx_bind (sx_get id) (\<lambda>r.
       let now = ev_now ev; t = t_ms r now; key = need_key r now ids modes fixes in
       sx_then (sx_modify (\<lambda>r. r\<lparr>bb_modes := modes, bb_fixes := fixes\<rparr>))
       (sx_then (if key
                 then sx_then (bb_emit ev (key_line t ids modes fixes (map (\<lambda>k. (k, column cols k)) ALL_KEYS)))
                        (sx_modify (\<lambda>r. r\<lparr>bb_ids := ids, bb_last_key_t := Some now\<rparr>))
                 else bb_emit ev (tick_line t (difference cols (bb_prev r))))
       (sx_then (sx_modify (\<lambda>r. r\<lparr>bb_prev := cols, bb_ticks := bb_ticks r + 1\<rparr>))
                (if now - bb_last_flush_t r \<ge> bb_flush_interval_s r then bb_flush ev else sx_return ()))))"

definition bb_tick ::
  "bb_env \<Rightarrow> (int, bb_telemetry) dict \<Rightarrow> int cols \<times> string list \<times> string list \<Rightarrow> (recorder, unit, unit) sx"
where
  "bb_tick ev telemetry cmf =
     (let ids = sort (map fst telemetry) in
      if ids = [] then sx_return ()
      else case cmf of (cols, modes, fixes) \<Rightarrow> bb_write_tick ev ids (as_int64 (ev_far ev) cols) modes fixes)"

definition record_tick ::
  "bb_env \<Rightarrow> (int, bb_telemetry) dict \<Rightarrow> rf_rates \<Rightarrow> recorder \<Rightarrow> bool \<times> recorder"
where
  "record_tick ev telemetry rf r =
     (if bb_failed r \<or> bb_closed r then (False, r\<lparr>bb_dropped := bb_dropped r + 1\<rparr>)
      else if (case bb_last_tick_t r of None \<Rightarrow> False | Some t \<Rightarrow> ev_now ev - t < 1 / bb_rate_hz r * (1 / 2))
      then (False, r)
      else case columns_of telemetry (sort (map fst telemetry)) rf (bb_modes r) (bb_fixes r) of
        None \<Rightarrow> (False, r\<lparr>bb_errors := bb_errors r + 1\<rparr>)
      | Some cmf \<Rightarrow>
          (case guarded (bb_tick ev telemetry cmf) r of
             (ok, r') \<Rightarrow> if ok then (True, r'\<lparr>bb_last_tick_t := Some (ev_now ev)\<rparr>) else (False, r')))"

definition event_entry ::
  "recorder \<Rightarrow> bb_env \<Rightarrow> string \<Rightarrow> (string, json) dict \<Rightarrow> (string, json) dict"
where
  "event_entry r ev kind flds =
     dict_merge
       (dict_merge
         [(''type'', JStr ''event''), (''t'', JInt (t_ms r (ev_now ev))), (''wall'', JNum (ev_wall ev)),
          (''kind'', JStr kind)]
         (context_of ev))
       (dict_merge [] (map (\<lambda>(k, v). ((if k \<in> set RESERVED_EVENT_KEYS then ''field_'' @ k else k), v)) flds))"

definition record_event :: "bb_env \<Rightarrow> string \<Rightarrow> (string, json) dict \<Rightarrow> recorder \<Rightarrow> recorder" where
  "record_event ev kind flds r =
     (if bb_failed r \<or> bb_closed r then r\<lparr>bb_dropped := bb_dropped r + 1\<rparr>
      else snd (guarded
        (sx_then (bb_emit ev (event_entry r ev kind flds))
        (sx_then (sx_modify (\<lambda>r. r\<lparr>bb_events := bb_events r + 1\<rparr>)) (bb_flush ev))) r))"

definition record_command ::
  "bb_env \<Rightarrow> string \<Rightarrow> string \<Rightarrow> string \<Rightarrow> bool \<Rightarrow> (string, json) dict \<Rightarrow> recorder \<Rightarrow> recorder"
where
  "record_command ev command operator trigger accepted extra =
     record_event ev ''command''
       ([(''command'', JStr command), (''operator'', JStr operator), (''trigger'', JStr trigger),
         (''accepted'', JBool accepted)] @ extra)"

definition record_fsm_transition :: "bb_env \<Rightarrow> (string, json) dict \<Rightarrow> recorder \<Rightarrow> recorder" where
  "record_fsm_transition ev rcd =
     record_event ev
       (if (case map_of rcd ''accepted'' of None \<Rightarrow> True | Some v \<Rightarrow> truthy v)
        then ''fsm_transition'' else ''fsm_rejected'')
       (filter (\<lambda>(k, v). k \<noteq> ''ts'' \<and> k \<noteq> ''time'') rcd)"

definition record_proximity_breach :: "bb_env \<Rightarrow> int \<times> int \<Rightarrow> real \<Rightarrow> bool \<Rightarrow> recorder \<Rightarrow> recorder" where
  "record_proximity_breach ev pair distance_m cleared =
     record_event ev (if cleared then ''proximity_clear'' else ''proximity_breach'')
       [(''drones'', JList [JInt (fst pair), JInt (snd pair)]), (''distance_m'', JNum (round_to 3 distance_m))]"

definition record_geofence ::
  "bb_env \<Rightarrow> int \<Rightarrow> string \<Rightarrow> real \<Rightarrow> real option \<Rightarrow> bool \<Rightarrow> recorder \<Rightarrow> recorder"
where
  "record_geofence ev drone level distance_m limit_m cleared =
     record_event ev (''geofence_'' @ level @ ''_'' @ (if cleared then ''clear'' else ''breach''))
       [(''drone'', JInt drone), (''distance_m'', JNum (round_to 3 distance_m)),
        (''limit_m'', (case limit_m of None \<Rightarrow> JNull | Some m \<Rightarrow> JNum m))]"

definition bb_flush_now :: "bb_env \<Rightarrow> recorder \<Rightarrow> recorder" where
  "bb_flush_now ev r = (if bb_failed r \<or> bb_closed r then r else snd (guarded (bb_flush ev) r))"

definition bb_close :: "bb_env \<Rightarrow> recorder \<Rightarrow> recorder" where
  "bb_close ev r =
     (if bb_closed r then r
      else let r' = r\<lparr>bb_closed := True\<rparr> in
        if bb_failed r' then r'
        else if ev_flush_ok ev then r'\<lparr>bb_flushed := length (bb_lines r')\<rparr> else bb_fail r')"

text \<open>A new recorder: the header is written and flushed; \<^const>\<open>None\<close> when that fails, which the
  constructor lets through.\<close>

definition bb_init :: "bb_env \<Rightarrow> real \<Rightarrow> real \<Rightarrow> real \<Rightarrow> int \<Rightarrow> string \<Rightarrow> recorder option" where
  "bb_init ev rate_hz keyframe_interval_s flush_interval_s pid started =
     (if ev_emit_ok ev \<and> ev_flush_ok ev
      then Some \<lparr>bb_rate_hz = rate_hz, bb_keyframe_interval_s = keyframe_interval_s,
        bb_flush_interval_s = flush_interval_s, bb_t0 = ev_now ev, bb_last_tick_t = None,
        bb_last_flush_t = ev_now ev, bb_last_key_t = None, bb_ids = [], bb_prev = [], bb_modes = [],
        bb_fixes = [], bb_failed = False, bb_closed = False, bb_ticks = 0, bb_events = 0, bb_dropped = 0,
        bb_errors = 0,
        bb_lines = [
          [(''type'', JStr ''header''), (''format'', JStr FORMAT_NAME), (''version'', JInt FORMAT_VERSION),
           (''rate_hz'', JNum rate_hz), (''keyframe_interval_s'', JNum keyframe_interval_s),
           (''flush_interval_s'', JNum flush_interval_s), (''started_wall'', JNum (ev_wall ev)),
           (''started'', JStr started), (''pid'', JInt pid), (''channels'', JList header_channels),
           (''flag_bits'', JObj (map (\<lambda>(k, b). (k, JInt (int b))) FLAG_BITS)),
           (''context'', JObj (context_of ev))]],
        bb_flushed = 1\<rparr>
      else None)"

section \<open>The reader\<close>

record tick_record =
  tk_key :: bool
  tk_t_ms :: json
  tk_ids :: json
  tk_ch :: "json cols"
  tk_modes :: json
  tk_fixes :: json

datatype bb_record = R_Header "(string, json) dict" | R_Tick tick_record | R_Event "(string, json) dict"
  | R_Truncated

record read_state =
  rs_ids :: json
  rs_prev :: "json cols"
  rs_modes :: json
  rs_fixes :: json

definition read_start :: read_state where
  "read_start = \<lparr>rs_ids = JList [], rs_prev = [], rs_modes = JList [], rs_fixes = JList []\<rparr>"

text \<open>\<^verbatim>\<open>list(v)\<close>, \<^verbatim>\<open>p + d\<close> and \<^verbatim>\<open>d.items()\<close> of values read from JSON; \<^const>\<open>None\<close> is the \<^verbatim>\<open>TypeError\<close>
  or \<^verbatim>\<open>AttributeError\<close>.\<close>

fun py_list :: "json \<Rightarrow> json list option" where
  "py_list (JList l) = Some l"
| "py_list (JStr s) = Some (map (\<lambda>c. JStr [c]) s)"
| "py_list (JObj d) = Some (map (JStr \<circ> fst) d)"
| "py_list _ = None"

fun whole_number :: "json \<Rightarrow> int option" where
  "whole_number (JInt i) = Some i"
| "whole_number (JBool b) = Some (if b then 1 else 0)"
| "whole_number _ = None"

fun py_add :: "json \<Rightarrow> json \<Rightarrow> json option" where
  "py_add (JStr s) (JStr t) = Some (JStr (s @ t))"
| "py_add (JList l) (JList m) = Some (JList (l @ m))"
| "py_add a b =
     (case (whole_number a, whole_number b) of (Some m, Some n) \<Rightarrow> Some (JInt (m + n))
      | _ \<Rightarrow> (case (as_number a, as_number b) of (Some x, Some y) \<Rightarrow> Some (JNum (x + y)) | _ \<Rightarrow> None))"

fun py_items :: "json \<Rightarrow> (string, json) dict option" where
  "py_items (JObj d) = Some d"
| "py_items _ = None"

definition key_columns :: "json \<Rightarrow> json cols option" where
  "key_columns ch = Option.bind (py_items ch) (\<lambda>d. those (map (\<lambda>(k, v). map_option (Pair k) (py_list v)) d))"

text \<open>A difference for a channel that the last line did not have is a \<^verbatim>\<open>KeyError\<close>.\<close>

definition add_difference :: "json cols \<Rightarrow> json \<Rightarrow> json cols option" where
  "add_difference prev ch = Option.bind (py_items ch) (\<lambda>d. those (map (\<lambda>(k, v).
     case (map_of prev k, py_list v) of
       (Some p, Some diff) \<Rightarrow> map_option (Pair k) (those (map2 py_add p diff)) | _ \<Rightarrow> None) d))"

text \<open>One line of \<^verbatim>\<open>iter_blackbox\<close>, by its \<open>type\<close>: the record it yields, if any, and the state after it; \<^const>\<open>None\<close>
  is an exception, such as the \<^verbatim>\<open>KeyError\<close> of a difference without a key line.\<close>

definition read_key :: "line \<Rightarrow> (bb_record option \<times> read_state) option" where
  "read_key l =
     (case (map_of l ''ids'', map_of l ''modes'', map_of l ''fixes'', map_of l ''t'', Option.bind (map_of l ''ch'') key_columns) of
        (Some ids, Some modes, Some fixes, Some t, Some ch) \<Rightarrow>
          Some (Some (R_Tick \<lparr>tk_key = True, tk_t_ms = t, tk_ids = ids, tk_ch = ch, tk_modes = modes, tk_fixes = fixes\<rparr>),
                \<lparr>rs_ids = ids, rs_prev = ch, rs_modes = modes, rs_fixes = fixes\<rparr>)
      | _ \<Rightarrow> None)"

definition read_tick :: "read_state \<Rightarrow> line \<Rightarrow> (bb_record option \<times> read_state) option" where
  "read_tick s l =
     (case (Option.bind (map_of l ''ch'') (add_difference (rs_prev s)), map_of l ''t'') of
        (Some ch, Some t) \<Rightarrow>
          Some (Some (R_Tick \<lparr>tk_key = False, tk_t_ms = t, tk_ids = rs_ids s, tk_ch = ch,
                  tk_modes = rs_modes s, tk_fixes = rs_fixes s\<rparr>), s\<lparr>rs_prev := ch\<rparr>)
      | _ \<Rightarrow> None)"

definition read_line :: "read_state \<Rightarrow> line \<Rightarrow> (bb_record option \<times> read_state) option" where
  "read_line s l =
     (let kind = map_of l ''type'' in
      if kind = Some (JStr ''key'') then read_key l
      else if kind = Some (JStr ''tick'') then read_tick s l
      else if kind = Some (JStr ''header'') then Some (Some (R_Header l), s)
      else if kind = Some (JStr ''event'') then Some (Some (R_Event l), s)
      else Some (None, s))"

fun iter_blackbox :: "read_state \<Rightarrow> line list \<Rightarrow> bb_record list option" where
  "iter_blackbox s [] = Some []"
| "iter_blackbox s (l # ls) =
     (case read_line s l of None \<Rightarrow> None
      | Some (rcd, s') \<Rightarrow>
          map_option (\<lambda>rs. (case rcd of None \<Rightarrow> rs | Some x \<Rightarrow> x # rs)) (iter_blackbox s' ls))"

record blackbox_log =
  bl_header :: "(string, json) dict"
  bl_ticks :: "tick_record list"
  bl_events :: "(string, json) dict list"
  bl_truncated :: bool

definition log_add :: "blackbox_log option \<Rightarrow> bb_record \<Rightarrow> blackbox_log option option" where
  "log_add lg rcd =
     (case rcd of
        R_Header h \<Rightarrow> Some (Some \<lparr>bl_header = h, bl_ticks = [], bl_events = [], bl_truncated = False\<rparr>)
      | _ \<Rightarrow> (case lg of None \<Rightarrow> None
          | Some l \<Rightarrow> Some (Some (case rcd of
              R_Tick t \<Rightarrow> l\<lparr>bl_ticks := bl_ticks l @ [t]\<rparr>
            | R_Event e \<Rightarrow> l\<lparr>bl_events := bl_events l @ [e]\<rparr>
            | _ \<Rightarrow> l\<lparr>bl_truncated := True\<rparr>))))"

fun log_of :: "blackbox_log option \<Rightarrow> bb_record list \<Rightarrow> blackbox_log option" where
  "log_of lg [] = lg"
| "log_of lg (r # rs) = (case log_add lg r of None \<Rightarrow> None | Some lg' \<Rightarrow> log_of lg' rs)"

text \<open>\<^verbatim>\<open>read_blackbox\<close> of a file that holds these whole lines and ends with its trailer or without.\<close>

definition read_blackbox :: "line list \<Rightarrow> bool \<Rightarrow> blackbox_log option" where
  "read_blackbox ls whole =
     (case iter_blackbox read_start ls of None \<Rightarrow> None
      | Some rs \<Rightarrow> log_of None (rs @ (if whole then [] else [R_Truncated])))"

section \<open>Lemmas\<close>

text \<open>Codes are read back through the table, which only grows.\<close>

definition looks_up :: "json \<Rightarrow> int list \<Rightarrow> string list \<Rightarrow> bool" where
  "looks_up table codes names \<longleftrightarrow> (\<exists>tbl. table = json_texts tbl \<and> (\<forall>i \<in> set codes. 0 \<le> i \<and> nat i < length tbl) \<and>
     map (\<lambda>i. tbl ! nat i) codes = names)"

lemma index_of:
  assumes "n \<in> set tbl"
  shows "length (takeWhile (\<lambda>m. m \<noteq> n) tbl) < length tbl" and "tbl ! length (takeWhile (\<lambda>m. m \<noteq> n) tbl) = n"
proof -
  have "takeWhile (\<lambda>m. m \<noteq> n) tbl \<noteq> tbl" using assms by (metis (mono_tags) set_takeWhileD)
  then show l: "length (takeWhile (\<lambda>m. m \<noteq> n) tbl) < length tbl"
    by (metis length_takeWhile_le nat_less_le takeWhile_eq_take take_all)
  show "tbl ! length (takeWhile (\<lambda>m. m \<noteq> n) tbl) = n"
    using nth_length_takeWhile[OF l] by simp
qed

lemma code_names_props:
  assumes "code_names tbl ns = (is, tbl')"
  shows "prefix tbl tbl'" and "length is = length ns" and "\<forall>i \<in> set is. 0 \<le> i \<and> nat i < length tbl'"
    and "map (\<lambda>i. tbl' ! nat i) is = ns"
proof -
  have "prefix tbl tbl' \<and> length is = length ns \<and> (\<forall>i \<in> set is. 0 \<le> i \<and> nat i < length tbl') \<and>
      map (\<lambda>i. tbl' ! nat i) is = ns"
    using assms
  proof (induction tbl ns arbitrary: "is" rule: code_names.induct)
    case (2 tbl n ns)
    define t where "t = (if n \<in> set tbl then tbl else tbl @ [n])"
    define k where "k = length (takeWhile (\<lambda>m. m \<noteq> n) t)"
    obtain js where js: "code_names t ns = (js, tbl')" "is = int k # js"
      using "2.prems" by (auto simp: Let_def t_def k_def split: prod.splits)
    have "n \<in> set t" by (simp add: t_def)
    then have k: "k < length t" "t ! k = n" unfolding k_def by (rule index_of)+
    have IH: "prefix t tbl'" "length js = length ns" "\<forall>i \<in> set js. 0 \<le> i \<and> nat i < length tbl'"
      "map (\<lambda>i. tbl' ! nat i) js = ns"
      using "2.IH"[OF t_def k_def js(1)] by blast+
    then have "tbl' ! k = n" "k < length tbl'" using k by (auto simp: prefix_def nth_append)
    moreover have "prefix tbl tbl'" using IH(1) by (auto simp: t_def prefix_def split: if_splits)
    ultimately show ?case using IH js(2) by simp
  qed auto
  then show "prefix tbl tbl'" and "length is = length ns" and "\<forall>i \<in> set is. 0 \<le> i \<and> nat i < length tbl'"
    and "map (\<lambda>i. tbl' ! nat i) is = ns"
    by blast+
qed

text \<open>The shape of columns: the keys in their order, one entry per drone.\<close>

definition shaped :: "nat \<Rightarrow> 'a cols \<Rightarrow> bool" where
  "shaped n c \<longleftrightarrow> map fst c = ALL_KEYS \<and> (\<forall>(k, v) \<in> set c. length v = n)"

lemma distinct_ALL_KEYS: "distinct ALL_KEYS"
  by (simp add: ALL_KEYS_def CHANNELS_def mk_channel_def)

lemma shaped_columns:
  assumes "shaped n c"
  shows "map (\<lambda>k. (k, column c k)) ALL_KEYS = c" and "k \<in> set ALL_KEYS \<Longrightarrow> length (column c k) = n"
    and "map_of c k \<noteq> None \<longleftrightarrow> k \<in> set ALL_KEYS"
proof -
  have d: "distinct (map fst c)" using assms distinct_ALL_KEYS by (simp add: shaped_def)
  have lookup: "column c k = v" if "(k, v) \<in> set c" for k v
    using that d by (simp add: column_def)
  have "map (\<lambda>k. (k, column c k)) (map fst c) = map (\<lambda>kv. (fst kv, column c (fst kv))) c" by simp
  also have "\<dots> = map id c" using lookup by (intro map_cong) auto
  finally have "map (\<lambda>k. (k, column c k)) (map fst c) = c" by simp
  moreover have "map fst c = ALL_KEYS" using assms by (simp add: shaped_def)
  ultimately show "map (\<lambda>k. (k, column c k)) ALL_KEYS = c" by (simp only:)
  have keys: "set ALL_KEYS = fst ` set c" using assms by (metis list.set_map shaped_def)
  show "length (column c k) = n" if "k \<in> set ALL_KEYS"
    using that assms lookup unfolding keys shaped_def by fastforce
  show "map_of c k \<noteq> None \<longleftrightarrow> k \<in> set ALL_KEYS" unfolding keys by (simp add: map_of_eq_None_iff)
qed

lemma rf_column_length: "rf_column ids rf = Some r \<Longrightarrow> length r = length ids"
  by (auto simp: rf_column_def split: rf_rates.splits if_splits)

lemma columns_of_props:
  assumes "columns_of telemetry ids rf modes fixes = Some (cols, modes', fixes')"
  defines "rows \<equiv> map (\<lambda>i. the (map_of telemetry i)) ids"
  shows "shaped (length ids) cols" and "prefix modes modes'" and "prefix fixes fixes'"
    and "looks_up (json_texts modes') (column cols ''m'') (map mode_name rows)"
    and "looks_up (json_texts fixes') (column cols ''f'') (map fix_name rows)"
proof -
  obtain r m f where r: "rf_column ids rf = Some r" and m: "code_names modes (map mode_name rows) = (m, modes')"
    and f: "code_names fixes (map fix_name rows) = (f, fixes')"
    and cols: "cols = numeric_columns rows @ [(''r'', r), (''s'', map flag_word rows), (''m'', m), (''f'', f)]"
    using assms(1) by (auto simp: columns_of_def Let_def rows_def split: option.splits prod.splits)
  note cm = code_names_props[OF m] and cf = code_names_props[OF f]
  have keys: "map fst (numeric_columns rows) = map ch_key CHANNELS" by (simp add: numeric_columns_def)
  show sh: "shaped (length ids) cols"
    using cm(2) cf(2) rf_column_length[OF r] keys
    by (auto simp: shaped_def cols ALL_KEYS_def numeric_columns_def rows_def)
  have "column cols ''m'' = m" "column cols ''f'' = f"
    by (simp_all add: column_def cols numeric_columns_def CHANNELS_def mk_channel_def)
  then show "prefix modes modes'" and "prefix fixes fixes'"
    and "looks_up (json_texts modes') (column cols ''m'') (map mode_name rows)"
    and "looks_up (json_texts fixes') (column cols ''f'') (map fix_name rows)"
    using cm cf by (auto simp: looks_up_def)
qed

text \<open>What the cast keeps, and what of the columns is in the file.\<close>

definition half_range :: "int \<Rightarrow> bool" where
  "half_range n \<longleftrightarrow> - (2 ^ 62) \<le> n \<and> n < 2 ^ 62"

definition in_range :: "int cols \<Rightarrow> bool" where
  "in_range c \<longleftrightarrow> (\<forall>(k, v) \<in> set c. \<forall>n \<in> set v. half_range n)"

definition written :: "columns \<Rightarrow> json cols" where
  "written c = map (\<lambda>(k, v). (k, json_column v)) c"

lemma sint_range: "- (2 ^ 63) \<le> n \<Longrightarrow> n < 2 ^ 63 \<Longrightarrow> sint (word_of_int n :: 64 word) = n"
  by (simp add: int_word_sint)

lemma sint_int64: "half_range n \<Longrightarrow> sint (int64 far n) = n"
  by (simp add: int64_def half_range_def sint_range)

lemma sint_int64_diff: "half_range m \<Longrightarrow> half_range n \<Longrightarrow> sint (int64 far m - int64 far' n) = m - n"
  by (simp add: int64_def half_range_def sint_range flip: of_int_diff)

lemma as_int64_shaped: "shaped n c \<Longrightarrow> shaped n (as_int64 far c)"
  by (auto simp: shaped_def as_int64_def o_def split_beta)

lemma column_as_int64: "column (as_int64 far c) k = map (int64 far) (column c k)"
  by (induction c) (auto simp: as_int64_def column_def)

lemma column_in_range: "in_range c \<Longrightarrow> n \<in> set (column c k) \<Longrightarrow> half_range n"
  by (cases "map_of c k") (fastforce simp: in_range_def column_def dest: map_of_SomeD)+

lemma written_int64:
  assumes "in_range c"
  shows "written (as_int64 far c) = map (\<lambda>(k, v). (k, map JInt v)) c"
  using assms by (induction c) (auto simp: written_def as_int64_def in_range_def json_column_def sint_int64)

lemma those_Some: "those (map (\<lambda>x. Some (f x)) xs) = Some (map f xs)"
  by (induction xs) auto

lemma key_columns_written: "key_columns (JObj (map (\<lambda>(k, v). (k, JList (json_column v))) c)) = Some (written c)"
  by (simp add: key_columns_def written_def o_def split_beta those_Some)

text \<open>Differences add up again, as long as they do not wrap around.\<close>

lemma add_column:
  assumes "length c = length p" and "\<forall>n \<in> set c \<union> set p. half_range n"
  shows "those (map2 py_add (json_column (map (int64 far') p)) (json_column (map2 (-) (map (int64 far) c) (map (int64 far') p)))) =
    Some (json_column (map (int64 far) c))"
  using assms
  by (induction c p rule: list_induct2) (simp_all add: json_column_def sint_int64 sint_int64_diff)

lemma map_of_written: "map_of (written c) k = map_option json_column (map_of c k)"
  by (induction c) (auto simp: written_def)

lemma difference_restores:
  assumes "shaped n cols" and "shaped n prev" and "in_range cols" and "in_range prev"
  shows "add_difference (written (as_int64 far' prev))
      (JObj (map (\<lambda>(k, v). (k, JList (json_column v))) (difference (as_int64 far cols) (as_int64 far' prev)))) =
    Some (written (as_int64 far cols))"
proof -
  let ?c = "as_int64 far cols" and ?p = "as_int64 far' prev"
  note c = as_int64_shaped[OF assms(1), of far] and p = as_int64_shaped[OF assms(2), of far']
  have one: "(case (map_of (written ?p) k, py_list (JList (json_column (map2 (-) (column ?c k) (column ?p k))))) of
      (Some q, Some diff) \<Rightarrow> map_option (Pair k) (those (map2 py_add q diff)) | _ \<Rightarrow> None) =
      Some (k, json_column (column ?c k))" if "k \<in> set ALL_KEYS" for k
  proof -
    have "length (column cols k) = length (column prev k)"
      using shaped_columns(2)[OF assms(1) that] shaped_columns(2)[OF assms(2) that] by simp
    moreover have "map_of (written ?p) k = Some (json_column (column ?p k))"
      using shaped_columns(3)[OF p, of k] that by (auto simp: map_of_written column_def)
    ultimately show ?thesis
      using add_column[of "column cols k" "column prev k" far' far] column_in_range[OF assms(3)] column_in_range[OF assms(4)]
      by (simp add: column_as_int64) blast
  qed
  have all: "those (map f ALL_KEYS) = those (map g ALL_KEYS)" if "\<And>k. k \<in> set ALL_KEYS \<Longrightarrow> f k = g k"
    for f g :: "string \<Rightarrow> (string \<times> json list) option"
    using that by (simp cong: map_cong)
  have "add_difference (written ?p) (JObj (map (\<lambda>(k, v). (k, JList (json_column v))) (difference ?c ?p))) =
      those (map (\<lambda>k. Some (k, json_column (column ?c k))) ALL_KEYS)"
    unfolding add_difference_def py_items.simps Option.bind.bind_lunit difference_def map_map o_def prod.case
    by (rule all) (rule one[unfolded prod.case])
  also have "\<dots> = Some (written (map (\<lambda>k. (k, column ?c k)) ALL_KEYS))"
    by (simp add: those_Some written_def o_def)
  also have "map (\<lambda>k. (k, column ?c k)) ALL_KEYS = ?c" by (rule shaped_columns(1)[OF c])
  finally show ?thesis .
qed

text \<open>Reading, with the state it leaves.\<close>

definition yield :: "bb_record option \<Rightarrow> bb_record list \<Rightarrow> bb_record list" where
  "yield rcd rs = (case rcd of None \<Rightarrow> rs | Some x \<Rightarrow> x # rs)"

lemma yield_simps [simp]: "yield None rs = rs" "yield (Some x) rs = x # rs" "yield rcd rs @ rs' = yield rcd (rs @ rs')"
  by (simp_all add: yield_def split: option.splits)

fun read_to :: "read_state \<Rightarrow> line list \<Rightarrow> (bb_record list \<times> read_state) option" where
  "read_to s [] = Some ([], s)"
| "read_to s (l # ls) =
     (case read_line s l of None \<Rightarrow> None
      | Some (rcd, s') \<Rightarrow> map_option (\<lambda>(rs, s''). (yield rcd rs, s'')) (read_to s' ls))"

lemma iter_read_to: "iter_blackbox s ls = map_option fst (read_to s ls)"
  by (induction ls arbitrary: s) (auto simp: option.map_comp o_def split_beta yield_def split: option.splits)

lemma read_to_append:
  "read_to s (ls @ ls') = (case read_to s ls of None \<Rightarrow> None
    | Some (rs, s') \<Rightarrow> map_option (\<lambda>(rs', s''). (rs @ rs', s'')) (read_to s' ls'))"
  by (induction ls arbitrary: s)
    (auto simp: map_option_case split: option.splits prod.splits)

lemma read_to_snoc:
  "read_to s ls = Some (rs, s') \<Longrightarrow> read_line s' l = Some (Some rcd, s'') \<Longrightarrow> read_to s (ls @ [l]) = Some (rs @ [rcd], s'')"
  by (simp add: read_to_append)

lemma read_to_cut:
  assumes "read_to s ls = Some (rs, s')"
  shows "\<exists>rs1 rs2 t. read_to s (take n ls) = Some (rs1, t) \<and> read_to t (drop n ls) = Some (rs2, s') \<and> rs = rs1 @ rs2"
proof -
  have "read_to s (take n ls @ drop n ls) = Some (rs, s')" using assms by simp
  then show ?thesis unfolding read_to_append by (auto split: option.splits)
qed

section \<open>What a file holds\<close>

text \<open>The calls of a session, and the samples and events that went out.\<close>

datatype bb_op =
    OpTick bb_env "(int, bb_telemetry) dict" rf_rates
  | OpEvent bb_env string "(string, json) dict"
  | OpFlush bb_env
  | OpClose bb_env

fun bb_step :: "bb_op \<Rightarrow> recorder \<Rightarrow> recorder" where
  "bb_step (OpTick ev telemetry rf) r = snd (record_tick ev telemetry rf r)"
| "bb_step (OpEvent ev kind flds) r = record_event ev kind flds r"
| "bb_step (OpFlush ev) r = bb_flush_now ev r"
| "bb_step (OpClose ev) r = bb_close ev r"

text \<open>A sample: its time, the drones, their exact quantised columns and the names of their modes and fixes.\<close>

type_synonym sample = "int \<times> int list \<times> int cols \<times> string list \<times> string list"

definition sample_of :: "bb_env \<Rightarrow> (int, bb_telemetry) dict \<Rightarrow> rf_rates \<Rightarrow> recorder \<Rightarrow> sample list" where
  "sample_of ev telemetry rf r =
     (let ids = sort (map fst telemetry); rows = map (\<lambda>i. the (map_of telemetry i)) ids in
      if bb_failed r \<or> bb_closed r \<or> ids = [] \<or> \<not> ev_emit_ok ev \<or>
         (case bb_last_tick_t r of None \<Rightarrow> False | Some t \<Rightarrow> ev_now ev - t < 1 / bb_rate_hz r * (1 / 2))
      then []
      else case columns_of telemetry ids rf (bb_modes r) (bb_fixes r) of None \<Rightarrow> []
        | Some (cols, _) \<Rightarrow> [(t_ms r (ev_now ev), ids, cols, map mode_name rows, map fix_name rows)])"

fun op_samples :: "bb_op \<Rightarrow> recorder \<Rightarrow> sample list" where
  "op_samples (OpTick ev telemetry rf) r = sample_of ev telemetry rf r"
| "op_samples _ r = []"

fun samples :: "bb_op list \<Rightarrow> recorder \<Rightarrow> sample list" where
  "samples [] r = []"
| "samples (x # xs) r = op_samples x r @ samples xs (bb_step x r)"

fun op_events :: "bb_op \<Rightarrow> recorder \<Rightarrow> (string, json) dict list" where
  "op_events (OpEvent ev kind flds) r =
     (if bb_failed r \<or> bb_closed r \<or> \<not> ev_emit_ok ev then [] else [event_entry r ev kind flds])"
| "op_events _ r = []"

fun events :: "bb_op list \<Rightarrow> recorder \<Rightarrow> (string, json) dict list" where
  "events [] r = []"
| "events (x # xs) r = op_events x r @ events xs (bb_step x r)"

text \<open>A tick record shows a sample: its time, drones and columns, and the names its codes stand for in the tables.\<close>

definition shows_sample :: "tick_record \<Rightarrow> sample \<Rightarrow> bool" where
  "shows_sample tk s = (case s of (t, ids, cols, modes, fixes) \<Rightarrow>
     tk_t_ms tk = JInt t \<and> tk_ids tk = json_ints ids \<and> tk_ch tk = map (\<lambda>(k, v). (k, map JInt v)) cols \<and>
     looks_up (tk_modes tk) (column cols ''m'') modes \<and> looks_up (tk_fixes tk) (column cols ''f'') fixes)"

text \<open>What the encoding asks: quantised values below \<open>2 ^ 62\<close> in magnitude, so that no difference wraps around, and
  a context that leaves the type of an event alone.\<close>

definition sample_fits :: "sample \<Rightarrow> bool" where
  "sample_fits s = (case s of (t, ids, cols, modes, fixes) \<Rightarrow> in_range cols)"

fun keeps_type :: "bb_op \<Rightarrow> bool" where
  "keeps_type (OpEvent ev kind flds) \<longleftrightarrow> map_of (context_of ev) ''type'' = None"
| "keeps_type _ \<longleftrightarrow> True"

fun tick_records :: "bb_record list \<Rightarrow> tick_record list" where
  "tick_records [] = []"
| "tick_records (R_Tick t # rs) = t # tick_records rs"
| "tick_records (r # rs) = tick_records rs"

fun event_records :: "bb_record list \<Rightarrow> (string, json) dict list" where
  "event_records [] = []"
| "event_records (R_Event e # rs) = e # event_records rs"
| "event_records (r # rs) = event_records rs"

lemma tick_records_append [simp]: "tick_records (rs @ rs') = tick_records rs @ tick_records rs'"
  by (induction rs rule: tick_records.induct) auto

lemma event_records_append [simp]: "event_records (rs @ rs') = event_records rs @ event_records rs'"
  by (induction rs rule: event_records.induct) auto

text \<open>The reader's state follows the recorder's while it has not failed.\<close>

definition encodes :: "nat \<Rightarrow> columns \<Rightarrow> bool" where
  "encodes n c \<longleftrightarrow> (\<exists>far prev. c = as_int64 far prev \<and> shaped n prev \<and> in_range prev)"

definition in_step :: "recorder \<Rightarrow> read_state \<Rightarrow> bool" where
  "in_step r s \<longleftrightarrow> bb_failed r \<or>
     (bb_last_key_t r \<noteq> None \<longrightarrow> rs_ids s = json_ints (bb_ids r) \<and> rs_prev s = written (bb_prev r) \<and>
        rs_modes s = json_texts (bb_modes r) \<and> rs_fixes s = json_texts (bb_fixes r) \<and>
        encodes (length (bb_ids r)) (bb_prev r))"

definition follows :: "recorder \<Rightarrow> bb_record list \<Rightarrow> bool" where
  "follows r rs \<longleftrightarrow> (\<exists>s. read_to read_start (bb_lines r) = Some (rs, s) \<and> in_step r s)"

lemma in_step_frame:
  assumes "in_step r s" and "bb_failed r' = bb_failed r" "bb_last_key_t r' = bb_last_key_t r" "bb_ids r' = bb_ids r"
    "bb_prev r' = bb_prev r" "bb_modes r' = bb_modes r" "bb_fixes r' = bb_fixes r"
  shows "in_step r' s"
  using assms by (simp add: in_step_def)

text \<open>Writing one sample.\<close>

lemma read_key_line:
  "read_line s (key_line t ids modes fixes cols) =
     Some (Some (R_Tick \<lparr>tk_key = True, tk_t_ms = JInt t, tk_ids = json_ints ids, tk_ch = written cols,
       tk_modes = json_texts modes, tk_fixes = json_texts fixes\<rparr>),
     \<lparr>rs_ids = json_ints ids, rs_prev = written cols, rs_modes = json_texts modes, rs_fixes = json_texts fixes\<rparr>)"
  by (simp add: read_line_def read_key_def key_line_def key_columns_written)

lemma read_tick_line:
  assumes "add_difference (rs_prev s) (JObj (map (\<lambda>(k, v). (k, JList (json_column v))) diff)) = Some ch"
  shows "read_line s (tick_line t diff) = Some (Some (R_Tick \<lparr>tk_key = False, tk_t_ms = JInt t, tk_ids = rs_ids s,
    tk_ch = ch, tk_modes = rs_modes s, tk_fixes = rs_fixes s\<rparr>), s\<lparr>rs_prev := ch\<rparr>)"
  using assms by (simp add: read_line_def read_tick_def tick_line_def)

lemma write_tick_follows:
  assumes f: "follows r rs" and ok: "\<not> bb_failed r" and emit: "ev_emit_ok ev" and fits: "in_range cols"
    and cols: "columns_of telemetry ids rf (bb_modes r) (bb_fixes r) = Some (cols, modes, fixes)"
  defines "rows \<equiv> map (\<lambda>i. the (map_of telemetry i)) ids" and "wide \<equiv> as_int64 (ev_far ev) cols"
  shows "\<exists>t. shows_sample t (t_ms r (ev_now ev), ids, cols, map mode_name rows, map fix_name rows) \<and>
    follows (snd (guarded (bb_write_tick ev ids wide modes fixes) r)) (rs @ [R_Tick t])"
proof -
  obtain s where s: "read_to read_start (bb_lines r) = Some (rs, s)" and inv: "in_step r s"
    using f by (auto simp: follows_def)
  note c = columns_of_props[OF cols, folded rows_def]
  let ?now = "ev_now ev" and ?t = "t_ms r (ev_now ev)"
  let ?key = "need_key r ?now ids modes fixes"
  let ?line = "if ?key then key_line ?t ids modes fixes wide else tick_line ?t (difference wide (bb_prev r))"
  let ?r = "r\<lparr>bb_modes := modes, bb_fixes := fixes, bb_lines := bb_lines r @ [?line],
      bb_ids := (if ?key then ids else bb_ids r), bb_last_key_t := (if ?key then Some ?now else bb_last_key_t r),
      bb_prev := wide, bb_ticks := bb_ticks r + 1\<rparr>"
  have norm: "map (\<lambda>k. (k, column wide k)) ALL_KEYS = wide"
    unfolding wide_def by (rule shaped_columns(1)[OF as_int64_shaped[OF c(1)]])
  have run: "snd (guarded (bb_write_tick ev ids wide modes fixes) r) =
      (if ?now - bb_last_flush_t r \<ge> bb_flush_interval_s r
       then if ev_flush_ok ev then ?r\<lparr>bb_flushed := length (bb_lines ?r), bb_last_flush_t := ?now\<rparr> else bb_fail ?r
       else ?r)"
    using emit by (simp add: guarded_def bb_write_tick_def sx_defs bb_emit_def bb_flush_def Let_def norm)
  define t where "t = \<lparr>tk_key = ?key, tk_t_ms = JInt ?t, tk_ids = json_ints ids, tk_ch = written wide,
    tk_modes = json_texts modes, tk_fixes = json_texts fixes\<rparr>"
  define s' where "s' = \<lparr>rs_ids = json_ints ids, rs_prev = written wide, rs_modes = json_texts modes,
    rs_fixes = json_texts fixes\<rparr>"
  have "read_line s ?line = Some (Some (R_Tick t), s')"
  proof (cases ?key)
    case True
    then show ?thesis by (simp add: t_def s'_def read_key_line)
  next
    case False
    then have ids: "ids = bb_ids r" and len: "length modes = length (bb_modes r)" "length fixes = length (bb_fixes r)"
      and key: "bb_last_key_t r \<noteq> None"
      by (auto simp: need_key_def split: option.splits)
    have tables: "modes = bb_modes r" "fixes = bb_fixes r"
      using c(2,3) len by (auto simp: prefix_def)
    obtain far prev where st: "rs_ids s = json_ints ids" "rs_prev s = written (bb_prev r)" "rs_modes s = json_texts modes"
      "rs_fixes s = json_texts fixes" "bb_prev r = as_int64 far prev" "shaped (length ids) prev" "in_range prev"
      using inv ok key ids tables by (auto simp: in_step_def encodes_def)
    have "add_difference (rs_prev s) (JObj (map (\<lambda>(k, v). (k, JList (json_column v))) (difference wide (bb_prev r)))) =
        Some (written wide)"
      unfolding st(2,5) wide_def by (rule difference_restores[OF c(1) st(6) fits st(7)])
    from read_tick_line[OF this] show ?thesis using False st(1,3,4) by (simp add: t_def s'_def)
  qed
  then have read: "read_to read_start (bb_lines r @ [?line]) = Some (rs @ [R_Tick t], s')"
    by (rule read_to_snoc[OF s])
  have "in_step ?r s'"
    using c(1) fits by (auto simp: in_step_def s'_def wide_def encodes_def need_key_def)
  then have "in_step (snd (guarded (bb_write_tick ev ids wide modes fixes) r)) s'"
    unfolding run by (simp add: in_step_def bb_fail_def)
  moreover have "bb_lines (snd (guarded (bb_write_tick ev ids wide modes fixes) r)) = bb_lines r @ [?line]"
    unfolding run by (simp add: bb_fail_def)
  ultimately have "follows (snd (guarded (bb_write_tick ev ids wide modes fixes) r)) (rs @ [R_Tick t])"
    using read by (auto simp: follows_def)
  moreover have "shows_sample t (?t, ids, cols, map mode_name rows, map fix_name rows)"
    using c(4,5) written_int64[OF fits] by (simp add: shows_sample_def t_def wide_def)
  ultimately show ?thesis by blast
qed

text \<open>One call of the recorder.\<close>

lemma follows_frame:
  assumes "follows r rs" and "bb_lines r' = bb_lines r"
    and "bb_failed r' \<or> (bb_failed r' = bb_failed r \<and> bb_last_key_t r' = bb_last_key_t r \<and> bb_ids r' = bb_ids r \<and>
      bb_prev r' = bb_prev r \<and> bb_modes r' = bb_modes r \<and> bb_fixes r' = bb_fixes r)"
  shows "follows r' rs"
  using assms by (auto simp: follows_def in_step_def)

lemma record_tick_follows:
  assumes f: "follows r rs" and fits: "\<forall>s \<in> set (sample_of ev telemetry rf r). sample_fits s"
  shows "\<exists>rs'. follows (snd (record_tick ev telemetry rf r)) (rs @ rs') \<and>
    list_all2 shows_sample (tick_records rs') (sample_of ev telemetry rf r) \<and> event_records rs' = []"
proof -
  let ?ids = "sort (map fst telemetry)"
  let ?late = "case bb_last_tick_t r of None \<Rightarrow> False | Some t \<Rightarrow> ev_now ev - t < 1 / bb_rate_hz r * (1 / 2)"
  have same: ?thesis if "follows (snd (record_tick ev telemetry rf r)) rs" "sample_of ev telemetry rf r = []"
    using that by (intro exI[of _ "[]"]) simp
  show ?thesis
  proof (cases "bb_failed r \<or> bb_closed r \<or> ?late \<or> columns_of telemetry ?ids rf (bb_modes r) (bb_fixes r) = None")
    case True
    then show ?thesis
      by (intro same follows_frame[OF f])
        (auto simp: record_tick_def sample_of_def Let_def split: option.splits)
  next
    case False
    then obtain cols modes fixs where c: "columns_of telemetry ?ids rf (bb_modes r) (bb_fixes r) = Some (cols, modes, fixs)"
      and ok: "\<not> bb_failed r" "\<not> bb_closed r" "\<not> ?late" by (cases "columns_of telemetry ?ids rf (bb_modes r) (bb_fixes r)") auto
    have run: "record_tick ev telemetry rf r = (case guarded (bb_tick ev telemetry (cols, modes, fixs)) r of
        (b, r') \<Rightarrow> if b then (True, r'\<lparr>bb_last_tick_t := Some (ev_now ev)\<rparr>) else (False, r'))"
      using ok by (simp add: record_tick_def c)
    have out: "follows (snd (record_tick ev telemetry rf r)) qs"
      if "follows (snd (guarded (bb_tick ev telemetry (cols, modes, fixs)) r)) qs" for qs
      using that by (auto simp: run split_beta intro: follows_frame)
    show ?thesis
    proof (cases "?ids = []")
      case True
      then have "snd (guarded (bb_tick ev telemetry (cols, modes, fixs)) r) = r"
        by (simp add: bb_tick_def guarded_def sx_defs)
      then show ?thesis using f out True by (intro same) (simp_all add: sample_of_def)
    next
      case nonempty: False
      then have tick: "bb_tick ev telemetry (cols, modes, fixs) = bb_write_tick ev ?ids (as_int64 (ev_far ev) cols) modes fixs"
        by (simp add: bb_tick_def)
      show ?thesis
      proof (cases "ev_emit_ok ev")
        case True
        define sample where "sample = (t_ms r (ev_now ev), ?ids, cols, map mode_name (map (\<lambda>i. the (map_of telemetry i)) ?ids),
            map fix_name (map (\<lambda>i. the (map_of telemetry i)) ?ids))"
        have only: "sample_of ev telemetry rf r = [sample]"
          using ok True nonempty c by (simp add: sample_of_def Let_def sample_def)
        then have "in_range cols" using fits by (simp add: sample_def sample_fits_def)
        from write_tick_follows[OF f ok(1) True this c] obtain t where
          t: "shows_sample t sample"
            "follows (snd (guarded (bb_write_tick ev ?ids (as_int64 (ev_far ev) cols) modes fixs) r)) (rs @ [R_Tick t])"
          unfolding sample_def by blast
        then show ?thesis using out only tick by (intro exI[of _ "[R_Tick t]"]) simp
      next
        case False
        have "bb_lines (snd (guarded (bb_write_tick ev ?ids (as_int64 (ev_far ev) cols) modes fixs) r)) = bb_lines r \<and>
          bb_failed (snd (guarded (bb_write_tick ev ?ids (as_int64 (ev_far ev) cols) modes fixs) r))"
          using False by (simp add: guarded_def bb_write_tick_def sx_defs bb_emit_def bb_fail_def Let_def)
        then have "follows (snd (guarded (bb_write_tick ev ?ids (as_int64 (ev_far ev) cols) modes fixs) r)) rs"
          using f by (intro follows_frame[OF f]) auto
        then show ?thesis using out tick False by (intro same) (simp_all add: sample_of_def)
      qed
    qed
  qed
qed

lemma event_entry_type:
  assumes "map_of (context_of ev) ''type'' = None"
  shows "map_of (event_entry r ev kind flds) ''type'' = Some (JStr ''event'')"
proof -
  have keys: "fst ` set (dict_merge d e) = fst ` set d \<union> fst ` set e" for d e :: "(string, json) dict"
    by (induction e arbitrary: d) (auto simp: dict_merge_def dom_update split_beta)
  have frame: "map_of (dict_merge d e) k = map_of d k" if "k \<notin> fst ` set e" for d e :: "(string, json) dict" and k
    using that by (induction e arbitrary: d) (auto simp: dict_merge_def update_conv' split_beta)
  let ?flds = "map (\<lambda>(k, v). ((if k \<in> set RESERVED_EVENT_KEYS then ''field_'' @ k else k), v)) flds"
  have "''type'' \<notin> fst ` set ?flds" by (auto simp: RESERVED_EVENT_KEYS_def split: if_splits)
  then have "''type'' \<notin> fst ` set (dict_merge [] ?flds)" by (simp only: keys) simp
  moreover have "''type'' \<notin> fst ` set (context_of ev)" using assms by (simp add: map_of_eq_None_iff)
  ultimately show ?thesis by (simp add: event_entry_def frame)
qed

lemma record_event_follows:
  assumes f: "follows r rs" and ctx: "map_of (context_of ev) ''type'' = None"
  shows "\<exists>rs'. follows (record_event ev kind flds r) (rs @ rs') \<and>
    tick_records rs' = [] \<and> event_records rs' = op_events (OpEvent ev kind flds) r"
proof (cases "bb_failed r \<or> bb_closed r \<or> \<not> ev_emit_ok ev")
  case True
  then have "follows (record_event ev kind flds r) rs"
    by (intro follows_frame[OF f]) (auto simp: record_event_def guarded_def sx_defs bb_emit_def bb_fail_def)
  then show ?thesis using True by (intro exI[of _ "[]"]) simp
next
  case False
  obtain s where s: "read_to read_start (bb_lines r) = Some (rs, s)" "in_step r s"
    using f by (auto simp: follows_def)
  let ?e = "event_entry r ev kind flds" and ?r = "record_event ev kind flds r"
  have lines: "bb_lines ?r = bb_lines r @ [?e]"
    and frame: "bb_failed ?r \<or> (bb_failed ?r = bb_failed r \<and> bb_last_key_t ?r = bb_last_key_t r \<and> bb_ids ?r = bb_ids r \<and>
      bb_prev ?r = bb_prev r \<and> bb_modes ?r = bb_modes r \<and> bb_fixes ?r = bb_fixes r)"
    using False by (auto simp: record_event_def guarded_def sx_defs bb_emit_def bb_flush_def bb_fail_def)
  have "read_to read_start (bb_lines ?r) = Some (rs @ [R_Event ?e], s)"
    unfolding lines by (rule read_to_snoc[OF s(1)]) (simp add: read_line_def event_entry_type[OF ctx])
  moreover have "in_step ?r s" using s(2) frame by (auto simp: in_step_def)
  ultimately show ?thesis using False by (intro exI[of _ "[R_Event ?e]"]) (auto simp: follows_def)
qed

lemma step_follows:
  assumes f: "follows r rs" and fits: "\<forall>s \<in> set (op_samples x r). sample_fits s" and ctx: "keeps_type x"
  shows "\<exists>rs'. follows (bb_step x r) (rs @ rs') \<and> list_all2 shows_sample (tick_records rs') (op_samples x r) \<and>
    event_records rs' = op_events x r"
proof (cases x)
  case (OpTick ev telemetry rf)
  then show ?thesis using record_tick_follows[OF f, of ev telemetry rf] fits by auto
next
  case (OpEvent ev kind flds)
  then show ?thesis using record_event_follows[OF f, of ev kind flds] ctx by auto
next
  case (OpFlush ev)
  have "follows (bb_flush_now ev r) rs"
    by (intro follows_frame[OF f]) (auto simp: bb_flush_now_def guarded_def bb_flush_def sx_defs bb_fail_def)
  then show ?thesis using OpFlush by (intro exI[of _ "[]"]) simp
next
  case (OpClose ev)
  have "follows (bb_close ev r) rs"
    by (intro follows_frame[OF f]) (auto simp: bb_close_def bb_fail_def Let_def)
  then show ?thesis using OpClose by (intro exI[of _ "[]"]) simp
qed

lemma run_follows:
  assumes "follows r rs" and "\<forall>s \<in> set (samples xs r). sample_fits s" and "\<forall>x \<in> set xs. keeps_type x"
  shows "\<exists>rs'. follows (foldl (\<lambda>r x. bb_step x r) r xs) (rs @ rs') \<and>
    list_all2 shows_sample (tick_records rs') (samples xs r) \<and> event_records rs' = events xs r"
  using assms
proof (induction xs arbitrary: r rs)
  case Nil
  then show ?case by (intro exI[of _ "[]"]) simp
next
  case (Cons x xs)
  from step_follows[OF Cons.prems(1), of x] Cons.prems(2,3) obtain rs1 where
    1: "follows (bb_step x r) (rs @ rs1)" "list_all2 shows_sample (tick_records rs1) (op_samples x r)"
      "event_records rs1 = op_events x r" by auto
  from Cons.IH[OF 1(1)] Cons.prems(2,3) obtain rs2 where
    2: "follows (foldl (\<lambda>r x. bb_step x r) (bb_step x r) xs) ((rs @ rs1) @ rs2)"
      "list_all2 shows_sample (tick_records rs2) (samples xs (bb_step x r))" "event_records rs2 = events xs (bb_step x r)" by auto
  show ?case by (rule exI[of _ "rs1 @ rs2"]) (use 1 2 in \<open>simp add: list_all2_appendI\<close>)
qed

text \<open>What has been handed to the operating system holds every event.\<close>

definition is_event :: "line \<Rightarrow> bool" where
  "is_event l \<longleftrightarrow> map_of l ''type'' = Some (JStr ''event'')"

lemma written_lines:
  "\<not> is_event (key_line t ids modes fixes cols)" "\<not> is_event (tick_line t cols)"
  by (simp_all add: is_event_def key_line_def tick_line_def)

definition events_out :: "recorder \<Rightarrow> bool" where
  "events_out r \<longleftrightarrow> bb_failed r \<or> (bb_flushed r \<le> length (bb_lines r) \<and>
     list_all (\<lambda>l. \<not> is_event l) (drop (bb_flushed r) (bb_lines r)))"

lemma write_tick_events_out:
  assumes "events_out r"
  shows "events_out (snd (guarded (bb_tick ev telemetry cmf) r))"
proof (cases cmf)
  case (fields cols modes fixs)
  then show ?thesis
    using assms
    by (auto simp: events_out_def guarded_def bb_tick_def bb_write_tick_def sx_defs bb_emit_def bb_flush_def bb_fail_def
        Let_def written_lines)
qed

lemma step_events_out:
  assumes "events_out r"
  shows "events_out (bb_step x r)"
proof (cases x)
  case (OpTick ev telemetry rf)
  have eq: "events_out (r'\<lparr>bb_last_tick_t := t\<rparr>) = events_out r'" "events_out (r'\<lparr>bb_errors := n\<rparr>) = events_out r'"
    "events_out (r'\<lparr>bb_dropped := n\<rparr>) = events_out r'" for r' t n by (simp_all add: events_out_def)
  show ?thesis
    using assms write_tick_events_out[OF assms, of ev telemetry]
    by (auto simp: OpTick record_tick_def eq split_beta split: option.splits)
next
  case (OpEvent ev kind flds)
  then show ?thesis using assms
    by (auto simp: events_out_def record_event_def guarded_def sx_defs bb_emit_def bb_flush_def bb_fail_def)
next
  case (OpFlush ev)
  then show ?thesis using assms
    by (auto simp: events_out_def bb_flush_now_def guarded_def sx_defs bb_flush_def bb_fail_def)
next
  case (OpClose ev)
  then show ?thesis using assms by (auto simp: events_out_def bb_close_def bb_fail_def Let_def)
qed

lemma run_events_out: "events_out r \<Longrightarrow> events_out (foldl (\<lambda>r x. bb_step x r) r xs)"
  by (induction xs arbitrary: r) (auto intro: step_events_out)

definition is_header :: "line \<Rightarrow> bool" where
  "is_header l \<longleftrightarrow> map_of l ''type'' = Some (JStr ''header'')"

fun body_record :: "bb_record \<Rightarrow> bool" where
  "body_record (R_Tick t) = True"
| "body_record (R_Event e) = True"
| "body_record _ = False"

lemma read_line_kind:
  assumes "read_line s l = Some (rcd, s')"
  shows "\<not> is_event l \<Longrightarrow> event_records (yield rcd rs) = event_records rs"
    and "\<not> is_header l \<Longrightarrow> list_all body_record (yield rcd rs) = list_all body_record rs"
  using assms
  by (auto simp: read_line_def read_key_def read_tick_def is_event_def is_header_def Let_def split: if_splits option.splits)

lemma no_event_records:
  "read_to s ls = Some (rs, s') \<Longrightarrow> list_all (\<lambda>l. \<not> is_event l) ls \<Longrightarrow> event_records rs = []"
proof (induction ls arbitrary: s rs)
  case (Cons l ls)
  then obtain rcd t rs' where "read_line s l = Some (rcd, t)" "read_to t ls = Some (rs', s')" "rs = yield rcd rs'"
    by (auto split: option.splits)
  then show ?case using Cons read_line_kind(1) by simp
qed simp

text \<open>The header is the first line and the only one of its kind.\<close>

lemma written_lines_no_header:
  "\<not> is_header (key_line t ids modes fixes cols)" "\<not> is_header (tick_line t cols)"
  "map_of (context_of ev) ''type'' = None \<Longrightarrow> \<not> is_header (event_entry r ev kind flds)"
  by (simp_all add: is_header_def key_line_def tick_line_def event_entry_type)

lemma step_lines:
  assumes "keeps_type x"
  shows "\<exists>ls. bb_lines (bb_step x r) = bb_lines r @ ls \<and> list_all (\<lambda>l. \<not> is_header l) ls"
proof (cases x)
  case (OpTick ev telemetry rf)
  have w: "\<exists>ls. bb_lines (snd (guarded (bb_tick ev telemetry cmf) r)) = bb_lines r @ ls \<and> list_all (\<lambda>l. \<not> is_header l) ls"
    for cmf
    by (cases cmf)
      (auto simp: guarded_def bb_tick_def bb_write_tick_def sx_defs bb_emit_def bb_flush_def bb_fail_def Let_def
        written_lines_no_header)
  show ?thesis using w by (auto simp: OpTick record_tick_def split_beta split: option.splits)
next
  case (OpEvent ev kind flds)
  then show ?thesis using assms
    by (auto simp: record_event_def guarded_def sx_defs bb_emit_def bb_flush_def bb_fail_def written_lines_no_header)
next
  case (OpFlush ev)
  then show ?thesis by (auto simp: bb_flush_now_def guarded_def sx_defs bb_flush_def bb_fail_def)
next
  case (OpClose ev)
  then show ?thesis by (auto simp: bb_close_def bb_fail_def Let_def)
qed

lemma run_lines:
  assumes "\<forall>x \<in> set xs. keeps_type x"
  shows "\<exists>ls. bb_lines (foldl (\<lambda>r x. bb_step x r) r xs) = bb_lines r @ ls \<and> list_all (\<lambda>l. \<not> is_header l) ls"
  using assms
proof (induction xs arbitrary: r)
  case (Cons x xs)
  obtain ls where ls: "bb_lines (bb_step x r) = bb_lines r @ ls" "list_all (\<lambda>l. \<not> is_header l) ls"
    using step_lines Cons.prems by (metis list.set_intros(1))
  obtain ls' where "bb_lines (foldl (\<lambda>r x. bb_step x r) (bb_step x r) xs) = bb_lines (bb_step x r) @ ls'"
    "list_all (\<lambda>l. \<not> is_header l) ls'" using Cons.IH Cons.prems by (metis list.set_intros(2))
  then show ?case using ls by auto
qed simp

lemma body_records:
  "read_to s ls = Some (rs, s') \<Longrightarrow> list_all (\<lambda>l. \<not> is_header l) ls \<Longrightarrow> list_all body_record rs"
proof (induction ls arbitrary: s rs)
  case (Cons l ls)
  then obtain rcd t rs' where "read_line s l = Some (rcd, t)" "read_to t ls = Some (rs', s')" "rs = yield rcd rs'"
    by (auto split: option.splits)
  then show ?case using Cons read_line_kind(2) by simp
qed simp

lemma log_of_body:
  "list_all body_record rs \<Longrightarrow>
   log_of (Some l) (rs @ rest) = log_of (Some (l\<lparr>bl_ticks := bl_ticks l @ tick_records rs,
     bl_events := bl_events l @ event_records rs\<rparr>)) rest"
proof (induction rs arbitrary: l)
  case (Cons r rs)
  then show ?case by (cases r) (simp_all add: log_add_def)
qed simp

lemma bb_init_follows:
  assumes "bb_init ev rate key fl pid started = Some r"
  obtains h where "bb_lines r = [h]" "read_line s h = Some (Some (R_Header h), s)" "follows r [R_Header h]" "events_out r"
proof -
  obtain h where h: "bb_lines r = [h]" "map_of h ''type'' = Some (JStr ''header'')"
    using assms by (auto simp: bb_init_def split: if_splits)
  have "read_line t h = Some (Some (R_Header h), t)" for t using h(2) by (simp add: read_line_def)
  moreover from this have "follows r [R_Header h]" using h(1) assms
    by (auto simp: bb_init_def follows_def in_step_def split: if_splits)
  moreover have "events_out r" using assms by (auto simp: bb_init_def events_out_def split: if_splits)
  ultimately show ?thesis using h(1) that by blast
qed

text \<open>C15. The flight recorder's file holds what was recorded. Take a recorder from its construction
  through any sequence of samples, events, flushes and closings, with any clock readings, any
  telemetry (drones coming and going, new flight modes and fix types) and any of its writes
  failing. Let the quantised values be below \<open>2 ^ 62\<close> in magnitude and the context of the events have no
  field \<open>type\<close>, which the GCS's own context has not. Reading any non-empty beginning of the lines, as a
  kill or a power cut leaves it, succeeds, and its ticks show a beginning of the samples that were taken, with
  the time, the drones, the exact quantised columns and the mode and fix names of each, and its events are a
  beginning of the events; all of them from the whole file; and every event as soon as the lines that were
  flushed are there, unless a write failed.\<close>

theorem recording_reads_back:
  fixes ops :: "bb_op list"
  assumes init: "bb_init ev rate key fl pid started = Some r0" and n: "0 < n"
    and fits: "\<forall>s \<in> set (samples ops r0). sample_fits s" and ctx: "\<forall>x \<in> set ops. keeps_type x"
  defines "r \<equiv> foldl (\<lambda>r x. bb_step x r) r0 ops"
  shows "\<exists>lg. read_blackbox (take n (bb_lines r)) whole = Some lg \<and> bl_truncated lg = (\<not> whole) \<and>
    list_all2 shows_sample (bl_ticks lg) (take (length (bl_ticks lg)) (samples ops r0)) \<and>
    prefix (bl_events lg) (events ops r0) \<and>
    (length (bb_lines r) \<le> n \<longrightarrow> list_all2 shows_sample (bl_ticks lg) (samples ops r0) \<and> bl_events lg = events ops r0) \<and>
    (bb_flushed r \<le> n \<and> \<not> bb_failed r \<longrightarrow> bl_events lg = events ops r0)"
proof -
  obtain h where h: "bb_lines r0 = [h]" "read_line read_start h = Some (Some (R_Header h), read_start)"
    "follows r0 [R_Header h]" "events_out r0"
    using init by (rule bb_init_follows)
  obtain ls where ls: "bb_lines r = h # ls" "list_all (\<lambda>l. \<not> is_header l) ls"
    using run_lines[of ops r0] ctx h(1) by (auto simp: r_def)
  from run_follows[OF h(3) fits ctx] obtain rs s where
    rs: "read_to read_start ls = Some (rs, s)"
      "list_all2 shows_sample (tick_records rs) (samples ops r0)" "event_records rs = events ops r0"
    using h(2) ls(1) by (auto simp: follows_def r_def)
  obtain m where m: "n = Suc m" using n by (cases n) auto
  obtain rs1 rs2 t where cut: "read_to read_start (take m ls) = Some (rs1, t)"
    "read_to t (drop m ls) = Some (rs2, s)" "rs = rs1 @ rs2"
    using read_to_cut[OF rs(1)] by blast
  have body: "list_all body_record rs1"
    using body_records[OF rs(1) ls(2)] cut(3) by simp
  define lg where "lg = \<lparr>bl_header = h, bl_ticks = tick_records rs1, bl_events = event_records rs1,
    bl_truncated = \<not> whole\<rparr>"
  have "read_blackbox (take n (bb_lines r)) whole = Some lg"
    using log_of_body[OF body]
    by (simp add: read_blackbox_def iter_read_to m ls(1) h(2) cut(1) log_add_def lg_def)
  moreover have "list_all2 shows_sample (bl_ticks lg) (take (length (bl_ticks lg)) (samples ops r0))"
    using list_all2_takeI[OF rs(2), of "length (tick_records rs1)"] by (simp add: lg_def cut(3))
  moreover have "prefix (bl_events lg) (events ops r0)"
    unfolding rs(3)[symmetric] cut(3) by (simp add: lg_def)
  moreover have "list_all2 shows_sample (bl_ticks lg) (samples ops r0) \<and> bl_events lg = events ops r0"
    if "length (bb_lines r) \<le> n"
  proof -
    have "rs2 = []" using that cut(2) by (simp add: m ls(1))
    then show ?thesis using rs cut(3) by (simp add: lg_def)
  qed
  moreover have "bl_events lg = events ops r0" if "bb_flushed r \<le> n" "\<not> bb_failed r"
  proof -
    have "list_all (\<lambda>l. \<not> is_event l) (drop (bb_flushed r) (bb_lines r))"
      using run_events_out[OF h(4), of ops] that(2) by (simp add: events_out_def r_def)
    then have "list_all (\<lambda>l. \<not> is_event l) (drop n (bb_lines r))"
      using that(1) by (metis (no_types, lifting) drop_drop le_add_diff_inverse2 list_all_append append_take_drop_id)
    then have "event_records rs2 = []" using no_event_records[OF cut(2)] by (simp add: m ls(1))
    then show ?thesis using rs(3) cut(3) by (simp add: lg_def)
  qed
  ultimately show ?thesis by (auto simp: lg_def)
qed

text \<open>The two conditions are not idle. A context with a field \<open>type\<close> takes an event out of the log, and two
  samples whose difference wraps around are read back wrong.\<close>

lemma context_hides_event:
  assumes "ev_context ev = Some [(''type'', JStr ''note'')]"
  shows "read_line s (event_entry r ev kind []) = Some (None, s)"
  using assms by (simp add: event_entry_def context_of_def dict_merge_def read_line_def)

lemma wrapped_difference_misread:
  "py_add (JInt (sint (int64 far (- (2 ^ 63))))) (JInt (sint (int64 far 1 - int64 far (- (2 ^ 63))))) \<noteq>
    Some (JInt (sint (int64 far 1)))"
proof -
  have "(word_of_int 1 :: 64 word) - word_of_int (- (2 ^ 63)) = word_of_int (1 + 2 ^ 63)" by simp
  then show ?thesis by (simp add: int64_def int_word_sint)
qed

definition demo_env :: "real \<Rightarrow> bool \<Rightarrow> bb_env" where
  "demo_env now ok = \<lparr>ev_now = now, ev_wall = 1000 + now, ev_context = None, ev_emit_ok = ok, ev_flush_ok = True,
     ev_far = (\<lambda>n. word_of_int (- (2 ^ 63)))\<rparr>"

definition demo_telemetry :: "real \<Rightarrow> string option \<Rightarrow> bb_telemetry" where
  "demo_telemetry x mode = \<lparr>bt_value = (\<lambda>k. if k = ''fleet_x'' then Some x else None), bt_flag = (\<lambda>k. k = ''armed''),
     bt_flight_mode = mode, bt_fix_type = None\<rparr>"

definition demo_ops :: "bb_op list" where
  "demo_ops =
     [OpTick (demo_env 1 True) [(1, demo_telemetry 2 None)] RfNone,
      OpTick (demo_env 2 True) [(1, demo_telemetry 3 (Some ''HOLD'')), (2, demo_telemetry 5 None)] (RfOne (1 / 2)),
      OpEvent (demo_env 3 True) ''command'' [(''type'', JStr ''x'')],
      OpTick (demo_env 4 False) [(1, demo_telemetry 4 None)] RfNone]"

lemma demo_fits:
  assumes "bb_init (demo_env 0 True) 10 10 1 77 ''2026'' = Some r0"
  shows "\<forall>s \<in> set (samples demo_ops r0). sample_fits s" and "\<forall>x \<in> set demo_ops. keeps_type x"
proof -
  have r0: "r0 = \<lparr>bb_rate_hz = 10, bb_keyframe_interval_s = 10, bb_flush_interval_s = 1, bb_t0 = 0, bb_last_tick_t = None,
      bb_last_flush_t = 0, bb_last_key_t = None, bb_ids = [], bb_prev = [], bb_modes = [],
      bb_fixes = [], bb_failed = False, bb_closed = False, bb_ticks = 0, bb_events = 0, bb_dropped = 0,
      bb_errors = 0, bb_lines = bb_lines r0, bb_flushed = 1\<rparr>"
    using assms by (auto simp: bb_init_def demo_env_def)
  show "\<forall>s \<in> set (samples demo_ops r0). sample_fits s"
    by (subst r0) (simp add: demo_ops_def sample_of_def demo_env_def columns_of_def Let_def rf_column_def numeric_columns_def
      CHANNELS_def mk_channel_def number_or_zero_def demo_telemetry_def mode_name_def fix_name_def flag_word_def FLAG_BITS_def
      record_tick_def guarded_def sx_defs bb_tick_def bb_write_tick_def bb_emit_def bb_flush_def need_key_def
      record_event_def sample_fits_def in_range_def half_range_def MISSING_def)
  show "\<forall>x \<in> set demo_ops. keeps_type x" by (simp add: demo_ops_def demo_env_def context_of_def)
qed

lemma recording_reads_back_witness:
  "\<exists>r0. bb_init (demo_env 0 True) 10 10 1 77 ''2026'' = Some r0 \<and>
    (\<exists>lg. read_blackbox (take 3 (bb_lines (foldl (\<lambda>r x. bb_step x r) r0 demo_ops))) False = Some lg \<and> bl_truncated lg \<and>
      list_all2 shows_sample (bl_ticks lg) (take (length (bl_ticks lg)) (samples demo_ops r0)) \<and>
      prefix (bl_events lg) (events demo_ops r0))"
proof -
  obtain r0 where r0: "bb_init (demo_env 0 True) 10 10 1 77 ''2026'' = Some r0"
    by (simp add: bb_init_def demo_env_def)
  show ?thesis using recording_reads_back[OF r0 _ demo_fits[OF r0], of 3 False] r0 by auto
qed

section \<open>The service\<close>

text \<open>\<^verbatim>\<open>prune_sessions\<close>: the session files as (modification time, path, sz), and which of them can be
  removed.\<close>

type_synonym session_file = "real \<times> string \<times> nat"

fun prune_files :: "(string \<Rightarrow> bool) \<Rightarrow> nat \<Rightarrow> string option \<Rightarrow> nat \<Rightarrow> session_file list \<Rightarrow> string list" where
  "prune_files removable limit keep tot [] = []"
| "prune_files removable limit keep tot ((t, path, sz) # fs) =
     (if tot \<le> limit then []
      else if keep = Some path then prune_files removable limit keep tot fs
      else if removable path then path # prune_files removable limit keep (tot - sz) fs
      else prune_files removable limit keep tot fs)"

definition total_size :: "session_file list \<Rightarrow> nat" where
  "total_size fs = (\<Sum>(t, path, sz) \<leftarrow> fs. sz)"

definition prune_sessions :: "(string \<Rightarrow> bool) \<Rightarrow> session_file list \<Rightarrow> nat \<Rightarrow> string option \<Rightarrow> string list" where
  "prune_sessions removable fs limit keep = prune_files removable limit keep (total_size fs) (sort fs)"

text \<open>What is left of the directory.\<close>

definition after_prune :: "string list \<Rightarrow> session_file list \<Rightarrow> session_file list" where
  "after_prune removed fs = filter (\<lambda>(t, path, sz). path \<notin> set removed) fs"

text \<open>The breach sets of the service, and the calls a sweep makes of the recorder. A distance that
  cannot be had is \<^const>\<open>None\<close> (\<^verbatim>\<open>math.nan\<close>).\<close>

datatype breach_call =
    Call_Proximity "int \<times> int" "real option" bool
  | Call_Geofence int string "real option" "real option" bool

record breach_flags =
  fl_proximity :: "(int \<times> int, bool) dict"
  fl_hard :: "(int, bool) dict"
  fl_soft :: "(int, bool) dict"
  fl_radius :: "real option"
  fl_soft_radius :: "real option"

record service =
  sv_enabled :: bool
  sv_next_sample :: real
  sv_retry_at :: real
  sv_sessions :: nat
  sv_prox :: "(int \<times> int) set"
  sv_hard :: "int set"
  sv_soft :: "int set"

definition SAMPLE_HZ :: real where
  "SAMPLE_HZ = 10"

definition RETRY_AFTER_FAILURE_S :: real where
  "RETRY_AFTER_FAILURE_S = 60"

definition active_keys :: "('k, bool) dict \<Rightarrow> 'k set" where
  "active_keys d = fst ` set (filter snd d)"

definition pair_distance :: "(int \<Rightarrow> point3 option) \<Rightarrow> int \<times> int \<Rightarrow> real option" where
  "pair_distance pos pair =
     (case (pos (fst pair), pos (snd pair)) of (Some a, Some b) \<Rightarrow> Some (dist3 a b) | _ \<Rightarrow> None)"

definition home_distance :: "(int \<Rightarrow> (real \<times> real) option) \<Rightarrow> int \<Rightarrow> real option" where
  "home_distance local_xy drone =
     (case local_xy drone of None \<Rightarrow> None | Some (x, y) \<Rightarrow> Some (sqrt (x\<^sup>2 + y\<^sup>2)))"

definition edge_calls :: "('k::linorder \<Rightarrow> bool \<Rightarrow> breach_call) \<Rightarrow> 'k set \<Rightarrow> 'k set \<Rightarrow> breach_call list" where
  "edge_calls call before now =
     map (\<lambda>k. call k False) (sorted_list_of_set (now - before)) @
     map (\<lambda>k. call k True) (sorted_list_of_set (before - now))"

definition poll_breaches ::
  "(int \<Rightarrow> point3 option) \<Rightarrow> (int \<Rightarrow> (real \<times> real) option) \<Rightarrow> breach_flags \<Rightarrow> service \<Rightarrow>
     breach_call list \<times> service"
where
  "poll_breaches pos local_xy fl sv =
     (let prox = active_keys (fl_proximity fl); hard = active_keys (fl_hard fl); soft = active_keys (fl_soft fl) in
      (edge_calls (\<lambda>p. Call_Proximity p (pair_distance pos p)) (sv_prox sv) prox @
       edge_calls (\<lambda>d. Call_Geofence d ''hard'' (home_distance local_xy d) (fl_radius fl)) (sv_hard sv) hard @
       edge_calls (\<lambda>d. Call_Geofence d ''soft'' (home_distance local_xy d) (fl_soft_radius fl)) (sv_soft sv) soft,
       sv\<lparr>sv_prox := prox, sv_hard := hard, sv_soft := soft\<rparr>))"

text \<open>A new session starts from no breach.\<close>

definition open_session :: "service \<Rightarrow> service" where
  "open_session sv = sv\<lparr>sv_sessions := sv_sessions sv + 1, sv_prox := {}, sv_hard := {}, sv_soft := {}\<rparr>"

text \<open>One poll: the calls, whether a sample is taken, whether the file is rotated (\<^verbatim>\<open>opened\<close> says
  whether the new session could be opened).\<close>

record poll_result =
  pr_calls :: "breach_call list"
  pr_sample :: bool
  pr_rotate :: bool

definition rotate :: "bool \<Rightarrow> service \<Rightarrow> service" where
  "rotate opened sv = (if opened then open_session sv else sv)"

definition poll ::
  "real \<Rightarrow> bool \<Rightarrow> nat \<Rightarrow> nat \<Rightarrow> bool \<Rightarrow> (int \<Rightarrow> point3 option) \<Rightarrow> (int \<Rightarrow> (real \<times> real) option) \<Rightarrow>
     breach_flags \<Rightarrow> service \<Rightarrow> poll_result \<times> service"
where
  "poll now failed bytes_written file_bytes opened pos local_xy fl sv =
     (if failed then
        (if now \<ge> sv_retry_at sv
         then (\<lparr>pr_calls = [], pr_sample = False, pr_rotate = True\<rparr>,
               rotate opened (sv\<lparr>sv_retry_at := now + RETRY_AFTER_FAILURE_S\<rparr>))
         else (\<lparr>pr_calls = [], pr_sample = False, pr_rotate = False\<rparr>, sv))
      else
        (case poll_breaches pos local_xy fl sv of
           (calls, sv1) \<Rightarrow>
             let sample = (now \<ge> sv_next_sample sv1);
                 sv2 = (if sample
                   then sv1\<lparr>sv_next_sample := max (sv_next_sample sv1 + 1 / SAMPLE_HZ) (now - 1 / SAMPLE_HZ)\<rparr>
                   else sv1);
                 rot = (bytes_written \<ge> file_bytes)
             in (\<lparr>pr_calls = calls, pr_sample = sample, pr_rotate = rot\<rparr>, if rot then rotate opened sv2 else sv2)))"

text \<open>\<^verbatim>\<open>_on_audit\<close>: the event an audit entry becomes; \<^const>\<open>None\<close> is the error of a status that is not a
  number.\<close>

definition pop_default :: "string \<Rightarrow> json \<Rightarrow> (string, json) dict \<Rightarrow> json" where
  "pop_default k v d = (case map_of d k of None \<Rightarrow> v | Some w \<Rightarrow> w)"

definition command_fields ::
  "(json \<Rightarrow> string) \<Rightarrow> json \<Rightarrow> json \<Rightarrow> json \<Rightarrow> (string, json) dict \<Rightarrow> (string, json) dict option"
where
  "command_fields str_of verb where_to status others =
     (if list_ex (\<lambda>(k, v). k \<in> set [''command'', ''trigger'', ''accepted'']) others then None
      else map_option (\<lambda>n.
        [(''command'', where_to), (''trigger'', JStr (str_of verb @ '' '' @ str_of where_to)),
         (''accepted'', JBool (n < 400)), (''status'', status)] @ others) (as_number status))"

definition command_event ::
  "(json \<Rightarrow> string) \<Rightarrow> (string, json) dict \<Rightarrow> (string \<times> (string, json) dict) option"
where
  "command_event str_of flds =
     map_option (Pair ''command'')
       (command_fields str_of (pop_default ''method'' (JStr '''') flds) (pop_default ''path'' (JStr '''') flds)
         (pop_default ''status'' (JInt 0) flds) (dpop ''status'' (dpop ''path'' (dpop ''method'' flds))))"

definition on_audit ::
  "(json \<Rightarrow> string) \<Rightarrow> (string, json) dict \<Rightarrow> (string \<times> (string, json) dict) option"
where
  "on_audit str_of entry =
     (let all_flds = filter (\<lambda>(k, v). k \<noteq> ''ts'') entry;
          event = pop_default ''event'' JNull all_flds;
          flds = dpop ''event'' all_flds
      in if event = JStr ''command'' then command_event str_of flds
         else if list_ex (\<lambda>(k, v). k = ''audit_event'') flds then None
         else Some (''audit'', (''audit_event'', event) # flds))"

section \<open>Disk use and breach calls\<close>

lemma prune_files_props:
  "keep \<noteq> None \<Longrightarrow> the keep \<notin> set (prune_files removable limit keep tot fs)"
  "set (prune_files removable limit keep tot fs) \<subseteq> (fst \<circ> snd) ` set fs \<inter> {p. removable p}"
  by (induction removable limit keep tot fs rule: prune_files.induct) auto

text \<open>When every file but the kept one can be removed, what stays fits the limit or is the kept file
  alone.\<close>

lemma prune_files_fits:
  assumes "distinct (map (fst \<circ> snd) fs)" and "tot = total_size fs"
    and "\<forall>(t, p, n) \<in> set fs. removable p \<or> keep = Some p"
  shows "total_size (after_prune (prune_files removable limit keep (tot + extra) fs) fs) + extra \<le> limit \<or>
    (\<forall>(t, p, n) \<in> set (after_prune (prune_files removable limit keep (tot + extra) fs) fs). keep = Some p)"
  using assms
proof (induction fs arbitrary: tot extra)
  case Nil
  then show ?case by (simp add: after_prune_def)
next
  case (Cons f fs)
  obtain t p n where f: "f = (t, p, n)" by (cases f) auto
  have sub: "set (prune_files removable limit keep x fs) \<subseteq> (fst \<circ> snd) ` set fs" for x
    using prune_files_props(2) by blast
  have p: "p \<notin> set (prune_files removable limit keep x fs)" for x
    using sub[of x] Cons.prems(1) by (auto simp: f)
  have tot_eq: "tot = n + total_size fs" using Cons.prems(2) by (simp add: f total_size_def)
  show ?case
  proof (cases "tot + extra \<le> limit")
    case True
    then show ?thesis using Cons.prems(2) by (simp add: f after_prune_def)
  next
    case False
    note big = False
    show ?thesis
    proof (cases "keep = Some p")
      case True
      have "total_size (after_prune (prune_files removable limit keep (total_size fs + (extra + n)) fs) fs) + (extra + n) \<le> limit \<or>
        (\<forall>(t, p, n) \<in> set (after_prune (prune_files removable limit keep (total_size fs + (extra + n)) fs) fs). keep = Some p)"
        by (rule Cons.IH) (use Cons.prems in \<open>auto simp: f\<close>)
      then show ?thesis
        using big True p by (auto simp: f after_prune_def tot_eq total_size_def ac_simps)
    next
      case False
      then have rem: "removable p" using Cons.prems(3) by (auto simp: f)
      have "total_size (after_prune (prune_files removable limit keep (total_size fs + extra) fs) fs) + extra \<le> limit \<or>
        (\<forall>(t, p, n) \<in> set (after_prune (prune_files removable limit keep (total_size fs + extra) fs) fs). keep = Some p)"
        by (rule Cons.IH) (use Cons.prems in \<open>auto simp: f\<close>)
      moreover have "after_prune (p # rs) fs = after_prune rs fs" for rs
        using Cons.prems(1) by (force simp: f after_prune_def intro: filter_cong)
      ultimately show ?thesis
        using big False rem by (simp add: f tot_eq) (simp add: after_prune_def)
    qed
  qed
qed

text \<open>Replaying the calls of a sweep gives the breach sets after it.\<close>

lemma edge_calls_replay:
  assumes "finite before" and "finite now"
  shows "set (edge_calls call before now) = (\<lambda>k. call k False) ` (now - before) \<union> (\<lambda>k. call k True) ` (before - now)"
    and "now = (before \<union> (now - before)) - (before - now)"
  using assms by (auto simp: edge_calls_def)
end
