(* ===== verification/Abort_Clearance.thy ===== *)
theory Abort_Clearance
  imports Start_Bridge
begin

text \<open>
  The clearance check of a single-drone abort, \<^verbatim>\<open>abort_clearance\<close> and its helpers in
  \<^verbatim>\<open>packages/tara-gcs/tara_gcs/drone_manager.py\<close>: the modelled path of each abort mode, the stretch
  of it the drone may occupy at a time, and the sweep over every other drone. An array over the
  sample times is a function of the sample time. \<^verbatim>\<open>numpy.interp\<close> is the parameter \<open>interp\<close>; what its
  documentation promises is \<open>documented_interp\<close>. Floats are reals.
\<close>

section \<open>Modes and constants\<close>

datatype abort_mode = Abort_RTL | Abort_Land | Abort_Estop

definition ABORT_MODES :: "(string \<times> abort_mode) list" where
  "ABORT_MODES = [(''rtl'', Abort_RTL), (''land'', Abort_Land), (''estop'', Abort_Estop)]"

definition ABORT_RTL_SPEED_RANGE_MS :: "real \<times> real" where
  "ABORT_RTL_SPEED_RANGE_MS = (1, 8)"

definition ABORT_DESCENT_RATE_RANGE_MS :: "real \<times> real" where
  "ABORT_DESCENT_RATE_RANGE_MS = (1 / 2, 3 / 2)"

definition ABORT_FALL_ACCEL_RANGE_MS2 :: "real \<times> real" where
  "ABORT_FALL_ACCEL_RANGE_MS2 = (1 / 2 * (981 / 100), 981 / 100)"

definition ABORT_CLEARANCE_DT_S :: real where
  "ABORT_CLEARANCE_DT_S = 1 / 10"

fun ABORT_MODEL_DESCRIPTIONS :: "abort_mode \<Rightarrow> string" where
  "ABORT_MODEL_DESCRIPTIONS Abort_RTL =
     ''horizontal leg to own pad at current altitude (1.0-8.0 m/s), then vertical descent (0.5-1.5 m/s); does not model PX4's default RTL climb''"
| "ABORT_MODEL_DESCRIPTIONS Abort_Land = ''vertical descent from current position (0.5-1.5 m/s)''"
| "ABORT_MODEL_DESCRIPTIONS Abort_Estop =
     ''vertical fall from current position (0.5g-1g); ballistic drift not modelled''"

section \<open>The path and the stretch of it the drone may be on\<close>

definition abort_horizon :: "abort_mode \<Rightarrow> real \<Rightarrow> real \<Rightarrow> real" where
  "abort_horizon mode horizontal vertical =
     (if mode = Abort_Estop then sqrt (2 * vertical / fst ABORT_FALL_ACCEL_RANGE_MS2)
      else horizontal / fst ABORT_RTL_SPEED_RANGE_MS + vertical / fst ABORT_DESCENT_RATE_RANGE_MS)"

definition along_path :: "real \<Rightarrow> real \<Rightarrow> real \<Rightarrow> real \<Rightarrow> real \<Rightarrow> real" where
  "along_path horizontal vertical h_speed v_rate tau =
     (let leg1_t = horizontal / h_speed in
      min (if tau \<le> leg1_t then h_speed * tau else horizontal + v_rate * (tau - leg1_t)) (horizontal + vertical))"

text \<open>Distance travelled, slowest and fastest.\<close>

definition abort_progress :: "abort_mode \<Rightarrow> real \<Rightarrow> real \<Rightarrow> real \<Rightarrow> real \<times> real" where
  "abort_progress mode horizontal vertical tau =
     (if mode = Abort_Estop
      then (min (1 / 2 * fst ABORT_FALL_ACCEL_RANGE_MS2 * tau\<^sup>2) (horizontal + vertical),
            min (1 / 2 * snd ABORT_FALL_ACCEL_RANGE_MS2 * tau\<^sup>2) (horizontal + vertical))
      else (along_path horizontal vertical (fst ABORT_RTL_SPEED_RANGE_MS) (fst ABORT_DESCENT_RATE_RANGE_MS) tau,
            along_path horizontal vertical (snd ABORT_RTL_SPEED_RANGE_MS) (snd ABORT_DESCENT_RATE_RANGE_MS) tau))"

text \<open>\<^verbatim>\<open>np.clip\<close>\<close>

definition clip :: "real \<Rightarrow> real \<Rightarrow> real \<Rightarrow> real" where
  "clip x lo hi = min hi (max lo x)"

definition distance_to_leg :: "point3 \<Rightarrow> point3 \<Rightarrow> point3 \<Rightarrow> real \<Rightarrow> real \<Rightarrow> real" where
  "distance_to_leg q origin unit lo hi =
     length3 (sub3 q (add_scaled origin (clip (dot3 (sub3 q origin) unit) lo hi) unit))"

text \<open>The two legs of a path: where it starts, where it turns down, the lengths and the direction of
  the first.\<close>

record abort_path =
  ap_start :: point3
  ap_corner :: point3
  ap_horizontal :: real
  ap_vertical :: real
  ap_unit :: point3

definition abort_path_of :: "abort_mode \<Rightarrow> point3 \<Rightarrow> real \<times> real \<Rightarrow> abort_path" where
  "abort_path_of mode start pad =
     (case start of (x, y, z) \<Rightarrow>
        let p0 = (x, y, max z 0);
            corner = (if mode = Abort_RTL then (fst pad, snd pad, max z 0) else p0);
            horizontal = length3 (sub3 corner p0)
        in \<lparr>ap_start = p0, ap_corner = corner, ap_horizontal = horizontal, ap_vertical = max z 0,
            ap_unit = (if horizontal > 0 then map3 (\<lambda>c. c / horizontal) (sub3 corner p0) else (0, 0, 0))\<rparr>)"

text \<open>The distance of a point from the stretch of the path between two arc lengths; \<^const>\<open>None\<close> is
  \<^verbatim>\<open>inf\<close>.\<close>

definition stretch_distance :: "abort_path \<Rightarrow> real \<times> real \<Rightarrow> point3 \<Rightarrow> real option" where
  "stretch_distance p s q =
     (case s of (s_slow, s_fast) \<Rightarrow>
        let h = ap_horizontal p;
            d1 = distance_to_leg q (ap_start p) (ap_unit p) (min s_slow h) (min s_fast h);
            d2 = distance_to_leg q (ap_corner p) (0, 0, -1) (max s_slow h - h) (max s_fast h - h)
        in if s_slow \<le> h then (if s_fast \<ge> h then Some (min d1 d2) else Some d1)
           else if s_fast \<ge> h then Some d2 else None)"

definition abort_speed :: "abort_mode \<Rightarrow> real \<Rightarrow> real \<Rightarrow> real" where
  "abort_speed mode dt tau =
     (case mode of
        Abort_Estop \<Rightarrow> snd ABORT_FALL_ACCEL_RANGE_MS2 * (tau + dt)
      | Abort_RTL \<Rightarrow> max (snd ABORT_RTL_SPEED_RANGE_MS) (snd ABORT_DESCENT_RATE_RANGE_MS)
      | Abort_Land \<Rightarrow> snd ABORT_DESCENT_RATE_RANGE_MS)"

section \<open>The other drones\<close>

record neighbour =
  nb_waypoints :: "waypoint list option"
  nb_position :: "point3 option"

type_synonym interpolator = "real list \<Rightarrow> real list \<Rightarrow> real \<Rightarrow> real"

definition show_instant :: "real option \<Rightarrow> real \<Rightarrow> real" where
  "show_instant elapsed tau = (case elapsed of None \<Rightarrow> 0 | Some e \<Rightarrow> e + tau)"

definition track_position :: "interpolator \<Rightarrow> waypoint list \<Rightarrow> real \<Rightarrow> point3" where
  "track_position interp wps t =
     (let times = map w_time wps in
      (interp times (map w_x wps) t, interp times (map w_y wps) t, - interp times (map w_z wps) t))"

definition segment_speed :: "waypoint \<Rightarrow> waypoint \<Rightarrow> real" where
  "segment_speed a b =
     (if w_time b - w_time a > 0 then length3 (sub3 (xyz b) (xyz a)) / (w_time b - w_time a) else 0)"

definition track_speed :: "waypoint list \<Rightarrow> real" where
  "track_speed wps = (if length wps > 1 then Max (set (map2 segment_speed wps (tl wps))) else 0)"

text \<open>Where a neighbour is, \<open>tau\<close> after the command, and how fast it can be; \<^const>\<open>None\<close> is skipped.\<close>

definition neighbour_motion ::
  "interpolator \<Rightarrow> real option \<Rightarrow> neighbour \<Rightarrow> ((real \<Rightarrow> point3) \<times> real) option"
where
  "neighbour_motion interp elapsed nb =
     (case nb_waypoints nb of
        Some (w # ws) \<Rightarrow> Some (\<lambda>tau. track_position interp (w # ws) (show_instant elapsed tau), track_speed (w # ws))
      | _ \<Rightarrow> (case nb_position nb of None \<Rightarrow> None | Some p \<Rightarrow> Some (\<lambda>tau. p, 0)))"

section \<open>The check\<close>

record conflict =
  cf_drone_id :: int
  cf_min_distance_m :: real
  cf_in_s :: real

record clearance =
  ac_clear :: bool
  ac_threshold_m :: real
  ac_mode :: abort_mode
  ac_model :: string
  ac_horizon_s :: real
  ac_conflicts :: "conflict list"

datatype abort_error = Unknown_Mode string | Zero_Interval

definition neighbour_conflict ::
  "abort_mode \<Rightarrow> abort_path \<Rightarrow> real list \<Rightarrow> real \<Rightarrow> real \<Rightarrow> int \<Rightarrow> (real \<Rightarrow> point3) \<Rightarrow> real \<Rightarrow> conflict option"
where
  "neighbour_conflict mode p taus threshold dt drone q other_speed =
     (let samples = List.map_filter (\<lambda>tau. map_option (Pair tau)
            (stretch_distance p (abort_progress mode (ap_horizontal p) (ap_vertical p) tau) (q tau))) taus;
          hits = filter (\<lambda>(tau, d). d < threshold + (other_speed + abort_speed mode dt tau) * dt / 2) samples
      in case sort_key snd hits of [] \<Rightarrow> None
         | (tau, d) # _ \<Rightarrow>
             Some \<lparr>cf_drone_id = drone, cf_min_distance_m = round_to 2 d, cf_in_s = round_to 1 tau\<rparr>)"

definition abort_clearance ::
  "interpolator \<Rightarrow> string \<Rightarrow> point3 \<Rightarrow> real \<times> real \<Rightarrow> (int, neighbour) dict \<Rightarrow> real option \<Rightarrow> real \<Rightarrow> real \<Rightarrow>
     abort_error + clearance"
where
  "abort_clearance interp mode_name start pad others elapsed threshold dt =
     (case map_of ABORT_MODES mode_name of None \<Rightarrow> Inl (Unknown_Mode mode_name)
      | Some mode \<Rightarrow>
          let p = abort_path_of mode start pad; horizon = abort_horizon mode (ap_horizontal p) (ap_vertical p) in
          (case sweep_times horizon dt of None \<Rightarrow> Inl Zero_Interval
           | Some taus \<Rightarrow>
               let conflicts = sort_key cf_min_distance_m (List.map_filter (\<lambda>(i, nb).
                     case neighbour_motion interp elapsed nb of None \<Rightarrow> None
                     | Some (q, v) \<Rightarrow> neighbour_conflict mode p taus threshold dt i q v) others)
               in Inr \<lparr>ac_clear = (conflicts = []), ac_threshold_m = threshold, ac_mode = mode,
                       ac_model = ABORT_MODEL_DESCRIPTIONS mode, ac_horizon_s = round_to 1 horizon,
                       ac_conflicts = conflicts\<rparr>))"

section \<open>What interp documents\<close>

text \<open>Piecewise linear between increasing data points, constant outside.\<close>

definition documented_interp :: "interpolator \<Rightarrow> bool" where
  "documented_interp interp \<longleftrightarrow>
     (\<forall>xs ys t. xs \<noteq> [] \<and> length ys = length xs \<and> sorted_wrt (<) xs \<longrightarrow>
        (t \<le> hd xs \<longrightarrow> interp xs ys t = hd ys) \<and> (last xs \<le> t \<longrightarrow> interp xs ys t = last ys) \<and>
        (\<forall>i. i + 1 < length xs \<and> xs ! i \<le> t \<and> t \<le> xs ! (i + 1) \<longrightarrow>
           interp xs ys t = ys ! i + (ys ! (i + 1) - ys ! i) * (t - xs ! i) / (xs ! (i + 1) - xs ! i)))"

section \<open>Lemmas\<close>

lemma dist3_length3: "length3 (sub3 p q) = dist3 p q"
  using dist3_length[of q p] dist3_commute[of p q] by simp

lemma dist3_triangle: "dist3 p r \<le> dist3 p q + dist3 q r"
proof -
  have "sub3 p r = add_scaled (sub3 p q) 1 (sub3 q r)"
    by (cases p; cases q; cases r) (simp add: sub3_def add_scaled_def)
  then show ?thesis
    using length3_triangle[of "sub3 p q" 1 "sub3 q r"] by (simp flip: dist3_length3)
qed

text \<open>The path as the drone flies it: the point at an arc length.\<close>

definition path_point :: "abort_path \<Rightarrow> real \<Rightarrow> point3" where
  "path_point p s =
     (if s \<le> ap_horizontal p then add_scaled (ap_start p) s (ap_unit p)
      else add_scaled (ap_corner p) (s - ap_horizontal p) (0, 0, -1))"

definition good_path :: "abort_path \<Rightarrow> bool" where
  "good_path p \<longleftrightarrow> 0 \<le> ap_horizontal p \<and> 0 \<le> ap_vertical p \<and> length3 (ap_unit p) \<le> 1 \<and>
     (dot3 (ap_unit p) (ap_unit p) = 1 \<or> ap_unit p = (0, 0, 0)) \<and>
     add_scaled (ap_start p) (ap_horizontal p) (ap_unit p) = ap_corner p"

lemma length3_nonneg [simp]: "0 \<le> length3 v"
  by (simp add: length3_dot)

lemma abort_path_good: "good_path (abort_path_of mode start pad)"
proof -
  obtain x y z where start: "start = (x, y, z)" by (cases start)
  define p0 where "p0 = (x, y, max z 0)"
  define corner where "corner = (if mode = Abort_RTL then (fst pad, snd pad, max z 0) else p0)"
  define h where "h = length3 (sub3 corner p0)"
  define u where "u = (if h > 0 then map3 (\<lambda>c. c / h) (sub3 corner p0) else (0, 0, 0))"
  have p: "abort_path_of mode start pad =
    \<lparr>ap_start = p0, ap_corner = corner, ap_horizontal = h, ap_vertical = max z 0, ap_unit = u\<rparr>"
    by (simp add: abort_path_of_def start p0_def corner_def h_def u_def Let_def)
  have h: "h\<^sup>2 = dot3 (sub3 corner p0) (sub3 corner p0)" by (simp add: h_def length3_dot)
  show ?thesis
  proof (cases "h > 0")
    case True
    have "dot3 u u = dot3 (sub3 corner p0) (sub3 corner p0) / h\<^sup>2"
      using True by (cases "sub3 corner p0") (simp add: u_def dot3_def map3_def power2_eq_square add_divide_distrib)
    then have uu: "dot3 u u = 1" using True unfolding h[symmetric] by simp
    have "add_scaled p0 h u = corner"
      using True by (cases corner; cases p0) (simp add: u_def add_scaled_def map3_def sub3_def)
    then show ?thesis using uu True by (simp add: p good_path_def length3_dot)
  next
    case False
    then have "h = 0" by (simp add: h_def order.antisym)
    then have "sub3 corner p0 = (0, 0, 0)"
      using h by (cases "sub3 corner p0") (simp add: dot3_def add_nonneg_eq_0_iff sum_nonneg_eq_0_iff)
    then have "corner = p0" by (cases corner; cases p0) (simp add: sub3_def)
    then show ?thesis using \<open>h = 0\<close>
      by (cases p0) (simp add: p good_path_def u_def length3_def dot3_def add_scaled_def)
  qed
qed

text \<open>Along a line of unit direction the clipped projection is the nearest point of the stretch.\<close>

lemma distance_to_leg_minimal:
  assumes u: "dot3 u u = 1 \<or> u = (0, 0, 0)" and t: "lo \<le> t" "t \<le> hi"
  shows "distance_to_leg q c u lo hi \<le> dist3 q (add_scaled c t u)"
proof -
  define b where "b = dot3 (sub3 q c) u"
  have expand: "dot3 (sub3 q (add_scaled c w u)) (sub3 q (add_scaled c w u)) =
      dot3 (sub3 q c) (sub3 q c) - 2 * w * b + w\<^sup>2 * dot3 u u" for w
    unfolding b_def by (cases q; cases c; cases u)
      (simp add: dot3_def sub3_def add_scaled_def power2_eq_square algebra_simps)
  have "length3 (sub3 q (add_scaled c (clip b lo hi) u)) \<le> length3 (sub3 q (add_scaled c t u))"
  proof (cases "u = (0, 0, 0)")
    case True
    then show ?thesis by (cases c) (simp add: add_scaled_def)
  next
    case False
    then have uu: "dot3 u u = 1" using u by simp
    have "\<bar>clip b lo hi - b\<bar> \<le> \<bar>t - b\<bar>" using t by (auto simp: clip_def min_def max_def)
    then have "(clip b lo hi - b)\<^sup>2 \<le> (t - b)\<^sup>2" by (simp add: abs_le_square_iff)
    then show ?thesis
      unfolding length3_dot expand uu by (simp add: power2_eq_square algebra_simps)
  qed
  then show ?thesis by (simp add: distance_to_leg_def b_def dist3_length3)
qed

lemma stretch_distance_minimal:
  assumes p: "good_path p" and s: "slow \<le> s" "s \<le> fast"
  shows "\<exists>d. stretch_distance p (slow, fast) q = Some d \<and> d \<le> dist3 q (path_point p s)"
proof -
  let ?h = "ap_horizontal p"
  let ?d1 = "distance_to_leg q (ap_start p) (ap_unit p) (min slow ?h) (min fast ?h)"
  let ?d2 = "distance_to_leg q (ap_corner p) (0, 0, -1) (max slow ?h - ?h) (max fast ?h - ?h)"
  have u: "dot3 (ap_unit p) (ap_unit p) = 1 \<or> ap_unit p = (0, 0, 0)" using p by (simp add: good_path_def)
  have down: "dot3 (0, 0, -1) (0, 0, -1) = 1 \<or> (0, 0, -1) = (0, 0, 0 :: real)" by (simp add: dot3_def)
  show ?thesis
  proof (cases "s \<le> ?h")
    case True
    then have "?d1 \<le> dist3 q (path_point p s)"
      using s distance_to_leg_minimal[OF u, of "min slow ?h" s "min fast ?h" q "ap_start p"]
      by (simp add: path_point_def)
    then show ?thesis using True s by (auto simp: stretch_distance_def Let_def min_le_iff_disj)
  next
    case False
    then have "?d2 \<le> dist3 q (path_point p s)"
      using s distance_to_leg_minimal[OF down, of "max slow ?h - ?h" "s - ?h" "max fast ?h - ?h" q "ap_corner p"]
      by (simp add: path_point_def)
    then show ?thesis using False s by (auto simp: stretch_distance_def Let_def min_le_iff_disj)
  qed
qed

text \<open>The path is parameterised by its length.\<close>

lemma dist3_along: "dist3 (add_scaled c s u) (add_scaled c t u) = \<bar>s - t\<bar> * length3 u"
proof -
  have "dot3 (sub3 (add_scaled c s u) (add_scaled c t u)) (sub3 (add_scaled c s u) (add_scaled c t u)) = (s - t)\<^sup>2 * dot3 u u"
    by (cases c; cases u) (simp add: dot3_def sub3_def add_scaled_def power2_eq_square algebra_simps)
  then show ?thesis by (simp add: length3_dot real_sqrt_mult flip: dist3_length3)
qed

lemma path_point_lipschitz:
  assumes p: "good_path p"
  shows "dist3 (path_point p s) (path_point p t) \<le> \<bar>s - t\<bar>"
proof -
  let ?h = "ap_horizontal p"
  have down: "length3 (0, 0, -1) = 1" by (simp add: length3_def)
  have u: "0 \<le> length3 (ap_unit p)" "length3 (ap_unit p) \<le> 1" using p by (simp_all add: good_path_def)
  have corner: "ap_corner p = add_scaled (ap_start p) ?h (ap_unit p)" using p by (simp add: good_path_def)
  have zero: "add_scaled c 0 v = c" for c v by (cases c; cases v) (simp add: add_scaled_def)
  have mixed: "dist3 (path_point p s) (path_point p t) \<le> t - s" if "s \<le> ?h" "\<not> t \<le> ?h" for s t
  proof -
    have "dist3 (path_point p s) (ap_corner p) \<le> ?h - s"
      using that u by (simp add: path_point_def corner dist3_along mult_left_le)
    moreover have "dist3 (ap_corner p) (path_point p t) = t - ?h"
      using that dist3_along[of "ap_corner p" 0 "(0, 0, -1)" "t - ?h"] down by (simp add: path_point_def zero)
    ultimately show ?thesis using dist3_triangle[of "path_point p s" "path_point p t" "ap_corner p"] by linarith
  qed
  show ?thesis
  proof (cases "s \<le> ?h"; cases "t \<le> ?h")
    assume "s \<le> ?h" "t \<le> ?h"
    then show ?thesis using u by (simp add: path_point_def dist3_along mult_left_le)
  next
    assume "s \<le> ?h" "\<not> t \<le> ?h"
    then show ?thesis using mixed[of s t] by simp
  next
    assume "\<not> s \<le> ?h" "t \<le> ?h"
    then show ?thesis using mixed[of t s] by (simp add: dist3_commute)
  next
    assume "\<not> s \<le> ?h" "\<not> t \<le> ?h"
    then show ?thesis using dist3_along[of "ap_corner p" "s - ?h" "(0, 0, -1)" "t - ?h"] down by (simp add: path_point_def)
  qed
qed

text \<open>How fast the ends of the stretch move.\<close>

lemma along_path_lipschitz:
  assumes hs: "0 < hs" "hs \<le> v" and vr: "0 \<le> vr" "vr \<le> v" and st: "s \<le> t"
  shows "along_path h w hs vr t - along_path h w hs vr s \<le> v * (t - s)" and
    "along_path h w hs vr s \<le> along_path h w hs vr t"
proof -
  define g where "g x = (if x \<le> h / hs then hs * x else h + vr * (x - h / hs))" for x
  have turn: "hs * (h / hs) = h" using hs by simp
  have g: "g s \<le> g t \<and> g t - g s \<le> v * (t - s)"
  proof -
    have m: "a * (t - s) \<le> v * (t - s)" if "a \<le> v" for a using that st by (intro mult_right_mono) auto
    consider "t \<le> h / hs" | "s \<le> h / hs" "\<not> t \<le> h / hs" | "\<not> s \<le> h / hs" "\<not> t \<le> h / hs" using st by linarith
    then show ?thesis
    proof cases
      case 1
      then have "g t - g s = hs * (t - s)" using st by (simp add: g_def algebra_simps)
      then show ?thesis using m[of hs] hs st by (smt (verit) mult_nonneg_nonneg)
    next
      case 2
      then have eq: "g t - g s = hs * (h / hs - s) + vr * (t - h / hs)"
        using hs by (simp add: g_def turn algebra_simps)
      have "hs * (h / hs - s) \<le> v * (h / hs - s)" "vr * (t - h / hs) \<le> v * (t - h / hs)"
        "0 \<le> hs * (h / hs - s)" "0 \<le> vr * (t - h / hs)"
        using 2 hs vr by (auto intro!: mult_right_mono mult_nonneg_nonneg)
      moreover have "v * (h / hs - s) + v * (t - h / hs) = v * (t - s)" by (simp add: algebra_simps)
      ultimately show ?thesis using eq by linarith
    next
      case 3
      then have "g t - g s = vr * (t - s)" by (simp add: g_def algebra_simps)
      then show ?thesis using m[of vr] vr st by (smt (verit) mult_nonneg_nonneg)
    qed
  qed
  have "along_path h w hs vr x = min (g x) (h + w)" for x by (simp add: along_path_def g_def Let_def)
  moreover have "0 \<le> v * (t - s)" using hs st by simp
  ultimately show "along_path h w hs vr t - along_path h w hs vr s \<le> v * (t - s)"
    and "along_path h w hs vr s \<le> along_path h w hs vr t" using g by auto
qed

lemma fall_lipschitz:
  fixes a s t v m :: real
  assumes a: "0 \<le> a" and st: "0 \<le> s" "s \<le> t" and v: "1 / 2 * a * (s + t) \<le> v"
  shows "min (1 / 2 * a * t\<^sup>2) m - min (1 / 2 * a * s\<^sup>2) m \<le> v * (t - s)"
    and "min (1 / 2 * a * s\<^sup>2) m \<le> min (1 / 2 * a * t\<^sup>2) m"
proof -
  have "1 / 2 * a * t\<^sup>2 - 1 / 2 * a * s\<^sup>2 = 1 / 2 * a * (s + t) * (t - s)"
    by (simp add: power2_eq_square algebra_simps)
  also have "\<dots> \<le> v * (t - s)" using v st by (intro mult_right_mono) auto
  finally have 1: "1 / 2 * a * t\<^sup>2 - 1 / 2 * a * s\<^sup>2 \<le> v * (t - s)" .
  have 2: "1 / 2 * a * s\<^sup>2 \<le> 1 / 2 * a * t\<^sup>2" using a st by (intro mult_left_mono power_mono) auto
  have "0 \<le> 1 / 2 * a * (s + t)" using a st by simp
  then have "0 \<le> v * (t - s)" using v st by simp
  then show "min (1 / 2 * a * t\<^sup>2) m - min (1 / 2 * a * s\<^sup>2) m \<le> v * (t - s)" using 1 2 by auto
  show "min (1 / 2 * a * s\<^sup>2) m \<le> min (1 / 2 * a * t\<^sup>2) m" using 2 by auto
qed

lemmas abort_constants = ABORT_RTL_SPEED_RANGE_MS_def ABORT_DESCENT_RATE_RANGE_MS_def ABORT_FALL_ACCEL_RANGE_MS2_def

text \<open>Between a sample and an instant at most half a step away, neither end moves further than half a
  step at the speed allowed for.\<close>

lemma land_along: "along_path 0 w hs vr t = min (if t \<le> 0 then hs * t else vr * t) w"
  by (simp add: along_path_def)

lemma progress_lipschitz:
  assumes s: "0 \<le> s" "0 \<le> t" "\<bar>s - t\<bar> \<le> dt / 2" and dt: "0 < dt"
    and h: "0 \<le> h" "mode \<noteq> Abort_RTL \<Longrightarrow> h = 0"
  shows "\<bar>fst (abort_progress mode h w s) - fst (abort_progress mode h w t)\<bar> \<le> abort_speed mode dt s * (dt / 2)"
    and "\<bar>snd (abort_progress mode h w s) - snd (abort_progress mode h w t)\<bar> \<le> abort_speed mode dt s * (dt / 2)"
proof -
  let ?lo = "min s t" and ?hi = "max s t"
  have step: "?hi - ?lo \<le> dt / 2" "0 \<le> ?lo" "?lo \<le> ?hi" using s by (auto simp: min_def max_def abs_if split: if_splits)
  have bound: "\<bar>f s - f t\<bar> \<le> v * (dt / 2)"
    if "f ?hi - f ?lo \<le> v * (?hi - ?lo)" "f ?lo \<le> f ?hi" "0 \<le> v" for f :: "real \<Rightarrow> real" and v
  proof -
    have "v * (?hi - ?lo) \<le> v * (dt / 2)" using that(3) step(1) by (intro mult_left_mono) auto
    then show ?thesis using that(1,2) by (auto simp: min_def max_def split: if_splits)
  qed
  show "\<bar>fst (abort_progress mode h w s) - fst (abort_progress mode h w t)\<bar> \<le> abort_speed mode dt s * (dt / 2)"
    "\<bar>snd (abort_progress mode h w s) - snd (abort_progress mode h w t)\<bar> \<le> abort_speed mode dt s * (dt / 2)"
  proof (atomize(full), cases mode)
    case Abort_Estop
    let ?v = "981 / 100 * (s + dt)"
    have near: "?lo + ?hi \<le> 2 * (s + dt)" using s dt by (auto simp: min_def max_def)
    have gen: "1 / 2 * (981 / 200) * l \<le> ?v" "1 / 2 * (981 / 100) * l \<le> ?v" if "l \<le> 2 * (s + dt)" for l
      using that s(1) dt by (simp_all add: field_simps)
    have v1: "1 / 2 * (981 / 200) * (?lo + ?hi) \<le> ?v" "1 / 2 * (981 / 100) * (?lo + ?hi) \<le> ?v"
      using gen[OF near] by simp_all
    have v: "0 \<le> ?v" using s dt by simp
    note 1 = fall_lipschitz[of "981 / 200" ?lo ?hi ?v "h + w", OF _ step(2,3) v1(1)]
      and 2 = fall_lipschitz[of "981 / 100" ?lo ?hi ?v "h + w", OF _ step(2,3) v1(2)]
    have "\<bar>min (1 / 2 * (981 / 200) * s\<^sup>2) (h + w) - min (1 / 2 * (981 / 200) * t\<^sup>2) (h + w)\<bar> \<le> ?v * (dt / 2)"
      by (rule bound[of "\<lambda>x. min (1 / 2 * (981 / 200) * x\<^sup>2) (h + w)"]) (use 1 v in simp_all)
    moreover have "\<bar>min (1 / 2 * (981 / 100) * s\<^sup>2) (h + w) - min (1 / 2 * (981 / 100) * t\<^sup>2) (h + w)\<bar> \<le> ?v * (dt / 2)"
      by (rule bound[of "\<lambda>x. min (1 / 2 * (981 / 100) * x\<^sup>2) (h + w)"]) (use 2 v in simp_all)
    ultimately show "\<bar>fst (abort_progress mode h w s) - fst (abort_progress mode h w t)\<bar> \<le> abort_speed mode dt s * (dt / 2) \<and>
        \<bar>snd (abort_progress mode h w s) - snd (abort_progress mode h w t)\<bar> \<le> abort_speed mode dt s * (dt / 2)"
      by (simp add: Abort_Estop abort_progress_def abort_speed_def abort_constants)
  next
    case Abort_RTL
    have 1: "\<bar>along_path h w 1 (1 / 2) s - along_path h w 1 (1 / 2) t\<bar> \<le> 8 * (dt / 2)"
      by (rule bound) (use along_path_lipschitz[of 1 8 "1 / 2" ?lo ?hi h w] step in auto)
    have 2: "\<bar>along_path h w 8 (3 / 2) s - along_path h w 8 (3 / 2) t\<bar> \<le> 8 * (dt / 2)"
      by (rule bound) (use along_path_lipschitz[of 8 8 "3 / 2" ?lo ?hi h w] step in auto)
    show "\<bar>fst (abort_progress mode h w s) - fst (abort_progress mode h w t)\<bar> \<le> abort_speed mode dt s * (dt / 2) \<and>
        \<bar>snd (abort_progress mode h w s) - snd (abort_progress mode h w t)\<bar> \<le> abort_speed mode dt s * (dt / 2)"
      using 1 2 by (simp add: Abort_RTL abort_progress_def abort_speed_def abort_constants)
  next
    case Abort_Land
    have h0: "h = 0" using h Abort_Land by simp
    have same: "along_path 0 w hs vr x = along_path 0 w 1 vr x" if "0 \<le> x" for hs vr x
      using that by (cases "x = 0") (simp_all add: land_along)
    have half: "along_path 0 w 1 (1 / 2) x = min (x / 2) w" if "0 \<le> x" for x
      using that by (cases "x = 0") (simp_all add: land_along)
    have full: "along_path 0 w 1 (3 / 2) x = min (3 / 2 * x) w" if "0 \<le> x" for x
      using that by (cases "x = 0") (simp_all add: land_along)
    have 1: "\<bar>min (s / 2) w - min (t / 2) w\<bar> \<le> 3 / 2 * (dt / 2)" using s dt by (auto simp: min_def abs_if split: if_splits)
    have 2: "\<bar>min (3 / 2 * s) w - min (3 / 2 * t) w\<bar> \<le> 3 / 2 * (dt / 2)" using s dt by (auto simp: min_def abs_if split: if_splits)
    show "\<bar>fst (abort_progress mode h w s) - fst (abort_progress mode h w t)\<bar> \<le> abort_speed mode dt s * (dt / 2) \<and>
        \<bar>snd (abort_progress mode h w s) - snd (abort_progress mode h w t)\<bar> \<le> abort_speed mode dt s * (dt / 2)"
      using 1 2 s by (simp add: Abort_Land h0 abort_progress_def abort_speed_def abort_constants same[of _ 8] half full)
  qed
qed

lemma progress_ordered:
  assumes "0 \<le> t" and "0 \<le> h" and "0 \<le> w" and "mode \<noteq> Abort_RTL \<Longrightarrow> h = 0"
  shows "fst (abort_progress mode h w t) \<le> snd (abort_progress mode h w t)"
proof (cases mode)
  case Abort_Estop
  have "1 / 2 * (981 / 200) * t\<^sup>2 \<le> 1 / 2 * (981 / 100) * t\<^sup>2" by (intro mult_right_mono) auto
  then have "min (1 / 2 * (981 / 200) * t\<^sup>2) (h + w) \<le> min (1 / 2 * (981 / 100) * t\<^sup>2) (h + w)" by (rule min.mono) simp
  then show ?thesis by (simp add: Abort_Estop abort_progress_def abort_constants)
next
  case Abort_RTL
  have "t \<le> h + 3 / 2 * (t - h / 8)" using assms(1,2) by (simp add: field_simps)
  then show ?thesis using assms(1-3) Abort_RTL
    by (auto simp: abort_progress_def along_path_def abort_constants Let_def min_le_iff_disj)
next
  case Abort_Land
  then show ?thesis using assms
    by (cases "t = 0") (auto simp: abort_progress_def land_along abort_constants min_le_iff_disj)
qed

text \<open>A motion that is slow on both sides of an instant is slow across it.\<close>

definition moves_within :: "real \<Rightarrow> real set \<Rightarrow> (real \<Rightarrow> point3) \<Rightarrow> bool" where
  "moves_within v S q \<longleftrightarrow> (\<forall>a \<in> S. \<forall>b \<in> S. a \<le> b \<longrightarrow> dist3 (q a) (q b) \<le> v * (b - a))"

lemma dist3_self [simp]: "dist3 p p = 0"
  by (cases p) (simp add: dist3_def)

lemma moves_within_glue:
  assumes "moves_within v S q" and "moves_within v T q" and "c \<in> S" "c \<in> T"
    and "\<forall>a \<in> S. a \<le> c" and "\<forall>b \<in> T. c \<le> b"
  shows "moves_within v (S \<union> T) q"
  unfolding moves_within_def
proof (intro ballI impI)
  fix a b assume "a \<in> S \<union> T" "b \<in> S \<union> T" "a \<le> b"
  then consider "a \<in> S" "b \<in> S" | "a \<in> T" "b \<in> T" | "a \<in> S" "b \<in> T" | "a \<in> T" "b \<in> S" by blast
  then show "dist3 (q a) (q b) \<le> v * (b - a)"
  proof cases
    case 3
    have "dist3 (q a) (q c) \<le> v * (c - a)" "dist3 (q c) (q b) \<le> v * (b - c)"
      using assms 3 by (auto simp: moves_within_def)
    moreover have "v * (c - a) + v * (b - c) = v * (b - a)" by (simp add: algebra_simps)
    ultimately show ?thesis using dist3_triangle[of "q a" "q b" "q c"] by linarith
  next
    case 4
    then have "a = c \<and> b = c" using assms(5,6) \<open>a \<le> b\<close> by force
    then show ?thesis using assms(1,3) by (auto simp: moves_within_def)
  qed (use assms(1,2) \<open>a \<le> b\<close> in \<open>auto simp: moves_within_def\<close>)
qed

lemma moves_within_mono: "moves_within v S q \<Longrightarrow> T \<subseteq> S \<Longrightarrow> moves_within v T q"
  by (auto simp: moves_within_def)

lemma moves_within_const: "0 \<le> v \<Longrightarrow> \<forall>a \<in> S. q a = p \<Longrightarrow> moves_within v S q"
  by (simp add: moves_within_def)

text \<open>A track between waypoints in time order moves no faster than its fastest segment.\<close>

lemma segment_speed_le:
  assumes "i + 1 < length wps"
  shows "segment_speed (wps ! i) (wps ! (i + 1)) \<le> track_speed wps"
proof -
  have len: "i < length (map2 segment_speed wps (tl wps))" using assms by simp
  have "segment_speed (wps ! i) (wps ! (i + 1)) \<in> set (map2 segment_speed wps (tl wps))"
    using nth_mem[OF len] assms by (simp add: nth_tl)
  then show ?thesis using assms by (auto simp: track_speed_def)
qed

lemma segment_speed_nonneg: "0 \<le> segment_speed a b"
  by (simp add: segment_speed_def)

lemma track_speed_nonneg: "0 \<le> track_speed wps"
proof (cases "length wps > 1")
  case True
  then have "0 + 1 < length wps" by simp
  from segment_speed_le[OF this] show ?thesis using segment_speed_nonneg order_trans by blast
qed (simp add: track_speed_def)

lemma interp_between:
  assumes "documented_interp interp" and "xs \<noteq> []" "length ys = length xs" "sorted_wrt (<) xs"
    and "i + 1 < length xs" "xs ! i \<le> t" "t \<le> xs ! (i + 1)"
  shows "interp xs ys t = ys ! i + (ys ! (i + 1) - ys ! i) * (t - xs ! i) / (xs ! (i + 1) - xs ! i)"
  using assms unfolding documented_interp_def by blast

lemma track_on_segment:
  assumes interp: "documented_interp interp" and times: "sorted_wrt (<) (map w_time wps)"
    and i: "i + 1 < length wps" and t: "w_time (wps ! i) \<le> t" "t \<le> w_time (wps ! (i + 1))"
  shows "track_position interp wps t =
    add_scaled (track_position interp wps (w_time (wps ! i))) ((t - w_time (wps ! i)) / (w_time (wps ! (i + 1)) - w_time (wps ! i)))
      (w_x (wps ! (i + 1)) - w_x (wps ! i), w_y (wps ! (i + 1)) - w_y (wps ! i), - (w_z (wps ! (i + 1)) - w_z (wps ! i)))"
proof -
  have ne: "map w_time wps \<noteq> []" using i by auto
  have rule: "interp (map w_time wps) (map f wps) s = f (wps ! i) +
      (f (wps ! (i + 1)) - f (wps ! i)) * (s - w_time (wps ! i)) / (w_time (wps ! (i + 1)) - w_time (wps ! i))"
    if "w_time (wps ! i) \<le> s" "s \<le> w_time (wps ! (i + 1))" for f :: "waypoint \<Rightarrow> real" and s
    using interp_between[OF interp ne _ times, of "map f wps" i s] i that by simp
  have neg: "- ((a - b) * s / c) = s * (b - a) / c" for a b s c :: real
    by (metis minus_diff_eq minus_divide_left minus_mult_left mult.commute)
  show ?thesis
    using rule[OF t] rule[of "w_time (wps ! i)"] t
    by (simp add: track_position_def add_scaled_def Let_def neg)
qed

lemma track_moves_within:
  assumes interp: "documented_interp interp" and times: "sorted_wrt (<) (map w_time wps)" and ne: "wps \<noteq> []"
  shows "moves_within (track_speed wps) UNIV (track_position interp wps)"
proof -
  let ?q = "track_position interp wps" and ?v = "track_speed wps"
  have outside: "(t \<le> hd (map w_time wps) \<longrightarrow> interp (map w_time wps) (map f wps) t = hd (map f wps)) \<and>
      (last (map w_time wps) \<le> t \<longrightarrow> interp (map w_time wps) (map f wps) t = last (map f wps))"
    for f :: "waypoint \<Rightarrow> real" and t
    using interp times ne unfolding documented_interp_def by auto
  have before: "moves_within ?v {..w_time (wps ! 0)} ?q"
    by (rule moves_within_const[OF track_speed_nonneg, of _ _ "(w_x (hd wps), w_y (hd wps), - w_z (hd wps))"])
      (use outside ne in \<open>simp add: track_position_def hd_map hd_conv_nth Let_def\<close>)
  have after: "moves_within ?v {w_time (last wps)..} ?q"
    by (rule moves_within_const[OF track_speed_nonneg, of _ _ "(w_x (last wps), w_y (last wps), - w_z (last wps))"])
      (use outside ne in \<open>simp add: track_position_def last_map Let_def\<close>)
  have lt: "w_time (wps ! i) < w_time (wps ! (i + 1))" if "i + 1 < length wps" for i
    using sorted_wrt_nth_less[OF times, of i "i + 1"] that by simp
  have segment: "moves_within ?v {w_time (wps ! i)..w_time (wps ! (i + 1))} ?q" if i: "i + 1 < length wps" for i
    unfolding moves_within_def
  proof (intro ballI impI)
    fix a b assume ab: "a \<in> {w_time (wps ! i)..w_time (wps ! (i + 1))}" "b \<in> {w_time (wps ! i)..w_time (wps ! (i + 1))}" "a \<le> b"
    let ?s = "w_time (wps ! (i + 1)) - w_time (wps ! i)"
    let ?d = "(w_x (wps ! (i + 1)) - w_x (wps ! i), w_y (wps ! (i + 1)) - w_y (wps ! i), - (w_z (wps ! (i + 1)) - w_z (wps ! i)))"
    have s: "0 < ?s" using lt[OF i] by simp
    have "dist3 (?q a) (?q b) = \<bar>(a - w_time (wps ! i)) / ?s - (b - w_time (wps ! i)) / ?s\<bar> * length3 ?d"
      using ab by (simp add: track_on_segment[OF interp times i, of a] track_on_segment[OF interp times i, of b] dist3_along)
    also have "(a - w_time (wps ! i)) / ?s - (b - w_time (wps ! i)) / ?s = - (b - a) / ?s"
      by (simp flip: diff_divide_distrib)
    also have "\<bar>- (b - a) / ?s\<bar> * length3 ?d = (length3 ?d / ?s) * (b - a)" using s ab by simp
    also have "length3 ?d / ?s = segment_speed (wps ! i) (wps ! (i + 1))"
      using s by (simp add: segment_speed_def length3_def sub3_def xyz_def algebra_simps)
    also have "\<dots> * (b - a) \<le> ?v * (b - a)" using segment_speed_le[OF i] ab by (intro mult_right_mono) auto
    finally show "dist3 (?q a) (?q b) \<le> ?v * (b - a)" .
  qed
  have upto: "moves_within ?v {..w_time (wps ! i)} ?q" if "i < length wps" for i
    using that
  proof (induction i)
    case (Suc i)
    then have i: "i + 1 < length wps" by simp
    have less: "w_time (wps ! i) < w_time (wps ! (i + 1))" by (rule lt[OF i])
    have "moves_within ?v ({..w_time (wps ! i)} \<union> {w_time (wps ! i)..w_time (wps ! (i + 1))}) ?q"
      by (rule moves_within_glue[OF Suc.IH segment[OF i], of "w_time (wps ! i)"]) (use i less in simp_all)
    moreover have "{..w_time (wps ! i)} \<union> {w_time (wps ! i)..w_time (wps ! (i + 1))} = {..w_time (wps ! Suc i)}"
      using less by (force simp: set_eq_iff)
    ultimately show ?case by simp
  qed (use before in simp)
  have "UNIV = {..w_time (last wps)} \<union> {w_time (last wps)..}" by auto
  then show ?thesis
    using moves_within_glue[OF upto[of "length wps - 1"] after, of "w_time (last wps)"] ne
    by (simp add: last_conv_nth)
qed

text \<open>Every instant of the sweep is at most half a step away from a sample.\<close>

lemma sweep_times_near:
  assumes "0 < dt" and "0 \<le> t" and "t \<le> dur" and "sweep_times dur dt = Some ts"
  shows "\<exists>s \<in> set ts. 0 \<le> s \<and> \<bar>s - t\<bar> \<le> dt / 2"
proof (cases "dur = 0")
  case True
  then show ?thesis using assms by (auto simp: sweep_times_def)
next
  case False
  let ?k = "\<lfloor>t / dt + 1 / 2\<rfloor>"
  have le: "t / dt \<le> of_int \<lceil>dur / dt\<rceil>"
    using assms by (meson divide_right_mono le_of_int_ceiling less_imp_le order_trans)
  have k0: "0 \<le> ?k" using assms by simp
  have "of_int ?k \<le> t / dt + 1 / 2" by (rule of_int_floor_le)
  then have "real_of_int ?k < of_int (\<lceil>dur / dt\<rceil> + 1)" using le by (simp only: of_int_add of_int_1)
  then have "?k < \<lceil>dur / dt\<rceil> + 1" by (simp only: of_int_less_iff)
  then have "of_int ?k * dt \<in> set ts" using False assms k0 by (auto simp: sweep_times_def)
  moreover have "\<bar>of_int ?k - t / dt\<bar> \<le> 1 / 2" by linarith
  then have "\<bar>of_int ?k - t / dt\<bar> * dt \<le> 1 / 2 * dt" using assms(1) by (intro mult_right_mono) auto
  then have "\<bar>of_int ?k * dt - t\<bar> \<le> dt / 2"
    using assms(1) by (simp add: abs_mult_pos left_diff_distrib flip: abs_mult)
  ultimately show ?thesis using k0 assms(1) by (intro bexI[of _ "of_int ?k * dt"]) simp_all
qed

text \<open>A neighbour that is not reported stays clear of the occupied stretch at every sample.\<close>

lemma sort_key_Nil: "sort_key f xs = [] \<Longrightarrow> xs = []"
  by (metis set_sort set_empty)

lemma no_conflict_sample:
  assumes "neighbour_conflict mode p taus threshold dt i q v = None" and "tau \<in> set taus"
    and "stretch_distance p (abort_progress mode (ap_horizontal p) (ap_vertical p) tau) (q tau) = Some d"
  shows "threshold + (v + abort_speed mode dt tau) * dt / 2 \<le> d"
proof -
  let ?f = "\<lambda>tau. map_option (Pair tau)
    (stretch_distance p (abort_progress mode (ap_horizontal p) (ap_vertical p) tau) (q tau))"
  have "(tau, d) \<in> set (List.map_filter ?f taus)"
    by (rule map_filter_mem[OF assms(2)]) (simp add: assms(3))
  moreover have "filter (\<lambda>(tau, d). d < threshold + (v + abort_speed mode dt tau) * dt / 2) (List.map_filter ?f taus) = []"
    using assms(1) by (auto simp: neighbour_conflict_def Let_def dest: sort_key_Nil split: list.splits)
  ultimately show ?thesis by (auto simp: filter_empty_conv)
qed

lemma neighbour_moves_within:
  assumes interp: "documented_interp interp" and m: "neighbour_motion interp elapsed nb = Some (q, v)"
    and times: "\<And>wps. nb_waypoints nb = Some wps \<Longrightarrow> sorted_wrt (<) (map w_time wps)"
  shows "0 \<le> v" and "dist3 (q s) (q t) \<le> v * \<bar>s - t\<bar>"
proof -
  consider w ws where "nb_waypoints nb = Some (w # ws)" "v = track_speed (w # ws)"
      "q = (\<lambda>tau. track_position interp (w # ws) (show_instant elapsed tau))" |
      pos where "v = 0" "q = (\<lambda>tau. pos)"
    using m by (auto simp: neighbour_motion_def split: option.splits list.splits)
  then have "0 \<le> v \<and> dist3 (q s) (q t) \<le> v * \<bar>s - t\<bar>"
  proof cases
    case 1
    have ordered: "dist3 (q a) (q b) \<le> v * (b - a)" if "a \<le> b" for a b
    proof (cases elapsed)
      case None
      then show ?thesis using that 1 track_speed_nonneg by (simp add: show_instant_def)
    next
      case (Some e)
      have "moves_within v UNIV (track_position interp (w # ws))"
        using track_moves_within[OF interp times[OF 1(1)]] 1(2) by simp
      then have "dist3 (track_position interp (w # ws) (e + a)) (track_position interp (w # ws) (e + b)) \<le> v * ((e + b) - (e + a))"
        using that unfolding moves_within_def by (simp only: UNIV_I Ball_def)
      then show ?thesis using 1(3) Some by (simp add: show_instant_def)
    qed
    show ?thesis
      using ordered[of s t] ordered[of t s] 1(2) track_speed_nonneg dist3_commute[of "q s" "q t"]
      by (cases "s \<le> t") auto
  next
    case 2
    then show ?thesis by simp
  qed
  then show "0 \<le> v" "dist3 (q s) (q t) \<le> v * \<bar>s - t\<bar>" by blast+
qed

section \<open>Properties\<close>

text \<open>C11. A clear abort is clear between the samples too. When the check reports no conflict, then for
  every drone that was checked, at every instant of the modelled descent, wherever the aborting
  drone is between its slowest and its fastest modelled timing, the two are at least the threshold
  apart: the padding of the threshold makes up for the sampling. It holds in all three modes and
  for any interpolator that does what \<^verbatim>\<open>numpy.interp\<close> documents, on shows whose waypoints are in
  strict time order.\<close>
theorem clear_abort_keeps_distance:
  assumes interp: "documented_interp interp"
    and check: "abort_clearance interp mode_name start pad others elapsed threshold dt = Inr res" and clear: "ac_clear res"
    and other: "(i, nb) \<in> set others" and motion: "neighbour_motion interp elapsed nb = Some (q, v)"
    and times: "\<And>wps. nb_waypoints nb = Some wps \<Longrightarrow> sorted_wrt (<) (map w_time wps)"
    and dt: "0 < dt" and path: "p = abort_path_of (ac_mode res) start pad"
    and tau: "0 \<le> tau" "tau \<le> abort_horizon (ac_mode res) (ap_horizontal p) (ap_vertical p)"
    and s: "fst (abort_progress (ac_mode res) (ap_horizontal p) (ap_vertical p) tau) \<le> s"
      "s \<le> snd (abort_progress (ac_mode res) (ap_horizontal p) (ap_vertical p) tau)"
  shows "threshold \<le> dist3 (q tau) (path_point p s)"
proof -
  define m where "m = ac_mode res"
  let ?prog = "abort_progress m (ap_horizontal p) (ap_vertical p)"
  obtain taus where taus: "sweep_times (abort_horizon m (ap_horizontal p) (ap_vertical p)) dt = Some taus"
    and none: "neighbour_conflict m p taus threshold dt i q v = None"
  proof -
    let ?f = "\<lambda>m taus (i, nb). case neighbour_motion interp elapsed nb of None \<Rightarrow> None
        | Some (q, v) \<Rightarrow> neighbour_conflict m (abort_path_of m start pad) taus threshold dt i q v"
    obtain m0 taus where m0: "map_of ABORT_MODES mode_name = Some m0"
      and t: "sweep_times (abort_horizon m0 (ap_horizontal (abort_path_of m0 start pad)) (ap_vertical (abort_path_of m0 start pad))) dt = Some taus"
      using check by (auto simp: abort_clearance_def Let_def split: option.splits)
    have res: "ac_mode res = m0" "ac_clear res = (sort_key cf_min_distance_m (List.map_filter (?f m0 taus) others) = [])"
      using check by (auto simp: abort_clearance_def Let_def m0 t)
    have m: "m0 = m" using res(1) by (simp add: m_def)
    have nil: "List.map_filter (?f m taus) others = []"
      by (rule sort_key_Nil[of cf_min_distance_m]) (use clear res(2)[unfolded m] in simp)
    have p: "p = abort_path_of m start pad" using path by (simp add: m_def)
    have t: "sweep_times (abort_horizon m (ap_horizontal p) (ap_vertical p)) dt = Some taus"
      using t by (simp add: p m_def res(1))
    have "neighbour_conflict m p taus threshold dt i q v = None"
    proof (rule ccontr)
      assume "neighbour_conflict m p taus threshold dt i q v \<noteq> None"
      then obtain c where c: "neighbour_conflict m p taus threshold dt i q v = Some c" by blast
      from map_filter_mem[OF other, of "?f m taus" c] nil motion c show False by (simp add: p)
    qed
    with t show ?thesis by (rule that)
  qed
  have good: "good_path p" using abort_path_good path by simp
  then have hw: "0 \<le> ap_horizontal p" "0 \<le> ap_vertical p" by (simp_all add: good_path_def)
  have h0: "m \<noteq> Abort_RTL \<Longrightarrow> ap_horizontal p = 0"
    by (simp add: path m_def abort_path_of_def Let_def split: prod.splits)
      (simp add: sub3_def length3_def)
  obtain t where t: "t \<in> set taus" "0 \<le> t" "\<bar>t - tau\<bar> \<le> dt / 2"
    using sweep_times_near[OF dt tau(1) tau(2)[folded m_def] taus] by blast
  define w where "w = abort_speed m dt t * (dt / 2)"
  note move = progress_lipschitz[where mode = m and w = "ap_vertical p", OF t(2) tau(1) t(3) dt hw(1) h0, folded w_def]
  define s' where "s' = clip s (fst (?prog t)) (snd (?prog t))"
  have ordered: "fst (?prog t) \<le> snd (?prog t)" by (rule progress_ordered[OF t(2) hw h0])
  have s': "fst (?prog t) \<le> s'" "s' \<le> snd (?prog t)" "\<bar>s - s'\<bar> \<le> w"
    using ordered move s by (auto simp: s'_def clip_def m_def min_def max_def split: if_splits)
  obtain d where d: "stretch_distance p (?prog t) (q t) = Some d" "d \<le> dist3 (q t) (path_point p s')"
    using stretch_distance_minimal[OF good s'(1,2), of "q t"] by auto
  have "threshold + (v + abort_speed m dt t) * dt / 2 \<le> d" by (rule no_conflict_sample[OF none t(1) d(1)])
  then have "threshold + v * (dt / 2) + w \<le> dist3 (q t) (path_point p s')"
    using d(2) by (simp add: w_def algebra_simps add_divide_distrib)
  moreover have "dist3 (q t) (q tau) \<le> v * (dt / 2)"
    using neighbour_moves_within(2)[OF interp motion times, of t tau]
      mult_left_mono[OF t(3) neighbour_moves_within(1)[OF interp motion times]] by linarith
  moreover have "dist3 (path_point p s) (path_point p s') \<le> w"
    using path_point_lipschitz[OF good] s'(3) order_trans by blast
  moreover have "dist3 (q t) (path_point p s') \<le> dist3 (q t) (q tau) + (dist3 (q tau) (path_point p s) + dist3 (path_point p s) (path_point p s'))"
    using dist3_triangle[of "q t" "path_point p s'" "q tau"] dist3_triangle[of "q tau" "path_point p s'" "path_point p s"]
    by linarith
  ultimately show ?thesis by linarith
qed

text \<open>An interpolator that does what is documented, for the witnesses.\<close>

fun interp_scan :: "interpolator" where
  "interp_scan (x # y # xs) (a # b # ys) t =
     (if t \<le> x then a else if t \<le> y then a + (b - a) * (t - x) / (y - x) else interp_scan (y # xs) (b # ys) t)"
| "interp_scan xs (a # ys) t = a"
| "interp_scan xs ys t = 0"

lemma interp_scan_first: "ys \<noteq> [] \<Longrightarrow> length ys = length xs \<Longrightarrow> t \<le> hd xs \<Longrightarrow> interp_scan xs ys t = hd ys"
  by (induction xs ys t rule: interp_scan.induct) auto

lemma interp_scan_last:
  "xs \<noteq> [] \<Longrightarrow> length ys = length xs \<Longrightarrow> sorted_wrt (<) xs \<Longrightarrow> last xs \<le> t \<Longrightarrow> interp_scan xs ys t = last ys"
proof (induction xs ys t rule: interp_scan.induct)
  case (1 x y xs a b ys t)
  have "x < last (y # xs)" "y \<le> last (y # xs)"
    using "1.prems"(3) by (auto simp: last_in_set less_imp_le)
  then have "x < t" "y \<le> t" using "1.prems"(4) by simp_all
  show ?case
  proof (cases "t \<le> y")
    case True
    then have ly: "last (y # xs) = y" using \<open>y \<le> last (y # xs)\<close> "1.prems"(4) by simp
    have "xs = []"
    proof (rule ccontr)
      assume "xs \<noteq> []"
      then have "y < last xs" using "1.prems"(3) last_in_set[of xs] by auto
      then show False using ly \<open>xs \<noteq> []\<close> by simp
    qed
    then show ?thesis using True \<open>x < t\<close> \<open>y \<le> t\<close> "1.prems" by simp
  next
    case False
    then show ?thesis using "1.IH" \<open>x < t\<close> "1.prems" by simp
  qed
qed auto

lemma interp_scan_between:
  "length ys = length xs \<Longrightarrow> sorted_wrt (<) xs \<Longrightarrow> i + 1 < length xs \<Longrightarrow> xs ! i \<le> t \<Longrightarrow> t \<le> xs ! (i + 1) \<Longrightarrow>
   interp_scan xs ys t = ys ! i + (ys ! (i + 1) - ys ! i) * (t - xs ! i) / (xs ! (i + 1) - xs ! i)"
proof (induction xs ys t arbitrary: i rule: interp_scan.induct)
  case (1 x y xs a b ys t)
  show ?case
  proof (cases i)
    case 0
    then show ?thesis using "1.prems" by auto
  next
    case (Suc j)
    have "y \<le> (y # xs) ! j" using "1.prems"(2,3) Suc by (cases j) (auto simp: less_imp_le)
    then have y: "y \<le> t" "x < t" using "1.prems" Suc by auto
    have IH: "interp_scan (y # xs) (b # ys) t = (b # ys) ! j + ((b # ys) ! (j + 1) - (b # ys) ! j) *
        (t - (y # xs) ! j) / ((y # xs) ! (j + 1) - (y # xs) ! j)" if "\<not> t \<le> y"
      using that y "1.prems" Suc by (intro "1.IH") auto
    show ?thesis
    proof (cases "t \<le> y")
      case True
      then have t: "t = y" using y by simp
      have "j = 0"
      proof (rule ccontr)
        assume "j \<noteq> 0"
        then have "y < (y # xs) ! j" using "1.prems"(2,3) Suc by (cases j) auto
        then show False using "1.prems"(4) Suc t by simp
      qed
      then show ?thesis using t y(2) "1.prems"(2) Suc by simp
    next
      case False
      then show ?thesis using IH y Suc by simp
    qed
  qed
qed auto

lemma interp_scan_documented: "documented_interp interp_scan"
  unfolding documented_interp_def
  using interp_scan_first interp_scan_last interp_scan_between
  by (metis length_0_conv)

definition flying_neighbour :: neighbour where
  "flying_neighbour = \<lparr>nb_waypoints = Some [waypoint_at 0 (-20), waypoint_at 10 (-30)], nb_position = None\<rparr>"

lemma clear_abort_keeps_distance_witness:
  "\<exists>res. abort_clearance interp_scan ''land'' (0, 0, 0) (0, 0) [(7, flying_neighbour)] (Some 1) 2 (1 / 10) = Inr res \<and>
     2 \<le> dist3 (track_position interp_scan [waypoint_at 0 (-20), waypoint_at 10 (-30)] 1)
       (path_point (abort_path_of Abort_Land (0, 0, 0) (0, 0)) 0)"
proof -
  let ?wps = "[waypoint_at 0 (-20), waypoint_at 10 (-30)]"
  let ?q = "\<lambda>tau. track_position interp_scan ?wps (show_instant (Some 1) tau)"
  define p where "p = abort_path_of Abort_Land (0, 0, 0) (0, 0)"
  have p: "ap_horizontal p = 0" "ap_vertical p = 0" "ap_start p = (0, 0, 0)" "ap_corner p = (0, 0, 0)" "ap_unit p = (0, 0, 0)"
    by (simp_all add: p_def abort_path_of_def length3_def sub3_def Let_def)
  have motion: "neighbour_motion interp_scan (Some 1) flying_neighbour = Some (?q, track_speed ?wps)"
    by (simp add: neighbour_motion_def flying_neighbour_def)
  have speed: "track_speed ?wps = 1"
    by (simp add: track_speed_def segment_speed_def waypoint_at_def xyz_def sub3_def length3_def)
  have pos: "?q 0 = (0, 0, 21)" by (simp add: track_position_def show_instant_def waypoint_at_def)
  have taus: "sweep_times (abort_horizon Abort_Land (ap_horizontal p) (ap_vertical p)) (1 / 10) = Some [0]"
    by (simp add: p sweep_times_def abort_horizon_def)
  have prog: "abort_progress Abort_Land (ap_horizontal p) (ap_vertical p) 0 = (0, 0)"
    by (simp add: p abort_progress_def along_path_def)
  have dist: "stretch_distance p (0, 0) (0, 0, 21) = Some 21"
    by (simp add: p stretch_distance_def distance_to_leg_def clip_def dot3_def sub3_def add_scaled_def length3_def)
  have none: "neighbour_conflict Abort_Land p [0] 2 (1 / 10) 7 ?q (track_speed ?wps) = None"
    unfolding neighbour_conflict_def
    by (simp add: prog pos dist speed List.map_filter_simps abort_speed_def abort_constants)
  obtain res where res: "abort_clearance interp_scan ''land'' (0, 0, 0) (0, 0) [(7, flying_neighbour)] (Some 1) 2 (1 / 10) = Inr res"
      "ac_clear res" "ac_mode res = Abort_Land"
    unfolding abort_clearance_def
    by (simp add: ABORT_MODES_def motion none taus List.map_filter_simps flip: p_def)
  have "2 \<le> dist3 (?q 0) (path_point p 0)"
    by (rule clear_abort_keeps_distance[OF interp_scan_documented res(1,2) _ motion, of 7])
      (use res(3) prog p in \<open>simp_all add: abort_horizon_def flying_neighbour_def waypoint_at_def flip: p_def\<close>)
  then show ?thesis using res(1) by (simp add: p_def show_instant_def)
qed
end
