(* ===== verification/Staging.thy ===== *)
theory Staging
  imports Mission Signing
begin

text \<open>
  Staging a show on the fleet, in \<^verbatim>\<open>packages/tara-gcs/tara_gcs/drone_manager.py\<close>: the telemetry of a
  drone, the remap of trajectory slots to healthy drones, the compilation and upload of one
  mission per drone, the launch gate, the mission status and the placement check. A loaded
  trajectory is a choreography; SHA-256 is a parameter; what a transfer to a drone ends in is an
  argument. The directory of local mission files is the field \<open>dm_files\<close>.
\<close>

section \<open>The fleet as the manager sees it\<close>

record vehicle =
  vt_connected :: bool
  vt_armed :: bool
  vt_flight_mode :: "string option"
  vt_fleet :: point3
  vt_local :: point3
  vt_last_heartbeat :: "real option"
  vt_landed_state :: "string option"
  vt_landed_state_at :: "real option"
  vt_position_at :: "real option"
  vt_battery_percent :: real
  vt_satellites :: int
  vt_home :: "real \<times> real"
  vt_aborted :: bool
  vt_planned :: "point3 option"

type_synonym fleet = "(int, vehicle) dict"

definition PAD_GRID :: "(real \<times> real) list" where
  "PAD_GRID = (case launch_grid MAX_FLEET_SIZE DEFAULT_LIMITS None of Inl e \<Rightarrow> [] | Inr g \<Rightarrow> g)"

text \<open>\<^const>\<open>None\<close> is the \<^verbatim>\<open>ValueError\<close> outside the supported fleet.\<close>

definition pad_offset :: "int \<Rightarrow> (real \<times> real) option" where
  "pad_offset i = (if 0 \<le> i \<and> i < MAX_FLEET_SIZE then Some (PAD_GRID ! nat i) else None)"

section \<open>Slots and drones\<close>

definition healthy :: "vehicle \<Rightarrow> bool" where
  "healthy t \<longleftrightarrow> vt_connected t \<and> vt_battery_percent t > 20 \<and> vt_satellites t \<ge> 6 \<and> \<not> vt_aborted t"

definition healthy_ids :: "fleet \<Rightarrow> int list" where
  "healthy_ids tel = sort (map fst (filter (\<lambda>(i, t). healthy t) tel))"

definition remap_trajectory_to_healthy_drones :: "fleet \<Rightarrow> choreography \<Rightarrow> choreography" where
  "remap_trajectory_to_healthy_drones tel traj =
     map (\<lambda>(drone, slot). (drone, the (map_of traj slot))) (zip (healthy_ids tel) (sort (map fst traj)))"

section \<open>Uploading\<close>

datatype upload_status = PENDING | UPLOADING | VERIFIED | MISMATCH | FAILED

fun upload_status_text :: "upload_status \<Rightarrow> string" where
  "upload_status_text PENDING = ''PENDING''"
| "upload_status_text UPLOADING = ''UPLOADING''"
| "upload_status_text VERIFIED = ''VERIFIED''"
| "upload_status_text MISMATCH = ''MISMATCH''"
| "upload_status_text FAILED = ''FAILED''"

record upload_entry =
  ue_status :: upload_status
  ue_bytes :: nat
  ue_crc32 :: int
  ue_msg :: string

record staged_show =
  sg_show_id :: bytes
  sg_trajectory :: choreography
  sg_drones :: "(int, upload_entry) dict"
  sg_excluded :: "(int, string) dict"

record staging =
  dm_telemetry :: fleet
  dm_active :: "choreography option"
  dm_staged :: "staged_show option"
  dm_files :: "(int, bytes) dict"

datatype stage_error = Mission_Refused mission_error | No_Such_Pad int

text \<open>The missions of an assignment, in its order; the first that cannot be compiled ends the upload.\<close>

fun compile_all :: "bytes \<Rightarrow> choreography \<Rightarrow> stage_error + (int \<times> bytes) list" where
  "compile_all show_id [] = Inr []"
| "compile_all show_id ((drone, wps) # rest) =
     (case pad_offset drone of None \<Rightarrow> Inl (No_Such_Pad drone)
      | Some origin \<Rightarrow>
          (case compile_mission wps drone show_id origin of Inl e \<Rightarrow> Inl (Mission_Refused e)
           | Inr blob \<Rightarrow>
               (case compile_all show_id rest of Inl e \<Rightarrow> Inl e | Inr blobs \<Rightarrow> Inr ((drone, blob) # blobs))))"

definition pending_entry :: "bytes \<Rightarrow> upload_entry" where
  "pending_entry blob =
     \<lparr>ue_status = PENDING, ue_bytes = length blob, ue_crc32 = mission_crc32 blob, ue_msg = ''''\<rparr>"

definition excluded_from :: "fleet \<Rightarrow> choreography \<Rightarrow> (int, string) dict" where
  "excluded_from tel assignment =
     map (\<lambda>(i, t). (i, if vt_connected t then ''no trajectory slot (unhealthy, or surplus to the show)''
                       else ''disconnected''))
       (filter (\<lambda>(i, t). i \<notin> fst ` set assignment) tel)"

definition stage_show :: "(bytes \<Rightarrow> bytes) \<Rightarrow> choreography \<Rightarrow> staging \<Rightarrow> stage_error + staging" where
  "stage_show sha256 traj m =
     (case compute_show_id sha256 (AlreadyShow traj) of Inl e \<Rightarrow> Inl (Mission_Refused e)
      | Inr show_id \<Rightarrow>
          let assignment = remap_trajectory_to_healthy_drones (dm_telemetry m) traj in
          (case compile_all show_id assignment of Inl e \<Rightarrow> Inl e
           | Inr blobs \<Rightarrow>
               Inr (m\<lparr>dm_files := blobs,
                 dm_staged := Some \<lparr>sg_show_id = show_id, sg_trajectory = assignment,
                   sg_drones = map (\<lambda>(i, blob). (i, pending_entry blob)) blobs,
                   sg_excluded = excluded_from (dm_telemetry m) assignment\<rparr>\<rparr>)))"

text \<open>How a transfer ends: the drone's answer to the comparison of its copy, or an exception.\<close>

datatype transfer = Identical bool | Transfer_Error string

definition transfer_outcome :: "transfer \<Rightarrow> upload_status \<times> string" where
  "transfer_outcome r =
     (case r of
        Transfer_Error text \<Rightarrow> (FAILED, text)
      | Identical b \<Rightarrow>
          if b then (VERIFIED, ''Drone-reported CRC-32 matches the compiled mission.'')
          else (MISMATCH, ''Drone's stored copy fails the CRC-32 comparison.''))"

text \<open>A write to the entry of a drone in the staged show, which is the one its upload belongs to.\<close>

definition set_entry :: "int \<Rightarrow> upload_status \<times> string option \<Rightarrow> staging \<Rightarrow> staging" where
  "set_entry drone upd m =
     m\<lparr>dm_staged := map_option (\<lambda>s. s\<lparr>sg_drones := map (\<lambda>(i, e).
         (i, if i = drone then e\<lparr>ue_status := fst upd, ue_msg := (case snd upd of None \<Rightarrow> ue_msg e | Some t \<Rightarrow> t)\<rparr> else e))
       (sg_drones s)\<rparr>) (dm_staged m)\<rparr>"

definition begin_upload :: "int \<Rightarrow> staging \<Rightarrow> staging" where
  "begin_upload drone = set_entry drone (UPLOADING, None)"

definition finish_upload :: "int \<Rightarrow> transfer \<Rightarrow> staging \<Rightarrow> staging" where
  "finish_upload drone r = (case transfer_outcome r of (st, text) \<Rightarrow> set_entry drone (st, Some text))"

definition upload_mission :: "int \<Rightarrow> transfer \<Rightarrow> staging \<Rightarrow> staging" where
  "upload_mission drone r m = finish_upload drone r (begin_upload drone m)"

definition upload_show ::
  "(bytes \<Rightarrow> bytes) \<Rightarrow> choreography \<Rightarrow> (int \<Rightarrow> transfer) \<Rightarrow> staging \<Rightarrow> stage_error + staging"
where
  "upload_show sha256 traj transfers m =
     (case stage_show sha256 traj m of Inl e \<Rightarrow> Inl e
      | Inr m' \<Rightarrow> Inr (foldl (\<lambda>m drone. upload_mission drone (transfers drone) m) m' (map fst (dm_files m'))))"

section \<open>The launch gate\<close>

record gate =
  gt_ok :: bool
  gt_reason :: string
  gt_armable :: "int list"
  gt_problems :: "string list"

datatype gate_verdict = Armable | Problem string | Left_Out

definition gate_drone :: "staged_show \<Rightarrow> int \<times> vehicle \<Rightarrow> gate_verdict" where
  "gate_drone staged it =
     (case it of (i, t) \<Rightarrow>
        (case map_of (sg_drones staged) i of
           None \<Rightarrow>
             if vt_connected t \<and> map_of (sg_excluded staged) i = None
             then Problem (''drone '' @ py_str i @ '' connected after the upload and holds no mission'') else Left_Out
         | Some e \<Rightarrow>
             if \<not> vt_connected t then Problem (''drone '' @ py_str i @ '' holds a mission but is disconnected'')
             else if ue_status e \<noteq> VERIFIED
             then Problem (''drone '' @ py_str i @ '' mission '' @ upload_status_text (ue_status e))
             else Armable))"

definition problem_of :: "gate_verdict \<Rightarrow> string option" where
  "problem_of v = (case v of Problem p \<Rightarrow> Some p | _ \<Rightarrow> None)"

definition stale_problems :: "(bytes \<Rightarrow> bytes) \<Rightarrow> choreography option \<Rightarrow> staged_show \<Rightarrow> string list" where
  "stale_problems sha256 active staged =
     (case active of None \<Rightarrow> []
      | Some traj \<Rightarrow>
          if compute_show_id sha256 (AlreadyShow traj) = Inr (sg_show_id staged) then []
          else [''the loaded trajectory is not the show uploaded to the fleet '' @ EM_DASH @ '' upload it again''])"

definition refusal :: "string list \<Rightarrow> string" where
  "refusal problems =
     ''Arming refused: '' @ py_join ''; '' (take 5 problems) @
     (if length problems > 5 then '' (+'' @ py_str (int (length problems) - 5) @ '' more)'' else '''') @ ''.''"

definition launch_gate :: "(bytes \<Rightarrow> bytes) \<Rightarrow> staging \<Rightarrow> gate" where
  "launch_gate sha256 m =
     (case dm_staged m of
        None \<Rightarrow>
          let reason = ''No show has been uploaded to the fleet. Upload it (POST /api/upload-mission) before arming.''
          in \<lparr>gt_ok = False, gt_reason = reason, gt_armable = [], gt_problems = [reason]\<rparr>
      | Some staged \<Rightarrow>
          let fleet = sort_key fst (dm_telemetry m);
              problems = stale_problems sha256 (dm_active m) staged @
                List.map_filter (\<lambda>it. problem_of (gate_drone staged it)) fleet @
                (if sg_drones staged = [] then [''no drone was assigned a mission''] else [])
          in \<lparr>gt_ok = (problems = []), gt_reason = (if problems = [] then '''' else refusal problems),
              gt_armable = map fst (filter (\<lambda>it. gate_drone staged it = Armable) fleet), gt_problems = problems\<rparr>)"

record mission_status =
  ms_show_id :: string
  ms_assigned_count :: nat
  ms_verified_count :: nat
  ms_all_verified :: bool
  ms_drones :: "(string, upload_entry) dict"
  ms_excluded :: "(string, string) dict"

definition mission_status_of :: "staged_show \<Rightarrow> mission_status" where
  "mission_status_of staged =
     (let verified = length (filter (\<lambda>(i, e). ue_status e = VERIFIED) (sg_drones staged)) in
      \<lparr>ms_show_id = hexdigest (sg_show_id staged), ms_assigned_count = length (sg_drones staged),
       ms_verified_count = verified,
       ms_all_verified = (sg_drones staged \<noteq> [] \<and> verified = length (sg_drones staged)),
       ms_drones = map (\<lambda>(i, e). (py_str i, e)) (sort_key fst (sg_drones staged)),
       ms_excluded = map (\<lambda>(i, w). (py_str i, w)) (sort_key fst (sg_excluded staged))\<rparr>)"

text \<open>\<^verbatim>\<open>mission_status\<close>: the gate, and the summary when a show is staged.\<close>

definition mission_status :: "(bytes \<Rightarrow> bytes) \<Rightarrow> staging \<Rightarrow> gate \<times> mission_status option" where
  "mission_status sha256 m = (launch_gate sha256 m, map_option mission_status_of (dm_staged m))"

section \<open>Placement before launch\<close>

datatype placement = Not_Connected | Placed bool point3 point3 real

text \<open>Distance error, in the fleet frame with altitude up; drones without waypoints are left out.\<close>

definition expected_start :: "waypoint \<Rightarrow> point3" where
  "expected_start wp = (w_x wp, w_y wp, - w_z wp)"

definition placement_of :: "fleet \<Rightarrow> real \<Rightarrow> int \<Rightarrow> waypoint \<Rightarrow> placement" where
  "placement_of tel tol drone wp =
     (case map_of tel drone of None \<Rightarrow> Not_Connected
      | Some t \<Rightarrow>
          if \<not> vt_connected t then Not_Connected
          else let d = dist3 (vt_fleet t) (expected_start wp) in
            Placed (d \<le> tol) (vt_fleet t) (expected_start wp) (round_to 2 d))"

definition placement_ok :: "placement \<Rightarrow> bool" where
  "placement_ok p = (case p of Not_Connected \<Rightarrow> False | Placed ok cur expd err \<Rightarrow> ok)"

definition verify_launch_geometry :: "fleet \<Rightarrow> choreography \<Rightarrow> real \<Rightarrow> bool \<times> (string, placement) dict" where
  "verify_launch_geometry tel traj tol =
     (let results = List.map_filter (\<lambda>(drone, wps). case wps of [] \<Rightarrow> None
            | wp # _ \<Rightarrow> Some (py_str drone, placement_of tel tol drone wp))
          (remap_trajectory_to_healthy_drones tel traj)
      in (list_all (\<lambda>(k, p). placement_ok p) results, results))"

section \<open>Lemmas\<close>

lemma healthy_ids_distinct: "dict_ok tel \<Longrightarrow> distinct (healthy_ids tel)"
  by (simp add: healthy_ids_def dict_ok_def distinct_map_filter)

lemma healthy_ids_mem:
  assumes "dict_ok tel" and "i \<in> set (healthy_ids tel)"
  shows "\<exists>t. map_of tel i = Some t \<and> healthy t"
  using assms by (auto simp: healthy_ids_def dict_ok_mem)

lemma remap_ids: "map fst (remap_trajectory_to_healthy_drones tel traj) =
    take (min (length (healthy_ids tel)) (length traj)) (healthy_ids tel)"
  by (simp add: remap_trajectory_to_healthy_drones_def split_def zip_map_fst_snd map_fst_zip_take o_def)

lemma remap_distinct:
  assumes "dict_ok tel"
  shows "distinct (map fst (remap_trajectory_to_healthy_drones tel traj))"
  unfolding remap_ids by (intro distinct_take healthy_ids_distinct assms)

lemma remap_mem:
  assumes "(d, wps) \<in> set (remap_trajectory_to_healthy_drones tel traj)"
  shows "\<exists>k. k < length (healthy_ids tel) \<and> k < length traj \<and> healthy_ids tel ! k = d \<and>
    wps = the (map_of traj (sort (map fst traj) ! k))"
  using assms by (force simp: remap_trajectory_to_healthy_drones_def in_set_zip)

lemma compile_all_Inr:
  assumes "compile_all sid asg = Inr blobs"
  shows "map fst blobs = map fst asg" and
    "(d, blob) \<in> set blobs \<Longrightarrow> \<exists>wps origin. (d, wps) \<in> set asg \<and> pad_offset d = Some origin \<and>
      compile_mission wps d sid origin = Inr blob"
  using assms
  by (induction sid asg arbitrary: blobs rule: compile_all.induct)
    (fastforce split: option.splits sum.splits)+

text \<open>Uploads touch the status and the message of their own entry only.\<close>

lemma upload_mission_frame [simp]:
  "dm_files (upload_mission d r m) = dm_files m" "dm_telemetry (upload_mission d r m) = dm_telemetry m"
  "dm_active (upload_mission d r m) = dm_active m"
  by (simp_all add: upload_mission_def finish_upload_def begin_upload_def set_entry_def split: prod.split)

definition entry_of :: "staging \<Rightarrow> int \<Rightarrow> upload_entry option" where
  "entry_of m d = (case dm_staged m of None \<Rightarrow> None | Some s \<Rightarrow> map_of (sg_drones s) d)"

lemma map_of_map_pair: "map_of (map (\<lambda>(i, e). (i, f i e)) d) k = map_option (f k) (map_of d k)"
  by (induction d) auto

lemma set_entry_entry: "entry_of (set_entry d u m) k = map_option (\<lambda>e. if k = d
    then e\<lparr>ue_status := fst u, ue_msg := (case snd u of None \<Rightarrow> ue_msg e | Some t \<Rightarrow> t)\<rparr> else e) (entry_of m k)"
  by (simp add: entry_of_def set_entry_def map_of_map_pair split: option.split)

lemma upload_mission_status:
  "map_option ue_status (entry_of (upload_mission d r m) k) =
    (if k = d then map_option (\<lambda>_. fst (transfer_outcome r)) (entry_of m k) else map_option ue_status (entry_of m k))"
  by (simp add: upload_mission_def finish_upload_def begin_upload_def set_entry_entry option.map_comp o_def split: prod.split)

lemma uploads_status:
  "map_option ue_status (entry_of (foldl (\<lambda>m d. upload_mission d (transfers d) m) m ds) k) =
    (if k \<in> set ds then map_option (\<lambda>_. fst (transfer_outcome (transfers k))) (entry_of m k)
     else map_option ue_status (entry_of m k))"
proof (induction ds arbitrary: m)
  case (Cons d ds)
  have "map_option (\<lambda>_. x) (entry_of (upload_mission d r m) k) = map_option (\<lambda>_. x) (entry_of m k)" for r and x :: upload_status
    by (simp add: upload_mission_def finish_upload_def begin_upload_def set_entry_entry option.map_comp o_def split: prod.split)
  then show ?case using Cons by (auto simp: upload_mission_status)
qed simp

lemma uploads_frame:
  "dm_files (foldl (\<lambda>m d. upload_mission d (transfers d) m) m ds) = dm_files m"
  "dm_telemetry (foldl (\<lambda>m d. upload_mission d (transfers d) m) m ds) = dm_telemetry m"
  by (induction ds arbitrary: m) auto

lemma upload_mission_show_id:
  "map_option sg_show_id (dm_staged (upload_mission d r m)) = map_option sg_show_id (dm_staged m)"
  by (cases "dm_staged m")
    (auto simp: upload_mission_def finish_upload_def begin_upload_def set_entry_def split: prod.split)

lemma uploads_show_id:
  "map_option sg_show_id (dm_staged (foldl (\<lambda>m d. upload_mission d (transfers d) m) m ds)) = map_option sg_show_id (dm_staged m)"
  by (induction ds arbitrary: m) (auto simp: upload_mission_show_id)

text \<open>The gate lets a drone arm only with a verified entry.\<close>

lemma armable_drone:
  assumes "d \<in> set (gt_armable (launch_gate sha m))" and "dict_ok (dm_telemetry m)"
  shows "\<exists>t e. map_of (dm_telemetry m) d = Some t \<and> vt_connected t \<and> entry_of m d = Some e \<and> ue_status e = VERIFIED"
  using assms
  by (auto simp: launch_gate_def gate_drone_def entry_of_def dict_ok_mem Let_def split: option.splits if_splits)

text \<open>An open gate accounts for every connected drone: it may arm, or the upload left it out.\<close>

lemma open_gate_accounts_for_fleet:
  assumes "gt_ok (launch_gate sha m)" and "(i, t) \<in> set (dm_telemetry m)" and "vt_connected t"
  shows "i \<in> set (gt_armable (launch_gate sha m)) \<or>
    (\<exists>s. dm_staged m = Some s \<and> map_of (sg_excluded s) i \<noteq> None)"
proof (cases "dm_staged m")
  case (Some s)
  have none: "problem_of (gate_drone s it) = None" if "it \<in> set (dm_telemetry m)" for it
  proof (rule ccontr)
    assume "problem_of (gate_drone s it) \<noteq> None"
    then obtain p where "problem_of (gate_drone s it) = Some p" by blast
    from map_filter_mem[of it "sort_key fst (dm_telemetry m)" "\<lambda>it. problem_of (gate_drone s it)" p] this that
    show False using assms(1) Some by (auto simp: launch_gate_def Let_def)
  qed
  show ?thesis
    using none[OF assms(2)] assms(2,3) Some
    by (cases "gate_drone s (i, t)")
      (force simp: launch_gate_def problem_of_def gate_drone_def Let_def split: option.splits if_splits)+
qed (use assms in \<open>simp add: launch_gate_def Let_def\<close>)

text \<open>A drone that was known but disconnected at the upload does not block the launch when it
  connects afterwards.\<close>

lemma late_connection_does_not_block:
  assumes "map_of (sg_excluded s) i \<noteq> None" and "map_of (sg_drones s) i = None"
  shows "gate_drone s (i, t) = Left_Out"
  using assms by (auto simp: gate_drone_def)

section \<open>Properties\<close>

text \<open>C18. From a show to the drone that may arm. After an upload, whatever the telemetry and the
  loaded trajectory have become since, a drone the launch gate lets arm is connected, was healthy
  at the upload, and confirmed its copy of its own mission file; the file decodes to a mission
  addressed to this drone and to the uploaded show, and its waypoints are the ones of the slot of
  the same rank (the \<open>k\<close>-th healthy drone flies the \<open>k\<close>-th slot), in the drone's own pad frame, to
  half a centimetre and half a millisecond.\<close>
theorem armable_drone_holds_its_slot:
  assumes tel: "dict_ok (dm_telemetry m)" "dict_ok tel2"
    and up: "upload_show sha256 traj transfers m = Inr m'"
    and d: "d \<in> set (gt_armable (launch_gate sha256 (m'\<lparr>dm_telemetry := tel2, dm_active := active2\<rparr>)))"
  shows "\<exists>k blob origin h ws. transfers d = Identical True \<and>
    (\<exists>t. map_of tel2 d = Some t \<and> vt_connected t) \<and> (\<exists>t. map_of (dm_telemetry m) d = Some t \<and> healthy t) \<and>
    k < length (healthy_ids (dm_telemetry m)) \<and> k < length traj \<and> healthy_ids (dm_telemetry m) ! k = d \<and>
    map_of (dm_files m') d = Some blob \<and> pad_offset d = Some origin \<and> decode_mission blob = Inr (h, ws) \<and>
    mh_drone_id h = d \<and> compute_show_id sha256 (AlreadyShow traj) = Inr (mh_show_id h) \<and>
    list_all2 (faithful_to origin (has_led h)) (the (map_of traj (sort (map fst traj) ! k))) ws"
proof -
  let ?asg = "remap_trajectory_to_healthy_drones (dm_telemetry m) traj"
  obtain sid blobs where sid: "compute_show_id sha256 (AlreadyShow traj) = Inr sid"
    and blobs: "compile_all sid ?asg = Inr blobs"
    and m': "m' = foldl (\<lambda>m d. upload_mission d (transfers d) m)
      (m\<lparr>dm_files := blobs, dm_staged := Some \<lparr>sg_show_id = sid, sg_trajectory = ?asg,
        sg_drones = map (\<lambda>(i, blob). (i, pending_entry blob)) blobs,
        sg_excluded = excluded_from (dm_telemetry m) ?asg\<rparr>\<rparr>) (map fst blobs)"
    using up by (auto simp: upload_show_def stage_show_def Let_def split: sum.splits)
  obtain t e where t: "map_of tel2 d = Some t" "vt_connected t"
    and e: "entry_of m' d = Some e" "ue_status e = VERIFIED"
    using armable_drone[OF d] tel(2) by (auto simp: entry_of_def)
  have blob0: "entry_of (m\<lparr>dm_files := blobs, dm_staged := Some \<lparr>sg_show_id = sid, sg_trajectory = ?asg,
      sg_drones = map (\<lambda>(i, blob). (i, pending_entry blob)) blobs, sg_excluded = x\<rparr>\<rparr>) d =
    map_option pending_entry (map_of blobs d)" for x
    by (simp add: entry_of_def map_of_map_pair)
  have st: "Some VERIFIED = (if d \<in> set (map fst blobs)
      then map_option (\<lambda>_. fst (transfer_outcome (transfers d))) (map_option pending_entry (map_of blobs d))
      else map_option ue_status (map_option pending_entry (map_of blobs d)))"
  proof -
    have "map_option ue_status (entry_of m' d) = Some VERIFIED" using e by simp
    then show ?thesis unfolding m' uploads_status blob0 by (rule sym)
  qed
  then obtain blob where blob: "map_of blobs d = Some blob" by (cases "map_of blobs d") (auto split: if_splits)
  then have "d \<in> set (map fst blobs)" using map_of_SomeD[OF blob] by force
  then have "fst (transfer_outcome (transfers d)) = VERIFIED" using st blob by simp
  then have tr: "transfers d = Identical True"
    by (cases "transfers d") (auto simp: transfer_outcome_def split: if_splits)
  obtain wps origin where w: "(d, wps) \<in> set ?asg" "pad_offset d = Some origin" "compile_mission wps d sid origin = Inr blob"
    using compile_all_Inr(2)[OF blobs map_of_SomeD[OF blob]] by blast
  obtain k where k: "k < length (healthy_ids (dm_telemetry m))" "k < length traj" "healthy_ids (dm_telemetry m) ! k = d"
    "wps = the (map_of traj (sort (map fst traj) ! k))" using remap_mem[OF w(1)] by blast
  have healthy: "\<exists>t. map_of (dm_telemetry m) d = Some t \<and> healthy t"
    using healthy_ids_mem[OF tel(1)] nth_mem[OF k(1)] k(3) by metis
  have held: "map_of (dm_files m') d = Some blob" using blob by (simp add: m' uploads_frame)
  from mission_roundtrip[OF w(3)] obtain h ws where "decode_mission blob = Inr (h, ws)" "mh_drone_id h = d"
    "mh_show_id h = sid" "list_all2 (faithful_to origin (has_led h)) wps ws" by blast
  then show ?thesis using t tr k healthy held w(2) sid by blast
qed

definition demo_vehicle :: "point3 \<Rightarrow> vehicle" where
  "demo_vehicle p = \<lparr>vt_connected = True, vt_armed = False, vt_flight_mode = None, vt_fleet = p, vt_local = p,
     vt_last_heartbeat = None, vt_landed_state = None, vt_landed_state_at = None, vt_position_at = None,
     vt_battery_percent = 90, vt_satellites = 12, vt_home = (0, 0), vt_aborted = False, vt_planned = None\<rparr>"

definition demo_show :: choreography where
  "demo_show = [(0, [waypoint_at 0 (-2)])]"

definition demo_staging :: staging where
  "demo_staging = \<lparr>dm_telemetry = [(0, demo_vehicle (0, 0, 0))], dm_active = None, dm_staged = None, dm_files = []\<rparr>"

lemma demo_remap: "remap_trajectory_to_healthy_drones (dm_telemetry demo_staging) demo_show = demo_show"
  by (simp add: remap_trajectory_to_healthy_drones_def healthy_ids_def healthy_def demo_staging_def demo_vehicle_def demo_show_def)

lemma first_pad: "pad_offset 0 = Some (0, 0)"
proof -
  have "launch_grid MAX_FLEET_SIZE DEFAULT_LIMITS None = Inr (map (\<lambda>i. (of_int (i div grid_cols MAX_FLEET_SIZE DEFAULT_LIMITS (22 / 10)) * (22 / 10),
      of_int (i mod grid_cols MAX_FLEET_SIZE DEFAULT_LIMITS (22 / 10)) * (22 / 10))) [0..MAX_FLEET_SIZE - 1])"
    by (simp add: launch_grid_def MAX_FLEET_SIZE_def DEFAULT_LIMITS_def Let_def)
  then show ?thesis by (simp add: pad_offset_def PAD_GRID_def MAX_FLEET_SIZE_def)
qed

lemma demo_uploads:
  "\<exists>blob. compile_all sample_id demo_show = Inr [(0, blob)] \<and>
    compute_show_id (\<lambda>_. sample_id) (AlreadyShow demo_show) = Inr sample_id"
proof -
  obtain blob where blob: "compile_mission [waypoint_at 0 (-2)] 0 sample_id (0, 0) = Inr blob"
    using sample_compiles_for[of 0] by auto
  then obtain records led where enc: "encode_records [waypoint_at 0 (-2)] 0 (0, 0) = Inr (records, led)"
    by (auto simp: compile_mission_def split: if_splits sum.splits)
  have "packable [FU 2, FU 4] [VI 0, VI 1]" "packable [FU 2] [VI MISSION_FORMAT_VERSION]"
    by (simp_all add: MISSION_FORMAT_VERSION_def)
  then obtain head v where "struct_pack [FU 2, FU 4] [VI 0, VI 1] = Some head"
    "struct_pack [FU 2] [VI MISSION_FORMAT_VERSION] = Some v" using struct_pack_packable by blast
  moreover have "take SHOW_ID_SIZE sample_id = sample_id" by (simp add: sample_id_def SHOW_ID_SIZE_def)
  ultimately have "compute_show_id (\<lambda>_. sample_id) (AlreadyShow demo_show) = Inr sample_id"
    using enc by (simp add: compute_show_id_def from_any_def demo_show_def)
  moreover have "compile_all sample_id demo_show = Inr [(0, blob)]"
    using blob by (simp add: demo_show_def first_pad)
  ultimately show ?thesis by blast
qed

lemma armable_drone_holds_its_slot_witness:
  "\<exists>m' blob h ws. upload_show (\<lambda>_. sample_id) demo_show (\<lambda>_. Identical True) demo_staging = Inr m' \<and>
    map_of (dm_files m') 0 = Some blob \<and> decode_mission blob = Inr (h, ws) \<and> mh_drone_id h = 0 \<and> mh_show_id h = sample_id"
proof -
  obtain blob where blob: "compile_all sample_id demo_show = Inr [(0, blob)]"
    "compute_show_id (\<lambda>_. sample_id) (AlreadyShow demo_show) = Inr sample_id" using demo_uploads by blast
  obtain m' where up: "upload_show (\<lambda>_. sample_id) demo_show (\<lambda>_. Identical True) demo_staging = Inr m'"
    using blob by (simp add: upload_show_def stage_show_def demo_remap)
  then have "\<exists>s e. dm_staged m' = Some s \<and> sg_drones s = [(0, e)] \<and> ue_status e = VERIFIED"
    using blob by (auto simp: upload_show_def stage_show_def demo_remap upload_mission_def finish_upload_def
      begin_upload_def set_entry_def transfer_outcome_def Let_def)
  then have armable: "0 \<in> set (gt_armable (launch_gate (\<lambda>_. sample_id)
      (m'\<lparr>dm_telemetry := dm_telemetry demo_staging, dm_active := None\<rparr>)))"
    by (auto simp: launch_gate_def gate_drone_def Let_def demo_staging_def demo_vehicle_def)
  have "dict_ok (dm_telemetry demo_staging)" by (simp add: demo_staging_def dict_ok_def)
  from armable_drone_holds_its_slot[OF this this up armable] show ?thesis using up blob(2) by fastforce
qed
end
