(* ===== verification/Manager.thy ===== *)
theory Manager
  imports Staging Fleet_Fsm Validate Start_Bridge
begin

text \<open>
  The state of the ground station's drone manager,
  \<^verbatim>\<open>packages/tara-gcs/tara_gcs/drone_manager.py\<close>, and the operations every other part of it uses:
  freshness of telemetry, stopping the playback, and the fleet-wide and single-drone RTL, LAND and
  ESTOP. Python's coroutines are cut at their awaits: a stretch between two awaits is one step, and
  what a coroutine is waiting for is a value of its phase. Orders to vehicles and broadcast frames
  are listed in the order the manager gives them.
\<close>

section \<open>Constants\<close>

definition HEARTBEAT_STALE_S :: real where "HEARTBEAT_STALE_S = 25 / 10"
definition TRIGGER_LEAD_S :: real where "TRIGGER_LEAD_S = 1"
definition SYSTEM_OPERATOR :: string where "SYSTEM_OPERATOR = ''system''"

definition DEFAULT_ALTITUDES :: "real list" where
  "DEFAULT_ALTITUDES = (case altitude_layers MAX_FLEET_SIZE DEFAULT_LIMITS BASE_HOVER_ALT_M None of
     Inl e \<Rightarrow> [] | Inr zs \<Rightarrow> zs)"

definition hover_altitude :: "int \<Rightarrow> real" where
  "hover_altitude i = (if i < int (length DEFAULT_ALTITUDES) then DEFAULT_ALTITUDES ! nat i else 3)"

section \<open>State\<close>

text \<open>What is read at one step: the monotonic and the wall clock, what the audit trail meets, and
  whether the radio takes a frame.\<close>

record world =
  wd_mono :: real
  wd_wall :: real
  wd_env :: audit_env
  wd_radio_ok :: bool

datatype order =
    O_Arm | O_Disarm | O_Pad_Setpoint | O_Offboard_Start | O_Climb real
  | O_Offboard_Stop | O_Land | O_RTL | O_Kill
  | O_Local point3 "real option" point3
  | O_Global real real real "real option"

text \<open>Why a drone did not get up.\<close>

datatype launch_failure =
    LF_Not_Connected
  | LF_Not_Armable
  | LF_Arming string
  | LF_Setpoint string
  | LF_Offboard string
  | LF_Not_Offboard "string option" bool
  | LF_Climb_Command string
  | LF_Unexpected string
  | LF_Disarmed real real
  | LF_Left_Offboard "string option" real
  | LF_Short real real real

record climb =
  cl_target :: real
  cl_budget :: real
  cl_deadline :: real
  cl_reached :: bool

text \<open>Where the launch of one drone stands: what it awaits.\<close>

datatype launch_phase =
    LP_Called
  | LP_Wait_Armable
  | LP_Arming
  | LP_Pad_Setpoint
  | LP_Offboard
  | LP_Confirm real
  | LP_Climb

text \<open>The launch task: not yet begun, with the drones that were asked for, or at work, with the
  drones of the running batch, the batches to come, and whether it waits for the EKF.\<close>

record launch =
  la_running :: "(int, launch_phase) dict"
  la_batches :: "int list list"
  la_ekf :: bool

datatype launch_task = Launch_Requested "int list option" bool | Launch_At_Work launch

datatype execution = Onboard | Streamed

text \<open>Where the playback task stands. Only the last two are inside its \<^verbatim>\<open>try\<close> block.\<close>

datatype playback_phase =
    PB_Called real
  | PB_Clock_Sync
  | PB_Released real bytes
  | PB_Triggering real bytes
  | PB_Flying real
  | PB_Sending real "(int \<times> order) list"

record playback =
  pb_plan :: choreography
  pb_mode :: string
  pb_execution :: execution
  pb_phase :: playback_phase

record saved_show =
  sv_saved_at :: real
  sv_mode :: string
  sv_started_at :: real
  sv_trajectory :: choreography
  sv_telemetry :: fleet

record sample =
  sm_timestamp :: real
  sm_drone :: int
  sm_position :: point3
  sm_battery :: real
  sm_mode :: "string option"
  sm_connected :: bool

record manager =
  mg_stage :: staging
  mg_fsm :: fsm
  mg_has_radio :: bool
  mg_launch :: "launch_task option"
  mg_launch_finished_at :: "real option"
  mg_launch_planned :: "int list"
  mg_launch_failures :: "(int, launch_failure) dict"
  mg_climbs :: "(int, climb) dict"
  mg_recovering :: "int list"
  mg_playing :: bool
  mg_playing_trajectory :: "choreography option"
  mg_loop :: "playback option"
  mg_cancelled_loops :: "playback list"
  mg_bridge_s :: real
  mg_peak_speed :: real
  mg_playback_start :: "real option"
  mg_show_mode :: string
  mg_show_started_at :: "real option"
  mg_onboard_id :: "bytes option"
  mg_recording :: bool
  mg_log :: "sample list"
  mg_snapshotting :: bool
  mg_saved :: "saved_show option"
  mg_pending :: "saved_show option"
  mg_geofence_radius :: real
  mg_soft_radius :: "real option"
  mg_geofence_breaches :: "(int, bool) dict"
  mg_geofence_warnings :: "(int, bool) dict"
  mg_proximity_breaches :: "(int \<times> int, bool) dict"
  mg_orders :: "(int \<times> order) list"
  mg_frames :: "bytes list"

abbreviation telemetry_of :: "manager \<Rightarrow> fleet" where
  "telemetry_of m \<equiv> dm_telemetry (mg_stage m)"

abbreviation state_of :: "manager \<Rightarrow> lifecycle" where
  "state_of m \<equiv> fsm_state (mg_fsm m)"

abbreviation vehicle_of :: "manager \<Rightarrow> int \<Rightarrow> vehicle option" where
  "vehicle_of m i \<equiv> map_of (telemetry_of m) i"

definition manager_init :: "bool \<Rightarrow> real \<Rightarrow> fsm \<Rightarrow> manager" where
  "manager_init radio peak_speed fsm =
     \<lparr>mg_stage = \<lparr>dm_telemetry = [], dm_active = None, dm_staged = None, dm_files = []\<rparr>, mg_fsm = fsm,
      mg_has_radio = radio, mg_launch = None, mg_launch_finished_at = None, mg_launch_planned = [],
      mg_launch_failures = [], mg_climbs = [], mg_recovering = [], mg_playing = False,
      mg_playing_trajectory = None, mg_loop = None, mg_cancelled_loops = [], mg_bridge_s = 0,
      mg_peak_speed = peak_speed, mg_playback_start = None, mg_show_mode = ''LOCAL'',
      mg_show_started_at = None, mg_onboard_id = None, mg_recording = False, mg_log = [],
      mg_snapshotting = False, mg_saved = None, mg_pending = None,
      mg_geofence_radius = geofence_radius_m DEFAULT_LIMITS, mg_soft_radius = None,
      mg_geofence_breaches = [], mg_geofence_warnings = [], mg_proximity_breaches = [],
      mg_orders = [], mg_frames = []\<rparr>"

section \<open>Telemetry\<close>

definition map_vehicle :: "int \<Rightarrow> (vehicle \<Rightarrow> vehicle) \<Rightarrow> fleet \<Rightarrow> fleet" where
  "map_vehicle d f = map (\<lambda>(i, t). (i, if i = d then f t else t))"

definition set_vehicle :: "int \<Rightarrow> (vehicle \<Rightarrow> vehicle) \<Rightarrow> manager \<Rightarrow> manager" where
  "set_vehicle d f m = m\<lparr>mg_stage := (mg_stage m)\<lparr>dm_telemetry := map_vehicle d f (telemetry_of m)\<rparr>\<rparr>"

definition clear_plans :: "manager \<Rightarrow> manager" where
  "clear_plans m = m\<lparr>mg_stage := (mg_stage m)\<lparr>dm_telemetry :=
     map (\<lambda>(i, t). (i, t\<lparr>vt_planned := None\<rparr>)) (telemetry_of m)\<rparr>\<rparr>"

definition recent :: "real \<Rightarrow> real option \<Rightarrow> bool" where
  "recent wall stamp = (case stamp of None \<Rightarrow> False | Some t \<Rightarrow> wall - t \<le> HEARTBEAT_STALE_S)"

definition is_heartbeat_fresh :: "real \<Rightarrow> vehicle \<Rightarrow> bool" where
  "is_heartbeat_fresh wall t \<longleftrightarrow> vt_connected t \<and> recent wall (vt_last_heartbeat t)"

definition on_ground_now :: "real \<Rightarrow> vehicle \<Rightarrow> bool" where
  "on_ground_now wall t \<longleftrightarrow> is_heartbeat_fresh wall t \<and> vt_landed_state t = Some ''ON_GROUND'' \<and>
     recent wall (vt_landed_state_at t)"

definition altitude_of :: "vehicle \<Rightarrow> real" where
  "altitude_of t = (case vt_fleet t of (x, y, z) \<Rightarrow> z)"

definition armed_ids :: "manager \<Rightarrow> int list" where
  "armed_ids m = map fst (filter (\<lambda>(i, t). vt_armed t) (telemetry_of m))"

definition is_aborted :: "manager \<Rightarrow> int \<Rightarrow> bool" where
  "is_aborted m d = (case vehicle_of m d of None \<Rightarrow> False | Some t \<Rightarrow> vt_aborted t)"

section \<open>Orders, frames and transitions\<close>

definition order_to :: "int \<Rightarrow> order list \<Rightarrow> manager \<Rightarrow> manager" where
  "order_to d os m = m\<lparr>mg_orders := mg_orders m @ map (Pair d) os\<rparr>"

definition apply_command :: "world \<Rightarrow> command \<Rightarrow> string \<Rightarrow> string \<Rightarrow> manager \<Rightarrow> manager" where
  "apply_command w c opr trg m = m\<lparr>mg_fsm := snd (fsm_apply (wd_env w) (wd_wall w) c opr trg (mg_fsm m))\<rparr>"

definition advance ::
  "world \<Rightarrow> lifecycle \<Rightarrow> lifecycle \<Rightarrow> string \<Rightarrow> manager \<Rightarrow> manager" where
  "advance w expected target trg m =
     m\<lparr>mg_fsm := snd (fsm_advance (wd_env w) (wd_wall w) expected target trg SYSTEM_OPERATOR (mg_fsm m))\<rparr>"

definition broadcast :: "world \<Rightarrow> bytes \<Rightarrow> manager \<Rightarrow> manager" where
  "broadcast w frame m = (if wd_radio_ok w then m\<lparr>mg_frames := mg_frames m @ [frame]\<rparr> else m)"

section \<open>Stopping the playback\<close>

definition inside_try :: "playback_phase \<Rightarrow> bool" where
  "inside_try ph = (case ph of PB_Flying t \<Rightarrow> True | PB_Sending t os \<Rightarrow> True | _ \<Rightarrow> False)"

definition stop_recording :: "manager \<Rightarrow> manager" where
  "stop_recording m = m\<lparr>mg_recording := False\<rparr>"

definition cancel_onboard :: "world \<Rightarrow> manager \<Rightarrow> manager" where
  "cancel_onboard w m =
     (case mg_onboard_id m of None \<Rightarrow> m
      | Some sid \<Rightarrow>
          (case encode_show_trigger 2 sid 0 of Inl e \<Rightarrow> m | Inr frame \<Rightarrow> broadcast w frame m)\<lparr>mg_onboard_id := None\<rparr>)"

text \<open>A task cancelled inside its \<^verbatim>\<open>try\<close> block still runs its \<^verbatim>\<open>finally\<close> block, at a later step.\<close>

definition cancel_loop :: "manager \<Rightarrow> manager" where
  "cancel_loop m =
     (case mg_loop m of None \<Rightarrow> m
      | Some pb \<Rightarrow> m\<lparr>mg_loop := None,
          mg_cancelled_loops := mg_cancelled_loops m @ (if inside_try (pb_phase pb) then [pb] else [])\<rparr>)"

definition stop_trajectory :: "world \<Rightarrow> manager \<Rightarrow> manager" where
  "stop_trajectory w m =
     cancel_loop (stop_recording (cancel_onboard w m)
       \<lparr>mg_playing := False, mg_playing_trajectory := None, mg_bridge_s := 0, mg_playback_start := None,
        mg_snapshotting := False, mg_saved := None\<rparr>)"

section \<open>Fleet-wide and single-drone commands\<close>

definition rtl_one :: "int \<Rightarrow> manager \<Rightarrow> manager" where "rtl_one d = order_to d [O_Offboard_Stop, O_RTL]"
definition land_one :: "int \<Rightarrow> manager \<Rightarrow> manager" where "land_one d = order_to d [O_Offboard_Stop, O_Land]"
definition estop_one :: "int \<Rightarrow> manager \<Rightarrow> manager" where "estop_one d = order_to d [O_Kill]"

definition for_each_drone :: "(int \<Rightarrow> manager \<Rightarrow> manager) \<Rightarrow> manager \<Rightarrow> manager" where
  "for_each_drone one m = foldl (\<lambda>m d. one d m) m (map fst (telemetry_of m))"

definition trigger_rtl :: "world \<Rightarrow> string \<Rightarrow> string \<Rightarrow> manager \<Rightarrow> manager" where
  "trigger_rtl w opr trg m = for_each_drone rtl_one (stop_trajectory w (apply_command w C_RTL opr trg m))"

definition trigger_land :: "world \<Rightarrow> string \<Rightarrow> string \<Rightarrow> manager \<Rightarrow> manager" where
  "trigger_land w opr trg m = for_each_drone land_one (stop_trajectory w (apply_command w C_LAND opr trg m))"

definition trigger_estop :: "world \<Rightarrow> string \<Rightarrow> string \<Rightarrow> manager \<Rightarrow> manager" where
  "trigger_estop w opr trg m = for_each_drone estop_one (stop_trajectory w (apply_command w C_ESTOP opr trg m))"

definition fresh_vehicle :: vehicle where
  "fresh_vehicle = \<lparr>vt_connected = False, vt_armed = False, vt_flight_mode = Some ''UNKNOWN'', vt_fleet = (0, 0, 0),
     vt_local = (0, 0, 0), vt_last_heartbeat = None, vt_landed_state = None, vt_landed_state_at = None,
     vt_position_at = None, vt_battery_percent = 0, vt_satellites = 0, vt_home = (0, 0), vt_aborted = False,
     vt_planned = None\<rparr>"

text \<open>A drone the ground station connects to at its start.\<close>

definition connect_drone :: "int \<Rightarrow> manager \<Rightarrow> manager" where
  "connect_drone d m = m\<lparr>mg_stage := (mg_stage m)\<lparr>dm_telemetry := dset d fresh_vehicle (telemetry_of m)\<rparr>\<rparr>"

section \<open>Lemmas: what the operations leave alone\<close>

lemma set_vehicle_frame [simp]:
  "mg_fsm (set_vehicle d f m) = mg_fsm m" "mg_launch (set_vehicle d f m) = mg_launch m"
  "mg_launch_failures (set_vehicle d f m) = mg_launch_failures m"
  "mg_launch_planned (set_vehicle d f m) = mg_launch_planned m"
  "mg_climbs (set_vehicle d f m) = mg_climbs m" "mg_loop (set_vehicle d f m) = mg_loop m"
  "mg_orders (set_vehicle d f m) = mg_orders m"
  "mg_geofence_breaches (set_vehicle d f m) = mg_geofence_breaches m"
  "mg_proximity_breaches (set_vehicle d f m) = mg_proximity_breaches m"
  "mg_geofence_radius (set_vehicle d f m) = mg_geofence_radius m"
  "mg_soft_radius (set_vehicle d f m) = mg_soft_radius m"
  "mg_geofence_warnings (set_vehicle d f m) = mg_geofence_warnings m"
  by (simp_all add: set_vehicle_def)

lemma clear_plans_frame [simp]:
  "mg_fsm (clear_plans m) = mg_fsm m" "mg_launch (clear_plans m) = mg_launch m"
  "mg_launch_failures (clear_plans m) = mg_launch_failures m"
  "mg_launch_planned (clear_plans m) = mg_launch_planned m"
  "mg_climbs (clear_plans m) = mg_climbs m" "mg_loop (clear_plans m) = mg_loop m"
  "mg_orders (clear_plans m) = mg_orders m"
  "mg_geofence_breaches (clear_plans m) = mg_geofence_breaches m"
  "mg_proximity_breaches (clear_plans m) = mg_proximity_breaches m"
  "mg_geofence_radius (clear_plans m) = mg_geofence_radius m"
  "mg_soft_radius (clear_plans m) = mg_soft_radius m"
  "mg_geofence_warnings (clear_plans m) = mg_geofence_warnings m"
  by (simp_all add: clear_plans_def)

lemma order_to_frame [simp]:
  "mg_stage (order_to d os m) = mg_stage m" "mg_fsm (order_to d os m) = mg_fsm m"
  "mg_launch (order_to d os m) = mg_launch m"
  "mg_launch_failures (order_to d os m) = mg_launch_failures m"
  "mg_launch_planned (order_to d os m) = mg_launch_planned m"
  "mg_climbs (order_to d os m) = mg_climbs m" "mg_loop (order_to d os m) = mg_loop m"
  "mg_geofence_breaches (order_to d os m) = mg_geofence_breaches m"
  "mg_proximity_breaches (order_to d os m) = mg_proximity_breaches m"
  "mg_geofence_radius (order_to d os m) = mg_geofence_radius m"
  "mg_soft_radius (order_to d os m) = mg_soft_radius m"
  "mg_geofence_warnings (order_to d os m) = mg_geofence_warnings m"
  by (simp_all add: order_to_def)

lemma apply_command_frame [simp]:
  "mg_stage (apply_command w c opr trg m) = mg_stage m"
  "mg_launch (apply_command w c opr trg m) = mg_launch m"
  "mg_launch_failures (apply_command w c opr trg m) = mg_launch_failures m"
  "mg_launch_planned (apply_command w c opr trg m) = mg_launch_planned m"
  "mg_climbs (apply_command w c opr trg m) = mg_climbs m"
  "mg_loop (apply_command w c opr trg m) = mg_loop m"
  "mg_orders (apply_command w c opr trg m) = mg_orders m"
  "mg_geofence_breaches (apply_command w c opr trg m) = mg_geofence_breaches m"
  "mg_proximity_breaches (apply_command w c opr trg m) = mg_proximity_breaches m"
  "mg_geofence_radius (apply_command w c opr trg m) = mg_geofence_radius m"
  "mg_soft_radius (apply_command w c opr trg m) = mg_soft_radius m"
  "mg_geofence_warnings (apply_command w c opr trg m) = mg_geofence_warnings m"
  by (simp_all add: apply_command_def)

lemma advance_frame [simp]:
  "mg_stage (advance w e t trg m) = mg_stage m" "mg_launch (advance w e t trg m) = mg_launch m"
  "mg_launch_failures (advance w e t trg m) = mg_launch_failures m"
  "mg_launch_planned (advance w e t trg m) = mg_launch_planned m"
  "mg_climbs (advance w e t trg m) = mg_climbs m" "mg_loop (advance w e t trg m) = mg_loop m"
  "mg_orders (advance w e t trg m) = mg_orders m"
  "mg_geofence_breaches (advance w e t trg m) = mg_geofence_breaches m"
  "mg_proximity_breaches (advance w e t trg m) = mg_proximity_breaches m"
  "mg_geofence_radius (advance w e t trg m) = mg_geofence_radius m"
  "mg_soft_radius (advance w e t trg m) = mg_soft_radius m"
  "mg_geofence_warnings (advance w e t trg m) = mg_geofence_warnings m"
  by (simp_all add: advance_def)

lemma broadcast_frame [simp]:
  "mg_stage (broadcast w fr m) = mg_stage m" "mg_fsm (broadcast w fr m) = mg_fsm m"
  "mg_launch (broadcast w fr m) = mg_launch m"
  "mg_launch_failures (broadcast w fr m) = mg_launch_failures m"
  "mg_launch_planned (broadcast w fr m) = mg_launch_planned m"
  "mg_climbs (broadcast w fr m) = mg_climbs m" "mg_loop (broadcast w fr m) = mg_loop m"
  "mg_orders (broadcast w fr m) = mg_orders m"
  "mg_geofence_breaches (broadcast w fr m) = mg_geofence_breaches m"
  "mg_proximity_breaches (broadcast w fr m) = mg_proximity_breaches m"
  "mg_geofence_radius (broadcast w fr m) = mg_geofence_radius m"
  "mg_soft_radius (broadcast w fr m) = mg_soft_radius m"
  "mg_geofence_warnings (broadcast w fr m) = mg_geofence_warnings m"
  by (simp_all add: broadcast_def)

lemma stop_recording_frame [simp]:
  "mg_stage (stop_recording m) = mg_stage m" "mg_fsm (stop_recording m) = mg_fsm m"
  "mg_launch (stop_recording m) = mg_launch m"
  "mg_launch_failures (stop_recording m) = mg_launch_failures m"
  "mg_launch_planned (stop_recording m) = mg_launch_planned m"
  "mg_climbs (stop_recording m) = mg_climbs m" "mg_loop (stop_recording m) = mg_loop m"
  "mg_orders (stop_recording m) = mg_orders m"
  "mg_geofence_breaches (stop_recording m) = mg_geofence_breaches m"
  "mg_proximity_breaches (stop_recording m) = mg_proximity_breaches m"
  "mg_geofence_radius (stop_recording m) = mg_geofence_radius m"
  "mg_soft_radius (stop_recording m) = mg_soft_radius m"
  "mg_geofence_warnings (stop_recording m) = mg_geofence_warnings m"
  by (simp_all add: stop_recording_def)

lemma cancel_onboard_frame [simp]:
  "mg_stage (cancel_onboard w m) = mg_stage m" "mg_fsm (cancel_onboard w m) = mg_fsm m"
  "mg_launch (cancel_onboard w m) = mg_launch m"
  "mg_launch_failures (cancel_onboard w m) = mg_launch_failures m"
  "mg_launch_planned (cancel_onboard w m) = mg_launch_planned m"
  "mg_climbs (cancel_onboard w m) = mg_climbs m" "mg_loop (cancel_onboard w m) = mg_loop m"
  "mg_orders (cancel_onboard w m) = mg_orders m"
  "mg_geofence_breaches (cancel_onboard w m) = mg_geofence_breaches m"
  "mg_proximity_breaches (cancel_onboard w m) = mg_proximity_breaches m"
  "mg_geofence_radius (cancel_onboard w m) = mg_geofence_radius m"
  "mg_soft_radius (cancel_onboard w m) = mg_soft_radius m"
  "mg_geofence_warnings (cancel_onboard w m) = mg_geofence_warnings m"
  by (simp_all add: cancel_onboard_def split: option.split sum.split)

lemma cancel_loop_frame [simp]:
  "mg_stage (cancel_loop m) = mg_stage m" "mg_fsm (cancel_loop m) = mg_fsm m"
  "mg_launch (cancel_loop m) = mg_launch m"
  "mg_launch_failures (cancel_loop m) = mg_launch_failures m"
  "mg_launch_planned (cancel_loop m) = mg_launch_planned m"
  "mg_climbs (cancel_loop m) = mg_climbs m" "mg_orders (cancel_loop m) = mg_orders m"
  "mg_geofence_breaches (cancel_loop m) = mg_geofence_breaches m"
  "mg_proximity_breaches (cancel_loop m) = mg_proximity_breaches m"
  "mg_geofence_radius (cancel_loop m) = mg_geofence_radius m"
  "mg_soft_radius (cancel_loop m) = mg_soft_radius m"
  "mg_geofence_warnings (cancel_loop m) = mg_geofence_warnings m"
  by (simp_all add: cancel_loop_def split: option.split)

lemma cancel_loop_loop [simp]: "mg_loop (cancel_loop m) = None"
  by (simp add: cancel_loop_def split: option.split)

lemma stop_trajectory_frame [simp]:
  "mg_stage (stop_trajectory w m) = mg_stage m" "mg_fsm (stop_trajectory w m) = mg_fsm m"
  "mg_launch (stop_trajectory w m) = mg_launch m"
  "mg_launch_failures (stop_trajectory w m) = mg_launch_failures m"
  "mg_launch_planned (stop_trajectory w m) = mg_launch_planned m"
  "mg_climbs (stop_trajectory w m) = mg_climbs m" "mg_orders (stop_trajectory w m) = mg_orders m"
  "mg_geofence_breaches (stop_trajectory w m) = mg_geofence_breaches m"
  "mg_proximity_breaches (stop_trajectory w m) = mg_proximity_breaches m"
  "mg_geofence_radius (stop_trajectory w m) = mg_geofence_radius m"
  "mg_soft_radius (stop_trajectory w m) = mg_soft_radius m"
  "mg_geofence_warnings (stop_trajectory w m) = mg_geofence_warnings m"
  by (simp_all add: stop_trajectory_def)

lemma stop_trajectory_loop [simp]: "mg_loop (stop_trajectory w m) = None"
  by (simp add: stop_trajectory_def)

section \<open>Lemmas: transitions\<close>

lemma transition_state: "fsm_state (snd (fsm_transition env now t opr trg f)) =
    (if can_transition (fsm_state f) t then t else fsm_state f)"
  by (simp add: fsm_transition_def Let_def)

lemma apply_command_state: "state_of (apply_command w c opr trg m) =
    (if state_of m \<in> allowed_from (COMMAND_RULES c)
     then (case rule_target (COMMAND_RULES c) of None \<Rightarrow> state_of m | Some t \<Rightarrow> t) else state_of m)"
  using rules_agree[of "state_of m" c]
  by (auto simp: apply_command_def fsm_apply_cases snd_case_result transition_state split: option.splits)

lemma advance_state: "state_of (advance w e t trg m) =
    (if state_of m = e \<and> can_transition e t then t else state_of m)"
  by (auto simp: advance_def fsm_advance_def fsm_transition_def Let_def)

lemma emergency_command_state [simp]:
  "state_of (apply_command w C_RTL opr trg m) = S_RTL" "state_of (apply_command w C_LAND opr trg m) = S_LANDING"
  "state_of (apply_command w C_ESTOP opr trg m) = S_ESTOP"
  by (simp_all add: apply_command_state)

section \<open>Lemmas: orders\<close>

text \<open>Orders that put a drone further into the air or move it, and the setpoints of the playback.\<close>

fun is_setpoint :: "order \<Rightarrow> bool" where
  "is_setpoint (O_Local p yaw v) = True"
| "is_setpoint (O_Global lat lon alt yaw) = True"
| "is_setpoint _ = False"

fun drives :: "order \<Rightarrow> bool" where
  "drives O_Arm = True"
| "drives O_Offboard_Start = True"
| "drives (O_Climb z) = True"
| "drives x = is_setpoint x"

text \<open>The orders an operation gives, all of one kind.\<close>

definition adds_orders :: "(int \<times> order \<Rightarrow> bool) \<Rightarrow> manager \<Rightarrow> manager \<Rightarrow> bool" where
  "adds_orders P m m' \<longleftrightarrow> (\<exists>xs. mg_orders m' = mg_orders m @ xs \<and> list_all P xs)"

lemma adds_none [simp]: "mg_orders m' = mg_orders m \<Longrightarrow> adds_orders P m m'"
  by (simp add: adds_orders_def)

lemma adds_trans: "adds_orders P m1 m2 \<Longrightarrow> adds_orders P m2 m3 \<Longrightarrow> adds_orders P m1 m3"
  by (force simp: adds_orders_def)

lemma order_to_orders [simp]: "mg_orders (order_to d os m) = mg_orders m @ map (Pair d) os"
  by (simp add: order_to_def)

lemma adds_order_to: "list_all (\<lambda>x. P (d, x)) os \<Longrightarrow> adds_orders P m (order_to d os m)"
  by (auto simp: adds_orders_def order_to_def list_all_iff)

text \<open>A client that gives orders of one kind in every one of its steps gives no other in a run.\<close>

lemma adds_foldl:
  assumes "\<And>m x. adds_orders P m (f m x)"
  shows "adds_orders P m (foldl f m xs)"
proof (induction xs arbitrary: m)
  case (Cons x xs)
  show ?case using adds_trans[OF assms Cons] by simp
qed simp

lemma foldl_keeps:
  assumes "\<And>m x. F (f m x) = F m"
  shows "F (foldl f m xs) = F m"
  by (induction xs arbitrary: m) (simp_all add: assms)

lemma for_each_frame:
  assumes "\<And>d m. F (one d m) = F m"
  shows "F (for_each_drone one m) = F m"
  unfolding for_each_drone_def by (rule foldl_keeps) (rule assms)

lemmas one_defs = rtl_one_def land_one_def estop_one_def

lemma trigger_rtl_frame [simp]:
  "mg_stage (trigger_rtl w opr trg m) = mg_stage m"
  "mg_launch (trigger_rtl w opr trg m) = mg_launch m"
  "mg_launch_failures (trigger_rtl w opr trg m) = mg_launch_failures m"
  "mg_launch_planned (trigger_rtl w opr trg m) = mg_launch_planned m"
  "mg_climbs (trigger_rtl w opr trg m) = mg_climbs m"
  "mg_geofence_breaches (trigger_rtl w opr trg m) = mg_geofence_breaches m"
  "mg_proximity_breaches (trigger_rtl w opr trg m) = mg_proximity_breaches m"
  "mg_geofence_radius (trigger_rtl w opr trg m) = mg_geofence_radius m"
  "mg_soft_radius (trigger_rtl w opr trg m) = mg_soft_radius m"
  "mg_geofence_warnings (trigger_rtl w opr trg m) = mg_geofence_warnings m"
  "state_of (trigger_rtl w opr trg m) = S_RTL" "mg_loop (trigger_rtl w opr trg m) = None"
  by (simp_all add: trigger_rtl_def one_defs for_each_frame[where F = mg_stage]
    for_each_frame[where F = mg_launch]
    for_each_frame[where F = mg_launch_failures]
    for_each_frame[where F = mg_launch_planned]
    for_each_frame[where F = mg_climbs]
    for_each_frame[where F = mg_geofence_breaches]
    for_each_frame[where F = mg_proximity_breaches]
    for_each_frame[where F = mg_geofence_radius]
    for_each_frame[where F = mg_soft_radius]
    for_each_frame[where F = mg_geofence_warnings]
    for_each_frame[where F = mg_fsm]
    for_each_frame[where F = mg_loop])

lemma trigger_land_frame [simp]:
  "mg_stage (trigger_land w opr trg m) = mg_stage m"
  "mg_launch (trigger_land w opr trg m) = mg_launch m"
  "mg_launch_failures (trigger_land w opr trg m) = mg_launch_failures m"
  "mg_launch_planned (trigger_land w opr trg m) = mg_launch_planned m"
  "mg_climbs (trigger_land w opr trg m) = mg_climbs m"
  "mg_geofence_breaches (trigger_land w opr trg m) = mg_geofence_breaches m"
  "mg_proximity_breaches (trigger_land w opr trg m) = mg_proximity_breaches m"
  "mg_geofence_radius (trigger_land w opr trg m) = mg_geofence_radius m"
  "mg_soft_radius (trigger_land w opr trg m) = mg_soft_radius m"
  "mg_geofence_warnings (trigger_land w opr trg m) = mg_geofence_warnings m"
  "state_of (trigger_land w opr trg m) = S_LANDING" "mg_loop (trigger_land w opr trg m) = None"
  by (simp_all add: trigger_land_def one_defs for_each_frame[where F = mg_stage]
    for_each_frame[where F = mg_launch]
    for_each_frame[where F = mg_launch_failures]
    for_each_frame[where F = mg_launch_planned]
    for_each_frame[where F = mg_climbs]
    for_each_frame[where F = mg_geofence_breaches]
    for_each_frame[where F = mg_proximity_breaches]
    for_each_frame[where F = mg_geofence_radius]
    for_each_frame[where F = mg_soft_radius]
    for_each_frame[where F = mg_geofence_warnings]
    for_each_frame[where F = mg_fsm]
    for_each_frame[where F = mg_loop])

lemma trigger_estop_frame [simp]:
  "mg_stage (trigger_estop w opr trg m) = mg_stage m"
  "mg_launch (trigger_estop w opr trg m) = mg_launch m"
  "mg_launch_failures (trigger_estop w opr trg m) = mg_launch_failures m"
  "mg_launch_planned (trigger_estop w opr trg m) = mg_launch_planned m"
  "mg_climbs (trigger_estop w opr trg m) = mg_climbs m"
  "mg_geofence_breaches (trigger_estop w opr trg m) = mg_geofence_breaches m"
  "mg_proximity_breaches (trigger_estop w opr trg m) = mg_proximity_breaches m"
  "mg_geofence_radius (trigger_estop w opr trg m) = mg_geofence_radius m"
  "mg_soft_radius (trigger_estop w opr trg m) = mg_soft_radius m"
  "mg_geofence_warnings (trigger_estop w opr trg m) = mg_geofence_warnings m"
  "state_of (trigger_estop w opr trg m) = S_ESTOP" "mg_loop (trigger_estop w opr trg m) = None"
  by (simp_all add: trigger_estop_def one_defs for_each_frame[where F = mg_stage]
    for_each_frame[where F = mg_launch]
    for_each_frame[where F = mg_launch_failures]
    for_each_frame[where F = mg_launch_planned]
    for_each_frame[where F = mg_climbs]
    for_each_frame[where F = mg_geofence_breaches]
    for_each_frame[where F = mg_proximity_breaches]
    for_each_frame[where F = mg_geofence_radius]
    for_each_frame[where F = mg_soft_radius]
    for_each_frame[where F = mg_geofence_warnings]
    for_each_frame[where F = mg_fsm]
    for_each_frame[where F = mg_loop])

lemma triggers_add:
  "(\<And>d. P (d, O_Offboard_Stop)) \<Longrightarrow> (\<And>d. P (d, O_RTL)) \<Longrightarrow> adds_orders P m (trigger_rtl w opr trg m)"
  "(\<And>d. P (d, O_Offboard_Stop)) \<Longrightarrow> (\<And>d. P (d, O_Land)) \<Longrightarrow> adds_orders P m (trigger_land w opr trg m)"
  "(\<And>d. P (d, O_Kill)) \<Longrightarrow> adds_orders P m (trigger_estop w opr trg m)"
  by (auto simp: trigger_rtl_def trigger_land_def trigger_estop_def for_each_drone_def one_defs
      intro!: adds_trans[OF adds_none adds_foldl] adds_order_to)

section \<open>Lemmas: telemetry\<close>

lemma vehicle_of_set [simp]:
  "vehicle_of (set_vehicle i f m) k = map_option (\<lambda>t. if k = i then f t else t) (vehicle_of m k)"
  by (simp add: set_vehicle_def map_vehicle_def map_of_map_pair)

lemma vehicle_of_clear [simp]: "vehicle_of (clear_plans m) k = map_option (\<lambda>t. t\<lparr>vt_planned := None\<rparr>) (vehicle_of m k)"
  by (simp add: clear_plans_def map_of_map_pair)

lemma is_aborted_cong: "mg_stage m' = mg_stage m \<Longrightarrow> is_aborted m' d = is_aborted m d"
  by (simp add: is_aborted_def)

lemma is_aborted_set [simp]:
  "(\<And>t. vt_aborted (f t) = vt_aborted t) \<Longrightarrow> is_aborted (set_vehicle i f m) d = is_aborted m d"
  by (auto simp: is_aborted_def split: option.split)

lemma is_aborted_clear [simp]: "is_aborted (clear_plans m) d = is_aborted m d"
  by (auto simp: is_aborted_def split: option.split)

lemmas is_aborted_frames [simp] = is_aborted_cong[OF stop_trajectory_frame(1)] is_aborted_cong[OF order_to_frame(1)]
  is_aborted_cong[OF apply_command_frame(1)] is_aborted_cong[OF advance_frame(1)] is_aborted_cong[OF stop_recording_frame(1)]
  is_aborted_cong[OF broadcast_frame(1)] is_aborted_cong[OF trigger_rtl_frame(1)] is_aborted_cong[OF trigger_land_frame(1)]
  is_aborted_cong[OF trigger_estop_frame(1)]
end
