(* ===== verification/Launch.thy ===== *)
theory Launch
  imports Manager
begin

text \<open>
  The launch, in \<^verbatim>\<open>packages/tara-gcs/tara_gcs/drone_manager.py\<close>: the launch task and its batches,
  the launch of one drone cut at its awaits, launch failures and the recovery of a failed drone, the
  climb check, and the monitor that advances the fleet lifecycle from telemetry. What an awaited
  call ends in is an argument; the one second stagger between the drones of a batch is only a delay.
\<close>

section \<open>Constants\<close>

definition HOME_LOCK_TIMEOUT_S :: real where "HOME_LOCK_TIMEOUT_S = 45"
definition OFFBOARD_CONFIRM_TIMEOUT_S :: real where "OFFBOARD_CONFIRM_TIMEOUT_S = 3"
definition TAKEOFF_BUDGET_BASE_S :: real where "TAKEOFF_BUDGET_BASE_S = 15"
definition TAKEOFF_BUDGET_S_PER_M :: real where "TAKEOFF_BUDGET_S_PER_M = 1"
definition LAUNCH_BATCH_SIZE :: nat where "LAUNCH_BATCH_SIZE = 5"
definition LAUNCH_ARM_GRACE_S :: real where "LAUNCH_ARM_GRACE_S = 25 / 10"
definition TAKEOFF_DETECT_ALT_M :: real where "TAKEOFF_DETECT_ALT_M = 5 / 10"
definition FORMATION_ALT_TOLERANCE_M :: real where "FORMATION_ALT_TOLERANCE_M = 5 / 10"

section \<open>Launch failures\<close>

definition track_climb :: "world \<Rightarrow> int \<Rightarrow> real \<Rightarrow> manager \<Rightarrow> manager" where
  "track_climb w d target m =
     (let budget = TAKEOFF_BUDGET_BASE_S + TAKEOFF_BUDGET_S_PER_M * target in
      m\<lparr>mg_climbs := dset d \<lparr>cl_target = target, cl_budget = budget, cl_deadline = wd_mono w + budget,
          cl_reached = False\<rparr> (mg_climbs m)\<rparr>)"

definition record_launch_failure :: "int \<Rightarrow> launch_failure \<Rightarrow> bool \<Rightarrow> manager \<Rightarrow> manager" where
  "record_launch_failure d reason recover m =
     (if map_of (mg_launch_failures m) d \<noteq> None then m
      else m\<lparr>mg_launch_failures := dset d reason (mg_launch_failures m), mg_climbs := dpop d (mg_climbs m),
        mg_recovering := mg_recovering m @ (if recover then [d] else [])\<rparr>)"

definition launch_preempted :: "manager \<Rightarrow> bool" where
  "launch_preempted m \<longleftrightarrow> state_of m \<in> EMERGENCY_STATES"

definition recover_failed_launch :: "world \<Rightarrow> int \<Rightarrow> manager \<Rightarrow> manager" where
  "recover_failed_launch w d m =
     (if state_of m \<in> EMERGENCY_STATES then m
      else case vehicle_of m d of None \<Rightarrow> m
      | Some t \<Rightarrow>
          if \<not> vt_armed t then m
          else if on_ground_now (wd_wall w) t then order_to d [O_Disarm] m
          else if vt_flight_mode t = Some ''OFFBOARD'' then land_one d m
          else m)"

text \<open>The recovery task of a failed drone, when its turn comes.\<close>

definition run_recovery :: "world \<Rightarrow> manager \<Rightarrow> manager" where
  "run_recovery w m =
     (case mg_recovering m of [] \<Rightarrow> m
      | d # ds \<Rightarrow> recover_failed_launch w d (m\<lparr>mg_recovering := ds\<rparr>))"

section \<open>The launch of one drone\<close>

definition running_drones :: "((int, launch_phase) dict \<Rightarrow> (int, launch_phase) dict) \<Rightarrow> manager \<Rightarrow> manager" where
  "running_drones f m =
     (case mg_launch m of
        Some (Launch_At_Work l) \<Rightarrow> m\<lparr>mg_launch := Some (Launch_At_Work (l\<lparr>la_running := f (la_running l)\<rparr>))\<rparr>
      | _ \<Rightarrow> m)"

definition wait_on :: "int \<Rightarrow> launch_phase \<Rightarrow> manager \<Rightarrow> manager" where
  "wait_on d ph = running_drones (dset d ph)"

definition launched :: "int \<Rightarrow> manager \<Rightarrow> manager" where
  "launched d = running_drones (dpop d)"

text \<open>What the awaited call ended in: it returned, it raised, or it ran into its timeout. The wait
  for a drone to become armable also returns when an emergency is seen.\<close>

datatype outcome = Returned | Raised string | Timed_Out

definition launch_called :: "world \<Rightarrow> int \<Rightarrow> manager \<Rightarrow> manager" where
  "launch_called w d m =
     (case vehicle_of m d of None \<Rightarrow> launched d m
      | Some t \<Rightarrow>
          if vt_armed t then launched d (track_climb w d (hover_altitude d) m)
          else if \<not> vt_connected t then launched d (record_launch_failure d LF_Not_Connected False m)
          else wait_on d LP_Wait_Armable (set_vehicle d (\<lambda>t. t\<lparr>vt_aborted := False\<rparr>) m))"

definition armable_known :: "bool \<Rightarrow> int \<Rightarrow> outcome \<Rightarrow> manager \<Rightarrow> manager" where
  "armable_known ekf d r m =
     (case (if ekf then r else Returned) of
        Timed_Out \<Rightarrow> launched d (record_launch_failure d LF_Not_Armable False m)
      | Raised e \<Rightarrow> launched d (record_launch_failure d (LF_Unexpected e) True m)
      | Returned \<Rightarrow> if launch_preempted m then launched d m else wait_on d LP_Arming (order_to d [O_Arm] m))"

definition arm_returned :: "int \<Rightarrow> outcome \<Rightarrow> manager \<Rightarrow> manager" where
  "arm_returned d r m =
     (case r of Returned \<Rightarrow> wait_on d LP_Pad_Setpoint (order_to d [O_Pad_Setpoint] m)
      | Raised e \<Rightarrow> launched d (record_launch_failure d (LF_Arming e) False m)
      | Timed_Out \<Rightarrow> m)"

definition setpoint_returned :: "int \<Rightarrow> outcome \<Rightarrow> manager \<Rightarrow> manager" where
  "setpoint_returned d r m =
     (case r of
        Returned \<Rightarrow> if launch_preempted m then launched d m
          else wait_on d LP_Offboard (order_to d [O_Offboard_Start] m)
      | Raised e \<Rightarrow> launched d (order_to d [O_Disarm] (record_launch_failure d (LF_Setpoint e) False m))
      | Timed_Out \<Rightarrow> m)"

text \<open>One look at the telemetry while confirming OFFBOARD, and what follows an answer.\<close>

definition confirm_offboard :: "world \<Rightarrow> int \<Rightarrow> real \<Rightarrow> manager \<Rightarrow> manager" where
  "confirm_offboard w d deadline m =
     (if state_of m \<in> EMERGENCY_STATES then launched d m
      else case vehicle_of m d of None \<Rightarrow> launched d (record_launch_failure d (LF_Unexpected (py_str d)) True m)
      | Some t \<Rightarrow>
          let fresh = is_heartbeat_fresh (wd_wall w) t in
          if fresh \<and> vt_armed t \<and> vt_flight_mode t = Some ''OFFBOARD''
          then if launch_preempted m then launched d m
               else wait_on d LP_Climb (order_to d [O_Climb (hover_altitude d)] m)
          else if wd_mono w \<ge> deadline
          then launched d (order_to d [O_Disarm] (record_launch_failure d (LF_Not_Offboard (vt_flight_mode t) fresh) False m))
          else wait_on d (LP_Confirm deadline) m)"

definition offboard_returned :: "world \<Rightarrow> int \<Rightarrow> outcome \<Rightarrow> manager \<Rightarrow> manager" where
  "offboard_returned w d r m =
     (case r of
        Returned \<Rightarrow> confirm_offboard w d (wd_mono w + OFFBOARD_CONFIRM_TIMEOUT_S) m
      | Raised e \<Rightarrow> launched d (order_to d [O_Disarm] (record_launch_failure d (LF_Offboard e) False m))
      | Timed_Out \<Rightarrow> m)"

definition climb_returned :: "world \<Rightarrow> int \<Rightarrow> outcome \<Rightarrow> manager \<Rightarrow> manager" where
  "climb_returned w d r m =
     (case r of
        Returned \<Rightarrow> launched d (track_climb w d (hover_altitude d) m)
      | Raised e \<Rightarrow> launched d (order_to d [O_Disarm] (record_launch_failure d (LF_Climb_Command e) False m))
      | Timed_Out \<Rightarrow> m)"

text \<open>\<^verbatim>\<open>_launch_one\<close>, from one await to the next. Only the wait for an armable drone has a timeout.\<close>

definition launch_one :: "world \<Rightarrow> int \<Rightarrow> outcome \<Rightarrow> manager \<Rightarrow> manager" where
  "launch_one w d r m =
     (case mg_launch m of None \<Rightarrow> m
      | Some (Launch_Requested ids ekf) \<Rightarrow> m
      | Some (Launch_At_Work l) \<Rightarrow>
          (case map_of (la_running l) d of
             None \<Rightarrow> m
           | Some LP_Called \<Rightarrow> launch_called w d m
           | Some LP_Wait_Armable \<Rightarrow> armable_known (la_ekf l) d r m
           | Some LP_Arming \<Rightarrow> arm_returned d r m
           | Some LP_Pad_Setpoint \<Rightarrow> setpoint_returned d r m
           | Some LP_Offboard \<Rightarrow> offboard_returned w d r m
           | Some (LP_Confirm deadline) \<Rightarrow> confirm_offboard w d deadline m
           | Some LP_Climb \<Rightarrow> climb_returned w d r m))"

section \<open>The launch task\<close>

fun batches :: "nat \<Rightarrow> int list \<Rightarrow> int list list" where
  "batches n ids = (if ids = [] \<or> n = 0 then [] else take n ids # batches n (drop n ids))"

declare batches.simps [simp del]

definition launch_ids :: "(bytes \<Rightarrow> bytes) \<Rightarrow> int list option \<Rightarrow> manager \<Rightarrow> int list option" where
  "launch_ids sha256 ids m =
     (let gate = launch_gate sha256 (mg_stage m) in
      case ids of
        None \<Rightarrow> if gt_ok gate then Some (filter (\<lambda>d. \<not> is_aborted m d) (gt_armable gate)) else None
      | Some ds \<Rightarrow>
          let known = filter (\<lambda>d. d \<in> fst ` set (telemetry_of m)) ds in
          if dm_staged (mg_stage m) = None then Some known
          else if gt_ok gate then Some (filter (\<lambda>d. d \<in> set (gt_armable gate)) known) else None)"

definition start_launch_sequence :: "int list option \<Rightarrow> bool \<Rightarrow> manager \<Rightarrow> manager" where
  "start_launch_sequence ids ekf m =
     m\<lparr>mg_launch_finished_at := None, mg_launch := Some (Launch_Requested ids ekf)\<rparr>"

text \<open>\<^verbatim>\<open>launch_sequence\<close> up to the first batch. A refusal of the launch gate ends the task at once.\<close>

definition begin_launch ::
  "(bytes \<Rightarrow> bytes) \<Rightarrow> world \<Rightarrow> int list option \<Rightarrow> bool \<Rightarrow> manager \<Rightarrow> manager"
where
  "begin_launch sha256 w ids ekf m =
     (let clean = m\<lparr>mg_launch_planned := [], mg_launch_failures := [], mg_climbs := []\<rparr> in
      case launch_ids sha256 ids m of
        None \<Rightarrow> clean\<lparr>mg_launch := None, mg_launch_finished_at := Some (wd_mono w)\<rparr>
      | Some ds \<Rightarrow> clean\<lparr>mg_launch_planned := ds,
          mg_launch := Some (Launch_At_Work \<lparr>la_running = [], la_batches = batches LAUNCH_BATCH_SIZE ds, la_ekf = ekf\<rparr>)\<rparr>)"

text \<open>The launch task itself: its beginning, and once every drone of a batch is done the next batch,
  or the end of the task.\<close>

definition launch_task_step :: "(bytes \<Rightarrow> bytes) \<Rightarrow> world \<Rightarrow> manager \<Rightarrow> manager" where
  "launch_task_step sha256 w m =
     (case mg_launch m of None \<Rightarrow> m
      | Some (Launch_Requested ids ekf) \<Rightarrow> begin_launch sha256 w ids ekf m
      | Some (Launch_At_Work l) \<Rightarrow>
          if la_running l \<noteq> [] then m
          else (case la_batches l of
             [] \<Rightarrow> m\<lparr>mg_launch := None, mg_launch_finished_at := Some (wd_mono w)\<rparr>
           | b # bs \<Rightarrow> m\<lparr>mg_launch := Some (Launch_At_Work
               (l\<lparr>la_running := map (\<lambda>d. (d, LP_Called)) b, la_batches := bs\<rparr>))\<rparr>))"

definition launch_in_progress :: "manager \<Rightarrow> bool" where
  "launch_in_progress m \<longleftrightarrow> mg_launch m \<noteq> None"

section \<open>The lifecycle monitor\<close>

definition check_climb :: "world \<Rightarrow> manager \<Rightarrow> int \<times> climb \<Rightarrow> manager" where
  "check_climb w m dc =
     (case dc of (d, c) \<Rightarrow>
        (case vehicle_of m d of None \<Rightarrow> m
         | Some t \<Rightarrow>
             let z = altitude_of t in
             if \<not> vt_armed t then record_launch_failure d (LF_Disarmed z (cl_target c)) False m
             else if vt_flight_mode t \<noteq> Some ''OFFBOARD''
             then record_launch_failure d (LF_Left_Offboard (vt_flight_mode t) z) False m
             else if z \<ge> cl_target c - FORMATION_ALT_TOLERANCE_M
             then m\<lparr>mg_climbs := dset d (c\<lparr>cl_reached := True\<rparr>) (mg_climbs m)\<rparr>
             else if \<not> cl_reached c \<and> wd_mono w > cl_deadline c
             then record_launch_failure d (LF_Short z (cl_target c) (cl_budget c)) True m
             else m))"

definition check_climbs :: "world \<Rightarrow> manager \<Rightarrow> manager" where
  "check_climbs w m = foldl (check_climb w) m (mg_climbs m)"

definition in_formation :: "manager \<Rightarrow> int \<Rightarrow> bool" where
  "in_formation m d =
     (case vehicle_of m d of None \<Rightarrow> False
      | Some t \<Rightarrow> vt_armed t \<and> vt_flight_mode t = Some ''OFFBOARD'' \<and>
          altitude_of t \<ge> hover_altitude d - FORMATION_ALT_TOLERANCE_M)"

definition armed_vehicles :: "manager \<Rightarrow> (int \<times> vehicle) list" where
  "armed_vehicles m = filter (\<lambda>(i, t). vt_armed t) (telemetry_of m)"

definition at_altitude :: "manager \<Rightarrow> bool" where
  "at_altitude m =
     (if mg_launch_planned m \<noteq> []
      then mg_launch_failures m = [] \<and> list_all (in_formation m) (mg_launch_planned m)
      else list_all (\<lambda>(i, t). altitude_of t \<ge> hover_altitude i - FORMATION_ALT_TOLERANCE_M) (armed_vehicles m))"

definition advance_phase :: "world \<Rightarrow> lifecycle \<Rightarrow> bool \<Rightarrow> (int \<times> vehicle) list \<Rightarrow> manager \<Rightarrow> manager" where
  "advance_phase w st launching armed m =
     (if st = S_PREARM then
        (if armed \<noteq> [] then advance w st S_ARMED ''telemetry:first_drone_armed'' m
         else if \<not> launching \<and> (case mg_launch_finished_at m of None \<Rightarrow> True
             | Some ended \<Rightarrow> wd_mono w - ended \<ge> LAUNCH_ARM_GRACE_S)
         then advance w st S_STAGED ''launch_failed:no_drone_armed'' m else m)
      else if st = S_ARMED then
        (if list_ex (\<lambda>(i, t). altitude_of t \<ge> TAKEOFF_DETECT_ALT_M) armed
         then advance w st S_TAKEOFF ''telemetry:climbing'' m else m)
      else if st = S_TAKEOFF then
        (if at_altitude m \<and> \<not> launching
         then (advance w st S_FORMATION_HOLD ''telemetry:formation_altitude_reached'' m)\<lparr>mg_climbs := []\<rparr> else m)
      else m)"

definition evaluate_lifecycle :: "world \<Rightarrow> manager \<Rightarrow> manager" where
  "evaluate_lifecycle w m =
     (let st = state_of m; launching = launch_in_progress m; armed = armed_vehicles m in
      if st \<in> AIRBORNE_STATES \<and> armed = [] \<and> \<not> launching
      then let m1 = (if st = S_RUNNING then stop_trajectory w m else m) in
        m1\<lparr>mg_fsm := snd (fsm_transition (wd_env w) (wd_wall w) S_DISARMED SYSTEM_OPERATOR ''telemetry:all_disarmed'' (mg_fsm m1))\<rparr>
      else advance_phase w st launching armed
        (if mg_climbs m \<noteq> [] \<and> st \<in> {S_PREARM, S_ARMED, S_TAKEOFF} then check_climbs w m else m))"

section \<open>Lemmas: what the operations leave alone\<close>

lemma track_climb_frame [simp]:
  "mg_stage (track_climb w d z m) = mg_stage m" "mg_fsm (track_climb w d z m) = mg_fsm m"
  "mg_launch (track_climb w d z m) = mg_launch m"
  "mg_launch_failures (track_climb w d z m) = mg_launch_failures m"
  "mg_launch_planned (track_climb w d z m) = mg_launch_planned m"
  "mg_loop (track_climb w d z m) = mg_loop m" "mg_orders (track_climb w d z m) = mg_orders m"
  by (simp_all add: track_climb_def Let_def)

lemma record_launch_failure_frame [simp]:
  "mg_stage (record_launch_failure d r rec m) = mg_stage m"
  "mg_fsm (record_launch_failure d r rec m) = mg_fsm m"
  "mg_launch (record_launch_failure d r rec m) = mg_launch m"
  "mg_launch_planned (record_launch_failure d r rec m) = mg_launch_planned m"
  "mg_loop (record_launch_failure d r rec m) = mg_loop m"
  "mg_orders (record_launch_failure d r rec m) = mg_orders m"
  by (simp_all add: record_launch_failure_def)

lemma running_drones_frame [simp]:
  "mg_stage (running_drones f m) = mg_stage m" "mg_fsm (running_drones f m) = mg_fsm m"
  "mg_launch_failures (running_drones f m) = mg_launch_failures m"
  "mg_launch_planned (running_drones f m) = mg_launch_planned m"
  "mg_climbs (running_drones f m) = mg_climbs m" "mg_loop (running_drones f m) = mg_loop m"
  "mg_orders (running_drones f m) = mg_orders m"
  by (simp_all add: running_drones_def split: option.split launch_task.split)

lemma wait_on_frame [simp]:
  "mg_stage (wait_on d ph m) = mg_stage m" "mg_fsm (wait_on d ph m) = mg_fsm m"
  "mg_launch_failures (wait_on d ph m) = mg_launch_failures m"
  "mg_launch_planned (wait_on d ph m) = mg_launch_planned m"
  "mg_climbs (wait_on d ph m) = mg_climbs m" "mg_loop (wait_on d ph m) = mg_loop m"
  "mg_orders (wait_on d ph m) = mg_orders m"
  by (simp_all add: wait_on_def)

lemma launched_frame [simp]:
  "mg_stage (launched d m) = mg_stage m" "mg_fsm (launched d m) = mg_fsm m"
  "mg_launch_failures (launched d m) = mg_launch_failures m"
  "mg_launch_planned (launched d m) = mg_launch_planned m" "mg_climbs (launched d m) = mg_climbs m"
  "mg_loop (launched d m) = mg_loop m" "mg_orders (launched d m) = mg_orders m"
  by (simp_all add: launched_def)

lemma check_climb_frame [simp]:
  "mg_stage (check_climb w m dc) = mg_stage m" "mg_fsm (check_climb w m dc) = mg_fsm m"
  "mg_launch (check_climb w m dc) = mg_launch m"
  "mg_launch_planned (check_climb w m dc) = mg_launch_planned m"
  "mg_loop (check_climb w m dc) = mg_loop m" "mg_orders (check_climb w m dc) = mg_orders m"
  by (simp_all add: check_climb_def Let_def split: prod.split option.split)

lemma check_climbs_frame [simp]:
  "mg_stage (check_climbs w m) = mg_stage m" "mg_fsm (check_climbs w m) = mg_fsm m"
  "mg_launch (check_climbs w m) = mg_launch m"
  "mg_launch_planned (check_climbs w m) = mg_launch_planned m"
  "mg_loop (check_climbs w m) = mg_loop m" "mg_orders (check_climbs w m) = mg_orders m"
  by (simp_all add: check_climbs_def foldl_keeps[where F = mg_stage] foldl_keeps[where F = mg_fsm]
    foldl_keeps[where F = mg_launch] foldl_keeps[where F = mg_launch_planned] foldl_keeps[where F = mg_loop]
    foldl_keeps[where F = mg_orders])

lemma recovery_frame [simp]:
  "mg_stage (run_recovery w m) = mg_stage m" "mg_fsm (run_recovery w m) = mg_fsm m"
  "mg_launch (run_recovery w m) = mg_launch m"
  "mg_launch_failures (run_recovery w m) = mg_launch_failures m"
  "mg_launch_planned (run_recovery w m) = mg_launch_planned m"
  "mg_climbs (run_recovery w m) = mg_climbs m" "mg_loop (run_recovery w m) = mg_loop m"
  by (simp_all add: run_recovery_def recover_failed_launch_def one_defs split: list.split option.split)

text \<open>A failure on record stays on record.\<close>

lemma record_launch_failure_keeps:
  "mg_launch_failures m \<noteq> [] \<Longrightarrow> mg_launch_failures (record_launch_failure d r rec m) \<noteq> []"
  by (cases "mg_launch_failures m") (auto simp: record_launch_failure_def)

lemma check_climbs_keeps: "mg_launch_failures m \<noteq> [] \<Longrightarrow> mg_launch_failures (check_climbs w m) \<noteq> []"
proof -
  have "mg_launch_failures m \<noteq> [] \<Longrightarrow> mg_launch_failures (foldl (check_climb w) m dcs) \<noteq> []" for dcs
    by (induction dcs arbitrary: m)
      (auto simp: check_climb_def Let_def record_launch_failure_keeps split: prod.split option.split)
  then show "mg_launch_failures m \<noteq> [] \<Longrightarrow> ?thesis" by (simp add: check_climbs_def)
qed

text \<open>The task of a launch that has begun does not begin again.\<close>

definition launch_begun :: "manager \<Rightarrow> bool" where
  "launch_begun m \<longleftrightarrow> (\<forall>ids ekf. mg_launch m \<noteq> Some (Launch_Requested ids ekf))"

lemma running_drones_launch: "mg_launch (running_drones f m) = (case mg_launch m of
    Some (Launch_At_Work l) \<Rightarrow> Some (Launch_At_Work (l\<lparr>la_running := f (la_running l)\<rparr>)) | x \<Rightarrow> x)"
  by (simp add: running_drones_def split: option.split launch_task.split)

lemma drones_of_task [simp]:
  "launch_begun m \<Longrightarrow> launch_begun (wait_on d ph m)" "launch_begun m \<Longrightarrow> launch_begun (launched d m)"
  "launch_in_progress (wait_on d ph m) = launch_in_progress m" "launch_in_progress (launched d m) = launch_in_progress m"
  by (auto simp: launch_begun_def launch_in_progress_def wait_on_def launched_def running_drones_launch split: option.split launch_task.split)

lemma launch_begun_cong: "mg_launch m' = mg_launch m \<Longrightarrow> launch_begun m' = launch_begun m"
  by (simp add: launch_begun_def)

lemma launch_in_progress_cong: "mg_launch m' = mg_launch m \<Longrightarrow> launch_in_progress m' = launch_in_progress m"
  by (simp add: launch_in_progress_def)

lemmas launch_in_progress_frames [simp] = launch_in_progress_cong[OF order_to_frame(3)]
  launch_in_progress_cong[OF set_vehicle_frame(2)] launch_in_progress_cong[OF track_climb_frame(3)]
  launch_in_progress_cong[OF record_launch_failure_frame(3)]

lemmas launch_begun_frames [simp] = launch_begun_cong[OF order_to_frame(3)] launch_begun_cong[OF set_vehicle_frame(2)]
  launch_begun_cong[OF track_climb_frame(3)] launch_begun_cong[OF record_launch_failure_frame(3)]

lemma launch_called_frame [simp]:
  "mg_fsm (launch_called w d m) = mg_fsm m" "mg_launch_planned (launch_called w d m) = mg_launch_planned m"
  "mg_loop (launch_called w d m) = mg_loop m"
  "mg_launch_failures m \<noteq> [] \<Longrightarrow> mg_launch_failures (launch_called w d m) \<noteq> []"
  "launch_begun m \<Longrightarrow> launch_begun (launch_called w d m)" "launch_in_progress (launch_called w d m) = launch_in_progress m"
  by (simp_all add: launch_called_def Let_def record_launch_failure_keeps split: option.split)

lemma armable_known_frame [simp]:
  "mg_fsm (armable_known e d r m) = mg_fsm m" "mg_launch_planned (armable_known e d r m) = mg_launch_planned m"
  "mg_loop (armable_known e d r m) = mg_loop m"
  "mg_launch_failures m \<noteq> [] \<Longrightarrow> mg_launch_failures (armable_known e d r m) \<noteq> []"
  "launch_begun m \<Longrightarrow> launch_begun (armable_known e d r m)" "launch_in_progress (armable_known e d r m) = launch_in_progress m"
  by (simp_all add: armable_known_def Let_def record_launch_failure_keeps split: outcome.split)

lemma arm_returned_frame [simp]:
  "mg_fsm (arm_returned d r m) = mg_fsm m" "mg_launch_planned (arm_returned d r m) = mg_launch_planned m"
  "mg_loop (arm_returned d r m) = mg_loop m"
  "mg_launch_failures m \<noteq> [] \<Longrightarrow> mg_launch_failures (arm_returned d r m) \<noteq> []"
  "launch_begun m \<Longrightarrow> launch_begun (arm_returned d r m)" "launch_in_progress (arm_returned d r m) = launch_in_progress m"
  by (simp_all add: arm_returned_def Let_def record_launch_failure_keeps split: outcome.split)

lemma setpoint_returned_frame [simp]:
  "mg_fsm (setpoint_returned d r m) = mg_fsm m" "mg_launch_planned (setpoint_returned d r m) = mg_launch_planned m"
  "mg_loop (setpoint_returned d r m) = mg_loop m"
  "mg_launch_failures m \<noteq> [] \<Longrightarrow> mg_launch_failures (setpoint_returned d r m) \<noteq> []"
  "launch_begun m \<Longrightarrow> launch_begun (setpoint_returned d r m)" "launch_in_progress (setpoint_returned d r m) = launch_in_progress m"
  by (simp_all add: setpoint_returned_def Let_def record_launch_failure_keeps split: outcome.split)

lemma confirm_offboard_frame [simp]:
  "mg_fsm (confirm_offboard w d t m) = mg_fsm m" "mg_launch_planned (confirm_offboard w d t m) = mg_launch_planned m"
  "mg_loop (confirm_offboard w d t m) = mg_loop m"
  "mg_launch_failures m \<noteq> [] \<Longrightarrow> mg_launch_failures (confirm_offboard w d t m) \<noteq> []"
  "launch_begun m \<Longrightarrow> launch_begun (confirm_offboard w d t m)" "launch_in_progress (confirm_offboard w d t m) = launch_in_progress m"
  by (simp_all add: confirm_offboard_def Let_def record_launch_failure_keeps split: option.split)

lemma offboard_returned_frame [simp]:
  "mg_fsm (offboard_returned w d r m) = mg_fsm m" "mg_launch_planned (offboard_returned w d r m) = mg_launch_planned m"
  "mg_loop (offboard_returned w d r m) = mg_loop m"
  "mg_launch_failures m \<noteq> [] \<Longrightarrow> mg_launch_failures (offboard_returned w d r m) \<noteq> []"
  "launch_begun m \<Longrightarrow> launch_begun (offboard_returned w d r m)" "launch_in_progress (offboard_returned w d r m) = launch_in_progress m"
  by (simp_all add: offboard_returned_def Let_def record_launch_failure_keeps split: outcome.split)

lemma climb_returned_frame [simp]:
  "mg_fsm (climb_returned w d r m) = mg_fsm m" "mg_launch_planned (climb_returned w d r m) = mg_launch_planned m"
  "mg_loop (climb_returned w d r m) = mg_loop m"
  "mg_launch_failures m \<noteq> [] \<Longrightarrow> mg_launch_failures (climb_returned w d r m) \<noteq> []"
  "launch_begun m \<Longrightarrow> launch_begun (climb_returned w d r m)" "launch_in_progress (climb_returned w d r m) = launch_in_progress m"
  by (simp_all add: climb_returned_def Let_def record_launch_failure_keeps split: outcome.split)

lemma launch_one_frame [simp]:
  "mg_fsm (launch_one w d r m) = mg_fsm m" "mg_launch_planned (launch_one w d r m) = mg_launch_planned m"
  "mg_loop (launch_one w d r m) = mg_loop m"
  "mg_launch_failures m \<noteq> [] \<Longrightarrow> mg_launch_failures (launch_one w d r m) \<noteq> []"
  "launch_begun m \<Longrightarrow> launch_begun (launch_one w d r m)"
  "launch_in_progress (launch_one w d r m) = launch_in_progress m"
  by (simp_all add: launch_one_def split: option.split launch_task.split launch_phase.split)

section \<open>Lemmas: the orders of a launch\<close>

text \<open>No step of a launch is a setpoint of the playback, and once the fleet is in an emergency none of
  them puts a drone further into the air.\<close>

lemma launch_called_orders:
  "adds_orders (\<lambda>x. \<not> is_setpoint (snd x)) m (launch_called w d m)"
  "state_of m \<in> EMERGENCY_STATES \<Longrightarrow> adds_orders (\<lambda>x. \<not> drives (snd x)) m (launch_called w d m)"
  by (simp_all add: launch_called_def adds_orders_def Let_def launch_preempted_def split: option.split)

lemma armable_known_orders:
  "adds_orders (\<lambda>x. \<not> is_setpoint (snd x)) m (armable_known e d r m)"
  "state_of m \<in> EMERGENCY_STATES \<Longrightarrow> adds_orders (\<lambda>x. \<not> drives (snd x)) m (armable_known e d r m)"
  by (simp_all add: armable_known_def adds_orders_def Let_def launch_preempted_def split: outcome.split)

lemma arm_returned_orders:
  "adds_orders (\<lambda>x. \<not> is_setpoint (snd x)) m (arm_returned d r m)"
  "state_of m \<in> EMERGENCY_STATES \<Longrightarrow> adds_orders (\<lambda>x. \<not> drives (snd x)) m (arm_returned d r m)"
  by (simp_all add: arm_returned_def adds_orders_def Let_def launch_preempted_def split: outcome.split)

lemma setpoint_returned_orders:
  "adds_orders (\<lambda>x. \<not> is_setpoint (snd x)) m (setpoint_returned d r m)"
  "state_of m \<in> EMERGENCY_STATES \<Longrightarrow> adds_orders (\<lambda>x. \<not> drives (snd x)) m (setpoint_returned d r m)"
  by (simp_all add: setpoint_returned_def adds_orders_def Let_def launch_preempted_def split: outcome.split)

lemma confirm_offboard_orders:
  "adds_orders (\<lambda>x. \<not> is_setpoint (snd x)) m (confirm_offboard w d t m)"
  "state_of m \<in> EMERGENCY_STATES \<Longrightarrow> adds_orders (\<lambda>x. \<not> drives (snd x)) m (confirm_offboard w d t m)"
  by (simp_all add: confirm_offboard_def adds_orders_def Let_def launch_preempted_def split: option.split)

lemma offboard_returned_orders:
  "adds_orders (\<lambda>x. \<not> is_setpoint (snd x)) m (offboard_returned w d r m)"
  "state_of m \<in> EMERGENCY_STATES \<Longrightarrow> adds_orders (\<lambda>x. \<not> drives (snd x)) m (offboard_returned w d r m)"
  by (simp_all add: offboard_returned_def adds_orders_def confirm_offboard_orders[unfolded adds_orders_def] Let_def launch_preempted_def split: outcome.split)

lemma climb_returned_orders:
  "adds_orders (\<lambda>x. \<not> is_setpoint (snd x)) m (climb_returned w d r m)"
  "state_of m \<in> EMERGENCY_STATES \<Longrightarrow> adds_orders (\<lambda>x. \<not> drives (snd x)) m (climb_returned w d r m)"
  by (simp_all add: climb_returned_def adds_orders_def Let_def launch_preempted_def split: outcome.split)

lemmas drone_orders = launch_called_orders armable_known_orders arm_returned_orders setpoint_returned_orders
  confirm_offboard_orders offboard_returned_orders climb_returned_orders

lemma launch_one_orders:
  "adds_orders (\<lambda>x. \<not> is_setpoint (snd x)) m (launch_one w d r m)"
  "state_of m \<in> EMERGENCY_STATES \<Longrightarrow> adds_orders (\<lambda>x. \<not> drives (snd x)) m (launch_one w d r m)"
  by (simp_all add: launch_one_def drone_orders split: option.split launch_task.split launch_phase.split)

lemma run_recovery_orders: "adds_orders (\<lambda>x. \<not> drives (snd x)) m (run_recovery w m)"
  by (simp add: run_recovery_def recover_failed_launch_def one_defs adds_orders_def split: list.split option.split)

section \<open>Lemmas: the lifecycle monitor\<close>

text \<open>The monitor alone takes the fleet to formation, and only when everyone is there.\<close>

lemma check_climbs_state [simp]: "state_of (check_climbs w m) = state_of m"
  by simp

lemma evaluate_lifecycle_frame [simp]:
  "mg_launch (evaluate_lifecycle w m) = mg_launch m" "mg_launch_planned (evaluate_lifecycle w m) = mg_launch_planned m"
  "mg_orders (evaluate_lifecycle w m) = mg_orders m" "mg_stage (evaluate_lifecycle w m) = mg_stage m"
  "mg_launch_failures m \<noteq> [] \<Longrightarrow> mg_launch_failures (evaluate_lifecycle w m) \<noteq> []"
  "mg_loop m = None \<Longrightarrow> mg_loop (evaluate_lifecycle w m) = None"
  by (simp_all add: evaluate_lifecycle_def advance_phase_def Let_def check_climbs_keeps)

lemma evaluate_lifecycle_state:
  "state_of (evaluate_lifecycle w m) =
    (if state_of m \<in> AIRBORNE_STATES \<and> armed_vehicles m = [] \<and> \<not> launch_in_progress m then S_DISARMED
     else state_of (advance_phase w (state_of m) (launch_in_progress m) (armed_vehicles m)
       (if mg_climbs m \<noteq> [] \<and> state_of m \<in> {S_PREARM, S_ARMED, S_TAKEOFF} then check_climbs w m else m)))"
  by (auto simp: evaluate_lifecycle_def Let_def transition_state AIRBORNE_STATES_def can_transition_def EMERGENCY_STATES_def)

lemma at_altitude_cong:
  assumes "mg_stage m' = mg_stage m" and "mg_launch_planned m' = mg_launch_planned m"
    and "mg_launch_failures m' = [] \<Longrightarrow> mg_launch_failures m = []"
  shows "at_altitude m' \<Longrightarrow> at_altitude m"
proof -
  have "in_formation m' = in_formation m" "armed_vehicles m' = armed_vehicles m"
    using assms(1) by (simp_all add: in_formation_def fun_eq_iff armed_vehicles_def)
  then show "at_altitude m' \<Longrightarrow> at_altitude m" using assms by (auto simp: at_altitude_def split: if_splits)
qed

lemma at_altitude_check_climbs: "at_altitude (check_climbs w m) \<Longrightarrow> at_altitude m"
  by (rule at_altitude_cong) (use check_climbs_keeps[of m w] in auto)

text \<open>Every move the monitor makes.\<close>

lemma advance_phase_moves:
  assumes "state_of (advance_phase w (state_of m) launching armed m) \<noteq> state_of m"
  shows "(state_of (advance_phase w (state_of m) launching armed m), state_of m) \<in>
      {(S_ARMED, S_PREARM), (S_TAKEOFF, S_ARMED)} \<or>
    \<not> launching \<and> ((state_of (advance_phase w (state_of m) launching armed m), state_of m) = (S_STAGED, S_PREARM) \<or>
      (state_of (advance_phase w (state_of m) launching armed m), state_of m) = (S_FORMATION_HOLD, S_TAKEOFF) \<and> at_altitude m)"
  using assms by (cases "state_of m") (auto simp: advance_phase_def advance_state split: if_splits)

lemma evaluate_lifecycle_moves:
  assumes "state_of (evaluate_lifecycle w m) \<noteq> state_of m"
  shows "(state_of (evaluate_lifecycle w m) = S_DISARMED \<and> \<not> launch_in_progress m) \<or>
    (state_of (evaluate_lifecycle w m) = S_STAGED \<and> state_of m = S_PREARM \<and> \<not> launch_in_progress m) \<or>
    (state_of (evaluate_lifecycle w m) = S_ARMED \<and> state_of m = S_PREARM) \<or>
    (state_of (evaluate_lifecycle w m) = S_TAKEOFF \<and> state_of m = S_ARMED) \<or>
    (state_of (evaluate_lifecycle w m) = S_FORMATION_HOLD \<and> state_of m = S_TAKEOFF \<and>
      \<not> launch_in_progress m \<and> at_altitude m)"
proof -
  define m1 where "m1 = (if mg_climbs m \<noteq> [] \<and> state_of m \<in> {S_PREARM, S_ARMED, S_TAKEOFF} then check_climbs w m else m)"
  have alt: "at_altitude m1 \<Longrightarrow> at_altitude m" by (simp add: m1_def at_altitude_check_climbs split: if_splits)
  have st: "state_of m = state_of m1" by (simp add: m1_def)
  show ?thesis
  proof (cases "state_of m \<in> AIRBORNE_STATES \<and> armed_vehicles m = [] \<and> \<not> launch_in_progress m")
    case True
    then show ?thesis by (simp add: evaluate_lifecycle_state)
  next
    case False
    then have "state_of (evaluate_lifecycle w m) =
        state_of (advance_phase w (state_of m) (launch_in_progress m) (armed_vehicles m) m1)"
      unfolding evaluate_lifecycle_state m1_def by (simp only: if_False)
    then show ?thesis
      using advance_phase_moves[of w m1 "launch_in_progress m" "armed_vehicles m"] assms alt unfolding st by auto
  qed
qed

section \<open>Lemmas: failures on record\<close>

definition more_failures :: "manager \<Rightarrow> manager \<Rightarrow> bool" where
  "more_failures m m' \<longleftrightarrow> (\<forall>d e. map_of (mg_launch_failures m) d = Some e \<longrightarrow> map_of (mg_launch_failures m') d = Some e)"

lemma more_failures_same [simp]: "mg_launch_failures m' = mg_launch_failures m \<Longrightarrow> more_failures m m'"
  by (simp add: more_failures_def)

lemma more_failures_trans: "more_failures m1 m2 \<Longrightarrow> more_failures m2 m3 \<Longrightarrow> more_failures m1 m3"
  by (simp add: more_failures_def)

lemma record_more_failures [simp]: "more_failures m0 m \<Longrightarrow> more_failures m0 (record_launch_failure d r rec m)"
  by (auto simp: more_failures_def record_launch_failure_def map_of_dset)

lemma more_failures_cong: "mg_launch_failures m' = mg_launch_failures m \<Longrightarrow> more_failures m0 m' = more_failures m0 m"
  by (simp add: more_failures_def)

lemmas more_failures_frames [simp] = more_failures_cong[OF order_to_frame(4)] more_failures_cong[OF wait_on_frame(3)]
  more_failures_cong[OF launched_frame(3)] more_failures_cong[OF set_vehicle_frame(3)] more_failures_cong[OF track_climb_frame(4)]

lemma more_failures_climbs [simp]: "more_failures m0 (m\<lparr>mg_climbs := c\<rparr>) = more_failures m0 m"
  by (simp add: more_failures_def)

lemma launch_called_more_failures [simp]: "more_failures m (launch_called w d m)"
  by (simp add: launch_called_def Let_def split: option.split)

lemma armable_known_more_failures [simp]: "more_failures m (armable_known e d r m)"
  by (simp add: armable_known_def Let_def split: outcome.split)

lemma arm_returned_more_failures [simp]: "more_failures m (arm_returned d r m)"
  by (simp add: arm_returned_def Let_def split: outcome.split)

lemma setpoint_returned_more_failures [simp]: "more_failures m (setpoint_returned d r m)"
  by (simp add: setpoint_returned_def Let_def split: outcome.split)

lemma confirm_offboard_more_failures [simp]: "more_failures m (confirm_offboard w d t m)"
  by (simp add: confirm_offboard_def Let_def split: option.split)

lemma offboard_returned_more_failures [simp]: "more_failures m (offboard_returned w d r m)"
  by (simp add: offboard_returned_def Let_def split: outcome.split)

lemma climb_returned_more_failures [simp]: "more_failures m (climb_returned w d r m)"
  by (simp add: climb_returned_def Let_def split: outcome.split)

lemma launch_one_more_failures: "more_failures m (launch_one w d r m)"
  by (simp add: launch_one_def split: option.split launch_task.split launch_phase.split)

lemma check_climbs_more_failures: "more_failures m (check_climbs w m)"
proof -
  have "more_failures m (foldl (check_climb w) m' dcs)" if "more_failures m m'" for m' dcs
    using that
  proof (induction dcs arbitrary: m')
    case (Cons dc dcs)
    have "more_failures m (check_climb w m' dc)"
      using Cons.prems by (simp add: check_climb_def Let_def split: prod.split option.split)
    then show ?case using Cons.IH by simp
  qed simp
  then show ?thesis by (simp add: check_climbs_def)
qed

lemma evaluate_failures: "mg_launch_failures (evaluate_lifecycle w m) = mg_launch_failures m \<or>
    mg_launch_failures (evaluate_lifecycle w m) = mg_launch_failures (check_climbs w m)"
  by (simp add: evaluate_lifecycle_def advance_phase_def Let_def)

lemma evaluate_more_failures: "more_failures m (evaluate_lifecycle w m)"
  using check_climbs_more_failures[of m w] evaluate_failures[of w m] by (auto simp: more_failures_def)
end
