(* ===== verification/Playback.thy ===== *)
theory Playback
  imports Manager Abort_Clearance
begin

text \<open>
  Flying the show, in \<^verbatim>\<open>packages/tara-gcs/tara_gcs/drone_manager.py\<close>: the checks and the plan of
  \<^verbatim>\<open>start_trajectory\<close>, the playback task cut at its awaits (clock synchronisation, the broadcast
  trigger of an onboard show, the setpoints of a tick, and how the task ends), the abort of one drone,
  telemetry recording, and the saved show a restart can resume. Feed-forward acceleration is absent
  from waypoints, so the setpoint carries none.
\<close>

section \<open>The geofence of a show\<close>

definition apply_geofence_envelope :: "choreography \<Rightarrow> manager \<Rightarrow> manager" where
  "apply_geofence_envelope traj m =
     (case (case from_any (AlreadyShow traj) of Inl e \<Rightarrow> None
            | Inr s \<Rightarrow> (case geofence_envelope s DEFAULT_LIMITS of Inl e \<Rightarrow> None | Inr env \<Rightarrow> Some env)) of
        None \<Rightarrow> m\<lparr>mg_geofence_radius := geofence_radius_m DEFAULT_LIMITS, mg_soft_radius := None\<rparr>
      | Some env \<Rightarrow> m\<lparr>mg_geofence_radius := en_hard_radius env, mg_soft_radius := Some (en_soft_radius env)\<rparr>)"

section \<open>Starting a show\<close>

datatype start_error =
    Unknown_Execution string
  | No_Radio
  | Show_Not_Uploaded
  | Show_Id_Error mission_error
  | None_Verified
  | Bridge_Refused bridge_error

definition onboard_show_plan :: "(bytes \<Rightarrow> bytes) \<Rightarrow> choreography \<Rightarrow> manager \<Rightarrow> start_error + choreography" where
  "onboard_show_plan sha256 traj m =
     (if \<not> mg_has_radio m then Inl No_Radio
      else case dm_staged (mg_stage m) of None \<Rightarrow> Inl Show_Not_Uploaded
      | Some staged \<Rightarrow>
          (case compute_show_id sha256 (AlreadyShow traj) of Inl e \<Rightarrow> Inl (Show_Id_Error e)
           | Inr sid \<Rightarrow>
               if sid \<noteq> sg_show_id staged then Inl Show_Not_Uploaded
               else let verified = map fst (filter (\<lambda>(d, e). ue_status e = VERIFIED) (sg_drones staged)) in
                 if verified = [] then Inl None_Verified
                 else Inr (map (\<lambda>d. (d, the (map_of (sg_trajectory staged) d))) verified)))"

text \<open>The drones whose position is known well enough to plan from, in the frame of the show.\<close>

definition hold_positions :: "real \<Rightarrow> fleet \<Rightarrow> (int, point3) dict" where
  "hold_positions wall tel =
     map (\<lambda>(i, t). (i, case vt_fleet t of (x, y, z) \<Rightarrow> (x, y, - z)))
       (filter (\<lambda>(i, t). is_heartbeat_fresh wall t \<and> recent wall (vt_position_at t)) tel)"

definition streamed_show_plan :: "near_pairs \<Rightarrow> real \<Rightarrow> choreography \<Rightarrow> manager \<Rightarrow> start_error + choreography \<times> real" where
  "streamed_show_plan near wall traj m =
     (case build_start_bridge near (remap_trajectory_to_healthy_drones (telemetry_of m) traj)
             (hold_positions wall (telemetry_of m)) (mg_peak_speed m) of
        Inl e \<Rightarrow> Inl (Bridge_Refused e) | Inr (plan, bridge_s) \<Rightarrow> Inr (plan, bridge_s))"

definition start_recording :: "manager \<Rightarrow> manager" where
  "start_recording m = (stop_recording m)\<lparr>mg_log := [], mg_recording := True\<rparr>"

definition begin_show ::
  "world \<Rightarrow> choreography \<Rightarrow> string \<Rightarrow> real \<Rightarrow> execution \<Rightarrow> choreography \<Rightarrow> real \<Rightarrow> manager \<Rightarrow> manager"
where
  "begin_show w traj mode trigger_ms ex plan bridge_s m =
     (let m1 = stop_trajectory w m;
          m2 = apply_geofence_envelope traj (m1\<lparr>mg_stage := (mg_stage m1)\<lparr>dm_active := Some traj\<rparr>\<rparr>);
          m3 = start_recording (m2\<lparr>mg_show_mode := mode, mg_show_started_at := Some (wd_wall w), mg_bridge_s := bridge_s,
                 mg_playing_trajectory := Some plan, mg_playing := True\<rparr>)
      in m3\<lparr>mg_snapshotting := True,
           mg_loop := Some \<lparr>pb_plan = plan, pb_mode = mode, pb_execution = ex, pb_phase = PB_Called trigger_ms\<rparr>\<rparr>)"

definition start_trajectory ::
  "(bytes \<Rightarrow> bytes) \<Rightarrow> near_pairs \<Rightarrow> world \<Rightarrow> choreography \<Rightarrow> string \<Rightarrow> real \<Rightarrow> string \<Rightarrow> manager \<Rightarrow>
     start_error + manager"
where
  "start_trajectory sha256 near w traj mode trigger_ms ex m =
     (if ex = ''onboard'' then
        (case onboard_show_plan sha256 traj m of Inl e \<Rightarrow> Inl e
         | Inr plan \<Rightarrow> Inr (begin_show w traj mode trigger_ms Onboard plan 0 m))
      else if ex = ''streamed'' then
        (case streamed_show_plan near (wd_wall w) traj m of Inl e \<Rightarrow> Inl e
         | Inr (plan, bridge_s) \<Rightarrow> Inr (begin_show w traj mode trigger_ms Streamed plan bridge_s m))
      else Inl (Unknown_Execution ex))"

section \<open>The end of the playback task\<close>

text \<open>What the \<^verbatim>\<open>finally\<close> block does in every case, and what it adds when the task was not cancelled.\<close>

definition loop_cleanup :: "playback \<Rightarrow> manager \<Rightarrow> manager" where
  "loop_cleanup pb m =
     stop_recording ((clear_plans m)\<lparr>mg_playing := False,
       mg_onboard_id := (if pb_execution pb = Onboard then None else mg_onboard_id m)\<rparr>)"

definition loop_end :: "world \<Rightarrow> bool \<Rightarrow> playback \<Rightarrow> manager \<Rightarrow> manager" where
  "loop_end w complete_show pb m =
     (let m1 = (loop_cleanup pb m)\<lparr>mg_playback_start := None, mg_snapshotting := False, mg_saved := None, mg_loop := None\<rparr>
      in if complete_show then advance w S_RUNNING S_SHOW_COMPLETE ''trajectory_complete'' m1
         else advance w S_RUNNING S_FORMATION_HOLD ''trajectory_error'' m1)"

text \<open>An exception before the \<^verbatim>\<open>try\<close> block ends the task with nothing else done.\<close>

definition loop_dies :: "manager \<Rightarrow> manager" where
  "loop_dies m = m\<lparr>mg_loop := None\<rparr>"

definition finish_cancelled :: "manager \<Rightarrow> manager" where
  "finish_cancelled m =
     (case mg_cancelled_loops m of [] \<Rightarrow> m
      | pb # pbs \<Rightarrow> loop_cleanup pb (m\<lparr>mg_cancelled_loops := pbs\<rparr>))"

section \<open>A tick\<close>

definition show_length :: "choreography \<Rightarrow> real" where
  "show_length plan = max_default 0 (0 # map (\<lambda>(i, wps). w_time (last wps)) (filter (\<lambda>(i, wps). wps \<noteq> []) plan))"

text \<open>The drones a tick commands, with their interpolated points.\<close>

definition tick_targets :: "choreography \<Rightarrow> real \<Rightarrow> fleet \<Rightarrow> (int \<times> vehicle \<times> waypoint) list" where
  "tick_targets plan elapsed tel =
     List.map_filter (\<lambda>(i, t).
       case map_of plan i of None \<Rightarrow> None
       | Some wps \<Rightarrow>
           if \<not> vt_connected t \<or> vt_aborted t then None
           else map_option (\<lambda>wp. (i, t, wp)) (interpolate_waypoint wps elapsed)) tel"

definition publish_plan :: "(int \<times> vehicle \<times> waypoint) list \<Rightarrow> manager \<Rightarrow> manager" where
  "publish_plan ts m = foldl (\<lambda>m (i, t, wp). set_vehicle i (\<lambda>t. t\<lparr>vt_planned := Some (expected_start wp)\<rparr>) m) m ts"

definition degrees :: "real \<Rightarrow> real" where "degrees r = r * 180 / pi"
definition radians :: "real \<Rightarrow> real" where "radians d = d * pi / 180"

text \<open>The setpoint of one drone: \<^const>\<open>None\<close> is an exception, \<^term>\<open>Some None\<close> a drone left out of the tick.\<close>

definition setpoint :: "string \<Rightarrow> int \<Rightarrow> vehicle \<Rightarrow> waypoint \<Rightarrow> order option option" where
  "setpoint mode i t wp =
     (case pad_offset i of None \<Rightarrow> None
      | Some (px, py) \<Rightarrow>
          if py_upper mode = ''GLOBAL'' then
            (case vt_home t of (lat, lon) \<Rightarrow>
               if lat = 0 \<and> lon = 0 then Some None
               else if w_yaw wp = None then None
               else Some (Some (O_Global (lat + degrees ((w_x wp - px) / EARTH_RADIUS_M))
                      (lon + degrees ((w_y wp - py) / (EARTH_RADIUS_M * cos (radians lat)))) (- w_z wp) (w_yaw wp))))
          else if w_yaw wp = None then None
          else Some (Some (O_Local (w_x wp - px, w_y wp - py, w_z wp) (w_yaw wp)
                 (getd (w_vx wp) 0, getd (w_vy wp) 0, getd (w_vz wp) 0))))"

fun setpoints :: "string \<Rightarrow> (int \<times> vehicle \<times> waypoint) list \<Rightarrow> (int \<times> order) list option" where
  "setpoints mode [] = Some []"
| "setpoints mode ((i, t, wp) # ts) =
     (case setpoint mode i t wp of None \<Rightarrow> None
      | Some os \<Rightarrow>
          (case setpoints mode ts of None \<Rightarrow> None
           | Some rest \<Rightarrow> Some ((case os of None \<Rightarrow> [] | Some x \<Rightarrow> [(i, x)]) @ rest)))"

definition set_phase :: "playback \<Rightarrow> playback_phase \<Rightarrow> manager \<Rightarrow> manager" where
  "set_phase pb ph m = m\<lparr>mg_loop := Some (pb\<lparr>pb_phase := ph\<rparr>)\<rparr>"

definition fly_tick :: "world \<Rightarrow> playback \<Rightarrow> real \<Rightarrow> manager \<Rightarrow> manager" where
  "fly_tick w pb t0 m =
     (let elapsed = wd_mono w - t0 in
      if \<not> mg_playing m then loop_end w False pb m
      else if elapsed > show_length (pb_plan pb) + 1 then loop_end w True pb (m\<lparr>mg_playing := False\<rparr>)
      else let ts = tick_targets (pb_plan pb) elapsed (telemetry_of m); m1 = publish_plan ts m in
        if pb_execution pb = Onboard then set_phase pb (PB_Flying t0) m1
        else case setpoints (pb_mode pb) ts of None \<Rightarrow> loop_end w False pb m1
        | Some [] \<Rightarrow> set_phase pb (PB_Flying t0) m1
        | Some os \<Rightarrow> set_phase pb (PB_Sending t0 os) m1)"

definition send_setpoint :: "int \<times> order \<Rightarrow> manager \<Rightarrow> manager" where
  "send_setpoint s m = (if is_aborted m (fst s) then m else order_to (fst s) [snd s] m)"

section \<open>The playback task\<close>

text \<open>What an awaited call of the task ended in; only setpoints can raise.\<close>

datatype await_result = Await_Done | Await_Raised

definition start_flying :: "world \<Rightarrow> playback \<Rightarrow> real \<Rightarrow> manager \<Rightarrow> manager" where
  "start_flying w pb t0 m = fly_tick w pb t0 (m\<lparr>mg_playback_start := Some t0\<rparr>)"

text \<open>One frame of the trigger, and the end of the repetition at the start instant.\<close>

definition trigger_frame :: "world \<Rightarrow> playback \<Rightarrow> real \<Rightarrow> bytes \<Rightarrow> manager \<Rightarrow> manager" where
  "trigger_frame w pb start_s frame m =
     (if \<not> wd_radio_ok w then loop_dies m
      else let m1 = broadcast w frame m in
        if start_s - wd_wall w \<le> 0 then start_flying w pb (wd_mono w - max 0 (wd_wall w - start_s)) m1
        else set_phase pb (PB_Triggering start_s frame) m1)"

definition playback_called :: "world \<Rightarrow> playback \<Rightarrow> real \<Rightarrow> manager \<Rightarrow> manager" where
  "playback_called w pb trigger_ms m =
     (case pb_execution pb of
        Streamed \<Rightarrow>
          if trigger_ms > 0 \<and> trigger_ms / 1000 - wd_wall w > 0 then set_phase pb PB_Clock_Sync m
          else start_flying w pb (wd_mono w) m
      | Onboard \<Rightarrow>
          (case dm_staged (mg_stage m) of None \<Rightarrow> loop_dies m
           | Some staged \<Rightarrow> set_phase pb (PB_Released trigger_ms (sg_show_id staged))
               (foldl (\<lambda>m d. order_to d [O_Offboard_Stop] m) m
                 (filter (\<lambda>d. vehicle_of m d \<noteq> None) (map fst (pb_plan pb))))))"

definition playback_released :: "world \<Rightarrow> playback \<Rightarrow> real \<Rightarrow> bytes \<Rightarrow> manager \<Rightarrow> manager" where
  "playback_released w pb trigger_ms sid m =
     (let start_s = max (trigger_ms / 1000) (wd_wall w + TRIGGER_LEAD_S) in
      case encode_show_trigger 1 sid (py_int (start_s * 1000000)) of Inl e \<Rightarrow> loop_dies m
      | Inr frame \<Rightarrow> trigger_frame w pb start_s frame (m\<lparr>mg_onboard_id := Some sid\<rparr>))"

text \<open>\<^verbatim>\<open>_run_trajectory_loop\<close>, from one await to the next.\<close>

definition playback_step :: "world \<Rightarrow> await_result \<Rightarrow> manager \<Rightarrow> manager" where
  "playback_step w r m =
     (case mg_loop m of None \<Rightarrow> m
      | Some pb \<Rightarrow>
          (case pb_phase pb of
             PB_Called trigger_ms \<Rightarrow> playback_called w pb trigger_ms m
           | PB_Clock_Sync \<Rightarrow> start_flying w pb (wd_mono w) m
           | PB_Released trigger_ms sid \<Rightarrow> playback_released w pb trigger_ms sid m
           | PB_Triggering start_s frame \<Rightarrow> trigger_frame w pb start_s frame m
           | PB_Flying t0 \<Rightarrow> fly_tick w pb t0 m
           | PB_Sending t0 os \<Rightarrow>
               if r = Await_Raised then loop_end w False pb m
               else (case os of [] \<Rightarrow> set_phase pb (PB_Flying t0) m
                     | s # rest \<Rightarrow> set_phase pb (PB_Sending t0 rest) (send_setpoint s m))))"

section \<open>Aborting one drone\<close>

definition show_elapsed :: "world \<Rightarrow> manager \<Rightarrow> real option" where
  "show_elapsed w m =
     (if \<not> mg_playing m then None
      else case mg_playback_start m of None \<Rightarrow> None | Some t0 \<Rightarrow> Some (wd_mono w - t0))"

definition abort_neighbours :: "int \<Rightarrow> world \<Rightarrow> manager \<Rightarrow> (int, neighbour) dict" where
  "abort_neighbours d w m =
     List.map_filter (\<lambda>(i, t).
       if i = d \<or> \<not> vt_connected t \<or> \<not> vt_armed t \<or> vt_aborted t then None
       else Some (i, case (case show_elapsed w m of None \<Rightarrow> None | Some e \<Rightarrow>
                           (case mg_playing_trajectory m of None \<Rightarrow> None | Some plan \<Rightarrow> map_of plan i)) of
                       Some (wp # wps) \<Rightarrow> \<lparr>nb_waypoints = Some (wp # wps), nb_position = None\<rparr>
                     | _ \<Rightarrow> \<lparr>nb_waypoints = None, nb_position = Some (vt_fleet t)\<rparr>)) (telemetry_of m)"

datatype abort_warning = Unverified_Path | Passes_Within "conflict list" nat

record abort_result =
  ar_drone :: int
  ar_mode :: string
  ar_error :: "string option"
  ar_clearance :: "clearance option"
  ar_warning :: "abort_warning option"

datatype abort_refusal = Mode_Unknown string | No_Such_Drone int | Pad_Unknown int

definition abort_orders :: "abort_mode \<Rightarrow> int \<Rightarrow> manager \<Rightarrow> manager" where
  "abort_orders mode d m =
     (case mode of Abort_RTL \<Rightarrow> rtl_one d m | Abort_Land \<Rightarrow> land_one d m | Abort_Estop \<Rightarrow> estop_one d m)"

definition abort_report :: "clearance option \<Rightarrow> abort_warning option" where
  "abort_report c =
     (case c of None \<Rightarrow> Some Unverified_Path
      | Some c \<Rightarrow> if ac_conflicts c = [] then None
                 else Some (Passes_Within (take 5 (ac_conflicts c)) (length (ac_conflicts c))))"

text \<open>\<open>err\<close> is what the vehicle answered. The clearance is computed after the command, from a snapshot
  taken before it.\<close>

definition abort_drone ::
  "interpolator \<Rightarrow> world \<Rightarrow> int \<Rightarrow> string \<Rightarrow> string option \<Rightarrow> manager \<Rightarrow> (abort_refusal + abort_result) \<times> manager"
where
  "abort_drone interp w d mode_name err m =
     (case map_of ABORT_MODES mode_name of None \<Rightarrow> (Inl (Mode_Unknown mode_name), m)
      | Some mode \<Rightarrow>
          (case vehicle_of m d of None \<Rightarrow> (Inl (No_Such_Drone d), m)
           | Some t \<Rightarrow>
               (case pad_offset d of None \<Rightarrow> (Inl (Pad_Unknown d), m)
                | Some pad \<Rightarrow>
                    let m1 = abort_orders mode d (set_vehicle d (\<lambda>t. t\<lparr>vt_aborted := True, vt_planned := None\<rparr>) m);
                        c = (case abort_clearance interp mode_name (vt_fleet t) pad (abort_neighbours d w m) (show_elapsed w m)
                                    (design_separation_m DEFAULT_LIMITS) ABORT_CLEARANCE_DT_S of
                               Inl e \<Rightarrow> None | Inr c \<Rightarrow> Some c)
                    in (Inr \<lparr>ar_drone = d, ar_mode = mode_name, ar_error = err, ar_clearance = c,
                          ar_warning = abort_report c\<rparr>, m1))))"

section \<open>Recording and the saved show\<close>

definition samples :: "real \<Rightarrow> fleet \<Rightarrow> sample list" where
  "samples wall tel = map (\<lambda>(i, t). \<lparr>sm_timestamp = wall, sm_drone = i, sm_position = vt_fleet t,
     sm_battery = vt_battery_percent t, sm_mode = vt_flight_mode t, sm_connected = vt_connected t\<rparr>) tel"

text \<open>One turn of the recording task, and of the snapshot task; \<open>ok\<close>: the file could be written.\<close>

definition record_sample :: "world \<Rightarrow> manager \<Rightarrow> manager" where
  "record_sample w m = (if mg_recording m then m\<lparr>mg_log := mg_log m @ samples (wd_wall w) (telemetry_of m)\<rparr> else m)"

definition write_state_snapshot :: "world \<Rightarrow> bool \<Rightarrow> manager \<Rightarrow> manager" where
  "write_state_snapshot w ok m =
     (case (dm_active (mg_stage m), mg_show_started_at m) of
        (Some traj, Some started) \<Rightarrow>
          if traj \<noteq> [] \<and> ok
          then m\<lparr>mg_saved := Some \<lparr>sv_saved_at = wd_wall w, sv_mode = mg_show_mode m, sv_started_at = started,
                 sv_trajectory = traj, sv_telemetry = telemetry_of m\<rparr>\<rparr>
          else m
      | _ \<Rightarrow> m)"

definition snapshot_tick :: "world \<Rightarrow> bool \<Rightarrow> manager \<Rightarrow> manager" where
  "snapshot_tick w ok m = (if mg_snapshotting m then write_state_snapshot w ok m else m)"

definition load_pending_resume_state :: "manager \<Rightarrow> manager" where
  "load_pending_resume_state m = m\<lparr>mg_pending := mg_saved m\<rparr>"

datatype resume_error = No_Pending_Show | Gate_Refused

text \<open>\<open>gate\<close> is the upload gate. The elapsed playback time is the answer.\<close>

definition resume_pending_show ::
  "(choreography \<Rightarrow> choreography option) \<Rightarrow> manager \<Rightarrow> resume_error + real \<times> manager"
where
  "resume_pending_show gate m =
     (case mg_pending m of None \<Rightarrow> Inl No_Pending_Show
      | Some sv \<Rightarrow>
          (case gate (sv_trajectory sv) of None \<Rightarrow> Inl Gate_Refused
           | Some traj \<Rightarrow> Inr (max 0 (sv_saved_at sv - sv_started_at sv),
               m\<lparr>mg_stage := (mg_stage m)\<lparr>dm_active := Some traj\<rparr>, mg_show_mode := sv_mode sv,
                 mg_pending := None, mg_saved := None\<rparr>)))"

definition discard_pending_show :: "manager \<Rightarrow> manager" where
  "discard_pending_show m = m\<lparr>mg_pending := None, mg_saved := None\<rparr>"

section \<open>Lemmas: what the playback leaves alone\<close>

lemma is_aborted_update [simp]: "is_aborted (m\<lparr>mg_playing := b\<rparr>) d = is_aborted m d"
  "is_aborted (m\<lparr>mg_playback_start := t\<rparr>) d = is_aborted m d" "is_aborted (m\<lparr>mg_snapshotting := b\<rparr>) d = is_aborted m d"
  "is_aborted (m\<lparr>mg_saved := sv\<rparr>) d = is_aborted m d" "is_aborted (m\<lparr>mg_loop := l\<rparr>) d = is_aborted m d"
  "is_aborted (m\<lparr>mg_onboard_id := i\<rparr>) d = is_aborted m d" "is_aborted (m\<lparr>mg_cancelled_loops := ls\<rparr>) d = is_aborted m d"
  by (simp_all add: is_aborted_def)

lemma loop_cleanup_frame [simp]:
  "mg_launch (loop_cleanup pb m) = mg_launch m" "mg_launch_failures (loop_cleanup pb m) = mg_launch_failures m"
  "mg_launch_planned (loop_cleanup pb m) = mg_launch_planned m" "mg_climbs (loop_cleanup pb m) = mg_climbs m"
  "mg_fsm (loop_cleanup pb m) = mg_fsm m"
  "mg_loop (loop_cleanup pb m) = mg_loop m"
  "mg_orders (loop_cleanup pb m) = mg_orders m"
  "is_aborted (loop_cleanup pb m) d = is_aborted m d"
  by (simp_all add: loop_cleanup_def)

lemma loop_end_frame [simp]:
  "mg_launch (loop_end w b pb m) = mg_launch m" "mg_launch_failures (loop_end w b pb m) = mg_launch_failures m"
  "mg_launch_planned (loop_end w b pb m) = mg_launch_planned m" "mg_climbs (loop_end w b pb m) = mg_climbs m"
  "mg_orders (loop_end w b pb m) = mg_orders m"
  "is_aborted (loop_end w b pb m) d = is_aborted m d"
  by (simp_all add: loop_end_def Let_def)

lemma publish_plan_frame [simp]:
  "mg_launch (publish_plan ts m) = mg_launch m" "mg_launch_failures (publish_plan ts m) = mg_launch_failures m"
  "mg_launch_planned (publish_plan ts m) = mg_launch_planned m" "mg_climbs (publish_plan ts m) = mg_climbs m" "mg_orders (publish_plan ts m) = mg_orders m"
  "mg_fsm (publish_plan ts m) = mg_fsm m" "is_aborted (publish_plan ts m) d = is_aborted m d"
  unfolding publish_plan_def by (rule foldl_keeps; auto split: prod.split)+

lemma set_phase_frame [simp]:
  "mg_launch (set_phase pb ph m) = mg_launch m" "mg_launch_failures (set_phase pb ph m) = mg_launch_failures m"
  "mg_launch_planned (set_phase pb ph m) = mg_launch_planned m" "mg_climbs (set_phase pb ph m) = mg_climbs m" "mg_orders (set_phase pb ph m) = mg_orders m"
  "mg_fsm (set_phase pb ph m) = mg_fsm m" "is_aborted (set_phase pb ph m) d = is_aborted m d"
  by (simp_all add: set_phase_def)

lemma fly_tick_frame [simp]:
  "mg_launch (fly_tick w pb t0 m) = mg_launch m" "mg_launch_failures (fly_tick w pb t0 m) = mg_launch_failures m"
  "mg_launch_planned (fly_tick w pb t0 m) = mg_launch_planned m" "mg_climbs (fly_tick w pb t0 m) = mg_climbs m"
  "mg_orders (fly_tick w pb t0 m) = mg_orders m"
  "is_aborted (fly_tick w pb t0 m) d = is_aborted m d"
  by (simp_all add: fly_tick_def Let_def split: option.split list.split)

lemma start_flying_frame [simp]:
  "mg_launch (start_flying w pb t0 m) = mg_launch m" "mg_launch_failures (start_flying w pb t0 m) = mg_launch_failures m"
  "mg_launch_planned (start_flying w pb t0 m) = mg_launch_planned m" "mg_climbs (start_flying w pb t0 m) = mg_climbs m"
  "mg_orders (start_flying w pb t0 m) = mg_orders m"
  "is_aborted (start_flying w pb t0 m) d = is_aborted m d"
  by (simp_all add: start_flying_def Let_def)

lemma trigger_frame_frame [simp]:
  "mg_launch (trigger_frame w pb s fr m) = mg_launch m" "mg_launch_failures (trigger_frame w pb s fr m) = mg_launch_failures m"
  "mg_launch_planned (trigger_frame w pb s fr m) = mg_launch_planned m" "mg_climbs (trigger_frame w pb s fr m) = mg_climbs m"
  "mg_orders (trigger_frame w pb s fr m) = mg_orders m"
  "is_aborted (trigger_frame w pb s fr m) d = is_aborted m d"
  by (simp_all add: trigger_frame_def loop_dies_def Let_def)

lemma playback_released_frame [simp]:
  "mg_launch (playback_released w pb t sid m) = mg_launch m" "mg_launch_failures (playback_released w pb t sid m) = mg_launch_failures m"
  "mg_launch_planned (playback_released w pb t sid m) = mg_launch_planned m" "mg_climbs (playback_released w pb t sid m) = mg_climbs m"
  "mg_orders (playback_released w pb t sid m) = mg_orders m"
  "is_aborted (playback_released w pb t sid m) d = is_aborted m d"
  by (simp_all add: playback_released_def loop_dies_def Let_def split: sum.split)


text \<open>The only transitions of the playback: out of a running show.\<close>

definition ends_show :: "lifecycle \<Rightarrow> lifecycle \<Rightarrow> bool" where
  "ends_show s s' \<longleftrightarrow> s' = s \<or> s = S_RUNNING \<and> s' \<in> {S_SHOW_COMPLETE, S_FORMATION_HOLD}"

lemma ends_show_refl [simp]: "ends_show s s"
  by (simp add: ends_show_def)

lemma loop_end_moves [simp]: "ends_show (state_of m) (state_of (loop_end w b pb m))"
  by (simp add: ends_show_def loop_end_def Let_def advance_state)

lemma fly_tick_moves [simp]: "ends_show (state_of m) (state_of (fly_tick w pb t0 m))"
  using loop_end_moves[of "m\<lparr>mg_playing := False\<rparr>" w True pb]
    loop_end_moves[of "publish_plan (tick_targets (pb_plan pb) (wd_mono w - t0) (telemetry_of m)) m" w False pb]
  by (simp add: fly_tick_def Let_def split: option.split list.split)

lemma start_flying_moves [simp]: "ends_show (state_of m) (state_of (start_flying w pb t0 m))"
  using fly_tick_moves[of "m\<lparr>mg_playback_start := Some t0\<rparr>" w pb t0] by (simp add: start_flying_def)

lemma trigger_frame_moves [simp]: "ends_show (state_of m) (state_of (trigger_frame w pb s fr m))"
  using start_flying_moves[of "broadcast w fr m" w pb] by (simp add: trigger_frame_def loop_dies_def Let_def)

lemma playback_released_moves [simp]: "ends_show (state_of m) (state_of (playback_released w pb t sid m))"
  using trigger_frame_moves[of "m\<lparr>mg_onboard_id := Some sid\<rparr>" w pb]
  by (simp add: playback_released_def loop_dies_def Let_def split: sum.split)

text \<open>The hand-over of an onboard show.\<close>

lemma release_frame [simp]:
  "mg_launch (foldl (\<lambda>m d. order_to d os m) m ds) = mg_launch m"
  "mg_launch_failures (foldl (\<lambda>m d. order_to d os m) m ds) = mg_launch_failures m"
  "mg_launch_planned (foldl (\<lambda>m d. order_to d os m) m ds) = mg_launch_planned m" "mg_climbs (foldl (\<lambda>m d. order_to d os m) m ds) = mg_climbs m"
  "mg_fsm (foldl (\<lambda>m d. order_to d os m) m ds) = mg_fsm m"
  "is_aborted (foldl (\<lambda>m d. order_to d os m) m ds) i = is_aborted m i"
  by (rule foldl_keeps; simp)+

lemma playback_called_frame [simp]:
  "mg_launch (playback_called w pb t m) = mg_launch m" "mg_launch_failures (playback_called w pb t m) = mg_launch_failures m"
  "mg_launch_planned (playback_called w pb t m) = mg_launch_planned m" "mg_climbs (playback_called w pb t m) = mg_climbs m" "is_aborted (playback_called w pb t m) d = is_aborted m d"
  "ends_show (state_of m) (state_of (playback_called w pb t m))"
  by (simp_all add: playback_called_def loop_dies_def split: execution.split option.split)

lemma playback_step_frame [simp]:
  "mg_launch (playback_step w r m) = mg_launch m" "mg_launch_failures (playback_step w r m) = mg_launch_failures m"
  "mg_launch_planned (playback_step w r m) = mg_launch_planned m" "mg_climbs (playback_step w r m) = mg_climbs m" "is_aborted (playback_step w r m) d = is_aborted m d"
  "ends_show (state_of m) (state_of (playback_step w r m))"
  by (simp_all add: playback_step_def send_setpoint_def split: option.split playback_phase.split list.split)

text \<open>An aborted drone gets no setpoint, not even one already waiting to be sent.\<close>

lemma playback_called_orders:
  "(\<And>i. P (i, O_Offboard_Stop)) \<Longrightarrow> adds_orders P m (playback_called w pb t m)"
  by (auto simp: playback_called_def loop_dies_def set_phase_def adds_orders_def[of P m "_\<lparr>mg_loop := _\<rparr>"]
      adds_foldl[unfolded adds_orders_def] adds_order_to[unfolded adds_orders_def] split: execution.split option.split)

lemma playback_step_orders:
  assumes "is_aborted m d"
  shows "adds_orders (\<lambda>(i, x). \<not> (i = d \<and> is_setpoint x)) m (playback_step w r m)"
proof (cases "mg_loop m")
  case (Some pb)
  show ?thesis
  proof (cases "\<exists>t. pb_phase pb = PB_Called t")
    case True
    then show ?thesis using Some by (auto simp: playback_step_def intro!: playback_called_orders)
  next
    case False
    then show ?thesis using Some assms
      by (auto simp: playback_step_def send_setpoint_def adds_orders_def split: playback_phase.split list.split)
  qed
qed (simp add: playback_step_def)

text \<open>While a playback task is there, the lifecycle has not moved.\<close>

definition task_gone :: "manager \<Rightarrow> manager \<Rightarrow> bool" where
  "task_gone m m' \<longleftrightarrow> mg_loop m' = None \<or> mg_fsm m' = mg_fsm m"

lemma task_goneI [simp]: "mg_loop m' = None \<Longrightarrow> task_gone m m'" "mg_fsm m' = mg_fsm m \<Longrightarrow> task_gone m m'"
  by (simp_all add: task_gone_def)

lemma loop_end_task [simp]: "task_gone m0 (loop_end w b pb m)"
  by (simp add: task_gone_def loop_end_def Let_def)

lemma fly_tick_task: "mg_fsm m = mg_fsm m0 \<Longrightarrow> task_gone m0 (fly_tick w pb t0 m)"
  by (simp add: fly_tick_def Let_def split: option.split list.split)

lemma start_flying_task: "mg_fsm m = mg_fsm m0 \<Longrightarrow> task_gone m0 (start_flying w pb t0 m)"
  by (simp add: start_flying_def fly_tick_task)

lemma trigger_frame_task: "mg_fsm m = mg_fsm m0 \<Longrightarrow> task_gone m0 (trigger_frame w pb s fr m)"
  using start_flying_task[of "broadcast w fr m" m0] by (simp add: trigger_frame_def Let_def loop_dies_def)

lemma playback_step_task: "task_gone m (playback_step w r m)"
  using trigger_frame_task[of "m\<lparr>mg_onboard_id := i\<rparr>" m for i]
  by (simp add: playback_step_def playback_called_def playback_released_def send_setpoint_def Let_def loop_dies_def
      fly_tick_task start_flying_task trigger_frame_task
      split: playback_phase.split execution.split option.split sum.split list.split)
end
