(* ===== verification/Monitors.thy ===== *)
theory Monitors
  imports Manager
begin

text \<open>
  The 10 Hz safety monitors, \<^verbatim>\<open>_proximity_monitor_loop\<close> and \<^verbatim>\<open>_geofence_monitor_loop\<close> in
  \<^verbatim>\<open>packages/tara-gcs/tara_gcs/drone_manager.py\<close>, one pass at a time, and the reports of the
  vehicles they read. \<^verbatim>\<open>cKDTree.query_pairs\<close> is the parameter \<open>near\<close>.
\<close>

section \<open>Reports\<close>

text \<open>What the telemetry streams of a vehicle write; the flags of the manager itself stay. A drone that
  disarms has its geofence breach forgotten.\<close>

definition vehicle_report :: "int \<Rightarrow> vehicle \<Rightarrow> manager \<Rightarrow> manager" where
  "vehicle_report d new m =
     (case vehicle_of m d of None \<Rightarrow> m
      | Some old \<Rightarrow>
          let m1 = set_vehicle d (\<lambda>t. new\<lparr>vt_aborted := vt_aborted t, vt_planned := vt_planned t\<rparr>) m in
          if vt_armed old \<and> \<not> vt_armed new \<and> map_of (mg_geofence_breaches m) d \<noteq> None
          then m1\<lparr>mg_geofence_breaches := dset d False (mg_geofence_breaches m)\<rparr> else m1)"

section \<open>Proximity\<close>

definition active_vehicles :: "fleet \<Rightarrow> (int, point3) dict" where
  "active_vehicles tel = map (\<lambda>(i, t). (i, vt_fleet t)) (filter (\<lambda>(i, t). vt_connected t \<and> vt_armed t) tel)"

definition ordered_pair :: "int \<Rightarrow> int \<Rightarrow> int \<times> int" where
  "ordered_pair a b = (min a b, max a b)"

definition close_now :: "near_pairs \<Rightarrow> real \<Rightarrow> (int, point3) dict \<Rightarrow> (int \<times> int) list" where
  "close_now near limit act =
     map (\<lambda>(i, j). ordered_pair (fst (act ! i)) (fst (act ! j))) (near (map snd act) limit)"

definition flagged :: "('k, bool) dict \<Rightarrow> 'k \<Rightarrow> bool" where
  "flagged d k \<longleftrightarrow> map_of d k = Some True"

definition flag_pairs :: "(int \<times> int) list \<Rightarrow> (int \<times> int, bool) dict \<Rightarrow> (int \<times> int, bool) dict" where
  "flag_pairs current breaches = foldl (\<lambda>b p. if flagged b p then b else dset p True b) breaches current"

definition clear_pairs :: "(int \<times> int) list \<Rightarrow> (int \<times> int, bool) dict \<Rightarrow> (int \<times> int, bool) dict" where
  "clear_pairs current = map (\<lambda>(p, b). (p, b \<and> p \<in> set current))"

definition proximity_pass :: "near_pairs \<Rightarrow> real \<Rightarrow> world \<Rightarrow> manager \<Rightarrow> manager" where
  "proximity_pass near limit w m =
     (let act = active_vehicles (telemetry_of m) in
      if length act < 2 then m\<lparr>mg_proximity_breaches := []\<rparr>
      else let current = close_now near limit act;
               m1 = m\<lparr>mg_proximity_breaches := clear_pairs current (flag_pairs current (mg_proximity_breaches m))\<rparr>
        in if list_ex (\<lambda>p. \<not> flagged (mg_proximity_breaches m) p) current
           then trigger_rtl w SYSTEM_OPERATOR ''failsafe:proximity'' m1 else m1)"

section \<open>Geofence\<close>

definition home_distance :: "vehicle \<Rightarrow> real" where
  "home_distance t = (case vt_local t of (x, y, z) \<Rightarrow> sqrt (x\<^sup>2 + y\<^sup>2))"

definition hard_check :: "world \<Rightarrow> int \<Rightarrow> vehicle \<Rightarrow> manager \<Rightarrow> manager" where
  "hard_check w d t m =
     (if home_distance t > mg_geofence_radius m then
        (if flagged (mg_geofence_breaches m) d then m
         else trigger_rtl w SYSTEM_OPERATOR ''failsafe:geofence''
           (m\<lparr>mg_geofence_breaches := dset d True (mg_geofence_breaches m)\<rparr>))
      else if flagged (mg_geofence_breaches m) d
      then m\<lparr>mg_geofence_breaches := dset d False (mg_geofence_breaches m)\<rparr>
      else m)"

definition soft_check :: "int \<Rightarrow> vehicle \<Rightarrow> bool \<Rightarrow> manager \<Rightarrow> manager" where
  "soft_check d t warned m =
     (if (case mg_soft_radius m of None \<Rightarrow> False | Some r \<Rightarrow> home_distance t > r) then
        (if warned then m else m\<lparr>mg_geofence_warnings := dset d True (mg_geofence_warnings m)\<rparr>)
      else if warned then m\<lparr>mg_geofence_warnings := dset d False (mg_geofence_warnings m)\<rparr>
      else m)"

definition geofence_one :: "world \<Rightarrow> manager \<Rightarrow> int \<times> vehicle \<Rightarrow> manager" where
  "geofence_one w m it =
     (case it of (d, t) \<Rightarrow>
        if \<not> vt_connected t \<or> \<not> vt_armed t then m
        else soft_check d t (flagged (mg_geofence_warnings m) d) (hard_check w d t m))"

definition geofence_pass :: "world \<Rightarrow> manager \<Rightarrow> manager" where
  "geofence_pass w m = foldl (geofence_one w) m (telemetry_of m)"

section \<open>Lemmas: what a monitor may do\<close>

text \<open>A pass changes no more than its own flags, or brings the fleet home.\<close>

definition failsafe :: "manager \<Rightarrow> manager \<Rightarrow> bool" where
  "failsafe m m' \<longleftrightarrow> mg_stage m' = mg_stage m \<and> mg_launch m' = mg_launch m \<and>
     mg_launch_failures m' = mg_launch_failures m \<and> mg_launch_planned m' = mg_launch_planned m \<and>
     (mg_fsm m' = mg_fsm m \<and> mg_loop m' = mg_loop m \<and> mg_orders m' = mg_orders m \<or>
      state_of m' = S_RTL \<and> mg_loop m' = None) \<and>
     adds_orders (\<lambda>x. \<not> drives (snd x)) m m'"

lemma failsafe_refl [simp]: "failsafe m m"
  by (simp add: failsafe_def)

lemma failsafe_trans: "failsafe m1 m2 \<Longrightarrow> failsafe m2 m3 \<Longrightarrow> failsafe m1 m3"
  by (auto simp: failsafe_def intro: adds_trans)

lemma failsafe_rtl: "mg_stage m1 = mg_stage m \<Longrightarrow> mg_launch m1 = mg_launch m \<Longrightarrow>
    mg_launch_failures m1 = mg_launch_failures m \<Longrightarrow> mg_launch_planned m1 = mg_launch_planned m \<Longrightarrow>
    mg_orders m1 = mg_orders m \<Longrightarrow> failsafe m (trigger_rtl w opr trg m1)"
  using triggers_add(1)[of "\<lambda>x. \<not> drives (snd x)" m1 w opr trg] by (simp add: failsafe_def adds_orders_def)

lemma proximity_pass_failsafe: "failsafe m (proximity_pass near limit w m)"
  by (auto simp: proximity_pass_def Let_def intro!: failsafe_rtl) (simp_all add: failsafe_def)

lemma hard_check_failsafe: "failsafe m (hard_check w d t m)"
  by (auto simp: hard_check_def intro!: failsafe_rtl) (simp add: failsafe_def)

lemma soft_check_failsafe: "failsafe m (soft_check d t b m)"
  by (auto simp: soft_check_def) (simp_all add: failsafe_def)

lemma geofence_one_failsafe: "failsafe m (geofence_one w m it)"
  by (auto simp: geofence_one_def intro: failsafe_trans[OF hard_check_failsafe soft_check_failsafe] split: prod.split)

lemma geofence_pass_failsafe: "failsafe m (geofence_pass w m)"
proof -
  have "failsafe m (foldl (geofence_one w) m its)" for its
    by (induction its arbitrary: m) (auto intro: failsafe_trans geofence_one_failsafe)
  then show ?thesis by (simp add: geofence_pass_def)
qed

lemma vehicle_report_frame [simp]:
  "mg_launch (vehicle_report d t m) = mg_launch m" "mg_launch_failures (vehicle_report d t m) = mg_launch_failures m"
  "mg_launch_planned (vehicle_report d t m) = mg_launch_planned m" "mg_fsm (vehicle_report d t m) = mg_fsm m"
  "mg_loop (vehicle_report d t m) = mg_loop m" "mg_orders (vehicle_report d t m) = mg_orders m"
  by (simp_all add: vehicle_report_def Let_def split: option.split)

lemma vehicle_report_aborted [simp]: "is_aborted (vehicle_report d t m) i = is_aborted m i"
proof -
  have "is_aborted (m'\<lparr>mg_geofence_breaches := b\<rparr>) i = is_aborted m' i" for m' b by (simp add: is_aborted_def)
  then show ?thesis by (simp add: vehicle_report_def Let_def split: option.split)
qed

section \<open>Lemmas: flags\<close>

lemma flagged_dset [simp]: "flagged (dset k b d) k' = (if k' = k then b else flagged d k')"
  by (simp add: flagged_def map_of_dset)

lemma flagged_flag_pairs: "flagged (flag_pairs cur b) p \<longleftrightarrow> flagged b p \<or> p \<in> set cur"
proof (induction cur arbitrary: b)
  case (Cons q cur)
  have "flag_pairs (q # cur) b = flag_pairs cur (if flagged b q then b else dset q True b)" by (simp add: flag_pairs_def)
  then show ?case using Cons by auto
qed (simp add: flag_pairs_def)

lemma flagged_clear_pairs: "flagged (clear_pairs cur b) p \<longleftrightarrow> flagged b p \<and> p \<in> set cur"
proof -
  have "map_of (clear_pairs cur b) p = map_option (\<lambda>v. v \<and> p \<in> set cur) (map_of b p)"
    unfolding clear_pairs_def by (induction b) auto
  then show ?thesis by (auto simp: flagged_def)
qed

definition active_at :: "fleet \<Rightarrow> int \<Rightarrow> point3 \<Rightarrow> bool" where
  "active_at tel d q \<longleftrightarrow> (\<exists>t. map_of tel d = Some t \<and> vt_connected t \<and> vt_armed t \<and> vt_fleet t = q)"

lemma active_mem: "dict_ok tel \<Longrightarrow> (d, q) \<in> set (active_vehicles tel) \<longleftrightarrow> active_at tel d q"
  by (force simp: active_vehicles_def active_at_def dict_ok_mem)

lemma active_distinct: "dict_ok tel \<Longrightarrow> distinct (map fst (active_vehicles tel))"
  by (simp add: active_vehicles_def dict_ok_def distinct_map_filter o_def split_def)

lemma close_now_mem:
  assumes near: "finds_near_pairs near" and ids: "distinct (map fst act)"
  shows "(a, b) \<in> set (close_now near limit act) \<longleftrightarrow>
    a < b \<and> (\<exists>q r. (a, q) \<in> set act \<and> (b, r) \<in> set act \<and> dist3 q r \<le> limit)"
proof
  assume "(a, b) \<in> set (close_now near limit act)"
  then obtain i j where ij: "i < j" "j < length act" "dist3 (snd (act ! i)) (snd (act ! j)) \<le> limit"
      "(a, b) = ordered_pair (fst (act ! i)) (fst (act ! j))"
    using near by (auto simp: close_now_def finds_near_pairs_def)
  have ne: "fst (act ! i) \<noteq> fst (act ! j)" using ids ij(1,2) by (auto simp: distinct_conv_nth)
  have m: "act ! i \<in> set act" "act ! j \<in> set act" using ij(1,2) by auto
  show "a < b \<and> (\<exists>q r. (a, q) \<in> set act \<and> (b, r) \<in> set act \<and> dist3 q r \<le> limit)"
  proof (cases "fst (act ! i) < fst (act ! j)")
    case True
    then have "a = fst (act ! i)" "b = fst (act ! j)" using ij(4) by (auto simp: ordered_pair_def)
    then show ?thesis using True m ij(3) by (metis prod.collapse)
  next
    case False
    then have "a = fst (act ! j)" "b = fst (act ! i)" "a < b" using ij(4) ne by (auto simp: ordered_pair_def)
    then show ?thesis using m ij(3) dist3_commute by (metis prod.collapse)
  qed
next
  assume "a < b \<and> (\<exists>q r. (a, q) \<in> set act \<and> (b, r) \<in> set act \<and> dist3 q r \<le> limit)"
  then obtain q r i j where ab: "a < b" "dist3 q r \<le> limit" "i < length act" "act ! i = (a, q)" "j < length act" "act ! j = (b, r)"
    by (auto simp: in_set_conv_nth)
  have "i \<noteq> j" using ab by auto
  then have "(min i j, max i j) \<in> set (near (map snd act) limit)"
    using near ab dist3_commute[of q r] by (cases "i < j") (auto simp: finds_near_pairs_def)
  moreover have "ordered_pair (fst (act ! min i j)) (fst (act ! max i j)) = (a, b)"
    using ab \<open>i \<noteq> j\<close> by (cases "i < j") (auto simp: ordered_pair_def)
  ultimately show "(a, b) \<in> set (close_now near limit act)" unfolding close_now_def by force
qed

lemma trigger_rtl_orders: "mg_orders (trigger_rtl w opr trg m) =
    mg_orders m @ concat (map (\<lambda>(d, t). [(d, O_Offboard_Stop), (d, O_RTL)]) (telemetry_of m))"
proof -
  have "mg_orders (foldl (\<lambda>m d. rtl_one d m) m ds) = mg_orders m @ concat (map (\<lambda>d. [(d, O_Offboard_Stop), (d, O_RTL)]) ds)" for m ds
    by (induction ds arbitrary: m) (simp_all add: rtl_one_def)
  then show ?thesis by (simp add: trigger_rtl_def for_each_drone_def split_def o_def)
qed

lemma trigger_rtl_playing [simp]: "\<not> mg_playing (trigger_rtl w opr trg m)"
proof -
  have "\<not> mg_playing (stop_trajectory w k)" for k
    by (simp add: stop_trajectory_def cancel_loop_def split: option.split)
  moreover have "mg_playing (for_each_drone rtl_one k) = mg_playing k" for k
    by (rule for_each_frame) (simp add: rtl_one_def order_to_def)
  ultimately show ?thesis by (simp add: trigger_rtl_def)
qed

section \<open>Properties\<close>

text \<open>C19. The proximity monitor sees exactly the pairs that are too close. After a pass two drones are
  marked as in breach exactly when both are connected and armed and no further apart than the limit;
  when one of these pairs was not marked before, the fleet is in RTL, the show is stopped and every
  drone has been told to leave offboard mode and return, and otherwise the lifecycle and the orders are
  untouched. The query of the tree is assumed to return every pair within the radius, each once.\<close>
theorem proximity_pass_exact:
  assumes "finds_near_pairs near" and "dict_ok (telemetry_of m)" and "m' = proximity_pass near limit w m"
    and close: "close = (\<lambda>a b. a < b \<and> (\<exists>q r. active_at (telemetry_of m) a q \<and> active_at (telemetry_of m) b r \<and> dist3 q r \<le> limit))"
  shows "(\<forall>a b. flagged (mg_proximity_breaches m') (a, b) \<longleftrightarrow> close a b) \<and>
    (if \<exists>a b. close a b \<and> \<not> flagged (mg_proximity_breaches m) (a, b)
     then state_of m' = S_RTL \<and> \<not> mg_playing m' \<and> mg_orders m' =
       mg_orders m @ concat (map (\<lambda>(d, t). [(d, O_Offboard_Stop), (d, O_RTL)]) (telemetry_of m))
     else mg_fsm m' = mg_fsm m \<and> mg_orders m' = mg_orders m)"
proof -
  let ?act = "active_vehicles (telemetry_of m)" and ?cur = "close_now near limit (active_vehicles (telemetry_of m))"
  have cur: "(a, b) \<in> set ?cur \<longleftrightarrow> close a b" for a b
    using close_now_mem[OF assms(1) active_distinct[OF assms(2)]] by (simp add: active_mem assms(2) close)
  have none: "\<not> close a b" if "length ?act < 2" for a b
  proof
    assume "close a b"
    then obtain q r where "a \<noteq> b" "(a, q) \<in> set ?act" "(b, r) \<in> set ?act"
      by (auto simp: close active_mem assms(2))
    then have "card {(a, q), (b, r)} \<le> card (set ?act)" by (intro card_mono) auto
    also have "\<dots> \<le> length ?act" by (rule card_length)
    finally show False using that \<open>a \<noteq> b\<close> by simp
  qed
  show ?thesis
  proof (cases "length ?act < 2")
    case True
    then show ?thesis using none by (simp add: assms(3) proximity_pass_def flagged_def)
  next
    case False
    have new: "list_ex (\<lambda>p. \<not> flagged (mg_proximity_breaches m) p) ?cur \<longleftrightarrow>
        (\<exists>a b. close a b \<and> \<not> flagged (mg_proximity_breaches m) (a, b))"
      using cur by (auto simp: list_ex_iff)
    show ?thesis
    proof (cases "\<exists>a b. close a b \<and> \<not> flagged (mg_proximity_breaches m) (a, b)")
      case True
      with new False cur show ?thesis
        by (simp add: assms(3) proximity_pass_def Let_def flagged_clear_pairs flagged_flag_pairs trigger_rtl_orders) blast
    next
      case c: False
      with new False cur show ?thesis
        by (simp add: assms(3) proximity_pass_def Let_def flagged_clear_pairs flagged_flag_pairs) blast
    qed
  qed
qed

definition flying_at :: "point3 \<Rightarrow> vehicle" where
  "flying_at q = fresh_vehicle\<lparr>vt_connected := True, vt_armed := True, vt_fleet := q, vt_local := q\<rparr>"

definition small_fleet :: "point3 \<Rightarrow> manager" where
  "small_fleet q = (manager_init False 1 (fsm_init None 10 False 0))
     \<lparr>mg_stage := \<lparr>dm_telemetry = [(0, flying_at (0, 0, 5)), (1, flying_at q)], dm_active = None, dm_staged = None, dm_files = []\<rparr>\<rparr>"

definition still_world :: world where
  "still_world = \<lparr>wd_mono = 0, wd_wall = 0, wd_env = plain_env, wd_radio_ok = True\<rparr>"

lemma proximity_pass_exact_witness:
  "flagged (mg_proximity_breaches (proximity_pass all_near_pairs (3 / 2) still_world (small_fleet (1, 0, 5)))) (0, 1) \<and>
   state_of (proximity_pass all_near_pairs (3 / 2) still_world (small_fleet (1, 0, 5))) = S_RTL"
proof -
  let ?m = "small_fleet (1, 0, 5)"
  define close where "close = (\<lambda>a b. a < b \<and> (\<exists>q r. active_at (telemetry_of ?m) a q \<and> active_at (telemetry_of ?m) b r \<and> dist3 q r \<le> 3 / 2))"
  have ok: "dict_ok (telemetry_of ?m)" by (simp add: small_fleet_def dict_ok_def)
  have "active_at (telemetry_of ?m) 0 (0, 0, 5)" "active_at (telemetry_of ?m) 1 (1, 0, 5)"
    by (simp_all add: active_at_def small_fleet_def flying_at_def)
  moreover have "dist3 (0, 0, 5) (1, 0, 5) \<le> 3 / 2" by (simp add: dist3_def)
  ultimately have c: "close 0 1" unfolding close_def by (intro conjI exI) auto
  have n: "\<not> flagged (mg_proximity_breaches ?m) (0, 1)" by (simp add: flagged_def small_fleet_def manager_init_def)
  have "if \<exists>a b. close a b \<and> \<not> flagged (mg_proximity_breaches ?m) (a, b) then True else False" using c n by auto
  then show ?thesis
    using proximity_pass_exact[OF all_near_pairs_finds ok refl close_def, of still_world] c by (auto split: if_splits)
qed

section \<open>Lemmas: the geofence\<close>

lemma hard_check_frame [simp]:
  "mg_geofence_radius (hard_check w d t m) = mg_geofence_radius m" "mg_soft_radius (hard_check w d t m) = mg_soft_radius m"
  "mg_geofence_warnings (hard_check w d t m) = mg_geofence_warnings m"
  by (simp_all add: hard_check_def)

lemma soft_check_frame [simp]:
  "mg_geofence_radius (soft_check d t b m) = mg_geofence_radius m" "mg_soft_radius (soft_check d t b m) = mg_soft_radius m"
  "mg_geofence_breaches (soft_check d t b m) = mg_geofence_breaches m" "mg_fsm (soft_check d t b m) = mg_fsm m"
  "mg_orders (soft_check d t b m) = mg_orders m"
  by (simp_all add: soft_check_def split: option.split)








end
