(* ===== verification/Ground_Station.thy ===== *)
theory Ground_Station
  imports Launch Playback Monitors Preflight
begin

text \<open>
  The ground station as one machine: the flight commands of its API, in
  \<^verbatim>\<open>packages/tara-gcs/tara_gcs/main.py\<close>, and every task of the drone manager, each a step from one
  await to the next, in any order. What an endpoint meets before it reaches the manager (the operating
  mode and a single-drone sequence in flight) is the argument \<open>guard\<close>, the preflight decision the
  argument \<open>decision\<close>.
\<close>

section \<open>Endpoints\<close>

datatype api_error =
    Guard_Refused
  | Conflict fsm_error
  | Preflight_Red
  | Gate_Closed string
  | Launch_Incomplete "(int, launch_failure) dict"
  | No_Trajectory
  | Start_Refused start_error
  | Resume_Refused resume_error
  | Upload_Refused stage_error

type_synonym 'a answer = "(api_error + 'a) \<times> manager"

definition check_command :: "world \<Rightarrow> command \<Rightarrow> string \<Rightarrow> string \<Rightarrow> manager \<Rightarrow> unit answer" where
  "check_command w c opr trg m =
     (case fsm_check (wd_env w) (wd_wall w) c opr trg (mg_fsm m) of
        (Inl e, f) \<Rightarrow> (Inl (Conflict e), m\<lparr>mg_fsm := f\<rparr>)
      | (Inr u, f) \<Rightarrow> (Inr (), m\<lparr>mg_fsm := f\<rparr>))"

definition apply_or_conflict :: "world \<Rightarrow> command \<Rightarrow> string \<Rightarrow> string \<Rightarrow> manager \<Rightarrow> unit answer" where
  "apply_or_conflict w c opr trg m =
     (case fsm_apply (wd_env w) (wd_wall w) c opr trg (mg_fsm m) of
        (Inl e, f) \<Rightarrow> (Inl (Conflict e), m\<lparr>mg_fsm := f\<rparr>)
      | (Inr u, f) \<Rightarrow> (Inr (), m\<lparr>mg_fsm := f\<rparr>))"

text \<open>An endpoint runs its steps until the first that refuses.\<close>

definition and_then :: "'a answer \<Rightarrow> ('a \<Rightarrow> manager \<Rightarrow> 'b answer) \<Rightarrow> 'b answer" where
  "and_then r k = (case r of (Inl e, m) \<Rightarrow> (Inl e, m) | (Inr x, m) \<Rightarrow> k x m)"

definition refuse_if :: "bool \<Rightarrow> api_error \<Rightarrow> manager \<Rightarrow> unit answer" where
  "refuse_if b e m = (if b then Inl e else Inr (), m)"

definition fleet_gate :: "(bytes \<Rightarrow> bytes) \<Rightarrow> manager \<Rightarrow> unit answer" where
  "fleet_gate sha256 m =
     (let gate = launch_gate sha256 (mg_stage m) in
      refuse_if ((dm_active (mg_stage m) \<noteq> None \<or> dm_staged (mg_stage m) \<noteq> None) \<and> \<not> gt_ok gate)
        (Gate_Closed (gt_reason gate)) m)"

definition api_launch :: "(bytes \<Rightarrow> bytes) \<Rightarrow> world \<Rightarrow> bool \<Rightarrow> decision \<Rightarrow> string \<Rightarrow> manager \<Rightarrow> unit answer" where
  "api_launch sha256 w guard dec opr m =
     and_then (refuse_if (\<not> guard) Guard_Refused m) (\<lambda>_ m.
     and_then (check_command w C_LAUNCH opr ''POST /api/launch'' m) (\<lambda>_ m.
     and_then (refuse_if (\<not> de_permitted dec) Preflight_Red m) (\<lambda>_ m.
     and_then (fleet_gate sha256 m) (\<lambda>_ m.
     and_then (apply_or_conflict w C_LAUNCH opr ''POST /api/launch'' m) (\<lambda>_ m.
       (Inr (), start_launch_sequence (Some (de_drone_ids dec)) (''ekf_health'' \<notin> de_overridden dec) m))))))"

text \<open>An empty trajectory counts as none loaded.\<close>

definition loaded_trajectory :: "manager \<Rightarrow> choreography option" where
  "loaded_trajectory m = (case dm_active (mg_stage m) of Some (d # ds) \<Rightarrow> Some (d # ds) | _ \<Rightarrow> None)"

definition api_start ::
  "(bytes \<Rightarrow> bytes) \<Rightarrow> near_pairs \<Rightarrow> world \<Rightarrow> bool \<Rightarrow> string \<Rightarrow> real \<Rightarrow> string \<Rightarrow> string \<Rightarrow> manager \<Rightarrow> unit answer"
where
  "api_start sha256 near w guard mode trigger_ms ex opr m =
     and_then (refuse_if (\<not> guard) Guard_Refused m) (\<lambda>_ m.
     and_then (refuse_if (mg_launch_failures m \<noteq> []) (Launch_Incomplete (sort_key fst (mg_launch_failures m))) m) (\<lambda>_ m.
     and_then (check_command w C_START_TRAJECTORY opr ''POST /api/start-trajectory'' m) (\<lambda>_ m.
       case loaded_trajectory m of None \<Rightarrow> (Inl No_Trajectory, m)
       | Some traj \<Rightarrow>
           (case start_trajectory sha256 near w traj mode trigger_ms ex m of Inl e \<Rightarrow> (Inl (Start_Refused e), m)
            | Inr m' \<Rightarrow> apply_or_conflict w C_START_TRAJECTORY opr ''POST /api/start-trajectory'' m'))))"

definition api_stop :: "world \<Rightarrow> string \<Rightarrow> manager \<Rightarrow> unit answer" where
  "api_stop w opr m =
     and_then (check_command w C_STOP_TRAJECTORY opr ''POST /api/stop-trajectory'' m) (\<lambda>_ m.
       apply_or_conflict w C_STOP_TRAJECTORY opr ''POST /api/stop-trajectory'' (stop_trajectory w m))"

definition api_rtl :: "world \<Rightarrow> bool \<Rightarrow> string \<Rightarrow> manager \<Rightarrow> unit answer" where
  "api_rtl w guard opr m = and_then (refuse_if (\<not> guard) Guard_Refused m) (\<lambda>_ m. (Inr (), trigger_rtl w opr ''POST /api/rtl'' m))"

definition api_land :: "world \<Rightarrow> bool \<Rightarrow> string \<Rightarrow> manager \<Rightarrow> unit answer" where
  "api_land w guard opr m = and_then (refuse_if (\<not> guard) Guard_Refused m) (\<lambda>_ m. (Inr (), trigger_land w opr ''POST /api/land'' m))"

definition api_estop :: "world \<Rightarrow> bool \<Rightarrow> string \<Rightarrow> manager \<Rightarrow> unit answer" where
  "api_estop w guard opr m = and_then (refuse_if (\<not> guard) Guard_Refused m) (\<lambda>_ m. (Inr (), trigger_estop w opr ''POST /api/estop'' m))"

text \<open>\<open>parsed\<close> is what the signature check and the upload gate made of the file; \<^const>\<open>None\<close>: refused.\<close>

definition api_upload_trajectory :: "world \<Rightarrow> bool \<Rightarrow> choreography option \<Rightarrow> string \<Rightarrow> manager \<Rightarrow> unit answer" where
  "api_upload_trajectory w guard parsed opr m =
     and_then (refuse_if (\<not> guard) Guard_Refused m) (\<lambda>_ m.
     and_then (check_command w C_UPLOAD_TRAJECTORY opr ''POST /api/upload-trajectory'' m) (\<lambda>_ m.
       case parsed of None \<Rightarrow> (Inl No_Trajectory, m)
       | Some traj \<Rightarrow> (Inr (), apply_geofence_envelope traj (m\<lparr>mg_stage := (mg_stage m)\<lparr>dm_active := Some traj\<rparr>\<rparr>))))"

text \<open>The staging of the missions; their transfers are steps of their own.\<close>

definition api_upload_mission :: "(bytes \<Rightarrow> bytes) \<Rightarrow> world \<Rightarrow> bool \<Rightarrow> string \<Rightarrow> manager \<Rightarrow> unit answer" where
  "api_upload_mission sha256 w guard opr m =
     and_then (refuse_if (\<not> guard) Guard_Refused m) (\<lambda>_ m.
     and_then (check_command w C_UPLOAD_MISSION opr ''POST /api/upload-mission'' m) (\<lambda>_ m.
       case loaded_trajectory m of None \<Rightarrow> (Inl No_Trajectory, m)
       | Some traj \<Rightarrow>
           (case stage_show sha256 traj (mg_stage m) of Inl e \<Rightarrow> (Inl (Upload_Refused e), m)
            | Inr st \<Rightarrow> (Inr (), m\<lparr>mg_stage := st\<rparr>))))"

definition api_resume_show ::
  "(choreography \<Rightarrow> choreography option) \<Rightarrow> world \<Rightarrow> bool \<Rightarrow> string \<Rightarrow> manager \<Rightarrow> real answer"
where
  "api_resume_show gate w guard opr m =
     and_then (refuse_if (\<not> guard) Guard_Refused m) (\<lambda>_ m.
     and_then (check_command w C_RESUME_SHOW opr ''POST /api/resume-show'' m) (\<lambda>_ m.
       case resume_pending_show gate m of Inl e \<Rightarrow> (Inl (Resume_Refused e), m)
       | Inr (elapsed, m') \<Rightarrow> (Inr elapsed, m')))"

definition api_discard_show :: "world \<Rightarrow> bool \<Rightarrow> string \<Rightarrow> manager \<Rightarrow> unit answer" where
  "api_discard_show w guard opr m =
     and_then (refuse_if (\<not> guard) Guard_Refused m) (\<lambda>_ m.
     and_then (check_command w C_DISCARD_SHOW opr ''POST /api/discard-show'' m) (\<lambda>_ m. (Inr (), discard_pending_show m)))"

section \<open>The machine\<close>

record platform =
  pf_sha256 :: "bytes \<Rightarrow> bytes"
  pf_near :: near_pairs
  pf_interp :: interpolator
  pf_gate :: "choreography \<Rightarrow> choreography option"

datatype step =
    Api_Launch world bool decision string
  | Api_Start world bool string real string string
  | Api_Stop world string
  | Api_RTL world bool string
  | Api_Land world bool string
  | Api_Estop world bool string
  | Api_Abort world int string "string option"
  | Api_Upload_Trajectory world bool "choreography option" string
  | Api_Upload_Mission world bool string
  | Api_Resume world bool string
  | Api_Discard world bool string
  | Upload_Begins int
  | Upload_Ends int transfer
  | Launch_Task world
  | Launch_Drone world int outcome
  | Recovery world
  | Playback world await_result
  | Cancelled_Playback
  | Lifecycle world
  | Proximity world
  | Geofence world
  | Report int vehicle
  | Recording world
  | Snapshotting world bool
  | Connection int
  | Start_Up

definition on_stage :: "(staging \<Rightarrow> staging) \<Rightarrow> manager \<Rightarrow> manager" where
  "on_stage f m = m\<lparr>mg_stage := f (mg_stage m)\<rparr>"

fun station_step :: "platform \<Rightarrow> step \<Rightarrow> manager \<Rightarrow> manager" where
  "station_step p (Api_Launch w g dec opr) m = snd (api_launch (pf_sha256 p) w g dec opr m)"
| "station_step p (Api_Start w g mode trg ex opr) m = snd (api_start (pf_sha256 p) (pf_near p) w g mode trg ex opr m)"
| "station_step p (Api_Stop w opr) m = snd (api_stop w opr m)"
| "station_step p (Api_RTL w g opr) m = snd (api_rtl w g opr m)"
| "station_step p (Api_Land w g opr) m = snd (api_land w g opr m)"
| "station_step p (Api_Estop w g opr) m = snd (api_estop w g opr m)"
| "station_step p (Api_Abort w d mode err) m = snd (abort_drone (pf_interp p) w d mode err m)"
| "station_step p (Api_Upload_Trajectory w g parsed opr) m = snd (api_upload_trajectory w g parsed opr m)"
| "station_step p (Api_Upload_Mission w g opr) m = snd (api_upload_mission (pf_sha256 p) w g opr m)"
| "station_step p (Api_Resume w g opr) m = snd (api_resume_show (pf_gate p) w g opr m)"
| "station_step p (Api_Discard w g opr) m = snd (api_discard_show w g opr m)"
| "station_step p (Upload_Begins d) m = on_stage (begin_upload d) m"
| "station_step p (Upload_Ends d r) m = on_stage (finish_upload d r) m"
| "station_step p (Launch_Task w) m = launch_task_step (pf_sha256 p) w m"
| "station_step p (Launch_Drone w d r) m = launch_one w d r m"
| "station_step p (Recovery w) m = run_recovery w m"
| "station_step p (Playback w r) m = playback_step w r m"
| "station_step p Cancelled_Playback m = finish_cancelled m"
| "station_step p (Lifecycle w) m = evaluate_lifecycle w m"
| "station_step p (Proximity w) m = proximity_pass (pf_near p) (min_separation_m DEFAULT_LIMITS) w m"
| "station_step p (Geofence w) m = geofence_pass w m"
| "station_step p (Report d t) m = vehicle_report d t m"
| "station_step p (Recording w) m = record_sample w m"
| "station_step p (Snapshotting w ok) m = snapshot_tick w ok m"
| "station_step p (Connection d) m = connect_drone d m"
| "station_step p Start_Up m = load_pending_resume_state m"

section \<open>Lemmas: what an endpoint does\<close>

lemma check_command_cases: "check_command w c opr trg m =
    (if state_of m \<in> allowed_from (COMMAND_RULES c) then (Inr (), m)
     else (Inl (Conflict (IllegalTransition c (state_of m))),
       m\<lparr>mg_fsm := fsm_audit (wd_env w) (Rejected (wd_wall w) c (state_of m) opr trg) (mg_fsm m)\<rparr>))"
  by (simp add: check_command_def fsm_check_def)

lemma apply_or_conflict_snd [simp]: "snd (apply_or_conflict w c opr trg m) = apply_command w c opr trg m"
  by (simp add: apply_or_conflict_def apply_command_def split: prod.split sum.split)

lemma apply_or_conflict_ok: "state_of m \<in> allowed_from (COMMAND_RULES c) \<Longrightarrow>
    apply_or_conflict w c opr trg m = (Inr (), apply_command w c opr trg m)"
  using rules_agree[of "state_of m" c]
  by (auto simp: apply_or_conflict_def apply_command_def fsm_apply_cases fsm_transition_def Let_def split: option.splits)

definition only_audits :: "manager \<Rightarrow> manager \<Rightarrow> bool" where
  "only_audits m m' \<longleftrightarrow> (\<exists>f. m' = m\<lparr>mg_fsm := f\<rparr> \<and> fsm_state f = state_of m)"

lemma only_audits_same [simp]: "only_audits m m"
  by (auto simp: only_audits_def intro!: exI[of _ "mg_fsm m"])

lemma only_audits_audit [simp]: "only_audits m (m\<lparr>mg_fsm := fsm_audit env e (mg_fsm m)\<rparr>)"
  by (auto simp: only_audits_def)

lemmas endpoint_defs = and_then_def refuse_if_def check_command_cases Let_def

lemma api_launch_cases:
  "only_audits m (snd (api_launch sha w g dec opr m)) \<or>
   state_of m \<in> {S_STAGED, S_DISARMED} \<and> snd (api_launch sha w g dec opr m) =
     start_launch_sequence (Some (de_drone_ids dec)) (''ekf_health'' \<notin> de_overridden dec)
       (apply_command w C_LAUNCH opr ''POST /api/launch'' m)"
  by (simp add: api_launch_def fleet_gate_def endpoint_defs apply_or_conflict_ok)

lemma start_trajectory_frame:
  assumes "start_trajectory sha near w traj mode trg ex m = Inr m'"
  shows "mg_fsm m' = mg_fsm m" "mg_launch m' = mg_launch m" "mg_launch_failures m' = mg_launch_failures m"
    "mg_launch_planned m' = mg_launch_planned m" "mg_climbs m' = mg_climbs m" "mg_orders m' = mg_orders m"
    "is_aborted m' d = is_aborted m d"
proof -
  have b: "mg_fsm (apply_geofence_envelope t k) = mg_fsm k \<and> mg_launch (apply_geofence_envelope t k) = mg_launch k \<and>
      mg_launch_failures (apply_geofence_envelope t k) = mg_launch_failures k \<and>
      mg_launch_planned (apply_geofence_envelope t k) = mg_launch_planned k \<and>
      mg_climbs (apply_geofence_envelope t k) = mg_climbs k \<and> mg_orders (apply_geofence_envelope t k) = mg_orders k \<and>
      mg_stage (apply_geofence_envelope t k) = mg_stage k" for t k
    by (simp add: apply_geofence_envelope_def split: option.split)
  show "mg_fsm m' = mg_fsm m" "mg_launch m' = mg_launch m" "mg_launch_failures m' = mg_launch_failures m"
    "mg_launch_planned m' = mg_launch_planned m" "mg_climbs m' = mg_climbs m" "mg_orders m' = mg_orders m"
    "is_aborted m' d = is_aborted m d"
    using assms b by (auto simp: start_trajectory_def begin_show_def start_recording_def stop_recording_def Let_def is_aborted_def
        split: sum.splits if_splits)
qed

lemma api_start_cases:
  "only_audits m (snd (api_start sha near w g mode trg ex opr m)) \<or>
   state_of m = S_FORMATION_HOLD \<and> mg_launch_failures m = [] \<and>
     (\<exists>traj m1. start_trajectory sha near w traj mode trg ex m = Inr m1 \<and>
       snd (api_start sha near w g mode trg ex opr m) =
         apply_command w C_START_TRAJECTORY opr ''POST /api/start-trajectory'' m1)"
  by (auto simp: api_start_def endpoint_defs split: option.split sum.split)

lemma api_stop_cases:
  "only_audits m (snd (api_stop w opr m)) \<or>
   state_of m = S_RUNNING \<and> snd (api_stop w opr m) =
     apply_command w C_STOP_TRAJECTORY opr ''POST /api/stop-trajectory'' (stop_trajectory w m)"
  by (simp add: api_stop_def endpoint_defs)

lemma api_emergency_cases:
  "snd (api_rtl w g opr m) = (if g then trigger_rtl w opr ''POST /api/rtl'' m else m)"
  "snd (api_land w g opr m) = (if g then trigger_land w opr ''POST /api/land'' m else m)"
  "snd (api_estop w g opr m) = (if g then trigger_estop w opr ''POST /api/estop'' m else m)"
  by (simp_all add: api_rtl_def api_land_def api_estop_def endpoint_defs)

text \<open>The operations that touch neither the launch, nor the playback, nor the lifecycle.\<close>

definition quiet :: "manager \<Rightarrow> manager \<Rightarrow> bool" where
  "quiet m m' \<longleftrightarrow> state_of m' = state_of m \<and> mg_launch m' = mg_launch m \<and> mg_loop m' = mg_loop m \<and>
     mg_launch_failures m' = mg_launch_failures m \<and> mg_launch_planned m' = mg_launch_planned m \<and>
     mg_climbs m' = mg_climbs m"

lemma quietI: "only_audits m m' \<Longrightarrow> quiet m m' \<and> mg_orders m' = mg_orders m \<and> mg_stage m' = mg_stage m"
  by (auto simp: only_audits_def quiet_def)

lemma geofence_envelope_frame [simp]:
  "mg_fsm (apply_geofence_envelope t m) = mg_fsm m" "mg_launch (apply_geofence_envelope t m) = mg_launch m"
  "mg_loop (apply_geofence_envelope t m) = mg_loop m" "mg_launch_failures (apply_geofence_envelope t m) = mg_launch_failures m"
  "mg_launch_planned (apply_geofence_envelope t m) = mg_launch_planned m" "mg_climbs (apply_geofence_envelope t m) = mg_climbs m"
  "mg_orders (apply_geofence_envelope t m) = mg_orders m" "mg_stage (apply_geofence_envelope t m) = mg_stage m"
  by (simp_all add: apply_geofence_envelope_def split: option.split)

lemma uploads_quiet:
  "quiet m (snd (api_upload_trajectory w g t opr m))" "quiet m (snd (api_upload_mission sha w g opr m))"
  "quiet m (snd (api_resume_show gate w g opr m))" "quiet m (snd (api_discard_show w g opr m))"
  "mg_orders (snd (api_upload_trajectory w g t opr m)) = mg_orders m"
  "mg_orders (snd (api_upload_mission sha w g opr m)) = mg_orders m"
  "mg_orders (snd (api_resume_show gate w g opr m)) = mg_orders m" "mg_orders (snd (api_discard_show w g opr m)) = mg_orders m"
  by (auto simp: quiet_def api_upload_trajectory_def api_upload_mission_def api_resume_show_def api_discard_show_def
      resume_pending_show_def discard_pending_show_def endpoint_defs split: option.split sum.split)

lemma abort_quiet:
  "quiet m (snd (abort_drone interp w d mode err m))"
  "adds_orders (\<lambda>x. \<not> drives (snd x)) m (snd (abort_drone interp w d mode err m))"
  by (auto simp: quiet_def abort_drone_def abort_orders_def one_defs adds_orders_def Let_def
      split: option.split abort_mode.split)

text \<open>The steps that are quiet and give no order.\<close>

fun background :: "step \<Rightarrow> bool" where
  "background (Api_Upload_Trajectory w g t opr) = True"
| "background (Api_Upload_Mission w g opr) = True"
| "background (Api_Resume w g opr) = True"
| "background (Api_Discard w g opr) = True"
| "background (Upload_Begins d) = True"
| "background (Upload_Ends d r) = True"
| "background Cancelled_Playback = True"
| "background (Report d t) = True"
| "background (Recording w) = True"
| "background (Snapshotting w ok) = True"
| "background (Connection d) = True"
| "background Start_Up = True"
| "background _ = False"

lemma loop_cleanup_climbs [simp]: "mg_climbs (loop_cleanup pb m) = mg_climbs m"
  by (simp add: loop_cleanup_def)

lemma vehicle_report_climbs [simp]: "mg_climbs (vehicle_report d t m) = mg_climbs m"
  by (simp add: vehicle_report_def Let_def split: option.split)

lemma background_quiet: "background s \<Longrightarrow> quiet m (station_step p s m) \<and> mg_orders (station_step p s m) = mg_orders m"
  by (cases s) (simp_all add: uploads_quiet, simp_all add: quiet_def on_stage_def finish_cancelled_def record_sample_def
      snapshot_tick_def write_state_snapshot_def connect_drone_def load_pending_resume_state_def split: list.split option.split)

section \<open>The invariant of the station\<close>

text \<open>A show is played only while the fleet is running, a fleet on the ground has no launch in progress,
  and with no drone planned there is nothing to fail.\<close>

definition idle_launch :: "manager \<Rightarrow> bool" where
  "idle_launch m \<longleftrightarrow> mg_launch_failures m = [] \<and> mg_climbs m = [] \<and>
     (\<forall>l. mg_launch m = Some (Launch_At_Work l) \<longrightarrow> la_running l = [] \<and> la_batches l = [])"

definition station_inv :: "manager \<Rightarrow> bool" where
  "station_inv m \<longleftrightarrow>
     (mg_loop m \<noteq> None \<longrightarrow> state_of m = S_RUNNING) \<and>
     (state_of m \<in> {S_STAGED, S_DISARMED} \<longrightarrow> \<not> launch_in_progress m) \<and>
     (mg_launch_planned m = [] \<longrightarrow> idle_launch m)"

lemma inv_quiet: "station_inv m \<Longrightarrow> quiet m m' \<Longrightarrow> station_inv m'"
  by (simp add: station_inv_def quiet_def idle_launch_def launch_in_progress_def)

lemma launch_one_idle: "idle_launch m \<Longrightarrow> launch_one w d r m = m"
  by (simp add: idle_launch_def launch_one_def split: option.split launch_task.split)

lemma launch_task_step_frame [simp]:
  "mg_fsm (launch_task_step sha w m) = mg_fsm m" "mg_loop (launch_task_step sha w m) = mg_loop m"
  "mg_orders (launch_task_step sha w m) = mg_orders m" "mg_stage (launch_task_step sha w m) = mg_stage m"
  by (simp_all add: launch_task_step_def begin_launch_def Let_def split: option.split launch_task.split list.split)

lemma launch_task_step_progress: "launch_in_progress (launch_task_step sha w m) \<Longrightarrow> launch_in_progress m"
  by (cases "mg_launch m") (auto simp: launch_task_step_def launch_in_progress_def)

lemma batches_Nil [simp]: "batches n [] = []"
  by (simp add: batches.simps)

lemma launch_task_step_idle:
  "(mg_launch_planned m = [] \<Longrightarrow> idle_launch m) \<Longrightarrow> mg_launch_planned (launch_task_step sha w m) = [] \<Longrightarrow>
    idle_launch (launch_task_step sha w m)"
  by (auto simp: launch_task_step_def begin_launch_def idle_launch_def Let_def
      split: option.splits launch_task.splits list.splits if_splits)

lemma inv_launch_task: "station_inv m \<Longrightarrow> station_inv (launch_task_step sha w m)"
  using launch_task_step_progress[of sha w m] launch_task_step_idle[of m sha w] by (auto simp: station_inv_def)

lemma inv_launch_one: "station_inv m \<Longrightarrow> station_inv (launch_one w d r m)"
  by (auto simp: station_inv_def launch_one_idle)

lemma run_recovery_keeps [simp]: "mg_climbs (run_recovery w m) = mg_climbs m"
  by simp

lemma inv_recovery: "station_inv m \<Longrightarrow> station_inv (run_recovery w m)"
  by (rule inv_quiet) (simp_all add: quiet_def)

lemma inv_playback: "station_inv m \<Longrightarrow> station_inv (playback_step w r m)"
proof (cases "mg_loop m")
  case (Some pb)
  assume inv: "station_inv m"
  then have "state_of m = S_RUNNING" using Some by (simp add: station_inv_def)
  moreover from this have "state_of (playback_step w r m) \<in> {S_RUNNING, S_SHOW_COMPLETE, S_FORMATION_HOLD}"
    using playback_step_frame(6)[where w = w and r = r and m = m] by (auto simp: ends_show_def)
  ultimately show ?thesis
    using inv playback_step_task[of m w r] by (auto simp: station_inv_def idle_launch_def task_gone_def)
qed (simp add: playback_step_def)

lemma check_climbs_idle: "idle_launch m \<Longrightarrow> check_climbs w m = m"
  by (simp add: idle_launch_def check_climbs_def)

lemma evaluate_lifecycle_idle: "idle_launch m \<Longrightarrow> idle_launch (evaluate_lifecycle w m)"
  by (simp add: evaluate_lifecycle_def advance_phase_def Let_def idle_launch_def)

lemma evaluate_lifecycle_loop:
  "mg_loop (evaluate_lifecycle w m) \<noteq> None \<Longrightarrow> mg_loop m \<noteq> None \<and> (state_of m = S_RUNNING \<longrightarrow> state_of (evaluate_lifecycle w m) = S_RUNNING)"
  by (auto simp: evaluate_lifecycle_def advance_phase_def Let_def split: if_splits)

lemma inv_lifecycle: "station_inv m \<Longrightarrow> station_inv (evaluate_lifecycle w m)"
  using evaluate_lifecycle_moves[of w m] evaluate_lifecycle_idle[of m w] evaluate_lifecycle_loop[of w m]
  by (auto simp: station_inv_def launch_in_progress_def)

lemma inv_failsafe: "station_inv m \<Longrightarrow> failsafe m m' \<Longrightarrow> mg_climbs m' = mg_climbs m \<Longrightarrow> station_inv m'"
  by (auto simp: station_inv_def failsafe_def idle_launch_def launch_in_progress_def)

lemma proximity_pass_climbs [simp]: "mg_climbs (proximity_pass near limit w m) = mg_climbs m"
  by (simp add: proximity_pass_def Let_def)

lemma geofence_pass_climbs [simp]: "mg_climbs (geofence_pass w m) = mg_climbs m"
  unfolding geofence_pass_def
  by (rule foldl_keeps) (auto simp: geofence_one_def hard_check_def soft_check_def split: prod.split)

lemma inv_audits: "station_inv m \<Longrightarrow> only_audits m m' \<Longrightarrow> station_inv m'"
  using quietI[of m m'] inv_quiet[of m m'] by blast

lemma inv_api_launch: "station_inv m \<Longrightarrow> station_inv (snd (api_launch sha w g dec opr m))"
  using api_launch_cases[of m sha w g dec opr] inv_audits[of m "snd (api_launch sha w g dec opr m)"]
    apply_command_state[of w C_LAUNCH opr "''POST /api/launch''" m]
  by (elim disjE conjE) (simp_all, auto simp: start_launch_sequence_def station_inv_def idle_launch_def)

lemma inv_api_start: "station_inv m \<Longrightarrow> station_inv (snd (api_start sha near w g mode trg ex opr m))"
  using api_start_cases[of m sha near w g mode trg ex opr]
proof (elim disjE conjE exE)
  fix traj m1
  assume inv: "station_inv m" and st: "state_of m = S_FORMATION_HOLD" and m1: "start_trajectory sha near w traj mode trg ex m = Inr m1"
    and s: "snd (api_start sha near w g mode trg ex opr m) = apply_command w C_START_TRAJECTORY opr ''POST /api/start-trajectory'' m1"
  note fr = start_trajectory_frame[OF m1]
  have "state_of (apply_command w C_START_TRAJECTORY opr ''POST /api/start-trajectory'' m1) = S_RUNNING"
    using st fr(1) by (simp add: apply_command_state)
  then show ?thesis unfolding s using inv fr by (simp add: station_inv_def idle_launch_def)
qed (rule inv_audits)

lemma inv_api_stop: "station_inv m \<Longrightarrow> station_inv (snd (api_stop w opr m))"
  using api_stop_cases[of m w opr] inv_audits[of m "snd (api_stop w opr m)"]
    apply_command_state[of w C_STOP_TRAJECTORY opr "''POST /api/stop-trajectory''" "stop_trajectory w m"]
  by (elim disjE conjE) (simp_all add: station_inv_def idle_launch_def)

lemma inv_emergency:
  "station_inv m \<Longrightarrow> station_inv (trigger_rtl w opr trg m)" "station_inv m \<Longrightarrow> station_inv (trigger_land w opr trg m)"
  "station_inv m \<Longrightarrow> station_inv (trigger_estop w opr trg m)"
  by (simp_all add: station_inv_def idle_launch_def)

lemma station_inv_step: "station_inv m \<Longrightarrow> station_inv (station_step p s m)"
proof (cases "background s")
  case True
  then show "station_inv m \<Longrightarrow> ?thesis" using background_quiet[OF True] inv_quiet by blast
next
  case False
  assume inv: "station_inv m"
  show ?thesis
  proof (cases s)
    case (Api_Abort w d mode err)
    then show ?thesis using inv abort_quiet inv_quiet by (metis station_step.simps(7))
  qed (use False inv in \<open>simp_all add: inv_launch_task inv_launch_one inv_recovery inv_playback inv_lifecycle
      inv_api_launch inv_api_start inv_api_stop api_emergency_cases inv_emergency inv_failsafe[OF _ proximity_pass_failsafe] inv_failsafe[OF _ geofence_pass_failsafe]\<close>)
qed

text \<open>The machine of the prelude, for every platform.\<close>

interpretation station: invariant_machine "station_step p" station_inv for p
  by unfold_locales (rule station_inv_step)

definition station_start :: "bool \<Rightarrow> real \<Rightarrow> fsm \<Rightarrow> manager \<Rightarrow> bool" where
  "station_start radio speed f m \<longleftrightarrow> fsm_state f = S_STAGED \<and> m = manager_init radio speed f"

lemma station_inv_start: "station_start radio speed f m \<Longrightarrow> station_inv m"
  by (simp add: station_start_def manager_init_def station_inv_def launch_in_progress_def idle_launch_def)

section \<open>Lemmas: orders in a run\<close>

lemma adds_mono: "adds_orders P m m' \<Longrightarrow> (\<And>x. P x \<Longrightarrow> Q x) \<Longrightarrow> adds_orders Q m m'"
  by (auto simp: adds_orders_def list_all_iff)

fun launches :: "step \<Rightarrow> bool" where
  "launches (Api_Launch w g dec opr) = True"
| "launches _ = False"

text \<open>The fleet is coming down or is down, after an emergency.\<close>

definition coming_down :: "manager \<Rightarrow> bool" where
  "coming_down m \<longleftrightarrow> station_inv m \<and> state_of m \<in> insert S_DISARMED EMERGENCY_STATES"

lemma down_idle:
  assumes "coming_down m"
  shows "mg_loop m = None" and "state_of m \<noteq> S_DISARMED \<Longrightarrow> state_of m \<in> EMERGENCY_STATES"
    and "state_of m = S_DISARMED \<Longrightarrow> \<not> launch_in_progress m"
  using assms by (auto simp: coming_down_def station_inv_def EMERGENCY_STATES_def)

lemma launch_one_not_launching: "\<not> launch_in_progress m \<Longrightarrow> launch_one w d r m = m"
  by (simp add: launch_in_progress_def launch_one_def)

lemma refused_while_down:
  assumes "coming_down m"
  shows "only_audits m (snd (api_start sha near w g mode trg ex opr m))" "only_audits m (snd (api_stop w opr m))"
  using assms api_start_cases[of m sha near w g mode trg ex opr] api_stop_cases[of m w opr]
  by (auto simp: coming_down_def EMERGENCY_STATES_def)

lemma lifecycle_while_down: "coming_down m \<Longrightarrow> state_of (evaluate_lifecycle w m) \<in> insert S_DISARMED EMERGENCY_STATES"
  using evaluate_lifecycle_moves[of w m]
  by (cases "state_of (evaluate_lifecycle w m) = state_of m") (auto simp: coming_down_def EMERGENCY_STATES_def)

lemma failsafe_state: "failsafe m m' \<Longrightarrow> state_of m' = state_of m \<or> state_of m' = S_RTL"
  by (auto simp: failsafe_def)

lemma down_step_state:
  assumes down: "coming_down m" and s: "\<not> launches s"
  shows "state_of (station_step p s m) \<in> insert S_DISARMED EMERGENCY_STATES"
proof (cases "background s")
  case True
  then show ?thesis using background_quiet[OF True, of m p] down by (simp add: quiet_def coming_down_def)
next
  case False
  have st: "state_of m \<in> insert S_DISARMED EMERGENCY_STATES" using down by (simp add: coming_down_def)
  have rtl: "S_RTL \<in> EMERGENCY_STATES" "S_LANDING \<in> EMERGENCY_STATES" "S_ESTOP \<in> EMERGENCY_STATES"
    by (simp_all add: EMERGENCY_STATES_def)
  show ?thesis
    using False s st rtl quietI[OF refused_while_down(1)[OF down]] quietI[OF refused_while_down(2)[OF down]]
      lifecycle_while_down[OF down] abort_quiet(1)
      failsafe_state[OF proximity_pass_failsafe] failsafe_state[OF geofence_pass_failsafe] down_idle(1)[OF down]
    by (cases s) (simp_all add: quiet_def api_emergency_cases playback_step_def, metis+)
qed

lemma down_step_orders:
  assumes down: "coming_down m" and s: "\<not> launches s"
  shows "adds_orders (\<lambda>x. \<not> drives (snd x)) m (station_step p s m)"
proof (cases "background s")
  case True
  then show ?thesis using background_quiet[OF True, of m p] by simp
next
  case False
  have one: "adds_orders (\<lambda>x. \<not> drives (snd x)) m (launch_one w d r m)" for w d r
    using launch_one_orders(2)[of m w d r] launch_one_not_launching[of m w d r] down_idle[OF down] by fastforce
  have fs: "failsafe m m' \<Longrightarrow> adds_orders (\<lambda>x. \<not> drives (snd x)) m m'" for m' by (simp add: failsafe_def)
  show ?thesis
    using False s quietI[OF refused_while_down(1)[OF down]] quietI[OF refused_while_down(2)[OF down]]
    by (cases s) (simp_all add: api_emergency_cases one abort_quiet(2) run_recovery_orders triggers_add
      fs[OF proximity_pass_failsafe] fs[OF geofence_pass_failsafe] playback_step_def down_idle(1)[OF down])
qed

lemma coming_down_step: "coming_down m \<Longrightarrow> \<not> launches s \<Longrightarrow> coming_down (station_step p s m)"
  using down_step_state[of m s p] station_inv_step[of m p s] by (simp add: coming_down_def)

interpretation descent: guarded_machine "station_step p" coming_down "\<lambda>s. \<not> launches s"
    "adds_orders (\<lambda>x. \<not> drives (snd x))" for p
  by unfold_locales (auto simp: coming_down_step down_step_orders intro: adds_trans)

section \<open>Lemmas: a launch that failed\<close>

definition HOLD_STATES :: "lifecycle set" where
  "HOLD_STATES = {S_FORMATION_HOLD, S_RUNNING, S_SHOW_COMPLETE}"

definition launch_blocked :: "manager \<Rightarrow> bool" where
  "launch_blocked m \<longleftrightarrow> station_inv m \<and> launch_begun m \<and> mg_launch_failures m \<noteq> [] \<and> state_of m \<notin> HOLD_STATES"

lemma blocked_planned: "launch_blocked m \<Longrightarrow> mg_launch_planned m \<noteq> []"
  by (auto simp: launch_blocked_def station_inv_def idle_launch_def)

lemma not_at_altitude: "launch_blocked m \<Longrightarrow> \<not> at_altitude m"
  using blocked_planned[of m] by (simp add: at_altitude_def launch_blocked_def)

lemma refused_while_blocked:
  assumes "launch_blocked m"
  shows "only_audits m (snd (api_start sha near w g mode trg ex opr m))" "only_audits m (snd (api_stop w opr m))"
    "mg_loop m = None"
  using assms api_start_cases[of m sha near w g mode trg ex opr] api_stop_cases[of m w opr]
  by (auto simp: launch_blocked_def HOLD_STATES_def station_inv_def)

lemma lifecycle_while_blocked: "launch_blocked m \<Longrightarrow> state_of (evaluate_lifecycle w m) \<notin> HOLD_STATES"
  using evaluate_lifecycle_moves[of w m] not_at_altitude[of m]
  by (cases "state_of (evaluate_lifecycle w m) = state_of m") (auto simp: launch_blocked_def HOLD_STATES_def)

lemma blocked_step_state:
  assumes b: "launch_blocked m" and s: "\<not> launches s"
  shows "state_of (station_step p s m) \<notin> HOLD_STATES"
proof (cases "background s")
  case True
  then show ?thesis using background_quiet[OF True, of m p] b by (simp add: quiet_def launch_blocked_def)
next
  case False
  have st: "state_of m \<notin> HOLD_STATES" using b by (simp add: launch_blocked_def)
  have rtl: "S_RTL \<notin> HOLD_STATES" "S_LANDING \<notin> HOLD_STATES" "S_ESTOP \<notin> HOLD_STATES"
    by (simp_all add: HOLD_STATES_def)
  show ?thesis
    using False s st rtl quietI[OF refused_while_blocked(1)[OF b]] quietI[OF refused_while_blocked(2)[OF b]]
      lifecycle_while_blocked[OF b] abort_quiet(1)
      failsafe_state[OF proximity_pass_failsafe] failsafe_state[OF geofence_pass_failsafe] refused_while_blocked(3)[OF b]
    by (cases s) (simp_all add: quiet_def api_emergency_cases playback_step_def, metis+)
qed

lemma launch_task_begun:
  "launch_begun m \<Longrightarrow> launch_begun (launch_task_step sha w m) \<and> mg_launch_failures (launch_task_step sha w m) = mg_launch_failures m"
  by (auto simp: launch_task_step_def launch_begun_def split: option.split launch_task.split list.split)

lemma quiet_launch: "quiet m m' \<Longrightarrow> launch_begun m \<Longrightarrow> launch_begun m' \<and> more_failures m m'"
  by (simp add: quiet_def launch_begun_def)

lemma audits_launch: "only_audits m m' \<Longrightarrow> launch_begun m \<Longrightarrow> launch_begun m' \<and> more_failures m m'"
  using quietI[of m m'] quiet_launch[of m m'] by blast

lemma failsafe_launch: "failsafe m m' \<Longrightarrow> launch_begun m \<Longrightarrow> launch_begun m' \<and> more_failures m m'"
  by (simp add: failsafe_def launch_begun_def)

lemma same_launch: "mg_launch m' = mg_launch m \<Longrightarrow> mg_launch_failures m' = mg_launch_failures m \<Longrightarrow> launch_begun m \<Longrightarrow>
    launch_begun m' \<and> more_failures m m'"
  by (simp add: launch_begun_def)

lemma blocked_step_launch:
  assumes b: "launch_blocked m" and s: "\<not> launches s"
  shows "launch_begun (station_step p s m) \<and> more_failures m (station_step p s m)"
proof (cases "background s")
  case True
  then show ?thesis using background_quiet[OF True, of m p] b quiet_launch[of m "station_step p s m"] by (simp add: launch_blocked_def)
next
  case False
  have begun: "launch_begun m" using b by (simp add: launch_blocked_def)
  note same = same_launch[OF _ _ begun]
  show ?thesis
    using False s begun
    by (cases s) (simp_all add: same api_emergency_cases launch_task_begun launch_one_more_failures evaluate_more_failures
      quiet_launch[OF _ begun] audits_launch[OF _ begun] refused_while_blocked[OF b] abort_quiet(1) launch_begun_cong[OF evaluate_lifecycle_frame(1)]
      failsafe_launch[OF proximity_pass_failsafe begun] failsafe_launch[OF geofence_pass_failsafe begun])
qed

lemma blocked_step: "launch_blocked m \<Longrightarrow> \<not> launches s \<Longrightarrow> launch_blocked (station_step p s m)"
proof -
  assume b: "launch_blocked m" and s: "\<not> launches s"
  have "mg_launch_failures m \<noteq> []" using b by (simp add: launch_blocked_def)
  then obtain d e where "map_of (mg_launch_failures m) d = Some e" by (cases "mg_launch_failures m") fastforce+
  then have "mg_launch_failures (station_step p s m) \<noteq> []"
    using blocked_step_launch[OF b s, of p] by (force simp: more_failures_def)
  then show ?thesis
    using blocked_step_launch[OF b s, of p] blocked_step_state[OF b s, of p] station_inv_step[of m p s] b
    by (simp add: launch_blocked_def)
qed

interpretation failed_launch: guarded_machine "station_step p" launch_blocked "\<lambda>s. \<not> launches s" more_failures for p
  by unfold_locales (auto simp: blocked_step blocked_step_launch intro: more_failures_trans)

section \<open>Lemmas: the way into a show\<close>

lemma hold_step:
  assumes inv: "station_inv m" and hold: "state_of (station_step p s m) \<in> HOLD_STATES" and not: "state_of m \<notin> HOLD_STATES"
  shows "\<exists>w. s = Lifecycle w \<and> state_of m = S_TAKEOFF \<and> \<not> launch_in_progress m \<and> at_altitude m"
proof (cases "background s")
  case True
  then show ?thesis using background_quiet[OF True, of m p] hold not by (simp add: quiet_def)
next
  case False
  have loop: "mg_loop m = None" using inv not by (auto simp: station_inv_def HOLD_STATES_def)
  have start: "only_audits m (snd (api_start sha near w g mode trg ex opr m))" for sha near w g mode trg ex opr
    using not api_start_cases[of m sha near w g mode trg ex opr] by (auto simp: HOLD_STATES_def)
  have stop: "only_audits m (snd (api_stop w opr m))" for w opr
    using not api_stop_cases[of m w opr] by (auto simp: HOLD_STATES_def)
  have launch: "state_of (snd (api_launch sha w g dec opr m)) \<notin> HOLD_STATES" for sha w g dec opr
    using api_launch_cases[of m sha w g dec opr]
  proof (elim disjE conjE)
    assume "only_audits m (snd (api_launch sha w g dec opr m))"
    from quietI[OF this] not show ?thesis by (simp add: quiet_def)
  qed (simp_all add: start_launch_sequence_def apply_command_state HOLD_STATES_def)
  have rtl: "S_RTL \<notin> HOLD_STATES" "S_LANDING \<notin> HOLD_STATES" "S_ESTOP \<notin> HOLD_STATES" by (simp_all add: HOLD_STATES_def)
  have life: ?thesis if h: "s = Lifecycle w" for w
    using evaluate_lifecycle_moves[of w m] hold not h by (auto simp: HOLD_STATES_def)
  have other: "state_of (station_step p s m) \<notin> HOLD_STATES" if "\<forall>w. s \<noteq> Lifecycle w"
    using False that not rtl quietI[OF start] quietI[OF stop] launch abort_quiet(1)
      failsafe_state[OF proximity_pass_failsafe] failsafe_state[OF geofence_pass_failsafe] loop
    by (cases s) (simp_all add: quiet_def api_emergency_cases playback_step_def, metis+)
  from life other hold show ?thesis by blast
qed

lemma hold_run:
  "station_inv m \<Longrightarrow> state_of m \<notin> HOLD_STATES \<Longrightarrow> state_of (run_ops (station_step p) ops m) \<in> HOLD_STATES \<Longrightarrow>
    \<exists>ops1 w ops2. ops = ops1 @ Lifecycle w # ops2 \<and> (let m1 = run_ops (station_step p) ops1 m in
       state_of m1 = S_TAKEOFF \<and> \<not> launch_in_progress m1 \<and> at_altitude m1) \<and>
     (\<forall>k \<le> length ops2. state_of (run_ops (station_step p) (ops1 @ Lifecycle w # take k ops2) m) \<in> HOLD_STATES)"
proof (induction ops rule: rev_induct)
  case (snoc s ops)
  let ?m = "run_ops (station_step p) ops m"
  have inv: "station_inv ?m" using snoc.prems(1) by (rule station.run_inv)
  show ?case
  proof (cases "state_of ?m \<in> HOLD_STATES")
    case True
    then obtain ops1 w ops2 where o: "ops = ops1 @ Lifecycle w # ops2"
      "let m1 = run_ops (station_step p) ops1 m in state_of m1 = S_TAKEOFF \<and> \<not> launch_in_progress m1 \<and> at_altitude m1"
      "\<forall>k \<le> length ops2. state_of (run_ops (station_step p) (ops1 @ Lifecycle w # take k ops2) m) \<in> HOLD_STATES"
      using snoc by blast
    have "state_of (run_ops (station_step p) (ops1 @ Lifecycle w # take k (ops2 @ [s])) m) \<in> HOLD_STATES"
      if "k \<le> length (ops2 @ [s])" for k
      using that o(3) snoc.prems(3) unfolding o(1) by (cases "k = Suc (length ops2)") auto
    then show ?thesis using o(1,2) by (intro exI[of _ ops1] exI[of _ w] exI[of _ "ops2 @ [s]"]) simp
  next
    case False
    with hold_step[OF inv _ False, of p s] snoc.prems(3) obtain w where
      "s = Lifecycle w \<and> state_of ?m = S_TAKEOFF \<and> \<not> launch_in_progress ?m \<and> at_altitude ?m" by auto
    then show ?thesis using snoc.prems(3) by (intro exI[of _ ops] exI[of _ w] exI[of _ "[]"]) (simp add: Let_def)
  qed
qed simp

section \<open>Lemmas: an aborted drone\<close>

lemma is_aborted_telemetry: "telemetry_of m' = telemetry_of m \<Longrightarrow> is_aborted m' d = is_aborted m d"
  by (simp add: is_aborted_def)

lemma set_entry_telemetry [simp]: "dm_telemetry (set_entry d u st) = dm_telemetry st"
  by (simp add: set_entry_def)

lemma stage_show_telemetry: "stage_show sha traj st = Inr st' \<Longrightarrow> dm_telemetry st' = dm_telemetry st"
  by (auto simp: stage_show_def Let_def split: sum.splits)

lemma uploads_telemetry:
  "telemetry_of (snd (api_upload_trajectory w g t opr m)) = telemetry_of m"
  "telemetry_of (snd (api_upload_mission sha w g opr m)) = telemetry_of m"
  "telemetry_of (snd (api_resume_show gate w g opr m)) = telemetry_of m"
  "telemetry_of (snd (api_discard_show w g opr m)) = telemetry_of m"
  by (auto simp: api_upload_trajectory_def api_upload_mission_def api_resume_show_def api_discard_show_def stage_show_telemetry
      resume_pending_show_def discard_pending_show_def endpoint_defs split: option.split sum.split)

fun concerns :: "int \<Rightarrow> step \<Rightarrow> bool" where
  "concerns d (Launch_Drone w i r) = (i = d)"
| "concerns d (Connection i) = (i = d)"
| "concerns d _ = False"

lemma is_aborted_station [simp]:
  "is_aborted (m\<lparr>mg_log := lg\<rparr>) d = is_aborted m d" "is_aborted (m\<lparr>mg_pending := pn\<rparr>) d = is_aborted m d"
  by (simp_all add: is_aborted_def)

lemma is_aborted_on_stage [simp]: "dm_telemetry (f (mg_stage m)) = telemetry_of m \<Longrightarrow> is_aborted (on_stage f m) d = is_aborted m d"
  by (simp add: is_aborted_def on_stage_def)

lemmas uploads_aborted = is_aborted_telemetry[OF uploads_telemetry(1)] is_aborted_telemetry[OF uploads_telemetry(2)]
  is_aborted_telemetry[OF uploads_telemetry(3)] is_aborted_telemetry[OF uploads_telemetry(4)]

lemma background_aborted: "background s \<Longrightarrow> \<not> concerns d s \<Longrightarrow> is_aborted (station_step p s m) d = is_aborted m d"
  by (cases s) (simp_all add: uploads_aborted begin_upload_def finish_upload_def
      finish_cancelled_def record_sample_def snapshot_tick_def write_state_snapshot_def load_pending_resume_state_def
      split: list.split option.split prod.split, simp add: is_aborted_def connect_drone_def map_of_dset)

lemma abort_drone_cases:
  "snd (abort_drone interp w i mode err m) = m \<or>
   (\<exists>am. snd (abort_drone interp w i mode err m) =
      abort_orders am i (set_vehicle i (\<lambda>t. t\<lparr>vt_aborted := True, vt_planned := None\<rparr>) m))"
proof (cases "map_of ABORT_MODES mode = None \<or> vehicle_of m i = None \<or> pad_offset i = None")
  case True
  then show ?thesis by (auto simp: abort_drone_def split: option.split)
next
  case False
  then obtain am t pad where "map_of ABORT_MODES mode = Some am" "vehicle_of m i = Some t" "pad_offset i = Some pad"
    by (cases "map_of ABORT_MODES mode"; cases "vehicle_of m i"; cases "pad_offset i") auto
  then have "snd (abort_drone interp w i mode err m) =
      abort_orders am i (set_vehicle i (\<lambda>t. t\<lparr>vt_aborted := True, vt_planned := None\<rparr>) m)"
    by (simp only: abort_drone_def Let_def option.case snd_conv)
  then show ?thesis by blast
qed

lemma is_aborted_abort: "is_aborted m d \<Longrightarrow> is_aborted (snd (abort_drone interp w i mode err m)) d"
proof -
  have "is_aborted m d \<Longrightarrow> is_aborted (set_vehicle i (\<lambda>t. t\<lparr>vt_aborted := True, vt_planned := None\<rparr>) m) d"
    unfolding is_aborted_def by (simp split: option.splits)
  moreover have "is_aborted (abort_orders am i m') d = is_aborted m' d" for am m'
    by (simp add: abort_orders_def one_defs split: abort_mode.split)
  ultimately show ?thesis if "is_aborted m d"
    using that abort_drone_cases[of interp w i mode err m] by (elim disjE exE) (simp_all only:)
qed

lemma audits_aborted: "only_audits m m' \<Longrightarrow> is_aborted m' d = is_aborted m d"
  using quietI[of m m'] is_aborted_cong[of m' m d] by blast

lemma start_aborted: "is_aborted (snd (api_start sha near w g mode trg ex opr m)) d = is_aborted m d"
  using api_start_cases[of m sha near w g mode trg ex opr]
proof (elim disjE conjE exE)
  fix traj m1
  assume "start_trajectory sha near w traj mode trg ex m = Inr m1"
  from start_trajectory_frame(7)[OF this]
  show "snd (api_start sha near w g mode trg ex opr m) = apply_command w C_START_TRAJECTORY opr ''POST /api/start-trajectory'' m1 \<Longrightarrow> ?thesis"
    by simp
qed (rule audits_aborted)

lemma other_aborted:
  "is_aborted (snd (api_launch sha w g dec opr m)) d = is_aborted m d"
  "is_aborted (snd (api_stop w opr m)) d = is_aborted m d"
  "failsafe m m' \<Longrightarrow> is_aborted m' d = is_aborted m d"
  "is_aborted (evaluate_lifecycle w m) d = is_aborted m d" "is_aborted (run_recovery w m) d = is_aborted m d"
  "is_aborted (launch_task_step sha w m) d = is_aborted m d"
proof -
  show "is_aborted (snd (api_launch sha w g dec opr m)) d = is_aborted m d"
    using api_launch_cases[of m sha w g dec opr] audits_aborted[of m "snd (api_launch sha w g dec opr m)" d]
    by (elim disjE conjE) (simp_all add: is_aborted_def start_launch_sequence_def)
  show "is_aborted (snd (api_stop w opr m)) d = is_aborted m d"
    using api_stop_cases[of m w opr] audits_aborted[of m "snd (api_stop w opr m)" d]
    by (elim disjE conjE) (simp_all add: is_aborted_def)
qed (simp_all add: is_aborted_def failsafe_def)

lemmas launch_aborted [simp] = is_aborted_cong[OF launched_frame(1)] is_aborted_cong[OF wait_on_frame(1)]
  is_aborted_cong[OF track_climb_frame(1)] is_aborted_cong[OF record_launch_failure_frame(1)]

lemma launch_called_aborted [simp]: "i \<noteq> d \<Longrightarrow> is_aborted (launch_called w i m) d = is_aborted m d"
proof -
  assume "i \<noteq> d"
  then have "is_aborted (set_vehicle i (\<lambda>t. t\<lparr>vt_aborted := False\<rparr>) m) d = is_aborted m d"
    by (auto simp: is_aborted_def split: option.split)
  then show ?thesis by (simp add: launch_called_def split: option.split)
qed

lemma armable_known_aborted [simp]: "is_aborted (armable_known e i r m) d = is_aborted m d"
  by (simp add: armable_known_def Let_def split: outcome.split)

lemma arm_returned_aborted [simp]: "is_aborted (arm_returned i r m) d = is_aborted m d"
  by (simp add: arm_returned_def Let_def split: outcome.split)

lemma setpoint_returned_aborted [simp]: "is_aborted (setpoint_returned i r m) d = is_aborted m d"
  by (simp add: setpoint_returned_def Let_def split: outcome.split)

lemma confirm_offboard_aborted [simp]: "is_aborted (confirm_offboard w i t m) d = is_aborted m d"
  by (simp add: confirm_offboard_def Let_def split: option.split)

lemma offboard_returned_aborted [simp]: "is_aborted (offboard_returned w i r m) d = is_aborted m d"
  by (simp add: offboard_returned_def Let_def split: outcome.split)

lemma climb_returned_aborted [simp]: "is_aborted (climb_returned w i r m) d = is_aborted m d"
  by (simp add: climb_returned_def Let_def split: outcome.split)

lemma launch_one_other: "i \<noteq> d \<Longrightarrow> is_aborted (launch_one w i r m) d = is_aborted m d"
  by (simp add: launch_one_def split: option.split launch_task.split launch_phase.split)

lemma aborted_step: "is_aborted m d \<Longrightarrow> \<not> concerns d s \<Longrightarrow> is_aborted (station_step p s m) d"
  by (cases "background s", simp add: background_aborted)
    (cases s, simp_all add: start_aborted other_aborted is_aborted_abort launch_one_other api_emergency_cases
      other_aborted(3)[OF proximity_pass_failsafe] other_aborted(3)[OF geofence_pass_failsafe])

definition spares :: "int \<Rightarrow> int \<times> order \<Rightarrow> bool" where
  "spares d ix \<longleftrightarrow> \<not> (fst ix = d \<and> is_setpoint (snd ix))"

lemma not_driving_spares: "adds_orders (\<lambda>x. \<not> drives (snd x)) m m' \<Longrightarrow> adds_orders (spares d) m m'"
proof (rule adds_mono)
  show "\<not> drives (snd x) \<Longrightarrow> spares d x" for x by (cases "snd x") (auto simp: spares_def)
qed

lemma no_setpoint_spares: "adds_orders (\<lambda>x. \<not> is_setpoint (snd x)) m m' \<Longrightarrow> adds_orders (spares d) m m'"
  by (erule adds_mono) (auto simp: spares_def)

lemma api_orders [simp]:
  "mg_orders (snd (api_launch sha w g dec opr m)) = mg_orders m"
  "mg_orders (snd (api_start sha near w g mode trg ex opr m)) = mg_orders m"
  "mg_orders (snd (api_stop w opr m)) = mg_orders m"
proof -
  show "mg_orders (snd (api_launch sha w g dec opr m)) = mg_orders m"
    using api_launch_cases[of m sha w g dec opr] quietI[of m "snd (api_launch sha w g dec opr m)"]
    by (elim disjE conjE) (simp_all add: start_launch_sequence_def)
  show "mg_orders (snd (api_stop w opr m)) = mg_orders m"
    using api_stop_cases[of m w opr] quietI[of m "snd (api_stop w opr m)"] by (elim disjE conjE) simp_all
  show "mg_orders (snd (api_start sha near w g mode trg ex opr m)) = mg_orders m"
    using api_start_cases[of m sha near w g mode trg ex opr]
  proof (elim disjE conjE exE)
    fix traj m1
    assume "start_trajectory sha near w traj mode trg ex m = Inr m1"
      and "snd (api_start sha near w g mode trg ex opr m) = apply_command w C_START_TRAJECTORY opr ''POST /api/start-trajectory'' m1"
    then show ?thesis using start_trajectory_frame(6) by simp
  qed (use quietI in blast)
qed

lemma aborted_step_orders:
  assumes "is_aborted m d"
  shows "adds_orders (spares d) m (station_step p s m)"
proof (cases "background s")
  case True
  then show ?thesis using background_quiet[OF True, of m p] by simp
next
  case False
  have pb: "adds_orders (spares d) m (playback_step w r m)" for w r
    by (rule adds_mono[OF playback_step_orders[OF assms]]) (auto simp: spares_def)
  have fs: "failsafe m m' \<Longrightarrow> adds_orders (spares d) m m'" for m' by (rule not_driving_spares) (simp add: failsafe_def)
  show ?thesis
    using False
    by (cases s) (simp_all add: api_emergency_cases pb fs[OF proximity_pass_failsafe] fs[OF geofence_pass_failsafe]
      no_setpoint_spares[OF launch_one_orders(1)] not_driving_spares[OF run_recovery_orders] not_driving_spares[OF abort_quiet(2)]
      triggers_add spares_def)
qed

interpretation abort: guarded_machine "station_step p" "\<lambda>m. is_aborted m d" "\<lambda>s. \<not> concerns d s" "adds_orders (spares d)" for p d
  by unfold_locales (auto simp: aborted_step aborted_step_orders intro: adds_trans)
end
