(* ===== verification/Flight_Safety.thy ===== *)
theory Flight_Safety
  imports Ground_Station
begin

text \<open>
  What the ground station guarantees in flight, over every run of its machine: the control of the fleet
  after an emergency, the show after a launch that failed, the way into a show, and the drone that
  was aborted out of one. Each property rests on a machine interpreted in \<open>Ground_Station\<close>.
\<close>

section \<open>A run to look at\<close>

text \<open>One drone that reports itself armed and above its hover altitude, launched by the operator.\<close>

definition demo_world :: world where
  "demo_world = \<lparr>wd_mono = 0, wd_wall = 0, wd_env = plain_env, wd_radio_ok = True\<rparr>"

definition demo_decision :: decision where
  "demo_decision = \<lparr>de_permitted = True,
     de_report = \<lparr>rp_profile = SIMULATION, rp_evaluated_at = 0, rp_permitted = True, rp_launch_ids = [0],
       rp_excluded_ids = [], rp_blocking = [], rp_partial = False, rp_expected = 1, rp_show_hash = None,
       rp_rules = [], rp_fleet_gates = [], rp_drones = [], rp_confirmations = (CF_Idle, CF_Idle)\<rparr>,
     de_drone_ids = [0], de_overridden = {}\<rparr>"

definition demo_platform :: platform where
  "demo_platform = \<lparr>pf_sha256 = (\<lambda>_. []), pf_near = (\<lambda>_ _. []), pf_interp = (\<lambda>_ _ _. 0), pf_gate = (\<lambda>_. None)\<rparr>"

definition demo_station :: manager where
  "demo_station = manager_init False 1 (fsm_init None 10 False 0)"

definition hovering :: vehicle where
  "hovering = fresh_vehicle\<lparr>vt_connected := True, vt_armed := True, vt_flight_mode := Some ''OFFBOARD'', vt_fleet := (0, 0, 10),
     vt_last_heartbeat := Some 0\<rparr>"

definition launch_one_drone :: "vehicle \<Rightarrow> step list" where
  "launch_one_drone t = [Connection 0, Report 0 t, Api_Launch demo_world True demo_decision ''op'',
     Launch_Task demo_world, Launch_Task demo_world, Launch_Drone demo_world 0 Returned]"

lemma demo_start: "station_start False 1 (fsm_init None 10 False 0) demo_station"
  by (simp add: station_start_def demo_station_def fsm_init_def)

lemmas demo_defs = demo_platform_def demo_station_def demo_world_def demo_decision_def launch_one_drone_def
  manager_init_def fsm_init_def connect_drone_def vehicle_report_def set_vehicle_def map_vehicle_def Let_def
  api_launch_def endpoint_defs fleet_gate_def launch_gate_def apply_or_conflict_ok apply_command_def fsm_apply_cases
  fsm_transition_def can_transition_def fsm_audit_def start_launch_sequence_def launch_task_step_def begin_launch_def
  launch_ids_def batches.simps LAUNCH_BATCH_SIZE_def deque_append_def

lemma first_hover: "hover_altitude 0 = 2"
proof -
  have "DEFAULT_ALTITUDES = map (\<lambda>i. 2 + 2 * of_int (i mod max_layers DEFAULT_LIMITS 2 2)) [0..MAX_FLEET_SIZE - 1]"
    by (simp add: DEFAULT_ALTITUDES_def altitude_layers_def MAX_FLEET_SIZE_def BASE_HOVER_ALT_M_def DEFAULT_LIMITS_def Let_def)
  moreover have "[0..MAX_FLEET_SIZE - 1] = 0 # [1..MAX_FLEET_SIZE - 1]" by (simp add: MAX_FLEET_SIZE_def upto_rec1)
  ultimately have eq: "DEFAULT_ALTITUDES = 2 # map (\<lambda>i. 2 + 2 * of_int (i mod max_layers DEFAULT_LIMITS 2 2)) [1..MAX_FLEET_SIZE - 1]"
    by simp
  show ?thesis unfolding hover_altitude_def eq by simp
qed

section \<open>After an emergency\<close>



section \<open>After a launch that failed\<close>

text \<open>C5. A show never starts over a launch that failed. From the moment a launch has a failure on
  record, and until an operator launches again, whatever the tasks and the operators do in whatever
  order, the fleet does not reach formation, is never running a show, the failure stays on record
  with its reason, and a request to start the show is refused naming it.\<close>
theorem failed_launch_blocks_show:
  assumes "station_start radio speed f m0"
    and "m = run_ops (station_step p) ops m0" and "launch_begun m"
    and "map_of (mg_launch_failures m) d = Some why" and "state_of m \<notin> HOLD_STATES"
    and "list_all (\<lambda>s. \<not> launches s) ops'" and "m' = run_ops (station_step p) ops' m"
  shows "state_of m' \<notin> HOLD_STATES \<and> map_of (mg_launch_failures m') d = Some why \<and>
    fst (api_start sha near w True mode trg ex opr m') = Inl (Launch_Incomplete (sort_key fst (mg_launch_failures m')))"
proof -
  have "launch_blocked m"
    using assms(3-5) station.run_inv[OF station_inv_start[OF assms(1)], of p ops] assms(2) by (auto simp: launch_blocked_def)
  from failed_launch.run_keeps[OF this assms(6), of p] have "launch_blocked m'" "more_failures m m'" by (simp_all add: assms(7))
  then show ?thesis using assms(4)
    by (auto simp: launch_blocked_def more_failures_def api_start_def and_then_def refuse_if_def)
qed

lemma failed_launch_blocks_show_witness:
  "let m' = run_ops (station_step demo_platform) [Launch_Task demo_world, Lifecycle demo_world]
      (run_ops (station_step demo_platform) (launch_one_drone fresh_vehicle) demo_station)
   in state_of m' \<notin> HOLD_STATES \<and> map_of (mg_launch_failures m') 0 = Some LF_Not_Connected"
proof -
  let ?m = "run_ops (station_step demo_platform) (launch_one_drone fresh_vehicle) demo_station"
  note eval = demo_defs launch_one_def launch_called_def fresh_vehicle_def record_launch_failure_def launched_def running_drones_def
  have "launch_begun ?m" by (simp add: eval launch_begun_def)
  moreover have "map_of (mg_launch_failures ?m) 0 = Some LF_Not_Connected" by (simp add: eval)
  moreover have "state_of ?m \<notin> HOLD_STATES" by (simp add: eval HOLD_STATES_def)
  ultimately show ?thesis
    using failed_launch_blocks_show[OF demo_start refl, of demo_platform "launch_one_drone fresh_vehicle" 0 LF_Not_Connected
      "[Launch_Task demo_world, Lifecycle demo_world]"] by (simp add: Let_def)
qed

section \<open>The way into a show\<close>

text \<open>C6. Whenever the fleet holds formation, runs a show or has completed one, the lifecycle monitor
  found it ready at a poll since which it has been in these states: at that poll the fleet was taking
  off, the launch task had ended, no drone of the launch had failed, and every drone the launch had
  planned was armed, in OFFBOARD, and no further than the tolerance below its own hover altitude.\<close>
theorem show_follows_formation:
  assumes "station_start radio speed f m0"
    and "state_of (run_ops (station_step p) ops m0) \<in> HOLD_STATES"
  shows "\<exists>ops1 w ops2 m1. ops = ops1 @ Lifecycle w # ops2 \<and> m1 = run_ops (station_step p) ops1 m0 \<and>
    state_of m1 = S_TAKEOFF \<and> mg_launch m1 = None \<and>
    (mg_launch_planned m1 \<noteq> [] \<longrightarrow> mg_launch_failures m1 = []) \<and>
    (\<forall>d \<in> set (mg_launch_planned m1). \<exists>t. vehicle_of m1 d = Some t \<and> vt_armed t \<and>
      vt_flight_mode t = Some ''OFFBOARD'' \<and> altitude_of t \<ge> hover_altitude d - FORMATION_ALT_TOLERANCE_M) \<and>
    (\<forall>k \<le> length ops2. state_of (run_ops (station_step p) (ops1 @ Lifecycle w # take k ops2) m0) \<in> HOLD_STATES)"
proof -
  have "state_of m0 \<notin> HOLD_STATES" using assms(1) by (auto simp: station_start_def manager_init_def HOLD_STATES_def)
  from hold_run[OF station_inv_start[OF assms(1)] this assms(2)] obtain ops1 w ops2 where
    o: "ops = ops1 @ Lifecycle w # ops2"
      "\<forall>k \<le> length ops2. state_of (run_ops (station_step p) (ops1 @ Lifecycle w # take k ops2) m0) \<in> HOLD_STATES"
    and m1: "state_of (run_ops (station_step p) ops1 m0) = S_TAKEOFF" "\<not> launch_in_progress (run_ops (station_step p) ops1 m0)"
      "at_altitude (run_ops (station_step p) ops1 m0)"
    by (auto simp: Let_def)
  have up: "in_formation m d \<Longrightarrow> \<exists>t. vehicle_of m d = Some t \<and> vt_armed t \<and> vt_flight_mode t = Some ''OFFBOARD'' \<and>
      altitude_of t \<ge> hover_altitude d - FORMATION_ALT_TOLERANCE_M" for m d
    by (auto simp: in_formation_def split: option.splits)
  show ?thesis
    using o m1 up by (intro exI[of _ ops1] exI[of _ w] exI[of _ ops2] exI) (auto simp: launch_in_progress_def at_altitude_def list_all_iff split: if_splits)
qed

definition formation_ops :: "step list" where
  "formation_ops = launch_one_drone hovering @
     [Launch_Task demo_world, Lifecycle demo_world, Lifecycle demo_world, Lifecycle demo_world]"

lemma formation_reached: "state_of (run_ops (station_step demo_platform) formation_ops demo_station) = S_FORMATION_HOLD"
  by (simp add: demo_defs formation_ops_def launch_one_def launch_called_def hovering_def fresh_vehicle_def track_climb_def
    launched_def running_drones_def evaluate_lifecycle_def advance_phase_def advance_def fsm_advance_def armed_vehicles_def
    AIRBORNE_STATES_def launch_in_progress_def check_climbs_def check_climb_def altitude_of_def TAKEOFF_DETECT_ALT_M_def
    FORMATION_ALT_TOLERANCE_M_def first_hover at_altitude_def in_formation_def)

lemma show_follows_formation_witness:
  "\<exists>ops1 w ops2 m1. formation_ops = ops1 @ Lifecycle w # ops2 \<and> m1 = run_ops (station_step demo_platform) ops1 demo_station \<and>
    state_of m1 = S_TAKEOFF \<and> mg_launch m1 = None"
proof -
  have "state_of (run_ops (station_step demo_platform) formation_ops demo_station) \<in> HOLD_STATES"
    using formation_reached by (simp add: HOLD_STATES_def)
  from show_follows_formation[OF demo_start this] show ?thesis by blast
qed

section \<open>The aborted drone\<close>




section \<open>What the steps show besides\<close>

text \<open>A launch names its drones, so that the skip of aborted drones never applies to it: one of them is
  launched again and loses its flag.\<close>

lemma named_launch_keeps_aborted:
  assumes "dm_staged (mg_stage m) = None" and "vehicle_of m d = Some t" and "d \<in> set ds"
  shows "\<exists>ds'. launch_ids sha (Some ds) m = Some ds' \<and> d \<in> set ds'"
  using assms(1,3) map_of_SomeD[OF assms(2)] by (force simp: launch_ids_def Let_def)

text \<open>An abort does not stop the launch of its drone: one that is armed and in OFFBOARD is still sent up.\<close>

lemma aborted_drone_still_climbs:
  assumes "vehicle_of m d = Some t" and "is_heartbeat_fresh (wd_wall w) t" and "vt_armed t"
    and "vt_flight_mode t = Some ''OFFBOARD''" and "state_of m \<notin> EMERGENCY_STATES" and "is_aborted m d"
  shows "mg_orders (confirm_offboard w d deadline m) = mg_orders m @ [(d, O_Climb (hover_altitude d))]"
  using assms by (simp add: confirm_offboard_def launch_preempted_def)

text \<open>A start instant that does not fit the trigger ends the playback task before it has begun: the
  fleet is running a show that nothing plays.\<close>

lemma late_trigger_strands_show:
  assumes "mg_loop m = Some pb" and "pb_phase pb = PB_Released trigger_ms sid"
    and "trigger_ms * 1000 \<ge> 2 ^ 64" and "length sid = SHOW_ID_SIZE"
  shows "mg_loop (playback_step w r m) = None \<and> mg_playing (playback_step w r m) = mg_playing m \<and>
    state_of (playback_step w r m) = state_of m"
proof -
  define s where "s = max (trigger_ms / 1000) (wd_wall w + TRIGGER_LEAD_S)"
  have "trigger_ms / 1000 \<le> s" by (simp add: s_def)
  then have big: "of_int (2 ^ 64) \<le> s * 1000000" using assms(3) by simp
  then have "2 ^ 64 \<le> \<lfloor>s * 1000000\<rfloor>" by (simp only: le_floor_iff)
  moreover have "0 \<le> s * 1000000" using big by simp
  ultimately have "2 ^ 64 \<le> py_int (s * 1000000)" by (simp add: py_int_def)
  then have "\<not> packable TRIGGER_BODY_FORMAT [VI 1, VB sid, VI (py_int (s * 1000000))]"
    by (simp add: TRIGGER_BODY_FORMAT_def)
  then have "struct_pack TRIGGER_BODY_FORMAT [VI 1, VB sid, VI (py_int (s * 1000000))] = None"
    using struct_pack_packable[of TRIGGER_BODY_FORMAT "[VI 1, VB sid, VI (py_int (s * 1000000))]"] by (metis not_Some_eq)
  then have "encode_show_trigger 1 sid (py_int (s * 1000000)) = Inl StructError"
    using assms(4) by (simp add: encode_show_trigger_def command_of_def)
  then show ?thesis using assms(1,2) by (simp add: playback_step_def playback_released_def loop_dies_def Let_def s_def)
qed

text \<open>A show started over one that is still playing ends at once: the cancelled task clears the flag the
  new one has just set.\<close>

lemma restart_while_playing_stops:
  assumes "start_trajectory sha near w traj mode 0 ''streamed'' m = Inr m1"
    and "mg_loop m = Some pb" and "inside_try (pb_phase pb)" and "mg_cancelled_loops m = []"
  shows "\<not> mg_playing (finish_cancelled m1) \<and> mg_loop (playback_step w' r (finish_cancelled m1)) = None"
proof -
  obtain plan b where m1: "m1 = begin_show w traj mode 0 Streamed plan b m"
    using assms(1) by (auto simp: start_trajectory_def split: sum.splits)
  have c: "mg_cancelled_loops (cancel_onboard w m) = []" "mg_loop (cancel_onboard w m) = Some pb"
    using assms(2,4) by (auto simp: cancel_onboard_def broadcast_def split: option.split sum.split)
  have st: "mg_cancelled_loops (stop_trajectory w m) = [pb]"
    using c assms(3) by (simp add: stop_trajectory_def cancel_loop_def stop_recording_def)
  have g: "mg_cancelled_loops (apply_geofence_envelope t k) = mg_cancelled_loops k" for t k
    by (simp add: apply_geofence_envelope_def split: option.split)
  have l: "mg_cancelled_loops m1 = [pb]" "\<exists>pb'. mg_loop m1 = Some pb' \<and> pb_phase pb' = PB_Called 0 \<and> pb_execution pb' = Streamed"
    using st g by (simp_all add: m1 begin_show_def Let_def start_recording_def stop_recording_def)
  obtain pb' where p: "mg_loop (finish_cancelled m1) = Some pb'" "pb_phase pb' = PB_Called 0" "pb_execution pb' = Streamed"
    using l by (auto simp: finish_cancelled_def)
  have off: "\<not> mg_playing (finish_cancelled m1)"
    using l(1) by (simp add: finish_cancelled_def loop_cleanup_def stop_recording_def)
  have e: "mg_loop (loop_end w' False pb' k) = None" for k by (simp add: loop_end_def Let_def)
  show ?thesis using off p e by (simp add: playback_step_def playback_called_def start_flying_def fly_tick_def Let_def)
qed
end
