(* ===== verification/Vault.thy ===== *)
theory Vault
  imports Show "HOL-Library.Char_ord" "HOL-Library.List_Lexorder"
begin

text \<open>
  The Studio's project vault, \<^verbatim>\<open>packages/tara-studio/tara_studio/project_store.py\<close> and
  \<^verbatim>\<open>project_api.py\<close>: one directory per project with \<^verbatim>\<open>project.json\<close> and \<^verbatim>\<open>show.json\<close>. Every change
  is a list of disk writes of which a failing disk, or a process that dies, does only the first few.
  The JSON codec, SHA-256 and the canonical text that is hashed into an import's fingerprint are
  parameters.
\<close>

section \<open>Constants\<close>

definition PROJECT_FORMAT :: string where "PROJECT_FORMAT = ''tara-project''"
definition PROJECT_FORMAT_VERSION :: int where "PROJECT_FORMAT_VERSION = 1"
definition MAX_VERSIONS :: nat where "MAX_VERSIONS = 20"
definition INTERNAL_FIELDS :: "string list" where
  "INTERNAL_FIELDS = [''show_sha256'', ''imported_fingerprint'']"

definition id_start_char :: "char \<Rightarrow> bool" where
  "id_start_char c = (let k = of_char c :: nat in
     48 \<le> k \<and> k \<le> 57 \<or> 65 \<le> k \<and> k \<le> 90 \<or> 97 \<le> k \<and> k \<le> 122)"

definition id_char :: "char \<Rightarrow> bool" where
  "id_char c = (id_start_char c \<or> c = CHR ''_'' \<or> c = CHR ''-'')"

definition valid_project_id :: "string \<Rightarrow> bool" where
  "valid_project_id s =
     (case s of [] \<Rightarrow> False | c # cs \<Rightarrow> id_start_char c \<and> list_all id_char cs \<and> length cs \<le> 63)"

section \<open>State\<close>

datatype store_error =
    Project_Not_Found string
  | Project_Exists string
  | Invalid_Project
  | Project_Unreadable
  | Revision_Conflict int int
  | Fingerprint_Not_JSON
  | Storage_Failed

record project_dir =
  pd_project :: "bytes option"
  pd_show :: "bytes option"

record vault =
  vt_dirs :: "(string, project_dir) dict"
  vt_trash :: "(string \<times> project_dir) list"

definition project_file :: "vault \<Rightarrow> string \<Rightarrow> bytes option" where
  "project_file v pid = Option.bind (map_of (vt_dirs v) pid) pd_project"

definition show_file :: "vault \<Rightarrow> string \<Rightarrow> bytes option" where
  "show_file v pid = Option.bind (map_of (vt_dirs v) pid) pd_show"

definition empty_vault :: vault where
  "empty_vault = \<lparr>vt_dirs = [], vt_trash = []\<rparr>"

type_synonym meta = "(string, json) dict"

text \<open>\<^verbatim>\<open>json.dumps\<close> (\<^const>\<open>None\<close> where it raises), \<^verbatim>\<open>json.loads\<close>, the hexadecimal SHA-256, and the
  fingerprint of an import (\<^const>\<open>None\<close> where \<^verbatim>\<open>json.dumps\<close> raises).\<close>

record codec =
  cd_dumps :: "json \<Rightarrow> bytes option"
  cd_loads :: "bytes \<Rightarrow> json option"
  cd_sha :: "bytes \<Rightarrow> string"
  cd_fingerprint :: "json \<Rightarrow> string option"

text \<open>What a call meets: the time stamp, a fresh hexadecimal identifier, the name of the trash
  entry, and how many writes the disk does before it fails.\<close>

record disk_world =
  dw_stamp :: string
  dw_uuid :: string
  dw_when :: string
  dw_writes :: nat

text \<open>What a client stores.\<close>

record content =
  ct_name :: string
  ct_document :: json
  ct_show :: "(string, json) dict option"
  ct_validation :: json
  ct_versions :: "json list"

datatype warning = Show_Schema

section \<open>Reading\<close>

fun int_value :: "json \<Rightarrow> int option" where
  "int_value (JInt i) = Some i"
| "int_value (JBool b) = Some (if b then 1 else 0)"
| "int_value _ = None"

definition read_meta :: "codec \<Rightarrow> vault \<Rightarrow> string \<Rightarrow> store_error + meta" where
  "read_meta c v pid =
     (if \<not> valid_project_id pid then Inl Invalid_Project
      else case project_file v pid of
        None \<Rightarrow> Inl (Project_Not_Found pid)
      | Some raw \<Rightarrow>
          (case cd_loads c raw of
             Some (JObj m) \<Rightarrow>
               if map_of m ''format'' \<noteq> Some (JStr PROJECT_FORMAT) then Inl Project_Unreadable
               else (case Option.bind (map_of m ''format_version'') int_value of
                   None \<Rightarrow> Inl Project_Unreadable
                 | Some k \<Rightarrow>
                     if k > PROJECT_FORMAT_VERSION \<or> Option.bind (map_of m ''revision'') int_value = None
                     then Inl Project_Unreadable
                     else Inr (dset ''id'' (JStr pid) m))
           | _ \<Rightarrow> Inl Project_Unreadable))"

definition meta_revision :: "meta \<Rightarrow> int" where
  "meta_revision m = (case Option.bind (map_of m ''revision'') int_value of None \<Rightarrow> 0 | Some r \<Rightarrow> r)"

definition expected_show :: "meta \<Rightarrow> json" where
  "expected_show m = getd (map_of m ''show_sha256'') JNull"

definition read_show :: "codec \<Rightarrow> vault \<Rightarrow> string \<Rightarrow> meta \<Rightarrow> json option" where
  "read_show c v pid m =
     (if \<not> truthy (expected_show m) then None
      else case show_file v pid of
        None \<Rightarrow> None
      | Some blob \<Rightarrow> if JStr (cd_sha c blob) \<noteq> expected_show m then None else cd_loads c blob)"

definition project_exists :: "vault \<Rightarrow> string \<Rightarrow> bool" where
  "project_exists v pid = (project_file v pid \<noteq> None)"

definition public_meta :: "vault \<Rightarrow> string \<Rightarrow> meta \<Rightarrow> meta" where
  "public_meta v pid m =
     dset ''has_show''
       (JBool (truthy (expected_show m) \<and> show_file v pid \<noteq> None))
       (filter (\<lambda>(k, x). k \<notin> set INTERNAL_FIELDS) m)"

definition get_project :: "codec \<Rightarrow> vault \<Rightarrow> string \<Rightarrow> store_error + meta \<times> json option" where
  "get_project c v pid =
     (case read_meta c v pid of Inl e \<Rightarrow> Inl e
      | Inr m \<Rightarrow>
          let sh = read_show c v pid m in
          Inr (dset ''has_show'' (JBool (sh \<noteq> None)) (public_meta v pid m), sh))"

text \<open>Every readable project, in the order of the directory names.\<close>

definition iter_meta :: "codec \<Rightarrow> vault \<Rightarrow> (string \<times> meta) list" where
  "iter_meta c v =
     List.map_filter (\<lambda>pid. case read_meta c v pid of Inl e \<Rightarrow> None | Inr m \<Rightarrow> Some (pid, m))
       (sort (map fst (vt_dirs v)))"

definition text_of :: "json \<Rightarrow> string" where
  "text_of v = (case v of JStr s \<Rightarrow> s | _ \<Rightarrow> [])"

definition list_projects :: "codec \<Rightarrow> vault \<Rightarrow> meta list" where
  "list_projects c v =
     map (\<lambda>(pid, m). public_meta v pid m)
       (sort_key (\<lambda>(pid, m). text_of (getd (map_of m ''created_at'') (JStr [])))
         (sort_key fst (iter_meta c v)))"

section \<open>Writing\<close>

datatype disk_write = Make_Dir | Write_Show bytes | Write_Project bytes | Remove_Show

definition project_dir_of :: "vault \<Rightarrow> string \<Rightarrow> project_dir" where
  "project_dir_of v pid = getd (map_of (vt_dirs v) pid) \<lparr>pd_project = None, pd_show = None\<rparr>"

fun write_dir :: "disk_write \<Rightarrow> project_dir \<Rightarrow> project_dir" where
  "write_dir Make_Dir d = d"
| "write_dir (Write_Show b) d = d\<lparr>pd_show := Some b\<rparr>"
| "write_dir (Write_Project b) d = d\<lparr>pd_project := Some b\<rparr>"
| "write_dir Remove_Show d = d\<lparr>pd_show := None\<rparr>"

definition do_write :: "string \<Rightarrow> disk_write \<Rightarrow> vault \<Rightarrow> vault" where
  "do_write pid w v = v\<lparr>vt_dirs := dset pid (write_dir w (project_dir_of v pid)) (vt_dirs v)\<rparr>"

definition do_writes :: "string \<Rightarrow> disk_write list \<Rightarrow> vault \<Rightarrow> vault" where
  "do_writes pid ws v = foldl (\<lambda>v w. do_write pid w v) v ws"

definition conforming_show :: "(string, json) dict option \<Rightarrow> json option \<times> warning list" where
  "conforming_show sh =
     (case sh of None \<Rightarrow> (None, [])
      | Some s \<Rightarrow>
          let v = JObj (dict_merge [(''version'', JInt SHOW_FORMAT_VERSION)] s) in
          if container_schema v then (Some v, []) else (None, [Show_Schema]))"

definition show_bytes :: "codec \<Rightarrow> json option \<Rightarrow> store_error + bytes option" where
  "show_bytes c sh =
     (case sh of None \<Rightarrow> Inr None
      | Some s \<Rightarrow> (case cd_dumps c s of None \<Rightarrow> Inl Invalid_Project | Some b \<Rightarrow> Inr (Some b)))"

definition with_show :: "codec \<Rightarrow> bytes option \<Rightarrow> meta \<Rightarrow> meta" where
  "with_show c blob m =
     dset ''show_sha256'' (case blob of None \<Rightarrow> JNull | Some b \<Rightarrow> JStr (cd_sha c b)) m"

definition commit_writes :: "bytes option \<Rightarrow> bytes \<Rightarrow> disk_write list" where
  "commit_writes blob mb =
     (case blob of None \<Rightarrow> [Make_Dir, Write_Project mb, Remove_Show]
      | Some b \<Rightarrow> [Make_Dir, Write_Show b, Write_Project mb])"

type_synonym 'a stored = "(store_error + 'a) \<times> vault"

definition commit ::
  "codec \<Rightarrow> nat \<Rightarrow> string \<Rightarrow> meta \<Rightarrow> (string, json) dict option \<Rightarrow> vault \<Rightarrow> (meta \<times> warning list) stored" where
  "commit c n pid m sh v =
     (case conforming_show sh of (s, warnings) \<Rightarrow>
      case show_bytes c s of Inl e \<Rightarrow> (Inl e, v)
      | Inr blob \<Rightarrow>
          (case cd_dumps c (JObj (with_show c blob m)) of None \<Rightarrow> (Inl Invalid_Project, v)
           | Some mb \<Rightarrow>
               let ws = commit_writes blob mb; v1 = do_writes pid (take n ws) v in
               if n < length ws then (Inl Storage_Failed, v1)
               else (Inr (public_meta v1 pid (with_show c blob m), warnings), v1)))"

definition new_meta :: "disk_world \<Rightarrow> string \<Rightarrow> content \<Rightarrow> meta \<Rightarrow> meta" where
  "new_meta w pid ct extra = dict_merge
     [(''format'', JStr PROJECT_FORMAT), (''format_version'', JInt PROJECT_FORMAT_VERSION),
      (''id'', JStr pid), (''name'', JStr (ct_name ct)), (''revision'', JInt 1),
      (''created_at'', JStr (dw_stamp w)), (''updated_at'', JStr (dw_stamp w)),
      (''document'', ct_document ct), (''validation'', ct_validation ct),
      (''versions'', JList (ct_versions ct))] extra"

definition create_as ::
  "codec \<Rightarrow> disk_world \<Rightarrow> string option \<Rightarrow> content \<Rightarrow> meta \<Rightarrow> vault \<Rightarrow> (meta \<times> warning list) stored" where
  "create_as c w given ct extra v =
     (let pid = (case given of None \<Rightarrow> ''proj-'' @ dw_uuid w | Some i \<Rightarrow> i) in
      if \<not> valid_project_id pid then (Inl Invalid_Project, v)
      else if project_exists v pid then (Inl (Project_Exists pid), v)
      else if length (ct_versions ct) > MAX_VERSIONS then (Inl Invalid_Project, v)
      else commit c (dw_writes w) pid (new_meta w pid ct extra) (ct_show ct) v)"

definition create_project ::
  "codec \<Rightarrow> disk_world \<Rightarrow> string option \<Rightarrow> content \<Rightarrow> vault \<Rightarrow> (meta \<times> warning list) stored" where
  "create_project c w given ct v = create_as c w given ct [] v"

definition saved_meta :: "disk_world \<Rightarrow> content \<Rightarrow> meta \<Rightarrow> meta" where
  "saved_meta w ct m = dict_merge m
     [(''name'', JStr (ct_name ct)), (''document'', ct_document ct), (''validation'', ct_validation ct),
      (''versions'', JList (ct_versions ct)), (''revision'', JInt (meta_revision m + 1)),
      (''updated_at'', JStr (dw_stamp w))]"

definition save_project ::
  "codec \<Rightarrow> disk_world \<Rightarrow> string \<Rightarrow> int \<Rightarrow> content \<Rightarrow> vault \<Rightarrow> (meta \<times> warning list) stored" where
  "save_project c w pid base ct v =
     (case read_meta c v pid of Inl e \<Rightarrow> (Inl e, v)
      | Inr m \<Rightarrow>
          if meta_revision m \<noteq> base then (Inl (Revision_Conflict (meta_revision m) base), v)
          else if length (ct_versions ct) > MAX_VERSIONS then (Inl Invalid_Project, v)
          else commit c (dw_writes w) pid (saved_meta w ct m) (ct_show ct) v)"

definition delete_project :: "disk_world \<Rightarrow> string \<Rightarrow> vault \<Rightarrow> unit stored" where
  "delete_project w pid v =
     (if \<not> valid_project_id pid then (Inl Invalid_Project, v)
      else if \<not> project_exists v pid then (Inl (Project_Not_Found pid), v)
      else if dw_writes w = 0 then (Inl Storage_Failed, v)
      else (Inr (), v\<lparr>vt_dirs := dpop pid (vt_dirs v),
              vt_trash := vt_trash v @ [(pid @ ''.'' @ dw_when w, project_dir_of v pid)]\<rparr>))"

datatype import_status = Created | Renamed | Skipped

definition import_key :: "content \<Rightarrow> json" where
  "import_key ct = JObj [(''name'', JStr (ct_name ct)), (''document'', ct_document ct),
     (''versions'', JList (ct_versions ct))]"

definition imported_as :: "codec \<Rightarrow> vault \<Rightarrow> string \<Rightarrow> (string \<times> meta) option" where
  "imported_as c v fp = find (\<lambda>(pid, m). map_of m ''imported_fingerprint'' = Some (JStr fp)) (iter_meta c v)"

definition import_target :: "vault \<Rightarrow> string option \<Rightarrow> string \<Rightarrow> string option \<times> import_status" where
  "import_target v source fp =
     (case source of None \<Rightarrow> (None, Created)
      | Some i \<Rightarrow>
          if \<not> valid_project_id i then (None, Created)
          else if \<not> project_exists v i then (Some i, Created)
          else let j = take 55 i @ ''-'' @ take 8 fp in (if project_exists v j then None else Some j, Renamed))"

definition import_project ::
  "codec \<Rightarrow> disk_world \<Rightarrow> string option \<Rightarrow> content \<Rightarrow> vault
    \<Rightarrow> ((meta \<times> warning list) \<times> import_status) stored" where
  "import_project c w source ct v =
     (case cd_fingerprint c (import_key ct) of None \<Rightarrow> (Inl Fingerprint_Not_JSON, v)
      | Some fp \<Rightarrow>
          (case imported_as c v fp of
             Some (pid, m) \<Rightarrow> (Inr ((public_meta v pid m, []), Skipped), v)
           | None \<Rightarrow>
               (case import_target v source fp of (given, status) \<Rightarrow>
                case create_as c w given ct [(''imported_fingerprint'', JStr fp)] v of
                  (Inl e, v') \<Rightarrow> (Inl e, v')
                | (Inr r, v') \<Rightarrow> (Inr (r, status), v'))))"

section \<open>The interface of the server\<close>

definition object_list :: "json \<Rightarrow> bool" where
  "object_list = list_of (\<lambda>v. case v of JObj d \<Rightarrow> True | _ \<Rightarrow> False)"

definition document_body :: "json \<Rightarrow> bool" where
  "document_body v =
     (case v of
        JObj d \<Rightarrow> required object_list d ''scenes'' \<and>
          required (\<lambda>l. object_list l \<and> (case l of JList xs \<Rightarrow> int (length xs) \<le> MAX_FLEET_SIZE | _ \<Rightarrow> False)) d ''dronesList''
      | _ \<Rightarrow> False)"

definition nonempty_text :: "json \<Rightarrow> bool" where
  "nonempty_text v = (case v of JStr s \<Rightarrow> s \<noteq> [] | _ \<Rightarrow> False)"

definition version_body :: "json \<Rightarrow> bool" where
  "version_body v = (case v of JObj d \<Rightarrow> required nonempty_text d ''id'' \<and> required nonempty_text d ''savedAt''
      | _ \<Rightarrow> False)"

definition valid_body :: "content \<Rightarrow> bool" where
  "valid_body ct \<longleftrightarrow> 1 \<le> length (ct_name ct) \<and> length (ct_name ct) \<le> 200 \<and> document_body (ct_document ct) \<and>
     (case ct_validation ct of JNull \<Rightarrow> True | JObj d \<Rightarrow> True | _ \<Rightarrow> False) \<and>
     length (ct_versions ct) \<le> MAX_VERSIONS \<and> list_all version_body (ct_versions ct)"

fun error_response :: "store_error \<Rightarrow> nat \<times> string" where
  "error_response (Project_Not_Found i) = (404, ''project_not_found'')"
| "error_response (Project_Exists i) = (409, ''project_exists'')"
| "error_response (Revision_Conflict r b) = (409, ''revision_conflict'')"
| "error_response Invalid_Project = (422, ''invalid_project'')"
| "error_response Project_Unreadable = (500, ''project_unreadable'')"
| "error_response Storage_Failed = (503, ''vault_unavailable'')"
| "error_response Fingerprint_Not_JSON = (500, '''')"

section \<open>The vault as a machine\<close>

datatype vault_op =
    V_Create disk_world "string option" content
  | V_Save disk_world string int content
  | V_Delete disk_world string
  | V_Import disk_world "string option" content

fun vault_step :: "codec \<Rightarrow> vault_op \<Rightarrow> vault \<Rightarrow> vault" where
  "vault_step c (V_Create w i ct) v = snd (create_project c w i ct v)"
| "vault_step c (V_Save w pid base ct) v = snd (save_project c w pid base ct v)"
| "vault_step c (V_Delete w pid) v = snd (delete_project w pid v)"
| "vault_step c (V_Import w i ct) v = snd (import_project c w i ct v)"

section \<open>What a step does to the project files\<close>

text \<open>What the JSON codec documents: what was written is read back.\<close>

definition reads_back :: "codec \<Rightarrow> bool" where
  "reads_back c \<longleftrightarrow> (\<forall>x b. cd_dumps c x = Some b \<longrightarrow> cd_loads c b = Some x)"

fun op_content :: "vault_op \<Rightarrow> content option" where
  "op_content (V_Create w i ct) = Some ct"
| "op_content (V_Save w pid base ct) = Some ct"
| "op_content (V_Import w i ct) = Some ct"
| "op_content (V_Delete w pid) = None"

lemma project_file_write [simp]:
  "project_file (do_write pid w v) =
    (case w of Write_Project b \<Rightarrow> (project_file v)(pid := Some b) | _ \<Rightarrow> project_file v)"
  by (cases w) (auto simp: do_write_def project_file_def project_dir_of_def getd_def map_of_dset fun_eq_iff
      split: option.splits)

lemma commit_writes_take:
  "project_file (do_writes pid (take n (commit_writes blob mb)) v) = project_file v \<or>
   project_file (do_writes pid (take n (commit_writes blob mb)) v) = (project_file v)(pid := Some mb)"
proof -
  consider "n = 0" | "n = 1" | "n = 2" | "3 \<le> n" by linarith
  then show ?thesis
    by cases (auto simp: do_writes_def commit_writes_def numeral_2_eq_2 split: option.split)
qed

lemma commit_writes_all:
  "length (commit_writes blob mb) \<le> n \<Longrightarrow>
   project_file (do_writes pid (take n (commit_writes blob mb)) v) = (project_file v)(pid := Some mb)"
  by (auto simp: do_writes_def commit_writes_def split: option.splits)

text \<open>A commit either leaves every project file alone, or writes exactly one: the new one.\<close>

definition writes_project ::
  "codec \<Rightarrow> content \<Rightarrow> string \<Rightarrow> meta \<Rightarrow> vault \<Rightarrow> vault \<Rightarrow> bool" where
  "writes_project c ct pid m v v' \<longleftrightarrow>
     (\<exists>blob mb. show_bytes c (fst (conforming_show (ct_show ct))) = Inr blob \<and>
        cd_dumps c (JObj (with_show c blob m)) = Some mb \<and> project_file v' = (project_file v)(pid := Some mb))"

lemma commit_effect:
  assumes "commit c n pid m (ct_show ct) v = (r, v')"
  shows "project_file v' = project_file v \<and> (\<exists>e. r = Inl e) \<or> writes_project c ct pid m v v'"
proof -
  obtain s ws where cs: "conforming_show (ct_show ct) = (s, ws)" by force
  consider e where "show_bytes c s = Inl e" | blob where "show_bytes c s = Inr blob"
    by (cases "show_bytes c s") auto
  then show ?thesis
  proof cases
    case 1
    then show ?thesis using assms cs by (auto simp: commit_def)
  next
    case 2
    show ?thesis
    proof (cases "cd_dumps c (JObj (with_show c blob m))")
      case None
      then show ?thesis using assms cs 2 by (auto simp: commit_def)
    next
      case (Some mb)
      then show ?thesis
        using assms cs 2 commit_writes_take[of pid n blob mb v] commit_writes_all[of blob mb n pid v]
        by (auto simp: commit_def writes_project_def Let_def split: if_splits)
    qed
  qed
qed

lemma create_effect:
  assumes "create_as c w given ct extra v = (r, v')"
  shows "project_file v' = project_file v \<and> (\<exists>e. r = Inl e) \<or>
    (\<exists>pid. valid_project_id pid \<and> project_file v pid = None \<and> writes_project c ct pid (new_meta w pid ct extra) v v')"
  using assms commit_effect[of c "dw_writes w" _ "new_meta w _ ct extra" ct v r v']
  by (fastforce simp: create_as_def Let_def project_exists_def split: if_splits)

lemma save_effect:
  assumes "save_project c w pid base ct v = (r, v')"
  shows "project_file v' = project_file v \<and> (\<exists>e. r = Inl e) \<or>
    (\<exists>m. read_meta c v pid = Inr m \<and> meta_revision m = base \<and> writes_project c ct pid (saved_meta w ct m) v v')"
  using assms commit_effect[of c "dw_writes w" pid "saved_meta w ct _" ct v r v']
  by (fastforce simp: save_project_def split: if_splits sum.splits)

lemma import_effect:
  assumes "import_project c w i ct v = (r, v')"
  shows "project_file v' = project_file v \<and> ((\<exists>e. r = Inl e) \<or> (\<exists>p. r = Inr (p, Skipped)) \<and> v' = v) \<or>
    (\<exists>pid fp. cd_fingerprint c (import_key ct) = Some fp \<and> valid_project_id pid \<and> project_file v pid = None \<and>
       writes_project c ct pid (new_meta w pid ct [(''imported_fingerprint'', JStr fp)]) v v')"
  using assms
proof (cases "cd_fingerprint c (import_key ct)")
  case (Some fp)
  show ?thesis
  proof (cases "imported_as c v fp")
    case None
    obtain given status where t: "import_target v i fp = (given, status)" by force
    obtain r2 v2 where cr: "create_as c w given ct [(''imported_fingerprint'', JStr fp)] v = (r2, v2)" by force
    then show ?thesis
      using assms Some None t create_effect[OF cr] by (auto simp: import_project_def split: sum.splits)
  qed (use assms Some in \<open>auto simp: import_project_def\<close>)
qed (auto simp: import_project_def)

text \<open>The description of a project a step writes: a new one where there was none, or the one that was
  there with its content replaced.\<close>

definition next_meta :: "codec \<Rightarrow> vault \<Rightarrow> content \<Rightarrow> string \<Rightarrow> meta \<Rightarrow> bool" where
  "next_meta c v ct pid m \<longleftrightarrow> valid_project_id pid \<and>
     ((\<exists>w extra. project_file v pid = None \<and> m = new_meta w pid ct extra \<and>
         (extra = [] \<or> (\<exists>fp. extra = [(''imported_fingerprint'', JStr fp)]))) \<or>
      (\<exists>w m0. read_meta c v pid = Inr m0 \<and> m = saved_meta w ct m0))"

lemma read_meta_valid: "read_meta c v pid = Inr m \<Longrightarrow> valid_project_id pid"
  by (simp add: read_meta_def split: if_splits)

lemma created_next:
  "valid_project_id pid \<Longrightarrow> project_file v pid = None \<Longrightarrow> next_meta c v ct pid (new_meta w pid ct [])"
  "valid_project_id pid \<Longrightarrow> project_file v pid = None \<Longrightarrow>
    next_meta c v ct pid (new_meta w pid ct [(''imported_fingerprint'', JStr fp)])"
  unfolding next_meta_def by blast+

lemma saved_next: "read_meta c v pid = Inr m \<Longrightarrow> next_meta c v ct pid (saved_meta w ct m)"
  unfolding next_meta_def using read_meta_valid by blast

lemma step_effect:
  "project_file (vault_step c x v) = project_file v \<or>
   (\<exists>ct pid m. op_content x = Some ct \<and> next_meta c v ct pid m \<and> writes_project c ct pid m v (vault_step c x v)) \<or>
   (\<exists>w pid. x = V_Delete w pid \<and> project_file (vault_step c x v) = (project_file v)(pid := None))"
proof (cases x)
  case (V_Create w i ct)
  obtain r v' where "create_as c w i ct [] v = (r, v')" by force
  then show ?thesis using create_effect created_next(1) V_Create
    by (simp add: create_project_def) metis
next
  case (V_Save w pid base ct)
  obtain r v' where "save_project c w pid base ct v = (r, v')" by force
  then show ?thesis using save_effect saved_next V_Save by simp metis
next
  case (V_Delete w pid)
  then show ?thesis
    by (auto simp: delete_project_def project_file_def map_of_dpop fun_eq_iff)
next
  case (V_Import w i ct)
  obtain r v' where "import_project c w i ct v = (r, v')" by force
  then show ?thesis using import_effect created_next(2) V_Import by simp metis
qed

section \<open>What the vault holds\<close>

definition header_ok :: "meta \<Rightarrow> bool" where
  "header_ok m \<longleftrightarrow> map_of m ''format'' = Some (JStr PROJECT_FORMAT) \<and>
     map_of m ''format_version'' = Some (JInt PROJECT_FORMAT_VERSION) \<and> (\<exists>r. map_of m ''revision'' = Some (JInt r))"

definition shows_content :: "content \<Rightarrow> meta \<Rightarrow> bool" where
  "shows_content ct m \<longleftrightarrow> map_of m ''name'' = Some (JStr (ct_name ct)) \<and>
     map_of m ''document'' = Some (ct_document ct) \<and> map_of m ''versions'' = Some (JList (ct_versions ct))"

definition content_show :: "codec \<Rightarrow> content \<Rightarrow> store_error + bytes option" where
  "content_show c ct = show_bytes c (fst (conforming_show (ct_show ct)))"

definition carries :: "codec \<Rightarrow> content \<Rightarrow> meta \<Rightarrow> bool" where
  "carries c ct m \<longleftrightarrow> shows_content ct m \<and>
     (\<exists>blob. content_show c ct = Inr blob \<and>
        map_of m ''show_sha256'' = Some (case blob of None \<Rightarrow> JNull | Some b \<Rightarrow> JStr (cd_sha c b)))"

definition vault_inv :: "codec \<Rightarrow> content set \<Rightarrow> vault \<Rightarrow> bool" where
  "vault_inv c cs v \<longleftrightarrow> (\<forall>pid raw. project_file v pid = Some raw \<longrightarrow>
     valid_project_id pid \<and>
     (\<exists>m. cd_loads c raw = Some (JObj m) \<and> header_ok m \<and> (\<exists>ct \<in> cs. carries c ct m)))"

lemma empty_vault_inv [simp]: "vault_inv c cs empty_vault"
  by (simp add: vault_inv_def empty_vault_def project_file_def)

lemma read_meta_stored:
  assumes "vault_inv c cs v" and "project_file v pid = Some raw"
  shows "\<exists>m. cd_loads c raw = Some (JObj m) \<and> header_ok m \<and> (\<exists>ct \<in> cs. carries c ct m) \<and>
    read_meta c v pid = Inr (dset ''id'' (JStr pid) m)"
  using assms unfolding vault_inv_def
  by (force simp: read_meta_def header_ok_def PROJECT_FORMAT_VERSION_def)

lemma read_meta_raw: "read_meta c v pid = Inr m \<Longrightarrow> \<exists>raw. project_file v pid = Some raw"
  by (auto simp: read_meta_def split: if_splits option.splits)

lemma next_meta_ok:
  assumes "vault_inv c cs v" and "next_meta c v ct pid m"
  shows "header_ok (with_show c blob m)"
    and "content_show c ct = Inr blob \<Longrightarrow> carries c ct (with_show c blob m)"
proof -
  consider (new) w extra where "m = new_meta w pid ct extra"
      "extra = [] \<or> (\<exists>fp. extra = [(''imported_fingerprint'', JStr fp)])"
    | (saved) w m0 where "read_meta c v pid = Inr m0" "m = saved_meta w ct m0"
    using assms(2) unfolding next_meta_def by blast
  then have "header_ok m \<and> shows_content ct m"
  proof cases
    case new
    then show ?thesis
      by (auto simp: new_meta_def dict_merge_def map_of_dset header_ok_def shows_content_def)
  next
    case saved
    then obtain raw where "project_file v pid = Some raw" using read_meta_raw by blast
    from read_meta_stored[OF assms(1) this] saved show ?thesis
      by (auto simp: saved_meta_def dict_merge_def map_of_dset header_ok_def shows_content_def)
  qed
  then show "header_ok (with_show c blob m)" "content_show c ct = Inr blob \<Longrightarrow> carries c ct (with_show c blob m)"
    by (auto simp: with_show_def header_ok_def carries_def shows_content_def map_of_dset)
qed

lemma writes_keep_inv:
  assumes "reads_back c" and "vault_inv c cs v" and "ct \<in> cs" and "next_meta c v ct pid m"
    and "writes_project c ct pid m v v'"
  shows "vault_inv c cs v'"
proof -
  obtain blob mb where w: "content_show c ct = Inr blob" "cd_dumps c (JObj (with_show c blob m)) = Some mb"
    "project_file v' = (project_file v)(pid := Some mb)"
    using assms(5) by (auto simp: writes_project_def content_show_def)
  have "cd_loads c mb = Some (JObj (with_show c blob m))" using assms(1) w(2) by (simp add: reads_back_def)
  moreover have "valid_project_id pid" using assms(4) by (simp add: next_meta_def)
  moreover note next_meta_ok(1)[OF assms(2,4), of blob] next_meta_ok(2)[OF assms(2,4) w(1)]
  ultimately show ?thesis using assms(2,3) unfolding vault_inv_def w(3) by auto
qed

lemma vault_step_inv:
  assumes "reads_back c" and "vault_inv c cs v" and "set_option (op_content x) \<subseteq> cs"
  shows "vault_inv c cs (vault_step c x v)"
  using step_effect[of c x v]
proof (elim disjE exE conjE)
  assume "project_file (vault_step c x v) = project_file v"
  then show ?thesis using assms(2) by (simp add: vault_inv_def)
next
  fix ct pid m
  assume "op_content x = Some ct" "next_meta c v ct pid m" "writes_project c ct pid m v (vault_step c x v)"
  then show ?thesis using writes_keep_inv assms by auto
next
  fix w pid
  assume "project_file (vault_step c x v) = (project_file v)(pid := None)"
  then show ?thesis using assms(2) by (auto simp: vault_inv_def)
qed

section \<open>Which show files there are\<close>

definition op_shows :: "codec \<Rightarrow> vault_op \<Rightarrow> bytes set" where
  "op_shows c x = {b. \<exists>ct. op_content x = Some ct \<and> content_show c ct = Inr (Some b)}"

definition show_files :: "vault \<Rightarrow> bytes set" where
  "show_files v = ran (show_file v)"

lemma show_file_write:
  "show_file (do_write pid w v) =
    (case w of Write_Show b \<Rightarrow> (show_file v)(pid := Some b) | Remove_Show \<Rightarrow> (show_file v)(pid := None)
     | _ \<Rightarrow> show_file v)"
  by (cases w) (auto simp: do_write_def show_file_def project_dir_of_def getd_def map_of_dset fun_eq_iff
      split: option.splits)

lemma ran_upd_Some: "ran (f(k := Some x)) \<subseteq> insert x (ran f)" and ran_upd_None: "ran (f(k := None)) \<subseteq> ran f"
  by (auto simp: ran_def)

lemma show_files_write: "show_files (do_write pid w v) \<subseteq> show_files v \<union> {b. w = Write_Show b}"
  using ran_upd_Some[of "show_file v" pid] ran_upd_None[of "show_file v" pid]
  by (cases w) (auto simp: show_files_def show_file_write)

lemma show_files_writes: "show_files (do_writes pid ws v) \<subseteq> show_files v \<union> {b. Write_Show b \<in> set ws}"
proof (induction ws arbitrary: v)
  case (Cons w ws)
  show ?case using Cons[of "do_write pid w v"] show_files_write[of pid w v] by (auto simp: do_writes_def)
qed (simp add: do_writes_def)

lemma show_files_commit_writes:
  "show_files (do_writes pid (take n (commit_writes blob mb)) v) \<subseteq> show_files v \<union> set_option blob"
proof -
  have "{b. Write_Show b \<in> set (take n (commit_writes blob mb))} \<subseteq> {b. Write_Show b \<in> set (commit_writes blob mb)}"
    using set_take_subset[of n "commit_writes blob mb"] by blast
  also have "\<dots> = set_option blob" by (auto simp: commit_writes_def split: option.splits)
  finally show ?thesis using show_files_writes[of pid "take n (commit_writes blob mb)" v] by blast
qed

lemma commit_shows:
  assumes "commit c n pid m (ct_show ct) v = (r, v')"
  shows "show_files v' \<subseteq> show_files v \<union> {b. content_show c ct = Inr (Some b)}"
proof -
  have "v' = v \<or> (\<exists>blob mb. content_show c ct = Inr blob \<and> v' = do_writes pid (take n (commit_writes blob mb)) v)"
    using assms by (auto simp: commit_def content_show_def Let_def
        split: sum.splits option.splits if_splits prod.splits) (metis take_all linorder_not_less)
  then show ?thesis using show_files_commit_writes[of pid n _ _ v] by fastforce
qed

lemma create_shows:
  assumes "create_as c w given ct extra v = (r, v')"
  shows "show_files v' \<subseteq> show_files v \<union> {b. content_show c ct = Inr (Some b)}"
  using assms commit_shows[of c "dw_writes w" _ "new_meta w _ ct extra" ct v r v']
  by (auto simp: create_as_def Let_def split: if_splits)

lemma show_files_step: "show_files (vault_step c x v) \<subseteq> show_files v \<union> op_shows c x"
proof (cases x)
  case (V_Create w i ct)
  obtain r v' where "create_as c w i ct [] v = (r, v')" by force
  then show ?thesis using create_shows[of c w i ct "[]" v r v'] V_Create by (auto simp: create_project_def op_shows_def)
next
  case (V_Save w pid base ct)
  then show ?thesis
    using commit_shows[of c "dw_writes w" pid "saved_meta w ct _" ct v]
    by (fastforce simp: save_project_def op_shows_def split: sum.splits if_splits intro: prod_eqI)
next
  case (V_Delete w pid)
  then show ?thesis
    using ran_upd_None[of "show_file v" pid]
    by (auto simp: delete_project_def show_files_def show_file_def map_of_dpop ran_def split: if_splits)
next
  case (V_Import w i ct)
  show ?thesis
  proof (cases "cd_fingerprint c (import_key ct)")
    case (Some fp)
    obtain given status where t: "import_target v i fp = (given, status)" by force
    obtain r v' where cr: "create_as c w given ct [(''imported_fingerprint'', JStr fp)] v = (r, v')" by force
    show ?thesis using V_Import Some t cr create_shows[OF cr]
      by (auto simp: import_project_def op_shows_def split: sum.splits option.splits)
  qed (simp add: V_Import import_project_def)
qed

section \<open>Revisions and imports\<close>

definition revision_at :: "codec \<Rightarrow> string \<Rightarrow> vault \<Rightarrow> int option" where
  "revision_at c pid v = (case read_meta c v pid of Inl e \<Rightarrow> None | Inr m \<Rightarrow> Some (meta_revision m))"

definition revision_kept :: "codec \<Rightarrow> string \<Rightarrow> vault \<Rightarrow> vault \<Rightarrow> bool" where
  "revision_kept c pid v v' \<longleftrightarrow> (\<forall>r. revision_at c pid v = Some r \<longrightarrow> (\<exists>r' \<ge> r. revision_at c pid v' = Some r'))"

definition knows_import :: "codec \<Rightarrow> string \<Rightarrow> vault \<Rightarrow> bool" where
  "knows_import c fp v \<longleftrightarrow>
     (\<exists>pid m. read_meta c v pid = Inr m \<and> map_of m ''imported_fingerprint'' = Some (JStr fp))"

lemma read_meta_cong: "project_file v' pid = project_file v pid \<Longrightarrow> read_meta c v' pid = read_meta c v pid"
  by (simp add: read_meta_def)

text \<open>What is read after a write: exactly what was written.\<close>

lemma read_written:
  assumes "reads_back c" and "vault_inv c cs v" and "next_meta c v ct pid m" and "writes_project c ct pid m v v'"
  shows "\<exists>blob. content_show c ct = Inr blob \<and>
    read_meta c v' pid = Inr (dset ''id'' (JStr pid) (with_show c blob m))"
proof -
  obtain blob mb where w: "content_show c ct = Inr blob" "cd_dumps c (JObj (with_show c blob m)) = Some mb"
    "project_file v' = (project_file v)(pid := Some mb)"
    using assms(4) by (auto simp: writes_project_def content_show_def)
  have "cd_loads c mb = Some (JObj (with_show c blob m))" using assms(1) w(2) by (simp add: reads_back_def)
  moreover have "project_file v' pid = Some mb" by (simp add: w(3))
  moreover have "valid_project_id pid" using assms(3) by (simp add: next_meta_def)
  moreover note next_meta_ok(1)[OF assms(2,3), of blob]
  ultimately show ?thesis
    using w(1) by (auto simp: read_meta_def header_ok_def PROJECT_FORMAT_VERSION_def)
qed

lemma meta_revision_stored [simp]:
  "meta_revision (dset ''id'' i m) = meta_revision m" "meta_revision (with_show c blob m) = meta_revision m"
  by (simp_all add: meta_revision_def with_show_def map_of_dset)

lemma meta_revision_saved [simp]: "meta_revision (saved_meta w ct m) = meta_revision m + 1"
  by (simp add: meta_revision_def saved_meta_def dict_merge_def map_of_dset)

lemma writes_revision:
  assumes "reads_back c" and "vault_inv c cs v" and "next_meta c v ct pid m" and "writes_project c ct pid m v v'"
  shows "revision_at c pid v' = Some (meta_revision m)"
  using read_written[OF assms] by (auto simp: revision_at_def)

lemma step_keeps_revision:
  assumes "reads_back c" and "vault_inv c cs v" and "\<forall>w. x \<noteq> V_Delete w pid"
  shows "revision_kept c pid v (vault_step c x v)"
  using step_effect[of c x v]
proof (elim disjE exE conjE)
  assume "project_file (vault_step c x v) = project_file v"
  then show ?thesis by (simp add: revision_kept_def revision_at_def read_meta_cong[of "vault_step c x v" _ v])
next
  fix ct q m
  assume nm: "next_meta c v ct q m" and w: "writes_project c ct q m v (vault_step c x v)"
  show ?thesis
  proof (cases "q = pid")
    case True
    have after: "revision_at c pid (vault_step c x v) = Some (meta_revision m)"
      using writes_revision[OF assms(1,2) nm w] True by simp
    have "r \<le> meta_revision m" if "revision_at c pid v = Some r" for r
      using that nm True by (auto simp: next_meta_def revision_at_def dest: read_meta_raw split: sum.splits)
    then show ?thesis by (simp add: revision_kept_def after)
  next
    case False
    then have "project_file (vault_step c x v) pid = project_file v pid"
      using w by (auto simp: writes_project_def)
    then show ?thesis by (simp add: revision_kept_def revision_at_def read_meta_cong[of "vault_step c x v" _ v])
  qed
next
  fix w q
  assume "x = V_Delete w q" and "project_file (vault_step c x v) = (project_file v)(q := None)"
  then have "project_file (vault_step c x v) pid = project_file v pid" using assms(3) by auto
  then show ?thesis by (simp add: revision_kept_def revision_at_def read_meta_cong[of "vault_step c x v" _ v])
qed

lemma step_keeps_import:
  assumes "reads_back c" and "vault_inv c cs v" and "\<forall>w q. x \<noteq> V_Delete w q" and "knows_import c fp v"
  shows "knows_import c fp (vault_step c x v)"
  using step_effect[of c x v]
proof (elim disjE exE conjE)
  assume "project_file (vault_step c x v) = project_file v"
  then show ?thesis using assms(4) by (simp add: knows_import_def read_meta_cong[of "vault_step c x v" _ v])
next
  fix ct q m
  assume nm: "next_meta c v ct q m" and w: "writes_project c ct q m v (vault_step c x v)"
  obtain pid m0 where k: "read_meta c v pid = Inr m0" "map_of m0 ''imported_fingerprint'' = Some (JStr fp)"
    using assms(4) by (auto simp: knows_import_def)
  show ?thesis
  proof (cases "q = pid")
    case True
    then obtain w' where "m = saved_meta w' ct m0"
      using nm k(1) by (auto simp: next_meta_def dest: read_meta_raw)
    then have "map_of m ''imported_fingerprint'' = Some (JStr fp)"
      using k(2) by (simp add: saved_meta_def dict_merge_def map_of_dset)
    then show ?thesis
      using read_written[OF assms(1,2) nm w]
      by (auto simp: knows_import_def with_show_def map_of_dset intro!: exI[of _ q])
  next
    case False
    then have "project_file (vault_step c x v) pid = project_file v pid"
      using w by (auto simp: writes_project_def)
    then have "read_meta c (vault_step c x v) pid = read_meta c v pid" by (rule read_meta_cong)
    then show ?thesis using k by (auto simp: knows_import_def)
  qed
qed (use assms(3) in auto)

interpretation vault_contents: guarded_machine "vault_step c"
  "\<lambda>v. reads_back c \<and> vault_inv c cs v \<and> show_files v \<subseteq> bs"
  "\<lambda>x. set_option (op_content x) \<subseteq> cs \<and> op_shows c x \<subseteq> bs" "\<lambda>v v'. True"
  by unfold_locales (use vault_step_inv show_files_step in blast)+

interpretation vault_revisions: guarded_machine "vault_step c" "\<lambda>v. reads_back c \<and> vault_inv c UNIV v"
  "\<lambda>x. \<forall>w. x \<noteq> V_Delete w pid" "revision_kept c pid"
proof
  show "revision_kept c pid s t \<Longrightarrow> revision_kept c pid t u \<Longrightarrow> revision_kept c pid s u" for s t u
    unfolding revision_kept_def by (meson order_trans)
  show "revision_kept c pid s s" for s by (simp add: revision_kept_def)
qed (auto intro: vault_step_inv step_keeps_revision)

interpretation vault_imports: guarded_machine "vault_step c" "\<lambda>v. reads_back c \<and> vault_inv c UNIV v"
  "\<lambda>x. \<forall>w q. x \<noteq> V_Delete w q" "\<lambda>v v'. knows_import c fp v \<longrightarrow> knows_import c fp v'"
  by unfold_locales (auto simp: vault_step_inv step_keeps_import)

section \<open>Properties\<close>

definition after_ops :: "codec \<Rightarrow> vault_op list \<Rightarrow> vault" where
  "after_ops c xs = run_ops (vault_step c) xs empty_vault"

lemma after_ops_contents:
  assumes "reads_back c" and "\<And>x. x \<in> set xs \<Longrightarrow> set_option (op_content x) \<subseteq> cs \<and> op_shows c x \<subseteq> bs"
  shows "vault_inv c cs (after_ops c xs)" and "show_files (after_ops c xs) \<subseteq> bs"
proof -
  have "show_files empty_vault = {}" by (simp add: show_files_def show_file_def empty_vault_def ran_def)
  then show "vault_inv c cs (after_ops c xs)" "show_files (after_ops c xs) \<subseteq> bs"
    using vault_contents.run_keeps[of c cs empty_vault bs xs] assms by (auto simp: after_ops_def list_all_iff)
qed

lemma after_ops_inv: "reads_back c \<Longrightarrow> vault_inv c UNIV (after_ops c xs)"
  using after_ops_contents(1)[of c xs UNIV UNIV] by simp

lemma map_of_other_keys: "map_of (filter (\<lambda>(k, x). k \<notin> S) m) k = (if k \<in> S then None else map_of m k)"
  by (induction m) auto

lemma read_show_Some:
  "read_show c v pid m = Some s \<Longrightarrow>
     \<exists>f. show_file v pid = Some f \<and> JStr (cd_sha c f) = expected_show m \<and> cd_loads c f = Some s"
  by (auto simp: read_show_def split: if_splits option.splits)

text \<open>C13. A project is never shown with another save's show. Whatever was created, saved, deleted and
  imported, and wherever the disk failed or the process died between two writes: a project the vault
  returns has the name, the document and the save history of one single call, and if it comes with a
  built show, it is the one that call stored. (SHA-256 is assumed not to collide on the shows stored.)\<close>

theorem project_keeps_its_show:
  assumes "reads_back c" and "inj_on (cd_sha c) (\<Union>x \<in> set xs. op_shows c x)"
    and "get_project c (after_ops c xs) pid = Inr (p, sh)"
  shows "\<exists>x \<in> set xs. \<exists>ct. op_content x = Some ct \<and> shows_content ct p \<and>
    (sh \<noteq> None \<longrightarrow> sh = fst (conforming_show (ct_show ct)))"
proof -
  let ?v = "after_ops c xs"
  define cs where "cs = {ct. \<exists>x \<in> set xs. op_content x = Some ct}"
  have ops: "set_option (op_content x) \<subseteq> cs \<and> op_shows c x \<subseteq> (\<Union>x \<in> set xs. op_shows c x)" if "x \<in> set xs" for x
    using that by (auto simp: cs_def)
  note inv = after_ops_contents[OF assms(1) ops]
  obtain m1 where m1: "read_meta c ?v pid = Inr m1"
    using assms(3) by (cases "read_meta c ?v pid") (simp_all add: get_project_def)
  have p: "p = dset ''has_show'' (JBool (read_show c ?v pid m1 \<noteq> None)) (public_meta ?v pid m1)"
    and sh: "sh = read_show c ?v pid m1"
    using assms(3) unfolding get_project_def m1 by (auto simp: Let_def)
  obtain raw where "project_file ?v pid = Some raw" using read_meta_raw[OF m1] by blast
  from read_meta_stored[OF inv(1) this] obtain m ct where
    m: "ct \<in> cs" "carries c ct m" "m1 = dset ''id'' (JStr pid) m" using m1 by auto
  obtain x where x: "x \<in> set xs" "op_content x = Some ct" using m(1) by (auto simp: cs_def)
  have field: "map_of p k = map_of m k" if "k \<noteq> ''has_show''" "k \<noteq> ''id''" "k \<notin> set INTERNAL_FIELDS" for k
    using that by (simp add: p m(3) public_meta_def map_of_dset map_of_other_keys)
  have "shows_content ct m" using m(2) by (simp add: carries_def)
  then have "shows_content ct p" by (simp add: shows_content_def field INTERNAL_FIELDS_def)
  moreover have "sh = fst (conforming_show (ct_show ct))" if shown: "sh \<noteq> None"
  proof -
    obtain blob where blob: "content_show c ct = Inr blob"
      "expected_show m1 = (case blob of None \<Rightarrow> JNull | Some b \<Rightarrow> JStr (cd_sha c b))"
      using m(2) by (auto simp: m(3) carries_def expected_show_def map_of_dset getd_def)
    obtain f where f: "show_file ?v pid = Some f" "JStr (cd_sha c f) = expected_show m1" "sh = cd_loads c f"
      using shown read_show_Some[of c ?v pid m1] by (auto simp: sh)
    then obtain b where b: "blob = Some b" "cd_sha c f = cd_sha c b" using blob(2) by (cases blob) auto
    have "f \<in> (\<Union>x \<in> set xs. op_shows c x)" using inv(2) f(1) by (auto simp: show_files_def ran_def)
    moreover have "b \<in> (\<Union>x \<in> set xs. op_shows c x)" using x blob(1) b(1) by (auto simp: op_shows_def)
    ultimately have "f = b" using assms(2) b(2) by (auto dest: inj_onD)
    then show ?thesis
      using blob(1) b(1) f(3) assms(1) by (auto simp: content_show_def show_bytes_def reads_back_def split: option.splits)
  qed
  ultimately show ?thesis using x by blast
qed

text \<open>C26. No save is lost to a stale browser: once a save based on a revision has gone through, any later
  save of the same project that is based on that revision gets a conflict naming a later revision, and
  changes nothing, whatever happened in between short of deleting the project.\<close>

theorem stale_save_refused:
  assumes "reads_back c" and "save_project c w pid base ct (after_ops c xs) = (Inr r, v)"
    and "\<forall>y \<in> set ys. \<forall>w. y \<noteq> V_Delete w pid"
  shows "\<exists>rev > base. save_project c w' pid base ct' (run_ops (vault_step c) ys v)
    = (Inl (Revision_Conflict rev base), run_ops (vault_step c) ys v)"
proof -
  note inv = after_ops_inv[OF assms(1), of xs]
  obtain m where m: "read_meta c (after_ops c xs) pid = Inr m" "meta_revision m = base"
    "writes_project c ct pid (saved_meta w ct m) (after_ops c xs) v"
    using save_effect[OF assms(2)] by auto
  have rev: "revision_at c pid v = Some (base + 1)"
    using writes_revision[OF assms(1) inv saved_next[OF m(1)] m(3)] m(2) by simp
  have "vault_inv c UNIV v" using writes_keep_inv[OF assms(1) inv _ saved_next[OF m(1)] m(3)] by simp
  then have "revision_kept c pid v (run_ops (vault_step c) ys v)"
    using vault_revisions.run_keeps[of c v pid ys] assms(1,3) by (simp add: list_all_iff)
  then obtain rev' where "rev' \<ge> base + 1" "revision_at c pid (run_ops (vault_step c) ys v) = Some rev'"
    using rev by (auto simp: revision_kept_def)
  then show ?thesis
    by (auto simp: save_project_def revision_at_def split: sum.splits intro!: exI[of _ rev'])
qed

lemma iter_meta_reads: "(pid, m) \<in> set (iter_meta c v) \<Longrightarrow> read_meta c v pid = Inr m"
  by (auto simp: iter_meta_def dest!: map_filter_cases split: sum.splits)

lemma imported_known:
  assumes "reads_back c" and "vault_inv c UNIV v" and "import_project c w i ct v = (Inr r, v')"
    and "cd_fingerprint c (import_key ct) = Some fp"
  shows "knows_import c fp v' \<and> vault_inv c UNIV v'"
proof (cases "imported_as c v fp")
  case None
  from import_effect[OF assms(3)] show ?thesis
  proof
    assume "project_file v' = project_file v \<and>
      ((\<exists>e. Inr r = Inl e) \<or> (\<exists>p. Inr r = Inr (p, Skipped)) \<and> v' = v)"
    then have "snd r = Skipped" by auto
    then show ?thesis using assms(3,4) None
      by (auto simp: import_project_def import_target_def Let_def split: prod.splits sum.splits option.splits if_splits)
  next
    assume "\<exists>pid fp. cd_fingerprint c (import_key ct) = Some fp \<and> valid_project_id pid \<and>
      project_file v pid = None \<and> writes_project c ct pid (new_meta w pid ct [(''imported_fingerprint'', JStr fp)]) v v'"
    then obtain pid where w: "valid_project_id pid" "project_file v pid = None"
      "writes_project c ct pid (new_meta w pid ct [(''imported_fingerprint'', JStr fp)]) v v'"
      using assms(4) by auto
    note nm = created_next(2)[OF w(1,2), of c ct w fp]
    have "knows_import c fp v'"
      using read_written[OF assms(1,2) nm w(3)]
      by (auto simp: knows_import_def with_show_def new_meta_def dict_merge_def map_of_dset intro!: exI[of _ pid])
    then show ?thesis using writes_keep_inv[OF assms(1,2) _ nm w(3)] by simp
  qed
next
  case (Some q)
  obtain pid m where "q = (pid, m)" by force
  then have "read_meta c v pid = Inr m" "map_of m ''imported_fingerprint'' = Some (JStr fp)"
    using Some by (auto simp: imported_as_def find_Some_iff intro!: iter_meta_reads) (metis nth_mem)
  moreover have "v' = v" using assms(3,4) Some by (auto simp: import_project_def split: prod.splits)
  ultimately show ?thesis using assms(2) by (auto simp: knows_import_def)
qed

lemma known_is_found:
  assumes "knows_import c fp v"
  shows "imported_as c v fp \<noteq> None"
proof -
  obtain pid m where k: "read_meta c v pid = Inr m" "map_of m ''imported_fingerprint'' = Some (JStr fp)"
    using assms by (auto simp: knows_import_def)
  obtain raw where "project_file v pid = Some raw" using read_meta_raw[OF k(1)] by blast
  then have "pid \<in> set (sort (map fst (vt_dirs v)))"
    by (auto simp: project_file_def bind_eq_Some_conv dest!: map_of_SomeD intro: rev_image_eqI)
  then have "(pid, m) \<in> set (iter_meta c v)"
    unfolding iter_meta_def using k(1) by (intro map_filter_mem) auto
  then show ?thesis using k(2) by (auto simp: imported_as_def find_None_iff)
qed

text \<open>Importing twice stores once: after an import has gone through, importing the same name,
  document and history again, under whatever id, is skipped and leaves the vault as it is, whatever was
  created, saved or imported in between (as long as nothing was deleted).\<close>

theorem import_again_skipped:
  assumes "reads_back c" and "import_project c w i ct (after_ops c xs) = (Inr r, v)"
    and "\<forall>y \<in> set ys. \<forall>w q. y \<noteq> V_Delete w q" and "import_key ct' = import_key ct"
  shows "\<exists>p. import_project c w' i' ct' (run_ops (vault_step c) ys v)
    = (Inr ((p, []), Skipped), run_ops (vault_step c) ys v)"
proof -
  obtain fp where fp: "cd_fingerprint c (import_key ct) = Some fp"
    using assms(2) by (auto simp: import_project_def split: option.splits)
  note after = imported_known[OF assms(1) after_ops_inv[OF assms(1)] assms(2) fp]
  then have "knows_import c fp (run_ops (vault_step c) ys v)"
    using vault_imports.run_keeps[of c v ys fp] assms(1,3) by (simp add: list_all_iff)
  from known_is_found[OF this] show ?thesis using fp assms(4) by (auto simp: import_project_def)
qed

section \<open>Concrete runs\<close>

text \<open>A codec given by a table, and a small vault.\<close>

definition table_codec :: "(json \<times> bytes) list \<Rightarrow> codec" where
  "table_codec tbl = \<lparr>cd_dumps = map_of tbl,
     cd_loads = (\<lambda>b. map_option fst (find (\<lambda>(x, b'). b' = b) tbl)),
     cd_sha = map (\<lambda>w. char_of (unat w)), cd_fingerprint = (\<lambda>x. Some ''0123456789'')\<rparr>"

lemma table_reads_back: "distinct (map snd tbl) \<Longrightarrow> reads_back (table_codec tbl)"
proof (induction tbl)
  case (Cons e tbl)
  show ?case
    using Cons by (cases e) (auto simp: reads_back_def table_codec_def, metis image_eqI map_of_SomeD snd_conv)
qed (simp add: reads_back_def table_codec_def)

lemma table_sha_inj: "inj (cd_sha (table_codec tbl))"
proof -
  have "inj (\<lambda>w :: 8 word. char_of (unat w) :: char)"
  proof (rule injI)
    fix a b :: "8 word" assume "(char_of (unat a) :: char) = char_of (unat b)"
    then have "(of_char (char_of (unat a)) :: nat) = of_char (char_of (unat b))" by simp
    then have "unat a mod 256 = unat b mod 256" by simp
    moreover have "unat a < 256" "unat b < 256" using unsigned_less[of a] unsigned_less[of b] by simp_all
    ultimately show "a = b" by (simp add: word_unat_eq_iff)
  qed
  then show ?thesis by (simp add: table_codec_def)
qed

definition demo_world :: disk_world where
  "demo_world = \<lparr>dw_stamp = ''t'', dw_uuid = ''u'', dw_when = ''w'', dw_writes = 3\<rparr>"
definition demo_show :: json where
  "demo_show = JObj [(''version'', JInt 1), (''drones'', JList [])]"
definition demo_content :: content where
  "demo_content = \<lparr>ct_name = ''n'', ct_document = JObj [], ct_show = Some [(''drones'', JList [])],
     ct_validation = JNull, ct_versions = []\<rparr>"
definition demo_edit :: content where
  "demo_edit = demo_content\<lparr>ct_name := ''m'', ct_show := None\<rparr>"
definition demo_meta :: "meta \<Rightarrow> string \<Rightarrow> meta" where
  "demo_meta extra pid = dset ''show_sha256'' (JStr [CHR 0x00]) (new_meta demo_world pid demo_content extra)"
definition demo_edited :: meta where
  "demo_edited = dset ''show_sha256'' JNull (saved_meta demo_world demo_edit (demo_meta [] ''p''))"
definition demo_codec :: codec where
  "demo_codec = table_codec [(demo_show, [0]), (JObj (demo_meta [] ''p''), [1]), (JObj demo_edited, [2]),
     (JObj (demo_meta [(''imported_fingerprint'', JStr ''0123456789'')] ''q''), [3])]"
definition demo_ops :: "vault_op list" where
  "demo_ops = [V_Create demo_world (Some ''p'') demo_content]"

lemma demo_reads_back: "reads_back demo_codec"
  unfolding demo_codec_def by (rule table_reads_back) simp

lemma demo_created: "\<exists>p. get_project demo_codec (after_ops demo_codec demo_ops) ''p'' = Inr (p, Some demo_show)"
proof -
  have "(case get_project demo_codec (after_ops demo_codec demo_ops) ''p'' of
    Inr (p, sh) \<Rightarrow> sh = Some demo_show | Inl e \<Rightarrow> False)" by code_simp
  then show ?thesis by (auto split: sum.splits prod.splits)
qed

theorem project_keeps_its_show_witness:
  "\<exists>p. get_project demo_codec (after_ops demo_codec demo_ops) ''p'' = Inr (p, Some demo_show) \<and>
    (\<exists>x \<in> set demo_ops. \<exists>ct. op_content x = Some ct \<and> shows_content ct p \<and>
      (Some demo_show \<noteq> None \<longrightarrow> Some demo_show = fst (conforming_show (ct_show ct))))"
proof -
  have "inj_on (cd_sha demo_codec) A" for A
    using table_sha_inj unfolding demo_codec_def by (rule inj_on_subset) simp
  from project_keeps_its_show[OF demo_reads_back this] demo_created show ?thesis by blast
qed

theorem stale_save_refused_witness:
  "\<exists>r v. save_project demo_codec demo_world ''p'' 1 demo_edit (after_ops demo_codec demo_ops) = (Inr r, v) \<and>
    (\<exists>rev > 1. save_project demo_codec demo_world ''p'' 1 demo_content v = (Inl (Revision_Conflict rev 1), v))"
proof -
  have "(case save_project demo_codec demo_world ''p'' 1 demo_edit (after_ops demo_codec demo_ops) of
    (Inr r, v) \<Rightarrow> True | (Inl e, v) \<Rightarrow> False)" by code_simp
  then obtain r v where
    s: "save_project demo_codec demo_world ''p'' 1 demo_edit (after_ops demo_codec demo_ops) = (Inr r, v)"
    by (auto split: prod.splits sum.splits)
  show ?thesis using stale_save_refused[OF demo_reads_back s, of "[]"] s by simp
qed

theorem import_again_skipped_witness:
  "\<exists>r v. import_project demo_codec demo_world (Some ''q'') demo_content (after_ops demo_codec demo_ops) = (Inr r, v) \<and>
    (\<exists>p. import_project demo_codec demo_world None demo_content v = (Inr ((p, []), Skipped), v))"
proof -
  have "(case import_project demo_codec demo_world (Some ''q'') demo_content (after_ops demo_codec demo_ops) of
    (Inr r, v) \<Rightarrow> True | (Inl e, v) \<Rightarrow> False)" by code_simp
  then obtain r v where
    s: "import_project demo_codec demo_world (Some ''q'') demo_content (after_ops demo_codec demo_ops) = (Inr r, v)"
    by (auto split: prod.splits sum.splits)
  show ?thesis using import_again_skipped[OF demo_reads_back s, of "[]"] s by simp
qed

text \<open>What the revision does not protect: a project that is created again under the identifier of a
  deleted one is at revision 1 again, so a browser that still holds the first revision of the deleted
  project saves over it without a conflict.\<close>

lemma recreated_project_takes_stale_save:
  assumes "reads_back c" and "create_project c w (Some pid) ct (after_ops c xs) = (Inr r, v)"
  shows "fst (save_project c w' pid 1 ct' v) \<noteq> Inl (Revision_Conflict k 1)"
proof -
  obtain m where m: "valid_project_id pid" "project_file (after_ops c xs) pid = None"
    "writes_project c ct pid (new_meta w pid ct []) (after_ops c xs) v"
    using assms(2) commit_effect[of c "dw_writes w" pid "new_meta w pid ct []" ct "after_ops c xs" "Inr r" v]
    by (auto simp: create_project_def create_as_def project_exists_def split: if_splits)
  have "revision_at c pid v = Some 1"
    using writes_revision[OF assms(1) after_ops_inv[OF assms(1)] created_next(1)[OF m(1,2)] m(3)]
    by (simp add: meta_revision_def new_meta_def dict_merge_def map_of_dset)
  moreover have "fst (commit c n pid m' sh v) \<noteq> Inl (Revision_Conflict a b)" for n m' sh a b
    by (auto simp: commit_def show_bytes_def Let_def split: prod.splits sum.splits option.splits)
  ultimately show ?thesis
    by (auto simp: save_project_def revision_at_def split: sum.splits)
qed

end
