(* ===== verification/Upload.thy ===== *)
theory Upload
  imports Vault Validate
begin

text \<open>
  How a show file becomes the trajectory the ground station flies,
  \<^verbatim>\<open>packages/tara-gcs/tara_gcs/trajectory_parser.py\<close>, and how a running show survives a restart,
  \<^verbatim>\<open>state_store.py\<close>. The one gate, the adapters of the older JSON shape and of Skybrush archives, and
  the saved show. Waypoints stay the JSON objects of the file, with every key they carry. The JSON
  codec, the ZIP archive (the list of its members) and Python's \<^verbatim>\<open>float\<close> of a text are parameters;
  CSV files are read by pandas and are left out.
\<close>

section \<open>The gate\<close>

type_synonym trajectory = "(int, json list) dict"

datatype upload_error =
    Not_An_Object
  | Newer_Format int
  | Schema_Violation
  | No_Drones
  | No_Waypoints "int list"
  | Unchecked validate_error
  | Collisions "string list"
  | Bad_Altitudes "string list"
  | Bad_Drone_Key string
  | Not_A_Waypoint_List int
  | Duplicate_Drone int
  | Bad_Archive
  | No_Show_Json
  | No_Swarm_Drones
  | Bad_Point
  | Not_JSON
  | Unsupported_Format

definition MAX_ERRORS :: int where "MAX_ERRORS = 3"

text \<open>The drones the strict reader keeps, with their waypoints as they are in the file.\<close>

definition raw_track :: "json \<Rightarrow> (int \<times> json list) option" where
  "raw_track v =
     (case v of
        JObj d \<Rightarrow> (case (map_of d ''id'', map_of d ''waypoints'') of
            (Some (JInt i), Some (JList ws)) \<Rightarrow> Some (i, ws) | _ \<Rightarrow> None)
      | _ \<Rightarrow> None)"

definition load_raw :: "json \<Rightarrow> trajectory option" where
  "load_raw v =
     (if \<not> container_schema v then None
      else case v of
        JObj d \<Rightarrow> (case map_of d ''drones'' of
            Some (JList ts) \<Rightarrow> Some (dict_of (List.map_filter raw_track ts)) | _ \<Rightarrow> None)
      | _ \<Rightarrow> None)"

definition raw_time :: "json \<Rightarrow> real" where
  "raw_time w = (case w of JObj d \<Rightarrow> getd (opt_number d ''time'') 0 | _ \<Rightarrow> 0)"

definition in_time_order :: "trajectory \<Rightarrow> trajectory" where
  "in_time_order tr = map (\<lambda>(i, ws). (i, sort_key raw_time ws)) tr"

definition gcs_data :: "trajectory \<Rightarrow> show_data" where
  "gcs_data tr = IntDict (map (\<lambda>(i, ws). (i, JList ws)) tr)"

definition validate_trajectory_collisions ::
  "(real \<Rightarrow> string) \<Rightarrow> near_pairs \<Rightarrow> trajectory \<Rightarrow> real option \<Rightarrow> validate_error + string list" where
  "validate_trajectory_collisions repr near tr separation =
     collision_errors repr near (gcs_data tr) DEFAULT_LIMITS separation MAX_ERRORS"

definition validate_trajectory_altitude ::
  "(real \<Rightarrow> string) \<Rightarrow> trajectory \<Rightarrow> validate_error + string list" where
  "validate_trajectory_altitude repr tr = altitude_errors repr (gcs_data tr) DEFAULT_LIMITS MAX_ERRORS"

definition with_version :: "(string, json) dict \<Rightarrow> upload_error + (string, json) dict" where
  "with_version d =
     (case map_of d ''version'' of
        None \<Rightarrow> Inr (dict_merge [(''version'', JInt SHOW_FORMAT_VERSION)] d)
      | Some (JInt k) \<Rightarrow> if k > SHOW_FORMAT_VERSION then Inl (Newer_Format k) else Inr d
      | Some v \<Rightarrow> Inr d)"

definition safe_trajectory ::
  "(real \<Rightarrow> string) \<Rightarrow> near_pairs \<Rightarrow> trajectory \<Rightarrow> upload_error + trajectory" where
  "safe_trajectory repr near tr =
     (case validate_trajectory_collisions repr near tr None of
        Inl e \<Rightarrow> Inl (Unchecked e)
      | Inr errors \<Rightarrow>
          if errors \<noteq> [] then Inl (Collisions errors)
          else (case validate_trajectory_altitude repr tr of
              Inl e \<Rightarrow> Inl (Unchecked e)
            | Inr issues \<Rightarrow> if issues \<noteq> [] then Inl (Bad_Altitudes issues) else Inr tr))"

definition gate_show :: "(real \<Rightarrow> string) \<Rightarrow> near_pairs \<Rightarrow> json \<Rightarrow> upload_error + trajectory" where
  "gate_show repr near canonical =
     (case canonical of
        JObj d \<Rightarrow>
          (case with_version d of
             Inl e \<Rightarrow> Inl e
           | Inr c \<Rightarrow>
               (case load_raw (JObj c) of
                  None \<Rightarrow> Inl Schema_Violation
                | Some drones \<Rightarrow>
                    let empty = map fst (filter (\<lambda>(i, ws). ws = []) drones) in
                    if drones = [] then Inl No_Drones
                    else if empty \<noteq> [] then Inl (No_Waypoints (sort empty))
                    else safe_trajectory repr near (in_time_order drones)))
      | _ \<Rightarrow> Inl Not_An_Object)"

definition canonical_show :: "json \<Rightarrow> (int \<times> json) list \<Rightarrow> json" where
  "canonical_show version drones = JObj [(''version'', version),
     (''drones'', JList (map (\<lambda>(i, ws). JObj [(''id'', JInt i), (''waypoints'', ws)]) drones))]"

definition gate_trajectory ::
  "(real \<Rightarrow> string) \<Rightarrow> near_pairs \<Rightarrow> (int, json) dict \<Rightarrow> upload_error + trajectory" where
  "gate_trajectory repr near tr = gate_show repr near (canonical_show (JInt SHOW_FORMAT_VERSION) tr)"

section \<open>Older formats\<close>

text \<open>\<^verbatim>\<open>yaw % 360.0\<close>\<close>

definition wrapped_yaw :: "real \<Rightarrow> real" where
  "wrapped_yaw y = (let r = py_fmod y 360 in if r \<ge> 360 then 0 else r)"

definition legacy_waypoint :: "json \<Rightarrow> json" where
  "legacy_waypoint wp =
     (case wp of
        JObj d \<Rightarrow>
          (case map_of d ''yaw'' of
             Some (JInt i) \<Rightarrow> JObj (dset ''yaw'' (JNum (wrapped_yaw (of_int i))) d)
           | Some (JNum y) \<Rightarrow> JObj (dset ''yaw'' (JNum (wrapped_yaw y)) d)
           | _ \<Rightarrow> JObj d)
      | _ \<Rightarrow> wp)"

definition legacy_canonical :: "json \<Rightarrow> (int \<times> json list) list \<Rightarrow> json" where
  "legacy_canonical version drones =
     canonical_show version (map (\<lambda>(i, ws). (i, JList (map legacy_waypoint ws))) drones)"

fun legacy_drones :: "(int, json list) dict \<Rightarrow> (string \<times> json) list \<Rightarrow> upload_error + (int, json list) dict" where
  "legacy_drones acc [] = Inr acc"
| "legacy_drones acc ((k, v) # rest) =
     (if k = ''version'' \<or> take 1 k = ''_'' then legacy_drones acc rest
      else case parse_int k of
        None \<Rightarrow> Inl (Bad_Drone_Key k)
      | Some i \<Rightarrow>
          (case v of
             JList ws \<Rightarrow>
               if map_of acc i \<noteq> None then Inl (Duplicate_Drone i) else legacy_drones (dset i ws acc) rest
           | _ \<Rightarrow> Inl (Not_A_Waypoint_List i)))"

definition parse_json ::
  "(real \<Rightarrow> string) \<Rightarrow> near_pairs \<Rightarrow> codec \<Rightarrow> bytes \<Rightarrow> upload_error + trajectory" where
  "parse_json repr near c content =
     (case cd_loads c content of
        None \<Rightarrow> Inl Not_JSON
      | Some (JObj d) \<Rightarrow>
          if map_of d ''drones'' \<noteq> None then gate_show repr near (JObj d)
          else (case legacy_drones [] d of
              Inl e \<Rightarrow> Inl e
            | Inr drones \<Rightarrow>
                gate_show repr near
                  (legacy_canonical (getd (map_of d ''version'') (JInt SHOW_FORMAT_VERSION)) drones))
      | Some v \<Rightarrow> Inl Not_An_Object)"

text \<open>What iterating a JSON value meets: the elements of a list, and for an object or a text only
  strings, which the callers skip.\<close>

fun elements :: "json \<Rightarrow> json list option" where
  "elements (JList vs) = Some vs"
| "elements (JObj d) = Some (map (\<lambda>(k, v). JStr k) d)"
| "elements (JStr s) = Some (map (\<lambda>c. JStr [c]) s)"
| "elements _ = None"

definition py_float :: "(string \<Rightarrow> real option) \<Rightarrow> json \<Rightarrow> real option" where
  "py_float text v = (case v of JStr s \<Rightarrow> text s | _ \<Rightarrow> as_number v)"

text \<open>A point of a Skybrush trajectory: skipped (\<^const>\<open>None\<close>), or the waypoint it stands for, unless a
  number cannot be read.\<close>

definition skyc_waypoint :: "(string \<Rightarrow> real option) \<Rightarrow> json \<Rightarrow> upload_error + json option" where
  "skyc_waypoint text point =
     (case point of
        JList (t # coords # others) \<Rightarrow>
          (case py_float text t of
             None \<Rightarrow> Inl Bad_Point
           | Some time \<Rightarrow>
               (case coords of
                  JList (a # b # c # others2) \<Rightarrow>
                    (case (py_float text a, py_float text b, py_float text c) of
                       (Some x, Some y, Some z) \<Rightarrow>
                         Inr (Some (JObj [(''time'', JNum time), (''x'', JNum x), (''y'', JNum y),
                           (''z'', JNum z), (''yaw'', JNum 0)]))
                     | _ \<Rightarrow> Inl Bad_Point)
                | _ \<Rightarrow> Inr None))
      | _ \<Rightarrow> Inr None)"

definition skyc_drone :: "(string \<Rightarrow> real option) \<Rightarrow> json \<Rightarrow> upload_error + json list" where
  "skyc_drone text drone =
     (case (case drone of JObj d \<Rightarrow> map_of d ''trajectory'' | _ \<Rightarrow> None) of
        None \<Rightarrow> Inr []
      | Some (JObj traj) \<Rightarrow>
          (case elements (getd (map_of traj ''points'') (JList [])) of
             None \<Rightarrow> Inl Bad_Point
           | Some points \<Rightarrow>
               (case map_result (skyc_waypoint text) points of
                  Inl e \<Rightarrow> Inl e
                | Inr ws \<Rightarrow> Inr (sort_key raw_time (List.map_filter id ws))))
      | Some v \<Rightarrow> Inl Bad_Point)"

definition is_show_json :: "string \<Rightarrow> bool" where
  "is_show_json name \<longleftrightarrow> name = ''show.json'' \<or> suffix ''/show.json'' name"

definition read_skyc ::
  "(string \<Rightarrow> real option) \<Rightarrow> codec \<Rightarrow> (string \<times> bytes) list option \<Rightarrow> upload_error + trajectory" where
  "read_skyc text c archive =
     (case archive of
        None \<Rightarrow> Inl Bad_Archive
      | Some members \<Rightarrow>
          (case find (\<lambda>(name, b). is_show_json name) members of
             None \<Rightarrow> Inl No_Show_Json
           | Some (name, b) \<Rightarrow>
               (case cd_loads c b of
                  None \<Rightarrow> Inl Not_JSON
                | Some (JObj d) \<Rightarrow>
                    (case map_of d ''swarm'' of
                       Some (JObj swarm) \<Rightarrow>
                         (case map_of swarm ''drones'' of
                            None \<Rightarrow> Inl No_Swarm_Drones
                          | Some v \<Rightarrow>
                              (case elements v of
                                 None \<Rightarrow> Inl Bad_Point
                               | Some drones \<Rightarrow>
                                   (case map_result (skyc_drone text) drones of
                                      Inl e \<Rightarrow> Inl e
                                    | Inr tracks \<Rightarrow>
                                        Inr (map (\<lambda>(i, ws). (int i, ws)) (enumerate 0 tracks)))))
                     | _ \<Rightarrow> Inl No_Swarm_Drones)
                | Some v \<Rightarrow> Inl No_Swarm_Drones)))"

definition parse_skyc ::
  "(real \<Rightarrow> string) \<Rightarrow> near_pairs \<Rightarrow> (string \<Rightarrow> real option) \<Rightarrow> codec \<Rightarrow> (string \<times> bytes) list option
    \<Rightarrow> upload_error + trajectory" where
  "parse_skyc repr near text c archive =
     (case read_skyc text c archive of Inl e \<Rightarrow> Inl e
      | Inr drones \<Rightarrow> gate_show repr near (legacy_canonical (JInt SHOW_FORMAT_VERSION) drones))"

text \<open>\<open>csv\<close> stands for the rows pandas reads, grouped by drone.\<close>

definition parse_trajectory_bytes ::
  "(real \<Rightarrow> string) \<Rightarrow> near_pairs \<Rightarrow> (string \<Rightarrow> real option) \<Rightarrow> codec \<Rightarrow> (bytes \<Rightarrow> (string \<times> bytes) list option)
    \<Rightarrow> (bytes \<Rightarrow> upload_error + trajectory) \<Rightarrow> bytes \<Rightarrow> string \<Rightarrow> upload_error + trajectory" where
  "parse_trajectory_bytes repr near text c unzip csv content filename =
     (if suffix ''.skyc'' filename then parse_skyc repr near text c (unzip content)
      else if suffix ''.json'' filename then parse_json repr near c content
      else if suffix ''.csv'' filename then
        (case csv content of Inl e \<Rightarrow> Inl e
         | Inr drones \<Rightarrow> gate_show repr near (legacy_canonical (JInt SHOW_FORMAT_VERSION) drones))
      else Inl Unsupported_Format)"

section \<open>The saved show\<close>

record saved_show =
  ss_mode :: json
  ss_started_at :: real
  ss_trajectory :: trajectory
  ss_telemetry :: "(int, json) dict"

text \<open>The dictionary keys are written as texts and read back with \<^verbatim>\<open>int\<close>.\<close>

definition text_keys :: "(int, json) dict \<Rightarrow> json" where
  "text_keys d = JObj (map (\<lambda>(i, v). (py_str i, v)) d)"

fun int_keys :: "(string \<times> json) list \<Rightarrow> (int \<times> json) list option" where
  "int_keys [] = Some []"
| "int_keys ((k, v) # rest) =
     (case (parse_int k, int_keys rest) of (Some i, Some d) \<Rightarrow> Some ((i, v) # d) | _ \<Rightarrow> None)"

definition state_payload :: "real \<Rightarrow> saved_show \<Rightarrow> json" where
  "state_payload now st = JObj [(''version'', JInt 1), (''saved_at'', JNum now), (''mode'', ss_mode st),
     (''show_started_at'', JNum (ss_started_at st)),
     (''trajectory'', text_keys (map (\<lambda>(i, ws). (i, JList ws)) (ss_trajectory st))),
     (''telemetry'', text_keys (ss_telemetry st))]"

text \<open>The file before and after: a write that fails, or cannot be encoded, leaves the old one.\<close>

definition save_show_state :: "codec \<Rightarrow> bool \<Rightarrow> real \<Rightarrow> saved_show \<Rightarrow> bytes option \<Rightarrow> bool \<times> bytes option" where
  "save_show_state c disk_ok now st file =
     (case cd_dumps c (state_payload now st) of
        None \<Rightarrow> (False, file)
      | Some b \<Rightarrow> if disk_ok then (True, Some b) else (False, file))"

definition object_at :: "(string, json) dict \<Rightarrow> string \<Rightarrow> (int, json) dict option" where
  "object_at d k = (case map_of d k of Some (JObj e) \<Rightarrow> map_option dict_of (int_keys e) | _ \<Rightarrow> None)"

text \<open>The loaded payload with its two restored dictionaries, the trajectory first.\<close>

definition load_show_state ::
  "codec \<Rightarrow> bytes option \<Rightarrow> ((string, json) dict \<times> (int, json) dict \<times> (int, json) dict) option" where
  "load_show_state c file =
     (case Option.bind file (cd_loads c) of
        Some (JObj d) \<Rightarrow>
          (case (object_at d ''trajectory'', object_at d ''telemetry'') of
             (Some tr, Some tel) \<Rightarrow> Some (d, tr, tel) | _ \<Rightarrow> None)
      | _ \<Rightarrow> None)"

definition discard_show_state :: "bytes option \<Rightarrow> bytes option" where
  "discard_show_state file = None"

section \<open>What the gate lets through\<close>

definition typed_waypoint :: "json \<Rightarrow> waypoint" where
  "typed_waypoint w = (case w of JObj e \<Rightarrow> mk_waypoint e | _ \<Rightarrow> mk_waypoint [])"

definition typed :: "trajectory \<Rightarrow> choreography" where
  "typed tr = map (\<lambda>(i, ws). (i, map typed_waypoint ws)) tr"

lemma typed_Nil [simp]: "typed tr = [] \<longleftrightarrow> tr = []"
  by (simp add: typed_def)

definition schema_tracks :: "trajectory \<Rightarrow> bool" where
  "schema_tracks tr \<longleftrightarrow> dict_ok tr \<and>
     (\<forall>(i, ws) \<in> set tr. 0 \<le> i \<and> i < MAX_FLEET_SIZE \<and> list_all waypoint_schema ws)"

lemma schema_typed:
  assumes "waypoint_schema w"
  shows "read_waypoint i w = Inr (typed_waypoint w)" and "well_typed_waypoint (typed_waypoint w)"
    and "w_time (typed_waypoint w) = raw_time w"
proof -
  obtain e where e: "w = JObj e" using assms by (auto simp: waypoint_schema_def split: json.splits)
  show "read_waypoint i w = Inr (typed_waypoint w)" "well_typed_waypoint (typed_waypoint w)"
    using schema_reads assms by (simp_all add: e typed_waypoint_def)
  show "w_time (typed_waypoint w) = raw_time w" by (simp add: e typed_waypoint_def raw_time_def mk_waypoint_def)
qed

lemma load_raw_tracks:
  assumes "load_raw v = Some drones"
  shows "schema_tracks drones"
proof -
  obtain d ts where ts: "v = JObj d" "map_of d ''drones'' = Some (JList ts)" "list_all track_schema ts"
    "distinct (map track_id ts)" and drones: "drones = dict_of (List.map_filter raw_track ts)"
    using assms by (auto simp: load_raw_def container_schema_def required_def list_of_def unique_ids_def
        split: json.splits option.splits if_splits)
  have each: "\<exists>i ws. raw_track t = Some (i, ws) \<and> track_id t = Some i \<and> 0 \<le> i \<and> i < MAX_FLEET_SIZE \<and>
      list_all waypoint_schema ws" if "track_schema t" for t
    using that by (auto simp: track_schema_def required_def int_in_def list_of_def raw_track_def track_id_def
        split: json.splits option.splits)
  have "map (Some \<circ> fst) (List.map_filter raw_track ts) = map track_id ts"
    using ts(3)
  proof (induction ts)
    case (Cons t ts)
    then show ?case using each[of t] by (auto simp: List.map_filter_simps)
  qed (simp add: List.map_filter_simps)
  then have dist: "distinct (map fst (List.map_filter raw_track ts))"
    using ts(4) by (metis distinct_map map_map)
  have "0 \<le> i \<and> i < MAX_FLEET_SIZE \<and> list_all waypoint_schema ws" if mem: "(i, ws) \<in> set (List.map_filter raw_track ts)" for i ws
  proof -
    obtain t where "t \<in> set ts" "raw_track t = Some (i, ws)" using map_filter_cases[OF mem] by blast
    then show ?thesis using each[of t] ts(3) by (auto simp: list_all_iff)
  qed
  then show ?thesis
    using dist by (auto simp: drones dict_of_distinct schema_tracks_def dict_ok_def)
qed

lemma schema_in_time_order:
  assumes "schema_tracks tr"
  shows "schema_tracks (in_time_order tr)"
proof -
  have "map fst (in_time_order tr) = map fst tr" by (induction tr) (auto simp: in_time_order_def)
  moreover have "0 \<le> i \<and> i < MAX_FLEET_SIZE \<and> list_all waypoint_schema ws"
    if mem: "(i, ws) \<in> set (in_time_order tr)" for i ws
  proof -
    obtain ws' where "(i, ws') \<in> set tr" "ws = sort_key raw_time ws'" using mem by (auto simp: in_time_order_def)
    then show ?thesis using assms by (auto simp: schema_tracks_def list_all_iff)
  qed
  ultimately show ?thesis using assms by (auto simp: schema_tracks_def dict_ok_def)
qed

lemma gcs_data_typed:
  assumes "schema_tracks tr"
  shows "from_any (gcs_data tr) = Inr (typed tr)"
proof -
  have raw: "raw_drones (gcs_data tr) = Inr tr"
    by (auto simp: raw_drones_def gcs_data_def map_result_Inr list_all2_conv_all_nth split: prod.splits)
  have each: "map_result (read_waypoint i) ws = Inr (map typed_waypoint ws)" if "(i, ws) \<in> set tr" for i ws
    using assms that by (force simp: schema_tracks_def map_result_Inr list_all2_conv_all_nth list_all_length
        intro!: schema_typed(1))
  let ?read = "\<lambda>(i, ws). case map_result (read_waypoint i) ws of Inl e \<Rightarrow> Inl e | Inr wps \<Rightarrow> Inr (i, wps)"
  have "list_all2 (\<lambda>x y. ?read x = Inr y) tr (typed tr)"
    unfolding typed_def by (intro list_all2_all_nthI) (auto split: prod.splits simp: each dest!: nth_mem)
  then have "map_result ?read tr = Inr (typed tr)" by (simp only: map_result_Inr)
  moreover have "dict_of tr = tr" using assms by (simp add: schema_tracks_def dict_ok_def dict_of_distinct)
  ultimately show ?thesis using raw by (simp add: from_any_def gcs_data_def)
qed

lemma gate_show_cases:
  assumes "gate_show repr near v = Inr tr"
  shows "\<exists>drones. schema_tracks drones \<and> drones \<noteq> [] \<and> (\<forall>(i, ws) \<in> set drones. ws \<noteq> []) \<and>
    tr = in_time_order drones \<and> safe_trajectory repr near tr = Inr tr"
proof -
  obtain d c drones where "v = JObj d" "with_version d = Inr c" and l: "load_raw (JObj c) = Some drones" "drones \<noteq> []"
    "filter (\<lambda>(i, ws). ws = []) drones = []" "safe_trajectory repr near (in_time_order drones) = Inr tr"
    using assms by (auto simp: gate_show_def Let_def split: json.splits sum.splits option.splits if_splits)
  have "tr = in_time_order drones"
    using l(4) by (auto simp: safe_trajectory_def split: sum.splits if_splits)
  moreover have "\<forall>(i, ws) \<in> set drones. ws \<noteq> []" using l(3) by (auto simp: filter_empty_conv)
  ultimately show ?thesis using l load_raw_tracks by blast
qed

lemma gate_show_typed:
  assumes "gate_show repr near v = Inr tr"
  shows "schema_tracks tr" and "tr \<noteq> []" and "\<forall>(i, ws) \<in> set tr. ws \<noteq> [] \<and> sorted (map raw_time ws)"
    and "safe_trajectory repr near tr = Inr tr"
proof -
  obtain drones where d: "schema_tracks drones" "drones \<noteq> []" "\<forall>(i, ws) \<in> set drones. ws \<noteq> []"
    "tr = in_time_order drones" "safe_trajectory repr near tr = Inr tr"
    using gate_show_cases[OF assms] by blast
  show "schema_tracks tr" "tr \<noteq> []" using schema_in_time_order[OF d(1)] d(2,4) by (auto simp: in_time_order_def)
  have "sort_key raw_time ws \<noteq> [] \<longleftrightarrow> ws \<noteq> []" for ws by (metis length_0_conv length_sort)
  then show "\<forall>(i, ws) \<in> set tr. ws \<noteq> [] \<and> sorted (map raw_time ws)"
    using d(3) by (fastforce simp: d(4) in_time_order_def)
qed (use gate_show_cases[OF assms] in blast)

text \<open>What a show must be to be flown: read by every internal caller, with at least one drone and every
  drone on its way, waypoints in time order and well typed, the whole interpolated path between the ground
  and the ceiling, and at every tenth of a second all drones at least the hard separation apart.\<close>

definition separated_samples :: "limits \<Rightarrow> choreography \<Rightarrow> bool" where
  "separated_samples l s \<longleftrightarrow> (\<exists>ts. sweep_times (duration s) (1 / 10) = Some ts \<and>
     (\<forall>t \<in> set ts. \<forall>j < length (xyz_at s t). \<forall>i < j.
        min_separation_m l \<le> dist3 (snd (xyz_at s t ! i)) (snd (xyz_at s t ! j))))"

definition flyable :: "trajectory \<Rightarrow> choreography \<Rightarrow> bool" where
  "flyable tr s \<longleftrightarrow> from_any (gcs_data tr) = Inr s \<and> s \<noteq> [] \<and> dict_ok s \<and>
     (\<forall>(i, wps) \<in> set s. 0 \<le> i \<and> i < MAX_FLEET_SIZE \<and> wps \<noteq> [] \<and> sorted (map w_time wps) \<and>
        (\<forall>wp \<in> set wps. well_typed_waypoint wp)) \<and>
     path_within DEFAULT_LIMITS s \<and> separated_samples DEFAULT_LIMITS s"

lemma collect_until_all: "collect_until m [] es = [] \<longleftrightarrow> es = []"
  by (simp add: collect_until_Nil)

lemma no_collisions:
  assumes "finds_near_pairs near" and "schema_tracks tr"
    and "validate_trajectory_collisions repr near tr None = Inr []"
  shows "separated_samples DEFAULT_LIMITS (typed tr)"
  using assms(3) unfolding validate_trajectory_collisions_def collision_errors_def gcs_data_typed[OF assms(2)]
  by (auto simp: separated_samples_def Let_def getd_def collect_until_all close_pairs_Nil[OF assms(1)]
      split: option.splits)

lemma no_bad_altitudes:
  assumes "schema_tracks tr" and "validate_trajectory_altitude repr tr = Inr []"
  shows "path_within DEFAULT_LIMITS (typed tr)"
proof -
  have empty: "sort_key f xs = [] \<longleftrightarrow> xs = []" for f :: "real \<times> violation \<Rightarrow> real" and xs
    by (metis length_0_conv length_sort)
  have "fst (altitude_extremes (typed tr) DEFAULT_LIMITS) = ([], [])"
    using assms(2) unfolding validate_trajectory_altitude_def altitude_errors_def gcs_data_typed[OF assms(1)]
    by (auto simp: collect_until_all empty split: prod.splits)
  then show ?thesis by (simp only: altitude_extremes_Nil waypoints_path_within)
qed

lemma gate_show_flyable:
  assumes "finds_near_pairs near" and "gate_show repr near v = Inr tr"
  shows "\<exists>s. flyable tr s"
proof (rule exI[of _ "typed tr"])
  note g = gate_show_typed[OF assms(2)]
  have safe: "validate_trajectory_collisions repr near tr None = Inr []" "validate_trajectory_altitude repr tr = Inr []"
    using g(4) by (auto simp: safe_trajectory_def split: sum.splits if_splits)
  have "map fst (typed tr) = map fst tr" by (induction tr) (auto simp: typed_def)
  then have "dict_ok (typed tr)" using g(1) by (simp add: schema_tracks_def dict_ok_def)
  moreover have "0 \<le> i \<and> i < MAX_FLEET_SIZE \<and> wps \<noteq> [] \<and> sorted (map w_time wps) \<and>
      (\<forall>wp \<in> set wps. well_typed_waypoint wp)" if mem: "(i, wps) \<in> set (typed tr)" for i wps
  proof -
    obtain ws where ws: "(i, ws) \<in> set tr" "wps = map typed_waypoint ws" using mem by (auto simp: typed_def)
    then have sch: "waypoint_schema w" if "w \<in> set ws" for w
      using g(1) that by (auto simp: schema_tracks_def list_all_iff)
    then have "map w_time wps = map raw_time ws" by (simp add: ws(2) schema_typed(3))
    then have "sorted (map w_time wps)" using g(3) ws(1) by (simp only:) auto
    then show ?thesis using g(1,3) ws sch by (auto simp: schema_tracks_def schema_typed(2))
  qed
  ultimately show "flyable tr (typed tr)"
    using g(2) gcs_data_typed[OF g(1)] no_collisions[OF assms(1) g(1) safe(1)] no_bad_altitudes[OF g(1) safe(2)]
    by (auto simp: flyable_def typed_Nil)
qed

text \<open>C3. What the ground station accepts can be flown: whatever bytes are uploaded under whatever file
  name (the Studio's shows, the older JSON shape, Skybrush archives, CSV), a trajectory that comes out is
  read by every internal caller, has drones with distinct identifiers of the fleet, each with well-typed
  waypoints in time order; every drone stays between the ground and the ceiling at every instant of its
  interpolated path, and at every tenth of a second all drones are at least the hard separation apart.\<close>

theorem accepted_upload_is_flyable:
  assumes "finds_near_pairs near"
    and "parse_trajectory_bytes repr near text c unzip csv content filename = Inr tr"
  shows "\<exists>s. flyable tr s"
proof -
  obtain v where "gate_show repr near v = Inr tr"
    using assms(2) by (auto simp: parse_trajectory_bytes_def parse_skyc_def parse_json_def
        split: if_splits sum.splits option.splits json.splits)
  then show ?thesis by (rule gate_show_flyable[OF assms(1)])
qed

section \<open>A saved show comes back\<close>

lemma digits_chars: "c \<in> set (digits n) \<Longrightarrow> 48 \<le> (of_char c :: nat) \<and> (of_char c :: nat) \<le> 57"
proof (induction n rule: digits.induct)
  case (1 n)
  then show ?case by (subst (asm) (2) digits.simps) (auto split: if_splits)
qed

lemma digits_not_Nil [simp]: "digits n \<noteq> []"
  by (subst digits.simps) simp

lemma digit_of_char: "d < 10 \<Longrightarrow> digit_of (char_of (48 + d)) = Some (int d)"
  by (simp add: digit_of_def Let_def)

lemma parse_digits_digit:
  assumes "d < 10"
  shows "parse_digits after acc (char_of (48 + d) # cs) = parse_digits True (10 * acc + int d) cs"
proof -
  have "(of_char (char_of (48 + d) :: char) :: nat) \<noteq> of_char CHR ''_''" using assms by simp
  then have "char_of (48 + d) \<noteq> CHR ''_''" by metis
  then show ?thesis using assms by (simp add: digit_of_char)
qed

lemma parse_digits_digits:
  "\<exists>k. \<forall>after acc cs. parse_digits after acc (digits n @ cs) = parse_digits True (acc * 10 ^ k + int n) cs"
proof (induction n rule: digits.induct)
  case (1 n)
  show ?case
  proof (cases "n < 10")
    case True
    then have "parse_digits after acc (digits n @ cs) = parse_digits True (acc * 10 ^ 1 + int n) cs" for after acc cs
      by (subst digits.simps) (simp add: parse_digits_digit mult.commute del: parse_digits.simps)
    then show ?thesis by blast
  next
    case False
    then obtain k where k: "parse_digits after acc (digits (n div 10) @ cs) =
        parse_digits True (acc * 10 ^ k + int (n div 10)) cs" for after acc cs
      using 1 by blast
    have "digits n = digits (n div 10) @ [char_of (48 + n mod 10)]"
      using False by (subst digits.simps) simp
    then have "parse_digits after acc (digits n @ cs) =
        parse_digits True (10 * (acc * 10 ^ k + int (n div 10)) + int (n mod 10)) cs" for after acc cs
      using k by (simp add: parse_digits_digit del: parse_digits.simps)
    moreover have "10 * (acc * 10 ^ k + int (n div 10)) + int (n mod 10) = acc * 10 ^ Suc k + int n" for acc
      by (simp add: algebra_simps zdiv_int zmod_int)
    ultimately show ?thesis by metis
  qed
qed

lemma parse_digits_nat: "parse_digits False 0 (digits n) = Some (int n)"
  using parse_digits_digits[of n] by (metis append_Nil2 mult_zero_left add_0 parse_digits.simps(1))

lemma strip_nonspace: "\<not> is_space (hd s) \<Longrightarrow> \<not> is_space (last s) \<Longrightarrow> s \<noteq> [] \<Longrightarrow> py_strip s = s"
  using dropWhile_eq_self_iff[of is_space s] dropWhile_eq_self_iff[of is_space "rev s"]
  by (simp add: py_strip_def hd_rev)

lemma digits_not_space: "c \<in> set (digits n) \<Longrightarrow> \<not> is_space c \<and> c \<noteq> CHR ''-'' \<and> c \<noteq> CHR ''+''"
  using digits_chars[of c n] by (auto simp: is_space_def Let_def)

lemma parse_int_py_str [simp]: "parse_int (py_str i) = Some i"
proof (cases "i < 0")
  case True
  have "py_strip (CHR ''-'' # digits (nat (- i))) = CHR ''-'' # digits (nat (- i))"
    using digits_not_space[of "last (digits (nat (- i)))" "nat (- i)"]
    by (intro strip_nonspace) (auto simp: is_space_def Let_def)
  then show ?thesis using True by (simp add: parse_int_def py_str_def parse_digits_nat)
next
  case False
  obtain c cs where d: "digits (nat i) = c # cs" by (cases "digits (nat i)") auto
  have "py_strip (digits (nat i)) = digits (nat i)"
    using digits_not_space[of "hd (digits (nat i))" "nat i"] digits_not_space[of "last (digits (nat i))" "nat i"]
    by (intro strip_nonspace) simp_all
  then show ?thesis
    using False d parse_digits_nat[of "nat i"] digits_not_space[of c "nat i"]
    by (simp add: parse_int_def py_str_def)
qed

lemma int_keys_text [simp]: "int_keys (map (\<lambda>(i, v). (py_str i, v)) d) = Some d"
  by (induction d) auto

text \<open>The gate lets its own output through again, unchanged.\<close>

lemma canonical_tracks:
  "map track_id (map (\<lambda>(i, ws). JObj [(''id'', JInt i), (''waypoints'', ws)]) d) = map (Some \<circ> fst) d"
  by (induction d) (auto simp: track_id_def)

lemma canonical_raw_tracks:
  "List.map_filter raw_track (map (\<lambda>(i, ws). JObj [(''id'', JInt i), (''waypoints'', JList ws)]) tr) = tr"
  by (induction tr) (auto simp: raw_track_def List.map_filter_simps)

lemma canonical_loads:
  assumes "schema_tracks tr"
  shows "load_raw (canonical_show (JInt SHOW_FORMAT_VERSION) (map (\<lambda>(i, ws). (i, JList ws)) tr)) = Some tr"
proof -
  let ?ts = "map (\<lambda>(i, ws). JObj [(''id'', JInt i), (''waypoints'', JList ws)]) tr"
  have "track_schema t" if "t \<in> set ?ts" for t
    using that assms by (auto simp: schema_tracks_def track_schema_def required_def int_in_def list_of_def)
  then have ts: "list_all track_schema ?ts" by (simp add: list_all_iff)
  have "map track_id ?ts = map (Some \<circ> fst) tr"
    using canonical_tracks[of "map (\<lambda>(i, ws). (i, JList ws)) tr"] by (simp add: comp_def case_prod_beta')
  then have ids: "distinct (map track_id ?ts)"
    using assms by (simp add: schema_tracks_def dict_ok_def distinct_map inj_on_def comp_def)
  have show_eq: "canonical_show (JInt SHOW_FORMAT_VERSION) (map (\<lambda>(i, ws). (i, JList ws)) tr) =
      JObj [(''version'', JInt SHOW_FORMAT_VERSION), (''drones'', JList ?ts)]"
    by (simp add: canonical_show_def comp_def case_prod_beta')
  have "dict_of tr = tr" using assms by (simp add: schema_tracks_def dict_ok_def dict_of_distinct)
  then show ?thesis
    using ts ids unfolding show_eq
    by (simp add: load_raw_def container_schema_def required_def optional_def int_in_def list_of_def unique_ids_def
        SHOW_FORMAT_VERSION_def canonical_raw_tracks)
qed

lemma gate_again:
  assumes "gate_show repr near v = Inr tr"
  shows "gate_trajectory repr near (map (\<lambda>(i, ws). (i, JList ws)) tr) = Inr tr"
proof -
  note g = gate_show_typed[OF assms]
  have "(i, sort_key raw_time ws) = (i, ws)" if "(i, ws) \<in> set tr" for i ws
    using g(3) that by (auto simp: sort_key_id_if_sorted)
  then have "in_time_order tr = tr" unfolding in_time_order_def by (intro map_idI) auto
  moreover have "filter (\<lambda>(i, ws). ws = []) tr = []" using g(3) by (auto simp: filter_empty_conv)
  ultimately show ?thesis
    using canonical_loads[OF g(1)] g(2,4)
    by (simp add: gate_trajectory_def gate_show_def canonical_show_def with_version_def SHOW_FORMAT_VERSION_def Let_def)
qed

definition the_object :: "json \<Rightarrow> (string, json) dict" where
  "the_object v = (case v of JObj d \<Rightarrow> d | _ \<Rightarrow> [])"

text \<open>C27. A show that is running survives a restart: when a gated trajectory was saved and the save went
  through, what is loaded has the same mode and start instant and the same trajectory, waypoint for
  waypoint, and the gate a resumed show must pass lets exactly that trajectory through again.\<close>

theorem saved_show_resumes:
  assumes "reads_back c" and "gate_show repr near v = Inr tr" and "ss_trajectory st = tr"
    and "save_show_state c disk_ok now st file = (True, file')"
  shows "\<exists>d plan tel. load_show_state c file' = Some (d, plan, tel) \<and> map_of d ''mode'' = Some (ss_mode st) \<and>
    map_of d ''show_started_at'' = Some (JNum (ss_started_at st)) \<and>
    plan = map (\<lambda>(i, ws). (i, JList ws)) tr \<and> gate_trajectory repr near plan = Inr tr"
proof -
  obtain b where b: "cd_dumps c (state_payload now st) = Some b" "file' = Some b"
    using assms(4) by (auto simp: save_show_state_def split: option.splits if_splits)
  have loads: "cd_loads c b = Some (state_payload now st)" using assms(1) b(1) by (simp add: reads_back_def)
  have "map fst (map (\<lambda>(i, ws). (i, JList ws)) tr) = map fst tr" by (induction tr) auto
  then have same: "dict_of (map (\<lambda>(i, ws). (i, JList ws)) tr) = map (\<lambda>(i, ws). (i, JList ws)) tr"
    using gate_show_typed(1)[OF assms(2)] by (intro dict_of_distinct) (simp only: schema_tracks_def dict_ok_def)
  define plan where "plan = map (\<lambda>(i, ws). (i, JList ws)) tr"
  have "load_show_state c file' = Some (the_object (state_payload now st), plan, dict_of (ss_telemetry st))"
    using loads same[folded plan_def]
    by (simp add: load_show_state_def b(2) state_payload_def object_at_def text_keys_def assms(3) plan_def[symmetric]
        the_object_def)
  then show ?thesis
    using gate_again[OF assms(2)] by (auto simp: plan_def state_payload_def the_object_def)
qed

section \<open>Concrete files\<close>

definition example_trajectory :: trajectory where
  "example_trajectory = [(3, [JObj [(''time'', JInt 0), (''x'', JNum 1), (''y'', JInt 2), (''z'', JInt (-2)),
     (''yaw'', JInt 90), (''r'', JInt 255)]])]"

lemma example_loads: "load_raw example_file = Some example_trajectory"
  by (simp add: example_file_def example_trajectory_def load_raw_def container_schema_def required_def
      optional_def list_of_def track_schema_def waypoint_schema_def float_in_def int_in_def
      led_channel_def unique_ids_def track_id_def raw_track_def dict_of_def MAX_FLEET_SIZE_def
      List.map_filter_simps)

lemma example_gated: "gate_show repr near example_file = Inr example_trajectory"
proof -
  have typed: "from_any (gcs_data example_trajectory) = Inr (typed example_trajectory)"
    by (rule gcs_data_typed[OF load_raw_tracks[OF example_loads]])
  have dur: "duration (typed example_trajectory) = 0"
    by (simp add: duration_def typed_def example_trajectory_def typed_waypoint_def mk_waypoint_def
        opt_number_def number_at_def getd_def max_default_def)
  have "close_pairs near (xyz_at (typed example_trajectory) t) r = []" for t r
    by (simp add: close_pairs_def xyz_at_def positions_at_def typed_def example_trajectory_def
        interpolate_waypoint_def List.map_filter_simps)
  then have "validate_trajectory_collisions repr near example_trajectory None = Inr []"
    by (simp add: validate_trajectory_collisions_def collision_errors_def typed dur sweep_times_def Let_def)
  moreover have "fst (altitude_extremes (typed example_trajectory) DEFAULT_LIMITS) = ([], [])"
    by (simp add: altitude_extremes_Nil within_altitudes_def typed_def typed_waypoint_def example_trajectory_def
        mk_waypoint_def opt_number_def number_at_def getd_def DEFAULT_LIMITS_def)
  then have "validate_trajectory_altitude repr example_trajectory = Inr []"
    by (simp add: validate_trajectory_altitude_def altitude_errors_def typed)
  ultimately have "safe_trajectory repr near example_trajectory = Inr example_trajectory"
    by (simp add: safe_trajectory_def)
  moreover have "in_time_order example_trajectory = example_trajectory" "example_trajectory \<noteq> []"
    "filter (\<lambda>(i, ws). ws = []) example_trajectory = []"
    by (simp_all add: in_time_order_def example_trajectory_def)
  ultimately show ?thesis
    using example_loads by (simp add: gate_show_def example_file_def with_version_def SHOW_FORMAT_VERSION_def Let_def)
qed

definition example_saved :: saved_show where
  "example_saved = \<lparr>ss_mode = JStr ''sitl'', ss_started_at = 5, ss_trajectory = example_trajectory, ss_telemetry = []\<rparr>"

definition upload_codec :: codec where
  "upload_codec = table_codec [(example_file, [1]), (state_payload 7 example_saved, [2])]"

lemma upload_codec_reads: "reads_back upload_codec"
  unfolding upload_codec_def by (rule table_reads_back) simp

theorem accepted_upload_is_flyable_witness:
  "parse_trajectory_bytes (\<lambda>x. []) all_near_pairs (\<lambda>s. None) upload_codec (\<lambda>b. None) (\<lambda>b. Inl Not_JSON) [1] ''a.json''
     = Inr example_trajectory \<and> (\<exists>s. flyable example_trajectory s)"
proof -
  have parsed: "parse_trajectory_bytes (\<lambda>x. []) all_near_pairs (\<lambda>s. None) upload_codec (\<lambda>b. None) (\<lambda>b. Inl Not_JSON)
      [1] ''a.json'' = Inr example_trajectory"
    using example_gated[of "\<lambda>x. []" all_near_pairs]
    by (simp add: parse_trajectory_bytes_def parse_json_def upload_codec_def table_codec_def suffix_def example_file_def)
  from accepted_upload_is_flyable[OF all_near_pairs_finds this] parsed show ?thesis by blast
qed

theorem saved_show_resumes_witness:
  "\<exists>d plan tel. load_show_state upload_codec (Some [2]) = Some (d, plan, tel) \<and>
    map_of d ''show_started_at'' = Some (JNum 5) \<and>
    gate_trajectory (\<lambda>x. []) all_near_pairs plan = Inr example_trajectory"
proof -
  have "save_show_state upload_codec True 7 example_saved None = (True, Some [2])"
    by (simp add: save_show_state_def upload_codec_def table_codec_def example_file_def state_payload_def)
  from saved_show_resumes[OF upload_codec_reads example_gated[of "\<lambda>x. []" all_near_pairs] _ this]
  show ?thesis by (auto simp: example_saved_def)
qed

end
