(* ===== verification/Pacing.thy ===== *)
theory Pacing
  imports Geometry
begin

text \<open>
  The timeline of a generated show, \<^verbatim>\<open>packages/tara-studio/tara_studio/pacing.py\<close>: how long takeoff,
  blend, choreography and landing must be for the distances a fleet has to cover. The ramp every leg is
  flown with, \<^verbatim>\<open>_ease\<close> of \<^verbatim>\<open>generator.py\<close>, is here too, because the times are chosen for its peak.
  \<^verbatim>\<open>math.pi\<close> is \<open>pi\<close>.
\<close>

section \<open>Constants\<close>

definition BASE_TAKEOFF_S :: real where "BASE_TAKEOFF_S = 5"
definition BASE_BLEND_S :: real where "BASE_BLEND_S = 2"
definition BASE_CHOREO_S :: real where "BASE_CHOREO_S = 20"
definition BASE_LAND_S :: real where "BASE_LAND_S = 5"
definition CRUISE_FRACTION :: real where "CRUISE_FRACTION = 4 / 10"
definition CRUISE_YAW_FRACTION :: real where "CRUISE_YAW_FRACTION = 55 / 100"
definition MAX_ORBIT_SPEED_MS :: real where "MAX_ORBIT_SPEED_MS = 25 / 10"
definition LAND_RETURN_FRACTION :: real where "LAND_RETURN_FRACTION = 6 / 10"

definition ease :: "real \<Rightarrow> real" where
  "ease ratio = fst (quintic_profile ratio)"

section \<open>The timeline\<close>

record pacing =
  pa_takeoff :: real
  pa_blend :: real
  pa_choreo :: real
  pa_land :: real

definition choreo_start :: "pacing \<Rightarrow> real" where "choreo_start p = pa_takeoff p"
definition land_start :: "pacing \<Rightarrow> real" where "land_start p = pa_takeoff p + pa_choreo p"
definition total_s :: "pacing \<Rightarrow> real" where "total_s p = pa_takeoff p + pa_choreo p + pa_land p"
definition pacing_multiplier :: "pacing \<Rightarrow> real" where
  "pacing_multiplier p = total_s p / (BASE_TAKEOFF_S + BASE_CHOREO_S + BASE_LAND_S)"

definition formation_spread :: "(int, point3) dict \<Rightarrow> (int, point3) dict \<Rightarrow> real" where
  "formation_spread starts targets =
     foldl (\<lambda>worst (i, pad). max worst (dist3 pad (the (map_of targets i)))) 0 starts"

datatype pacing_error = Bad_Fleet_Size int | Negative_Distance string real

definition orbit_budget :: "limits \<Rightarrow> real \<Rightarrow> real \<Rightarrow> real" where
  "orbit_budget l spread blend_s =
     min MAX_ORBIT_SPEED_MS (9 / 10 * max_velocity_ms l - 15 / 10 * spread / blend_s)"

definition cruise :: "limits \<Rightarrow> real" where "cruise l = max_velocity_ms l * CRUISE_FRACTION"

definition takeoff_time :: "limits \<Rightarrow> real \<Rightarrow> real" where
  "takeoff_time l climb = max BASE_TAKEOFF_S (climb / cruise l)"

definition blend_time :: "limits \<Rightarrow> real \<Rightarrow> real" where
  "blend_time l spread = max BASE_BLEND_S (spread / cruise l)"

definition yaw_time :: "limits \<Rightarrow> real \<Rightarrow> real" where
  "yaw_time l revolutions =
     (if revolutions > 0 then 360 * revolutions / (max_yaw_rate_dps l * CRUISE_YAW_FRACTION) else 0)"

definition orbit_time :: "limits \<Rightarrow> real \<Rightarrow> real \<Rightarrow> real \<Rightarrow> real" where
  "orbit_time l spread revolutions reach =
     (if reach > 0 \<and> revolutions > 0 \<and> orbit_budget l spread (blend_time l spread) > 0
      then 2 * pi * reach * revolutions / orbit_budget l spread (blend_time l spread) else 0)"

definition choreo_time :: "limits \<Rightarrow> real \<Rightarrow> real \<Rightarrow> real \<Rightarrow> real" where
  "choreo_time l spread revolutions reach =
     max (max (max BASE_CHOREO_S (blend_time l spread + (BASE_CHOREO_S - BASE_BLEND_S))) (yaw_time l revolutions))
       (orbit_time l spread revolutions reach)"

definition land_time :: "limits \<Rightarrow> real \<Rightarrow> real \<Rightarrow> real" where
  "land_time l climb spread =
     max (max BASE_LAND_S (spread / cruise l / LAND_RETURN_FRACTION)) (climb / cruise l / (1 - LAND_RETURN_FRACTION))"

definition plan_pacing ::
  "int \<Rightarrow> real \<Rightarrow> real \<Rightarrow> real \<Rightarrow> real \<Rightarrow> limits \<Rightarrow> pacing_error + pacing" where
  "plan_pacing n climb spread revolutions orbit_reach l =
     (if \<not> (1 \<le> n \<and> n \<le> MAX_FLEET_SIZE) then Inl (Bad_Fleet_Size n)
      else case find (\<lambda>(name, v). v < 0)
          [(''climb_m'', climb), (''spread_m'', spread), (''revolutions'', revolutions),
           (''orbit_reach_m'', orbit_reach)] of
        Some (name, v) \<Rightarrow> Inl (Negative_Distance name v)
      | None \<Rightarrow> Inr \<lparr>pa_takeoff = takeoff_time l climb, pa_blend = blend_time l spread,
          pa_choreo = choreo_time l spread revolutions orbit_reach, pa_land = land_time l climb spread\<rparr>)"

section \<open>The ramp\<close>

definition ramp :: "real \<Rightarrow> real" where "ramp r = 6 * r ^ 5 - 15 * r ^ 4 + 10 * r ^ 3"

lemma ease_ramp: "ease r = ramp (min 1 (max 0 r))"
  by (simp add: ease_def ramp_def quintic_profile_def Let_def)

text \<open>The slope is \<open>30 r\<^sup>2 (1 - r)\<^sup>2\<close>: never negative, and never above 15/8.\<close>

lemma ramp_slope: "30 * r ^ 4 - 60 * r ^ 3 + 30 * r ^ 2 = 30 * (r * (1 - r)) ^ 2" for r :: real
  by (simp add: eval_nat_numeral algebra_simps)

lemma slope_bound: "(r * (1 - r)) ^ 2 \<le> 1 / 16" if "0 \<le> r" "r \<le> 1" for r :: real
proof -
  have "0 \<le> r * (1 - r)" using that by simp
  moreover have "r * (1 - r) \<le> 1 / 4"
    using zero_le_power2[of "r - 1 / 2"] by (simp add: power2_eq_square algebra_simps)
  ultimately have "(r * (1 - r)) ^ 2 \<le> (1 / 4) ^ 2" by (rule power_mono[rotated])
  then show ?thesis by (simp add: power2_eq_square)
qed

lemma ramp_steps:
  assumes "0 \<le> a" and "a \<le> b" and "b \<le> 1"
  shows "0 \<le> ramp b - ramp a" and "ramp b - ramp a \<le> 15 / 8 * (b - a)"
proof -
  have "0 \<le> ramp b - ramp a \<and> ramp b - ramp a \<le> 15 / 8 * (b - a)"
  proof (cases "a = b")
    case False
    then have less: "a < b" using assms(2) by simp
    have "DERIV ramp x :> 30 * x ^ 4 - 60 * x ^ 3 + 30 * x ^ 2" for x
      unfolding ramp_def[abs_def] by (rule quintic_profile_derivatives(1))
    then obtain z where z: "a < z" "z < b"
      "ramp b - ramp a = (b - a) * (30 * z ^ 4 - 60 * z ^ 3 + 30 * z ^ 2)"
      using MVT2[OF less, of ramp "\<lambda>x. 30 * x ^ 4 - 60 * x ^ 3 + 30 * x ^ 2"] by blast
    define q where "q = 30 * (z * (1 - z)) ^ 2"
    have "0 \<le> q" "q \<le> 15 / 8"
      using slope_bound[of z] z(1,2) assms by (simp_all add: q_def)
    then have "0 \<le> (b - a) * q" using less by simp
    moreover have "(b - a) * q \<le> (b - a) * (15 / 8)"
      using less \<open>q \<le> 15 / 8\<close> by (intro mult_left_mono) simp_all
    ultimately show ?thesis unfolding z(3) ramp_slope q_def[symmetric] by (simp add: mult.commute)
  qed simp
  then show "0 \<le> ramp b - ramp a" "ramp b - ramp a \<le> 15 / 8 * (b - a)" by simp_all
qed

lemma ease_steps:
  assumes "a \<le> b"
  shows "0 \<le> ease b - ease a" and "ease b - ease a \<le> 15 / 8 * (b - a)"
proof -
  define c d where "c = min 1 (max 0 a)" and "d = min 1 (max 0 b)"
  have cd: "0 \<le> c" "c \<le> d" "d \<le> 1" "d - c \<le> b - a" using assms by (auto simp: c_def d_def)
  have e: "ease a = ramp c" "ease b = ramp d" by (simp_all only: ease_ramp c_def d_def)
  show "0 \<le> ease b - ease a" unfolding e by (rule ramp_steps(1)[OF cd(1-3)])
  have "ramp d - ramp c \<le> 15 / 8 * (d - c)" by (rule ramp_steps(2)[OF cd(1-3)])
  also have "\<dots> \<le> 15 / 8 * (b - a)" using cd(4) by simp
  finally show "ease b - ease a \<le> 15 / 8 * (b - a)" unfolding e .
qed

lemma ease_bounds: "0 \<le> ease r" "ease r \<le> 1"
proof -
  have c: "min 1 (max 0 (min r 0)) = (0 :: real)" "min 1 (max 0 (max r 1)) = (1 :: real)" by auto
  have e: "ease (min r 0) = 0" "ease (max r 1) = 1" unfolding ease_ramp c by (simp_all add: ramp_def)
  show "0 \<le> ease r" using ease_steps(1)[of "min r 0" r] unfolding e by simp
  show "ease r \<le> 1" using ease_steps(1)[of r "max r 1"] unfolding e by simp
qed

section \<open>What a plan is enough for\<close>

lemma ease_change:
  assumes "0 < dur" and "t \<le> t'"
  shows "\<bar>ease (t / dur) - ease (t' / dur)\<bar> \<le> 15 / 8 * ((t' - t) / dur)"
  using ease_steps[of "t / dur" "t' / dur"] assms by (simp add: divide_right_mono diff_divide_distrib)

lemma plan_pacing_Inr:
  assumes "plan_pacing n climb spread revolutions orbit_reach l = Inr p"
  shows "pa_takeoff p = takeoff_time l climb" "pa_blend p = blend_time l spread"
    "pa_choreo p = choreo_time l spread revolutions orbit_reach" "pa_land p = land_time l climb spread"
    "0 \<le> climb" "0 \<le> spread"
  using assms by (auto simp: plan_pacing_def split: if_splits option.splits)

text \<open>At the cruise speed the planned distances fit into the planned times; the peak of the ramp, 15/8 of the mean,
  then stays at three quarters of the speed limit.\<close>

lemma cruise_peak: "15 / 8 * cruise l = 3 / 4 * max_velocity_ms l"
  by (simp add: cruise_def CRUISE_FRACTION_def)

lemma planned_times:
  assumes "limits_check l = Inr l'" and "plan_pacing n climb spread revolutions orbit_reach l = Inr p"
  shows "0 < cruise l" "climb \<le> cruise l * pa_takeoff p" "spread \<le> cruise l * pa_blend p"
    "spread \<le> cruise l * (LAND_RETURN_FRACTION * pa_land p)"
    "climb \<le> cruise l * ((1 - LAND_RETURN_FRACTION) * pa_land p)"
    "BASE_TAKEOFF_S \<le> pa_takeoff p" "BASE_BLEND_S \<le> pa_blend p" "BASE_CHOREO_S \<le> pa_choreo p"
    "BASE_LAND_S \<le> pa_land p" "pa_blend p < pa_choreo p"
proof -
  have "0 < max_velocity_ms l" using limits_check_Inr(5)[OF assms(1)] by (auto simp: limit_fields_def)
  then show c: "0 < cruise l" by (simp add: cruise_def CRUISE_FRACTION_def)
  note pa = plan_pacing_Inr[OF assms(2)]
  have p: "climb / cruise l \<le> pa_takeoff p" "spread / cruise l \<le> pa_blend p"
    "spread / cruise l / LAND_RETURN_FRACTION \<le> pa_land p" "climb / cruise l / (1 - LAND_RETURN_FRACTION) \<le> pa_land p"
    "pa_blend p + (BASE_CHOREO_S - BASE_BLEND_S) \<le> pa_choreo p"
    unfolding pa takeoff_time_def land_time_def choreo_time_def
    by (auto simp: blend_time_def le_max_iff_disj)
  show "climb \<le> cruise l * pa_takeoff p" "spread \<le> cruise l * pa_blend p"
    "spread \<le> cruise l * (LAND_RETURN_FRACTION * pa_land p)" "climb \<le> cruise l * ((1 - LAND_RETURN_FRACTION) * pa_land p)"
    using p c by (simp_all add: LAND_RETURN_FRACTION_def field_simps)
  show "BASE_TAKEOFF_S \<le> pa_takeoff p" "BASE_BLEND_S \<le> pa_blend p" "BASE_LAND_S \<le> pa_land p" "BASE_CHOREO_S \<le> pa_choreo p"
    unfolding pa takeoff_time_def land_time_def choreo_time_def by (auto simp: blend_time_def)
  show "pa_blend p < pa_choreo p" using p(5) by (simp add: BASE_CHOREO_S_def BASE_BLEND_S_def)
qed

text \<open>What the window of a ring does not account for: the speed left to the orbit is planned as if the
  blend peaked at 1.5 times its mean speed, but the ramp peaks at 15/8 of it. With a spread of a hundred
  metres the two together exceed the speed limit.\<close>

lemma ramp_peak: "(ramp has_real_derivative 15 / 8) (at (1 / 2))"
  using quintic_profile_derivatives(1)[of "1 / 2"] by (simp add: ramp_def[abs_def] eval_nat_numeral)

lemma orbit_budget_overshoots:
  assumes "plan_pacing 100 0 100 1 5 DEFAULT_LIMITS = Inr p"
  shows "15 / 8 * (100 / pa_blend p) + orbit_budget DEFAULT_LIMITS 100 (pa_blend p) > max_velocity_ms DEFAULT_LIMITS"
proof -
  have b: "pa_blend p = 125 / 3"
    unfolding plan_pacing_Inr(2)[OF assms]
    by (simp add: blend_time_def cruise_def BASE_BLEND_S_def DEFAULT_LIMITS_def CRUISE_FRACTION_def)
  show ?thesis unfolding b by (simp add: orbit_budget_def DEFAULT_LIMITS_def MAX_ORBIT_SPEED_MS_def)
qed

end
