(* ===== verification/Outlines.thy ===== *)
theory Outlines
  imports Abort_Clearance Pacing
begin

text \<open>
  Flat outline formations: the ring and the heart of \<^verbatim>\<open>packages/tara-studio/tara_studio/generator.py\<close>
  (\<^verbatim>\<open>_nested_outlines\<close>, \<^verbatim>\<open>_outline_slots\<close>) and the contour sampler of \<^verbatim>\<open>voxelizer.py\<close> they use. The
  loop that nests smaller and smaller copies of an outline is a \<^theory_text>\<open>partial_function\<close>: that it
  returns is a theorem. \<^verbatim>\<open>numpy.interp\<close> and the assignment solver are parameters; \<^verbatim>\<open>numpy.allclose\<close> is
  written out.
\<close>

type_synonym point2 = "real \<times> real"
type_synonym contour = "point2 list"

section \<open>Contours\<close>

definition norm2 :: "point2 \<Rightarrow> real" where "norm2 p = (case p of (x, y) \<Rightarrow> sqrt (x\<^sup>2 + y\<^sup>2))"
definition minus2 :: "point2 \<Rightarrow> point2 \<Rightarrow> point2" where
  "minus2 p q = (case (p, q) of ((x, y), (x', y')) \<Rightarrow> (x - x', y - y'))"
definition dist2 :: "point2 \<Rightarrow> point2 \<Rightarrow> real" where "dist2 p q = norm2 (minus2 p q)"

definition close_to :: "real \<Rightarrow> real \<Rightarrow> bool" where
  "close_to a b \<longleftrightarrow> \<bar>a - b\<bar> \<le> 1 / 10 ^ 8 + 1 / 10 ^ 5 * \<bar>b\<bar>"

definition allclose :: "point2 \<Rightarrow> point2 \<Rightarrow> bool" where
  "allclose p q \<longleftrightarrow> close_to (fst p) (fst q) \<and> close_to (snd p) (snd q)"

definition close_contour :: "contour \<Rightarrow> contour" where
  "close_contour c = (if allclose (hd c) (last c) then c else c @ [hd c])"

definition segments :: "contour \<Rightarrow> real list" where
  "segments c = map (\<lambda>(p, q). dist2 q p) (zip c (tl c))"

definition contour_length :: "contour \<Rightarrow> real" where
  "contour_length c = sum_list (segments (close_contour c))"

definition cumulative :: "real list \<Rightarrow> real list" where
  "cumulative xs = map (\<lambda>k. sum_list (take k xs)) [0..<length xs + 1]"

definition resample_closed_contour :: "interpolator \<Rightarrow> contour \<Rightarrow> int \<Rightarrow> contour" where
  "resample_closed_contour interp c n =
     (if n \<le> 0 then []
      else if length c < 2 then concat (replicate (nat n) (take 1 c))
      else
        let pts = close_contour c; cum = cumulative (segments pts); total = last cum in
        if total \<le> 1 / 10 ^ 12 then concat (replicate (nat n) (take 1 pts))
        else map (\<lambda>k. let t = of_int k * (total / of_int n) in
            (interp cum (map fst pts) t, interp cum (map snd pts) t)) [0..n - 1])"

section \<open>Sharing points out between contours\<close>

definition bump_first :: "nat \<Rightarrow> nat list \<Rightarrow> int list \<Rightarrow> int list" where
  "bump_first k order floors =
     foldl (\<lambda>fs j. fs[order ! (j mod length fs) := fs ! (order ! (j mod length fs)) + 1]) floors [0..<k]"

definition allocate_by_length :: "real list \<Rightarrow> int \<Rightarrow> int list" where
  "allocate_by_length lengths n =
     (let parts = length lengths; total = sum_list lengths in
      if parts = 0 then []
      else if total \<le> 1 / 10 ^ 12
      then map (\<lambda>i. n div int parts + (if int i < n mod int parts then 1 else 0)) [0..<parts]
      else
        let nonempty = filter (\<lambda>i. lengths ! i > 1 / 10 ^ 12) [0..<parts];
            reserve = n \<ge> int (length nonempty);
            counts = map (\<lambda>i. if reserve \<and> i \<in> set nonempty then 1 else 0) [0..<parts];
            remaining = n - (if reserve then int (length nonempty) else 0);
            exact = map (\<lambda>l. l / total * of_int remaining) lengths;
            floors = map floor exact;
            leftover = remaining - sum_list floors;
            order = sort_key (\<lambda>i. - (exact ! i - of_int (floors ! i))) [0..<parts];
            counts1 = (if remaining > 0
              then map (\<lambda>(c, f). c + f) (zip counts (bump_first (nat leftover) order floors)) else counts)
        in if sum_list counts1 \<noteq> n
           then let longest = take (nat n) (sort_key (\<lambda>i. - (lengths ! i)) [0..<parts]) in
             map (\<lambda>i. if i \<in> set longest then 1 else 0) [0..<parts]
           else counts1)"

datatype sample_error = No_Contour | No_Point

definition sample_contours :: "interpolator \<Rightarrow> contour list \<Rightarrow> int \<Rightarrow> sample_error + contour" where
  "sample_contours interp contours n =
     (let usable = filter (\<lambda>c. 2 \<le> length c) contours in
      if usable = [] then Inl No_Contour
      else
        let counts = allocate_by_length (map contour_length usable) n;
            chunks = List.map_filter (\<lambda>(c, k). if k > 0 then Some (resample_closed_contour interp c k) else None)
              (zip usable counts)
        in if chunks = [] then Inl No_Point else Inr (concat chunks))"

section \<open>Nested outlines\<close>

definition FORMATION_MAX_RADIUS :: real where "FORMATION_MAX_RADIUS = geofence_radius_m DEFAULT_LIMITS - 2"
definition OUTLINE_SPACING :: real where "OUTLINE_SPACING = 12 / 10 * design_separation_m DEFAULT_LIMITS"

definition circle_radius :: "int \<Rightarrow> real" where
  "circle_radius n =
     (if n \<le> 1 then 4
      else max 4 (12 / 10 * (design_separation_m DEFAULT_LIMITS / 2 / sin (pi / of_int n))))"

definition min_gap :: "contour \<Rightarrow> contour \<Rightarrow> real" where
  "min_gap a b = sqrt (Min (set (map (\<lambda>(p, q). (norm2 (minus2 p q))\<^sup>2) (List.product a b))))"

text \<open>The largest scale a bisection of forty halvings finds to be fine.\<close>

primrec bisect_scale :: "nat \<Rightarrow> (real \<Rightarrow> bool) \<Rightarrow> real \<Rightarrow> real \<Rightarrow> real" where
  "bisect_scale 0 fine lo hi = lo"
| "bisect_scale (Suc k) fine lo hi =
     (let mid = (lo + hi) / 2 in
      if fine mid then bisect_scale k fine mid hi else bisect_scale k fine lo mid)"

definition next_scale :: "(real \<Rightarrow> contour) \<Rightarrow> contour \<Rightarrow> real \<Rightarrow> real" where
  "next_scale outline enclosing scale = bisect_scale 40 (\<lambda>s. min_gap enclosing (outline s) \<ge> OUTLINE_SPACING) 0 scale"

partial_function (option) nest ::
  "(real \<Rightarrow> contour) \<Rightarrow> real \<Rightarrow> int \<Rightarrow> real \<Rightarrow> contour list \<Rightarrow> real \<Rightarrow> contour list option" where
  "nest outline reach n scale outlines len =
     (if len \<ge> 11 / 10 * of_int n * OUTLINE_SPACING then Some outlines
      else
        let lo = next_scale outline (last outlines) scale in
        if lo * reach < OUTLINE_SPACING then Some outlines
        else nest outline reach n lo (outlines @ [outline lo]) (len + contour_length (outline lo)))"

definition nested_outlines :: "(real \<Rightarrow> contour) \<Rightarrow> real \<Rightarrow> real \<Rightarrow> int \<Rightarrow> contour list option" where
  "nested_outlines outline reach natural_scale n =
     (if natural_scale * reach \<le> FORMATION_MAX_RADIUS then Some [outline natural_scale]
      else
        let scale = FORMATION_MAX_RADIUS / reach in
        nest outline reach n scale [outline scale] (contour_length (outline scale)))"

definition ring :: "real \<Rightarrow> contour" where
  "ring scale = map (\<lambda>k. let theta = 2 * pi * of_nat k / 720 in (scale * cos theta, scale * sin theta)) [0..<720]"

section \<open>The heart\<close>

definition heart_xy :: "real \<Rightarrow> real \<Rightarrow> point2" where
  "heart_xy theta scale =
     (16 * sin theta ^ 3 * scale,
      (13 * cos theta - 5 * cos (2 * theta) - 2 * cos (3 * theta) - cos (4 * theta)) * scale)"

definition heart_thetas :: "real list" where
  "heart_thetas = map (\<lambda>i. 2 * pi * of_nat i / 4000) [0..<4001]"

definition heart_arcs :: "real list" where
  "heart_arcs = cumulative (segments (map (\<lambda>t. heart_xy t 1) heart_thetas))"

definition heart_theta_at_arc_fraction :: "real \<Rightarrow> real" where
  "heart_theta_at_arc_fraction fraction =
     (let target = fraction * last heart_arcs; idx = bisect_left heart_arcs target 0 (length heart_arcs) in
      if idx = 0 then heart_thetas ! 0
      else if idx \<ge> length heart_arcs then last heart_thetas
      else
        let c0 = heart_arcs ! (idx - 1); c1 = heart_arcs ! idx;
            t0 = heart_thetas ! (idx - 1); t1 = heart_thetas ! idx;
            frac = (if c1 = c0 then 0 else (target - c0) / (c1 - c0))
        in t0 + frac * (t1 - t0))"

definition heart_scale :: "int \<Rightarrow> real" where "heart_scale n = max (25 / 100) (6 / 100 * of_int n)"

definition HEART_REACH :: real where
  "HEART_REACH = Max (set (map (\<lambda>i. norm2 (heart_xy (2 * pi * of_nat i / 4000) 1)) [0..<4000]))"

definition heart_outline :: "real \<Rightarrow> contour" where
  "heart_outline scale = map (\<lambda>i. heart_xy (heart_theta_at_arc_fraction (of_nat i / 720)) scale) [0..<720]"

section \<open>Slots\<close>

datatype outline_shape = Circle | Heart

definition shape_outlines :: "outline_shape \<Rightarrow> int \<Rightarrow> contour list option" where
  "shape_outlines sh n =
     (case sh of
        Circle \<Rightarrow> nested_outlines ring 1 (circle_radius n) n
      | Heart \<Rightarrow> nested_outlines heart_outline HEART_REACH (heart_scale n) n)"

text \<open>The places of the drones; \<^const>\<open>None\<close> where the code raises (or the loop did not return).\<close>

definition outline_slots ::
  "interpolator \<Rightarrow> (real list list \<Rightarrow> (nat \<times> nat) list) \<Rightarrow> outline_shape \<Rightarrow> int \<Rightarrow> point2 list option" where
  "outline_slots interp solve sh n =
     (case shape_outlines sh n of None \<Rightarrow> None
      | Some outlines \<Rightarrow>
          (case (sample_contours interp outlines n, launch_grid MAX_FLEET_SIZE DEFAULT_LIMITS None) of
             (Inr points, Inr pads) \<Rightarrow>
               (case optimal_assignment solve (map (\<lambda>(x, y). (x, y, 0)) (take (nat n) pads))
                   (map (\<lambda>(x, y). (x, y, 0)) points) of
                  Inl e \<Rightarrow> None
                | Inr perm \<Rightarrow> Some (map (\<lambda>k. points ! k) perm))
           | _ \<Rightarrow> None))"

section \<open>Lemmas: the nesting loop\<close>

definition scaled :: "real \<Rightarrow> point2 \<Rightarrow> point2" where "scaled s p = (case p of (x, y) \<Rightarrow> (s * x, s * y))"

text \<open>An outline whose copies are the scaled copies of one contour.\<close>

definition homothetic :: "(real \<Rightarrow> contour) \<Rightarrow> contour \<Rightarrow> bool" where
  "homothetic outline base \<longleftrightarrow> (\<forall>s. outline s = map (scaled s) base) \<and> base \<noteq> []"

definition spaced :: "contour list \<Rightarrow> bool" where
  "spaced outlines \<longleftrightarrow> successively (\<lambda>a b. OUTLINE_SPACING \<le> min_gap a b) outlines"

lemma OUTLINE_SPACING_pos: "0 < OUTLINE_SPACING"
  by (simp add: OUTLINE_SPACING_def DEFAULT_LIMITS_def)

lemma norm2_scaled: "norm2 (scaled s v) = \<bar>s\<bar> * norm2 v"
  by (cases v) (simp add: norm2_def scaled_def power_mult_distrib real_sqrt_mult flip: distrib_left)

lemma minus2_scaled: "minus2 (scaled s v) (scaled t v) = scaled (s - t) v"
  by (cases v) (simp add: minus2_def scaled_def left_diff_distrib)

lemma norm2_nonneg [simp]: "0 \<le> norm2 v"
  by (cases v) (simp add: norm2_def)

lemma min_gap_le:
  assumes "p \<in> set a" and "q \<in> set b"
  shows "min_gap a b \<le> norm2 (minus2 p q)"
proof -
  have "Min (set (map (\<lambda>(p, q). (norm2 (minus2 p q))\<^sup>2) (List.product a b))) \<le> (norm2 (minus2 p q))\<^sup>2"
    using assms by (intro Min_le) (auto intro: rev_image_eqI)
  then have "min_gap a b \<le> sqrt ((norm2 (minus2 p q))\<^sup>2)" unfolding min_gap_def by (rule real_sqrt_le_mono)
  then show ?thesis by simp
qed

lemma bisect_scale_range: "lo \<le> hi \<Longrightarrow> lo \<le> bisect_scale k fine lo hi \<and> bisect_scale k fine lo hi \<le> hi"
proof (induction k arbitrary: lo hi)
  case (Suc k)
  define mid where "mid = (lo + hi) / 2"
  have m: "lo \<le> mid" "mid \<le> hi" using Suc.prems by (simp_all add: mid_def)
  show ?case
    using Suc.IH[OF m(1)] Suc.IH[OF m(2)] m by (auto simp: mid_def[symmetric] Let_def)
qed simp

lemma bisect_scale_fine: "bisect_scale k fine lo hi = lo \<or> fine (bisect_scale k fine lo hi)"
proof (induction k arbitrary: lo hi)
  case (Suc k)
  define mid where "mid = (lo + hi) / 2"
  show ?case using Suc.IH[of mid hi] Suc.IH[of lo mid] by (auto simp: mid_def[symmetric] Let_def)
qed simp

text \<open>Every further copy is smaller by at least the spacing, measured at any vertex.\<close>

lemma next_scale_step:
  assumes "homothetic outline base" and "v \<in> set base" and "0 \<le> scale"
    and "next_scale outline (outline scale) scale \<noteq> 0"
  defines "lo \<equiv> next_scale outline (outline scale) scale"
  shows "0 \<le> lo" and "lo \<le> scale" and "OUTLINE_SPACING \<le> min_gap (outline scale) (outline lo)"
    and "lo * norm2 v \<le> scale * norm2 v - OUTLINE_SPACING"
proof -
  show "0 \<le> lo" "lo \<le> scale"
    unfolding lo_def next_scale_def using bisect_scale_range[OF assms(3)] by blast+
  show gap: "OUTLINE_SPACING \<le> min_gap (outline scale) (outline lo)"
    using assms(4) bisect_scale_fine[of 40 "\<lambda>s. OUTLINE_SPACING \<le> min_gap (outline scale) (outline s)" 0 scale]
    unfolding lo_def next_scale_def by simp
  have "scaled scale v \<in> set (outline scale)" "scaled lo v \<in> set (outline lo)"
    using assms(1,2) by (simp_all add: homothetic_def)
  then have "min_gap (outline scale) (outline lo) \<le> norm2 (minus2 (scaled scale v) (scaled lo v))" by (rule min_gap_le)
  also have "\<dots> = (scale - lo) * norm2 v" using \<open>lo \<le> scale\<close> by (simp add: minus2_scaled norm2_scaled)
  finally show "lo * norm2 v \<le> scale * norm2 v - OUTLINE_SPACING" using gap by (simp add: left_diff_distrib)
qed

lemma nest_returns:
  assumes "homothetic outline base" and "v \<in> set base" and "0 < reach"
  shows "0 \<le> scale \<Longrightarrow> scale * norm2 v < of_nat k * OUTLINE_SPACING \<Longrightarrow> outlines \<noteq> [] \<Longrightarrow>
    last outlines = outline scale \<Longrightarrow> spaced outlines \<Longrightarrow>
    \<exists>inner. nest outline reach n scale outlines len = Some (outlines @ inner) \<and> length inner < k \<and>
      spaced (outlines @ inner) \<and> (\<forall>c \<in> set inner. \<exists>s. 0 \<le> s \<and> s \<le> scale \<and> c = outline s)"
proof (induction k arbitrary: scale outlines len)
  case 0
  have "0 \<le> scale * norm2 v" using 0(1) by simp
  then show ?case using 0(2) by simp
next
  case (Suc k)
  let ?lo = "next_scale outline (last outlines) scale"
  show ?case
  proof (cases "len \<ge> 11 / 10 * of_int n * OUTLINE_SPACING \<or> ?lo * reach < OUTLINE_SPACING")
    case True
    then have "nest outline reach n scale outlines len = Some (outlines @ [])"
      by (subst nest.simps) (auto simp: Let_def)
    then show ?thesis using Suc.prems(5) by (intro exI[of _ "[]"]) auto
  next
    case False
    then have "next_scale outline (outline scale) scale \<noteq> 0"
      using OUTLINE_SPACING_pos Suc.prems(4) by auto
    note step = next_scale_step[OF assms(1,2) Suc.prems(1) this, folded Suc.prems(4)]
    have "?lo * norm2 v < of_nat k * OUTLINE_SPACING"
      using step(4) Suc.prems(2) by (simp add: distrib_right)
    moreover have "spaced (outlines @ [outline ?lo])"
      using Suc.prems(3-5) step(3) by (simp add: spaced_def successively_append_iff)
    ultimately obtain inner where inner:
      "nest outline reach n ?lo (outlines @ [outline ?lo]) (len + contour_length (outline ?lo)) =
        Some ((outlines @ [outline ?lo]) @ inner)"
      "length inner < k" "spaced ((outlines @ [outline ?lo]) @ inner)"
      "\<forall>c \<in> set inner. \<exists>s. 0 \<le> s \<and> s \<le> ?lo \<and> c = outline s"
      using Suc.IH[of ?lo "outlines @ [outline ?lo]" "len + contour_length (outline ?lo)"] step(1) by auto
    have "nest outline reach n scale outlines len = Some (outlines @ outline ?lo # inner)"
      using False inner(1) by (subst nest.simps) (simp add: Let_def not_le not_less)
    then show ?thesis
      using inner(2-4) step(1,2) by (intro exI[of _ "outline ?lo # inner"]) force
  qed
qed

lemma nested_outlines_return:
  assumes "homothetic outline base" and "0 < reach" and "0 \<le> natural_scale"
  shows "\<exists>outlines. nested_outlines outline reach natural_scale n = Some outlines \<and> outlines \<noteq> [] \<and>
    spaced outlines \<and> (\<forall>c \<in> set outlines. \<exists>s. 0 \<le> s \<and> s * reach \<le> FORMATION_MAX_RADIUS \<and> c = outline s)"
proof (cases "natural_scale * reach \<le> FORMATION_MAX_RADIUS")
  case True
  then show ?thesis using assms(3) by (auto simp: nested_outlines_def spaced_def)
next
  case False
  define scale where "scale = FORMATION_MAX_RADIUS / reach"
  have "0 \<le> FORMATION_MAX_RADIUS" by (simp add: FORMATION_MAX_RADIUS_def DEFAULT_LIMITS_def)
  then have scale: "0 \<le> scale" "scale * reach = FORMATION_MAX_RADIUS" using assms(2) by (simp_all add: scale_def)
  obtain v where v: "v \<in> set base" using assms(1) by (cases base) (auto simp: homothetic_def)
  obtain k :: nat where "scale * norm2 v / OUTLINE_SPACING < of_nat k" using reals_Archimedean2 by blast
  then have "scale * norm2 v < of_nat k * OUTLINE_SPACING"
    using OUTLINE_SPACING_pos by (simp add: pos_divide_less_eq)
  from nest_returns[OF assms(1) v assms(2) scale(1) this, of "[outline scale]" n "contour_length (outline scale)"]
  obtain inner where inner: "nest outline reach n scale [outline scale] (contour_length (outline scale)) = Some (outline scale # inner)"
    "spaced (outline scale # inner)" "\<forall>c \<in> set inner. \<exists>s. 0 \<le> s \<and> s \<le> scale \<and> c = outline s"
    by (auto simp: spaced_def)
  have small: "s * reach \<le> FORMATION_MAX_RADIUS" if "s \<le> scale" for s
    using mult_right_mono[OF that, of reach] assms(2) scale(2) by simp
  have "nested_outlines outline reach natural_scale n = Some (outline scale # inner)"
    using False inner(1) by (simp add: nested_outlines_def scale_def Let_def)
  moreover have "\<forall>c \<in> set (outline scale # inner). \<exists>s. 0 \<le> s \<and> s * reach \<le> FORMATION_MAX_RADIUS \<and> c = outline s"
    using inner(3) small scale by auto
  ultimately show ?thesis using inner(2) by blast
qed

section \<open>The two shapes\<close>

definition shape_outline :: "outline_shape \<Rightarrow> real \<Rightarrow> contour" where
  "shape_outline sh = (case sh of Circle \<Rightarrow> ring | Heart \<Rightarrow> heart_outline)"

definition shape_reach :: "outline_shape \<Rightarrow> real" where
  "shape_reach sh = (case sh of Circle \<Rightarrow> 1 | Heart \<Rightarrow> HEART_REACH)"

lemma ring_homothetic: "homothetic ring (ring 1)"
proof -
  have "[0 ..< 720 :: nat] \<noteq> []" by (simp only: upt_eq_Nil_conv) simp
  then show ?thesis by (simp add: homothetic_def ring_def scaled_def Let_def del: upt_rec_numeral)
qed

lemma heart_homothetic: "homothetic heart_outline (heart_outline 1)"
proof -
  have "[0 ..< 720 :: nat] \<noteq> []" by (simp only: upt_eq_Nil_conv) simp
  then show ?thesis
    by (simp add: homothetic_def heart_outline_def scaled_def heart_xy_def mult.commute del: upt_rec_numeral)
qed

lemma HEART_REACH_pos: "0 < HEART_REACH"
proof -
  let ?f = "\<lambda>i :: nat. norm2 (heart_xy (2 * pi * of_nat i / 4000) 1)"
  have mem: "?f 1000 \<in> set (map ?f [0..<4000])" unfolding set_map set_upt by (rule imageI) simp
  have "?f 1000 \<le> HEART_REACH" unfolding HEART_REACH_def using mem by (intro Max_ge) (simp_all only: finite_set)
  moreover have "heart_xy (pi / 2) 1 = (16, - 5 * cos (2 * (pi / 2)) - 2 * cos (3 * (pi / 2)) - cos (4 * (pi / 2)))"
    by (simp add: heart_xy_def)
  then have "0 < norm2 (heart_xy (pi / 2) 1)" by (simp add: norm2_def add_pos_nonneg)
  moreover have "2 * pi * of_nat 1000 / 4000 = pi / 2" by simp
  ultimately show ?thesis by (simp only:)
qed

lemma circle_radius_nonneg: "0 \<le> circle_radius n" and heart_scale_nonneg: "0 \<le> heart_scale n"
  by (simp_all add: circle_radius_def heart_scale_def le_max_iff_disj)

text \<open>C28. The nesting of outlines always ends: for either shape and any fleet size whatever, the loop
  that adds smaller copies until the fleet fits returns, with at least one outline, each at least the
  outline spacing clear of the one around it, and none scaled past the largest radius a formation may have.\<close>

theorem outlines_always_return:
  "\<exists>outlines. shape_outlines sh n = Some outlines \<and> outlines \<noteq> [] \<and> spaced outlines \<and>
    (\<forall>c \<in> set outlines. \<exists>s. 0 \<le> s \<and> s * shape_reach sh \<le> FORMATION_MAX_RADIUS \<and> c = shape_outline sh s)"
proof (cases sh)
  case Circle
  then show ?thesis
    using nested_outlines_return[OF ring_homothetic _ circle_radius_nonneg, of 1 n n]
    by (simp add: shape_outlines_def shape_reach_def shape_outline_def)
next
  case Heart
  then show ?thesis
    using nested_outlines_return[OF heart_homothetic HEART_REACH_pos heart_scale_nonneg, of n n]
    by (simp add: shape_outlines_def shape_reach_def shape_outline_def)
qed

theorem outlines_always_return_witness:
  "\<exists>outlines. shape_outlines Circle 1000 = Some outlines \<and> outlines \<noteq> [] \<and> spaced outlines"
  using outlines_always_return[of Circle 1000] by blast

section \<open>Lemmas: sharing out points\<close>

lemma sum_list_upd: "k < length xs \<Longrightarrow> sum_list (xs[k := x]) = sum_list xs - xs ! k + (x :: int)"
proof (induction xs arbitrary: k)
  case (Cons a xs)
  then show ?case by (cases k) auto
qed simp

lemma bump_first_sum:
  assumes "floors \<noteq> []" and "length order = length floors" and "set order \<subseteq> {..<length floors}"
  shows "length (bump_first k order floors) = length floors \<and>
    sum_list (bump_first k order floors) = sum_list floors + int k \<and>
    (\<forall>i < length floors. floors ! i \<le> bump_first k order floors ! i)"
proof (induction k)
  case (Suc k)
  let ?fs = "bump_first k order floors"
  let ?i = "order ! (k mod length ?fs)"
  have "k mod length ?fs < length order" using Suc assms(1,2) by simp
  then have i: "?i < length ?fs" using assms(3) Suc by (metis lessThan_iff nth_mem subsetD)
  have "bump_first (Suc k) order floors = ?fs[?i := ?fs ! ?i + 1]" by (simp add: bump_first_def)
  then show ?case using Suc i sum_list_upd[OF i, of "?fs ! ?i + 1"] by (auto simp: nth_list_update)
qed (simp add: bump_first_def)

lemma floor_sum:
  assumes "\<And>x. x \<in> set xs \<Longrightarrow> 0 \<le> x"
  shows "of_int (sum_list (map floor xs)) \<le> (sum_list xs :: real)" and "0 \<le> sum_list (map floor xs)"
    and "list_all (\<lambda>k. 0 \<le> k) (map floor xs)"
  using assms by (induction xs) (auto intro: add_mono)

lemma sum_list_share: "sum_list (map (\<lambda>l. l / s * r) xs) = sum_list xs / s * (r :: real)"
  by (induction xs) (simp_all add: add_divide_distrib distrib_right)

lemma sum_list_zip_plus:
  "length xs = length ys \<Longrightarrow> sum_list (map (\<lambda>(c, f). c + f) (zip xs ys)) = sum_list xs + sum_list (ys :: int list)"
  by (induction xs ys rule: list_induct2) auto

lemma sum_list_indicator: "sum_list (map (\<lambda>i. if P i then 1 else 0) xs) = int (length (filter P xs))"
  by (induction xs) auto

lemma even_split_sum: "sum_list (map (\<lambda>i. q + (if int i < r then 1 else 0)) [0..<p]) = int p * q + int (min p (nat r))"
  by (induction p) (auto simp: distrib_right min_def)

text \<open>All points are shared out, no contour gets a negative number, and none that has a length is left
  without a point if there are enough.\<close>

lemma allocate_by_length_sum:
  assumes "0 \<le> n" and "lengths \<noteq> []" and "\<forall>l \<in> set lengths. 0 \<le> l"
  shows "length (allocate_by_length lengths n) = length lengths \<and> sum_list (allocate_by_length lengths n) = n \<and>
    (\<forall>c \<in> set (allocate_by_length lengths n). 0 \<le> c)"
proof (cases "sum_list lengths \<le> 1 / 10 ^ 12")
  case True
  have p: "0 < int (length lengths)" using assms(2) by simp
  have "n mod int (length lengths) < int (length lengths)" "0 \<le> n mod int (length lengths)" using p by simp_all
  then have "nat (n mod int (length lengths)) < length lengths" by linarith
  then have "int (min (length lengths) (nat (n mod int (length lengths)))) = n mod int (length lengths)"
    using p by (simp add: min_def)
  then show ?thesis
    using True assms(1,2) p by (simp add: allocate_by_length_def Let_def even_split_sum pos_imp_zdiv_nonneg_iff)
next
  case False
  define whole where "whole = sum_list lengths"
  define nonempty where "nonempty = filter (\<lambda>i. lengths ! i > 1 / 10 ^ 12) [0..<length lengths]"
  define reserve where "reserve = (n \<ge> int (length nonempty))"
  define counts where "counts = map (\<lambda>i. if reserve \<and> i \<in> set nonempty then 1 else 0 :: int) [0..<length lengths]"
  define remaining where "remaining = n - (if reserve then int (length nonempty) else 0)"
  define exact where "exact = map (\<lambda>l. l / whole * of_int remaining) lengths"
  define floors where "floors = map floor exact"
  define leftover where "leftover = remaining - sum_list floors"
  define order where "order = sort_key (\<lambda>i. - (exact ! i - of_int (floors ! i))) [0..<length lengths]"
  define bumped where "bumped = bump_first (nat leftover) order floors"
  define counts1 where "counts1 = (if remaining > 0 then map (\<lambda>(c, f). c + f) (zip counts bumped) else counts)"
  have whole: "0 < whole" using False by (simp add: whole_def)
  have rem: "0 \<le> remaining" using assms(1) by (simp add: remaining_def reserve_def)
  have ex: "0 \<le> x" if "x \<in> set exact" for x
    using that assms(3) whole rem by (auto simp: exact_def)
  have "sum_list exact = of_int remaining"
    unfolding exact_def sum_list_share whole_def[symmetric] using whole by simp
  then have left: "0 \<le> leftover" using floor_sum(1)[of exact, OF ex] by (simp add: leftover_def floors_def)
  have fl: "floors \<noteq> []" "length order = length floors" "set order \<subseteq> {..<length floors}" "length floors = length lengths"
    using assms(2) by (auto simp: floors_def exact_def order_def)
  note b = bump_first_sum[OF fl(1-3), of "nat leftover", folded bumped_def]
  have "filter (\<lambda>i. i \<in> set nonempty) [0..<length lengths] = nonempty"
    by (auto simp: nonempty_def intro!: filter_cong)
  then have "sum_list counts = (if reserve then int (length nonempty) else 0)"
    using sum_list_indicator[of "\<lambda>i. i \<in> set nonempty" "[0..<length lengths]"] by (simp add: counts_def)
  moreover have "length counts = length bumped" using b fl(4) by (simp add: counts_def)
  ultimately have sum: "sum_list counts1 = n"
    using b left rem sum_list_zip_plus[of counts bumped]
    by (auto simp: counts1_def remaining_def leftover_def)
  have "allocate_by_length lengths n = (if sum_list counts1 \<noteq> n
      then map (\<lambda>i. if i \<in> set (take (nat n) (sort_key (\<lambda>i. - (lengths ! i)) [0..<length lengths])) then 1 else 0) [0..<length lengths]
      else counts1)"
    using False assms(2) unfolding counts1_def bumped_def order_def leftover_def floors_def exact_def remaining_def
      counts_def reserve_def nonempty_def whole_def by (simp add: allocate_by_length_def Let_def)
  then have "allocate_by_length lengths n = counts1" using sum by simp
  moreover have "length counts1 = length lengths" using b fl(4) by (simp add: counts1_def counts_def)
  moreover have "0 \<le> bumped ! i" if "i < length lengths" for i
  proof -
    have "0 \<le> floors ! i" using floor_sum(3)[of exact, OF ex] that fl(4) by (simp add: floors_def list_all_length)
    then show ?thesis using b that fl(4) by (metis order_trans)
  qed
  then have "\<forall>c \<in> set counts1. 0 \<le> c"
    using b fl(4) by (auto simp: counts1_def counts_def in_set_conv_nth split: if_splits)
  ultimately show ?thesis using sum by simp
qed

lemma resample_length: "c \<noteq> [] \<Longrightarrow> 0 \<le> k \<Longrightarrow> length (resample_closed_contour interp c k) = nat k"
proof -
  have rep: "length (concat (replicate m xs)) = m * length xs" for m and xs :: contour
    by (induction m) simp_all
  have "close_contour c \<noteq> []" if "c \<noteq> []" for c using that by (simp add: close_contour_def)
  then have one: "length (take 1 c) = 1" "length (take 1 (close_contour c)) = 1" if "c \<noteq> []" for c
    using that by (auto simp: Suc_le_eq)
  assume ne: "c \<noteq> []" and k: "0 \<le> k"
  show "length (resample_closed_contour interp c k) = nat k"
    using k unfolding resample_closed_contour_def Let_def
    by (simp only: rep one[OF ne] length_map length_upto if_distrib[of length] mult_1_right) simp
qed

lemma dist2_nonneg [simp]: "0 \<le> dist2 p q" by (simp add: dist2_def)

lemma contour_length_nonneg: "0 \<le> contour_length c"
  by (auto simp: contour_length_def segments_def intro!: sum_list_nonneg)

lemma chunks_length:
  "length cs = length counts \<Longrightarrow> \<forall>c \<in> set cs. c \<noteq> [] \<Longrightarrow> \<forall>k \<in> set counts. 0 \<le> k \<Longrightarrow>
   length (concat (List.map_filter (\<lambda>(c, k). if k > 0 then Some (resample_closed_contour interp c k) else None) (zip cs counts)))
     = nat (sum_list counts)"
proof (induction cs counts rule: list_induct2)
  case (Cons c cs k ks)
  have "0 \<le> sum_list ks" using Cons.prems(2) by (intro sum_list_nonneg) auto
  then show ?case using Cons by (auto simp: List.map_filter_simps resample_length nat_add_distrib)
qed (simp add: List.map_filter_simps)

lemma sampled_length:
  assumes "sample_contours interp contours n = Inr points" and "0 \<le> n"
  shows "length points = nat n"
proof -
  define usable where "usable = filter (\<lambda>c. 2 \<le> length c) contours"
  define counts where "counts = allocate_by_length (map contour_length usable) n"
  have ne: "usable \<noteq> []" and points: "points = concat (List.map_filter
      (\<lambda>(c, k). if k > 0 then Some (resample_closed_contour interp c k) else None) (zip usable counts))"
    using assms(1) by (auto simp: sample_contours_def Let_def usable_def[symmetric] counts_def[symmetric] split: if_splits)
  have "\<forall>c \<in> set usable. c \<noteq> []" by (auto simp: usable_def)
  moreover have "length counts = length usable" "sum_list counts = n" "\<forall>k \<in> set counts. 0 \<le> k"
    using allocate_by_length_sum[OF assms(2), of "map contour_length usable"] ne contour_length_nonneg
    by (auto simp: counts_def)
  ultimately show ?thesis unfolding points using chunks_length[of usable counts interp] by simp
qed

text \<open>Every drone gets a place: whatever contours are sampled for however many drones, the result has
  exactly one point per drone.\<close>

theorem sampling_is_exact:
  assumes "sample_contours interp contours n = Inr points" and "0 \<le> n"
  shows "length points = nat n"
  using assms by (rule sampled_length)

theorem sampling_is_exact_witness:
  "\<exists>points. sample_contours (\<lambda>xs ys t. 0) [[(0, 0), (3, 4)]] 7 = Inr points \<and> length points = 7"
proof -
  have "contour_length [(0, 0), (3, 4)] = 10"
    by (simp add: contour_length_def close_contour_def allclose_def close_to_def segments_def dist2_def norm2_def
        minus2_def power2_eq_square)
  then have "allocate_by_length [contour_length [(0, 0), (3, 4)]] 7 = [7]"
    by (simp add: allocate_by_length_def Let_def bump_first_def)
  then have "\<exists>points. sample_contours (\<lambda>xs ys t. 0) [[(0, 0), (3, 4)]] 7 = Inr points"
    by (simp add: sample_contours_def List.map_filter_simps)
  then show ?thesis using sampling_is_exact by fastforce
qed

text \<open>Every fleet the pads hold gets its places: one outline point per drone.\<close>

lemma outline_length:
  assumes "shape_outlines sh n = Some outlines"
  shows "outlines \<noteq> [] \<and> (\<forall>c \<in> set outlines. 2 \<le> length c)"
proof -
  have "\<exists>outlines'. shape_outlines sh n = Some outlines' \<and> outlines' \<noteq> [] \<and>
      (\<forall>c \<in> set outlines'. \<exists>s. c = shape_outline sh s)"
  proof (cases sh)
    case Circle
    then show ?thesis
      using nested_outlines_return[OF ring_homothetic _ circle_radius_nonneg, of 1 n n]
      by (fastforce simp: shape_outlines_def shape_outline_def)
  next
    case Heart
    then show ?thesis
      using nested_outlines_return[OF heart_homothetic HEART_REACH_pos heart_scale_nonneg, of n n]
      by (fastforce simp: shape_outlines_def shape_outline_def)
  qed
  then have o: "outlines \<noteq> []" "\<forall>c \<in> set outlines. \<exists>s. c = shape_outline sh s" using assms by auto
  have "length (shape_outline sh s) \<ge> 2" for s
    by (cases sh) (simp_all add: shape_outline_def ring_def heart_outline_def Let_def del: upt_rec_numeral)
  then show ?thesis using o by fastforce
qed

lemma sample_contours_Inr:
  assumes "contours \<noteq> []" and "\<forall>c \<in> set contours. 2 \<le> length c" and "1 \<le> n"
  shows "\<exists>points. sample_contours interp contours n = Inr points"
proof -
  define counts where "counts = allocate_by_length (map contour_length contours) n"
  have usable: "filter (\<lambda>c. 2 \<le> length c) contours = contours" using assms(2) by simp
  have counts: "length counts = length contours" "sum_list counts = n"
    using allocate_by_length_sum[of n "map contour_length contours"] assms contour_length_nonneg by (auto simp: counts_def)
  have "\<exists>k \<in> set counts. 0 < k"
  proof (rule ccontr)
    assume "\<not> ?thesis"
    then have "sum_list counts \<le> 0" by (intro sum_list_nonpos) (auto simp: not_less)
    then show False using counts(2) assms(3) by simp
  qed
  then obtain i where i: "i < length counts" "0 < counts ! i" by (auto simp: in_set_conv_nth)
  then have "(contours ! i, counts ! i) \<in> set (zip contours counts)" using counts(1) by (auto simp: set_zip)
  then have "List.map_filter (\<lambda>(c, k). if k > 0 then Some (resample_closed_contour interp c k) else None)
      (zip contours counts) \<noteq> []"
    using i(2) by (force simp: map_filter_Nil)
  then show ?thesis
    using assms(1) unfolding sample_contours_def usable Let_def counts_def[symmetric] by simp
qed

lemma outline_slots_returns:
  assumes "1 \<le> n" and "n \<le> MAX_FLEET_SIZE"
  shows "\<exists>slots. outline_slots interp solve sh n = Some slots \<and> length slots = nat n"
proof -
  obtain outlines where o: "shape_outlines sh n = Some outlines"
    using nested_outlines_return[OF ring_homothetic _ circle_radius_nonneg, of 1 n n]
      nested_outlines_return[OF heart_homothetic HEART_REACH_pos heart_scale_nonneg, of n n]
    by (cases sh) (auto simp: shape_outlines_def)
  obtain points where p: "sample_contours interp outlines n = Inr points"
    using sample_contours_Inr outline_length[OF o] assms(1) by blast
  then have len: "length points = nat n" using sampled_length assms(1) by fastforce
  obtain pads where pads: "launch_grid MAX_FLEET_SIZE DEFAULT_LIMITS None = Inr pads" "length pads = nat MAX_FLEET_SIZE"
    by (simp add: launch_grid_def Let_def DEFAULT_LIMITS_def MAX_FLEET_SIZE_def)
  have "length (foldl (\<lambda>perm (r, c). perm[r := c]) xs cs) = length xs" for xs :: "nat list" and cs
    by (induction cs arbitrary: xs) (auto simp: case_prod_beta')
  then show ?thesis
    using o p len pads assms
    by (auto simp: outline_slots_def optimal_assignment_def Let_def MAX_FLEET_SIZE_def)
qed

section \<open>What few points do\<close>

text \<open>What happens with fewer points than contours: the remainders decide, and the longest contour can
  take several points while others get none; the last branch, meant to give the longest contours one each,
  is never reached.\<close>

lemma few_points_bunch: "allocate_by_length [10, 1, 1] 2 = [2, 0, 0]"
  by (simp add: allocate_by_length_def Let_def bump_first_def)

end
