(* ===== verification/Choreography.thy ===== *)
theory Choreography
  imports Outlines Upload
begin

text \<open>
  The show generator, \<^verbatim>\<open>packages/tara-studio/tara_studio/generator.py\<close>: launch pads and hover layers,
  the pacing of a shape, the loop that writes every drone's waypoints from takeoff to touchdown, and the
  five shapes. Caches are left out (a cached function is the function). \<^verbatim>\<open>numpy.interp\<close> and the assignment
  solver are parameters of the circle and the heart; floats are reals.
\<close>

section \<open>Launch state\<close>

definition FORMATION_HEADROOM_M :: real where "FORMATION_HEADROOM_M = 2"

definition LAYER_LIMITS :: limits where
  "LAYER_LIMITS = DEFAULT_LIMITS\<lparr>max_altitude_m := max_altitude_m DEFAULT_LIMITS - FORMATION_HEADROOM_M\<rparr>"

datatype pad = Pad_XY point2 | Pad_Y real

datatype generate_error =
    Bad_Count int
  | Wrong_Length string nat int
  | Layout_Failed layout_error
  | Bad_Pacing pacing_error
  | Unknown_Shape string
  | No_Slots
  | Zero_Rate

definition wrong_length :: "'a list option \<Rightarrow> int \<Rightarrow> bool" where
  "wrong_length override n = (case override of None \<Rightarrow> False | Some l \<Rightarrow> int (length l) \<noteq> n)"

definition default_launch_state ::
  "int \<Rightarrow> pad list option \<Rightarrow> real list option \<Rightarrow> generate_error + pad list \<times> real list" where
  "default_launch_state n spawn_offsets target_heights =
     (if \<not> (1 \<le> n \<and> n \<le> MAX_FLEET_SIZE) then Inl (Bad_Count n)
      else if wrong_length spawn_offsets n then Inl (Wrong_Length ''spawn_offsets'' (length (the spawn_offsets)) n)
      else if wrong_length target_heights n then Inl (Wrong_Length ''target_heights'' (length (the target_heights)) n)
      else case (launch_grid MAX_FLEET_SIZE DEFAULT_LIMITS None, altitude_layers n LAYER_LIMITS BASE_HOVER_ALT_M None) of
        (Inl e, _) \<Rightarrow> Inl (Layout_Failed e)
      | (_, Inl e) \<Rightarrow> Inl (Layout_Failed e)
      | (Inr grid, Inr layers) \<Rightarrow>
          Inr (getd spawn_offsets (map Pad_XY (take (nat n) grid)), getd target_heights layers))"

fun pad_xy :: "pad \<Rightarrow> point2" where
  "pad_xy (Pad_XY p) = p"
| "pad_xy (Pad_Y y) = (0, y)"

type_synonym starts = "(int, point3) dict"
type_synonym heights = "(int, real) dict"

definition launch_state ::
  "int \<Rightarrow> pad list option \<Rightarrow> real list option \<Rightarrow> generate_error + starts \<times> heights" where
  "launch_state n spawn_offsets target_heights =
     (case default_launch_state n spawn_offsets target_heights of
        Inl e \<Rightarrow> Inl e
      | Inr (pads, hs) \<Rightarrow>
          Inr (map (\<lambda>d. (d, case pad_xy (pads ! nat d) of (x, y) \<Rightarrow> (x, y, 0))) [0..n - 1],
               map (\<lambda>d. (d, hs ! nat d)) [0..n - 1]))"

section \<open>Headings\<close>

definition wrap_heading :: "real \<Rightarrow> real" where
  "wrap_heading deg = py_fmod (round_to 1 (py_fmod deg 360)) 360"

definition blend_yaw :: "real \<Rightarrow> real \<Rightarrow> real \<Rightarrow> real" where
  "blend_yaw start_deg target_deg ratio =
     (let delta = py_fmod (target_deg - start_deg + 180) 360 - 180 in wrap_heading (start_deg + delta * ratio))"

section \<open>Shapes and their pacing\<close>

record shape =
  sp_formation :: "int \<Rightarrow> int \<Rightarrow> real \<Rightarrow> real \<Rightarrow> point3"
  sp_yaw :: "int \<Rightarrow> int \<Rightarrow> real \<Rightarrow> real"
  sp_revolutions :: real
  sp_orbit_reach :: "(int \<Rightarrow> real) option"

definition val :: "(int, 'v) dict \<Rightarrow> int \<Rightarrow> 'v" where "val d i = the (map_of d i)"

definition hover_positions :: "starts \<Rightarrow> heights \<Rightarrow> (int, point3) dict" where
  "hover_positions starts heights = map (\<lambda>(d, (x, y, z)). (d, (x, y, - val heights d))) starts"

definition pacing_for :: "shape \<Rightarrow> int \<Rightarrow> starts \<Rightarrow> heights \<Rightarrow> pacing_error + pacing" where
  "pacing_for spec n starts heights =
     (let entry_targets = map (\<lambda>d. (d, sp_formation spec d n 0 (val heights d))) [0..n - 1];
          climb = (if heights = [] then 0 else Max (set (map snd heights)));
          spread = formation_spread (hover_positions starts heights) entry_targets;
          reach = (case sp_orbit_reach spec of None \<Rightarrow> 0 | Some f \<Rightarrow> f n)
      in plan_pacing n climb spread (sp_revolutions spec) reach DEFAULT_LIMITS)"

section \<open>Waypoints of one drone\<close>

definition plain_waypoint :: "real \<Rightarrow> real \<Rightarrow> real \<Rightarrow> real \<Rightarrow> real \<Rightarrow> waypoint" where
  "plain_waypoint t x y z yaw = \<lparr>w_time = t, w_x = x, w_y = y, w_z = z, w_yaw = Some yaw, w_r = None, w_g = None,
     w_b = None, w_w = None, w_vx = None, w_vy = None, w_vz = None\<rparr>"

definition takeoff_waypoint :: "real \<Rightarrow> real \<Rightarrow> point3 \<Rightarrow> real \<Rightarrow> waypoint" where
  "takeoff_waypoint takeoff_s t start h =
     (case start of (x, y, z) \<Rightarrow>
        plain_waypoint (round_to 2 t) x y (round_to 2 (- (h * ease (t / takeoff_s)))) 0)"

definition choreo_waypoint ::
  "shape \<Rightarrow> int \<Rightarrow> real \<Rightarrow> real \<Rightarrow> real \<Rightarrow> real \<Rightarrow> int \<Rightarrow> point3 \<Rightarrow> real \<Rightarrow> waypoint" where
  "choreo_waypoint spec n elapsed blend_s choreo_s t d start h =
     (let ratio = elapsed / choreo_s; blend_ratio = ease (elapsed / blend_s) in
      case (start, sp_formation spec d n ratio h) of
        ((x, y, z), (target_x, target_y, target_z)) \<Rightarrow>
          plain_waypoint (round_to 2 t) (round_to 2 (x + blend_ratio * (target_x - x)))
            (round_to 2 (y + blend_ratio * (target_y - y)))
            (round_to 2 (- h + blend_ratio * (target_z - (- h))))
            (wrap_heading (blend_ratio * sp_yaw spec d n ratio)))"

definition land_waypoint :: "real \<Rightarrow> real \<Rightarrow> point3 \<Rightarrow> waypoint \<Rightarrow> waypoint" where
  "land_waypoint t ratio start entry =
     (let return_ratio = ease (ratio / LAND_RETURN_FRACTION);
          descend_ratio = ease ((ratio - LAND_RETURN_FRACTION) / (1 - LAND_RETURN_FRACTION))
      in case start of (target_x, target_y, z) \<Rightarrow>
        plain_waypoint (round_to 2 t) (round_to 2 (w_x entry + return_ratio * (target_x - w_x entry)))
          (round_to 2 (w_y entry + return_ratio * (target_y - w_y entry)))
          (round_to 2 (w_z entry * (1 - descend_ratio)))
          (blend_yaw (getd (w_yaw entry) 0) 0 return_ratio))"

section \<open>The loop\<close>

record generation =
  gn_tracks :: "(int, waypoint list) dict"
  gn_entry :: "(int, waypoint) dict option"

definition append_each :: "(int \<Rightarrow> waypoint) \<Rightarrow> generation \<Rightarrow> generation" where
  "append_each f g = g\<lparr>gn_tracks := map (\<lambda>(d, wps). (d, wps @ [f d])) (gn_tracks g)\<rparr>"

definition capture_entry :: "generation \<Rightarrow> (int, waypoint) dict" where
  "capture_entry g = (case gn_entry g of Some e \<Rightarrow> e | None \<Rightarrow> map (\<lambda>(d, wps). (d, last wps)) (gn_tracks g))"

definition show_step ::
  "shape \<Rightarrow> int \<Rightarrow> pacing \<Rightarrow> real \<Rightarrow> real \<Rightarrow> starts \<Rightarrow> heights \<Rightarrow> generation \<Rightarrow> int \<Rightarrow> generation" where
  "show_step spec n p choreo_s rate starts heights g k =
     (let t = of_int k / rate; start_of_land = pa_takeoff p + choreo_s in
      if t \<le> pa_takeoff p
      then append_each (\<lambda>d. takeoff_waypoint (pa_takeoff p) t (val starts d) (val heights d)) g
      else if t \<le> start_of_land
      then append_each (\<lambda>d. choreo_waypoint spec n (t - pa_takeoff p) (pa_blend p) choreo_s t d
          (val starts d) (val heights d)) g
      else
        let ratio = min 1 ((t - start_of_land) / pa_land p); entry = capture_entry g
        in append_each (\<lambda>d. land_waypoint t ratio (val starts d) (val entry d)) (g\<lparr>gn_entry := Some entry\<rparr>))"

definition run_show ::
  "shape \<Rightarrow> int \<Rightarrow> real \<Rightarrow> real \<Rightarrow> pad list option \<Rightarrow> real list option \<Rightarrow> generate_error + choreography" where
  "run_show spec n dur rate spawn_offsets target_heights =
     (case launch_state n spawn_offsets target_heights of Inl e \<Rightarrow> Inl e
      | Inr (starts, heights) \<Rightarrow>
          (case pacing_for spec n starts heights of Inl e \<Rightarrow> Inl (Bad_Pacing e)
           | Inr p \<Rightarrow>
               let choreo_s = max (pa_choreo p) (dur - pa_takeoff p - pa_land p);
                   whole = pa_takeoff p + choreo_s + pa_land p;
                   total_steps = py_round (whole * rate)
               in if rate = 0 then Inl Zero_Rate
                  else Inr (gn_tracks (foldl (show_step spec n p choreo_s rate starts heights)
                    \<lparr>gn_tracks = map (\<lambda>d. (d, [])) [0..n - 1], gn_entry = None\<rparr> [0..total_steps]))))"

section \<open>Circle and heart\<close>

definition rotated_slot :: "point2 list \<Rightarrow> int \<Rightarrow> real \<Rightarrow> point2" where
  "rotated_slot slots d angle =
     (case slots ! nat d of (sx, sy) \<Rightarrow> (sx * cos angle - sy * sin angle, sx * sin angle + sy * cos angle))"

definition slots_reach :: "point2 list \<Rightarrow> real" where
  "slots_reach slots = Max (set (map norm2 slots))"

definition circle_sweep :: "point2 list \<Rightarrow> int \<Rightarrow> real option" where
  "circle_sweep slots n =
     (let reach = slots_reach slots in
      if reach \<le> 0 then Some (2 * pi)
      else case launch_state n None None of Inl e \<Rightarrow> None
      | Inr (starts, heights) \<Rightarrow>
          let entry = map (\<lambda>(d, (sx, sy)). (int d, (sx, sy, - val heights (int d)))) (enumerate 0 slots);
              spread = formation_spread (hover_positions starts heights) entry
          in (case plan_pacing n (Max (set (map snd heights))) spread 1 reach DEFAULT_LIMITS of
                Inl e \<Rightarrow> None
              | Inr p \<Rightarrow> Some (max 0 (min (2 * pi)
                  (orbit_budget DEFAULT_LIMITS spread (pa_blend p) * pa_choreo p / reach)))))"

text \<open>\<^verbatim>\<open>math.atan2\<close> of a slot is the argument \<open>atan2\<close>.\<close>

definition circle_shape :: "(real \<Rightarrow> real \<Rightarrow> real) \<Rightarrow> point2 list \<Rightarrow> real \<Rightarrow> shape" where
  "circle_shape atan2 slots sweep =
     \<lparr>sp_formation = (\<lambda>d n ratio height. case rotated_slot slots d (sweep * ratio) of (x, y) \<Rightarrow> (x, y, - height)),
      sp_yaw = (\<lambda>d n ratio. case slots ! nat d of (sx, sy) \<Rightarrow> degrees (atan2 sy sx + sweep * ratio)),
      sp_revolutions = 1, sp_orbit_reach = Some (\<lambda>n. slots_reach slots)\<rparr>"

definition heart_shape :: "point2 list \<Rightarrow> shape" where
  "heart_shape slots =
     \<lparr>sp_formation = (\<lambda>d n ratio height. case rotated_slot slots d (2 * pi * ratio * (25 / 100)) of (x, y) \<Rightarrow> (x, y, - height)),
      sp_yaw = (\<lambda>d n ratio. degrees (2 * pi * ratio * (25 / 100))),
      sp_revolutions = 25 / 100, sp_orbit_reach = None\<rparr>"

section \<open>Hover layers that are shared\<close>

definition default_pads :: "int \<Rightarrow> point2 list" where
  "default_pads n = (case launch_grid MAX_FLEET_SIZE DEFAULT_LIMITS None of Inl e \<Rightarrow> [] | Inr ps \<Rightarrow> take (nat n) ps)"

definition default_layers :: "int \<Rightarrow> real list" where
  "default_layers n = (case altitude_layers n LAYER_LIMITS BASE_HOVER_ALT_M None of Inl e \<Rightarrow> [] | Inr hs \<Rightarrow> hs)"

definition distinct_layers :: "real list \<Rightarrow> real list" where
  "distinct_layers hs = sort (remdups hs)"

text \<open>The drones of every layer, lowest layer first.\<close>

definition layer_groups :: "real list \<Rightarrow> nat list list" where
  "layer_groups hs = map (\<lambda>h. filter (\<lambda>d. hs ! d = h) [0..<length hs]) (distinct_layers hs)"

section \<open>Helix\<close>

definition mix :: "real \<Rightarrow> point2 \<Rightarrow> point2 \<Rightarrow> point2" where
  "mix w p q = (case (p, q) of ((x, y), (x', y')) \<Rightarrow> (x + w * (x' - x), y + w * (y' - y)))"

definition on_ring :: "real \<Rightarrow> point2" where "on_ring angle = (5 * cos angle, 5 * sin angle)"

definition set_angles :: "(nat \<times> real) list \<Rightarrow> real list \<Rightarrow> real list" where
  "set_angles ps angles = foldl (\<lambda>xs (d, a). xs[d := a]) angles ps"

definition spread_angles :: "real \<Rightarrow> nat list \<Rightarrow> (nat \<times> real) list" where
  "spread_angles base members =
     map (\<lambda>(m, d). (d, base + 2 * pi * of_nat m / of_nat (length members))) (enumerate 0 members)"

definition layer_angles :: "(real \<Rightarrow> nat \<Rightarrow> nat \<Rightarrow> bool) \<Rightarrow> nat \<Rightarrow> nat \<Rightarrow> nat list \<Rightarrow> (nat \<times> real) list" where
  "layer_angles swap layers k members =
     (let base = 2 * pi * of_nat k / of_nat layers in
      case members of
        [i, j] \<Rightarrow> if swap base i j then [(j, base), (i, base + pi)] else [(i, base), (j, base + pi)]
      | _ \<Rightarrow> spread_angles base members)"

definition all_angles :: "(real \<Rightarrow> nat \<Rightarrow> nat \<Rightarrow> bool) \<Rightarrow> int \<Rightarrow> real list \<Rightarrow> real list" where
  "all_angles swap n hs =
     foldl (\<lambda>angles (k, members). set_angles (layer_angles swap (length (distinct_layers hs)) k members) angles)
       (replicate (nat n) 0) (enumerate 0 (layer_groups hs))"

definition opposite_pads :: "point2 list \<Rightarrow> real \<Rightarrow> nat \<Rightarrow> nat \<Rightarrow> bool" where
  "opposite_pads pads base i j =
     (let rx = cos base - cos (base + pi); ry = sin base - sin (base + pi);
          px = fst (pads ! i) - fst (pads ! j); py = snd (pads ! i) - snd (pads ! j)
      in rx * px + ry * py < 0)"

definition closest :: "(nat \<Rightarrow> real) \<Rightarrow> real" where
  "closest f = Min (set (map f [0..<61]))"

definition min_blend_separation :: "real \<Rightarrow> point2 \<Rightarrow> real \<Rightarrow> point2 \<Rightarrow> real \<Rightarrow> real" where
  "min_blend_separation blend_frac pad_a angle_a pad_b angle_b =
     closest (\<lambda>k. let b = of_nat k / 60; eff = ease b * blend_frac in
       dist2 (mix b pad_a (on_ring (angle_a + 2 * pi * eff))) (mix b pad_b (on_ring (angle_b + 2 * pi * eff))))"

definition min_return_separation :: "point2 \<Rightarrow> real \<Rightarrow> point2 \<Rightarrow> real \<Rightarrow> real" where
  "min_return_separation pad_a angle_a pad_b angle_b =
     closest (\<lambda>k. let w = of_nat k / 60 in dist2 (mix w (on_ring angle_a) pad_a) (mix w (on_ring angle_b) pad_b))"

definition worst_leg :: "real \<Rightarrow> point2 list \<Rightarrow> real \<Rightarrow> nat \<Rightarrow> nat \<Rightarrow> real" where
  "worst_leg blend_frac pads base i j =
     min (min_blend_separation blend_frac (pads ! i) base (pads ! j) (base + pi))
       (min_return_separation (pads ! i) base (pads ! j) (base + pi))"

definition helix_angles :: "int \<Rightarrow> (real list \<times> real) option" where
  "helix_angles n =
     (let hs = default_layers n; pads = default_pads n in
      if int (length (distinct_layers hs)) = n then Some (map (\<lambda>i. 2 * pi * of_int i / of_int n) [0..n - 1], 15 / 10)
      else case launch_state n None None of Inl e \<Rightarrow> None
      | Inr (starts, heights) \<Rightarrow>
          let bootstrap = all_angles (opposite_pads pads) n hs;
              entry = map (\<lambda>d. (d, case on_ring (bootstrap ! nat d) of (x, y) \<Rightarrow> (x, y, - val heights d))) [0..n - 1];
              spread = formation_spread (hover_positions starts heights) entry
          in (case plan_pacing n (Max (set (map snd heights))) spread 1 0 DEFAULT_LIMITS of
                Inl e \<Rightarrow> None
              | Inr p \<Rightarrow>
                  let blend_frac = (if pa_choreo p > 0 then pa_blend p / pa_choreo p else 0)
                  in Some (all_angles (\<lambda>base i j. worst_leg blend_frac pads base i j < worst_leg blend_frac pads base j i)
                       n hs, 1)))"

definition helix_point :: "real \<Rightarrow> real \<Rightarrow> real \<Rightarrow> point3" where
  "helix_point angle ratio height =
     (case on_ring angle of (x, y) \<Rightarrow> (x, y, - max (15 / 10) (height + 4 / 10 * sin (2 * pi * ratio))))"

text \<open>Pacing looks at the shape where the choreography begins, at which a drone is at its starting angle.\<close>

definition helix_pacing :: "real list \<Rightarrow> int \<Rightarrow> pacing option" where
  "helix_pacing angles n =
     (case launch_state n None None of Inl e \<Rightarrow> None
      | Inr (starts, heights) \<Rightarrow>
          (case pacing_for \<lparr>sp_formation = (\<lambda>d n ratio height. helix_point (angles ! nat d) ratio height),
               sp_yaw = (\<lambda>d n ratio. 0), sp_revolutions = 15 / 10, sp_orbit_reach = None\<rparr> n starts heights of
             Inl e \<Rightarrow> None | Inr p \<Rightarrow> Some p))"

definition helix_angle :: "real list \<Rightarrow> real \<Rightarrow> pacing \<Rightarrow> int \<Rightarrow> real \<Rightarrow> real" where
  "helix_angle angles turns p d ratio =
     (if ratio \<le> 0 then angles ! nat d
      else
        let elapsed = ratio * pa_choreo p;
            effective = (if pa_blend p > 0 \<and> elapsed < pa_blend p
              then ease (elapsed / pa_blend p) * (pa_blend p / pa_choreo p) else ratio)
        in angles ! nat d + 2 * pi * effective * turns)"

definition helix_shape :: "real list \<Rightarrow> real \<Rightarrow> pacing \<Rightarrow> shape" where
  "helix_shape angles turns p =
     \<lparr>sp_formation = (\<lambda>d n ratio height. helix_point (helix_angle angles turns p d ratio) ratio height),
      sp_yaw = (\<lambda>d n ratio. degrees (helix_angle angles turns p d ratio)),
      sp_revolutions = 15 / 10, sp_orbit_reach = None\<rparr>"

section \<open>Cube and spline\<close>

definition compact_lane_grid :: "int \<Rightarrow> point2 list" where
  "compact_lane_grid n =
     (let side = max 2 \<lceil>root 3 (of_int n)\<rceil> in
      concat (map (\<lambda>z. concat (map (\<lambda>y. map (\<lambda>x. (of_int x * (25 / 10) + 4, of_int y * (25 / 10) + 1))
        [0..side - 1]) [0..side - 1])) [0..side - 1]))"

type_synonym at_cell = "point2 \<Rightarrow> real \<Rightarrow> real \<Rightarrow> point3"

definition worst_separation :: "at_cell \<Rightarrow> pacing \<Rightarrow> point2 list \<Rightarrow> real list \<Rightarrow> nat \<Rightarrow> nat \<Rightarrow> point2 \<Rightarrow> point2 \<Rightarrow> real" where
  "worst_separation at_cell p pads hs i j cell_i cell_j =
     closest (\<lambda>k.
       let ratio = of_nat k / 60; elapsed = ratio * pa_choreo p;
           b = (if pa_blend p > 0 then ease (elapsed / pa_blend p) else 1);
           place = (\<lambda>d cell. case (pads ! d, at_cell cell ratio (hs ! d)) of
             ((px, py), (x, y, z)) \<Rightarrow> (px + b * (x - px), py + b * (y - py), - (hs ! d) + b * (z + hs ! d)))
       in dist3 (place i cell_i) (place j cell_j))"

definition lane_assignment :: "int \<Rightarrow> at_cell \<Rightarrow> real \<Rightarrow> nat list option" where
  "lane_assignment n at_cell revolutions =
     (let pads = default_pads n; lane = compact_lane_grid n; hs = default_layers n;
          base = map (\<lambda>d. d mod length lane) [0..<nat n];
          starts = map (\<lambda>d. (d, case pads ! nat d of (x, y) \<Rightarrow> (x, y, 0))) [0..n - 1];
          heights = map (\<lambda>d. (d, hs ! nat d)) [0..n - 1];
          spec = \<lparr>sp_formation = (\<lambda>d n ratio height. at_cell (lane ! (base ! nat d)) ratio height),
            sp_yaw = (\<lambda>d n ratio. 0), sp_revolutions = revolutions, sp_orbit_reach = None\<rparr>
      in case pacing_for spec n starts heights of Inl e \<Rightarrow> None
      | Inr p \<Rightarrow> Some (foldl (\<lambda>assignment members.
            case members of
              [i, j] \<Rightarrow>
                let cell_i = lane ! (base ! i); cell_j = lane ! (base ! j) in
                if worst_separation at_cell p pads hs i j cell_j cell_i > worst_separation at_cell p pads hs i j cell_i cell_j
                then assignment[i := base ! j, j := base ! i] else assignment
            | _ \<Rightarrow> assignment) base (layer_groups hs)))"

definition cube_at_cell :: at_cell where
  "cube_at_cell cell ratio height = (case cell of (gx, gy) \<Rightarrow> (gx + sin (2 * pi * ratio), gy, - height))"

definition bezier :: "real \<Rightarrow> real \<Rightarrow> real \<Rightarrow> real \<Rightarrow> real \<Rightarrow> real" where
  "bezier tb p0 p1 p2 p3 =
     (1 - tb) ^ 3 * p0 + 3 * (1 - tb)\<^sup>2 * tb * p1 + 3 * (1 - tb) * tb\<^sup>2 * p2 + tb ^ 3 * p3"

definition spline_at_cell :: at_cell where
  "spline_at_cell cell ratio height =
     (case cell of (lx, ly) \<Rightarrow>
        let tb = (if ratio \<le> 1 / 2 then ratio * 2 else (1 - ratio) * 2) in
        (bezier tb lx (lx + 2) (lx + 4) (lx + 6), bezier tb ly (ly + 2) (ly - 2) ly,
         bezier tb (- height) (- height - 2) (- height + 15 / 10) (- height)))"

definition spline_yaw :: "int \<Rightarrow> int \<Rightarrow> real \<Rightarrow> real" where
  "spline_yaw d n ratio =
     (if ratio \<le> 1 / 2 - 1 / 10 then 90
      else if ratio \<ge> 1 / 2 + 1 / 10 then 270
      else 90 + 180 * ((ratio - (1 / 2 - 1 / 10)) / (2 * (1 / 10))))"

definition lane_shape :: "at_cell \<Rightarrow> (int \<Rightarrow> int \<Rightarrow> real \<Rightarrow> real) \<Rightarrow> real \<Rightarrow> point2 list \<Rightarrow> nat list \<Rightarrow> shape" where
  "lane_shape at_cell yaw revolutions lane assignment =
     \<lparr>sp_formation = (\<lambda>d n ratio height. at_cell (lane ! (assignment ! nat d)) ratio height), sp_yaw = yaw,
      sp_revolutions = revolutions, sp_orbit_reach = None\<rparr>"

section \<open>The shapes by name\<close>

text \<open>The five shapes at a fleet size. Where the code raises while it computes a formation there is no
  shape.\<close>

definition shape_named ::
  "(real \<Rightarrow> real \<Rightarrow> real) \<Rightarrow> interpolator \<Rightarrow> (real list list \<Rightarrow> (nat \<times> nat) list) \<Rightarrow> int \<Rightarrow> string
    \<Rightarrow> generate_error + shape" where
  "shape_named atan2 interp solve n name =
     (let key = py_lower name; found = (\<lambda>s. case s of None \<Rightarrow> Inl No_Slots | Some sh \<Rightarrow> Inr sh) in
      if key = ''circle'' then found (Option.bind (outline_slots interp solve Circle n)
          (\<lambda>slots. map_option (circle_shape atan2 slots) (circle_sweep slots n)))
      else if key = ''helix'' then found (Option.bind (helix_angles n)
          (\<lambda>(angles, turns). map_option (helix_shape angles turns) (helix_pacing angles n)))
      else if key = ''heart'' then found (map_option heart_shape (outline_slots interp solve Heart n))
      else if key = ''cube'' then found (map_option
          (lane_shape cube_at_cell (\<lambda>d n ratio. 0) 0 (compact_lane_grid n)) (lane_assignment n cube_at_cell 0))
      else if key = ''spline'' then found (map_option
          (lane_shape spline_at_cell spline_yaw (25 / 10) (compact_lane_grid n))
          (lane_assignment n spline_at_cell (25 / 10)))
      else Inl (Unknown_Shape name))"

definition SHAPE_NAMES :: "string list" where
  "SHAPE_NAMES = [''circle'', ''helix'', ''heart'', ''cube'', ''spline'']"

definition plan_show_pacing ::
  "(real \<Rightarrow> real \<Rightarrow> real) \<Rightarrow> interpolator \<Rightarrow> (real list list \<Rightarrow> (nat \<times> nat) list) \<Rightarrow> int \<Rightarrow> string
    \<Rightarrow> pad list option \<Rightarrow> real list option \<Rightarrow> generate_error + pacing" where
  "plan_show_pacing atan2 interp solve n name spawn_offsets target_heights =
     (if py_lower name \<notin> set SHAPE_NAMES then Inl (Unknown_Shape name)
      else case launch_state n spawn_offsets target_heights of Inl e \<Rightarrow> Inl e
      | Inr (starts, heights) \<Rightarrow>
          (case shape_named atan2 interp solve n name of Inl e \<Rightarrow> Inl e
           | Inr spec \<Rightarrow>
               (case pacing_for spec n starts heights of Inl e \<Rightarrow> Inl (Bad_Pacing e) | Inr p \<Rightarrow> Inr p)))"

definition generate_show ::
  "(real \<Rightarrow> real \<Rightarrow> real) \<Rightarrow> interpolator \<Rightarrow> (real list list \<Rightarrow> (nat \<times> nat) list) \<Rightarrow> string \<Rightarrow> int \<Rightarrow> real
    \<Rightarrow> real \<Rightarrow> pad list option \<Rightarrow> real list option \<Rightarrow> generate_error + choreography" where
  "generate_show atan2 interp solve name n dur rate spawn_offsets target_heights =
     (if py_lower name \<notin> set SHAPE_NAMES then Inl (Unknown_Shape name)
      else case launch_state n spawn_offsets target_heights of Inl e \<Rightarrow> Inl e
      | Inr st \<Rightarrow>
          (case shape_named atan2 interp solve n name of Inl e \<Rightarrow> Inl e
           | Inr spec \<Rightarrow> run_show spec n dur rate spawn_offsets target_heights))"

text \<open>The document a generator returns.\<close>

definition generated_file :: "choreography \<Rightarrow> json" where
  "generated_file tracks = JObj [(''drones'', JList (map (\<lambda>(i, wps).
     JObj [(''id'', JInt i), (''waypoints'', JList (map waypoint_json wps))]) tracks))]"

section \<open>Lemmas: waypoints\<close>

definition good_waypoint :: "waypoint \<Rightarrow> bool" where
  "good_waypoint wp \<longleftrightarrow> (\<exists>t x y z yaw. wp = plain_waypoint t x y z yaw \<and> 0 \<le> t \<and> 0 \<le> yaw \<and> yaw < 360 \<and>
     - 120 \<le> z \<and> z \<le> 0)"

lemma round_to_mono: "x \<le> y \<Longrightarrow> round_to d x \<le> round_to d y"
  by (auto simp: round_to_def intro!: divide_right_mono py_round_mono mult_right_mono)

lemma round_to_120: "round_to 2 (- 120) = - 120" and round_to_0: "round_to d 0 = 0"
proof -
  have "py_round (- 12000) = - 12000" using py_round_of_int[of "- 12000"] by simp
  then show "round_to 2 (- 120) = - 120" by (simp add: round_to_def)
qed (simp add: round_to_def)

lemma round_height: "- 120 \<le> z \<Longrightarrow> z \<le> 0 \<Longrightarrow> - 120 \<le> round_to 2 z \<and> round_to 2 z \<le> 0"
  using round_to_mono[of "- 120" z 2] round_to_mono[of z 0 2] by (simp add: round_to_120 round_to_0)

lemma good_plain:
  assumes "0 \<le> t" and "0 \<le> yaw" and "yaw < 360" and "- 120 \<le> z" and "z \<le> 0"
  shows "good_waypoint (plain_waypoint (round_to 2 t) x y (round_to 2 z) yaw)"
  unfolding good_waypoint_def
  using round_height[OF assms(4,5)] round_to_mono[OF assms(1), of 2] assms(2,3) by (simp add: round_to_0) blast

lemma wrap_heading_range: "0 \<le> wrap_heading x" "wrap_heading x < 360"
  unfolding wrap_heading_def by (simp_all add: py_fmod_bounds)

lemma convex_height:
  assumes "- 120 \<le> a" "a \<le> 0" "- 120 \<le> b" "b \<le> (0 :: real)" "0 \<le> w" "w \<le> 1"
  shows "- 120 \<le> a + w * (b - a)" and "a + w * (b - a) \<le> 0"
  using convex_between[of w "- 120" a 0 b] assms by simp_all

lemma takeoff_good:
  assumes "0 \<le> t" and "0 \<le> h" and "h \<le> 118"
  shows "good_waypoint (takeoff_waypoint T t start h)"
proof -
  have "0 \<le> h * ease (t / T)" "h * ease (t / T) \<le> h"
    using ease_bounds[of "t / T"] assms(2) by (auto intro: mult_left_le)
  then show ?thesis using assms unfolding takeoff_waypoint_def by (cases start) (auto intro!: good_plain)
qed

definition shape_within :: "shape \<Rightarrow> int \<Rightarrow> bool" where
  "shape_within spec n \<longleftrightarrow> (\<forall>d ratio h. 0 \<le> ratio \<longrightarrow> ratio \<le> 1 \<longrightarrow> 2 \<le> h \<longrightarrow> h \<le> 118 \<longrightarrow>
     (case sp_formation spec d n ratio h of (x, y, z) \<Rightarrow> - 120 \<le> z \<and> z \<le> 0))"

lemma choreo_good:
  assumes "shape_within spec n" and "0 \<le> t" and "0 \<le> elapsed" and "elapsed \<le> choreo_s" and "0 < choreo_s"
    and "2 \<le> h" and "h \<le> 118"
  shows "good_waypoint (choreo_waypoint spec n elapsed blend_s choreo_s t d start h)"
proof -
  obtain x y z tx ty tz where p: "start = (x, y, z)" "sp_formation spec d n (elapsed / choreo_s) h = (tx, ty, tz)"
    by (metis prod_cases3)
  have "elapsed / choreo_s \<le> 1" "0 \<le> elapsed / choreo_s" using assms(3-5) by simp_all
  then have "- 120 \<le> tz \<and> tz \<le> 0"
    using assms(1)[unfolded shape_within_def, rule_format, of "elapsed / choreo_s" h d] assms(6,7) p(2) by simp
  then have "- 120 \<le> - h + ease (elapsed / blend_s) * (tz - (- h))" "- h + ease (elapsed / blend_s) * (tz - (- h)) \<le> 0"
    using convex_height[of "- h" tz "ease (elapsed / blend_s)"] ease_bounds assms(6,7) by auto
  then show ?thesis
    using assms(2) wrap_heading_range by (simp add: choreo_waypoint_def p Let_def good_plain)
qed

lemma land_good:
  assumes "good_waypoint entry" and "0 \<le> t"
  shows "good_waypoint (land_waypoint t ratio start entry)"
proof -
  let ?e = "ease ((ratio - LAND_RETURN_FRACTION) / (1 - LAND_RETURN_FRACTION))"
  have z: "- 120 \<le> w_z entry" "w_z entry \<le> 0" using assms(1) by (auto simp: good_waypoint_def plain_waypoint_def)
  then have "- 120 \<le> w_z entry + ?e * (0 - w_z entry)" "w_z entry + ?e * (0 - w_z entry) \<le> 0"
    using convex_height[of "w_z entry" 0 ?e] ease_bounds by auto
  then have "- 120 \<le> w_z entry * (1 - ?e)" "w_z entry * (1 - ?e) \<le> 0" by (simp_all add: algebra_simps)
  then show ?thesis
    using assms(2) wrap_heading_range
    by (cases start) (auto simp: land_waypoint_def Let_def blend_yaw_def intro!: good_plain)
qed

lemma waypoint_times [simp]:
  "w_time (takeoff_waypoint T t start h) = round_to 2 t"
  "w_time (choreo_waypoint spec n elapsed blend_s choreo_s t d start h) = round_to 2 t"
  "w_time (land_waypoint t ratio start entry) = round_to 2 t"
  by (auto simp: takeoff_waypoint_def choreo_waypoint_def land_waypoint_def plain_waypoint_def Let_def split: prod.splits)

section \<open>Lemmas: the loop\<close>

definition heights_ok :: "int \<Rightarrow> heights \<Rightarrow> bool" where
  "heights_ok n heights \<longleftrightarrow> (\<forall>d \<in> {0..n - 1}. 2 \<le> val heights d \<and> val heights d \<le> 118)"

definition track_ok :: "real \<Rightarrow> real \<Rightarrow> starts \<Rightarrow> heights \<Rightarrow> nat \<Rightarrow> int \<Rightarrow> waypoint list \<Rightarrow> bool" where
  "track_ok rate takeoff_s starts heights k d wps \<longleftrightarrow>
     map w_time wps = map (\<lambda>j. round_to 2 (of_nat j / rate)) [0..<k] \<and> (\<forall>wp \<in> set wps. good_waypoint wp) \<and>
     (wps \<noteq> [] \<longrightarrow> hd wps = takeoff_waypoint takeoff_s 0 (val starts d) (val heights d))"

definition loop_inv :: "int \<Rightarrow> real \<Rightarrow> real \<Rightarrow> starts \<Rightarrow> heights \<Rightarrow> nat \<Rightarrow> generation \<Rightarrow> bool" where
  "loop_inv n rate takeoff_s starts heights k g \<longleftrightarrow> map fst (gn_tracks g) = [0..n - 1] \<and>
     (\<forall>d wps. (d, wps) \<in> set (gn_tracks g) \<longrightarrow> track_ok rate takeoff_s starts heights k d wps) \<and>
     (\<forall>e. gn_entry g = Some e \<longrightarrow> (\<forall>d \<in> {0..n - 1}. good_waypoint (val e d)))"

lemma loop_inv_append:
  assumes "loop_inv n rate T starts heights k g"
    and "\<And>d. d \<in> {0..n - 1} \<Longrightarrow> good_waypoint (f d) \<and> w_time (f d) = round_to 2 (of_nat k / rate) \<and>
      (k = 0 \<longrightarrow> f d = takeoff_waypoint T 0 (val starts d) (val heights d))"
  shows "loop_inv n rate T starts heights (Suc k) (append_each f g)"
proof -
  have ids: "d \<in> {0..n - 1}" if "(d, wps) \<in> set (gn_tracks g)" for d wps
  proof -
    have "d \<in> set (map fst (gn_tracks g))" using that by force
    then show ?thesis using assms(1) unfolding loop_inv_def by (simp del: list.set_map)
  qed
  have ids_same: "map fst (gn_tracks (append_each f g)) = map fst (gn_tracks g)"
    by (auto simp: append_each_def)
  have each: "track_ok rate T starts heights (Suc k) d (wps @ [f d])" if mem: "(d, wps) \<in> set (gn_tracks g)" for d wps
  proof -
    have w: "track_ok rate T starts heights k d wps" using assms(1) mem by (simp add: loop_inv_def)
    then have "length (map w_time wps) = k" unfolding track_ok_def by (metis diff_zero length_map length_upt)
    then have "length wps = k" by simp
    then have "wps = [] \<longleftrightarrow> k = 0" by auto
    then show ?thesis using w assms(2)[OF ids[OF mem]] unfolding track_ok_def by (cases "wps = []") auto
  qed
  have "track_ok rate T starts heights (Suc k) d wps" if mem: "(d, wps) \<in> set (gn_tracks (append_each f g))" for d wps
  proof -
    obtain wps' where "(d, wps') \<in> set (gn_tracks g)" "wps = wps' @ [f d]"
      using mem by (auto simp: append_each_def)
    then show ?thesis using each by blast
  qed
  moreover have "gn_entry (append_each f g) = gn_entry g" by (simp add: append_each_def)
  ultimately show ?thesis using assms(1) ids_same by (simp add: loop_inv_def)
qed

lemma show_step_inv:
  assumes "loop_inv n rate (pa_takeoff p) starts heights k g" and "shape_within spec n" and "heights_ok n heights"
    and "0 < rate" and "0 < pa_takeoff p" and "0 < choreo_s"
  shows "loop_inv n rate (pa_takeoff p) starts heights (Suc k) (show_step spec n p choreo_s rate starts heights g (int k))"
proof -
  define t where "t = of_nat k / rate"
  have t: "0 \<le> t" "t = of_int (int k) / rate" using assms(4) by (simp_all add: t_def)
  have h: "2 \<le> val heights d" "val heights d \<le> 118" if "d \<in> {0..n - 1}" for d
    using assms(3) that by (simp_all add: heights_ok_def)
  let ?ratio = "min 1 ((t - (pa_takeoff p + choreo_s)) / pa_land p)"
  have step: "show_step spec n p choreo_s rate starts heights g (int k) =
    (if t \<le> pa_takeoff p
     then append_each (\<lambda>d. takeoff_waypoint (pa_takeoff p) t (val starts d) (val heights d)) g
     else if t \<le> pa_takeoff p + choreo_s
     then append_each (\<lambda>d. choreo_waypoint spec n (t - pa_takeoff p) (pa_blend p) choreo_s t d (val starts d) (val heights d)) g
     else append_each (\<lambda>d. land_waypoint t ?ratio (val starts d) (val (capture_entry g) d))
       (g\<lparr>gn_entry := Some (capture_entry g)\<rparr>))"
    by (simp only: show_step_def Let_def t(2))
  consider "t \<le> pa_takeoff p" | "\<not> t \<le> pa_takeoff p" "t \<le> pa_takeoff p + choreo_s"
    | "\<not> t \<le> pa_takeoff p" "\<not> t \<le> pa_takeoff p + choreo_s" by blast
  then show ?thesis
  proof cases
    case 1
    have "loop_inv n rate (pa_takeoff p) starts heights (Suc k)
        (append_each (\<lambda>d. takeoff_waypoint (pa_takeoff p) t (val starts d) (val heights d)) g)"
      by (rule loop_inv_append[OF assms(1)]) (use h t(1) in \<open>auto simp: t_def intro!: takeoff_good\<close>, fastforce)
    then show ?thesis unfolding step using 1 by simp
  next
    case 2
    have "0 < k" using 2(1) assms(5) by (cases k) (auto simp: t_def)
    then have "loop_inv n rate (pa_takeoff p) starts heights (Suc k)
        (append_each (\<lambda>d. choreo_waypoint spec n (t - pa_takeoff p) (pa_blend p) choreo_s t d (val starts d) (val heights d)) g)"
      by (intro loop_inv_append[OF assms(1)])
        (use 2 h t(1) assms(6) in \<open>auto simp: t_def[symmetric] intro!: choreo_good[OF assms(2)]\<close>)
    then show ?thesis unfolding step using 2 by simp
  next
    case 3
    have k: "0 < k" using 3(1) assms(5) by (cases k) (auto simp: t_def)
    let ?e = "capture_entry g"
    have entry: "good_waypoint (val ?e d)" if d: "d \<in> {0..n - 1}" for d
    proof (cases "gn_entry g")
      case None
      have "d \<in> set (map fst (gn_tracks g))" using assms(1) d by (simp add: loop_inv_def)
      then obtain wps where wps: "map_of (gn_tracks g) d = Some wps"
        by (metis map_of_eq_None_iff option.exhaust list.set_map)
      then have mem: "(d, wps) \<in> set (gn_tracks g)" by (rule map_of_SomeD)
      then have "track_ok rate (pa_takeoff p) starts heights k d wps" using assms(1) by (simp add: loop_inv_def)
      then have "good_waypoint (last wps)" using k by (cases "wps = []") (auto simp: track_ok_def)
      moreover have "map_of (map (\<lambda>(d, wps). (d, last wps)) (gn_tracks g)) d = Some (last wps)"
        using wps by (induction "gn_tracks g") (auto simp: map_of_map)
      ultimately show ?thesis using None by (simp add: capture_entry_def val_def)
    next
      case (Some e)
      then show ?thesis using assms(1) d by (auto simp: capture_entry_def loop_inv_def)
    qed
    then have "loop_inv n rate (pa_takeoff p) starts heights k (g\<lparr>gn_entry := Some ?e\<rparr>)"
      using assms(1) by (simp add: loop_inv_def)
    then have "loop_inv n rate (pa_takeoff p) starts heights (Suc k)
        (append_each (\<lambda>d. land_waypoint t ?ratio (val starts d) (val ?e d))
          (g\<lparr>gn_entry := Some ?e\<rparr>))"
      by (rule loop_inv_append) (use entry k t(1) in \<open>auto simp: t_def intro!: land_good\<close>)
    then show ?thesis unfolding step using 3 by simp
  qed
qed

section \<open>Lemmas: launch state and pacing never refuse a fleet\<close>

lemma layers_within:
  assumes "altitude_layers n LAYER_LIMITS BASE_HOVER_ALT_M None = Inr hs" and "h \<in> set hs"
  shows "2 \<le> h" and "h \<le> 118"
proof -
  define m where "m = max_layers LAYER_LIMITS 2 2"
  have "m = 59" by (simp add: m_def max_layers_def LAYER_LIMITS_def DEFAULT_LIMITS_def FORMATION_HEADROOM_M_def py_int_def)
  moreover have "hs = map (\<lambda>i. 2 + 2 * of_int (i mod m)) [0..n - 1]"
    using assms(1) by (simp add: altitude_layers_def LAYER_LIMITS_def DEFAULT_LIMITS_def BASE_HOVER_ALT_M_def Let_def m_def
        split: if_splits)
  ultimately obtain i :: int where i: "h = 2 + 2 * of_int (i mod 59)" using assms(2) by auto
  have "0 \<le> i mod 59" "i mod 59 \<le> 58" by simp_all
  then show "2 \<le> h" "h \<le> 118" by (simp_all add: i)
qed

lemma default_layers_ok: "0 \<le> n \<Longrightarrow> altitude_layers n LAYER_LIMITS BASE_HOVER_ALT_M None = Inr (default_layers n)"
  by (simp add: default_layers_def altitude_layers_def Let_def LAYER_LIMITS_def DEFAULT_LIMITS_def)

lemma default_layers_length: "0 \<le> n \<Longrightarrow> length (default_layers n) = nat n"
  using arg_cong[OF default_layers_ok[of n], of "\<lambda>r. length (projr r)"]
  by (simp add: altitude_layers_def Let_def LAYER_LIMITS_def DEFAULT_LIMITS_def)

definition spawn_pads :: "int \<Rightarrow> pad list option \<Rightarrow> pad list" where
  "spawn_pads n spawn_offsets = getd spawn_offsets (map Pad_XY (default_pads n))"

definition pad_starts :: "int \<Rightarrow> pad list option \<Rightarrow> starts" where
  "pad_starts n spawn_offsets =
     map (\<lambda>d. (d, case pad_xy (spawn_pads n spawn_offsets ! nat d) of (x, y) \<Rightarrow> (x, y, 0))) [0..n - 1]"

definition layer_heights :: "int \<Rightarrow> heights" where
  "layer_heights n = map (\<lambda>d. (d, default_layers n ! nat d)) [0..n - 1]"

lemma launch_state_Inr:
  assumes "1 \<le> n" and "n \<le> MAX_FLEET_SIZE" and "\<not> wrong_length spawn_offsets n"
  shows "launch_state n spawn_offsets None = Inr (pad_starts n spawn_offsets, layer_heights n)"
proof -
  obtain grid where "launch_grid MAX_FLEET_SIZE DEFAULT_LIMITS None = Inr grid"
    by (simp add: launch_grid_def Let_def DEFAULT_LIMITS_def MAX_FLEET_SIZE_def)
  then show ?thesis
    using assms default_layers_ok[of n]
    by (simp add: launch_state_def default_launch_state_def wrong_length_def pad_starts_def spawn_pads_def
        layer_heights_def default_pads_def getd_def)
qed

lemma val_map [simp]: "d \<in> {0..n - 1} \<Longrightarrow> val (map (\<lambda>d. (d, f d)) [0..n - 1]) d = f d"
  by (simp add: val_def map_of_map_restrict)

lemma layer_heights_ok: "heights_ok n (layer_heights n)"
  unfolding heights_ok_def
proof
  fix d assume d: "d \<in> {0..n - 1}"
  then have "default_layers n ! nat d \<in> set (default_layers n)" by (intro nth_mem) (simp add: default_layers_length)
  then show "2 \<le> val (layer_heights n) d \<and> val (layer_heights n) d \<le> 118"
    using layers_within[OF default_layers_ok[of n]] d by (simp add: layer_heights_def)
qed

lemma heights_nonneg:
  assumes "1 \<le> n"
  shows "0 \<le> Max (set (map snd (layer_heights n)))" and "layer_heights n \<noteq> []"
proof -
  show ne: "layer_heights n \<noteq> []" using assms by (simp add: layer_heights_def)
  have "Max (set (map snd (layer_heights n))) \<in> set (map snd (layer_heights n))" using ne by (intro Max_in) auto
  then obtain d where "d \<in> {0..n - 1}" "Max (set (map snd (layer_heights n))) = val (layer_heights n) d"
    by (auto simp: layer_heights_def)
  then show "0 \<le> Max (set (map snd (layer_heights n)))" using layer_heights_ok[of n] by (force simp: heights_ok_def)
qed

lemma formation_spread_nonneg: "0 \<le> formation_spread starts targets"
proof -
  have "a \<le> foldl (\<lambda>worst (i, p). max worst (f i p)) a xs" for a :: real and f and xs :: "(int \<times> point3) list"
    by (induction xs arbitrary: a) (auto, meson max.cobounded1 order_trans)
  then show ?thesis by (simp add: formation_spread_def)
qed

lemma plan_pacing_accepts:
  assumes "1 \<le> n" "n \<le> MAX_FLEET_SIZE" "0 \<le> climb" "0 \<le> spread" "0 \<le> revolutions" "0 \<le> reach"
  shows "\<exists>p. plan_pacing n climb spread revolutions reach l = Inr p"
  using assms by (simp add: plan_pacing_def)

lemma pacing_for_accepts:
  assumes "1 \<le> n" "n \<le> MAX_FLEET_SIZE" "0 \<le> sp_revolutions spec"
    and "\<And>f. sp_orbit_reach spec = Some f \<Longrightarrow> 0 \<le> f n"
  shows "\<exists>p. pacing_for spec n starts (layer_heights n) = Inr p"
  unfolding pacing_for_def Let_def
  using assms heights_nonneg[OF assms(1)]
  by (intro plan_pacing_accepts) (auto simp: formation_spread_nonneg split: option.splits)

section \<open>Lemmas: the five shapes\<close>

text \<open>What the generator relies on: a shape stays between the ground and the ceiling for every hover layer,
  and pacing accepts it.\<close>

definition usable_shape :: "shape \<Rightarrow> int \<Rightarrow> bool" where
  "usable_shape spec n \<longleftrightarrow> shape_within spec n \<and> 0 \<le> sp_revolutions spec \<and>
     (\<forall>f. sp_orbit_reach spec = Some f \<longrightarrow> 0 \<le> f n)"

lemma flat_within:
  "shape_within \<lparr>sp_formation = (\<lambda>d n ratio height. case g d ratio of (x, y) \<Rightarrow> (x, y, - height)), sp_yaw = yaw,
     sp_revolutions = r, sp_orbit_reach = reach\<rparr> n"
  by (auto simp: shape_within_def split: prod.splits)

lemma slots_reach_nonneg: "slots \<noteq> [] \<Longrightarrow> 0 \<le> slots_reach slots"
  unfolding slots_reach_def by (cases slots) (auto simp: Max_ge_iff)

lemma circle_usable: "slots \<noteq> [] \<Longrightarrow> usable_shape (circle_shape atan2 slots sweep) n"
  unfolding usable_shape_def circle_shape_def by (simp add: slots_reach_nonneg flat_within)

lemma heart_usable: "usable_shape (heart_shape slots) n"
  unfolding usable_shape_def heart_shape_def by (simp add: flat_within)

lemma helix_usable: "usable_shape (helix_shape angles turns p) n"
proof -
  have "case helix_point a ratio h of (x, y, z) \<Rightarrow> - 120 \<le> z \<and> z \<le> 0" if "2 \<le> h" "h \<le> 118" for a ratio h
  proof -
    have s: "sin (2 * pi * ratio) \<le> 1" by simp
    then have "h + 4 / 10 * sin (2 * pi * ratio) \<le> 120" using that(2) by linarith
    then show ?thesis by (auto simp: helix_point_def le_max_iff_disj split: prod.splits)
  qed
  then show ?thesis by (simp add: usable_shape_def shape_within_def helix_shape_def)
qed

lemma bezier_range:
  assumes t: "0 \<le> t" "t \<le> 1" and lo: "\<forall>p \<in> {p0, p1, p2, p3}. lo \<le> p" and hi: "\<forall>p \<in> {p0, p1, p2, p3}. p \<le> hi"
  shows "lo \<le> bezier t p0 p1 p2 p3" and "bezier t p0 p1 p2 p3 \<le> hi"
proof -
  let ?a = "(1 - t) ^ 3" and ?b = "3 * (1 - t)\<^sup>2 * t" and ?c = "3 * (1 - t) * t\<^sup>2" and ?d = "t ^ 3"
  have w: "0 \<le> ?a" "0 \<le> ?b" "0 \<le> ?c" "0 \<le> ?d" using t by simp_all
  have one: "?a + ?b + ?c + ?d = 1" by (simp add: eval_nat_numeral algebra_simps)
  have share: "?a * x + ?b * x + ?c * x + ?d * x = x" for x
    using arg_cong[OF one, of "\<lambda>u. u * x"] by (simp only: distrib_right mult_1_left)
  have "?a * lo + ?b * lo + ?c * lo + ?d * lo \<le> bezier t p0 p1 p2 p3"
    unfolding bezier_def by (intro add_mono mult_left_mono w) (use lo in auto)
  then show "lo \<le> bezier t p0 p1 p2 p3" by (simp only: share)
  have "bezier t p0 p1 p2 p3 \<le> ?a * hi + ?b * hi + ?c * hi + ?d * hi"
    unfolding bezier_def by (intro add_mono mult_left_mono w) (use hi in auto)
  then show "bezier t p0 p1 p2 p3 \<le> hi" by (simp only: share)
qed

lemma cube_cell_within: "shape_within (lane_shape cube_at_cell yaw r lane assignment) n"
  by (auto simp: shape_within_def lane_shape_def cube_at_cell_def split: prod.splits)

lemma spline_cell_within: "shape_within (lane_shape spline_at_cell yaw r lane assignment) n"
proof -
  have "case spline_at_cell cell ratio h of (x, y, z) \<Rightarrow> - 120 \<le> z \<and> z \<le> 0"
    if r: "0 \<le> ratio" "ratio \<le> 1" "2 \<le> h" "h \<le> 118" for cell ratio h
  proof -
    define tb where "tb = (if ratio \<le> 1 / 2 then ratio * 2 else (1 - ratio) * 2)"
    have tb: "0 \<le> tb" "tb \<le> 1" using r by (simp_all add: tb_def)
    have "- 120 \<le> bezier tb (- h) (- h - 2) (- h + 15 / 10) (- h)" "bezier tb (- h) (- h - 2) (- h + 15 / 10) (- h) \<le> 0"
      using r bezier_range[OF tb, of "- h" "- h - 2" "- h + 15 / 10" "- h" "- 120" 0] by simp_all
    then show ?thesis unfolding spline_at_cell_def Let_def tb_def[symmetric] by (cases cell) simp
  qed
  then show ?thesis by (simp add: shape_within_def lane_shape_def)
qed

lemma pacing_without_reach:
  assumes "1 \<le> n" and "n \<le> MAX_FLEET_SIZE" and "0 \<le> r"
  obtains p where "pacing_for \<lparr>sp_formation = f, sp_yaw = yaw, sp_revolutions = r, sp_orbit_reach = None\<rparr> n starts
    (layer_heights n) = Inr p"
  using pacing_for_accepts[OF assms(1,2), of "\<lparr>sp_formation = f, sp_yaw = yaw, sp_revolutions = r, sp_orbit_reach = None\<rparr>"]
    assms(3) by auto

lemma lane_assignment_returns:
  assumes "1 \<le> n" and "n \<le> MAX_FLEET_SIZE" and "0 \<le> revolutions"
  shows "\<exists>a. lane_assignment n at_cell revolutions = Some a"
proof -
  let ?lane = "compact_lane_grid n"
  let ?base = "map (\<lambda>d. d mod length ?lane) [0..<nat n]"
  obtain p where "pacing_for \<lparr>sp_formation = (\<lambda>d n ratio height. at_cell (?lane ! (?base ! nat d)) ratio height),
      sp_yaw = (\<lambda>d n ratio. 0), sp_revolutions = revolutions, sp_orbit_reach = None\<rparr> n
      (map (\<lambda>d. (d, case default_pads n ! nat d of (x, y) \<Rightarrow> (x, y, 0))) [0..n - 1]) (layer_heights n) = Inr p"
    by (rule pacing_without_reach[OF assms])
  then show ?thesis
    unfolding lane_assignment_def Let_def layer_heights_def[symmetric] by (simp only: sum.case option.inject) blast
qed

lemma sweep_pacing:
  assumes "1 \<le> n" and "n \<le> MAX_FLEET_SIZE" and "0 \<le> reach"
  obtains p where "plan_pacing n (Max (set (map snd (layer_heights n)))) (formation_spread a b) 1 reach DEFAULT_LIMITS = Inr p"
  using plan_pacing_accepts[OF assms(1,2) heights_nonneg(1)[OF assms(1)] formation_spread_nonneg zero_le_one assms(3)]
  by blast

lemma circle_sweep_returns:
  assumes "1 \<le> n" and "n \<le> MAX_FLEET_SIZE"
  shows "\<exists>sweep. circle_sweep slots n = Some sweep"
proof (cases "slots_reach slots \<le> 0")
  case False
  let ?starts = "pad_starts n None" and ?hs = "layer_heights n"
  obtain p where "plan_pacing n (Max (set (map snd ?hs))) (formation_spread (hover_positions ?starts ?hs)
      (map (\<lambda>(d, (sx, sy)). (int d, (sx, sy, - val ?hs (int d)))) (enumerate 0 slots))) 1 (slots_reach slots)
      DEFAULT_LIMITS = Inr p"
    by (rule sweep_pacing[OF assms, of "slots_reach slots"]) (use False in auto)
  then show ?thesis
    using launch_state_Inr[OF assms, of None] False by (simp only: circle_sweep_def wrong_length_def Let_def) simp
qed (simp add: circle_sweep_def Let_def)

lemma helix_returns:
  assumes "1 \<le> n" and "n \<le> MAX_FLEET_SIZE"
  shows "\<exists>r. helix_angles n = Some r" and "\<exists>p. helix_pacing angles n = Some p"
proof -
  let ?starts = "pad_starts n None" and ?hs = "layer_heights n"
  have st: "launch_state n None None = Inr (?starts, ?hs)" by (rule launch_state_Inr[OF assms]) (simp add: wrong_length_def)
  let ?boot = "all_angles (opposite_pads (default_pads n)) n (default_layers n)"
  obtain p where "plan_pacing n (Max (set (map snd ?hs))) (formation_spread (hover_positions ?starts ?hs)
      (map (\<lambda>d. (d, case on_ring (?boot ! nat d) of (x, y) \<Rightarrow> (x, y, - val ?hs d))) [0..n - 1])) 1 0 DEFAULT_LIMITS = Inr p"
    by (rule sweep_pacing[OF assms order_refl])
  then show "\<exists>r. helix_angles n = Some r"
    unfolding helix_angles_def Let_def st by (auto intro!: exI[of _ "3 / 2 :: real"])
  obtain p where "pacing_for \<lparr>sp_formation = (\<lambda>d n ratio height. helix_point (angles ! nat d) ratio height),
      sp_yaw = (\<lambda>d n ratio. 0), sp_revolutions = 15 / 10, sp_orbit_reach = None\<rparr> n ?starts ?hs = Inr p"
    by (rule pacing_without_reach[OF assms, of "15 / 10"]) simp_all
  then show "\<exists>p. helix_pacing angles n = Some p" unfolding helix_pacing_def st by simp
qed

text \<open>Every name of a shape gives one, at every fleet size the pads hold.\<close>

lemma shape_named_usable:
  assumes "1 \<le> n" and "n \<le> MAX_FLEET_SIZE" and "py_lower name \<in> set SHAPE_NAMES"
  shows "\<exists>spec. shape_named atan2 interp solve n name = Inr spec \<and> usable_shape spec n"
proof -
  obtain slots where circle: "outline_slots interp solve Circle n = Some slots" "slots \<noteq> []"
    using outline_slots_returns[OF assms(1,2)] assms(1) by (metis length_0_conv nat_0_iff not_one_le_zero order_trans)
  obtain sweep where sweep: "circle_sweep slots n = Some sweep" using circle_sweep_returns[OF assms(1,2)] by blast
  obtain heart where heart: "outline_slots interp solve Heart n = Some heart" using outline_slots_returns[OF assms(1,2)] by blast
  obtain angles turns where angles: "helix_angles n = Some (angles, turns)"
    using helix_returns(1)[OF assms(1,2)] by (metis surj_pair)
  obtain p where p: "helix_pacing angles n = Some p" using helix_returns(2)[OF assms(1,2)] by blast
  obtain cube where cube: "lane_assignment n cube_at_cell 0 = Some cube"
    using lane_assignment_returns[OF assms(1,2) order_refl] by blast
  obtain spline where spline: "lane_assignment n spline_at_cell (25 / 10) = Some spline"
    using lane_assignment_returns[OF assms(1,2), of "25 / 10"] by (meson divide_nonneg_nonneg zero_le_numeral)
  have lanes: "usable_shape (lane_shape cube_at_cell yaw 0 lane a) n" "usable_shape (lane_shape spline_at_cell yaw (25 / 10) lane a) n"
    for yaw lane a using cube_cell_within spline_cell_within by (simp_all add: usable_shape_def) (simp_all add: lane_shape_def)
  consider "py_lower name = ''circle''" | "py_lower name = ''helix''" | "py_lower name = ''heart''"
    | "py_lower name = ''cube''" | "py_lower name = ''spline''"
    using assms(3) by (auto simp: SHAPE_NAMES_def)
  then show ?thesis
  proof cases
    case 1
    then show ?thesis using circle sweep circle_usable by (simp add: shape_named_def Let_def)
  next
    case 2
    then show ?thesis using angles p helix_usable by (simp add: shape_named_def Let_def)
  next
    case 3
    then show ?thesis using heart heart_usable by (simp add: shape_named_def Let_def)
  next
    case 4
    then show ?thesis using cube lanes(1) by (simp add: shape_named_def Let_def)
  next
    case 5
    then show ?thesis using spline lanes(2) by (simp add: shape_named_def Let_def)
  qed
qed

section \<open>Lemmas: the whole show\<close>

lemma run_loop_inv:
  assumes "shape_within spec n" and "heights_ok n heights" and "0 < rate" and "0 < pa_takeoff p" and "0 < choreo_s"
  shows "loop_inv n rate (pa_takeoff p) starts heights k
    (foldl (show_step spec n p choreo_s rate starts heights)
      \<lparr>gn_tracks = map (\<lambda>d. (d, [])) [0..n - 1], gn_entry = None\<rparr> (map int [0..<k]))"
proof (induction k)
  case 0
  then show ?case by (auto simp: loop_inv_def track_ok_def comp_def)
next
  case (Suc k)
  then show ?case using show_step_inv[OF Suc assms] by simp
qed

lemma int_range: "0 \<le> m \<Longrightarrow> [0..m] = map int [0..<nat (m + 1)]"
  by (intro nth_equalityI) auto

lemma run_show_tracks:
  assumes n: "1 \<le> n" "n \<le> MAX_FLEET_SIZE" "\<not> wrong_length pads n" and "usable_shape spec n" and "0 < rate"
  shows "\<exists>tracks T m. run_show spec n dur rate pads None = Inr tracks \<and> 0 < m \<and> map fst tracks = [0..n - 1] \<and>
    (\<forall>d wps. (d, wps) \<in> set tracks \<longrightarrow> track_ok rate T (pad_starts n pads) (layer_heights n) m d wps)"
proof -
  let ?starts = "pad_starts n pads" and ?hs = "layer_heights n"
  obtain p where p: "pacing_for spec n ?starts ?hs = Inr p"
    using pacing_for_accepts[OF n(1,2)] assms(4) unfolding usable_shape_def by blast
  define choreo_s where "choreo_s = max (pa_choreo p) (dur - pa_takeoff p - pa_land p)"
  define steps where "steps = py_round ((pa_takeoff p + choreo_s + pa_land p) * rate)"
  note pa = plan_pacing_Inr[OF p[unfolded pacing_for_def Let_def]]
  have pos: "0 < pa_takeoff p" "0 < pa_choreo p" "0 < pa_land p"
    unfolding pa takeoff_time_def land_time_def choreo_time_def
    by (simp_all add: less_max_iff_disj BASE_TAKEOFF_S_def BASE_LAND_S_def BASE_CHOREO_S_def)
  then have choreo: "0 < choreo_s" by (simp add: choreo_s_def less_max_iff_disj)
  have "py_round 0 \<le> steps"
    unfolding steps_def using pos choreo assms(5) by (intro py_round_mono) simp
  then have steps: "0 \<le> steps" using py_round_of_int[of 0] by simp
  define g where "g = foldl (show_step spec n p choreo_s rate ?starts ?hs)
    \<lparr>gn_tracks = map (\<lambda>d. (d, [])) [0..n - 1], gn_entry = None\<rparr> [0..steps]"
  have "loop_inv n rate (pa_takeoff p) ?starts ?hs (nat (steps + 1)) g"
    unfolding g_def int_range[OF steps] using assms(4)
    by (intro run_loop_inv) (simp_all add: usable_shape_def layer_heights_ok assms(5) pos choreo)
  moreover have "run_show spec n dur rate pads None = Inr (gn_tracks g)"
    using launch_state_Inr[OF n] p assms(5)
    by (simp add: run_show_def Let_def g_def steps_def choreo_s_def)
  moreover have "0 < nat (steps + 1)" using steps by simp
  ultimately show ?thesis unfolding loop_inv_def by blast
qed

section \<open>The file of a generated show\<close>

definition track_trajectory :: "choreography \<Rightarrow> trajectory" where
  "track_trajectory tracks = map (\<lambda>(i, wps). (i, map waypoint_json wps)) tracks"

lemma waypoint_json_good:
  assumes "good_waypoint wp"
  shows "waypoint_schema (waypoint_json wp)" and "typed_waypoint (waypoint_json wp) = wp"
    and "within_altitudes DEFAULT_LIMITS wp"
proof -
  obtain t x y z yaw where w: "wp = plain_waypoint t x y z yaw" "0 \<le> t" "0 \<le> yaw" "yaw < 360" "- 120 \<le> z" "z \<le> 0"
    using assms by (auto simp: good_waypoint_def)
  show "waypoint_schema (waypoint_json wp)" "typed_waypoint (waypoint_json wp) = wp"
    using w(2-4) by (simp_all add: w(1) waypoint_json_def plain_waypoint_def opt_field_def waypoint_schema_def
        required_def optional_def float_in_def typed_waypoint_def mk_waypoint_def opt_number_def number_at_def getd_def)
  show "within_altitudes DEFAULT_LIMITS wp"
    using w(5,6) by (simp add: w(1) plain_waypoint_def within_altitudes_def DEFAULT_LIMITS_def)
qed

text \<open>The gate on a file of well-made tracks: the sweep for collisions is the only step that can refuse it.\<close>

lemma gate_of_tracks:
  assumes n: "1 \<le> n" "n \<le> MAX_FLEET_SIZE" and ids: "map fst tracks = [0..n - 1]"
    and ok: "\<And>d wps. (d, wps) \<in> set tracks \<Longrightarrow> wps \<noteq> [] \<and> sorted (map w_time wps) \<and> (\<forall>wp \<in> set wps. good_waypoint wp)"
  shows "typed (track_trajectory tracks) = tracks \<and>
    (gate_show repr near (generated_file tracks) = Inr (track_trajectory tracks) \<or>
     (\<exists>errors. errors \<noteq> [] \<and> gate_show repr near (generated_file tracks) = Inl (Collisions errors)))"
proof
  let ?tr = "track_trajectory tracks"
  have good: "good_waypoint wp" if "(d, wps) \<in> set tracks" "wp \<in> set wps" for d wps wp using ok that by blast
  have ids': "map fst ?tr = [0..n - 1]" using ids by (simp add: track_trajectory_def comp_def case_prod_beta')
  have range: "0 \<le> d \<and> d < MAX_FLEET_SIZE" if "(d, wps) \<in> set tracks" for d wps
  proof -
    have "d \<in> set (map fst tracks)" using that by force
    then show ?thesis using n(2) unfolding ids by simp
  qed
  show typed_tr: "typed ?tr = tracks"
    unfolding typed_def track_trajectory_def map_map
    by (intro map_idI) (auto simp: comp_def intro!: map_idI waypoint_json_good(2) good)
  have schema: "schema_tracks ?tr"
    unfolding schema_tracks_def dict_ok_def ids'
    by (auto simp: list_all_iff track_trajectory_def range intro!: waypoint_json_good(1) good)
  have times: "map raw_time (map waypoint_json wps) = map w_time wps" if "(d, wps) \<in> set tracks" for d wps
    using good[OF that] by (auto simp: schema_typed(3)[OF waypoint_json_good(1), symmetric] waypoint_json_good(2))
  have "sort_key raw_time (map waypoint_json wps) = map waypoint_json wps" if "(d, wps) \<in> set tracks" for d wps
    using ok[OF that] times[OF that] by (intro sort_key_id_if_sorted) (simp only:)
  then have sorted_tr: "in_time_order ?tr = ?tr"
    unfolding in_time_order_def track_trajectory_def map_map by (intro map_cong[OF refl]) auto
  have nonempty: "filter (\<lambda>(i, ws). ws = []) ?tr = []" using ok by (fastforce simp: filter_empty_conv track_trajectory_def)
  have ne: "?tr \<noteq> []" using ids n(1) by (auto simp: track_trajectory_def)
  have "JObj [(''version'', JInt SHOW_FORMAT_VERSION), (''drones'', JList (map (\<lambda>(i, wps).
      JObj [(''id'', JInt i), (''waypoints'', JList (map waypoint_json wps))]) tracks))] =
      canonical_show (JInt SHOW_FORMAT_VERSION) (map (\<lambda>(i, ws). (i, JList ws)) ?tr)"
    by (simp add: canonical_show_def track_trajectory_def comp_def case_prod_beta')
  then have gate: "gate_show repr near (generated_file tracks) = safe_trajectory repr near ?tr"
    using canonical_loads[OF schema] sorted_tr nonempty ne
    by (simp add: gate_show_def generated_file_def with_version_def dict_merge_def Let_def)
  obtain ts where ts: "sweep_times (duration tracks) (1 / 10) = Some ts"
    by (cases "duration tracks \<le> 0") (simp_all add: sweep_times_def)
  obtain errors where errors: "validate_trajectory_collisions repr near ?tr None = Inr errors"
    using ts gcs_data_typed[OF schema] typed_tr by (simp add: validate_trajectory_collisions_def collision_errors_def Let_def)
  have "fst (altitude_extremes tracks DEFAULT_LIMITS) = ([], [])"
    unfolding altitude_extremes_Nil using good waypoint_json_good(3) by blast
  then have "validate_trajectory_altitude repr ?tr = Inr []"
    using gcs_data_typed[OF schema] typed_tr by (simp add: validate_trajectory_altitude_def altitude_errors_def)
  then show "gate_show repr near (generated_file tracks) = Inr ?tr \<or>
      (\<exists>errors. errors \<noteq> [] \<and> gate_show repr near (generated_file tracks) = Inl (Collisions errors))"
    using errors by (cases "errors = []") (simp_all add: gate safe_trajectory_def)
qed

lemma track_ok_result:
  assumes ok: "track_ok rate T (pad_starts n pads) (layer_heights n) m d wps" and "0 < m" and "0 < rate" and "d \<in> {0..n - 1}"
  shows "wps \<noteq> [] \<and> sorted (map w_time wps) \<and> (\<forall>wp \<in> set wps. good_waypoint wp) \<and>
    map w_time wps = map (\<lambda>j. round_to 2 (of_nat j / rate)) [0..<m] \<and>
    (w_x (hd wps), w_y (hd wps)) = pad_xy (spawn_pads n pads ! nat d) \<and> w_z (hd wps) = 0 \<and>
    (\<forall>wp \<in> set wps. well_typed_waypoint wp \<and> within_altitudes DEFAULT_LIMITS wp)"
proof -
  have times: "map w_time wps = map (\<lambda>j. round_to 2 (of_nat j / rate)) [0..<m]" and good: "\<forall>wp \<in> set wps. good_waypoint wp"
    using ok by (simp_all add: track_ok_def)
  have ne: "wps \<noteq> []" using times assms(2) by (metis length_map length_upt list.size(3) minus_nat.diff_0 not_gr_zero)
  have "sorted (map w_time wps)"
    unfolding times using assms(3) by (auto simp: sorted_iff_nth_mono intro!: round_to_mono divide_right_mono)
  moreover have "hd wps = takeoff_waypoint T 0 (val (pad_starts n pads) d) (val (layer_heights n) d)"
    using ok ne by (simp add: track_ok_def)
  then have "(w_x (hd wps), w_y (hd wps)) = pad_xy (spawn_pads n pads ! nat d)" "w_z (hd wps) = 0"
    using assms(4) by (simp_all add: pad_starts_def takeoff_waypoint_def plain_waypoint_def ease_ramp ramp_def round_to_0
        split: prod.splits)
  moreover have "well_typed_waypoint wp \<and> within_altitudes DEFAULT_LIMITS wp" if "wp \<in> set wps" for wp
    using good that schema_typed(2)[OF waypoint_json_good(1)] waypoint_json_good(2,3) by metis
  ultimately show ?thesis using ne times good by blast
qed

text \<open>C12. A generated show can be used: for every shape the Studio knows (in any letter case), every fleet
  the pads hold, every duration, sampling rate and pad override of the right length, a show is generated;
  all drones have waypoints at the same instants, the first of them on the drone's own pad on the ground,
  every waypoint well formed and between the ground and the ceiling. Of all the checks of the ground
  station's gate the sweep for collisions is the only one that can refuse its file, and when it does not,
  the trajectory that goes on is the generated one.\<close>

theorem generated_show_passes_gate:
  assumes "1 \<le> n" and "n \<le> MAX_FLEET_SIZE" and "py_lower name \<in> set SHAPE_NAMES" and "0 < rate"
    and "\<not> wrong_length pads n"
  shows "\<exists>tracks. generate_show atan2 interp solve name n dur rate pads None = Inr tracks \<and>
    map fst tracks = [0..n - 1] \<and>
    (\<exists>m > 0. \<forall>(d, wps) \<in> set tracks. map w_time wps = map (\<lambda>j. round_to 2 (of_nat j / rate)) [0..<m] \<and>
       (w_x (hd wps), w_y (hd wps)) = pad_xy (spawn_pads n pads ! nat d) \<and> w_z (hd wps) = 0 \<and>
       (\<forall>wp \<in> set wps. well_typed_waypoint wp \<and> within_altitudes DEFAULT_LIMITS wp)) \<and>
    typed (track_trajectory tracks) = tracks \<and>
    (gate_show repr near (generated_file tracks) = Inr (track_trajectory tracks) \<or>
     (\<exists>errors. errors \<noteq> [] \<and> gate_show repr near (generated_file tracks) = Inl (Collisions errors)))"
proof -
  obtain spec where spec: "shape_named atan2 interp solve n name = Inr spec" "usable_shape spec n"
    using shape_named_usable[OF assms(1-3)] by blast
  obtain tracks T m where t: "run_show spec n dur rate pads None = Inr tracks" "0 < m" "map fst tracks = [0..n - 1]"
    "\<And>d wps. (d, wps) \<in> set tracks \<Longrightarrow> track_ok rate T (pad_starts n pads) (layer_heights n) m d wps"
    using run_show_tracks[OF assms(1,2,5) spec(2) assms(4)] by blast
  have gen: "generate_show atan2 interp solve name n dur rate pads None = Inr tracks"
    using launch_state_Inr[OF assms(1,2,5)] spec(1) t(1) assms(3) by (simp add: generate_show_def)
  have ids: "d \<in> {0..n - 1}" if "(d, wps) \<in> set tracks" for d wps
  proof -
    have "d \<in> set (map fst tracks)" using that by force
    then show ?thesis unfolding t(3) by simp
  qed
  note track = track_ok_result[OF t(4) t(2) assms(4) ids]
  have "wps \<noteq> [] \<and> sorted (map w_time wps) \<and> (\<forall>wp \<in> set wps. good_waypoint wp)" if "(d, wps) \<in> set tracks" for d wps
    using track[OF that that] by blast
  note gate = gate_of_tracks[OF assms(1,2) t(3) this]
  show ?thesis
  proof (intro exI[of _ tracks] conjI gen t(3) gate[THEN conjunct1] gate[THEN conjunct2])
    show "\<exists>m > 0. \<forall>(d, wps) \<in> set tracks. map w_time wps = map (\<lambda>j. round_to 2 (of_nat j / rate)) [0..<m] \<and>
       (w_x (hd wps), w_y (hd wps)) = pad_xy (spawn_pads n pads ! nat d) \<and> w_z (hd wps) = 0 \<and>
       (\<forall>wp \<in> set wps. well_typed_waypoint wp \<and> within_altitudes DEFAULT_LIMITS wp)"
      using t(2) track by (intro exI[of _ m]) blast
  qed
qed

theorem generated_show_passes_gate_witness:
  "\<exists>tracks. generate_show (\<lambda>y x. 0) (\<lambda>xs ys t. 0) (\<lambda>cost. []) ''Heart'' 40 30 10 None None = Inr tracks \<and> length tracks = 40"
proof -
  have name: "py_lower ''Heart'' \<in> set SHAPE_NAMES" by code_simp
  obtain tracks where "generate_show (\<lambda>y x. 0) (\<lambda>xs ys t. 0) (\<lambda>cost. []) ''Heart'' 40 30 10 None None = Inr tracks"
    "map fst tracks = [0..40 - 1]"
    using generated_show_passes_gate[of 40 "''Heart''" 10 None "\<lambda>y x. 0" "\<lambda>xs ys t. 0" "\<lambda>cost. []" 30 "\<lambda>x. []"
      "\<lambda>ps r. []", OF _ _ name]
    by (auto simp: MAX_FLEET_SIZE_def wrong_length_def)
  moreover from this(2) have "length tracks = length [0..40 - 1 :: int]" by (metis length_map)
  ultimately show ?thesis by simp
qed

end
