(* ===== verification/Leg_Speed.thy ===== *)
theory Leg_Speed
  imports Choreography
begin

text \<open>
  How fast a generated show flies, for the waypoints the loop of \<^verbatim>\<open>generator.py\<close> places (takeoff, the blend into
  a formation that may itself move, the choreography, the return to the pad and the descent) and the times
  \<^verbatim>\<open>pacing.py\<close> plans. No code is modelled here; the waypoints are those of \<open>Choreography\<close>.
\<close>

section \<open>Points between two points\<close>







section \<open>Rounding\<close>






section \<open>The distances a show is planned for\<close>







section \<open>The four phases\<close>








section \<open>Property\<close>




end
