(* ===== verification/Downwash.thy ===== *)
theory Downwash
  imports Validate "HOL-Library.Multiset"
begin

text \<open>
  Formation assignment under rotor downwash, \<^verbatim>\<open>packages/tara-studio/tara_studio/optimizer.py\<close>: the cone test,
  the penalised cost matrix, the intrusions of an assignment, the repair by swaps and the refinement of
  the reference morph. The solver \<^verbatim>\<open>linear_sum_assignment\<close> is the parameter \<open>solve\<close>; floats are reals.
  Points are triples (the code also takes dictionaries with the three coordinates). The two loops have a
  bound of the code's own, over which they are \<^theory_text>\<open>primrec\<close>.
\<close>

section \<open>The cone\<close>

definition DOWNWASH_HALF_ANGLE_DEG :: real where "DOWNWASH_HALF_ANGLE_DEG = 30"
definition DEFAULT_PENALTY_WEIGHT :: real where "DEFAULT_PENALTY_WEIGHT = 1000"
definition DEFAULT_MORPH_SAMPLES :: nat where "DEFAULT_MORPH_SAMPLES = 21"
definition MIN_VERTICAL_OFFSET_M :: real where "MIN_VERTICAL_OFFSET_M = 5 / 100"

definition depth_below :: "point3 \<Rightarrow> point3 \<Rightarrow> real" where
  "depth_below p q = snd (snd p) - snd (snd q)"

definition horizontal :: "point3 \<Rightarrow> point3 \<Rightarrow> real" where
  "horizontal p q = sqrt ((fst p - fst q)\<^sup>2 + (fst (snd p) - fst (snd q))\<^sup>2)"

definition in_downwash_cone :: "point3 \<Rightarrow> point3 \<Rightarrow> real \<Rightarrow> bool" where
  "in_downwash_cone lo up half_angle_deg =
     (let dz = depth_below lo up in
      if dz \<le> MIN_VERTICAL_OFFSET_M then False
      else horizontal lo up \<le> dz * tan (radians half_angle_deg))"

section \<open>Samples of a morph\<close>

text \<open>\<^verbatim>\<open>numpy.linspace(0.0, 1.0, samples)\<close>\<close>

definition ratios :: "nat \<Rightarrow> real list" where
  "ratios samples = (if samples = 1 then [0] else map (\<lambda>k. of_nat k / of_nat (samples - 1)) [0..<samples])"

definition morph :: "real \<Rightarrow> point3 \<Rightarrow> point3 \<Rightarrow> point3" where
  "morph t p q = (case (p, q) of ((x, y, z), (x', y', z')) \<Rightarrow> (x + t * (x' - x), y + t * (y' - y), z + t * (z' - z)))"

definition wash_conflict :: "real \<Rightarrow> point3 \<Rightarrow> point3 \<Rightarrow> bool" where
  "wash_conflict tan_half cand other =
     (let dz = depth_below cand other; horiz = horizontal cand other in
      (dz > MIN_VERTICAL_OFFSET_M \<and> horiz \<le> dz * tan_half) \<or>
      (- dz > MIN_VERTICAL_OFFSET_M \<and> horiz \<le> - dz * tan_half))"

definition column_hits :: "point3 list \<Rightarrow> point3 \<Rightarrow> point3 list \<Rightarrow> nat \<Rightarrow> real \<Rightarrow> real list" where
  "column_hits src target ref_dst samples half_angle_deg =
     (let n = length src; tan_half = tan (radians half_angle_deg) in
      map (\<lambda>i. sum_list (map (\<lambda>t. of_nat (length (filter
          (\<lambda>k. k \<noteq> i \<and> wash_conflict tan_half (morph t (src ! i) target) (morph t (src ! k) (ref_dst ! k))) [0..<n])))
        (ratios samples))) [0..<n])"

definition hits_matrix :: "point3 list \<Rightarrow> point3 list \<Rightarrow> point3 list \<Rightarrow> nat \<Rightarrow> real \<Rightarrow> real list list" where
  "hits_matrix src dst ref_dst samples half_angle_deg =
     (let n = length src in
      if n < 2 then replicate n (replicate n 0)
      else
        let columns = map (\<lambda>j. column_hits src (dst ! j) ref_dst samples half_angle_deg) [0..<n]
        in map (\<lambda>i. map (\<lambda>j. columns ! j ! i) [0..<n]) [0..<n])"

definition distance_matrix :: "point3 list \<Rightarrow> point3 list \<Rightarrow> real list list" where
  "distance_matrix src dst = map (\<lambda>p. map (dist3 p) dst) src"

definition penalised :: "real \<Rightarrow> real list list \<Rightarrow> real list list \<Rightarrow> real list list" where
  "penalised w distance hits = map (\<lambda>(ds, hs). map (\<lambda>(d, h). d + w * h) (zip ds hs)) (zip distance hits)"

definition aerodynamic_cost_matrix ::
  "point3 list \<Rightarrow> point3 list \<Rightarrow> real \<Rightarrow> nat \<Rightarrow> real \<Rightarrow> assignment_error + real list list" where
  "aerodynamic_cost_matrix from_pts to_pts w samples half_angle_deg =
     (if length to_pts \<noteq> length from_pts then Inl (SizesDiffer (length from_pts) (length to_pts))
      else if from_pts = [] then Inr []
      else Inr (penalised w (distance_matrix from_pts to_pts)
        (hits_matrix from_pts to_pts to_pts samples half_angle_deg)))"

section \<open>The intrusions of an assignment\<close>

record conflict =
  cf_time_ratio :: real
  cf_lower :: nat
  cf_upper :: nat
  cf_horizontal_m :: real
  cf_cone_radius_m :: real
  cf_vertical_m :: real

definition conflict_at :: "real \<Rightarrow> real \<Rightarrow> point3 list \<Rightarrow> nat \<times> nat \<Rightarrow> conflict option" where
  "conflict_at tan_half t pos ab =
     (case ab of (a, b) \<Rightarrow>
        let dz = depth_below (pos ! a) (pos ! b) in
        if a = b \<or> dz \<le> MIN_VERTICAL_OFFSET_M then None
        else
          let radius = dz * tan_half; horiz = horizontal (pos ! a) (pos ! b) in
          if horiz \<le> radius
          then Some \<lparr>cf_time_ratio = round_to 4 t, cf_lower = a, cf_upper = b, cf_horizontal_m = round_to 3 horiz,
            cf_cone_radius_m = round_to 3 radius, cf_vertical_m = round_to 3 dz\<rparr>
          else None)"

definition positions :: "point3 list \<Rightarrow> point3 list \<Rightarrow> nat list \<Rightarrow> real \<Rightarrow> point3 list" where
  "positions src dst perm t = map (\<lambda>i. morph t (src ! i) (dst ! (perm ! i))) [0..<length src]"

definition find_cone_conflicts ::
  "point3 list \<Rightarrow> point3 list \<Rightarrow> nat list \<Rightarrow> nat \<Rightarrow> real \<Rightarrow> conflict list" where
  "find_cone_conflicts src dst perm samples half_angle_deg =
     (let n = length src; tan_half = tan (radians half_angle_deg) in
      if n < 2 then []
      else concat (map (\<lambda>t. List.map_filter (conflict_at tan_half t (positions src dst perm t))
        (List.product [0..<n] [0..<n])) (ratios samples)))"

section \<open>Repair by swaps\<close>

definition travel :: "real list list \<Rightarrow> nat list \<Rightarrow> real" where
  "travel distance perm = sum_list (map (\<lambda>i. distance ! i ! (perm ! i)) [0..<length perm])"

definition swap_targets :: "nat list \<Rightarrow> nat \<times> nat \<Rightarrow> nat list" where
  "swap_targets perm ab = (case ab of (a, b) \<Rightarrow> perm[a := perm ! b, b := perm ! a])"

text \<open>Fewer intrusions, or as many on a shorter way.\<close>

definition better_than :: "real list list \<Rightarrow> nat list \<times> conflict list \<Rightarrow> nat list \<times> conflict list \<Rightarrow> bool" where
  "better_than distance cand cur =
     (case (cand, cur) of ((p, cs), (q, ds)) \<Rightarrow>
        length cs < length ds \<or> (length cs = length ds \<and> travel distance p < travel distance q - 1 / 10 ^ 9))"

definition involved :: "conflict list \<Rightarrow> nat list" where
  "involved cs = sort (remdups (map cf_lower cs @ map cf_upper cs))"

definition judged :: "(nat list \<Rightarrow> conflict list) \<Rightarrow> nat list \<Rightarrow> nat list \<times> conflict list" where
  "judged conflicts_of perm = (perm, conflicts_of perm)"

definition first_swap ::
  "(nat list \<Rightarrow> conflict list) \<Rightarrow> real list list \<Rightarrow> nat list \<times> conflict list \<Rightarrow> (nat \<times> nat) option" where
  "first_swap conflicts_of distance cur =
     find (\<lambda>ab. fst ab \<noteq> snd ab \<and> better_than distance (judged conflicts_of (swap_targets (fst cur) ab)) cur)
       (List.product (involved (snd cur)) [0..<length (fst cur)])"

primrec repair ::
  "nat \<Rightarrow> (nat list \<Rightarrow> conflict list) \<Rightarrow> real list list \<Rightarrow> nat list \<times> conflict list \<Rightarrow> nat list \<times> conflict list" where
  "repair 0 conflicts_of distance cur = cur"
| "repair (Suc passes) conflicts_of distance cur =
     (if snd cur = [] then cur
      else case first_swap conflicts_of distance cur of
        None \<Rightarrow> cur
      | Some ab \<Rightarrow> repair passes conflicts_of distance (judged conflicts_of (swap_targets (fst cur) ab)))"

definition MAX_PASSES :: nat where "MAX_PASSES = 6"

definition repair_by_swaps ::
  "point3 list \<Rightarrow> point3 list \<Rightarrow> nat list \<Rightarrow> real list list \<Rightarrow> nat \<Rightarrow> real \<Rightarrow> nat list \<times> conflict list" where
  "repair_by_swaps src dst perm distance samples half_angle_deg =
     (let conflicts_of = (\<lambda>p. find_cone_conflicts src dst p samples half_angle_deg)
      in repair MAX_PASSES conflicts_of distance (judged conflicts_of perm))"

section \<open>The assignment\<close>

record report =
  rp_perm :: "nat list"
  rp_conflicts :: "conflict list"
  rp_total_distance_m :: real
  rp_iterations :: nat

definition is_clean :: "report \<Rightarrow> bool" where "is_clean r \<longleftrightarrow> rp_conflicts r = []"

datatype downwash_error = Sizes_Differ nat nat | No_Pass_Run

type_synonym solver = "real list list \<Rightarrow> (nat \<times> nat) list"

definition solved_perm :: "solver \<Rightarrow> real list list \<Rightarrow> nat list" where
  "solved_perm solve cost = foldl (\<lambda>perm (r, c). perm[r := c]) (replicate (length cost) 0) (solve cost)"

text \<open>What one pass finds from the morph of a reference assignment.\<close>

definition candidate ::
  "solver \<Rightarrow> point3 list \<Rightarrow> point3 list \<Rightarrow> real \<Rightarrow> nat \<Rightarrow> real \<Rightarrow> nat list \<Rightarrow> nat list \<times> conflict list" where
  "candidate solve src dst w samples half_angle_deg reference =
     (let distance = distance_matrix src dst;
          ref_dst = map (\<lambda>k. dst ! (reference ! k)) [0..<length src];
          hits = hits_matrix src dst ref_dst samples half_angle_deg
      in repair_by_swaps src dst (solved_perm solve (penalised w distance hits)) distance samples half_angle_deg)"

record refinement =
  rf_reference :: "nat list"
  rf_best :: "(nat list \<times> conflict list) option"
  rf_iterations :: nat
  rf_seen :: "nat list set"

definition keep_best ::
  "real list list \<Rightarrow> (nat list \<times> conflict list) option \<Rightarrow> nat list \<times> conflict list \<Rightarrow> nat list \<times> conflict list" where
  "keep_best distance best cand =
     (case best of None \<Rightarrow> cand | Some b \<Rightarrow> if better_than distance cand b then cand else b)"

primrec refine ::
  "nat \<Rightarrow> (nat list \<Rightarrow> nat list \<times> conflict list) \<Rightarrow> real list list \<Rightarrow> refinement \<Rightarrow> refinement" where
  "refine 0 pass distance st = st"
| "refine (Suc k) pass distance st =
     (let cand = pass (rf_reference st);
          best = keep_best distance (rf_best st) cand;
          st' = st\<lparr>rf_iterations := rf_iterations st + 1, rf_best := Some best\<rparr>
      in if snd best = [] then st'
         else if fst cand \<in> rf_seen st then st'
         else refine k pass distance (st'\<lparr>rf_seen := insert (fst cand) (rf_seen st), rf_reference := fst cand\<rparr>))"

definition aerodynamic_assignment ::
  "solver \<Rightarrow> point3 list \<Rightarrow> point3 list \<Rightarrow> real \<Rightarrow> nat \<Rightarrow> real \<Rightarrow> nat \<Rightarrow> downwash_error + report" where
  "aerodynamic_assignment solve src dst w samples half_angle_deg max_iterations =
     (if length dst \<noteq> length src then Inl (Sizes_Differ (length src) (length dst))
      else if src = [] then Inr \<lparr>rp_perm = [], rp_conflicts = [], rp_total_distance_m = 0, rp_iterations = 0\<rparr>
      else
        let distance = distance_matrix src dst;
            st = refine max_iterations (candidate solve src dst w samples half_angle_deg) distance
              \<lparr>rf_reference = [0..<length src], rf_best = None, rf_iterations = 0, rf_seen = {}\<rparr>
        in case rf_best st of
             None \<Rightarrow> Inl No_Pass_Run
           | Some (perm, conflicts) \<Rightarrow>
               Inr \<lparr>rp_perm = perm, rp_conflicts = conflicts, rp_total_distance_m = travel distance perm,
                 rp_iterations = rf_iterations st\<rparr>)"

section \<open>Lemmas: the cone\<close>

lemma conflict_at_cone:
  "conflict_at (tan (radians h)) t pos (a, b) = None \<longleftrightarrow> a = b \<or> \<not> in_downwash_cone (pos ! a) (pos ! b) h"
  by (simp add: conflict_at_def in_downwash_cone_def Let_def)

lemma conflict_at_ids: "conflict_at tan_half t pos (a, b) = Some c \<Longrightarrow> cf_lower c = a \<and> cf_upper c = b"
  by (auto simp: conflict_at_def Let_def split: if_splits)

definition washed :: "point3 list \<Rightarrow> point3 list \<Rightarrow> nat list \<Rightarrow> nat \<Rightarrow> real \<Rightarrow> bool" where
  "washed src dst perm samples h \<longleftrightarrow> (\<exists>t \<in> set (ratios samples). \<exists>a < length src. \<exists>b < length src. a \<noteq> b \<and>
     in_downwash_cone (positions src dst perm t ! a) (positions src dst perm t ! b) h)"

lemma find_cone_conflicts_Nil: "find_cone_conflicts src dst perm samples h = [] \<longleftrightarrow> \<not> washed src dst perm samples h"
proof (cases "length src < 2")
  case True
  then have "a = b" if "a < length src" "b < length src" for a b using that by linarith
  then show ?thesis using True by (auto simp: find_cone_conflicts_def washed_def Let_def)
next
  case False
  then have "find_cone_conflicts src dst perm samples h = [] \<longleftrightarrow> (\<forall>t \<in> set (ratios samples).
      \<forall>a \<in> {0..<length src}. \<forall>b \<in> {0..<length src}. a = b \<or>
      \<not> in_downwash_cone (positions src dst perm t ! a) (positions src dst perm t ! b) h)"
    by (simp add: find_cone_conflicts_def Let_def map_filter_Nil conflict_at_cone)
  then show ?thesis unfolding washed_def by (simp only: atLeast0LessThan Ball_def lessThan_iff) blast
qed

lemma find_cone_conflicts_ids:
  assumes "c \<in> set (find_cone_conflicts src dst perm samples h)"
  shows "cf_lower c < length src \<and> cf_upper c < length src"
proof -
  obtain t ab where ab: "ab \<in> set (List.product [0..<length src] [0..<length src])"
    "conflict_at (tan (radians h)) t (positions src dst perm t) ab = Some c"
    using assms by (auto simp: find_cone_conflicts_def Let_def map_filter_def split: if_splits)
  obtain a b where "ab = (a, b)" by (cases ab)
  then show ?thesis using ab conflict_at_ids by fastforce
qed

section \<open>Lemmas: permutations\<close>

definition is_perm :: "nat \<Rightarrow> nat list \<Rightarrow> bool" where "is_perm n perm \<longleftrightarrow> mset perm = mset [0..<n]"

lemma is_perm_length: "is_perm n perm \<Longrightarrow> length perm = n"
  unfolding is_perm_def by (metis length_upt diff_zero size_mset)

lemma swap_is_perm: "is_perm n perm \<Longrightarrow> a < n \<Longrightarrow> b < n \<Longrightarrow> is_perm n (swap_targets perm (a, b))"
  using is_perm_length[of n perm] mset_swap[of b perm a] by (simp add: is_perm_def swap_targets_def)

text \<open>The documented result of the solver on a square matrix: the rows in order, the columns a permutation.\<close>

definition assigns :: "solver \<Rightarrow> bool" where
  "assigns solve \<longleftrightarrow> (\<forall>cost. list_all (\<lambda>row. length row = length cost) cost \<longrightarrow>
     map fst (solve cost) = [0..<length cost] \<and> is_perm (length cost) (map snd (solve cost)))"

lemma foldl_writes:
  "k + length cs \<le> length xs \<Longrightarrow>
   foldl (\<lambda>perm (r, c). perm[r := c]) xs (zip [k..<k + length cs] cs) = take k xs @ cs @ drop (k + length cs) xs"
proof (induction cs arbitrary: k xs)
  case (Cons c cs)
  have "zip [k..<k + length (c # cs)] (c # cs) = (k, c) # zip [Suc k..<Suc k + length cs] cs"
    by (simp add: upt_conv_Cons del: upt_Suc)
  then show ?case using Cons.IH[of "Suc k" "xs[k := c]"] Cons.prems by (simp add: take_Suc_conv_app_nth)
qed simp

lemma solved_is_perm:
  assumes "assigns solve" and "list_all (\<lambda>row. length row = length cost) cost"
  shows "is_perm (length cost) (solved_perm solve cost)"
proof -
  let ?cs = "map snd (solve cost)"
  have fst: "map fst (solve cost) = [0..<length cost]" and perm: "is_perm (length cost) ?cs"
    using assms by (auto simp: assigns_def)
  have "solve cost = zip [0..<0 + length ?cs] ?cs"
    using is_perm_length[OF perm] fst by (metis add_0 zip_map_fst_snd)
  moreover have "foldl (\<lambda>perm (r, c). perm[r := c]) (replicate (length cost) 0) (zip [0..<0 + length ?cs] ?cs) = ?cs"
    using foldl_writes[of 0 ?cs "replicate (length cost) 0"] is_perm_length[OF perm] by simp
  ultimately show ?thesis using perm unfolding solved_perm_def by (simp only:)
qed

lemma cost_square:
  assumes "length dst = length src" and "length ref_dst = length src"
  shows "length (penalised w (distance_matrix src dst) (hits_matrix src dst ref_dst samples h)) = length src"
    and "list_all (\<lambda>row. length row = length src) (penalised w (distance_matrix src dst) (hits_matrix src dst ref_dst samples h))"
proof -
  have len: "length (hits_matrix src dst ref_dst samples h) = length src" by (simp add: hits_matrix_def Let_def)
  have rows: "length row = length src" if "row \<in> set (hits_matrix src dst ref_dst samples h)" for row
    using that by (auto simp: hits_matrix_def Let_def split: if_splits)
  show "length (penalised w (distance_matrix src dst) (hits_matrix src dst ref_dst samples h)) = length src"
    using len by (simp add: penalised_def distance_matrix_def)
  show "list_all (\<lambda>row. length row = length src) (penalised w (distance_matrix src dst) (hits_matrix src dst ref_dst samples h))"
    using assms(1) rows by (fastforce simp: list_all_iff penalised_def distance_matrix_def dest: set_zip_leftD set_zip_rightD)
qed

section \<open>Lemmas: the two loops\<close>

text \<open>A candidate is a permutation with its true intrusions.\<close>

definition honest :: "nat \<Rightarrow> (nat list \<Rightarrow> conflict list) \<Rightarrow> nat list \<times> conflict list \<Rightarrow> bool" where
  "honest n conflicts_of cand \<longleftrightarrow> is_perm n (fst cand) \<and> snd cand = conflicts_of (fst cand)"

definition within_fleet :: "nat \<Rightarrow> (nat list \<Rightarrow> conflict list) \<Rightarrow> bool" where
  "within_fleet n conflicts_of \<longleftrightarrow> (\<forall>p. \<forall>c \<in> set (conflicts_of p). cf_lower c < n \<and> cf_upper c < n)"

lemma better_than_fewer: "better_than distance cand cur \<Longrightarrow> length (snd cand) \<le> length (snd cur)"
  by (auto simp: better_than_def split: prod.splits)

lemma find_mem: "find P xs = Some x \<Longrightarrow> x \<in> set xs \<and> P x"
  by (induction xs) (auto split: if_splits)

lemma first_swap_Some:
  assumes "within_fleet n conflicts_of" and "honest n conflicts_of cur" and "first_swap conflicts_of distance cur = Some ab"
  shows "honest n conflicts_of (judged conflicts_of (swap_targets (fst cur) ab))"
    and "length (conflicts_of (swap_targets (fst cur) ab)) \<le> length (snd cur)"
proof -
  obtain a b where ab: "ab = (a, b)" by (cases ab)
  have mem: "ab \<in> set (List.product (involved (snd cur)) [0..<length (fst cur)])"
    and better: "better_than distance (judged conflicts_of (swap_targets (fst cur) ab)) cur"
    using find_mem[OF assms(3)[unfolded first_swap_def]] by blast+
  have "a \<in> set (map cf_lower (snd cur) @ map cf_upper (snd cur))" using mem by (auto simp: ab involved_def)
  then have "a < n" using assms(1,2) by (auto simp: within_fleet_def honest_def)
  moreover have "b < n" using mem is_perm_length assms(2) by (auto simp: ab honest_def)
  ultimately show "honest n conflicts_of (judged conflicts_of (swap_targets (fst cur) ab))"
    using assms(2) by (simp add: honest_def judged_def ab swap_is_perm)
  show "length (conflicts_of (swap_targets (fst cur) ab)) \<le> length (snd cur)"
    using better_than_fewer[OF better] by (simp add: judged_def)
qed

lemma repair_honest:
  assumes "within_fleet n conflicts_of" and "honest n conflicts_of cur"
  shows "honest n conflicts_of (repair k conflicts_of distance cur) \<and>
    length (snd (repair k conflicts_of distance cur)) \<le> length (snd cur)"
  using assms(2)
proof (induction k arbitrary: cur)
  case (Suc k)
  show ?case
  proof (cases "first_swap conflicts_of distance cur")
    case (Some ab)
    note swap = first_swap_Some[OF assms(1) Suc.prems Some]
    show ?thesis using Suc.IH[OF swap(1)] swap(2) Some Suc.prems by (auto simp: judged_def)
  qed (use Suc.prems in simp)
qed simp

lemma keep_best_honest:
  assumes "honest n conflicts_of cand" and "\<forall>b. best = Some b \<longrightarrow> honest n conflicts_of b"
  shows "honest n conflicts_of (keep_best distance best cand)"
  using assms by (auto simp: keep_best_def split: option.splits)

lemma keep_best_fewer:
  "length (snd (keep_best distance best cand)) \<le> length (snd cand)"
  "best = Some b \<Longrightarrow> length (snd (keep_best distance best cand)) \<le> length (snd b)"
proof -
  have "length (snd b) \<le> length (snd cand)" if "\<not> better_than distance cand b" for b
    using that by (auto simp: better_than_def not_less split: prod.splits)
  then show "length (snd (keep_best distance best cand)) \<le> length (snd cand)"
    by (auto simp: keep_best_def split: option.splits)
  show "best = Some b \<Longrightarrow> length (snd (keep_best distance best cand)) \<le> length (snd b)"
    using better_than_fewer by (auto simp: keep_best_def)
qed

lemma refine_best:
  assumes "\<And>reference. is_perm n reference \<Longrightarrow> honest n conflicts_of (pass reference)"
    and "is_perm n (rf_reference st)" and "rf_best st = Some b" and "honest n conflicts_of b"
  shows "\<exists>r. rf_best (refine k pass distance st) = Some r \<and> honest n conflicts_of r \<and> length (snd r) \<le> length (snd b)"
  using assms(2-4)
proof (induction k arbitrary: st b)
  case (Suc k)
  let ?cand = "pass (rf_reference st)"
  let ?best = "keep_best distance (rf_best st) ?cand"
  have cand: "honest n conflicts_of ?cand" using assms(1) Suc.prems(1) by blast
  then have best: "honest n conflicts_of ?best" using Suc.prems(2,3) by (intro keep_best_honest) auto
  have fewer: "length (snd ?best) \<le> length (snd b)" using keep_best_fewer(2) Suc.prems(2) by blast
  define next_st where "next_st = st\<lparr>rf_iterations := rf_iterations st + 1, rf_best := Some ?best,
    rf_seen := insert (fst ?cand) (rf_seen st), rf_reference := fst ?cand\<rparr>"
  have "\<exists>r. rf_best (refine k pass distance next_st) = Some r \<and> honest n conflicts_of r \<and> length (snd r) \<le> length (snd ?best)"
    using cand best by (intro Suc.IH) (simp_all add: next_st_def honest_def)
  then have later: "\<exists>r. rf_best (refine k pass distance next_st) = Some r \<and> honest n conflicts_of r \<and>
      length (snd r) \<le> length (snd b)" using fewer order_trans by blast
  have "rf_best (refine (Suc k) pass distance st) = Some ?best \<or>
      refine (Suc k) pass distance st = refine k pass distance next_st"
    by (simp add: Let_def next_st_def)
  then show ?case using later best fewer by (elim disjE) (blast, simp only:)
qed auto

lemma refine_from_start:
  assumes "\<And>reference. is_perm n reference \<Longrightarrow> honest n conflicts_of (pass reference)" and "0 < k"
    and "is_perm n (rf_reference st)" and "rf_best st = None"
  shows "\<exists>r. rf_best (refine k pass distance st) = Some r \<and> honest n conflicts_of r \<and>
    length (snd r) \<le> length (snd (pass (rf_reference st)))"
proof -
  obtain j where k: "k = Suc j" using assms(2) by (cases k) auto
  let ?cand = "pass (rf_reference st)"
  have cand: "honest n conflicts_of ?cand" using assms(1,3) by blast
  have best: "keep_best distance (rf_best st) ?cand = ?cand" by (simp add: keep_best_def assms(4))
  define next_st where "next_st = st\<lparr>rf_iterations := rf_iterations st + 1, rf_best := Some ?cand,
    rf_seen := insert (fst ?cand) (rf_seen st), rf_reference := fst ?cand\<rparr>"
  have "\<exists>r. rf_best (refine j pass distance next_st) = Some r \<and> honest n conflicts_of r \<and> length (snd r) \<le> length (snd ?cand)"
    using cand by (intro refine_best[OF assms(1)]) (simp_all add: next_st_def honest_def)
  moreover have "rf_best (refine k pass distance st) = Some ?cand \<or> refine k pass distance st = refine j pass distance next_st"
    by (simp add: k Let_def best next_st_def)
  ultimately show ?thesis using cand order_refl by metis
qed

section \<open>The assignment is a permutation, honestly reported\<close>

lemma candidate_honest:
  assumes "assigns solve" and "length dst = length src"
  shows "honest (length src) (\<lambda>p. find_cone_conflicts src dst p samples h) (candidate solve src dst w samples h reference)"
    and "length (snd (candidate solve src dst w samples h reference)) \<le> length (find_cone_conflicts src dst
      (solved_perm solve (penalised w (distance_matrix src dst)
        (hits_matrix src dst (map (\<lambda>k. dst ! (reference ! k)) [0..<length src]) samples h))) samples h)"
proof -
  define conflicts_of where "conflicts_of = (\<lambda>p. find_cone_conflicts src dst p samples h)"
  define start where "start = solved_perm solve (penalised w (distance_matrix src dst)
    (hits_matrix src dst (map (\<lambda>k. dst ! (reference ! k)) [0..<length src]) samples h))"
  have "length (map (\<lambda>k. dst ! (reference ! k)) [0..<length src]) = length src" by simp
  note cost = cost_square[OF assms(2) this, of w samples h]
  let ?cost = "penalised w (distance_matrix src dst)
    (hits_matrix src dst (map (\<lambda>k. dst ! (reference ! k)) [0..<length src]) samples h)"
  have "list_all (\<lambda>row. length row = length ?cost) ?cost" using cost(2) by (simp only: cost(1))
  from solved_is_perm[OF assms(1) this] have "is_perm (length src) start" by (simp only: cost(1) start_def)
  then have "honest (length src) conflicts_of (judged conflicts_of start)" by (simp add: honest_def judged_def)
  moreover have "within_fleet (length src) conflicts_of"
    using find_cone_conflicts_ids by (simp add: within_fleet_def conflicts_of_def)
  ultimately have "honest (length src) conflicts_of (repair MAX_PASSES conflicts_of (distance_matrix src dst) (judged conflicts_of start)) \<and>
      length (snd (repair MAX_PASSES conflicts_of (distance_matrix src dst) (judged conflicts_of start))) \<le>
      length (snd (judged conflicts_of start))"
    by (intro repair_honest)
  then have r: "honest (length src) conflicts_of (repair MAX_PASSES conflicts_of (distance_matrix src dst) (judged conflicts_of start))"
    "length (snd (repair MAX_PASSES conflicts_of (distance_matrix src dst) (judged conflicts_of start))) \<le> length (conflicts_of start)"
    by (simp_all only: judged_def snd_conv)
  have eq: "candidate solve src dst w samples h reference = repair MAX_PASSES conflicts_of (distance_matrix src dst) (judged conflicts_of start)"
    by (simp add: candidate_def repair_by_swaps_def Let_def conflicts_of_def start_def)
  show "honest (length src) (\<lambda>p. find_cone_conflicts src dst p samples h) (candidate solve src dst w samples h reference)"
    using r(1) unfolding eq conflicts_of_def .
  show "length (snd (candidate solve src dst w samples h reference)) \<le> length (find_cone_conflicts src dst
      (solved_perm solve (penalised w (distance_matrix src dst)
        (hits_matrix src dst (map (\<lambda>k. dst ! (reference ! k)) [0..<length src]) samples h))) samples h)"
    using r(2) unfolding eq start_def[symmetric] conflicts_of_def .
qed

text \<open>C39. The assignment under downwash keeps its word: for formations of one size, any weight, number of
  samples, cone and at least one pass, it returns; every target is given to exactly one drone; the reported
  intrusions are the true ones of the paths as assigned, none reported means that at no sample a drone is
  in another's cone, the reported distance is the way flown; and there are never more intrusions than under
  the optimum of the penalised cost matrix that is not repaired.\<close>

theorem downwash_assignment_sound:
  assumes "assigns solve" and "length dst = length src" and "0 < max_iterations"
    and "aerodynamic_cost_matrix src dst w samples h = Inr cost"
  shows "\<exists>r. aerodynamic_assignment solve src dst w samples h max_iterations = Inr r \<and>
    is_perm (length src) (rp_perm r) \<and> rp_conflicts r = find_cone_conflicts src dst (rp_perm r) samples h \<and>
    (is_clean r \<longleftrightarrow> \<not> washed src dst (rp_perm r) samples h) \<and>
    rp_total_distance_m r = (\<Sum>i < length src. dist3 (src ! i) (dst ! (rp_perm r ! i))) \<and>
    length (rp_conflicts r) \<le> length (find_cone_conflicts src dst (solved_perm solve cost) samples h)"
proof (cases "src = []")
  case True
  then show ?thesis
    by (simp add: assms(2)[simplified] aerodynamic_assignment_def is_perm_def find_cone_conflicts_def washed_def is_clean_def)
next
  case False
  define conflicts_of where "conflicts_of = (\<lambda>p. find_cone_conflicts src dst p samples h)"
  let ?pass = "candidate solve src dst w samples h"
  let ?st = "\<lparr>rf_reference = [0..<length src], rf_best = None, rf_iterations = 0, rf_seen = {}\<rparr>"
  obtain b where b: "rf_best (refine max_iterations ?pass (distance_matrix src dst) ?st) = Some b"
    "honest (length src) conflicts_of b" "length (snd b) \<le> length (snd (?pass [0..<length src]))"
    using refine_from_start[of "length src" conflicts_of ?pass max_iterations ?st "distance_matrix src dst"]
      candidate_honest(1)[OF assms(1,2)] assms(3) by (auto simp: conflicts_of_def is_perm_def)
  have perm: "is_perm (length src) (fst b)" and cf: "snd b = find_cone_conflicts src dst (fst b) samples h"
    using b(2) by (simp_all add: honest_def conflicts_of_def)
  have "map (\<lambda>k. dst ! ([0..<length src] ! k)) [0..<length src] = dst"
    using assms(2) by (intro nth_equalityI) simp_all
  moreover have "cost = penalised w (distance_matrix src dst) (hits_matrix src dst dst samples h)"
    using assms(2,4) False by (simp add: aerodynamic_cost_matrix_def)
  ultimately have fewer: "length (snd b) \<le> length (find_cone_conflicts src dst (solved_perm solve cost) samples h)"
    using b(3) candidate_honest(2)[OF assms(1,2), where reference = "[0..<length src]"] order_trans by fastforce
  have lt: "fst b ! i < length dst" if "i < length src" for i
  proof -
    have "fst b ! i \<in> set (fst b)" using that is_perm_length[OF perm] by simp
    moreover have "set (fst b) = {0..<length src}" using perm unfolding is_perm_def by (metis set_mset_mset set_upt)
    ultimately show ?thesis using assms(2) by simp
  qed
  have "travel (distance_matrix src dst) (fst b) = sum_list (map (\<lambda>i. dist3 (src ! i) (dst ! (fst b ! i))) [0..<length src])"
    unfolding travel_def is_perm_length[OF perm]
    by (intro arg_cong[of _ _ sum_list] map_cong[OF refl]) (simp add: distance_matrix_def lt)
  then have way: "travel (distance_matrix src dst) (fst b) = (\<Sum>i < length src. dist3 (src ! i) (dst ! (fst b ! i)))"
    by (simp add: interv_sum_list_conv_sum_set_nat atLeast0LessThan)
  obtain p cs where pcs: "b = (p, cs)" by (cases b)
  show ?thesis
    using b(1) assms(2) False perm cf way fewer
    by (simp add: aerodynamic_assignment_def Let_def pcs is_clean_def find_cone_conflicts_Nil)
qed

theorem downwash_assignment_sound_witness:
  "\<exists>r. aerodynamic_assignment (\<lambda>cost. zip [0..<length cost] [0..<length cost]) [(0, 0, - 5), (4, 0, - 7)]
     [(1, 0, - 5), (4, 3, - 7)] DEFAULT_PENALTY_WEIGHT DEFAULT_MORPH_SAMPLES DOWNWASH_HALF_ANGLE_DEG 4 = Inr r \<and>
     is_perm 2 (rp_perm r)"
proof -
  have "assigns (\<lambda>cost. zip [0..<length cost] [0..<length cost])" by (simp add: assigns_def is_perm_def)
  from downwash_assignment_sound[OF this, of "[(1, 0, - 5), (4, 3, - 7)]" "[(0, 0, - 5), (4, 0, - 7)]" 4]
  show ?thesis by (fastforce simp: aerodynamic_cost_matrix_def eval_nat_numeral)
qed

section \<open>What a pass is\<close>

text \<open>Each pass of the repair takes the first improving swap and ends there: six passes are six swaps, not
  six sweeps over all pairs, so at most twelve drones change their target.\<close>

lemma swap_moves: "{i. i < length p \<and> swap_targets p (a, b) ! i \<noteq> p ! i} \<subseteq> {a, b}"
  unfolding swap_targets_def by (auto, metis nth_list_update_neq)

lemma repair_swaps_only_six:
  "card {i. i < length (fst cur) \<and> fst (repair k conflicts_of distance cur) ! i \<noteq> fst cur ! i} \<le> 2 * k"
proof (induction k arbitrary: cur)
  case (Suc k)
  let ?r = "fst (repair (Suc k) conflicts_of distance cur)"
  show ?case
  proof (cases "snd cur = [] \<or> first_swap conflicts_of distance cur = None")
    case False
    then obtain a b where ab: "first_swap conflicts_of distance cur = Some (a, b)" "snd cur \<noteq> []" by auto
    let ?next = "judged conflicts_of (swap_targets (fst cur) (a, b))"
    let ?moved = "{i. i < length (fst ?next) \<and> fst (repair k conflicts_of distance ?next) ! i \<noteq> fst ?next ! i}"
    have r: "?r = fst (repair k conflicts_of distance ?next)" using ab by simp
    have sub: "{i. i < length (fst cur) \<and> ?r ! i \<noteq> fst cur ! i} \<subseteq> ?moved \<union> {a, b}"
      using swap_moves[of "fst cur" a b] unfolding r by (auto simp: judged_def swap_targets_def)
    have "card {i. i < length (fst cur) \<and> ?r ! i \<noteq> fst cur ! i} \<le> card (?moved \<union> {a, b})"
      by (rule card_mono[OF _ sub]) simp
    also have "\<dots> \<le> card ?moved + card {a, b}" by (rule card_Un_le)
    also have "\<dots> \<le> 2 * k + 2" by (rule add_mono[OF Suc.IH]) (simp add: card_insert_if)
    finally show ?thesis by simp
  qed auto
qed simp

end
