(* ===== verification/Feasibility.thy ===== *)
theory Feasibility
  imports Validate
begin

text \<open>
  The Studio's certification, \<^verbatim>\<open>packages/tara-studio/tara_studio/validator.py\<close>: the dynamics sweep
  (speed, cornering, jerk, separation), the choice of limits of the historical entry point, and the
  decision whether a show may be exported for flight. Every measure is a function of a sampled track and
  an index; the violations are collected sample by sample, drone by drone. The spatial index is the
  parameter of \<open>Validate\<close>; the number in the summary is printed by \<open>fmt_fixed\<close>.
\<close>

section \<open>Limits\<close>

record dynamic_limits =
  dl_max_velocity :: real
  dl_max_centripetal :: real
  dl_max_jerk :: real
  dl_min_separation :: real

definition DEFAULT_DYNAMIC_LIMITS :: dynamic_limits where
  "DEFAULT_DYNAMIC_LIMITS = \<lparr>dl_max_velocity = 4, dl_max_centripetal = 25 / 10, dl_max_jerk = 20,
     dl_min_separation = 15 / 10\<rparr>"

definition DYNAMICS_SWEEP_DT_S :: real where "DYNAMICS_SWEEP_DT_S = 1 / 10"

section \<open>The historical entry point\<close>

datatype certify_error = Limits_Refused limits_error | Not_Validated validate_error

definition choreography_limits :: "real option \<Rightarrow> real option \<Rightarrow> real option \<Rightarrow> real option \<Rightarrow> limits" where
  "choreography_limits safe_dist max_velocity max_accel max_yaw_rate =
     DEFAULT_LIMITS\<lparr>design_separation_m :=
         max (getd safe_dist (design_separation_m DEFAULT_LIMITS)) (min_separation_m DEFAULT_LIMITS),
       max_velocity_ms := getd max_velocity (max_velocity_ms DEFAULT_LIMITS),
       max_accel_ms2 := getd max_accel (max_accel_ms2 DEFAULT_LIMITS),
       max_yaw_rate_dps := getd max_yaw_rate (max_yaw_rate_dps DEFAULT_LIMITS)\<rparr>"

definition validate_choreography ::
  "near_pairs \<Rightarrow> (point3 list \<Rightarrow> real list) \<Rightarrow> show_data \<Rightarrow> real option \<Rightarrow> real option \<Rightarrow> real option \<Rightarrow> real option
    \<Rightarrow> certify_error + validation" where
  "validate_choreography near second data safe_dist max_velocity max_accel max_yaw_rate =
     (case limits_check (choreography_limits safe_dist max_velocity max_accel max_yaw_rate) of
        Inl e \<Rightarrow> Inl (Limits_Refused e)
      | Inr l \<Rightarrow> (case validate_show near second data l safe_dist (1 / 10) of
            Inl e \<Rightarrow> Inl (Not_Validated e) | Inr rep \<Rightarrow> Inr rep))"

section \<open>Measures of a sampled track\<close>

definition cross3 :: "point3 \<Rightarrow> point3 \<Rightarrow> point3" where
  "cross3 v a = (case (v, a) of ((vx, vy, vz), (ax, ay, az)) \<Rightarrow>
     (vy * az - vz * ay, vz * ax - vx * az, vx * ay - vy * ax))"

text \<open>Curvature and speed from three samples.\<close>

definition curvature :: "point3 \<Rightarrow> point3 \<Rightarrow> point3 \<Rightarrow> real \<Rightarrow> real \<times> real" where
  "curvature before cur after dt =
     (case (before, cur, after) of ((x0, y0, z0), (x1, y1, z1), (x2, y2, z2)) \<Rightarrow>
       (let v = ((x2 - x0) / (2 * dt), (y2 - y0) / (2 * dt), (z2 - z0) / (2 * dt)); speed = length3 v in
        if speed < 1 / 10 ^ 6 then (0, speed)
        else
          let a = ((x2 - 2 * x1 + x0) / (dt * dt), (y2 - 2 * y1 + y0) / (dt * dt), (z2 - 2 * z1 + z0) / (dt * dt))
          in (length3 (cross3 v a) / speed ^ 3, speed)))"

type_synonym track = "point3 option list"

definition sampled_track :: "real list \<Rightarrow> waypoint list \<Rightarrow> track" where
  "sampled_track ts wps = map (\<lambda>t. map_option xyz (interpolate_waypoint wps t)) ts"

definition speed_at :: "real \<Rightarrow> track \<Rightarrow> nat \<Rightarrow> real option" where
  "speed_at dt track k =
     (if k = 0 then None
      else case (track ! k, track ! (k - 1)) of
        (Some cur, Some prev) \<Rightarrow> Some (dist3 cur prev / dt) | _ \<Rightarrow> None)"

definition cornering_at :: "real \<Rightarrow> track \<Rightarrow> nat \<Rightarrow> (real \<times> real) option" where
  "cornering_at dt track k =
     (if 0 < k \<and> k + 1 < length track
      then (case (track ! (k - 1), track ! k, track ! (k + 1)) of
          (Some before, Some cur, Some after) \<Rightarrow> Some (curvature before cur after dt) | _ \<Rightarrow> None)
      else None)"

definition centripetal :: "real \<times> real \<Rightarrow> real" where
  "centripetal c = (case c of (kappa, speed) \<Rightarrow> kappa * speed * speed)"

text \<open>Where the stencil fits there are five samples, so the step is not zero and there is a jerk.\<close>

definition jerk_at :: "real \<Rightarrow> track \<Rightarrow> nat \<Rightarrow> real option" where
  "jerk_at dt track k =
     (if 1 < k \<and> k + 2 < length track \<and> track ! k \<noteq> None
      then (case (track ! (k - 2), track ! (k - 1), track ! (k + 1), track ! (k + 2)) of
          (Some a, Some b, Some c, Some d) \<Rightarrow> jerk_from_positions a b c d dt | _ \<Rightarrow> None)
      else None)"

section \<open>The sweep\<close>

datatype dyn_violation =
    Dyn_Velocity real int real real
  | Dyn_Centripetal real int real real real real
  | Dyn_Jerk real int real real
  | Dyn_Separation real real real

type_synonym tracks = "(int, track) dict"

definition collect_over ::
  "real list \<Rightarrow> tracks \<Rightarrow> (track \<Rightarrow> nat \<Rightarrow> 'm option) \<Rightarrow> (real \<Rightarrow> int \<Rightarrow> 'm \<Rightarrow> 'r option) \<Rightarrow> 'r list" where
  "collect_over ts tracks gauge judge =
     concat (map (\<lambda>k. List.map_filter (\<lambda>(d, track). Option.bind (gauge track k) (judge (ts ! k) d)) tracks)
       [0..<length ts])"

definition past_limit :: "real \<Rightarrow> real \<Rightarrow> 'v \<Rightarrow> (real \<times> 'v) option" where
  "past_limit value limit v = (if value > limit then Some (value - limit, v) else None)"

definition velocity_found :: "dynamic_limits \<Rightarrow> real \<Rightarrow> real list \<Rightarrow> tracks \<Rightarrow> (real \<times> dyn_violation) list" where
  "velocity_found l dt ts tracks = collect_over ts tracks (speed_at dt) (\<lambda>t d speed.
     past_limit speed (dl_max_velocity l) (Dyn_Velocity (round_to 2 t) d (round_to 2 speed) (dl_max_velocity l)))"

definition centripetal_found :: "dynamic_limits \<Rightarrow> real \<Rightarrow> real list \<Rightarrow> tracks \<Rightarrow> (real \<times> dyn_violation) list" where
  "centripetal_found l dt ts tracks = collect_over ts tracks (cornering_at dt) (\<lambda>t d c.
     past_limit (centripetal c) (dl_max_centripetal l) (Dyn_Centripetal (round_to 2 t) d (round_to 2 (centripetal c))
       (round_to 4 (fst c)) (round_to 2 (snd c)) (dl_max_centripetal l)))"

definition jerk_found :: "dynamic_limits \<Rightarrow> real \<Rightarrow> real list \<Rightarrow> tracks \<Rightarrow> (real \<times> dyn_violation) list" where
  "jerk_found l dt ts tracks = collect_over ts tracks (jerk_at dt) (\<lambda>t d j.
     past_limit j (dl_max_jerk l) (Dyn_Jerk (round_to 2 t) d (round_to 2 j) (dl_max_jerk l)))"

definition positions_of :: "tracks \<Rightarrow> nat \<Rightarrow> (int, point3) dict" where
  "positions_of tracks k = List.map_filter (\<lambda>(d, track). map_option (Pair d) (track ! k)) tracks"

definition separation_found ::
  "(point3 list \<Rightarrow> real list) \<Rightarrow> dynamic_limits \<Rightarrow> real list \<Rightarrow> tracks \<Rightarrow> (real \<times> dyn_violation) list" where
  "separation_found second l ts tracks = List.map_filter (\<lambda>k.
     case min_separation second (positions_of tracks k) of None \<Rightarrow> None
     | Some d \<Rightarrow> if d < dl_min_separation l
         then Some (dl_min_separation l - d, Dyn_Separation (round_to 2 (ts ! k)) (round_to 2 d) (dl_min_separation l))
         else None) [0..<length ts]"

definition peak :: "real list \<Rightarrow> tracks \<Rightarrow> (track \<Rightarrow> nat \<Rightarrow> real option) \<Rightarrow> real" where
  "peak ts tracks gauge = foldl max 0 (collect_over ts tracks gauge (\<lambda>t d v. Some v))"

definition least_separation :: "(point3 list \<Rightarrow> real list) \<Rightarrow> real list \<Rightarrow> tracks \<Rightarrow> real option" where
  "least_separation second ts tracks =
     foldl min_inf None (map (\<lambda>k. min_separation second (positions_of tracks k)) [0..<length ts])"

section \<open>The report\<close>

record dynamics_report =
  dy_status :: string
  dy_summary :: string
  dy_max_velocity :: real
  dy_max_centripetal :: real
  dy_max_jerk :: real
  dy_min_distance :: real
  dy_violations :: "(string, dyn_violation list) dict"
  dy_worst :: "(string, dyn_violation option) dict"
  dy_certified :: bool

definition DYNAMICS_KINDS :: "string list" where
  "DYNAMICS_KINDS = [''velocity'', ''centripetal'', ''jerk'', ''separation'']"

definition no_dynamics_report :: dynamics_report where
  "no_dynamics_report =
     \<lparr>dy_status = ''FAILED'', dy_summary = ''No drones found in choreography.'', dy_max_velocity = 0,
      dy_max_centripetal = 0, dy_max_jerk = 0, dy_min_distance = 0, dy_violations = map (\<lambda>k. (k, [])) DYNAMICS_KINDS,
      dy_worst = map (\<lambda>k. (k, None)) DYNAMICS_KINDS, dy_certified = False\<rparr>"

definition reported :: "(real \<times> 'v) list \<Rightarrow> 'v list" where
  "reported items = (case report_subset MAX_REPORTED items of None \<Rightarrow> [] | Some vs \<Rightarrow> vs)"

definition dynamics_found ::
  "(point3 list \<Rightarrow> real list) \<Rightarrow> dynamic_limits \<Rightarrow> real \<Rightarrow> real list \<Rightarrow> tracks \<Rightarrow> (string, (real \<times> dyn_violation) list) dict" where
  "dynamics_found second l dt ts tracks =
     [(''velocity'', velocity_found l dt ts tracks), (''centripetal'', centripetal_found l dt ts tracks),
      (''jerk'', jerk_found l dt ts tracks), (''separation'', separation_found second l ts tracks)]"

definition finish_dynamics ::
  "(point3 list \<Rightarrow> real list) \<Rightarrow> dynamic_limits \<Rightarrow> real \<Rightarrow> real list \<Rightarrow> tracks \<Rightarrow> dynamics_report" where
  "finish_dynamics second l dt ts tracks =
     (let found = dynamics_found second l dt ts tracks;
          violations = map (\<lambda>(k, items). (k, reported items)) found;
          failed = list_ex (\<lambda>(k, vs). vs \<noteq> []) violations
      in \<lparr>dy_status = (if failed then ''FAILED'' else ''PASSED''),
          dy_summary = (if failed then ''Choreography is not dynamically feasible.''
            else ''Choreography is dynamically feasible!''),
          dy_max_velocity = round_to 2 (peak ts tracks (speed_at dt)),
          dy_max_centripetal = round_to 2 (peak ts tracks (\<lambda>track k. map_option centripetal (cornering_at dt track k))),
          dy_max_jerk = round_to 2 (peak ts tracks (jerk_at dt)),
          dy_min_distance = (case least_separation second ts tracks of None \<Rightarrow> 0 | Some d \<Rightarrow> round_to 2 d),
          dy_violations = violations, dy_worst = map (\<lambda>(k, items). (k, worst_of items)) found,
          dy_certified = (\<not> failed)\<rparr>)"

definition validate_dynamics ::
  "(point3 list \<Rightarrow> real list) \<Rightarrow> show_data \<Rightarrow> dynamic_limits \<Rightarrow> real \<Rightarrow> validate_error + dynamics_report" where
  "validate_dynamics second data l dt =
     (case from_any data of Inl e \<Rightarrow> Inl (Unreadable e)
      | Inr s \<Rightarrow>
          if s = [] then Inr no_dynamics_report
          else (case sweep_times (duration s) dt of None \<Rightarrow> Inl DivisionByZero
            | Some ts \<Rightarrow> Inr (finish_dynamics second l dt ts (map (\<lambda>(d, wps). (d, sampled_track ts wps)) s))))"

section \<open>Certification\<close>

definition jerk_violations :: "dynamics_report \<Rightarrow> dyn_violation list" where
  "jerk_violations r = getd (map_of (dy_violations r) ''jerk'') []"

definition certify_feasibility ::
  "near_pairs \<Rightarrow> (point3 list \<Rightarrow> real list) \<Rightarrow> show_data \<Rightarrow> limits \<Rightarrow> dynamic_limits \<Rightarrow> validate_error + bool" where
  "certify_feasibility near second data l dl =
     (case validate_show near second data l None (1 / 10) of Inl e \<Rightarrow> Inl e
      | Inr safety \<Rightarrow>
          (case validate_dynamics second data dl DYNAMICS_SWEEP_DT_S of Inl e \<Rightarrow> Inl e
           | Inr dynamics \<Rightarrow> Inr (vr_status safety = ''PASSED'' \<and> jerk_violations dynamics = [])))"

record certificate =
  ct_status :: string
  ct_summary :: string
  ct_core :: validation
  ct_jerk :: "dyn_violation list"
  ct_max_jerk :: real
  ct_jerk_dt :: real
  ct_certified :: bool

definition jerk_summary :: "nat \<Rightarrow> real \<Rightarrow> real \<Rightarrow> string" where
  "jerk_summary count max_jerk limit =
     ''Choreography failed feasibility certification: '' @ py_str (int count) @ '' jerk violation(s) (peak '' @
     fmt_fixed 1 max_jerk @ '' m/s^3 exceeds limit '' @ fmt_fixed 1 limit @ '' m/s^3).''"

text \<open>The report of the safety check with the jerk violations, the peak jerk and its method added.\<close>

definition certify_feasibility_report ::
  "near_pairs \<Rightarrow> (point3 list \<Rightarrow> real list) \<Rightarrow> show_data \<Rightarrow> limits \<Rightarrow> dynamic_limits
    \<Rightarrow> validate_error + bool \<times> certificate" where
  "certify_feasibility_report near second data l dl =
     (case validate_show near second data l None (1 / 10) of Inl e \<Rightarrow> Inl e
      | Inr safety \<Rightarrow>
          (case validate_dynamics second data dl DYNAMICS_SWEEP_DT_S of Inl e \<Rightarrow> Inl e
           | Inr dynamics \<Rightarrow>
               let jerk = jerk_violations dynamics;
                   core_passed = (vr_status safety = ''PASSED'');
                   has_no_jerk = (length jerk = 0);
                   ok = (core_passed \<and> has_no_jerk)
               in Inr (ok, \<lparr>ct_status = (if ok then vr_status safety else ''FAILED''),
                 ct_summary = (if \<not> ok \<and> core_passed \<and> \<not> has_no_jerk
                   then jerk_summary (length jerk) (dy_max_jerk dynamics) (dl_max_jerk dl) else vr_summary safety),
                 ct_core = safety, ct_jerk = jerk, ct_max_jerk = dy_max_jerk dynamics,
                 ct_jerk_dt = DYNAMICS_SWEEP_DT_S, ct_certified = ok\<rparr>)))"

definition core_violated :: "certificate \<Rightarrow> bool" where
  "core_violated c \<longleftrightarrow> list_ex (\<lambda>(k, vs). vs \<noteq> []) (vr_violations (ct_core c))"

section \<open>Lemmas: what is collected\<close>

lemma reported_Nil: "reported items = [] \<longleftrightarrow> items = []"
  using report_subset_Nil[of items] report_subset_defined[of items] by (auto simp: reported_def split: option.splits)

lemma reported_capped: "length (reported items) \<le> MAX_REPORTED"
proof (cases "length items \<le> MAX_REPORTED")
  case True
  then show ?thesis by (simp add: reported_def report_subset_def)
next
  case False
  have "length (report_picks MAX_REPORTED items) \<le> MAX_REPORTED"
  proof -
    let ?picks = "take 25 (by_severity items) @ take (50 - 25) xs"
    have "length (sort (remdups (take 25 (by_severity items) @ take 25 xs))) \<le> 50" for xs
      using length_remdups_leq[of "take 25 (by_severity items) @ take 25 xs"] by simp
    then show ?thesis by (simp add: report_picks_def MAX_REPORTED_def Let_def)
  qed
  then show ?thesis using False by (simp add: reported_def report_subset_def MAX_REPORTED_def)
qed

lemma bind_None: "Option.bind x f = None \<longleftrightarrow> (\<forall>m. x = Some m \<longrightarrow> f m = None)"
  by (cases x) auto

lemma collect_over_Nil:
  "collect_over ts tracks gauge judge = [] \<longleftrightarrow>
    (\<forall>k < length ts. \<forall>(d, track) \<in> set tracks. \<forall>m. gauge track k = Some m \<longrightarrow> judge (ts ! k) d m = None)"
  by (simp add: collect_over_def map_filter_Nil split_beta bind_None atLeast0LessThan) blast

lemma past_limit_None: "past_limit value limit v = None \<longleftrightarrow> value \<le> limit"
  by (simp add: past_limit_def not_less)

text \<open>A gauge that stays within its limit on every track at every sample.\<close>

definition kept_by :: "real \<Rightarrow> (track \<Rightarrow> nat \<Rightarrow> real option) \<Rightarrow> choreography \<Rightarrow> real list \<Rightarrow> bool" where
  "kept_by limit gauge s ts \<longleftrightarrow>
     (\<forall>k < length ts. \<forall>(d, wps) \<in> set s. \<forall>v. gauge (sampled_track ts wps) k = Some v \<longrightarrow> v \<le> limit)"

definition sampled_tracks :: "real list \<Rightarrow> choreography \<Rightarrow> tracks" where
  "sampled_tracks ts s = map (\<lambda>(d, wps). (d, sampled_track ts wps)) s"

lemma found_Nil:
  "velocity_found l dt ts (sampled_tracks ts s) = [] \<longleftrightarrow> kept_by (dl_max_velocity l) (speed_at dt) s ts"
  "jerk_found l dt ts (sampled_tracks ts s) = [] \<longleftrightarrow> kept_by (dl_max_jerk l) (jerk_at dt) s ts"
  "centripetal_found l dt ts (sampled_tracks ts s) = [] \<longleftrightarrow>
     kept_by (dl_max_centripetal l) (\<lambda>track k. map_option centripetal (cornering_at dt track k)) s ts"
  unfolding velocity_found_def jerk_found_def centripetal_found_def collect_over_Nil past_limit_None kept_by_def
    sampled_tracks_def by fastforce+

section \<open>Lemmas: separation\<close>

text \<open>What \<^verbatim>\<open>query(coords, k=2)\<close> documents: the second column holds, for every point, the distance to the
  nearest of the others.\<close>

definition second_nearest :: "(point3 list \<Rightarrow> real list) \<Rightarrow> bool" where
  "second_nearest second \<longleftrightarrow> (\<forall>pts. 2 \<le> length pts \<longrightarrow> second pts =
     map (\<lambda>i. Min ((\<lambda>j. dist3 (pts ! i) (pts ! j)) ` ({..<length pts} - {i}))) [0..<length pts])"

lemma dist3_swap: "dist3 p q = dist3 q p"
  by (simp add: dist3_def power2_commute split: prod.splits)

lemma min_separation_reaches:
  assumes "second_nearest second"
  shows "(\<forall>d. min_separation second pos = Some d \<longrightarrow> limit \<le> d) \<longleftrightarrow>
    (\<forall>j < length pos. \<forall>i < j. limit \<le> dist3 (snd (pos ! i)) (snd (pos ! j)))"
proof (cases "length pos < 2")
  case True
  then have "\<not> (j < length pos \<and> i < j)" for i j by linarith
  then show ?thesis using True by (auto simp: min_separation_def)
next
  case False
  let ?n = "length pos"
  let ?d = "\<lambda>i j. dist3 (snd (pos ! i)) (snd (pos ! j))"
  have others: "finite ({..<?n} - {i})" "{..<?n} - {i} \<noteq> {}" for i
  proof -
    have "(if i = 0 then 1 else 0) \<in> {..<?n} - {i}" using False by (cases pos) auto
    then show "{..<?n} - {i} \<noteq> {}" by blast
  qed simp
  have "set (second (map snd pos)) = (\<lambda>i. Min (?d i ` ({..<?n} - {i}))) ` {..<?n}"
    using assms False by (auto simp: second_nearest_def image_def)
  then have "(\<forall>d. min_separation second pos = Some d \<longrightarrow> limit \<le> d) \<longleftrightarrow>
      limit \<le> Min ((\<lambda>i. Min (?d i ` ({..<?n} - {i}))) ` {..<?n})"
    using False by (simp add: min_separation_def)
  also have "\<dots> \<longleftrightarrow> (\<forall>i < ?n. \<forall>j \<in> {..<?n} - {i}. limit \<le> ?d i j)"
    using False others by (subst Min_ge_iff) (auto simp: Min_ge_iff)
  also have "\<dots> \<longleftrightarrow> (\<forall>j < ?n. \<forall>i < j. limit \<le> ?d i j)"
  proof
    assume all: "\<forall>j < ?n. \<forall>i < j. limit \<le> ?d i j"
    show "\<forall>i < ?n. \<forall>j \<in> {..<?n} - {i}. limit \<le> ?d i j"
    proof (intro allI impI ballI)
      fix i j assume "i < ?n" "j \<in> {..<?n} - {i}"
      then consider "i < j" "j < ?n" | "j < i" "i < ?n" by force
      then show "limit \<le> ?d i j"
        by cases (use all dist3_swap[of "snd (pos ! i)"] in metis)+
    qed
  qed auto
  finally show ?thesis .
qed

lemma separation_found_Nil:
  "separation_found second l ts tracks = [] \<longleftrightarrow>
    (\<forall>k < length ts. \<forall>d. min_separation second (positions_of tracks k) = Some d \<longrightarrow> dl_min_separation l \<le> d)"
proof -
  have "(case x of None \<Rightarrow> None | Some d \<Rightarrow> if d < limit then Some (f d) else None) = None \<longleftrightarrow>
      (\<forall>d. x = Some d \<longrightarrow> limit \<le> d)" for x :: "real option" and limit and f :: "real \<Rightarrow> real \<times> dyn_violation"
    by (cases x) auto
  then show ?thesis by (simp add: separation_found_def map_filter_Nil atLeast0LessThan Ball_def)
qed

section \<open>What certification means\<close>

definition all_apart :: "real \<Rightarrow> choreography \<Rightarrow> real list \<Rightarrow> bool" where
  "all_apart limit s ts \<longleftrightarrow> (\<forall>k < length ts. let pos = positions_of (sampled_tracks ts s) k in
     \<forall>j < length pos. \<forall>i < j. limit \<le> dist3 (snd (pos ! i)) (snd (pos ! j)))"

lemma finish_dynamics_certified:
  assumes "second_nearest second"
  shows "dy_certified (finish_dynamics second l dt ts (sampled_tracks ts s)) \<longleftrightarrow>
    kept_by (dl_max_velocity l) (speed_at dt) s ts \<and> kept_by (dl_max_jerk l) (jerk_at dt) s ts \<and>
    kept_by (dl_max_centripetal l) (\<lambda>track k. map_option centripetal (cornering_at dt track k)) s ts \<and>
    all_apart (dl_min_separation l) s ts"
  by (auto simp: finish_dynamics_def dynamics_found_def Let_def reported_Nil found_Nil separation_found_Nil all_apart_def
      min_separation_reaches[OF assms])

lemma validate_dynamics_reads:
  assumes "validate_dynamics second data l dt = Inr r"
  shows "\<exists>s. from_any data = Inr s \<and> ((s = [] \<and> r = no_dynamics_report) \<or>
    (s \<noteq> [] \<and> (\<exists>ts. sweep_times (duration s) dt = Some ts \<and> r = finish_dynamics second l dt ts (sampled_tracks ts s))))"
  using assms by (auto simp: validate_dynamics_def sampled_tracks_def split: sum.splits option.splits if_splits)

text \<open>What the sweep could report, written without it: the violations of a kind with how far past the limit
  each goes, and the pairs of a sample that is too tight.\<close>

definition exceeding ::
  "real list \<Rightarrow> choreography \<Rightarrow> (track \<Rightarrow> nat \<Rightarrow> 'm option) \<Rightarrow> ('m \<Rightarrow> real) \<Rightarrow> real \<Rightarrow> (real \<Rightarrow> int \<Rightarrow> 'm \<Rightarrow> 'v) \<Rightarrow> (real \<times> 'v) set" where
  "exceeding ts s gauge amount limit entry =
     {(amount m - limit, entry (ts ! k) d m) | k d wps m.
        k < length ts \<and> (d, wps) \<in> set s \<and> gauge (sampled_track ts wps) k = Some m \<and> limit < amount m}"

definition too_close ::
  "(point3 list \<Rightarrow> real list) \<Rightarrow> real list \<Rightarrow> choreography \<Rightarrow> real \<Rightarrow> (real \<times> dyn_violation) set" where
  "too_close second ts s limit =
     {(limit - d, Dyn_Separation (round_to 2 (ts ! k)) (round_to 2 d) limit) | k d.
        k < length ts \<and> min_separation second (positions_of (sampled_tracks ts s) k) = Some d \<and> d < limit}"

definition violations_of ::
  "(point3 list \<Rightarrow> real list) \<Rightarrow> dynamic_limits \<Rightarrow> real \<Rightarrow> real list \<Rightarrow> choreography \<Rightarrow> string \<Rightarrow> (real \<times> dyn_violation) set" where
  "violations_of second l dt ts s kind =
     (if kind = ''velocity'' then exceeding ts s (speed_at dt) id (dl_max_velocity l)
        (\<lambda>t d v. Dyn_Velocity (round_to 2 t) d (round_to 2 v) (dl_max_velocity l))
      else if kind = ''centripetal'' then exceeding ts s (cornering_at dt) centripetal (dl_max_centripetal l)
        (\<lambda>t d c. Dyn_Centripetal (round_to 2 t) d (round_to 2 (centripetal c)) (round_to 4 (fst c)) (round_to 2 (snd c))
           (dl_max_centripetal l))
      else if kind = ''jerk'' then exceeding ts s (jerk_at dt) id (dl_max_jerk l)
        (\<lambda>t d j. Dyn_Jerk (round_to 2 t) d (round_to 2 j) (dl_max_jerk l))
      else too_close second ts s (dl_min_separation l))"

text \<open>A list of violations and a worst one that are true of the set of all: nothing invented, nothing left out
  unless the list is full, never empty where there is one, and the worst one is as far past its limit as any and
  is in the list.\<close>

definition true_of :: "'v list \<Rightarrow> 'v option \<Rightarrow> (real \<times> 'v) set \<Rightarrow> bool" where
  "true_of vs worst all \<longleftrightarrow>
     set vs \<subseteq> snd ` all \<and> length vs \<le> MAX_REPORTED \<and> (length vs < MAX_REPORTED \<longrightarrow> snd ` all \<subseteq> set vs) \<and>
     (vs = [] \<longleftrightarrow> all = {}) \<and>
     (case worst of None \<Rightarrow> all = {}
      | Some w \<Rightarrow> w \<in> set vs \<and> (\<exists>e. (e, w) \<in> all \<and> (\<forall>(e', v) \<in> all. e' \<le> e)))"

lemma set_map_filter: "set (List.map_filter f xs) = {y. \<exists>x \<in> set xs. f x = Some y}"
  by (induction xs) (auto simp: List.map_filter_simps split: option.splits)

lemma collect_over_set:
  "set (collect_over ts (sampled_tracks ts s) gauge (\<lambda>t d m. past_limit (amount m) limit (entry t d m))) =
    exceeding ts s gauge amount limit entry"
proof (intro equalityI subsetI)
  let ?judge = "\<lambda>t d m. past_limit (amount m) limit (entry t d m)"
  have step: "Option.bind (gauge track k) (?judge t d) = Some x \<longleftrightarrow>
      (\<exists>m. gauge track k = Some m \<and> limit < amount m \<and> x = (amount m - limit, entry t d m))" for track k t d x
    by (cases "gauge track k") (auto simp: past_limit_def)
  fix x
  assume "x \<in> set (collect_over ts (sampled_tracks ts s) gauge ?judge)"
  then obtain k d wps where "k < length ts" "(d, wps) \<in> set s"
    "Option.bind (gauge (sampled_track ts wps) k) (?judge (ts ! k) d) = Some x"
    by (auto simp: collect_over_def sampled_tracks_def set_map_filter)
  then show "x \<in> exceeding ts s gauge amount limit entry" unfolding step exceeding_def by blast
next
  let ?judge = "\<lambda>t d m. past_limit (amount m) limit (entry t d m)"
  fix x
  assume "x \<in> exceeding ts s gauge amount limit entry"
  then obtain k d wps where k: "k < length ts" "(d, wps) \<in> set s"
    "Option.bind (gauge (sampled_track ts wps) k) (?judge (ts ! k) d) = Some x"
    by (auto simp: exceeding_def past_limit_def)
  then have "x \<in> set (List.map_filter (\<lambda>(d, track). Option.bind (gauge track k) (?judge (ts ! k) d)) (sampled_tracks ts s))"
    by (auto simp: set_map_filter sampled_tracks_def intro!: bexI[of _ "(d, wps)"])
  then show "x \<in> set (collect_over ts (sampled_tracks ts s) gauge ?judge)"
    using k(1) by (auto simp: collect_over_def)
qed

lemma separation_found_set: "set (separation_found second l ts (sampled_tracks ts s)) = too_close second ts s (dl_min_separation l)"
proof -
  have "(case x of None \<Rightarrow> None | Some d \<Rightarrow> if d < limit then Some (f d) else None) = Some y \<longleftrightarrow>
      (\<exists>d. x = Some d \<and> d < limit \<and> y = f d)" for x :: "real option" and limit y and f :: "real \<Rightarrow> real \<times> dyn_violation"
    by (cases x) auto
  then show ?thesis unfolding separation_found_def too_close_def set_map_filter by auto
qed

text \<open>Where violations are left out, the list is full: every stride reaches far enough.\<close>

lemma stride_length:
  assumes "c * m \<le> length xs" and "0 < m"
  shows "c \<le> length (stride m xs)"
proof -
  have "length (stride m xs) = length (filter (\<lambda>k. k mod m = 0) (map fst (enumerate 0 xs)))"
    by (simp only: stride_def filter_map length_map o_def case_prod_unfold)
  also have "\<dots> = card {k. k < length xs \<and> k mod m = 0}"
    by (simp add: distinct_length_filter Int_def conj_commute)
  finally have l: "length (stride m xs) = card {k. k < length xs \<and> k mod m = 0}" .
  have "j * m < length xs" if "j < c" for j
    using that assms by (metis less_le_trans mult_less_cancel2)
  then have "(\<lambda>j. j * m) ` {..<c} \<subseteq> {k. k < length xs \<and> k mod m = 0}" by auto
  then have "card ((\<lambda>j. j * m) ` {..<c}) \<le> length (stride m xs)"
    unfolding l by (intro card_mono) auto
  then show ?thesis using assms(2) by (simp add: card_image inj_on_def)
qed

lemma report_picks_full:
  assumes "cap < length found"
  shows "length (report_picks cap found) = cap"
proof -
  let ?c = "cap - cap div 2" and ?sev = "take (cap div 2) (by_severity found)"
  define rest where "rest = filter (\<lambda>i. i \<notin> set ?sev) [0..<length found]"
  define step where "step = max 1 (length rest div ?c)"
  define sample where "sample = take ?c (stride step rest)"
  have p: "report_picks cap found = sort (remdups (?sev @ sample))"
    by (simp only: report_picks_def Let_def rest_def sample_def step_def)
  have sev: "distinct ?sev" "length ?sev = cap div 2" using assms by simp_all
  have "set ?sev \<subseteq> {..<length found}" using by_severity_set(1)[of found] set_take_subset by metis
  then have "length rest = length found - cap div 2"
    using sev distinct_card[OF sev(1)]
    by (simp add: rest_def distinct_length_filter card_Diff_subset Diff_eq[symmetric] Int_commute
        Compl_eq[symmetric] atLeast0LessThan)
  then have rest: "?c \<le> length rest" using assms by simp
  have "?c * step \<le> length rest"
    using rest by (cases "length rest div ?c = 0") (auto simp: step_def max_def)
  then have "length sample = ?c" using stride_length[of ?c step rest] by (simp add: sample_def step_def)
  moreover have "distinct sample" "set sample \<inter> set ?sev = {}"
  proof -
    have "distinct (map snd (enumerate 0 rest))" by (simp add: rest_def)
    then have "distinct (stride step rest)" unfolding stride_def by (rule distinct_map_filter)
    then show "distinct sample" by (simp add: sample_def)
    have "set (stride step rest) \<subseteq> set rest" by (auto simp: stride_def in_set_enumerate_eq)
    then have "set sample \<subseteq> set rest" unfolding sample_def by (meson set_take_subset order_trans)
    then show "set sample \<inter> set ?sev = {}" by (auto simp: rest_def)
  qed
  ultimately have "distinct (?sev @ sample)" "length (?sev @ sample) = cap" using sev assms by auto
  then show ?thesis by (simp only: p length_sort distinct_remdups_id)
qed

lemma reported_true_of: "true_of (reported found) (worst_of found) (set found)"
proof -
  obtain picks where p: "report_subset MAX_REPORTED found = Some (map (\<lambda>i. snd (found ! i)) picks)"
    "set picks \<subseteq> {..<length found}" "length picks \<le> MAX_REPORTED"
    "length found \<le> MAX_REPORTED \<longrightarrow> picks = [0..<length found]"
    "\<forall>w. worst_of found = Some w \<longrightarrow> (\<exists>i \<in> set picks. w = snd (found ! i))"
    using report_subset_keeps_worst[of MAX_REPORTED found] by (auto simp: MAX_REPORTED_def)
  have r: "reported found = map (\<lambda>i. snd (found ! i)) picks" by (simp add: reported_def p(1))
  have sub: "set (reported found) \<subseteq> snd ` set found" using p(2) by (auto simp: r)
  have full: "snd ` set found \<subseteq> set (reported found)" if "length (reported found) < MAX_REPORTED"
  proof -
    have "length found \<le> MAX_REPORTED"
      using report_picks_full[of MAX_REPORTED found] that by (auto simp: reported_def report_subset_def MAX_REPORTED_def split: if_splits)
    then show ?thesis by (simp add: reported_def report_subset_def)
  qed
  have worst: "case worst_of found of None \<Rightarrow> set found = {}
      | Some w \<Rightarrow> w \<in> set (reported found) \<and> (\<exists>e. (e, w) \<in> set found \<and> (\<forall>(e', v) \<in> set found. e' \<le> e))"
  proof (cases "found = []")
    case True
    then show ?thesis by (simp add: worst_of_def)
  next
    case False
    then obtain k where k: "k < length found" "worst_of found = Some (snd (found ! k))"
      "\<forall>j < length found. fst (found ! j) \<le> fst (found ! k)" using worst_of_index by blast
    have "(fst (found ! k), snd (found ! k)) \<in> set found" using k(1) by simp
    moreover have "\<forall>(e', v) \<in> set found. e' \<le> fst (found ! k)" using k(3) by (fastforce simp: in_set_conv_nth)
    moreover have "snd (found ! k) \<in> set (reported found)" using k(2) p(5) by (auto simp: r)
    ultimately show ?thesis unfolding k(2) option.case by blast
  qed
  show ?thesis using sub full worst reported_capped[of found] by (simp add: true_of_def reported_Nil)
qed

lemma finish_dynamics_reports:
  assumes "kind \<in> set DYNAMICS_KINDS"
  shows "true_of (getd (map_of (dy_violations (finish_dynamics second l dt ts (sampled_tracks ts s))) kind) [])
    (getd (map_of (dy_worst (finish_dynamics second l dt ts (sampled_tracks ts s))) kind) None)
    (violations_of second l dt ts s kind)"
proof -
  let ?tr = "sampled_tracks ts s"
  have found: "violations_of second l dt ts s kind = set (getd (map_of (dynamics_found second l dt ts ?tr) kind) [])"
    using assms unfolding DYNAMICS_KINDS_def
    by (auto simp only: set_simps insert_iff empty_iff)
      (simp_all add: violations_of_def dynamics_found_def getd_def velocity_found_def centripetal_found_def jerk_found_def
        separation_found_set collect_over_set[where amount = id, simplified] collect_over_set[where amount = centripetal])
  have "getd (map_of (dy_violations (finish_dynamics second l dt ts ?tr)) kind) [] =
      reported (getd (map_of (dynamics_found second l dt ts ?tr) kind) [])"
    "getd (map_of (dy_worst (finish_dynamics second l dt ts ?tr)) kind) None =
      worst_of (getd (map_of (dynamics_found second l dt ts ?tr) kind) [])"
    using assms unfolding DYNAMICS_KINDS_def
    by (auto simp only: set_simps insert_iff empty_iff) (simp_all add: finish_dynamics_def dynamics_found_def Let_def getd_def)
  then show ?thesis unfolding found by (simp only: reported_true_of)
qed

text \<open>C40. The dynamics report is exact. It certifies a show exactly if there is one, and at every sample every
  drone is within the speed, cornering and jerk limits and all drones are the separation apart. For a show with
  drones it has one list per kind, and each tells the truth about that kind: every entry is a violation of the
  sweep, at most fifty are listed, all of them unless the list is full, and never none where there is one; and the
  worst violation it names is in its list and is as far past the limit as any of its kind.\<close>

theorem dynamics_report_exact:
  assumes "second_nearest second" and "validate_dynamics second data l dt = Inr r"
  shows "(dy_status r = ''PASSED'' \<longleftrightarrow> dy_certified r) \<and>
    (dy_certified r \<longleftrightarrow> (\<exists>s ts. from_any data = Inr s \<and> s \<noteq> [] \<and> sweep_times (duration s) dt = Some ts \<and>
      kept_by (dl_max_velocity l) (speed_at dt) s ts \<and> kept_by (dl_max_jerk l) (jerk_at dt) s ts \<and>
      kept_by (dl_max_centripetal l) (\<lambda>track k. map_option centripetal (cornering_at dt track k)) s ts \<and>
      all_apart (dl_min_separation l) s ts)) \<and>
    map fst (dy_violations r) = DYNAMICS_KINDS \<and> map fst (dy_worst r) = DYNAMICS_KINDS \<and>
    (\<forall>s ts. from_any data = Inr s \<longrightarrow> s \<noteq> [] \<longrightarrow> sweep_times (duration s) dt = Some ts \<longrightarrow>
      (\<forall>kind \<in> set DYNAMICS_KINDS. true_of (getd (map_of (dy_violations r) kind) [])
         (getd (map_of (dy_worst r) kind) None) (violations_of second l dt ts s kind)))"
proof -
  obtain s where s: "from_any data = Inr s" "(s = [] \<and> r = no_dynamics_report) \<or>
    (s \<noteq> [] \<and> (\<exists>ts. sweep_times (duration s) dt = Some ts \<and> r = finish_dynamics second l dt ts (sampled_tracks ts s)))"
    using validate_dynamics_reads[OF assms(2)] by blast
  show ?thesis
  proof (cases "s = []")
    case True
    then show ?thesis using s by (auto simp: no_dynamics_report_def DYNAMICS_KINDS_def)
  next
    case False
    then obtain ts where ts: "sweep_times (duration s) dt = Some ts"
      "r = finish_dynamics second l dt ts (sampled_tracks ts s)" using s(2) by blast
    have "dy_status r = ''PASSED'' \<longleftrightarrow> dy_certified r" "map fst (dy_violations r) = DYNAMICS_KINDS"
      "map fst (dy_worst r) = DYNAMICS_KINDS"
      by (simp_all add: ts(2) finish_dynamics_def dynamics_found_def DYNAMICS_KINDS_def Let_def)
    then show ?thesis
      using s(1) False ts(1) finish_dynamics_certified[OF assms(1)] finish_dynamics_reports unfolding ts(2) by auto
  qed
qed

lemma validate_dynamics_jerk:
  assumes "validate_dynamics second data l dt = Inr r"
  shows "\<exists>s. from_any data = Inr s \<and> (s \<noteq> [] \<longrightarrow> (\<exists>ts. sweep_times (duration s) dt = Some ts \<and>
    (jerk_violations r = [] \<longleftrightarrow> kept_by (dl_max_jerk l) (jerk_at dt) s ts)))"
  using validate_dynamics_reads[OF assms]
  by (auto simp: jerk_violations_def finish_dynamics_def dynamics_found_def Let_def getd_def reported_Nil found_Nil)

definition exact_nearest :: "point3 list \<Rightarrow> real list" where
  "exact_nearest pts =
     (if 2 \<le> length pts
      then map (\<lambda>i. Min ((\<lambda>j. dist3 (pts ! i) (pts ! j)) ` ({..<length pts} - {i}))) [0..<length pts] else [])"

lemma hover_samples:
  "sweep_times (duration hover_show) dt = Some [0]" "sampled_tracks [0] hover_show = [(0, [Some (0, 0, - 2)]), (1, [Some (0, 0, - 7)])]"
  by (simp_all add: sweep_times_def duration_def hover_show_def max_default_def waypoint_at_def sampled_tracks_def
      sampled_track_def interpolate_waypoint_def xyz_def)

lemma hover_kept:
  "kept_by limit (jerk_at dt) hover_show [0]" "kept_by limit (speed_at dt) hover_show [0]"
  "kept_by limit (\<lambda>track k. map_option centripetal (cornering_at dt track k)) hover_show [0]"
  by (auto simp: kept_by_def jerk_at_def speed_at_def cornering_at_def)

theorem dynamics_report_exact_witness:
  "\<exists>r. validate_dynamics exact_nearest (AlreadyShow hover_show) DEFAULT_DYNAMIC_LIMITS (1 / 10) = Inr r \<and> dy_certified r"
proof -
  have second: "second_nearest exact_nearest" by (simp add: second_nearest_def exact_nearest_def)
  have read: "from_any (AlreadyShow hover_show) = Inr hover_show" "hover_show \<noteq> []" by (simp_all add: from_any_def hover_show_def)
  then obtain r where r: "validate_dynamics exact_nearest (AlreadyShow hover_show) DEFAULT_DYNAMIC_LIMITS (1 / 10) = Inr r"
    by (simp add: validate_dynamics_def hover_samples)
  have "positions_of (sampled_tracks [0] hover_show) 0 = [(0, (0, 0, - 2)), (1, (0, 0, - 7))]"
    by (simp add: hover_samples positions_of_def List.map_filter_simps)
  then have "all_apart (dl_min_separation DEFAULT_DYNAMIC_LIMITS) hover_show [0]"
    by (auto simp: all_apart_def DEFAULT_DYNAMIC_LIMITS_def less_Suc_eq dist3_def)
  then show ?thesis
    using conjunct1[OF conjunct2[OF dynamics_report_exact[OF second r]]] r read hover_samples(1) hover_kept by blast
qed

text \<open>C29. What a certificate means: a show is certified for flight exactly if the safety check of every
  package passes it and no drone at any sample of the sweep jerks harder than the limit. The two entry
  points agree, and the status of the report is PASSED exactly for a certified show.\<close>

theorem certificate_exact:
  assumes "certify_feasibility_report near second data l dl = Inr (ok, c)"
  shows "certify_feasibility near second data l dl = Inr ok \<and> ct_certified c = ok \<and>
    (ct_status c = ''PASSED'' \<longleftrightarrow> ok) \<and> validate_show near second data l None (1 / 10) = Inr (ct_core c) \<and>
    (ok \<longleftrightarrow> vr_status (ct_core c) = ''PASSED'' \<and> (\<exists>s ts. from_any data = Inr s \<and>
      sweep_times (duration s) DYNAMICS_SWEEP_DT_S = Some ts \<and> kept_by (dl_max_jerk dl) (jerk_at DYNAMICS_SWEEP_DT_S) s ts))"
proof -
  obtain safety dynamics where v: "validate_show near second data l None (1 / 10) = Inr safety"
    "validate_dynamics second data dl DYNAMICS_SWEEP_DT_S = Inr dynamics"
    using assms by (auto simp: certify_feasibility_report_def split: sum.splits)
  have c: "ok \<longleftrightarrow> vr_status safety = ''PASSED'' \<and> jerk_violations dynamics = []" "ct_core c = safety" "ct_certified c = ok"
    "ct_status c = (if ok then vr_status safety else ''FAILED'')"
    using assms v by (auto simp: certify_feasibility_report_def Let_def)
  obtain s where s: "from_any data = Inr s" "s \<noteq> [] \<longrightarrow> (\<exists>ts. sweep_times (duration s) DYNAMICS_SWEEP_DT_S = Some ts \<and>
      (jerk_violations dynamics = [] \<longleftrightarrow> kept_by (dl_max_jerk dl) (jerk_at DYNAMICS_SWEEP_DT_S) s ts))"
    using validate_dynamics_jerk[OF v(2)] by blast
  have "s \<noteq> []" if "vr_status safety = ''PASSED''"
    using validate_show_passed[OF v(1) that] s(1) by auto
  then show ?thesis using v c s by (auto simp: certify_feasibility_def)
qed

theorem certificate_exact_witness:
  "\<exists>c. certify_feasibility_report all_near_pairs (\<lambda>pts. []) (AlreadyShow hover_show) DEFAULT_LIMITS DEFAULT_DYNAMIC_LIMITS
     = Inr (True, c) \<and> ct_status c = ''PASSED''"
proof -
  obtain rep where rep: "validate_show all_near_pairs (\<lambda>pts. []) (AlreadyShow hover_show) DEFAULT_LIMITS None (1 / 10) = Inr rep"
    "vr_status rep = ''PASSED''"
    using hover_show_passes by blast
  have read: "from_any (AlreadyShow hover_show) = Inr hover_show" "hover_show \<noteq> []" by (simp_all add: from_any_def hover_show_def)
  then obtain ok c where c: "certify_feasibility_report all_near_pairs (\<lambda>pts. []) (AlreadyShow hover_show) DEFAULT_LIMITS
      DEFAULT_DYNAMIC_LIMITS = Inr (ok, c)"
    using rep by (simp add: certify_feasibility_report_def validate_dynamics_def hover_samples Let_def)
  then show ?thesis using certificate_exact[OF c] rep read hover_samples(1) hover_kept by auto
qed

section \<open>Limits of the report\<close>

text \<open>The number of jerk violations the summary names is that of the reported ones, at most fifty.\<close>

lemma summary_counts_reported:
  assumes "certify_feasibility_report near second data l dl = Inr (ok, c)"
  shows "length (ct_jerk c) \<le> MAX_REPORTED"
proof -
  obtain dynamics where d: "validate_dynamics second data dl DYNAMICS_SWEEP_DT_S = Inr dynamics" "ct_jerk c = jerk_violations dynamics"
    using assms by (auto simp: certify_feasibility_report_def Let_def split: sum.splits)
  show ?thesis
    using validate_dynamics_reads[OF d(1)] reported_capped
    by (auto simp: d(2) jerk_violations_def no_dynamics_report_def DYNAMICS_KINDS_def finish_dynamics_def dynamics_found_def
        Let_def getd_def)
qed

text \<open>A separation wider than the launch pads are spaced is not checked but refused.\<close>

lemma wide_threshold_refused:
  "validate_choreography near second data (Some 3) None None None = Inl (Limits_Refused (PadBelowDesign (22 / 10) 3))"
  by (simp add: validate_choreography_def choreography_limits_def limits_check_def DEFAULT_LIMITS_def getd_def)

end
