(* ===== verification/Tara_File.thy ===== *)
theory Tara_File
  imports Show Crc32 Struct_Codec
begin

text \<open>
  The compiled show of the Studio, the \<^verbatim>\<open>.tara\<close> part of
  \<^verbatim>\<open>packages/tara-studio/tara_studio/exporter.py\<close>: a header, an index with the identifier and the number of
  frames of every drone, and sixteen bytes per frame. The exporter works on the JSON document itself, not
  on the validated show. The four bytes \<^verbatim>\<open>struct\<close> writes for a float and reads back are the parameters
  \<open>f32\<close> and \<open>of_f32\<close>; floats are reals.
\<close>

section \<open>Format\<close>

definition TARA_MAGIC :: bytes where "TARA_MAGIC = [0x54, 0x41, 0x52, 0x41]"
definition TARA_VERSION :: int where "TARA_VERSION = 1"
definition TARA_RECORD_FMT :: "fmt list" where
  "TARA_RECORD_FMT = [FU 4, FI 2, FI 2, FI 2, FI 2, FU 1, FU 1, FU 1, FU 1]"
definition TARA_RECORD_SIZE :: nat where "TARA_RECORD_SIZE = calcsize TARA_RECORD_FMT"
definition TARA_HEADER_FMT :: "fmt list" where
  "TARA_HEADER_FMT = [FS 4, FU 2, FU 2, FU 4, FS 4, FU 4, FU 4, FU 4]"
definition TARA_HEADER_SIZE :: nat where "TARA_HEADER_SIZE = calcsize TARA_HEADER_FMT"

text \<open>Python's \<^verbatim>\<open>KeyError\<close>, \<^verbatim>\<open>TypeError\<close> and \<^verbatim>\<open>struct.error\<close> are not \<^verbatim>\<open>ValueError\<close>s.\<close>

datatype tara_error =
    Missing string
  | Wrong_Type string
  | Bad_Int string
  | Exceeds_Int16 string real int
  | Id_Outside int
  | Pack_Error
  | Too_Short
  | Bad_Magic bytes
  | Unsupported_Version int
  | Checksum_Mismatch

fun is_value_error :: "tara_error \<Rightarrow> bool" where
  "is_value_error (Missing k) = False"
| "is_value_error (Wrong_Type k) = False"
| "is_value_error Pack_Error = False"
| "is_value_error e = True"

record tara_frame =
  tf_time_ms :: int
  tf_x :: int
  tf_y :: int
  tf_z :: int
  tf_yaw :: int
  tf_r :: int
  tf_g :: int
  tf_b :: int
  tf_w :: int

section \<open>Writing\<close>

definition need :: "(string, json) dict \<Rightarrow> string \<Rightarrow> tara_error + real" where
  "need d k = (case number_at d k of None \<Rightarrow> Inl (Missing k) | Some (Inl u) \<Rightarrow> Inl (Wrong_Type k) | Some (Inr x) \<Rightarrow> Inr x)"

definition want :: "(string, json) dict \<Rightarrow> string \<Rightarrow> real \<Rightarrow> tara_error + real" where
  "want d k v = (case number_at d k of None \<Rightarrow> Inr v | Some (Inl u) \<Rightarrow> Inl (Wrong_Type k) | Some (Inr x) \<Rightarrow> Inr x)"

definition clamp_i16 :: "real \<Rightarrow> string \<Rightarrow> tara_error + int" where
  "clamp_i16 value field =
     (let v = py_round value in
      if - 32768 \<le> v \<and> v \<le> 32767 then Inr v else Inl (Exceeds_Int16 field value v))"

definition wrap_yaw_cdeg :: "real \<Rightarrow> int" where
  "wrap_yaw_cdeg yaw_deg = py_round ((py_fmod (yaw_deg + 180) 360 - 180) * 100)"

definition scaled :: "(string, json) dict \<Rightarrow> string \<Rightarrow> tara_error + int" where
  "scaled d k = (case need d k of Inl e \<Rightarrow> Inl e | Inr v \<Rightarrow> clamp_i16 (v * 100) k)"

definition int_of :: "string \<Rightarrow> json \<Rightarrow> tara_error + int" where
  "int_of k v =
     (case as_py_int v of
        Some i \<Rightarrow> Inr i | None \<Rightarrow> Inl (case v of JStr s \<Rightarrow> Bad_Int k | _ \<Rightarrow> Wrong_Type k))"

definition byte_channel :: "(string, json) dict \<Rightarrow> string \<Rightarrow> int \<Rightarrow> tara_error + int" where
  "byte_channel d k v =
     (case map_of d k of None \<Rightarrow> Inr (v mod 256)
      | Some j \<Rightarrow> (case int_of k j of Inl e \<Rightarrow> Inl e | Inr i \<Rightarrow> Inr (i mod 256)))"

definition frame_of :: "json \<Rightarrow> tara_error + tara_frame" where
  "frame_of v =
     (case v of
        JObj d \<Rightarrow>
          (case need d ''time'' of Inl e \<Rightarrow> Inl e | Inr t \<Rightarrow>
          (case scaled d ''x'' of Inl e \<Rightarrow> Inl e | Inr x \<Rightarrow>
          (case scaled d ''y'' of Inl e \<Rightarrow> Inl e | Inr y \<Rightarrow>
          (case scaled d ''z'' of Inl e \<Rightarrow> Inl e | Inr z \<Rightarrow>
          (case want d ''yaw'' 0 of Inl e \<Rightarrow> Inl e | Inr yaw \<Rightarrow>
          (case byte_channel d ''r'' 255 of Inl e \<Rightarrow> Inl e | Inr r \<Rightarrow>
          (case byte_channel d ''g'' 255 of Inl e \<Rightarrow> Inl e | Inr g \<Rightarrow>
          (case byte_channel d ''b'' 255 of Inl e \<Rightarrow> Inl e | Inr b \<Rightarrow>
          (case byte_channel d ''w'' 0 of Inl e \<Rightarrow> Inl e | Inr w \<Rightarrow>
             Inr \<lparr>tf_time_ms = py_round (t * 1000), tf_x = x, tf_y = y, tf_z = z, tf_yaw = wrap_yaw_cdeg yaw,
               tf_r = r, tf_g = g, tf_b = b, tf_w = w\<rparr>)))))))))
      | _ \<Rightarrow> Inl (Wrong_Type ''waypoint''))"

definition frame_values :: "tara_frame \<Rightarrow> fval list" where
  "frame_values f = [VI (tf_time_ms f), VI (tf_x f), VI (tf_y f), VI (tf_z f), VI (tf_yaw f), VI (tf_r f), VI (tf_g f),
     VI (tf_b f), VI (tf_w f)]"

definition pack_frame :: "tara_frame \<Rightarrow> bytes option" where
  "pack_frame f = struct_pack TARA_RECORD_FMT (frame_values f)"

definition unpack_frame :: "bytes \<Rightarrow> tara_frame option" where
  "unpack_frame bs =
     (case struct_unpack TARA_RECORD_FMT bs of
        Some [VI t, VI x, VI y, VI z, VI yaw, VI r, VI g, VI b, VI w] \<Rightarrow>
          Some \<lparr>tf_time_ms = t, tf_x = x, tf_y = y, tf_z = z, tf_yaw = yaw, tf_r = r, tf_g = g, tf_b = b, tf_w = w\<rparr>
      | _ \<Rightarrow> None)"

definition json_time :: "json \<Rightarrow> real" where
  "json_time w = (case w of JObj d \<Rightarrow> getd (opt_number d ''time'') 0 | _ \<Rightarrow> 0)"

text \<open>The keys of the sort are read before any frame is packed; a frame is packed as soon as it is read.\<close>

definition sort_time :: "json \<Rightarrow> tara_error + real" where
  "sort_time w = (case w of JObj d \<Rightarrow> need d ''time'' | _ \<Rightarrow> Inl (Wrong_Type ''waypoint''))"

definition frame_record :: "json \<Rightarrow> tara_error + tara_frame" where
  "frame_record w =
     (case frame_of w of Inl e \<Rightarrow> Inl e | Inr f \<Rightarrow> if pack_frame f = None then Inl Pack_Error else Inr f)"

definition waypoint_frames :: "json list \<Rightarrow> tara_error + tara_frame list" where
  "waypoint_frames ws =
     (case map_result sort_time ws of Inl e \<Rightarrow> Inl e | Inr ts \<Rightarrow> map_result frame_record (sort_key json_time ws))"

text \<open>\<^verbatim>\<open>drone.get("waypoints", [])\<close>, and the drones of the document: what the loop over them sees. The letters of
  a text and the keys of an object have no fields, so looping over a non-empty one fails.\<close>

definition list_under :: "(string, json) dict \<Rightarrow> string \<Rightarrow> tara_error + json list" where
  "list_under d k =
     (case map_of d k of None \<Rightarrow> Inr [] | Some (JList vs) \<Rightarrow> Inr vs
      | Some v \<Rightarrow> if v = JStr [] \<or> v = JObj [] then Inr [] else Inl (Wrong_Type k))"

definition drone_frames :: "json \<Rightarrow> tara_error + int \<times> tara_frame list" where
  "drone_frames v =
     (case v of
        JObj d \<Rightarrow>
          (case map_of d ''id'' of None \<Rightarrow> Inl (Missing ''id'')
           | Some i \<Rightarrow>
               (case int_of ''id'' i of Inl e \<Rightarrow> Inl e
                | Inr d_id \<Rightarrow>
                    if \<not> (0 \<le> d_id \<and> d_id \<le> 0xFFFF) then Inl (Id_Outside d_id)
                    else (case list_under d ''waypoints'' of Inl e \<Rightarrow> Inl e
                      | Inr ws \<Rightarrow> (case waypoint_frames ws of Inl e \<Rightarrow> Inl e | Inr fs \<Rightarrow> Inr (d_id, fs)))))
      | _ \<Rightarrow> Inl (Wrong_Type ''drone''))"

definition choreo_frames :: "json \<Rightarrow> tara_error + (int \<times> tara_frame list) list" where
  "choreo_frames v =
     (case v of
        JObj d \<Rightarrow> (case list_under d ''drones'' of Inl e \<Rightarrow> Inl e | Inr es \<Rightarrow> map_result drone_frames es)
      | _ \<Rightarrow> Inl (Wrong_Type ''drones''))"

definition pack_index :: "int \<times> tara_frame list \<Rightarrow> bytes option" where
  "pack_index entry = (case entry of (d_id, fs) \<Rightarrow> struct_pack [FU 2, FU 2] [VI d_id, VI (int (length fs))])"

definition pack_block :: "int \<times> tara_frame list \<Rightarrow> bytes option" where
  "pack_block entry = enc_all pack_frame (snd entry)"

definition tara_payload :: "(int \<times> tara_frame list) list \<Rightarrow> bytes option" where
  "tara_payload drones =
     (case (enc_all pack_index drones, enc_all pack_block drones) of
        (Some index, Some records) \<Rightarrow> Some (index @ records) | _ \<Rightarrow> None)"

definition duration_ms :: "(int \<times> tara_frame list) list \<Rightarrow> int" where
  "duration_ms drones = foldl max 0 (map tf_time_ms (concat (map snd drones)))"

definition crc_value :: "bytes \<Rightarrow> int" where "crc_value bs = int (unat (crc32 bs))"

definition export_tara :: "(real \<Rightarrow> bytes option) \<Rightarrow> json \<Rightarrow> real \<Rightarrow> tara_error + bytes" where
  "export_tara f32 choreo rate_hz =
     (case choreo_frames choreo of Inl e \<Rightarrow> Inl e
      | Inr drones \<Rightarrow>
          (case (tara_payload drones, f32 rate_hz) of
             (Some payload, Some rate) \<Rightarrow>
               (case struct_pack TARA_HEADER_FMT [VB TARA_MAGIC, VI TARA_VERSION, VI (int (length drones)),
                   VI (int (length (concat (map snd drones)))), VB rate, VI (duration_ms drones), VI 0,
                   VI (crc_value payload)] of
                  None \<Rightarrow> Inl Pack_Error | Some header \<Rightarrow> Inr (header @ payload))
           | _ \<Rightarrow> Inl Pack_Error))"

section \<open>Reading\<close>

definition frame_entries :: "tara_frame \<Rightarrow> (string, json) dict" where
  "frame_entries f =
     [(''time'', JNum (of_int (tf_time_ms f) / 1000)), (''x'', JNum (of_int (tf_x f) / 100)),
      (''y'', JNum (of_int (tf_y f) / 100)), (''z'', JNum (of_int (tf_z f) / 100)),
      (''yaw'', JNum (py_fmod (of_int (tf_yaw f) / 100) 360)), (''r'', JInt (tf_r f)), (''g'', JInt (tf_g f)),
      (''b'', JInt (tf_b f)), (''w'', JInt (tf_w f))]"

definition frame_json :: "tara_frame \<Rightarrow> json" where "frame_json f = JObj (frame_entries f)"

text \<open>\<^verbatim>\<open>struct.unpack_from\<close> one record after the other.\<close>

primrec read_frames :: "nat \<Rightarrow> bytes \<Rightarrow> (tara_frame list \<times> bytes) option" where
  "read_frames 0 bs = Some ([], bs)"
| "read_frames (Suc n) bs =
     (if length bs < TARA_RECORD_SIZE then None
      else case unpack_frame (take TARA_RECORD_SIZE bs) of None \<Rightarrow> None
        | Some f \<Rightarrow> map_option (\<lambda>(fs, rest). (f # fs, rest)) (read_frames n (drop TARA_RECORD_SIZE bs)))"

primrec read_drones :: "nat \<Rightarrow> bytes \<Rightarrow> bytes \<Rightarrow> (int \<times> tara_frame list) list option" where
  "read_drones 0 index records = Some []"
| "read_drones (Suc n) index records =
     (if length index < 4 then None
      else case struct_unpack [FU 2, FU 2] (take 4 index) of
        Some [VI d_id, VI n_frames] \<Rightarrow>
          (case read_frames (nat n_frames) records of None \<Rightarrow> None
           | Some (fs, rest) \<Rightarrow> map_option (Cons (d_id, fs)) (read_drones n (drop 4 index) rest))
      | _ \<Rightarrow> None)"

definition tara_document :: "int \<Rightarrow> real \<Rightarrow> int \<Rightarrow> int \<Rightarrow> int \<Rightarrow> (int \<times> tara_frame list) list \<Rightarrow> json" where
  "tara_document version rate dur_ms frames checksum drones = JObj
     [(''version'', JInt version), (''rate_hz'', JNum rate), (''duration_ms'', JInt dur_ms),
      (''frame_count'', JInt frames), (''checksum'', JInt checksum),
      (''drones'', JList (map (\<lambda>(i, fs). JObj [(''id'', JInt i), (''waypoints'', JList (map frame_json fs))]) drones))]"

definition parse_tara :: "(bytes \<Rightarrow> real) \<Rightarrow> bytes \<Rightarrow> tara_error + json" where
  "parse_tara of_f32 blob =
     (if length blob < TARA_HEADER_SIZE then Inl Too_Short
      else case struct_unpack TARA_HEADER_FMT (take TARA_HEADER_SIZE blob) of
        Some [VB magic, VI version, VI drone_count, VI frame_count, VB rate, VI dur_ms, VI reserved, VI checksum] \<Rightarrow>
          if magic \<noteq> TARA_MAGIC then Inl (Bad_Magic magic)
          else if version \<noteq> TARA_VERSION then Inl (Unsupported_Version version)
          else
            let payload = drop TARA_HEADER_SIZE blob in
            if crc_value payload \<noteq> checksum then Inl Checksum_Mismatch
            else
              let index_size = nat drone_count * 4 in
              (case read_drones (nat drone_count) (take index_size payload) (drop index_size payload) of
                 None \<Rightarrow> Inl Pack_Error
               | Some drones \<Rightarrow> Inr (tara_document version (of_f32 rate) dur_ms frame_count checksum drones))
      | _ \<Rightarrow> Inl Pack_Error)"

section \<open>Lemmas: frames\<close>

lemma tara_sizes [simp]: "TARA_RECORD_SIZE = 16" "TARA_HEADER_SIZE = 28"
  by (simp_all add: TARA_RECORD_SIZE_def TARA_RECORD_FMT_def TARA_HEADER_SIZE_def TARA_HEADER_FMT_def)

interpretation frame_codec: fixed_codec pack_frame unpack_frame TARA_RECORD_SIZE
proof
  show "0 < TARA_RECORD_SIZE" by simp
  fix f bs assume enc: "pack_frame f = Some bs"
  then show "length bs = TARA_RECORD_SIZE"
    unfolding pack_frame_def TARA_RECORD_SIZE_def by (rule struct_pack_length)
  have "struct_unpack TARA_RECORD_FMT bs = Some (frame_values f)"
    using enc by (intro struct_unpack_pack) (simp_all add: pack_frame_def TARA_RECORD_FMT_def frame_values_def)
  then show "unpack_frame bs = Some f" by (simp add: unpack_frame_def frame_values_def)
qed

lemma read_frames_back:
  "enc_all pack_frame fs = Some bs \<Longrightarrow> read_frames (length fs) (bs @ rest) = Some (fs, rest)"
proof (induction fs arbitrary: bs)
  case (Cons f fs)
  obtain b bs' where b: "pack_frame f = Some b" "enc_all pack_frame fs = Some bs'" "bs = b @ bs'"
    using Cons.prems by (auto split: option.splits)
  have "length b = 16" using frame_codec.enc_length[OF b(1)] by simp
  then show ?case using Cons.IH[OF b(2)] frame_codec.dec_enc[OF b(1)] by (simp add: b(3))
qed simp

lemma enc_all_Cons:
  "enc_all enc (x # xs) = Some bs \<longleftrightarrow> (\<exists>b bs'. enc x = Some b \<and> enc_all enc xs = Some bs' \<and> bs = b @ bs')"
  by (auto split: option.splits)

lemma read_drones_back:
  assumes "enc_all pack_index drones = Some index" and "enc_all pack_block drones = Some records"
  shows "read_drones (length drones) index records = Some drones"
  using assms
proof (induction drones arbitrary: index records)
  case (Cons d drones)
  obtain i fs where d: "d = (i, fs)" by (cases d)
  have block: "\<And>b. pack_block (i, fs) = b \<Longrightarrow> enc_all pack_frame fs = b" by (simp add: pack_block_def)
  obtain head index' block records' where parts: "pack_index (i, fs) = Some head" "enc_all pack_index drones = Some index'"
    "index = head @ index'" "enc_all pack_frame fs = Some block" "enc_all pack_block drones = Some records'"
    "records = block @ records'"
    using Cons.prems block unfolding d enc_all_Cons by blast
  have head: "struct_pack [FU 2, FU 2] [VI i, VI (int (length fs))] = Some head" using parts(1) by (simp add: pack_index_def)
  have "length head = 4" using struct_pack_length[OF head] by simp
  moreover have "struct_unpack [FU 2, FU 2] head = Some [VI i, VI (int (length fs))]"
    using head by (intro struct_unpack_pack) simp_all
  ultimately show ?case
    using read_frames_back[OF parts(4), of records'] Cons.IH[OF parts(2,5)] by (simp add: d parts(3,6))
qed simp

lemma index_length: "enc_all pack_index drones = Some index \<Longrightarrow> length index = length drones * 4"
proof (induction drones arbitrary: index)
  case (Cons d drones)
  obtain i fs where d: "d = (i, fs)" by (cases d)
  obtain head index' where parts: "pack_index d = Some head" "enc_all pack_index drones = Some index'" "index = head @ index'"
    using Cons.prems by (auto split: option.splits)
  have "length head = calcsize [FU 2, FU 2]" using parts(1) unfolding d pack_index_def prod.case by (rule struct_pack_length)
  then show ?case using Cons.IH[OF parts(2)] by (simp add: parts(3))
qed simp

lemma export_tara_parts:
  assumes "export_tara f32 choreo rate_hz = Inr blob"
  shows "\<exists>drones payload rate header. choreo_frames choreo = Inr drones \<and> tara_payload drones = Some payload \<and>
    f32 rate_hz = Some rate \<and> struct_pack TARA_HEADER_FMT [VB TARA_MAGIC, VI TARA_VERSION, VI (int (length drones)),
      VI (int (length (concat (map snd drones)))), VB rate, VI (duration_ms drones), VI 0, VI (crc_value payload)] = Some header \<and>
    blob = header @ payload"
  using assms by (auto simp: export_tara_def split: sum.splits option.splits)

lemma header_back:
  assumes "struct_pack TARA_HEADER_FMT [VB TARA_MAGIC, VI v, VI n, VI f, VB rate, VI t, VI r, VI c] = Some header"
    and "length rate = 4"
  shows "length header = 28" and
    "struct_unpack TARA_HEADER_FMT header = Some [VB TARA_MAGIC, VI v, VI n, VI f, VB rate, VI t, VI r, VI c]"
proof -
  show "length header = 28" using struct_pack_length[OF assms(1)] by (simp flip: TARA_HEADER_SIZE_def)
  show "struct_unpack TARA_HEADER_FMT header = Some [VB TARA_MAGIC, VI v, VI n, VI f, VB rate, VI t, VI r, VI c]"
    using assms by (intro struct_unpack_pack) (simp_all add: TARA_HEADER_FMT_def TARA_MAGIC_def)
qed

text \<open>What was compiled is read back, drone by drone and frame by frame.\<close>

lemma parse_export:
  assumes "\<And>x b. f32 x = Some b \<Longrightarrow> length b = 4" and "export_tara f32 choreo rate_hz = Inr blob"
  shows "\<exists>drones rate checksum. choreo_frames choreo = Inr drones \<and> f32 rate_hz = Some rate \<and>
    parse_tara of_f32 blob = Inr (tara_document TARA_VERSION (of_f32 rate) (duration_ms drones)
      (int (length (concat (map snd drones)))) checksum drones)"
proof -
  obtain drones payload rate header where e: "choreo_frames choreo = Inr drones" "tara_payload drones = Some payload"
    "f32 rate_hz = Some rate" "struct_pack TARA_HEADER_FMT [VB TARA_MAGIC, VI TARA_VERSION, VI (int (length drones)),
      VI (int (length (concat (map snd drones)))), VB rate, VI (duration_ms drones), VI 0, VI (crc_value payload)] = Some header"
    "blob = header @ payload"
    using export_tara_parts[OF assms(2)] by blast
  obtain index records where parts: "enc_all pack_index drones = Some index" "enc_all pack_block drones = Some records"
    "payload = index @ records"
    using e(2) by (auto simp: tara_payload_def split: option.splits)
  have "length header = 28" and "struct_unpack TARA_HEADER_FMT header = Some [VB TARA_MAGIC, VI TARA_VERSION, VI (int (length drones)),
      VI (int (length (concat (map snd drones)))), VB rate, VI (duration_ms drones), VI 0, VI (crc_value payload)]"
    using header_back[OF e(4) assms(1)[OF e(3)]] by simp_all
  moreover have "read_drones (length drones) (take (length drones * 4) payload) (drop (length drones * 4) payload) = Some drones"
    using read_drones_back[OF parts(1,2)] index_length[OF parts(1)] by (simp add: parts(3))
  ultimately show ?thesis
    using e(1,3) by (intro exI[of _ drones] exI[of _ rate] exI[of _ "crc_value payload"]) (simp add: parse_tara_def e(5))
qed

section \<open>What survives the compilation\<close>

definition near :: "real \<Rightarrow> (string, json) dict \<Rightarrow> (string, json) dict \<Rightarrow> string \<Rightarrow> bool" where
  "near tol d d' k =
     (case (need d k, need d' k) of (Inr x, Inr x') \<Rightarrow> \<bar>x' - x\<bar> \<le> tol | _ \<Rightarrow> False)"

definition near_heading :: "(string, json) dict \<Rightarrow> (string, json) dict \<Rightarrow> bool" where
  "near_heading d d' =
     (case (want d ''yaw'' 0, need d' ''yaw'') of
        (Inr y, Inr y') \<Rightarrow> 0 \<le> y' \<and> y' < 360 \<and> (\<exists>n :: int. \<bar>y' - y - 360 * of_int n\<bar> \<le> 1 / 200) | _ \<Rightarrow> False)"

definition same_channel :: "(string, json) dict \<Rightarrow> (string, json) dict \<Rightarrow> string \<Rightarrow> int \<Rightarrow> bool" where
  "same_channel d d' k v = (\<exists>i. byte_channel d k v = Inr i \<and> map_of d' k = Some (JInt i))"

definition frame_kept :: "json \<Rightarrow> json \<Rightarrow> bool" where
  "frame_kept w w' =
     (case (w, w') of
        (JObj d, JObj d') \<Rightarrow>
          near (1 / 2000) d d' ''time'' \<and> near (1 / 200) d d' ''x'' \<and> near (1 / 200) d d' ''y'' \<and>
          near (1 / 200) d d' ''z'' \<and> near_heading d d' \<and>
          same_channel d d' ''r'' 255 \<and> same_channel d d' ''g'' 255 \<and> same_channel d d' ''b'' 255 \<and>
          same_channel d d' ''w'' 0
      | _ \<Rightarrow> False)"

definition drone_kept :: "json \<Rightarrow> json \<Rightarrow> bool" where
  "drone_kept e e' =
     (\<exists>d d' i ws ws'. e = JObj d \<and> e' = JObj d' \<and> (\<exists>v. map_of d ''id'' = Some v \<and> as_py_int v = Some i) \<and>
        map_of d' ''id'' = Some (JInt i) \<and>
        list_under d ''waypoints'' = Inr ws \<and> list_under d' ''waypoints'' = Inr ws' \<and>
        list_all2 frame_kept (sort_key json_time ws) ws')"

definition drones_of :: "json \<Rightarrow> tara_error + json list" where
  "drones_of v = (case v of JObj d \<Rightarrow> list_under d ''drones'' | _ \<Rightarrow> Inl (Wrong_Type ''drones''))"

lemma scaled_near: "0 < (c :: real) \<Longrightarrow> \<bar>of_int (py_round (x * c)) / c - x\<bar> \<le> 1 / (2 * c)"
  using py_round_error[of "x * c"] by (simp add: abs_le_iff field_simps)

lemma yaw_near: "\<exists>n :: int. \<bar>py_fmod (of_int (wrap_yaw_cdeg y) / 100) 360 - y - 360 * of_int n\<bar> \<le> 1 / 200"
proof -
  define w where "w = py_fmod (y + 180) 360 - 180"
  define m where "m = \<lfloor>of_int (wrap_yaw_cdeg y) / 100 / (360 :: real)\<rfloor>"
  have w: "w = y - 360 * of_int \<lfloor>(y + 180) / 360\<rfloor>" by (simp add: w_def py_fmod_def)
  have "\<bar>of_int (wrap_yaw_cdeg y) / 100 - w\<bar> \<le> 1 / 200"
    using scaled_near[of 100 w] by (simp add: wrap_yaw_cdeg_def w_def)
  moreover have "py_fmod (of_int (wrap_yaw_cdeg y) / 100) 360 = of_int (wrap_yaw_cdeg y) / 100 - 360 * of_int m"
    by (simp add: py_fmod_def m_def)
  ultimately have "\<bar>py_fmod (of_int (wrap_yaw_cdeg y) / 100) 360 - y - 360 * of_int (- m - \<lfloor>(y + 180) / 360\<rfloor>)\<bar> \<le> 1 / 200"
    unfolding w of_int_diff of_int_minus by argo
  then show ?thesis by blast
qed

lemma frame_needs:
  "need (frame_entries f) ''time'' = Inr (of_int (tf_time_ms f) / 1000)"
  "need (frame_entries f) ''x'' = Inr (of_int (tf_x f) / 100)"
  "need (frame_entries f) ''y'' = Inr (of_int (tf_y f) / 100)"
  "need (frame_entries f) ''z'' = Inr (of_int (tf_z f) / 100)"
  "need (frame_entries f) ''yaw'' = Inr (py_fmod (of_int (tf_yaw f) / 100) 360)"
  "map_of (frame_entries f) ''r'' = Some (JInt (tf_r f))" "map_of (frame_entries f) ''g'' = Some (JInt (tf_g f))"
  "map_of (frame_entries f) ''b'' = Some (JInt (tf_b f))" "map_of (frame_entries f) ''w'' = Some (JInt (tf_w f))"
  by (simp_all add: need_def number_at_def frame_entries_def)

lemma frame_of_kept:
  assumes "frame_of v = Inr f"
  shows "frame_kept v (frame_json f)"
proof -
  obtain d t x y z yaw where d: "v = JObj d" "need d ''time'' = Inr t" "need d ''x'' = Inr x" "need d ''y'' = Inr y"
      "need d ''z'' = Inr z" "want d ''yaw'' 0 = Inr yaw"
    and n: "tf_time_ms f = py_round (t * 1000)" "tf_x f = py_round (x * 100)" "tf_y f = py_round (y * 100)"
      "tf_z f = py_round (z * 100)" "tf_yaw f = wrap_yaw_cdeg yaw"
    and c: "byte_channel d ''r'' 255 = Inr (tf_r f)" "byte_channel d ''g'' 255 = Inr (tf_g f)"
      "byte_channel d ''b'' 255 = Inr (tf_b f)" "byte_channel d ''w'' 0 = Inr (tf_w f)"
    using assms unfolding frame_of_def scaled_def clamp_i16_def Let_def
    by (auto split: json.splits sum.splits if_splits)
  show ?thesis
    using scaled_near[of 1000 t] scaled_near[of 100 x] scaled_near[of 100 y] scaled_near[of 100 z] yaw_near[of yaw]
      py_fmod_bounds[of 360 "of_int (wrap_yaw_cdeg yaw) / 100"]
    by (simp add: frame_kept_def frame_json_def near_def near_heading_def same_channel_def d n c frame_needs)
qed

lemma drone_frames_kept:
  assumes "drone_frames e = Inr (i, fs)"
  shows "drone_kept e (JObj [(''id'', JInt i), (''waypoints'', JList (map frame_json fs))])"
proof -
  obtain d v ws where d: "e = JObj d" "map_of d ''id'' = Some v" "as_py_int v = Some i" "list_under d ''waypoints'' = Inr ws"
    and fs: "map_result frame_record (sort_key json_time ws) = Inr fs"
    using assms unfolding drone_frames_def waypoint_frames_def int_of_def
    by (auto split: json.splits sum.splits option.splits if_splits)
  have "list_all2 (\<lambda>w f. frame_record w = Inr f) (sort_key json_time ws) fs" using fs by (simp add: map_result_Inr)
  then have "list_all2 frame_kept (sort_key json_time ws) (map frame_json fs)"
    unfolding list_all2_map2
    by (rule list_all2_mono) (auto simp: frame_record_def intro: frame_of_kept split: sum.splits if_splits)
  then show ?thesis using d by (auto simp: drone_kept_def list_under_def)
qed

text \<open>C30. The compiled show survives the round trip: whatever \<^verbatim>\<open>export_tara\<close> writes, \<^verbatim>\<open>parse_tara\<close> reads,
  checksum included, as a document with the same drones in the same order; each drone has its identifier and
  all of its waypoints in the order of their times, every time within half a millisecond, every
  coordinate within half a centimetre, every heading the same up to whole turns and half a hundredth of a
  degree, and the four colour bytes unchanged.\<close>

theorem tara_roundtrip:
  assumes "\<And>x b. f32 x = Some b \<Longrightarrow> length b = 4" and "export_tara f32 choreo rate_hz = Inr blob"
  shows "\<exists>es doc es'. drones_of choreo = Inr es \<and> parse_tara of_f32 blob = Inr doc \<and> drones_of doc = Inr es' \<and>
    list_all2 drone_kept es es'"
proof -
  obtain drones rate checksum where p: "choreo_frames choreo = Inr drones"
    "parse_tara of_f32 blob = Inr (tara_document TARA_VERSION (of_f32 rate) (duration_ms drones)
      (int (length (concat (map snd drones)))) checksum drones)"
    using parse_export[where ?of_f32.0 = of_f32, OF _ assms(2)] assms(1) by blast
  obtain es where es: "drones_of choreo = Inr es" "map_result drone_frames es = Inr drones"
    using p(1) by (auto simp: choreo_frames_def drones_of_def split: json.splits sum.splits)
  have "list_all2 (\<lambda>e d. drone_frames e = Inr d) es drones" using es(2) by (simp add: map_result_Inr)
  then have "list_all2 drone_kept es
      (map (\<lambda>(i, fs). JObj [(''id'', JInt i), (''waypoints'', JList (map frame_json fs))]) drones)"
    unfolding list_all2_map2 by (rule list_all2_mono) (auto intro: drone_frames_kept)
  then show ?thesis
    using es(1) p(2) by (simp add: tara_document_def drones_of_def list_under_def)
qed

text \<open>One byte of one coordinate, and the file is refused; more frames than the index can count, and the error
  is the codec's, not a \<^verbatim>\<open>ValueError\<close>.\<close>

definition tiny_show :: json where
  "tiny_show = JObj [(''drones'', JList [JObj [(''id'', JStr ''3''), (''waypoints'', JList
     [JObj [(''time'', JNum (3 / 2)), (''x'', JInt 2), (''y'', JNum (- 1 / 4)), (''z'', JInt 5), (''yaw'', JInt 350)],
      JObj [(''time'', JInt 0), (''x'', JInt 0), (''y'', JInt 0), (''z'', JInt 0), (''g'', JInt 300)]])]])]"

definition zero_rate :: "real \<Rightarrow> bytes option" where "zero_rate x = Some [0, 0, 0, 0]"

definition tiny_track :: "tara_frame list" where
  "tiny_track =
    [\<lparr>tf_time_ms = 0, tf_x = 0, tf_y = 0, tf_z = 0, tf_yaw = 0, tf_r = 255, tf_g = 44, tf_b = 255, tf_w = 0\<rparr>,
     \<lparr>tf_time_ms = 1500, tf_x = 200, tf_y = - 25, tf_z = 500, tf_yaw = - 1000, tf_r = 255, tf_g = 255, tf_b = 255, tf_w = 0\<rparr>]"

lemma parse_3: "parse_int ''3'' = Some 3"
  by code_simp

lemma py_round_neg_numeral: "py_round (- numeral n) = - numeral n"
  using py_round_of_int[of "- numeral n"] by simp

lemma tiny_frames: "choreo_frames tiny_show = Inr [(3, tiny_track)]"
  by (simp add: choreo_frames_def tiny_show_def list_under_def drone_frames_def int_of_def parse_3 waypoint_frames_def
    sort_time_def need_def want_def number_at_def json_time_def opt_number_def getd_def frame_record_def frame_of_def
    scaled_def clamp_i16_def byte_channel_def wrap_yaw_cdeg_def py_fmod_def tiny_track_def pack_frame_def frame_values_def
    TARA_RECORD_FMT_def py_round_neg_numeral)

lemma crc_value_bounds: "0 \<le> crc_value bs" "crc_value bs < 4294967296"
  using uint_lt2p[of "crc32 bs"] by (simp_all add: crc_value_def)

lemma crc_value_inj: "crc_value a = crc_value b \<Longrightarrow> crc32 a = crc32 b"
  by (simp add: crc_value_def word_uint_eq_iff)

lemma export_succeeds:
  assumes "choreo_frames choreo = Inr drones" and "tara_payload drones = Some payload" and "f32 rate_hz = Some rate"
    and "length rate = 4" and "length drones < 65536" and "length (concat (map snd drones)) < 4294967296"
    and "0 \<le> duration_ms drones" and "duration_ms drones < 4294967296"
  shows "\<exists>header. length header = 28 \<and> export_tara f32 choreo rate_hz = Inr (header @ payload)"
proof -
  have "\<exists>header. struct_pack TARA_HEADER_FMT [VB TARA_MAGIC, VI TARA_VERSION, VI (int (length drones)),
      VI (int (length (concat (map snd drones)))), VB rate, VI (duration_ms drones), VI 0, VI (crc_value payload)] = Some header"
    using assms(4-8) crc_value_bounds[of payload]
    by (simp add: TARA_HEADER_FMT_def TARA_MAGIC_def TARA_VERSION_def)
  then show ?thesis
    using assms(1-3) header_back(1)[OF _ assms(4)] by (force simp: export_tara_def)
qed

lemma tiny_export: "\<exists>header payload. length header = 28 \<and> length payload = 36 \<and>
  export_tara zero_rate tiny_show 0 = Inr (header @ payload)"
proof -
  obtain records where r: "enc_all pack_frame tiny_track = Some records"
    by (simp add: tiny_track_def pack_frame_def frame_values_def TARA_RECORD_FMT_def)
  have "length records = 32" using frame_codec.enc_all_length[OF r] by (simp add: tiny_track_def)
  moreover have "tara_payload [(3, tiny_track)] = Some ((le_enc 2 3 @ le_enc 2 2) @ records)"
    using r by (simp add: tara_payload_def pack_index_def pack_block_def tiny_track_def)
  ultimately show ?thesis
    using export_succeeds[of tiny_show "[(3, tiny_track)]" "(le_enc 2 3 @ le_enc 2 2) @ records" zero_rate 0 "[0, 0, 0, 0]"]
    by (fastforce simp: tiny_frames zero_rate_def duration_ms_def tiny_track_def)
qed

theorem tara_roundtrip_witness: "\<exists>blob es doc es'. export_tara zero_rate tiny_show 0 = Inr blob \<and> drones_of tiny_show = Inr es \<and>
  parse_tara (\<lambda>bs. 0) blob = Inr doc \<and> drones_of doc = Inr es' \<and> list_all2 drone_kept es es'"
proof -
  obtain blob where b: "export_tara zero_rate tiny_show 0 = Inr blob" using tiny_export by blast
  then show ?thesis using tara_roundtrip[OF _ b, of "\<lambda>bs. 0"] by (force simp: zero_rate_def)
qed

text \<open>C31. No single corrupted byte reaches a drone: change one byte after the header of a compiled show - in
  the index or in any frame - to any other value, and \<^verbatim>\<open>parse_tara\<close> refuses the file with the checksum error.\<close>

theorem tara_corruption_refused:
  assumes "\<And>x b. f32 x = Some b \<Longrightarrow> length b = 4" and "export_tara f32 choreo rate_hz = Inr blob"
    and "TARA_HEADER_SIZE \<le> i" and "i < length blob" and "b \<noteq> blob ! i"
  shows "parse_tara of_f32 (blob[i := b]) = Inl Checksum_Mismatch"
proof -
  obtain drones payload rate header where e: "f32 rate_hz = Some rate"
    "struct_pack TARA_HEADER_FMT [VB TARA_MAGIC, VI TARA_VERSION, VI (int (length drones)),
      VI (int (length (concat (map snd drones)))), VB rate, VI (duration_ms drones), VI 0, VI (crc_value payload)] = Some header"
    "blob = header @ payload"
    using export_tara_parts[OF assms(2)] by blast
  note header = header_back[OF e(2) assms(1)[OF e(1)]]
  have "crc_value (payload[i - 28 := b]) \<noteq> crc_value payload"
  proof
    assume "crc_value (payload[i - 28 := b]) = crc_value payload"
    then have "crc32 (payload[i - 28 := b]) = crc32 payload" by (rule crc_value_inj)
    moreover have "i - 28 < length payload" and "b \<noteq> payload ! (i - 28)"
      using assms(3-5) header(1) by (auto simp: e(3) nth_append)
    ultimately show False using crc32_one_byte by blast
  qed
  moreover have "blob[i := b] = header @ payload[i - 28 := b]"
    using assms(3) header(1) by (simp add: e(3) list_update_append)
  ultimately show ?thesis using header by (simp add: parse_tara_def)
qed

theorem tara_corruption_refused_witness: "\<exists>blob b. export_tara zero_rate tiny_show 0 = Inr blob \<and> 30 < length blob \<and>
  b \<noteq> blob ! 30 \<and> parse_tara (\<lambda>bs. 0) (blob[30 := b]) = Inl Checksum_Mismatch"
proof -
  obtain blob where b: "export_tara zero_rate tiny_show 0 = Inr blob" "length blob = 64" using tiny_export by force
  have "blob ! 30 + 1 \<noteq> blob ! 30" by simp
  then show ?thesis
    using tara_corruption_refused[OF _ b(1), of 30 "blob ! 30 + 1" "\<lambda>bs. 0"] b by (force simp: zero_rate_def)
qed

text \<open>The index counts the frames of a drone in two bytes. A longer track, or a negative time, is refused by the
  codec's own error, which \<^verbatim>\<open>except ValueError\<close> does not catch.\<close>

lemma long_track_codec_error:
  assumes "choreo_frames choreo = Inr drones" and "(i, fs) \<in> set drones" and "65535 < length fs"
  shows "export_tara f32 choreo rate_hz = Inl Pack_Error \<and> \<not> is_value_error Pack_Error"
proof -
  have "pack_index (i, fs) = None" using assms(3) by (simp add: pack_index_def)
  then have "enc_all pack_index drones = None"
    using assms(2) by (induction drones) (auto split: option.splits)
  then show ?thesis using assms(1) by (simp add: export_tara_def tara_payload_def)
qed

end
