(* ===== verification/Spec2Isabelle.thy ===== *)
theory Spec2Isabelle
  imports Prelude Struct_Codec Fleet_Fsm Broadcast Tdma
    Safety Preflight Auth Show Geometry Validate Crc32 Mission Signing Start_Bridge Blackbox Abort_Clearance Staging
    Manager Launch Playback Monitors Ground_Station Flight_Safety Vault Upload Pacing
    Outlines Choreography Leg_Speed Downwash Feasibility Tara_File
begin

text \<open>
  A verification library for Taramandal, a ground control station (GCS) and authoring studio for
  drone light shows (Python packages under \<^verbatim>\<open>packages/\<close>).

  \<^bold>\<open>The program.\<close> The Studio (\<^verbatim>\<open>tara_studio\<close>) writes a show: per drone a list of timed waypoints with
  colours. \<^verbatim>\<open>tara_core\<close> holds what every package shares: the safety limits, the launch pads, the show
  representation, interpolation, the separation sweep, the compiled mission file, signing. The
  GCS (\<^verbatim>\<open>tara_gcs\<close>) loads a show through gates (schema, separation, altitude, geofence, signature),
  runs the pre-arm checklist, drives the fleet through its lifecycle, streams the show or triggers
  the copies on board, watches separation and geofence, and records everything. Operators log in
  with a role; the downlink is an authenticated broadcast, the uplink a slotted channel.

  \<^bold>\<open>Theories and sources.\<close>
  \<^item> \<open>Prelude\<close>: Python dictionaries (association lists in insertion order), JSON values, deques,
    rounding (\<^verbatim>\<open>round\<close> half to even, \<^verbatim>\<open>int\<close>, \<^verbatim>\<open>fmod\<close>), points, methods that change a state and may
    raise (\<open>sx\<close>), and the interfaces \<open>invariant_machine\<close>, \<open>monotone_machine\<close>, \<open>guarded_machine\<close>,
    \<open>grant_table\<close>.
  \<^item> \<open>Struct_Codec\<close>: the standard library's \<^verbatim>\<open>struct\<close>, and the interface \<open>fixed_codec\<close> of a fixed
    width codec. \<open>Crc32\<close>: \<^verbatim>\<open>zlib.crc32\<close>, bit by bit.
  \<^item> \<open>Fleet_Fsm\<close>: \<^verbatim>\<open>fleet_fsm.py\<close>. The machine's record is the object; every public method is an
    operation; \<open>fsm_step\<close> runs one. Lemmas: the audit trail replays to the state, RUNNING needs a
    complete launch leg, LAND/RTL/ESTOP are never refused.
  \<^item> \<open>Preflight\<close>: \<^verbatim>\<open>preflight.py\<close>. Profiles and policies, rules, confirmations (the two-step latch),
    overrides, evaluation of a fleet, launch decision. Lemmas: what a permitted launch guarantees.
  \<^item> \<open>Safety\<close>: \<^verbatim>\<open>tara_core/safety.py\<close> and \<^verbatim>\<open>layout.py\<close>: limits, pads, hover layers.
  \<^item> \<open>Broadcast\<close>: \<^verbatim>\<open>broadcast_manager.py\<close>: frame codec, ground manager, drone receiver, and the two
    together over a lossy, reordering link.
  \<^item> \<open>Tdma\<close>: \<^verbatim>\<open>tdma_scheduler.py\<close>: slots under any monotone rounding, the attribution of an offset
    exactly and in double precision, the status payload.
  \<^item> \<open>Auth\<close>: \<^verbatim>\<open>auth.py\<close>: roles, the operator file and its cache, sessions, the login throttle; a login is four
    calls, which \<open>server_step\<close> interleaves as the thread pool of the login endpoint does.
  \<^item> \<open>Show\<close>: \<^verbatim>\<open>tara_core/show.py\<close>: waypoints, lenient reader, schema, envelope. \<open>Geometry\<close>:
    \<^verbatim>\<open>geometry.py\<close>: binary search interpolation, the minimum-jerk ramp, sweep times, geodesy.
  \<^item> \<open>Validate\<close>: \<^verbatim>\<open>proximity.py\<close>, \<^verbatim>\<open>validate.py\<close>, \<^verbatim>\<open>assignment.py\<close>: the whole-show report and the
    upload gates. \<open>Start_Bridge\<close>: \<^verbatim>\<open>start_bridge.py\<close>: the leg from the hold to the first waypoint.
  \<^item> \<open>Mission\<close>: \<^verbatim>\<open>tara_core/mission.py\<close>: mission file and show trigger. \<open>Signing\<close>:
    \<^verbatim>\<open>tara_core/signing.py\<close>, \<^verbatim>\<open>tara_gcs/show_auth.py\<close>, \<^verbatim>\<open>tara_studio/signing.py\<close>.
  \<^item> \<open>Blackbox\<close>: \<^verbatim>\<open>blackbox.py\<close>, \<^verbatim>\<open>blackbox_service.py\<close>: recorder, reader, rotation, breach sweeps. Lines are JSON
    objects read by their \<open>type\<close>, columns 64-bit words.
  \<^item> \<open>Abort_Clearance\<close>: \<^verbatim>\<open>abort_clearance.py\<close>: whether an aborted drone can descend clear of the
    show. \<open>Staging\<close>: the slot map, the upload of mission files to the drones, the launch gate and the
    placement check of \<^verbatim>\<open>drone_manager.py\<close>.
  \<^item> \<open>Manager\<close>: the record of \<^verbatim>\<open>drone_manager.py\<close>'s manager, what it orders of the vehicles, stopping
    the playback, RTL, LAND and ESTOP. \<open>Launch\<close>: the launch task, its batches, the launch of one drone,
    failures and their recovery, the climb check, and the monitor that advances the lifecycle.
    \<open>Playback\<close>: starting a show, the playback task, the abort of one drone, the saved show.
    \<open>Monitors\<close>: a pass of the proximity and of the geofence monitor.
  \<^item> \<open>Ground_Station\<close>: the flight commands of \<^verbatim>\<open>main.py\<close> and every task of the manager as steps of one
    machine (\<open>step\<close>, \<open>station_step\<close>), its invariant \<open>station_inv\<close>. \<open>Flight_Safety\<close>: what holds over
    every run of that machine, and the runs that show the findings.
  \<^item> \<open>Vault\<close>: the Studio's \<^verbatim>\<open>project_store.py\<close> and the bodies and errors of \<^verbatim>\<open>project_api.py\<close>, each disk
    write a step that may fail. Lemmas: a project keeps the document and the show of one call, a save
    based on an old revision is refused, an import is not repeated.
  \<^item> \<open>Upload\<close>: \<^verbatim>\<open>trajectory_parser.py\<close>, the one gate for every uploaded file and the adapters of the
    older formats, and \<^verbatim>\<open>state_store.py\<close>. Lemmas: what passes can be flown, what is saved comes back.
  \<^item> \<open>Pacing\<close>: the Studio's \<^verbatim>\<open>pacing.py\<close> and the ramp of \<^verbatim>\<open>generator.py\<close>: the planned times are enough for
    the planned distances. \<open>Outlines\<close>: the nested outlines of \<^verbatim>\<open>generator.py\<close> and the contour sampler of
    \<^verbatim>\<open>voxelizer.py\<close>: the nesting ends, every drone gets a point. \<open>Choreography\<close>: the rest of
    \<^verbatim>\<open>generator.py\<close>, from the launch state to the waypoints of the five shapes; the loop is followed by an
    invariant (\<open>loop_inv\<close>), and the result is put through the gate of \<open>Upload\<close>. \<open>Leg_Speed\<close>: how fast these
    waypoints are flown, also into a formation that moves.
  \<^item> \<open>Downwash\<close>: the Studio's \<^verbatim>\<open>optimizer.py\<close>: the assignment of drones to targets that keeps them out of
    each other's downwash. Lemmas: the result is a permutation, its intrusions are reported as they are.
  \<^item> \<open>Feasibility\<close>: the Studio's \<^verbatim>\<open>validator.py\<close>: the dynamics sweep, whose measures are functions of a
    sampled track and an index, and the certificate for a flight export. \<open>Tara_File\<close>: the compiled show of
    \<^verbatim>\<open>exporter.py\<close>, writer and reader: the round trip, and that no single corrupted byte is accepted.

  \<^bold>\<open>Conventions.\<close> An object is a \<open>record\<close>, a method a function that returns the updated record; a
  method that raises returns a sum or works in \<open>sx\<close>, which keeps the state changes made before the
  exception. Clock readings, random bytes and the success of file operations are arguments of each
  call. A coroutine is cut at its awaits: a stretch between two awaits is one step, what it waits
  for is a phase kept in the state, and the steps of all tasks and requests interleave in any order.
  Python integers are \<open>int\<close>, fixed-width values words or lists of bytes; floats are reals,
  except in \<open>Tdma\<close>, where every operation is rounded by a parameter \<open>fl\<close> and the double
  precision counterexample is computed with the exact doubles. Strings are lists of characters
  (UTF-8 bytes where they are encoded).

  \<^bold>\<open>Parameters.\<close> What is not in the repository is an argument: HMAC-SHA-256, scrypt, SHA-256,
  Ed25519, the PEM, TOML, JSON and base64 codecs, the k-d tree (its documented result is
  \<open>finds_near_pairs\<close>), the assignment solver, the printing of floats, \<^verbatim>\<open>numpy.interp\<close> (\<open>documented_interp\<close>),
  the members of a ZIP archive, the rows pandas reads from a CSV file, \<^verbatim>\<open>float\<close> of a text, \<^verbatim>\<open>math.atan2\<close>,
  what an awaited MAVSDK call ends in. Each hypothesis on one of
  them is documented behaviour, and each property that has one has a witness with a concrete
  function.

  \<^bold>\<open>Termination and bounds.\<close> Every definition is total. The binary search \<open>bisect_left\<close> is a
  \<open>function\<close> with the measure \<open>hi - lo\<close>; the batches of a launch are a \<open>fun\<close> on the list of drones.
  The loop that nests outlines is a \<open>partial_function (option)\<close>; \<open>outlines_always_return\<close> proves that it
  returns. The forty halvings of \<open>bisect_scale\<close> and the passes of \<open>repair\<close> and \<open>refine\<close> are the
  code's own bounds; no definition uses fuel.

  \<^bold>\<open>Not modelled.\<close> The MAVSDK connection and the supervision of its telemetry streams, the bench
  sequence of a single drone, the read-only and configuration routes and the WebSocket of the API,
  process control, the kinematic simulator, formations from text, SVG, meshes and images (array code over
  third-party geometry libraries), the Studio's energy estimate and light effects, the web interfaces,
  CSV export, the wording of schema errors, caches, log lines, and the timing of asyncio tasks and threads.
\<close>

end
